(* ===== verification/Nginx_Prelude.thy ===== *)
theory Nginx_Prelude
  imports Main "HOL-Library.Word"
begin

text \<open>
  Shared ground of the development: the machine types of the nginx sources, the byte
  constants its parsers compare against, the shape of its byte-scanning loops and the
  generic facts on words and lists the component theories use.

  A pointer into a buffer is an index (\<^typ>\<open>nat\<close>) into the list of bytes that models the
  buffer's memory; a pointer field that can be \<open>NULL\<close> is a \<^typ>\<open>nat option\<close>.
  \<open>u_char\<close> is an 8-bit word and \<open>ngx_uint_t\<close> a 64-bit word (LP64).
\<close>

unbundle bit_operations_syntax

type_synonym u_char = "8 word"
type_synonym ngx_uint_t = "64 word"
type_synonym ngx_ptr = "nat option"

text \<open>The return codes of \<^verbatim>\<open>src/core/ngx_core.h\<close>.\<close>

datatype ngx_rc = NGX_OK | NGX_ERROR | NGX_AGAIN | NGX_BUSY | NGX_DONE | NGX_DECLINED | NGX_ABORT

abbreviation (input) c8 :: "char \<Rightarrow> u_char" where
  "c8 c \<equiv> of_char c"

abbreviation LF :: u_char where "LF \<equiv> 10"
abbreviation CR :: u_char where "CR \<equiv> 13"
abbreviation HT :: u_char where "HT \<equiv> 9"
abbreviation SP :: u_char where "SP \<equiv> 32"

text \<open>Addresses of linked structures in an explicit store.\<close>

type_synonym addr = nat

abbreviation NULL :: addr where "NULL \<equiv> 0"

text \<open>A string literal of the source as bytes.\<close>

definition bytes :: "string \<Rightarrow> u_char list" where
  "bytes s = map of_char s"

lemma bytes_simps [simp]:
  "bytes [] = []" "bytes (c # cs) = of_char c # bytes cs" "length (bytes s) = length s"
  by (simp_all add: bytes_def)

lemma bytes_append [simp]: "bytes (s @ t) = bytes s @ bytes t"
  by (simp add: bytes_def)

section \<open>Character classes\<close>

definition is_digit :: "u_char \<Rightarrow> bool" where
  "is_digit ch \<longleftrightarrow> c8 CHR ''0'' \<le> ch \<and> ch \<le> c8 CHR ''9''"

text \<open>\<open>c = (u_char) (ch | 0x20); c >= 'a' && c <= 'f'\<close> and its \<open>'z'\<close> variant.\<close>

definition is_hex_alpha :: "u_char \<Rightarrow> bool" where
  "is_hex_alpha ch \<longleftrightarrow> c8 CHR ''a'' \<le> ch OR 0x20 \<and> ch OR 0x20 \<le> c8 CHR ''f''"

definition is_alpha :: "u_char \<Rightarrow> bool" where
  "is_alpha ch \<longleftrightarrow> c8 CHR ''a'' \<le> ch OR 0x20 \<and> ch OR 0x20 \<le> c8 CHR ''z''"

named_theorems char_class_simps "character-class tests unfolded to comparisons"

lemmas [char_class_simps] = is_digit_def is_hex_alpha_def is_alpha_def

definition ngx_tolower :: "u_char \<Rightarrow> u_char" where
  "ngx_tolower c = (if c8 CHR ''A'' \<le> c \<and> c \<le> c8 CHR ''Z'' then c OR 0x20 else c)"

text \<open>Both strings have at least \<open>n\<close> bytes.\<close>

fun ngx_strncasecmp :: "u_char list \<Rightarrow> u_char list \<Rightarrow> nat \<Rightarrow> int" where
  "ngx_strncasecmp (c1 # s1) (c2 # s2) (Suc n) =
     (let a = ngx_tolower c1; b = ngx_tolower c2 in
      if a = b then (if a \<noteq> 0 then ngx_strncasecmp s1 s2 n else 0) else uint a - uint b)"
| "ngx_strncasecmp _ _ _ = 0"

text \<open>The comparison of lengths and \<open>ngx_strncmp\<close>, which stops at a zero byte.\<close>

definition same_str :: "u_char list \<Rightarrow> u_char list \<Rightarrow> bool" where
  "same_str a b \<longleftrightarrow> length a = length b \<and> takeWhile (\<lambda>c. c \<noteq> 0) a = takeWhile (\<lambda>c. c \<noteq> 0) b"

text \<open>Facts on all bytes are decided by checking the 256 values in the kernel.\<close>

lemma byte_bound: "unat (c :: u_char) < 256"
  using unsigned_less[of c] by simp

lemma all_bytesI:
  assumes "list_all P (map of_nat [0..<256])"
  shows "P (c :: u_char)"
proof -
  have "unat c \<in> set [0..<256]" using byte_bound by simp
  with assms have "P (of_nat (unat c))" by (metis (no_types) list_all_iff imageI list.set_map)
  thus ?thesis by simp
qed

text \<open>\<open>table[ch >> 5] & (1U << (ch & 0x1f))\<close>: membership in a 256-bit character map.\<close>

definition bitmap_test :: "32 word list \<Rightarrow> u_char \<Rightarrow> bool" where
  "bitmap_test table ch \<longleftrightarrow>
     table ! unat (drop_bit 5 ch) AND push_bit (unat (ch AND 0x1f)) 1 \<noteq> 0"

section \<open>Scanning loops\<close>

text \<open>
  The parsers are loops \<open>for (p = b->pos; p < b->last; p++) { ch = *p; switch (state) ... }\<close>.
  One pass of the body either falls through to the next byte (\<open>Next\<close>) or leaves the loop
  (\<open>Stop\<close>); \<open>scan\<close> is the loop. It ends either at the end of the buffer (\<open>More\<close>, the caller
  returns \<open>NGX_AGAIN\<close>) or at the byte \<open>p\<close> whose body left it (\<open>Halt\<close>).
\<close>

datatype ('s, 'r) outcome = Next 's | Stop 'r

datatype ('s, 'r) scanned = More nat 's | Halt nat 'r

type_synonym ('s, 'r) body = "u_char list \<Rightarrow> nat \<Rightarrow> u_char \<Rightarrow> 's \<Rightarrow> ('s, 'r) outcome"

function scan :: "('s, 'r) body \<Rightarrow> u_char list \<Rightarrow> nat \<Rightarrow> nat \<Rightarrow> 's \<Rightarrow> ('s, 'r) scanned" where
  "scan f mem p lim s =
     (if p < lim
      then (case f mem p (mem ! p) s of
              Next s' \<Rightarrow> scan f mem (Suc p) lim s'
            | Stop r \<Rightarrow> Halt p r)
      else More p s)"
  by pat_completeness auto
termination
  by (relation "measure (\<lambda>(f, mem, p, lim, s). lim - p)") auto

declare scan.simps [simp del]

lemma scan_done [simp]: "lim \<le> p \<Longrightarrow> scan f mem p lim s = More p s"
  by (simp add: scan.simps)

lemma scan_step:
  "p < lim \<Longrightarrow> scan f mem p lim s =
     (case f mem p (mem ! p) s of Next s' \<Rightarrow> scan f mem (Suc p) lim s' | Stop r \<Rightarrow> Halt p r)"
  by (subst scan.simps) simp

text \<open>Where a scan ends.\<close>

lemma scan_MoreD: "scan f mem p lim s = More q s' \<Longrightarrow> p \<le> lim \<Longrightarrow> q = lim"
proof (induction f mem p lim s rule: scan.induct)
  case (1 f mem p lim s)
  then show ?case
    by (cases "p < lim") (auto simp: scan_step split: outcome.splits)
qed

lemma scan_HaltD: "scan f mem p lim s = Halt q r \<Longrightarrow> p \<le> q \<and> q < lim"
proof (induction f mem p lim s rule: scan.induct)
  case (1 f mem p lim s)
  then show ?case
    by (cases "p < lim") (fastforce simp: scan_step split: outcome.splits)+
qed

text \<open>A scan can be interrupted anywhere and taken up again from the state it left.\<close>

lemma scan_split:
  assumes "p \<le> mid" "mid \<le> lim"
  shows "scan f mem p lim s =
    (case scan f mem p mid s of
       More q s' \<Rightarrow> scan f mem q lim s' | Halt q r \<Rightarrow> Halt q r)"
  using assms
proof (induction f mem p mid s rule: scan.induct)
  case (1 f mem p mid s)
  show ?case
  proof (cases "p < mid")
    case True
    with 1 show ?thesis
      by (simp add: scan_step split: outcome.splits)
  next
    case False
    with 1 show ?thesis by simp
  qed
qed

text \<open>
  The loop body may look back at bytes it has passed (the request line parser does), never
  ahead: bytes beyond \<open>p\<close> do not matter.
\<close>

definition local_body :: "('s, 'r) body \<Rightarrow> bool" where
  "local_body f \<longleftrightarrow> (\<forall>mem mem' p ch s. p < length mem \<longrightarrow> p < length mem' \<longrightarrow>
     take (Suc p) mem = take (Suc p) mem' \<longrightarrow> f mem p ch s = f mem' p ch s)"

lemma take_eq_nth:
  "take n xs = take n ys \<Longrightarrow> i < n \<Longrightarrow> i < length xs \<Longrightarrow> i < length ys \<Longrightarrow> xs ! i = ys ! i"
  by (metis nth_take)

lemma scan_cong_mem:
  assumes "local_body f" "take lim mem = take lim mem'"
    "lim \<le> length mem" "lim \<le> length mem'"
  shows "scan f mem p lim s = scan f mem' p lim s"
  using assms
proof (induction f mem p lim s rule: scan.induct)
  case (1 f mem p lim s)
  show ?case
  proof (cases "p < lim")
    case True
    have "take (Suc p) mem = take (Suc p) mem'"
      using 1(3) True by (metis Suc_leI min.absorb1 take_take)
    moreover have "mem ! p = mem' ! p"
      using 1 True take_eq_nth[of lim mem mem' p] by simp
    ultimately have "f mem p (mem ! p) s = f mem' p (mem' ! p) s"
      using 1(2,4,5) True unfolding local_body_def by simp
    then show ?thesis
      using 1 True by (auto simp: scan_step split: outcome.splits)
  next
    case False
    then show ?thesis by simp
  qed
qed

lemma scan_invariant_at:
  assumes "I p s"
    and "\<And>q s s'. I q s \<Longrightarrow> p \<le> q \<Longrightarrow> q < lim \<Longrightarrow> f mem q (mem ! q) s = Next s' \<Longrightarrow> I (Suc q) s'"
  shows "case scan f mem p lim s of
      More q s' \<Rightarrow> I q s'
    | Halt q r \<Rightarrow> \<exists>s'. I q s' \<and> f mem q (mem ! q) s' = Stop r"
  using assms
proof (induction f mem p lim s rule: scan.induct)
  case (1 f mem p lim s)
  show ?case
  proof (cases "p < lim")
    case True
    show ?thesis
    proof (cases "f mem p (mem ! p) s")
      case (Next s')
      have "I (Suc p) s'" using "1.prems" True Next by blast
      moreover have "\<And>q s s'. I q s \<Longrightarrow> Suc p \<le> q \<Longrightarrow> q < lim \<Longrightarrow> f mem q (mem ! q) s = Next s' \<Longrightarrow> I (Suc q) s'"
        using "1.prems"(2) by (meson Suc_leD)
      ultimately show ?thesis using "1.IH"[OF True Next] True Next by (simp add: scan_step)
    next
      case (Stop r)
      with True "1.prems" show ?thesis by (auto simp: scan_step)
    qed
  next
    case False
    with "1.prems" show ?thesis by simp
  qed
qed

lemma scan_invariant:
  assumes "I s"
    and "\<And>q s s'. I s \<Longrightarrow> p \<le> q \<Longrightarrow> q < lim \<Longrightarrow> f mem q (mem ! q) s = Next s' \<Longrightarrow> I s'"
  shows "case scan f mem p lim s of
      More q s' \<Rightarrow> I s'
    | Halt q r \<Rightarrow> \<exists>s'. I s' \<and> f mem q (mem ! q) s' = Stop r"
  by (rule scan_invariant_at[where I = "\<lambda>_. I"]) (use assms in blast)+

text \<open>A stretch of bytes that the body passes over, and the scan over it.\<close>

fun run :: "('s, 'r) body \<Rightarrow> u_char list \<Rightarrow> nat \<Rightarrow> u_char list \<Rightarrow> 's \<Rightarrow> 's option" where
  "run f mem p [] s = Some s"
| "run f mem p (c # cs) s = (case f mem p c s of Next s' \<Rightarrow> run f mem (Suc p) cs s' | Stop r \<Rightarrow> None)"

lemma run_append:
  "run f mem p (xs @ ys) s = Option.bind (run f mem p xs s) (run f mem (p + length xs) ys)"
  by (induction xs arbitrary: p s) (auto split: outcome.split)

lemma run_appendI:
  "run f mem p xs s = Some s1 \<Longrightarrow> run f mem (p + length xs) ys s1 = Some s2 \<Longrightarrow> run f mem p (xs @ ys) s = Some s2"
  by (simp add: run_append)

lemma scan_run:
  assumes "run f mem p xs s = Some s'" "p + length xs \<le> lim"
    and "\<And>i. i < length xs \<Longrightarrow> mem ! (p + i) = xs ! i"
  shows "scan f mem p lim s = scan f mem (p + length xs) lim s'"
  using assms
proof (induction xs arbitrary: p s)
  case (Cons c cs)
  have c: "mem ! p = c" using Cons.prems(3)[of 0] by simp
  from Cons.prems(1) obtain s1 where s1: "f mem p c s = Next s1" "run f mem (Suc p) cs s1 = Some s'"
    by (auto split: outcome.splits)
  have "scan f mem (Suc p) lim s1 = scan f mem (Suc p + length cs) lim s'"
    using Cons.prems(2) Cons.prems(3)[of "Suc _"] by (intro Cons.IH[OF s1(2)]) auto
  moreover have "p < lim" using Cons.prems(2) by simp
  ultimately show ?case by (simp add: scan_step c s1(1))
qed simp

lemma scan_run_at:
  assumes "run f mem (length pre) xs s = Some s'" "mem = pre @ xs @ post" "length pre + length xs \<le> lim"
  shows "scan f mem (length pre) lim s = scan f mem (length pre + length xs) lim s'"
  using assms by (intro scan_run) (auto simp: nth_append)

section \<open>The interface of a resumable parser\<close>

text \<open>
  Every line parser of \<^verbatim>\<open>ngx_http_parse.c\<close> keeps its progress in the request and may be called
  again when more bytes have arrived in the same buffer. \<open>parse mem pos lim s\<close> is one call; it
  asks for more input (\<open>Again\<close>) or finishes at an index with a result (\<open>Fin\<close>).
\<close>

datatype ('s, 'r) parsed = Again 's | Fin nat 'r

fun feed :: "(u_char list \<Rightarrow> nat \<Rightarrow> nat \<Rightarrow> 's \<Rightarrow> ('s, 'r) parsed) \<Rightarrow>
    u_char list \<Rightarrow> nat \<Rightarrow> nat list \<Rightarrow> 's \<Rightarrow> ('s, 'r) parsed" where
  "feed parse mem pos [] s = Again s"
| "feed parse mem pos (l # ls) s =
     (case parse mem pos l s of
        Again s' \<Rightarrow> feed parse mem l ls s'
      | Fin q r \<Rightarrow> Fin q r)"

locale resumable_parser =
  fixes parse :: "u_char list \<Rightarrow> nat \<Rightarrow> nat \<Rightarrow> 's \<Rightarrow> ('s, 'r) parsed"
    and wf :: "'s \<Rightarrow> bool"
  assumes parse_split: "pos \<le> mid \<Longrightarrow> mid \<le> lim \<Longrightarrow> wf s \<Longrightarrow>
      parse mem pos lim s =
        (case parse mem pos mid s of Again s' \<Rightarrow> parse mem mid lim s' | Fin q r \<Rightarrow> Fin q r)"
    and parse_wf: "parse mem pos lim s = Again s' \<Longrightarrow> wf s \<Longrightarrow> wf s'"
    and parse_local: "take lim mem = take lim mem' \<Longrightarrow> lim \<le> length mem \<Longrightarrow>
      lim \<le> length mem' \<Longrightarrow> parse mem pos lim s = parse mem' pos lim s"
begin

text \<open>How the input was cut into reads does not change the outcome.\<close>

lemma feed_eq_parse:
  "sorted (pos # ls) \<Longrightarrow> ls \<noteq> [] \<Longrightarrow> wf s \<Longrightarrow>
     feed parse mem pos ls s = parse mem pos (List.last ls) s"
proof (induction ls arbitrary: pos s)
  case Nil
  then show ?case by simp
next
  case (Cons l ls)
  have l: "pos \<le> l" "sorted (l # ls)" using Cons.prems by auto
  show ?case
  proof (cases "ls = []")
    case True
    then show ?thesis by (simp split: parsed.split)
  next
    case False
    hence "l \<le> List.last ls" using l by auto
    from parse_split[OF l(1) this Cons.prems(3)] False
    have eq: "parse mem pos (List.last (l # ls)) s =
      (case parse mem pos l s of Again s' \<Rightarrow> parse mem l (List.last ls) s' | Fin q r \<Rightarrow> Fin q r)"
      by simp
    show ?thesis
      unfolding eq feed.simps
      using Cons.IH[OF l(2) False] parse_wf[OF _ Cons.prems(3)]
      by (auto split: parsed.split)
  qed
qed

end

text \<open>
  The parsers are a scan with a verdict on how it ended: \<open>done p r\<close> is what the code after the
  loop makes of leaving the loop at byte \<open>p\<close>.
\<close>

definition scan_parse :: "('s, 'a) body \<Rightarrow> (nat \<Rightarrow> 'a \<Rightarrow> nat \<times> 'r) \<Rightarrow>
    u_char list \<Rightarrow> nat \<Rightarrow> nat \<Rightarrow> 's \<Rightarrow> ('s, 'r) parsed" where
  "scan_parse f fin mem pos lim s =
     (case scan f mem pos lim s of
        More q s' \<Rightarrow> Again s'
      | Halt p a \<Rightarrow> (case fin p a of (q, r) \<Rightarrow> Fin q r))"

lemma scan_parse_split:
  assumes "pos \<le> mid" "mid \<le> lim"
  shows "scan_parse f fin mem pos lim s =
    (case scan_parse f fin mem pos mid s of
       Again s' \<Rightarrow> scan_parse f fin mem mid lim s' | Fin q r \<Rightarrow> Fin q r)"
  using scan_split[OF assms, of f mem s] scan_MoreD[of f mem pos mid s] assms
  by (auto simp: scan_parse_def split: scanned.splits prod.splits)

lemma scan_parse_resumable:
  assumes "local_body f"
  shows "resumable_parser (scan_parse f fin) (\<lambda>_. True)"
proof
  fix pos mid lim :: nat and s mem
  assume "pos \<le> mid" "mid \<le> lim"
  thus "scan_parse f fin mem pos lim s =
    (case scan_parse f fin mem pos mid s of
       Again s' \<Rightarrow> scan_parse f fin mem mid lim s' | Fin q r \<Rightarrow> Fin q r)"
    by (rule scan_parse_split)
next
  fix lim pos s and mem mem' :: "u_char list"
  assume "take lim mem = take lim mem'" "lim \<le> length mem" "lim \<le> length mem'"
  with assms show "scan_parse f fin mem pos lim s = scan_parse f fin mem' pos lim s"
    unfolding scan_parse_def by (metis scan_cong_mem)
qed simp

section \<open>Lists\<close>

lemma sum_list_nth: "(\<Sum>x\<leftarrow>xs. f x) = (\<Sum>i<length xs. f (xs ! i))" for f :: "'a \<Rightarrow> int"
  by (simp add: sum_list_sum_nth atLeast0LessThan)

lemma nth_list_update_if: "xs[i := x] ! j = (if i = j \<and> j < length xs then x else xs ! j)"
  by (cases "i < length xs") (auto simp: nth_list_update list_update_beyond)

lemma length_filter_update:
  "j < length xs \<Longrightarrow> length (filter P (xs[j := x])) + (if P (xs ! j) then 1 else 0) =
     length (filter P xs) + (if P x then 1 else 0)"
proof (induction xs arbitrary: j)
  case (Cons y xs)
  then show ?case by (cases j) auto
qed simp

lemma list_all_update: "list_all P xs \<Longrightarrow> P x \<Longrightarrow> list_all P (xs[j := x])"
  using set_update_subset_insert[of xs j x] by (auto simp: list_all_iff)

text \<open>The bytes of a buffer from \<open>i\<close> up to, not including, \<open>j\<close>.\<close>

definition between :: "u_char list \<Rightarrow> nat \<Rightarrow> nat \<Rightarrow> u_char list" where
  "between src i j = take (j - i) (drop i src)"

lemma between_Nil [simp]: "j \<le> i \<Longrightarrow> between src i j = []"
  by (simp add: between_def)

lemma between_Cons: "i < j \<Longrightarrow> j \<le> length src \<Longrightarrow> between src i j = src ! i # between src (Suc i) j"
  by (simp add: between_def Cons_nth_drop_Suc[symmetric] take_Cons' )

lemma between_local:
  assumes "take (Suc p) mem = take (Suc p) mem'"
  shows "between mem m p = between mem' m p"
proof -
  have eq: "between xs m p = drop m (take p (take (Suc p) xs))" for xs
    by (simp add: between_def drop_take)
  show ?thesis unfolding eq assms ..
qed

lemma between_snoc: "i \<le> j \<Longrightarrow> j < length src \<Longrightarrow> between src i (Suc j) = between src i j @ [src ! j]"
  by (simp add: between_def Suc_diff_le take_Suc_conv_app_nth)

lemma length_between: "j \<le> length src \<Longrightarrow> length (between src i j) = j - i"
  by (simp add: between_def)

lemma between_nth: "i < j - u \<Longrightarrow> j \<le> length mem \<Longrightarrow> between mem u j ! i = mem ! (u + i)"
  by (simp add: between_def)

lemma between_append [simp]: "between (pre @ xs @ post) (length pre) (length pre + length xs) = xs"
  by (simp add: between_def)

section \<open>Words\<close>

text \<open>Two bytes are equal when their eight bits are.\<close>

lemma byte_eqI:
  assumes "bit a 0 = bit b 0" "bit a 1 = bit b 1" "bit a 2 = bit b 2" "bit a 3 = bit b 3"
    "bit a 4 = bit b 4" "bit a 5 = bit b 5" "bit a 6 = bit b 6" "bit a 7 = bit b 7"
  shows "(a :: u_char) = b"
proof (rule bit_word_eqI)
  fix n assume "n < LENGTH(8)"
  hence "n = 0 \<or> n = 1 \<or> n = 2 \<or> n = 3 \<or> n = 4 \<or> n = 5 \<or> n = 6 \<or> n = 7" by auto
  thus "bit a n = bit b n" using assms by auto
qed

lemma byte_high_bit [simp]: "8 \<le> n \<Longrightarrow> \<not> bit (b :: u_char) n"
  using bit_imp_le_length[of b n] by auto

lemma and_masks:
  "(x :: u_char) AND 63 = take_bit 6 x" "(x :: u_char) AND 31 = take_bit 5 x"
  "(x :: u_char) AND 15 = take_bit 4 x" "(x :: u_char) AND 3 = take_bit 2 x"
  by (simp_all add: take_bit_eq_mask mask_eq_exp_minus_1)

lemma bit_and_push_bit_1: "(w AND push_bit k 1 \<noteq> 0) = bit (w :: 'a::len word) k"
proof -
  have "w AND push_bit k 1 = of_bool (bit w k) * push_bit k 1"
    by (rule bit_word_eqI) (auto simp: bit_simps)
  moreover have "bit w k \<Longrightarrow> push_bit k (1 :: 'a word) \<noteq> 0"
    by (metis bit_imp_le_length push_bit_of_1 not_le exp_eq_zero_iff)
  ultimately show ?thesis by auto
qed

end
