(* ===== verification/Ngx_Base64.thy ===== *)
theory Ngx_Base64
  imports Nginx_Prelude
begin

text \<open>
  Base64 of \<^verbatim>\<open>src/core/ngx_string.c\<close>: the standard and the URL alphabet, their 256-entry
  reverse tables, and the encoder and decoder both share. The round trip is proved once, in a
  locale that states what an alphabet and its table must satisfy, and both alphabets of the
  source are shown to satisfy it.
\<close>

section \<open>Alphabets\<close>

definition basis64 :: "u_char list" where
  "basis64 = bytes ''ABCDEFGHIJKLMNOPQRSTUVWXYZabcdefghijklmnopqrstuvwxyz0123456789+/''"

definition basis64url :: "u_char list" where
  "basis64url = bytes ''ABCDEFGHIJKLMNOPQRSTUVWXYZabcdefghijklmnopqrstuvwxyz0123456789-_''"

definition decode_basis64 :: "u_char list" where
  "decode_basis64 = [
    77, 77, 77, 77, 77, 77, 77, 77, 77, 77, 77, 77, 77, 77, 77, 77,
    77, 77, 77, 77, 77, 77, 77, 77, 77, 77, 77, 77, 77, 77, 77, 77,
    77, 77, 77, 77, 77, 77, 77, 77, 77, 77, 77, 62, 77, 77, 77, 63,
    52, 53, 54, 55, 56, 57, 58, 59, 60, 61, 77, 77, 77, 77, 77, 77,
    77, 0, 1, 2, 3, 4, 5, 6, 7, 8, 9, 10, 11, 12, 13, 14,
    15, 16, 17, 18, 19, 20, 21, 22, 23, 24, 25, 77, 77, 77, 77, 77,
    77, 26, 27, 28, 29, 30, 31, 32, 33, 34, 35, 36, 37, 38, 39, 40,
    41, 42, 43, 44, 45, 46, 47, 48, 49, 50, 51, 77, 77, 77, 77, 77,
    77, 77, 77, 77, 77, 77, 77, 77, 77, 77, 77, 77, 77, 77, 77, 77,
    77, 77, 77, 77, 77, 77, 77, 77, 77, 77, 77, 77, 77, 77, 77, 77,
    77, 77, 77, 77, 77, 77, 77, 77, 77, 77, 77, 77, 77, 77, 77, 77,
    77, 77, 77, 77, 77, 77, 77, 77, 77, 77, 77, 77, 77, 77, 77, 77,
    77, 77, 77, 77, 77, 77, 77, 77, 77, 77, 77, 77, 77, 77, 77, 77,
    77, 77, 77, 77, 77, 77, 77, 77, 77, 77, 77, 77, 77, 77, 77, 77,
    77, 77, 77, 77, 77, 77, 77, 77, 77, 77, 77, 77, 77, 77, 77, 77,
    77, 77, 77, 77, 77, 77, 77, 77, 77, 77, 77, 77, 77, 77, 77, 77]"

definition decode_basis64url :: "u_char list" where
  "decode_basis64url = [
    77, 77, 77, 77, 77, 77, 77, 77, 77, 77, 77, 77, 77, 77, 77, 77,
    77, 77, 77, 77, 77, 77, 77, 77, 77, 77, 77, 77, 77, 77, 77, 77,
    77, 77, 77, 77, 77, 77, 77, 77, 77, 77, 77, 77, 77, 62, 77, 77,
    52, 53, 54, 55, 56, 57, 58, 59, 60, 61, 77, 77, 77, 77, 77, 77,
    77, 0, 1, 2, 3, 4, 5, 6, 7, 8, 9, 10, 11, 12, 13, 14,
    15, 16, 17, 18, 19, 20, 21, 22, 23, 24, 25, 77, 77, 77, 77, 63,
    77, 26, 27, 28, 29, 30, 31, 32, 33, 34, 35, 36, 37, 38, 39, 40,
    41, 42, 43, 44, 45, 46, 47, 48, 49, 50, 51, 77, 77, 77, 77, 77,
    77, 77, 77, 77, 77, 77, 77, 77, 77, 77, 77, 77, 77, 77, 77, 77,
    77, 77, 77, 77, 77, 77, 77, 77, 77, 77, 77, 77, 77, 77, 77, 77,
    77, 77, 77, 77, 77, 77, 77, 77, 77, 77, 77, 77, 77, 77, 77, 77,
    77, 77, 77, 77, 77, 77, 77, 77, 77, 77, 77, 77, 77, 77, 77, 77,
    77, 77, 77, 77, 77, 77, 77, 77, 77, 77, 77, 77, 77, 77, 77, 77,
    77, 77, 77, 77, 77, 77, 77, 77, 77, 77, 77, 77, 77, 77, 77, 77,
    77, 77, 77, 77, 77, 77, 77, 77, 77, 77, 77, 77, 77, 77, 77, 77,
    77, 77, 77, 77, 77, 77, 77, 77, 77, 77, 77, 77, 77, 77, 77, 77]"

section \<open>Encoding\<close>

fun encode_base64_loop :: "u_char list \<Rightarrow> bool \<Rightarrow> u_char list \<Rightarrow> u_char list" where
  "encode_base64_loop basis padding (s0 # s1 # s2 # s) =
     basis ! unat (drop_bit 2 s0 AND 0x3f)
     # basis ! unat (push_bit 4 (s0 AND 3) OR drop_bit 4 s1)
     # basis ! unat (push_bit 2 (s1 AND 0x0f) OR drop_bit 6 s2)
     # basis ! unat (s2 AND 0x3f)
     # encode_base64_loop basis padding s"
| "encode_base64_loop basis padding [s0, s1] =
     [basis ! unat (drop_bit 2 s0 AND 0x3f),
      basis ! unat (push_bit 4 (s0 AND 3) OR drop_bit 4 s1),
      basis ! unat (push_bit 2 (s1 AND 0x0f))]
     @ (if padding then [c8 CHR ''='' ] else [])"
| "encode_base64_loop basis padding [s0] =
     [basis ! unat (drop_bit 2 s0 AND 0x3f),
      basis ! unat (push_bit 4 (s0 AND 3))]
     @ (if padding then [c8 CHR ''='', c8 CHR ''=''] else [])"
| "encode_base64_loop basis padding [] = []"

definition ngx_encode_base64_internal :: "u_char list \<Rightarrow> u_char list \<Rightarrow> bool \<Rightarrow> u_char list" where
  "ngx_encode_base64_internal src basis padding = encode_base64_loop basis padding src"

definition ngx_encode_base64 :: "u_char list \<Rightarrow> u_char list" where
  "ngx_encode_base64 src = ngx_encode_base64_internal src basis64 True"

definition ngx_encode_base64url :: "u_char list \<Rightarrow> u_char list" where
  "ngx_encode_base64url src = ngx_encode_base64_internal src basis64url False"

section \<open>Decoding\<close>

text \<open>
  The first loop measures the part before the padding and refuses a byte outside the alphabet
  (table entry 77, \<open>NGX_ERROR\<close> is \<^term>\<open>None\<close>).
\<close>

fun decode_base64_len :: "u_char list \<Rightarrow> u_char list \<Rightarrow> nat option" where
  "decode_base64_len basis [] = Some 0"
| "decode_base64_len basis (c # src) =
     (if c = c8 CHR ''='' then Some 0
      else if basis ! unat c = 77 then None
      else map_option Suc (decode_base64_len basis src))"

text \<open>The second loop, over the \<open>len\<close> bytes measured.\<close>

fun decode_base64_loop :: "u_char list \<Rightarrow> u_char list \<Rightarrow> u_char list" where
  "decode_base64_loop basis (s0 # s1 # s2 # s3 # s) =
     (push_bit 2 (basis ! unat s0) OR drop_bit 4 (basis ! unat s1))
     # (push_bit 4 (basis ! unat s1) OR drop_bit 2 (basis ! unat s2))
     # (push_bit 6 (basis ! unat s2) OR (basis ! unat s3))
     # decode_base64_loop basis s"
| "decode_base64_loop basis s =
     (if length s > 1 then [push_bit 2 (basis ! unat (s ! 0)) OR drop_bit 4 (basis ! unat (s ! 1))] else [])
     @ (if length s > 2 then [push_bit 4 (basis ! unat (s ! 1)) OR drop_bit 2 (basis ! unat (s ! 2))] else [])"

definition ngx_decode_base64_internal :: "u_char list \<Rightarrow> u_char list \<Rightarrow> u_char list option" where
  "ngx_decode_base64_internal src basis =
     (case decode_base64_len basis src of
        None \<Rightarrow> None
      | Some len \<Rightarrow>
          if len mod 4 = 1 then None else Some (decode_base64_loop basis (take len src)))"

definition ngx_decode_base64 :: "u_char list \<Rightarrow> u_char list option" where
  "ngx_decode_base64 src = ngx_decode_base64_internal src decode_basis64"

definition ngx_decode_base64url :: "u_char list \<Rightarrow> u_char list option" where
  "ngx_decode_base64url src = ngx_decode_base64_internal src decode_basis64url"

section \<open>Bit shuffling\<close>

lemma low_six_bits: "\<not> bit w 6 \<and> \<not> bit w 7 \<Longrightarrow> unat (w :: u_char) < 64"
proof -
  assume "\<not> bit w 6 \<and> \<not> bit w 7"
  hence "w = take_bit 6 w" by (intro byte_eqI) (simp_all add: bit_simps)
  hence "unat w = take_bit 6 (unat w)" by (metis unsigned_take_bit_eq)
  thus ?thesis using take_bit_nat_less_exp[of 6 "unat w"] by simp
qed

text \<open>The four sextets of three octets; a missing octet counts as 0.\<close>

definition sextet1 :: "u_char \<Rightarrow> u_char" where
  "sextet1 a = drop_bit 2 a AND 0x3f"
definition sextet2 :: "u_char \<Rightarrow> u_char \<Rightarrow> u_char" where
  "sextet2 a b = push_bit 4 (a AND 3) OR drop_bit 4 b"
definition sextet3 :: "u_char \<Rightarrow> u_char \<Rightarrow> u_char" where
  "sextet3 b c = push_bit 2 (b AND 0x0f) OR drop_bit 6 c"
definition sextet4 :: "u_char \<Rightarrow> u_char" where
  "sextet4 c = c AND 0x3f"

lemmas sextet_defs = sextet1_def sextet2_def sextet3_def sextet4_def and_masks

lemma sextet_range [simp]:
  "unat (sextet1 a) < 64" "unat (sextet2 a b) < 64" "unat (sextet3 b c) < 64" "unat (sextet4 c) < 64"
  unfolding sextet_defs by (rule low_six_bits; simp add: bit_simps)+

lemma sextets_octets:
  "push_bit 2 (sextet1 a) OR drop_bit 4 (sextet2 a b) = a"
  "push_bit 4 (sextet2 a b) OR drop_bit 2 (sextet3 b c) = b"
  "push_bit 6 (sextet3 b c) OR sextet4 c = c"
  unfolding sextet_defs by (rule byte_eqI; simp add: bit_simps)+

lemma encode_base64_loop_sextets:
  "encode_base64_loop basis padding (a # b # c # s) =
     basis ! unat (sextet1 a) # basis ! unat (sextet2 a b) # basis ! unat (sextet3 b c)
     # basis ! unat (sextet4 c) # encode_base64_loop basis padding s"
  "encode_base64_loop basis padding [a, b] =
     [basis ! unat (sextet1 a), basis ! unat (sextet2 a b), basis ! unat (sextet3 b 0)]
     @ (if padding then [c8 CHR ''='' ] else [])"
  "encode_base64_loop basis padding [a] =
     [basis ! unat (sextet1 a), basis ! unat (sextet2 a 0)]
     @ (if padding then [c8 CHR ''='', c8 CHR ''=''] else [])"
  by (simp_all add: sextet1_def sextet2_def sextet3_def sextet4_def)

section \<open>The round trip, for any alphabet and its table\<close>

lemma triples_induct [case_names Nil One Two Triple]:
  assumes "P []" "\<And>a. P [a]" "\<And>a b. P [a, b]" "\<And>a b c s. P s \<Longrightarrow> P (a # b # c # s)"
  shows "P (s :: 'a list)"
proof (induction s rule: length_induct)
  case (1 s)
  consider "s = []" | a where "s = [a]" | a b where "s = [a, b]" | a b c t where "s = a # b # c # t"
    by (metis list.exhaust)
  then show ?case by cases (use assms 1 in auto)
qed

locale base64_alphabet =
  fixes basis table :: "u_char list"
  assumes table_basis: "i < 64 \<Longrightarrow> table ! unat (basis ! i) = of_nat i"
    and basis_no_pad: "i < 64 \<Longrightarrow> basis ! i \<noteq> c8 CHR ''=''"
begin

lemma table_sextet: "unat w < 64 \<Longrightarrow> table ! unat (basis ! unat (w :: u_char)) = w"
  by (simp add: table_basis)

lemma sextet_not_77: "unat w < 64 \<Longrightarrow> (w :: u_char) \<noteq> 77"
  by auto

lemma len_sextet:
  "unat w < 64 \<Longrightarrow> decode_base64_len table (basis ! unat (w :: u_char) # s) =
     map_option Suc (decode_base64_len table s)"
  using basis_no_pad[of "unat w"] by (simp add: table_sextet sextet_not_77)

lemma len_pad: "decode_base64_len table (61 # s) = Some 0"
  by simp

definition payload :: "nat \<Rightarrow> nat" where
  "payload n = 4 * (n div 3) + (if n mod 3 = 0 then 0 else n mod 3 + 1)"

lemma payload_simps [simp]:
  "payload 0 = 0" "payload (Suc 0) = 2" "payload (Suc (Suc 0)) = 3"
  "payload (Suc (Suc (Suc n))) = Suc (Suc (Suc (Suc (payload n))))"
proof -
  have "payload (n + 3) = payload n + 4" by (simp add: payload_def div_add_self2)
  thus "payload (Suc (Suc (Suc n))) = Suc (Suc (Suc (Suc (payload n))))"
    by (simp add: eval_nat_numeral)
qed (simp_all add: payload_def)

lemma encode_len: "decode_base64_len table (encode_base64_loop basis padding s) = Some (payload (length s))"
  by (induction s rule: triples_induct)
     (simp_all add: len_sextet len_pad encode_base64_loop_sextets
        del: encode_base64_loop.simps(1-3) decode_base64_len.simps(2))

lemma decode_encode_loop:
  "decode_base64_loop table (take (payload (length s)) (encode_base64_loop basis padding s)) = s"
  by (induction s rule: triples_induct)
     (simp_all add: table_sextet sextets_octets encode_base64_loop_sextets del: encode_base64_loop.simps(1-3))

lemma payload_not_1: "payload n mod 4 \<noteq> 1"
proof -
  have "n mod 3 = 0 \<or> n mod 3 = 1 \<or> n mod 3 = 2" by linarith
  thus ?thesis by (auto simp: payload_def)
qed

lemma decode_encode:
  "ngx_decode_base64_internal (ngx_encode_base64_internal s basis padding) table = Some s"
  by (simp add: ngx_decode_base64_internal_def ngx_encode_base64_internal_def
      encode_len payload_not_1[simplified] decode_encode_loop)

end

lemma alphabet_check:
  assumes "map (\<lambda>c. table ! unat c) basis = map of_nat [0..<64]" "c8 CHR ''='' \<notin> set basis"
  shows "base64_alphabet basis table"
proof
  fix i :: nat assume i: "i < 64"
  have "length basis = 64" using arg_cong[OF assms(1), of length] by simp
  with i have "basis ! i \<in> set basis" "map (\<lambda>c. table ! unat c) basis ! i = table ! unat (basis ! i)"
    by simp_all
  with assms i show "table ! unat (basis ! i) = of_nat i" "basis ! i \<noteq> c8 CHR ''=''" by auto
qed

interpretation std64: base64_alphabet basis64 decode_basis64
  by (rule alphabet_check) (simp_all add: decode_basis64_def basis64_def upt_rec)

interpretation url64: base64_alphabet basis64url decode_basis64url
  by (rule alphabet_check) (simp_all add: decode_basis64url_def basis64url_def upt_rec)

section \<open>Properties\<close>

text \<open>
  C39 (round trip). Decoding what \<open>ngx_encode_base64\<close> or \<open>ngx_encode_base64url\<close> wrote gives the
  bytes that were encoded, for every input, padded or not.
\<close>

theorem base64_roundtrip:
  "ngx_decode_base64 (ngx_encode_base64 s) = Some s \<and>
   ngx_decode_base64url (ngx_encode_base64url s) = Some s"
  by (simp add: ngx_decode_base64_def ngx_encode_base64_def ngx_decode_base64url_def
      ngx_encode_base64url_def std64.decode_encode url64.decode_encode)

end
