(* ===== verification/Ngx_Number.thy ===== *)
theory Ngx_Number
  imports Nginx_Prelude
begin

text \<open>
  The decimal and hexadecimal number routines of \<^verbatim>\<open>src/core/ngx_string.c\<close>: the checked parsers
  \<open>ngx_atoi\<close>, \<open>ngx_atosz\<close>, \<open>ngx_atoof\<close>, \<open>ngx_atotm\<close>, \<open>ngx_atofp\<close> and \<open>ngx_hextoi\<close>, and the
  printer \<open>ngx_sprintf_num\<close>. The source computes in signed 64-bit integers; the model computes
  in \<^typ>\<open>int\<close>, and the parsers' cutoff tests (translated as they stand) keep every
  intermediate value within the signed range, which the correctness theorems prove.
  \<open>NGX_ERROR\<close> is \<^term>\<open>None\<close>.
\<close>

section \<open>Limits\<close>

definition NGX_MAX_INT_T_VALUE :: int where "NGX_MAX_INT_T_VALUE = 9223372036854775807"
definition NGX_MAX_SIZE_T_VALUE :: int where "NGX_MAX_SIZE_T_VALUE = 9223372036854775807"
definition NGX_MAX_OFF_T_VALUE :: int where "NGX_MAX_OFF_T_VALUE = 9223372036854775807"
definition NGX_MAX_TIME_T_VALUE :: int where "NGX_MAX_TIME_T_VALUE = 9223372036854775807"
definition NGX_INT64_LEN :: nat where "NGX_INT64_LEN = 20"

named_theorems limit_simps "values of the integer limits"

lemmas [limit_simps] = NGX_MAX_INT_T_VALUE_def NGX_MAX_SIZE_T_VALUE_def
  NGX_MAX_OFF_T_VALUE_def NGX_MAX_TIME_T_VALUE_def

section \<open>Digits\<close>

definition digit_val :: "u_char \<Rightarrow> int" where
  "digit_val c = uint c - 48"

text \<open>\<open>ch - '0'\<close>, or \<open>(ch | 0x20) - 'a' + 10\<close>, of a hexadecimal digit.\<close>

definition hex_val :: "u_char \<Rightarrow> int option" where
  "hex_val ch =
     (if is_digit ch then Some (uint ch - 48)
      else if is_hex_alpha ch then Some (uint (ch OR 0x20) - 97 + 10)
      else None)"

lemma is_digit_iff: "is_digit c \<longleftrightarrow> 48 \<le> uint c \<and> uint c \<le> 57"
  by (simp add: is_digit_def word_le_def)

lemma digit_val_range: "is_digit c \<Longrightarrow> 0 \<le> digit_val c \<and> digit_val c \<le> 9"
  by (auto simp: is_digit_iff digit_val_def)

lemma hex_val_range: "hex_val c = Some v \<Longrightarrow> 0 \<le> v \<and> v < 16"
  by (auto simp: hex_val_def is_digit_iff is_hex_alpha_def word_le_def split: if_splits)

section \<open>Decimal parsing\<close>

text \<open>The loop shared by \<open>ngx_atoi\<close>, \<open>ngx_atosz\<close>, \<open>ngx_atoof\<close> and \<open>ngx_atotm\<close>.\<close>

fun ato_loop :: "int \<Rightarrow> int \<Rightarrow> int \<Rightarrow> u_char list \<Rightarrow> int option" where
  "ato_loop cutoff cutlim val [] = Some val"
| "ato_loop cutoff cutlim val (c # line) =
     (if \<not> is_digit c then None
      else if val \<ge> cutoff \<and> (val > cutoff \<or> digit_val c > cutlim) then None
      else ato_loop cutoff cutlim (val * 10 + digit_val c) line)"

definition ngx_atoi :: "u_char list \<Rightarrow> int option" where
  "ngx_atoi line = (if line = [] then None
     else ato_loop (NGX_MAX_INT_T_VALUE div 10) (NGX_MAX_INT_T_VALUE mod 10) 0 line)"

definition ngx_atosz :: "u_char list \<Rightarrow> int option" where
  "ngx_atosz line = (if line = [] then None
     else ato_loop (NGX_MAX_SIZE_T_VALUE div 10) (NGX_MAX_SIZE_T_VALUE mod 10) 0 line)"

definition ngx_atoof :: "u_char list \<Rightarrow> int option" where
  "ngx_atoof line = (if line = [] then None
     else ato_loop (NGX_MAX_OFF_T_VALUE div 10) (NGX_MAX_OFF_T_VALUE mod 10) 0 line)"

definition ngx_atotm :: "u_char list \<Rightarrow> int option" where
  "ngx_atotm line = (if line = [] then None
     else ato_loop (NGX_MAX_TIME_T_VALUE div 10) (NGX_MAX_TIME_T_VALUE mod 10) 0 line)"

text \<open>\<open>ngx_atofp\<close>: a fixed point number with \<open>point\<close> fraction digits.\<close>

fun atofp_pad :: "int \<Rightarrow> nat \<Rightarrow> int \<Rightarrow> int option" where
  "atofp_pad cutoff 0 val = Some val"
| "atofp_pad cutoff (Suc point) val =
     (if val > cutoff then None else atofp_pad cutoff point (val * 10))"

fun atofp_loop :: "int \<Rightarrow> int \<Rightarrow> bool \<Rightarrow> nat \<Rightarrow> int \<Rightarrow> u_char list \<Rightarrow> int option" where
  "atofp_loop cutoff cutlim dot point val [] = atofp_pad cutoff point val"
| "atofp_loop cutoff cutlim dot point val (c # line) =
     (if point = 0 then None
      else if c = c8 CHR ''.'' then
        (if dot then None else atofp_loop cutoff cutlim True point val line)
      else if \<not> is_digit c then None
      else if val \<ge> cutoff \<and> (val > cutoff \<or> digit_val c > cutlim) then None
      else atofp_loop cutoff cutlim dot (if dot then point - 1 else point)
             (val * 10 + digit_val c) line)"

definition ngx_atofp :: "u_char list \<Rightarrow> nat \<Rightarrow> int option" where
  "ngx_atofp line point = (if line = [] then None
     else atofp_loop (NGX_MAX_INT_T_VALUE div 10) (NGX_MAX_INT_T_VALUE mod 10)
            False point 0 line)"

section \<open>Hexadecimal parsing\<close>

fun hextoi_loop :: "int \<Rightarrow> int \<Rightarrow> u_char list \<Rightarrow> int option" where
  "hextoi_loop cutoff val [] = Some val"
| "hextoi_loop cutoff val (ch # line) =
     (if val > cutoff then None
      else case hex_val ch of
             None \<Rightarrow> None
           | Some d \<Rightarrow> hextoi_loop cutoff (val * 16 + d) line)"

definition ngx_hextoi :: "u_char list \<Rightarrow> int option" where
  "ngx_hextoi line =
     (if line = [] then None else hextoi_loop (NGX_MAX_INT_T_VALUE div 16) 0 line)"

section \<open>Printing\<close>

definition hex_lower :: "u_char list" where "hex_lower = bytes ''0123456789abcdef''"
definition hex_upper :: "u_char list" where "hex_upper = bytes ''0123456789ABCDEF''"

text \<open>The \<open>do { *--p = ... } while (ui64 /= 10)\<close> and \<open>>>= 4\<close> loops; \<open>temp\<close> is what is already
  stored behind \<open>p\<close>.\<close>

fun dec_digits :: "nat \<Rightarrow> u_char list \<Rightarrow> u_char list" where
  "dec_digits ui64 temp =
     (let temp' = (of_nat (ui64 mod 10) + 48) # temp
      in if ui64 div 10 = 0 then temp' else dec_digits (ui64 div 10) temp')"

fun hex_digits :: "u_char list \<Rightarrow> nat \<Rightarrow> u_char list \<Rightarrow> u_char list" where
  "hex_digits hex ui64 temp =
     (let temp' = hex ! (ui64 mod 16) # temp
      in if ui64 div 16 = 0 then temp' else hex_digits hex (ui64 div 16) temp')"

declare dec_digits.simps [simp del] hex_digits.simps [simp del]

text \<open>
  \<open>room\<close> is \<open>last - buf\<close>; the result is what is appended at \<open>buf\<close>. \<open>hexadecimal\<close> is 0, 1 or 2.
\<close>

definition ngx_sprintf_num :: "nat \<Rightarrow> nat \<Rightarrow> u_char \<Rightarrow> nat \<Rightarrow> nat \<Rightarrow> u_char list" where
  "ngx_sprintf_num room ui64 zero hexadecimal width =
     (let temp = (if hexadecimal = 0 then dec_digits ui64 []
                  else if hexadecimal = 1 then hex_digits hex_lower ui64 []
                  else hex_digits hex_upper ui64 []);
          pad = replicate (min (width - length temp) room) zero
      in pad @ take (room - length pad) temp)"

text \<open>\<open>ngx_sprintf\<close> passes \<open>(void *) -1\<close> as \<open>last\<close>: there is always room.\<close>

definition sprintf_room :: nat where "sprintf_room = 2 ^ 62"

section \<open>What the parsers compute\<close>

text \<open>The value of a digit string in a base, most significant digit first.\<close>

fun base_value :: "int \<Rightarrow> (u_char \<Rightarrow> int) \<Rightarrow> int \<Rightarrow> u_char list \<Rightarrow> int" where
  "base_value b dv acc [] = acc"
| "base_value b dv acc (c # cs) = base_value b dv (acc * b + dv c) cs"

abbreviation dec_value :: "u_char list \<Rightarrow> int" where
  "dec_value \<equiv> base_value 10 digit_val 0"

abbreviation hex_value :: "u_char list \<Rightarrow> int" where
  "hex_value \<equiv> base_value 16 (\<lambda>c. the (hex_val c)) 0"

lemma base_value_append:
  "base_value b dv acc (xs @ ys) = base_value b dv (base_value b dv acc xs) ys"
  by (induction xs arbitrary: acc) auto

lemma base_value_mono:
  assumes "1 \<le> b" "0 \<le> acc" "\<forall>c \<in> set xs. 0 \<le> dv c"
  shows "acc \<le> base_value b dv acc xs"
  using assms
proof (induction xs arbitrary: acc)
  case (Cons c cs)
  have "acc \<le> acc * b" using Cons.prems by (simp add: mult_le_cancel_left1)
  hence "acc \<le> acc * b + dv c" "0 \<le> acc * b + dv c" using Cons.prems by auto
  moreover have "acc * b + dv c \<le> base_value b dv (acc * b + dv c) cs"
    using Cons.prems \<open>0 \<le> acc * b + dv c\<close> by (intro Cons.IH) auto
  ultimately show ?case by simp
qed simp

lemma cutoff_dec:
  assumes "0 \<le> d" "d \<le> 9"
  shows "(val \<ge> mx div 10 \<and> (val > mx div 10 \<or> d > mx mod 10)) \<longleftrightarrow> val * 10 + d > (mx :: int)"
proof -
  define q r where "q = mx div 10" and "r = mx mod 10"
  have "mx = q * 10 + r" "0 \<le> r" "r < 10" by (simp_all add: q_def r_def)
  with assms show ?thesis unfolding q_def[symmetric] r_def[symmetric] by linarith
qed

lemma cutoff_hex:
  assumes "0 \<le> d" "d < 16" "mx mod 16 = 15"
  shows "val > mx div 16 \<longleftrightarrow> val * 16 + d > (mx :: int)"
proof -
  define q where "q = mx div 16"
  have "mx = q * 16 + 15" using assms by (simp add: q_def mult.commute flip: assms(3))
  with assms show ?thesis unfolding q_def[symmetric] by linarith
qed

text \<open>
  The cutoff test rejects exactly the digit strings whose value exceeds \<open>mx\<close>.
\<close>

lemma ato_loop_correct:
  assumes "0 \<le> val" "val \<le> mx" "0 \<le> mx"
  shows "ato_loop (mx div 10) (mx mod 10) val line = Some v \<longleftrightarrow>
    (\<forall>c \<in> set line. is_digit c) \<and> v = base_value 10 digit_val val line \<and> v \<le> mx"
  using assms
proof (induction line arbitrary: val)
  case Nil
  then show ?case by auto
next
  case (Cons c cs)
  show ?case
  proof (cases "is_digit c")
    case False
    then show ?thesis by simp
  next
    case True
    let ?d = "digit_val c" and ?v' = "val * 10 + digit_val c"
    have d: "0 \<le> ?d" "?d \<le> 9" using digit_val_range[OF True] by auto
    have cut: "(val \<ge> mx div 10 \<and> (val > mx div 10 \<or> ?d > mx mod 10)) \<longleftrightarrow> ?v' > mx"
      using d by (rule cutoff_dec)
    show ?thesis
    proof (cases "?v' > mx")
      case True
      have "base_value 10 digit_val val (c # cs) > mx" if "\<forall>x \<in> set cs. is_digit x"
        using base_value_mono[of 10 ?v' cs digit_val] True d that Cons.prems digit_val_range
        by fastforce
      with True cut \<open>is_digit c\<close> show ?thesis by auto
    next
      case False
      with cut \<open>is_digit c\<close> Cons.IH[of ?v'] Cons.prems d show ?thesis by auto
    qed
  qed
qed

lemma hextoi_loop_correct:
  assumes "0 \<le> val" "val \<le> mx" "mx mod 16 = 15"
  shows "hextoi_loop (mx div 16) val line = Some v \<longleftrightarrow>
    (\<forall>c \<in> set line. hex_val c \<noteq> None) \<and>
    v = base_value 16 (\<lambda>c. the (hex_val c)) val line \<and> v \<le> mx"
  using assms
proof (induction line arbitrary: val)
  case Nil
  then show ?case by auto
next
  case (Cons c cs)
  show ?case
  proof (cases "hex_val c")
    case None
    then show ?thesis by simp
  next
    case (Some d)
    let ?v' = "val * 16 + d"
    have d: "0 \<le> d" "d < 16" using hex_val_range[OF Some] by auto
    have cut: "val > mx div 16 \<longleftrightarrow> ?v' > mx"
      using d Cons.prems(3) by (rule cutoff_hex)
    show ?thesis
    proof (cases "?v' > mx")
      case True
      have "base_value 16 (\<lambda>c. the (hex_val c)) val (c # cs) > mx"
        if "\<forall>x \<in> set cs. hex_val x \<noteq> None"
      proof -
        have "\<forall>x \<in> set cs. 0 \<le> the (hex_val x)" using that hex_val_range by fastforce
        from base_value_mono[OF _ _ this, of 16 ?v'] True d Some Cons.prems show ?thesis by simp
      qed
      with True cut Some show ?thesis by auto
    next
      case False
      with cut Some Cons.IH[of ?v'] Cons.prems d show ?thesis by auto
    qed
  qed
qed

lemma digits_atoi:
  "ngx_atoi line = Some v \<longleftrightarrow>
     line \<noteq> [] \<and> (\<forall>c \<in> set line. is_digit c) \<and> v = dec_value line \<and> v \<le> NGX_MAX_INT_T_VALUE"
  using ato_loop_correct[of 0 NGX_MAX_INT_T_VALUE line v]
  by (auto simp: ngx_atoi_def limit_simps)

lemma digits_hextoi:
  "ngx_hextoi line = Some v \<longleftrightarrow>
     line \<noteq> [] \<and> (\<forall>c \<in> set line. hex_val c \<noteq> None) \<and> v = hex_value line \<and> v \<le> NGX_MAX_INT_T_VALUE"
  using hextoi_loop_correct[of 0 NGX_MAX_INT_T_VALUE line v]
  by (auto simp: ngx_hextoi_def limit_simps)

section \<open>What the printer writes\<close>

lemma digit_byte:
  assumes "n < 10"
  shows "is_digit (of_nat n + 48)" "digit_val (of_nat n + 48) = int n"
proof -
  have "n \<in> set [0..<10]" using assms by simp
  moreover have "list_all (\<lambda>n. is_digit (of_nat n + 48) \<and> digit_val (of_nat n + 48) = int n) [0..<10]"
    by code_simp
  ultimately show "is_digit (of_nat n + 48)" "digit_val (of_nat n + 48) = int n"
    by (auto simp: list_all_iff)
qed

lemma hex_byte:
  assumes "n < 16"
  shows "hex_val (hex_lower ! n) = Some (int n)" "hex_val (hex_upper ! n) = Some (int n)"
proof -
  have "n \<in> set [0..<16]" using assms by simp
  moreover have "list_all (\<lambda>n. hex_val (hex_lower ! n) = Some (int n) \<and>
      hex_val (hex_upper ! n) = Some (int n)) [0..<16]"
    by code_simp
  ultimately show "hex_val (hex_lower ! n) = Some (int n)" "hex_val (hex_upper ! n) = Some (int n)"
    by (auto simp: list_all_iff)
qed

lemma dec_digits_acc: "dec_digits n temp = dec_digits n [] @ temp"
proof (induction n arbitrary: temp rule: less_induct)
  case (less n)
  let ?c = "of_nat (n mod 10) + 48 :: u_char"
  show ?case
  proof (cases "n div 10 = 0")
    case True
    then show ?thesis by (simp add: dec_digits.simps[of n])
  next
    case False
    hence "n div 10 < n" by simp
    from less.IH[OF this, of "[?c]"] less.IH[OF this, of "?c # temp"] False
    show ?thesis by (simp add: dec_digits.simps[of n] Let_def)
  qed
qed

lemma hex_digits_acc: "hex_digits hex n temp = hex_digits hex n [] @ temp"
proof (induction n arbitrary: temp rule: less_induct)
  case (less n)
  let ?c = "hex ! (n mod 16)"
  show ?case
  proof (cases "n div 16 = 0")
    case True
    then show ?thesis by (simp add: hex_digits.simps[of hex n])
  next
    case False
    hence "n div 16 < n" by simp
    from less.IH[OF this, of "[?c]"] less.IH[OF this, of "?c # temp"] False
    show ?thesis by (simp add: hex_digits.simps[of hex n] Let_def)
  qed
qed

lemma dec_digits_unfold:
  "dec_digits n [] = (if n < 10 then [] else dec_digits (n div 10) []) @ [of_nat (n mod 10) + 48]"
  using dec_digits_acc[of "n div 10" "[of_nat (n mod 10) + 48]"]
  by (subst dec_digits.simps) (simp add: Let_def div_eq_0_iff)

lemma hex_digits_unfold:
  "hex_digits hex n [] = (if n < 16 then [] else hex_digits hex (n div 16) []) @ [hex ! (n mod 16)]"
  using hex_digits_acc[of hex "n div 16" "[hex ! (n mod 16)]"]
  by (subst hex_digits.simps) (simp add: Let_def div_eq_0_iff)

text \<open>The printed digits are digits and read back as the number.\<close>

lemma dec_digits_value:
  "dec_digits n [] \<noteq> [] \<and> (\<forall>c \<in> set (dec_digits n []). is_digit c) \<and>
   dec_value (dec_digits n []) = int n"
proof (induction n rule: less_induct)
  case (less n)
  have m: "n mod 10 < 10" by simp
  show ?case
  proof (cases "n < 10")
    case True
    then show ?thesis using digit_byte[OF True] by (subst (1 2 3) dec_digits_unfold) simp
  next
    case False
    hence "n div 10 < n" by simp
    note IH = less.IH[OF this]
    show ?thesis
      using IH digit_byte[OF m] False
      by (subst (1 2 3) dec_digits_unfold) (auto simp: base_value_append zdiv_int zmod_int)
  qed
qed

lemma hex_digits_value:
  assumes "\<And>k. k < 16 \<Longrightarrow> hex_val (hex ! k) = Some (int k)"
  shows "hex_digits hex n [] \<noteq> [] \<and> (\<forall>c \<in> set (hex_digits hex n []). hex_val c \<noteq> None) \<and>
   hex_value (hex_digits hex n []) = int n"
proof (induction n rule: less_induct)
  case (less n)
  have m: "hex_val (hex ! (n mod 16)) = Some (int (n mod 16))" by (simp add: assms)
  show ?case
  proof (cases "n < 16")
    case True
    then show ?thesis using m by (subst (1 2 3) hex_digits_unfold) simp
  next
    case False
    hence "n div 16 < n" by simp
    note IH = less.IH[OF this]
    show ?thesis
      using IH m False
      by (subst (1 2 3) hex_digits_unfold) (auto simp: base_value_append zdiv_int zmod_int)
  qed
qed

text \<open>Printed numbers fit the \<open>temp\<close> array.\<close>

lemma dec_digits_length: "0 < k \<Longrightarrow> n < 10 ^ k \<Longrightarrow> length (dec_digits n []) \<le> k"
proof (induction k arbitrary: n)
  case (Suc k)
  show ?case
  proof (cases "n < 10")
    case True
    then show ?thesis by (subst dec_digits_unfold) simp
  next
    case False
    hence "0 < k" using Suc.prems by (cases k) auto
    moreover have "n div 10 < 10 ^ k" using Suc.prems by (simp add: less_mult_imp_div_less mult.commute)
    ultimately have "length (dec_digits (n div 10) []) \<le> k" by (rule Suc.IH)
    with False show ?thesis by (subst dec_digits_unfold) simp
  qed
qed simp

lemma hex_digits_length: "0 < k \<Longrightarrow> n < 16 ^ k \<Longrightarrow> length (hex_digits hex n []) \<le> k"
proof (induction k arbitrary: n)
  case (Suc k)
  show ?case
  proof (cases "n < 16")
    case True
    then show ?thesis by (subst hex_digits_unfold) simp
  next
    case False
    hence "0 < k" using Suc.prems by (cases k) auto
    moreover have "n div 16 < 16 ^ k" using Suc.prems by (simp add: less_mult_imp_div_less mult.commute)
    ultimately have "length (hex_digits hex (n div 16) []) \<le> k" by (rule Suc.IH)
    with False show ?thesis by (subst hex_digits_unfold) simp
  qed
qed simp

section \<open>Properties\<close>

text \<open>
  \<open>ngx_atoi\<close> accepts exactly the non-empty strings of decimal digits whose
  value fits \<open>ngx_int_t\<close>, and returns that value; every other input is \<open>NGX_ERROR\<close>. The overflow
  test neither lets a wrapped value through nor refuses a representable one.
\<close>

theorem ngx_atoi_exact:
  "ngx_atoi line = Some v \<longleftrightarrow>
     line \<noteq> [] \<and> list_all is_digit line \<and> v = dec_value line \<and> v \<le> NGX_MAX_INT_T_VALUE"
  by (simp add: digits_atoi list_all_iff)

text \<open>
  A number printed by \<open>ngx_sprintf_num\<close> is parsed back to itself: decimal by
  \<open>ngx_atoi\<close>, lower and upper case hexadecimal by \<open>ngx_hextoi\<close>.
\<close>

theorem sprintf_num_roundtrip:
  assumes "int n \<le> NGX_MAX_INT_T_VALUE"
  shows "ngx_atoi (ngx_sprintf_num sprintf_room n zero 0 0) = Some (int n) \<and>
    ngx_hextoi (ngx_sprintf_num sprintf_room n zero 1 0) = Some (int n) \<and>
    ngx_hextoi (ngx_sprintf_num sprintf_room n zero 2 0) = Some (int n)"
proof -
  have "n < 10 ^ 19" "n < 16 ^ 16" using assms by (simp_all add: limit_simps)
  hence len: "length (dec_digits n []) \<le> sprintf_room" "length (hex_digits h n []) \<le> sprintf_room" for h
    using dec_digits_length[of 19 n] hex_digits_length[of 16 n h] by (simp_all add: sprintf_room_def)
  show ?thesis
    using dec_digits_value[of n] hex_digits_value[of hex_lower n] hex_digits_value[of hex_upper n]
      hex_byte assms len
    by (simp add: ngx_sprintf_num_def digits_atoi digits_hextoi)
qed

theorem sprintf_num_roundtrip_witness:
  "int 255 \<le> NGX_MAX_INT_T_VALUE \<and>
   ngx_hextoi (ngx_sprintf_num sprintf_room 255 48 1 0) = Some 255"
  using sprintf_num_roundtrip[of 255 48] by (simp add: limit_simps)

text \<open>
  \<open>ngx_sprintf_num\<close> never writes past \<open>last\<close>, and the digits of a 64-bit number fit
  the local array \<open>temp\<close> in every base.
\<close>

theorem sprintf_num_bounds:
  assumes "n < 2 ^ 64"
  shows "length (ngx_sprintf_num room n zero hexadecimal width) \<le> room \<and>
    length (dec_digits n []) \<le> NGX_INT64_LEN \<and> length (hex_digits hex n []) \<le> NGX_INT64_LEN"
proof -
  have "n < 10 ^ 20" "n < 16 ^ 16" using assms by simp_all
  thus ?thesis
    using dec_digits_length[of 20 n] hex_digits_length[of 16 n hex]
    by (simp add: ngx_sprintf_num_def NGX_INT64_LEN_def Let_def)
qed

theorem sprintf_num_bounds_witness:
  "(18446744073709551615 :: nat) < 2 ^ 64 \<and>
   length (ngx_sprintf_num 5 18446744073709551615 48 0 30) \<le> 5"
  using sprintf_num_bounds[of 18446744073709551615 5 48 0 30 hex_lower] by simp

end
