(* ===== verification/Ngx_Escape.thy ===== *)
theory Ngx_Escape
  imports Ngx_Number
begin

text \<open>
  URI, HTML and JSON escaping of \<^verbatim>\<open>src/core/ngx_string.c\<close>. Each escaping routine has two
  modes in the source: with \<open>dst == NULL\<close> it measures, otherwise it writes; here the two modes
  are two definitions (\<open>..._len\<close> measures), and the theorems say that the measure is the room
  the writer needs.
\<close>

section \<open>URI escaping\<close>

definition escape_uri_table :: "32 word list" where
  "escape_uri_table = [0xffffffff, 0x80000029, 0x00000000, 0x80000000,
     0xffffffff, 0xffffffff, 0xffffffff, 0xffffffff]"

definition escape_args_table :: "32 word list" where
  "escape_args_table = [0xffffffff, 0x88000869, 0x00000000, 0x80000000,
     0xffffffff, 0xffffffff, 0xffffffff, 0xffffffff]"

definition escape_uri_component_table :: "32 word list" where
  "escape_uri_component_table = [0xffffffff, 0xfc009fff, 0x78000001, 0xb8000001,
     0xffffffff, 0xffffffff, 0xffffffff, 0xffffffff]"

definition escape_html_table :: "32 word list" where
  "escape_html_table = [0xffffffff, 0x000000ad, 0x00000000, 0x80000000,
     0xffffffff, 0xffffffff, 0xffffffff, 0xffffffff]"

definition escape_refresh_table :: "32 word list" where
  "escape_refresh_table = [0xffffffff, 0x00000085, 0x00000000, 0x80000000,
     0xffffffff, 0xffffffff, 0xffffffff, 0xffffffff]"

definition escape_memcached_table :: "32 word list" where
  "escape_memcached_table = [0xffffffff, 0x00000021, 0x00000000, 0x00000000,
     0x00000000, 0x00000000, 0x00000000, 0x00000000]"

definition escape_map :: "32 word list list" where
  "escape_map = [escape_uri_table, escape_args_table, escape_uri_component_table,
     escape_html_table, escape_refresh_table, escape_memcached_table, escape_memcached_table]"

fun escape_uri_count :: "32 word list \<Rightarrow> u_char list \<Rightarrow> nat" where
  "escape_uri_count escape [] = 0"
| "escape_uri_count escape (c # src) =
     (if bitmap_test escape c then 1 else 0) + escape_uri_count escape src"

fun escape_uri_copy :: "32 word list \<Rightarrow> u_char list \<Rightarrow> u_char list" where
  "escape_uri_copy escape [] = []"
| "escape_uri_copy escape (c # src) =
     (if bitmap_test escape c
      then [c8 CHR ''%'', hex_upper ! unat (drop_bit 4 c), hex_upper ! unat (c AND 0xf)]
      else [c]) @ escape_uri_copy escape src"

text \<open>\<open>type\<close> indexes the table map; it is one of the seven \<open>NGX_ESCAPE_*\<close> constants.\<close>

definition ngx_escape_uri_len :: "u_char list \<Rightarrow> nat \<Rightarrow> nat" where
  "ngx_escape_uri_len src type = escape_uri_count (escape_map ! type) src"

definition ngx_escape_uri :: "u_char list \<Rightarrow> nat \<Rightarrow> u_char list" where
  "ngx_escape_uri src type = escape_uri_copy (escape_map ! type) src"

section \<open>URI unescaping\<close>

datatype unescape_state = ue_usual | ue_quoted | ue_quoted_second

definition NGX_UNESCAPE_URI :: ngx_uint_t where "NGX_UNESCAPE_URI = 1"
definition NGX_UNESCAPE_REDIRECT :: ngx_uint_t where "NGX_UNESCAPE_REDIRECT = 2"

text \<open>
  One pass of the loop per byte. \<open>prev\<close> is the byte read before \<open>ch\<close> (the source's
  \<open>*(s - 2)\<close>). The result is what is written and the unread rest (\<open>*src\<close> on return).
\<close>

fun unescape_loop :: "ngx_uint_t \<Rightarrow> unescape_state \<Rightarrow> u_char \<Rightarrow> u_char \<Rightarrow> u_char list \<Rightarrow>
    u_char list \<times> u_char list" where
  "unescape_loop type state decoded prev [] = ([], [])"
| "unescape_loop type state decoded prev (ch # s) =
     (let put = (\<lambda>d st. case unescape_loop type st decoded ch s of (o', r) \<Rightarrow> (d @ o', r));
          quote = (\<lambda>dec. unescape_loop type ue_quoted_second dec ch s);
          redirect = (type AND NGX_UNESCAPE_REDIRECT \<noteq> 0);
          uri = (type AND NGX_UNESCAPE_URI \<noteq> 0)
      in case state of
        ue_usual \<Rightarrow>
          if ch = c8 CHR ''?'' \<and> type AND (NGX_UNESCAPE_URI OR NGX_UNESCAPE_REDIRECT) \<noteq> 0 then ([ch], s)
          else if ch = c8 CHR ''%'' then put [] ue_quoted
          else put [ch] ue_usual
      | ue_quoted \<Rightarrow>
          if is_digit ch then quote (ch - c8 CHR ''0'')
          else if is_hex_alpha ch then quote ((ch OR 0x20) - c8 CHR ''a'' + 10)
          else put [ch] ue_usual
      | ue_quoted_second \<Rightarrow>
          if is_digit ch then
            (let ch' = push_bit 4 decoded + ch - c8 CHR ''0'' in
             if redirect then
               (if ch' > c8 CHR ''%'' \<and> ch' < 0x7f then put [ch'] ue_usual
                else put [c8 CHR ''%'', prev, ch] ue_usual)
             else put [ch'] ue_usual)
          else if is_hex_alpha ch then
            (let ch' = push_bit 4 decoded + (ch OR 0x20) - c8 CHR ''a'' + 10 in
             if uri then
               (if ch' = c8 CHR ''?'' then ([ch'], s) else put [ch'] ue_usual)
             else if redirect then
               (if ch' = c8 CHR ''?'' then ([ch'], s)
                else if ch' > c8 CHR ''%'' \<and> ch' < 0x7f then put [ch'] ue_usual
                else put [c8 CHR ''%'', prev, ch] ue_usual)
             else put [ch'] ue_usual)
          else put [] ue_usual)"

definition ngx_unescape_uri :: "u_char list \<Rightarrow> ngx_uint_t \<Rightarrow> u_char list \<times> u_char list" where
  "ngx_unescape_uri src type = unescape_loop type ue_usual 0 0 src"

section \<open>HTML and JSON escaping\<close>

fun ngx_escape_html_len :: "u_char list \<Rightarrow> nat" where
  "ngx_escape_html_len [] = 0"
| "ngx_escape_html_len (c # src) =
     (if c = c8 CHR ''<'' then 3
      else if c = c8 CHR ''>'' then 3
      else if c = c8 CHR ''&'' then 4
      else if c = c8 (CHR 0x22) then 5
      else 0) + ngx_escape_html_len src"

fun ngx_escape_html :: "u_char list \<Rightarrow> u_char list" where
  "ngx_escape_html [] = []"
| "ngx_escape_html (ch # src) =
     (if ch = c8 CHR ''<'' then bytes ''&lt;''
      else if ch = c8 CHR ''>'' then bytes ''&gt;''
      else if ch = c8 CHR ''&'' then bytes ''&amp;''
      else if ch = c8 (CHR 0x22) then bytes ''&quot;''
      else [ch]) @ ngx_escape_html src"

fun ngx_escape_json_len :: "u_char list \<Rightarrow> nat" where
  "ngx_escape_json_len [] = 0"
| "ngx_escape_json_len (ch # src) =
     (if ch = c8 (CHR 0x5C) \<or> ch = c8 (CHR 0x22) then 1
      else if ch \<le> 0x1f then 5
      else 0) + ngx_escape_json_len src"

fun ngx_escape_json :: "u_char list \<Rightarrow> u_char list" where
  "ngx_escape_json [] = []"
| "ngx_escape_json (ch # src) =
     (if ch > 0x1f then
        (if ch = c8 (CHR 0x5C) \<or> ch = c8 (CHR 0x22) then [c8 (CHR 0x5C)] else []) @ [ch]
      else
        [c8 (CHR 0x5C), c8 CHR ''u'', c8 CHR ''0'', c8 CHR ''0'', c8 CHR ''0'' + drop_bit 4 ch,
         (if ch AND 0xf < 10 then c8 CHR ''0'' + (ch AND 0xf) else c8 CHR ''A'' + (ch AND 0xf) - 10)])
     @ ngx_escape_json src"

section \<open>Lemmas\<close>

lemma escape_uri_copy_length:
  "length (escape_uri_copy escape src) = length src + 2 * escape_uri_count escape src"
  by (induction src) auto

text \<open>An escaped byte is three bytes that unescape to it, whatever follows.\<close>

definition nibble_of :: "u_char \<Rightarrow> u_char" where
  "nibble_of h = (if is_digit h then h - 48 else (h OR 0x20) - 97 + 10)"

lemma hex_upper_nibble:
  assumes "n < 16"
  shows "is_digit (hex_upper ! n) \<or> is_hex_alpha (hex_upper ! n)" "nibble_of (hex_upper ! n) = of_nat n"
proof -
  have "n \<in> set [0..<16]" using assms by simp
  moreover have "list_all (\<lambda>n. (is_digit (hex_upper ! n) \<or> is_hex_alpha (hex_upper ! n)) \<and>
      nibble_of (hex_upper ! n) = of_nat n) [0..<16]"
    by code_simp
  ultimately show "is_digit (hex_upper ! n) \<or> is_hex_alpha (hex_upper ! n)"
      "nibble_of (hex_upper ! n) = of_nat n"
    by (auto simp: list_all_iff)
qed

lemma byte_nibbles:
  fixes c :: u_char
  shows "unat (drop_bit 4 c) < 16" "unat (c AND 15) < 16" "push_bit 4 (drop_bit 4 c) + (c AND 15) = c"
proof -
  have "unat (drop_bit 4 c) = unat c div 16" 
    by (simp only: unat_drop_bit_eq) (simp add: drop_bit_eq_div)
  thus "unat (drop_bit 4 c) < 16" using byte_bound[of c] by simp
  have "unat (c AND 15) = take_bit 4 (unat c)" by (simp add: and_masks unsigned_take_bit_eq)
  thus "unat (c AND 15) < 16" using take_bit_nat_less_exp[of 4 "unat c"] by simp
  show "push_bit 4 (drop_bit 4 c) + (c AND 15) = c" by (simp add: and_masks bits_ident)
qed

lemma unescape_escaped_byte:
  "unescape_loop 0 ue_usual d p
     (37 # hex_upper ! unat (drop_bit 4 c) # hex_upper ! unat (c AND 15) # s) =
   (case unescape_loop 0 ue_usual (drop_bit 4 c) (hex_upper ! unat (c AND 15)) s of
      (o', r) \<Rightarrow> (c # o', r))"
proof -
  define h where "h = hex_upper ! unat (drop_bit 4 c)"
  define l where "l = hex_upper ! unat (c AND 15)"
  define hi where "hi = drop_bit 4 c"
  note nib = hex_upper_nibble[OF byte_nibbles(1), of c, folded h_def]
    hex_upper_nibble[OF byte_nibbles(2), of c, folded l_def]
  have h: "is_digit h \<Longrightarrow> h - 48 = hi" "\<not> is_digit h \<Longrightarrow> is_hex_alpha h \<and> (h OR 0x20) - 97 + 10 = hi"
    using nib(1,2) by (auto simp: nibble_of_def hi_def)
  have "push_bit 4 hi + nibble_of l = c" using nib(4) byte_nibbles(3)[of c] by (simp add: hi_def)
  hence l: "is_digit l \<Longrightarrow> push_bit 4 hi + l - 48 = c"
      "\<not> is_digit l \<Longrightarrow> is_hex_alpha l \<and> push_bit 4 hi + (l OR 0x20) - 97 + 10 = c"
    using nib(3) by (auto simp: nibble_of_def algebra_simps)
  show ?thesis
    unfolding h_def[symmetric] l_def[symmetric] unfolding hi_def[symmetric]
    using h l by (cases "is_digit h"; cases "is_digit l") (simp_all add: Let_def split: prod.splits)
qed

lemma unescape_escape_loop:
  assumes "bitmap_test escape 37"
  shows "unescape_loop 0 ue_usual d p (escape_uri_copy escape src) = (src, [])"
proof (induction src arbitrary: d p)
  case (Cons c src)
  show ?case
  proof (cases "bitmap_test escape c")
    case True
    then show ?thesis using Cons.IH
      by (simp add: unescape_escaped_byte del: unescape_loop.simps)
  next
    case False
    hence "c \<noteq> 37" using assms by auto
    with False Cons.IH show ?thesis by simp
  qed
qed simp

text \<open>Every table but \<open>refresh\<close> (4) escapes the percent sign.\<close>

lemma escape_map_percent:
  assumes "type < 7" "type \<noteq> 4"
  shows "bitmap_test (escape_map ! type) 37"
proof -
  have "type \<in> set [0,1,2,3,5,6]" using assms by auto
  moreover have "list_all (\<lambda>t. bitmap_test (escape_map ! t) 37) [0,1,2,3,5,6]" by code_simp
  ultimately show ?thesis by (simp only: list_all_iff)
qed

lemma escape_html_length: "length (ngx_escape_html src) = length src + ngx_escape_html_len src"
  by (induction src) auto

lemma escape_json_length: "length (ngx_escape_json src) = length src + ngx_escape_json_len src"
  by (induction src) auto

section \<open>Properties\<close>

text \<open>
  C40 (round trip). Unescaping what \<open>ngx_escape_uri\<close> wrote gives the original bytes back and
  consumes everything, for every escaping type but \<open>NGX_ESCAPE_REFRESH\<close> (which leaves the
  percent sign as it is).
\<close>

theorem escape_uri_roundtrip:
  assumes "type < 7" "type \<noteq> 4"
  shows "ngx_unescape_uri (ngx_escape_uri src type) 0 = (src, [])"
  unfolding ngx_unescape_uri_def ngx_escape_uri_def
  by (rule unescape_escape_loop[OF escape_map_percent[OF assms]])

theorem escape_uri_roundtrip_witness:
  "ngx_unescape_uri (ngx_escape_uri (bytes ''a b%'') 2) 0 = (bytes ''a b%'', [])"
  using escape_uri_roundtrip[of 2 "bytes ''a b%''"] by simp

text \<open>
  The measuring mode of each escaping routine announces exactly the room the writing
  mode uses: two extra bytes per escaped URI byte, and the announced excess for HTML and JSON.
\<close>

theorem escape_sizes:
  "length (ngx_escape_uri src type) = length src + 2 * ngx_escape_uri_len src type \<and>
   length (ngx_escape_html src) = length src + ngx_escape_html_len src \<and>
   length (ngx_escape_json src) = length src + ngx_escape_json_len src"
  by (simp add: ngx_escape_uri_def ngx_escape_uri_len_def escape_uri_copy_length
      escape_html_length escape_json_length)

text \<open>
  The table \<open>refresh\<close> of \<open>ngx_escape_uri\<close> does not contain the percent sign its
  comment lists, so \<open>NGX_ESCAPE_REFRESH\<close> output cannot be unescaped: two inputs have the same
  escaped form.
\<close>

theorem escape_refresh_not_injective:
  "ngx_escape_uri (bytes ''%20'') 4 = ngx_escape_uri (bytes '' '') 4 \<and> bytes ''%20'' \<noteq> bytes '' ''"
  by code_simp

end
