(* ===== verification/Ngx_Http_Chunked.thy ===== *)
theory Ngx_Http_Chunked
  imports Ngx_Number
begin

text \<open>
  Chunked transfer coding: the parser \<open>ngx_http_parse_chunked\<close>
  (\<^verbatim>\<open>src/http/ngx_http_parse.c\<close>), the request body filter that drives it
  (\<^verbatim>\<open>src/http/ngx_http_request_body.c\<close>) and the response body filter that produces chunks
  (\<^verbatim>\<open>src/http/modules/ngx_http_chunked_filter_module.c\<close>).

  \<open>dechunk\<close> is the specification: it reads one byte at a time and copies data bytes out. The
  filter, which works on whole buffers, is shown to refine it, and the encoder to be its inverse.
\<close>

section \<open>The parser\<close>

datatype chunk_state =
    sw_chunk_start | sw_chunk_size | sw_chunk_extension | sw_chunk_extension_almost_done
  | sw_chunk_data | sw_after_data | sw_after_data_almost_done
  | sw_last_chunk_extension | sw_last_chunk_extension_almost_done
  | sw_trailer | sw_trailer_almost_done | sw_trailer_header | sw_trailer_header_almost_done

record ngx_http_chunked_t =
  ck_state :: chunk_state
  ck_size :: int
  ck_length :: int

text \<open>How the loop is left: \<open>goto data\<close>, \<open>goto done\<close> or \<open>goto invalid\<close>.\<close>

datatype chunk_exit = Chunk_data | Chunk_done | Chunk_invalid

type_synonym chunk_loop = "chunk_state \<times> int"

fun chunked_body :: "(chunk_loop, chunk_exit \<times> chunk_loop) body" where
  "chunked_body mem p ch (sw_chunk_start, sz) =
     (if is_digit ch then Next (sw_chunk_size, uint ch - 48)
      else if is_hex_alpha ch then Next (sw_chunk_size, uint (ch OR 0x20) - 97 + 10)
      else Stop (Chunk_invalid, sw_chunk_start, sz))"
| "chunked_body mem p ch (sw_chunk_size, sz) =
     (if sz > NGX_MAX_OFF_T_VALUE div 16 then Stop (Chunk_invalid, sw_chunk_size, sz)
      else if is_digit ch then Next (sw_chunk_size, sz * 16 + (uint ch - 48))
      else if is_hex_alpha ch then Next (sw_chunk_size, sz * 16 + (uint (ch OR 0x20) - 97 + 10))
      else if sz = 0 then
        (if ch = CR then Next (sw_last_chunk_extension_almost_done, sz)
         else if ch = LF then Next (sw_trailer, sz)
         else if ch = c8 CHR '';'' \<or> ch = SP \<or> ch = HT then Next (sw_last_chunk_extension, sz)
         else Stop (Chunk_invalid, sw_chunk_size, sz))
      else if ch = CR then Next (sw_chunk_extension_almost_done, sz)
      else if ch = LF then Next (sw_chunk_data, sz)
      else if ch = c8 CHR '';'' \<or> ch = SP \<or> ch = HT then Next (sw_chunk_extension, sz)
      else Stop (Chunk_invalid, sw_chunk_size, sz))"
| "chunked_body mem p ch (sw_chunk_extension, sz) =
     (if ch = CR then Next (sw_chunk_extension_almost_done, sz)
      else if ch = LF then Next (sw_chunk_data, sz)
      else Next (sw_chunk_extension, sz))"
| "chunked_body mem p ch (sw_chunk_extension_almost_done, sz) =
     (if ch = LF then Next (sw_chunk_data, sz)
      else Stop (Chunk_invalid, sw_chunk_extension_almost_done, sz))"
| "chunked_body mem p ch (sw_chunk_data, sz) = Stop (Chunk_data, sw_chunk_data, sz)"
| "chunked_body mem p ch (sw_after_data, sz) =
     (if ch = CR then Next (sw_after_data_almost_done, sz)
      else if ch = LF then Next (sw_chunk_start, sz)
      else Next (sw_after_data, sz))"
| "chunked_body mem p ch (sw_after_data_almost_done, sz) =
     (if ch = LF then Next (sw_chunk_start, sz)
      else Stop (Chunk_invalid, sw_after_data_almost_done, sz))"
| "chunked_body mem p ch (sw_last_chunk_extension, sz) =
     (if ch = CR then Next (sw_last_chunk_extension_almost_done, sz)
      else if ch = LF then Next (sw_trailer, sz)
      else Next (sw_last_chunk_extension, sz))"
| "chunked_body mem p ch (sw_last_chunk_extension_almost_done, sz) =
     (if ch = LF then Next (sw_trailer, sz)
      else Stop (Chunk_invalid, sw_last_chunk_extension_almost_done, sz))"
| "chunked_body mem p ch (sw_trailer, sz) =
     (if ch = CR then Next (sw_trailer_almost_done, sz)
      else if ch = LF then Stop (Chunk_done, sw_trailer, sz)
      else Next (sw_trailer_header, sz))"
| "chunked_body mem p ch (sw_trailer_almost_done, sz) =
     (if ch = LF then Stop (Chunk_done, sw_trailer_almost_done, sz)
      else Stop (Chunk_invalid, sw_trailer_almost_done, sz))"
| "chunked_body mem p ch (sw_trailer_header, sz) =
     (if ch = CR then Next (sw_trailer_header_almost_done, sz)
      else if ch = LF then Next (sw_trailer, sz)
      else Next (sw_trailer_header, sz))"
| "chunked_body mem p ch (sw_trailer_header_almost_done, sz) =
     (if ch = LF then Next (sw_trailer, sz)
      else Stop (Chunk_invalid, sw_trailer_header_almost_done, sz))"

text \<open>The \<open>switch (state)\<close> after label \<open>data\<close>: \<open>ctx->length\<close>.\<close>

fun chunked_length :: "chunk_state \<Rightarrow> int \<Rightarrow> int" where
  "chunked_length sw_chunk_start sz = 3"
| "chunked_length sw_chunk_size sz = 1 + (if sz \<noteq> 0 then sz + 4 else 1)"
| "chunked_length sw_chunk_extension sz = 1 + sz + 4"
| "chunked_length sw_chunk_extension_almost_done sz = 1 + sz + 4"
| "chunked_length sw_chunk_data sz = sz + 4"
| "chunked_length sw_after_data sz = 4"
| "chunked_length sw_after_data_almost_done sz = 4"
| "chunked_length sw_last_chunk_extension sz = 2"
| "chunked_length sw_last_chunk_extension_almost_done sz = 2"
| "chunked_length sw_trailer sz = 1"
| "chunked_length sw_trailer_almost_done sz = 1"
| "chunked_length sw_trailer_header sz = 2"
| "chunked_length sw_trailer_header_almost_done sz = 2"

text \<open>Label \<open>data\<close>: the return code, the new \<open>b->pos\<close> and the context.\<close>

definition chunked_data :: "ngx_rc \<Rightarrow> nat \<Rightarrow> chunk_loop \<Rightarrow> ngx_http_chunked_t \<Rightarrow>
    ngx_rc \<times> nat \<times> ngx_http_chunked_t" where
  "chunked_data rc p s ctx =
     (case s of (state, sz) \<Rightarrow>
        let ctx' = ctx\<lparr>ck_state := state, ck_size := sz\<rparr> in
        if sz > NGX_MAX_OFF_T_VALUE - 5 then (NGX_ERROR, p, ctx')
        else (rc, p, ctx'\<lparr>ck_length := chunked_length state sz\<rparr>))"

definition ngx_http_parse_chunked :: "u_char list \<Rightarrow> nat \<Rightarrow> nat \<Rightarrow> ngx_http_chunked_t \<Rightarrow>
    ngx_rc \<times> nat \<times> ngx_http_chunked_t" where
  "ngx_http_parse_chunked mem pos lim ctx =
     (let state = (if ck_state ctx = sw_chunk_data \<and> ck_size ctx = 0 then sw_after_data
                   else ck_state ctx)
      in case scan chunked_body mem pos lim (state, ck_size ctx) of
           More p s \<Rightarrow> chunked_data NGX_AGAIN p s ctx
         | Halt p (Chunk_data, s) \<Rightarrow> chunked_data NGX_OK p s ctx
         | Halt p (Chunk_done, s) \<Rightarrow>
             (NGX_DONE, Suc p, ctx\<lparr>ck_state := sw_chunk_start, ck_size := snd s\<rparr>)
         | Halt p (Chunk_invalid, s) \<Rightarrow> (NGX_ERROR, pos, ctx\<lparr>ck_size := snd s\<rparr>))"

section \<open>The request body filter\<close>

text \<open>
  The part of \<open>ngx_http_request_body_t\<close> and of the request the filter changes. An output
  buffer is its bytes and its \<open>last_buf\<close> flag.
\<close>

record request_body =
  rb_rest :: int
  rb_chunked :: ngx_http_chunked_t
  rb_content_length_n :: int

type_synonym body_buf = "u_char list \<times> bool"

datatype body_status = Body_ok | Body_too_large | Body_bad_request

definition slice :: "u_char list \<Rightarrow> nat \<Rightarrow> nat \<Rightarrow> u_char list" where
  "slice mem p q = take (q - p) (drop p mem)"

text \<open>
  The inner \<open>for ( ;; )\<close> on one buffer. \<open>fuel\<close> bounds its passes; \<^term>\<open>None\<close> means it ran out.
\<close>

fun chunked_filter_buf :: "nat \<Rightarrow> int \<Rightarrow> u_char list \<Rightarrow> nat \<Rightarrow> nat \<Rightarrow> request_body \<Rightarrow>
    (body_status \<times> nat \<times> request_body \<times> body_buf list) option" where
  "chunked_filter_buf 0 max_body mem pos lim rb = None"
| "chunked_filter_buf (Suc fuel) max_body mem pos lim rb =
     (case ngx_http_parse_chunked mem pos lim (rb_chunked rb) of
        (NGX_OK, pos', ctx) \<Rightarrow>
          if max_body \<noteq> 0 \<and> max_body - rb_content_length_n rb < ck_size ctx
          then Some (Body_too_large, pos', rb\<lparr>rb_chunked := ctx\<rparr>, [])
          else
            (let sz = int (lim - pos');
                 (pos'', rb') =
                   (if sz > ck_size ctx
                    then (pos' + nat (ck_size ctx),
                          rb\<lparr>rb_content_length_n := rb_content_length_n rb + ck_size ctx,
                             rb_chunked := ctx\<lparr>ck_size := 0\<rparr>\<rparr>)
                    else (lim,
                          rb\<lparr>rb_content_length_n := rb_content_length_n rb + sz,
                             rb_chunked := ctx\<lparr>ck_size := ck_size ctx - sz\<rparr>\<rparr>))
             in map_option (\<lambda>(st, p, r, out). (st, p, r, (slice mem pos' pos'', False) # out))
                  (chunked_filter_buf fuel max_body mem pos'' lim rb'))
      | (NGX_DONE, pos', ctx) \<Rightarrow>
          Some (Body_ok, pos', rb\<lparr>rb_chunked := ctx, rb_rest := 0\<rparr>, [([], True)])
      | (NGX_AGAIN, pos', ctx) \<Rightarrow>
          Some (Body_ok, pos', rb\<lparr>rb_chunked := ctx, rb_rest := ck_length ctx\<rparr>, [])
      | (_, pos', ctx) \<Rightarrow> Some (Body_bad_request, pos', rb\<lparr>rb_chunked := ctx\<rparr>, []))"

text \<open>
  The whole filter. The input chain is a list of buffers (memory, \<open>pos\<close>, \<open>last\<close>).
  \<open>fuel = 2 + (last - pos)\<close> passes per buffer are always enough (shown below), so the fuel is
  not part of the interface.
\<close>

fun chunked_filter_chain :: "int \<Rightarrow> (u_char list \<times> nat \<times> nat) list \<Rightarrow> request_body \<Rightarrow>
    (body_status \<times> request_body \<times> body_buf list) option" where
  "chunked_filter_chain max_body [] rb = Some (Body_ok, rb, [])"
| "chunked_filter_chain max_body ((mem, pos, lim) # chain) rb =
     (case chunked_filter_buf (2 + (lim - pos)) max_body mem pos lim rb of
        None \<Rightarrow> None
      | Some (Body_ok, _, rb', out) \<Rightarrow>
          map_option (\<lambda>(st, r, out'). (st, r, out @ out')) (chunked_filter_chain max_body chain rb')
      | Some (st, _, rb', out) \<Rightarrow> Some (st, rb', out))"

definition ngx_http_request_body_chunked_filter ::
    "int \<Rightarrow> (u_char list \<times> nat \<times> nat) list \<Rightarrow> request_body \<Rightarrow>
     (body_status \<times> request_body \<times> body_buf list) option" where
  "ngx_http_request_body_chunked_filter max_body chain rb =
     chunked_filter_chain max_body chain
       (if rb_rest rb = -1
        then rb\<lparr>rb_chunked := \<lparr>ck_state = sw_chunk_start, ck_size = 0, ck_length = 0\<rparr>,
                rb_content_length_n := 0, rb_rest := 3\<rparr>
        else rb)"

section \<open>The response body filter\<close>

text \<open>A buffer of the response chain: where its content lives, its flags and its content.\<close>

record chunk_buf =
  cb_memory :: bool
  cb_in_file :: bool
  cb_flush :: bool
  cb_sync :: bool
  cb_last_buf :: bool
  cb_data :: "u_char list"

definition CRLF :: "u_char list" where "CRLF = [CR, LF]"

definition chunk_size_buf :: "nat \<Rightarrow> chunk_buf" where
  "chunk_size_buf sz = \<lparr>cb_memory = True, cb_in_file = False, cb_flush = False, cb_sync = False,
     cb_last_buf = False, cb_data = ngx_sprintf_num sprintf_room sz SP 1 0 @ CRLF\<rparr>"

definition chunk_tail_buf :: "bool \<Rightarrow> u_char list \<Rightarrow> chunk_buf" where
  "chunk_tail_buf last_buf d = \<lparr>cb_memory = True, cb_in_file = False, cb_flush = False,
     cb_sync = False, cb_last_buf = last_buf, cb_data = d\<rparr>"

definition ngx_http_chunked_body_filter :: "bool \<Rightarrow> bool \<Rightarrow> chunk_buf list \<Rightarrow> chunk_buf list" where
  "ngx_http_chunked_body_filter chunked header_only inp =
     (if inp = [] \<or> \<not> chunked \<or> header_only then inp
      else
        let sz = sum_list (map (length \<circ> cb_data) inp);
            is_last = cb_last_buf (List.last inp);
            inp' = (if is_last then butlast inp @ [(List.last inp)\<lparr>cb_last_buf := False\<rparr>] else inp);
            out = filter (\<lambda>b. cb_flush b \<or> cb_sync b \<or> cb_memory b \<or> cb_in_file b) inp';
            head = (if sz \<noteq> 0 then [chunk_size_buf sz] else []);
            tail = (if is_last
                    then [chunk_tail_buf True (drop (if sz = 0 then 2 else 0)
                                                 (CRLF @ bytes ''0'' @ CRLF @ CRLF))]
                    else if sz > 0 then [chunk_tail_buf False CRLF]
                    else [])
        in head @ out @ tail)"

text \<open>What a chain puts on the wire.\<close>

definition wire :: "chunk_buf list \<Rightarrow> u_char list" where
  "wire bufs = concat (map cb_data bufs)"

section \<open>Specification: one byte at a time\<close>

datatype dechunked =
    In_progress chunk_loop "u_char list"
  | Complete "u_char list" "u_char list"
  | Malformed

fun emit :: "u_char list \<Rightarrow> dechunked \<Rightarrow> dechunked" where
  "emit d (In_progress s out) = In_progress s (d @ out)"
| "emit d (Complete rest out) = Complete rest (d @ out)"
| "emit d Malformed = Malformed"

fun dechunk :: "chunk_loop \<Rightarrow> u_char list \<Rightarrow> dechunked" where
  "dechunk s [] = In_progress s []"
| "dechunk (st, sz) (b # bs) =
     (if st = sw_chunk_data
      then emit [b] (dechunk (if sz = 1 then (sw_after_data, 0) else (sw_chunk_data, sz - 1)) bs)
      else case chunked_body [] 0 b (st, sz) of
             Next s \<Rightarrow> dechunk s bs
           | Stop (Chunk_done, _) \<Rightarrow> Complete bs []
           | Stop _ \<Rightarrow> Malformed)"

text \<open>The invariant of the parser's context.\<close>

definition chunk_wf :: "chunk_loop \<Rightarrow> bool" where
  "chunk_wf s \<longleftrightarrow> (case s of (st, sz) \<Rightarrow>
     0 \<le> sz \<and> sz \<le> NGX_MAX_OFF_T_VALUE \<and>
     (st \<noteq> sw_chunk_size \<longrightarrow> sz \<le> NGX_MAX_OFF_T_VALUE div 16) \<and>
     (st \<in> {sw_chunk_extension, sw_chunk_extension_almost_done, sw_chunk_data} \<longrightarrow> 1 \<le> sz))"

lemma chunked_body_local: "chunked_body mem p ch s = chunked_body [] 0 ch s"
  by (cases s; cases "fst s") simp_all

lemma hex_digit_value:
  "is_digit ch \<Longrightarrow> hex_val ch = Some (uint ch - 48)"
  "\<not> is_digit ch \<Longrightarrow> is_hex_alpha ch \<Longrightarrow> hex_val ch = Some (uint (ch OR 0x20) - 97 + 10)"
  by (simp_all add: hex_val_def)

lemma hex_digit_range:
  "is_digit ch \<Longrightarrow> 0 \<le> uint ch - 48 \<and> uint ch - 48 < 16"
  "\<not> is_digit ch \<Longrightarrow> is_hex_alpha ch \<Longrightarrow>
     0 \<le> uint (ch OR 0x20) - 97 + 10 \<and> uint (ch OR 0x20) - 97 + 10 < 16"
  using hex_val_range hex_digit_value by blast+

lemma chunked_body_wf:
  assumes "chunk_wf s" "chunked_body mem p ch s = Next s'"
  shows "chunk_wf s'"
proof -
  obtain st sz where s: "s = (st, sz)" by fastforce
  show ?thesis
    using assms hex_digit_range[of ch] unfolding s
    by (cases st) (auto simp: chunk_wf_def limit_simps split: if_splits)
qed

text \<open>\<open>ctx->length\<close> drops by at most one per byte, so it never overestimates what is missing.\<close>

lemma chunked_length_step:
  assumes "chunk_wf s" "chunked_body mem p ch s = Next s'"
  shows "chunked_length (fst s) (snd s) \<le> 1 + chunked_length (fst s') (snd s')"
proof -
  obtain st sz where s: "s = (st, sz)" by fastforce
  show ?thesis
    using assms hex_digit_range[of ch] unfolding s
    by (cases st) (auto simp: chunk_wf_def split: if_splits)
qed

lemma chunked_length_done:
  "chunked_body mem p ch s = Stop (Chunk_done, s') \<Longrightarrow> chunked_length (fst s) (snd s) = 1"
  by (cases s; cases "fst s") (auto split: if_splits)

lemma chunk_wf_data_step:
  "chunk_wf (sw_chunk_data, sz) \<Longrightarrow>
     chunk_wf (if sz = 1 then (sw_after_data, 0) else (sw_chunk_data, sz - 1))"
  by (auto simp: chunk_wf_def limit_simps)

lemma emit_Complete:
  "emit d x = Complete rest out \<longleftrightarrow> (\<exists>out'. x = Complete rest out' \<and> out = d @ out')"
  by (cases x) auto

lemma chunk_case_split:
  "(case (e, s) of (Chunk_done, t) \<Rightarrow> f t | (Chunk_data, t) \<Rightarrow> g t | (Chunk_invalid, t) \<Rightarrow> h t) =
     (case e of Chunk_done \<Rightarrow> f s | Chunk_data \<Rightarrow> g s | Chunk_invalid \<Rightarrow> h s)"
  by (cases e) auto

lemma dechunk_needs_length:
  "chunk_wf s \<Longrightarrow> dechunk s bs = Complete rest out \<Longrightarrow>
     chunked_length (fst s) (snd s) \<le> int (length bs) - int (length rest)"
proof (induction s bs arbitrary: out rule: dechunk.induct)
  case (1 s)
  then show ?case by simp
next
  case (2 st sz b bs)
  show ?case
  proof (cases "st = sw_chunk_data")
    case True
    let ?s' = "if sz = 1 then (sw_after_data, 0) else (sw_chunk_data, sz - 1)"
    obtain out' where "dechunk ?s' bs = Complete rest out'"
      using 2(4) True by (auto simp: emit_Complete split: if_splits)
    from "2.IH"(1)[OF True _ this] 2(3) True
    have "chunked_length (fst ?s') (snd ?s') \<le> int (length bs) - int (length rest)"
      using chunk_wf_data_step by blast
    with True show ?thesis by (auto split: if_splits)
  next
    case False
    show ?thesis
    proof (cases "chunked_body [] 0 b (st, sz)")
      case (Next s')
      have "dechunk s' bs = Complete rest out" using 2(4) False Next by simp
      from "2.IH"(2)[OF False Next chunked_body_wf[OF 2(3) Next] this]
        chunked_length_step[OF 2(3) Next]
      show ?thesis by simp
    next
      case (Stop r)
      with 2(4) False obtain t where "r = (Chunk_done, t)" "rest = bs"
        by (cases r; cases "fst r") auto
      with chunked_length_done[of "[]" 0 b "(st, sz)" t] Stop show ?thesis by simp
    qed
  qed
qed

section \<open>The filter refines the specification\<close>

lemma slice_Nil [simp]: "q \<le> p \<Longrightarrow> slice mem p q = []"
  by (simp add: slice_def)

lemma slice_Cons: "p < q \<Longrightarrow> q \<le> length mem \<Longrightarrow> slice mem p q = mem ! p # slice mem (Suc p) q"
  by (simp add: slice_def Suc_diff_Suc[symmetric] flip: Cons_nth_drop_Suc)

lemma length_slice [simp]: "q \<le> length mem \<Longrightarrow> length (slice mem p q) = q - p"
  by (auto simp: slice_def)

lemma slice_append:
  assumes "p \<le> q" "q \<le> r"
  shows "slice mem p r = slice mem p q @ slice mem q r"
proof -
  have "r - p = (q - p) + (r - q)" "drop (q - p) (drop p mem) = drop q mem"
    using assms by simp_all
  thus ?thesis by (simp add: slice_def take_add)
qed

lemma slice_take_drop:
  "take k (slice mem p q) = slice mem p (min q (p + k))"
  "drop k (slice mem p q) = slice mem (p + k) q"
proof -
  have "min k (q - p) = min q (p + k) - p" by linarith
  thus "take k (slice mem p q) = slice mem p (min q (p + k))" by (simp add: slice_def min.commute)
  show "drop k (slice mem p q) = slice mem (p + k) q" by (simp add: slice_def drop_take add.commute)
qed

definition scan_refines :: "u_char list \<Rightarrow> nat \<Rightarrow> nat \<Rightarrow> chunk_loop \<Rightarrow> bool" where
  "scan_refines mem p lim s \<longleftrightarrow>
     (case scan chunked_body mem p lim s of
        More q s' \<Rightarrow> chunk_wf s' \<and> dechunk s (slice mem p lim) = In_progress s' []
      | Halt q (Chunk_data, s') \<Rightarrow> p \<le> q \<and> q < lim \<and> chunk_wf s' \<and> fst s' = sw_chunk_data \<and>
          dechunk s (slice mem p lim) = dechunk s' (slice mem q lim)
      | Halt q (Chunk_done, s') \<Rightarrow> p \<le> q \<and> q < lim \<and>
          dechunk s (slice mem p lim) = Complete (slice mem (Suc q) lim) []
      | Halt q (Chunk_invalid, s') \<Rightarrow> dechunk s (slice mem p lim) = Malformed)"

lemma scan_refines:
  assumes "chunk_wf s" "lim \<le> length mem"
  shows "scan_refines mem p lim s"
  using assms
proof (induction "lim - p" arbitrary: p s)
  case 0
  then show ?case by (simp add: scan_refines_def)
next
  case (Suc n)
  hence lt: "p < lim" by simp
  obtain st sz where s: "s = (st, sz)" by fastforce
  have sl: "slice mem p lim = mem ! p # slice mem (Suc p) lim" using lt Suc.prems by (simp add: slice_Cons)
  show ?case
  proof (cases "chunked_body [] 0 (mem ! p) s")
    case (Next s')
    hence nd: "st \<noteq> sw_chunk_data" using s by auto
    have "scan_refines mem (Suc p) lim s'"
      using Suc.hyps(2) Suc.prems chunked_body_wf[OF Suc.prems(1) Next] by (intro Suc.hyps(1)) auto
    with Next nd lt sl s show ?thesis
      by (auto simp: scan_refines_def scan_step chunked_body_local[of mem p]
          split: scanned.splits chunk_exit.splits)
  next
    case (Stop r)
    with Suc.prems lt sl s show ?thesis
      by (cases st) (auto simp: scan_refines_def scan_step chunked_body_local[of mem p] split: if_splits)
  qed
qed

lemma dechunk_data:
  "chunk_wf (sw_chunk_data, sz) \<Longrightarrow> dechunk (sw_chunk_data, sz) bs =
     (if int (length bs) < sz then In_progress (sw_chunk_data, sz - int (length bs)) bs
      else emit (take (nat sz) bs) (dechunk (sw_after_data, 0) (drop (nat sz) bs)))"
proof (induction bs arbitrary: sz)
  case Nil
  then show ?case by (auto simp: chunk_wf_def)
next
  case (Cons b bs)
  have sz: "1 \<le> sz" using Cons.prems by (simp add: chunk_wf_def)
  show ?case
  proof (cases "sz = 1")
    case True
    then show ?thesis by simp
  next
    case False
    have "chunk_wf (sw_chunk_data, sz - 1)" using chunk_wf_data_step[OF Cons.prems] False by simp
    note IH = Cons.IH[OF this]
    have emit_emit: "emit [b] (emit d x) = emit (b # d) x" for d x by (cases x) auto
    have "take (nat sz) (b # bs) = b # take (nat (sz - 1)) bs" "drop (nat sz) (b # bs) = drop (nat (sz - 1)) bs"
      using sz False by (simp_all add: nat_diff_distrib take_Cons' drop_Cons')
    with IH False sz show ?thesis by (auto simp: emit_emit)
  qed
qed

definition chunk_norm :: "ngx_http_chunked_t \<Rightarrow> chunk_loop" where
  "chunk_norm ctx =
     (if ck_state ctx = sw_chunk_data \<and> ck_size ctx = 0 then (sw_after_data, 0)
      else (ck_state ctx, ck_size ctx))"

text \<open>What the filter makes of one buffer, against the specification of its bytes.\<close>

definition buf_refines :: "dechunked \<Rightarrow> nat \<Rightarrow> request_body \<Rightarrow>
    (body_status \<times> nat \<times> request_body \<times> body_buf list) option \<Rightarrow> bool" where
  "buf_refines spec lim rb res \<longleftrightarrow>
     (case spec of
        In_progress s out \<Rightarrow> chunk_wf s \<and> (\<exists>st p rb' bufs. res = Some (st, p, rb', bufs) \<and>
          (if snd s > NGX_MAX_OFF_T_VALUE - 5 then st = Body_bad_request
           else st = Body_ok \<and> chunk_norm (rb_chunked rb') = s \<and> concat (map fst bufs) = out \<and>
             rb_rest rb' = chunked_length (fst s) (snd s) \<and>
             rb_content_length_n rb' = rb_content_length_n rb + int (length out)))
      | Complete rest out \<Rightarrow> (\<exists>p rb' bufs. res = Some (Body_ok, p, rb', bufs) \<and>
          p = lim - length rest \<and> concat (map fst bufs) = out \<and> rb_rest rb' = 0 \<and>
          chunk_norm (rb_chunked rb') = (sw_chunk_start, ck_size (rb_chunked rb')) \<and>
          rb_content_length_n rb' = rb_content_length_n rb + int (length out))
      | Malformed \<Rightarrow> (\<exists>p rb' bufs. res = Some (Body_bad_request, p, rb', bufs)))"

lemma buf_refines_emit:
  assumes "buf_refines spec lim rb' res"
    "rb_content_length_n rb' = rb_content_length_n rb + int (length d)"
  shows "buf_refines (emit d spec) lim rb
    (map_option (\<lambda>(st, p, r, out). (st, p, r, (d, b) # out)) res)"
  using assms by (cases spec) (auto simp: buf_refines_def split: if_splits)

lemma chunked_filter_buf_refines:
  assumes "chunk_wf (chunk_norm (rb_chunked rb))" "lim \<le> length mem" "pos \<le> lim" "lim - pos < fuel"
  shows "buf_refines (dechunk (chunk_norm (rb_chunked rb)) (slice mem pos lim)) lim rb
    (chunked_filter_buf fuel 0 mem pos lim rb)"
  using assms
proof (induction fuel arbitrary: pos rb)
  case 0
  then show ?case by simp
next
  case (Suc fuel)
  let ?ctx = "rb_chunked rb" and ?s = "chunk_norm (rb_chunked rb)"
  have parse: "ngx_http_parse_chunked mem pos lim ?ctx =
    (case scan chunked_body mem pos lim ?s of
           More p s \<Rightarrow> chunked_data NGX_AGAIN p s ?ctx
         | Halt p (Chunk_data, s) \<Rightarrow> chunked_data NGX_OK p s ?ctx
         | Halt p (Chunk_done, s) \<Rightarrow>
             (NGX_DONE, Suc p, ?ctx\<lparr>ck_state := sw_chunk_start, ck_size := snd s\<rparr>)
         | Halt p (Chunk_invalid, s) \<Rightarrow> (NGX_ERROR, pos, ?ctx\<lparr>ck_size := snd s\<rparr>))"
    by (simp add: ngx_http_parse_chunked_def chunk_norm_def)
  note ref = scan_refines[OF Suc.prems(1,2), of pos, unfolded scan_refines_def]
  show ?case
  proof (cases "scan chunked_body mem pos lim ?s")
    case (More q s')
    obtain st sz where s': "s' = (st, sz)" by fastforce
    show ?thesis
    proof (cases "st = sw_chunk_data \<and> sz = 0")
      case True
      with ref More s' show ?thesis by (simp add: chunk_wf_def)
    next
      case False
      with ref More s' show ?thesis
        by (auto simp: parse buf_refines_def chunked_data_def chunk_norm_def Let_def)
    qed
  next
    case (Halt q r)
    obtain e st sz where r: "r = (e, st, sz)" by (metis prod.exhaust)
    show ?thesis
    proof (cases e)
      case Chunk_done
      with ref Halt r Suc.prems show ?thesis
        by (auto simp: parse buf_refines_def chunk_norm_def)
    next
      case Chunk_invalid
      with ref Halt r show ?thesis by (auto simp: parse buf_refines_def)
    next
      case Chunk_data
      with ref Halt r have q: "pos \<le> q" "q < lim" and wf: "chunk_wf (sw_chunk_data, sz)"
        and st: "st = sw_chunk_data"
        and eq: "dechunk ?s (slice mem pos lim) = dechunk (sw_chunk_data, sz) (slice mem q lim)"
        by auto
      have sz: "1 \<le> sz" "sz \<le> NGX_MAX_OFF_T_VALUE - 5" using wf by (auto simp: chunk_wf_def limit_simps)
      let ?ctx' = "?ctx\<lparr>ck_state := sw_chunk_data, ck_size := sz, ck_length := sz + 4\<rparr>"
      have p: "ngx_http_parse_chunked mem pos lim ?ctx = (NGX_OK, q, ?ctx')"
        using Halt r Chunk_data st sz by (simp add: parse chunked_data_def)
      show ?thesis
      proof (cases "int (lim - q) > sz")
        case True
        let ?rb = "rb\<lparr>rb_content_length_n := rb_content_length_n rb + sz, rb_chunked := ?ctx'\<lparr>ck_size := 0\<rparr>\<rparr>"
        have q': "q + nat sz \<le> lim" "lim - (q + nat sz) < fuel"
          using True sz q Suc.prems(3,4) by linarith+
        have n: "chunk_norm (rb_chunked ?rb) = (sw_after_data, 0)" by (simp add: chunk_norm_def)
        have "buf_refines (dechunk (sw_after_data, 0) (slice mem (q + nat sz) lim)) lim ?rb
            (chunked_filter_buf fuel 0 mem (q + nat sz) lim ?rb)"
          using Suc.IH[of ?rb "q + nat sz"] Suc.prems(2) q' unfolding n
          by (simp add: chunk_wf_def limit_simps)
        from buf_refines_emit[OF this, of rb "slice mem q (q + nat sz)" False]
        show ?thesis
          using True sz Suc.prems(2) min.absorb2[OF q'(1)]
          by (simp add: p eq dechunk_data[OF wf] slice_take_drop Let_def)
      next
        case False
        let ?rb = "rb\<lparr>rb_content_length_n := rb_content_length_n rb + int (lim - q),
          rb_chunked := ?ctx'\<lparr>ck_size := sz - int (lim - q)\<rparr>\<rparr>"
        have f: "lim - lim < fuel" using Suc.prems(4) q by linarith
        have n: "chunk_norm (rb_chunked ?rb) =
          (if int (lim - q) = sz then (sw_after_data, 0) else (sw_chunk_data, sz - int (lim - q)))"
          by (simp add: chunk_norm_def)
        have wf': "chunk_wf (chunk_norm (rb_chunked ?rb))"
          unfolding n using wf False by (auto simp: chunk_wf_def limit_simps)
        have "buf_refines (In_progress (chunk_norm (rb_chunked ?rb)) []) lim ?rb
            (chunked_filter_buf fuel 0 mem lim lim ?rb)"
          using Suc.IH[OF wf' Suc.prems(2) order_refl f] by simp
        note em = buf_refines_emit[OF this, of rb "slice mem q lim" False]
        have spec: "dechunk (sw_chunk_data, sz) (slice mem q lim) =
            emit (slice mem q lim) (In_progress (chunk_norm (rb_chunked ?rb)) [])"
          unfolding n using False Suc.prems(2) by (auto simp: dechunk_data[OF wf] slice_take_drop)
        show ?thesis
          using em False Suc.prems(2) by (simp add: p eq spec Let_def)
      qed
    qed
  qed
qed

declare chunked_filter_buf.simps [simp del]

section \<open>Chains of buffers\<close>

definition chain_bytes :: "(u_char list \<times> nat \<times> nat) list \<Rightarrow> u_char list" where
  "chain_bytes chain = concat (map (\<lambda>(mem, pos, lim). slice mem pos lim) chain)"

definition chain_ok :: "(u_char list \<times> nat \<times> nat) list \<Rightarrow> bool" where
  "chain_ok chain \<longleftrightarrow> list_all (\<lambda>(mem, pos, lim). pos < lim \<and> lim \<le> length mem) chain"

lemma emit_Nil [simp]: "emit [] x = x"
  by (cases x) auto

lemma emit_emit [simp]: "emit d (emit e x) = emit (d @ e) x"
  by (cases x) auto

lemma dechunk_append:
  "dechunk s (xs @ ys) =
     (case dechunk s xs of
        In_progress s' out \<Rightarrow> emit out (dechunk s' ys)
      | Complete rest out \<Rightarrow> Complete (rest @ ys) out
      | Malformed \<Rightarrow> Malformed)"
proof (induction s xs rule: dechunk.induct)
  case (1 s)
  then show ?case by simp
next
  case (2 st sz b bs)
  show ?case
  proof (cases "st = sw_chunk_data")
    case True
    from "2.IH"(1)[OF True] True show ?thesis
      by (cases "dechunk (if sz = 1 then (sw_after_data, 0) else (sw_chunk_data, sz - 1)) bs") auto
  next
    case False
    then show ?thesis
      using "2.IH"(2)[OF False] by (auto split: outcome.splits chunk_exit.splits)
  qed
qed

lemma dechunk_wf: "chunk_wf s \<Longrightarrow> dechunk s bs = In_progress s' out \<Longrightarrow> chunk_wf s'"
proof (induction s bs arbitrary: out rule: dechunk.induct)
  case (2 st sz b bs)
  show ?case
  proof (cases "st = sw_chunk_data")
    case True
    let ?s = "if sz = 1 then (sw_after_data, 0) else (sw_chunk_data, sz - 1)"
    obtain o' where "dechunk ?s bs = In_progress s' o'"
      using 2(4) True by (cases "dechunk ?s bs") auto
    with "2.IH"(1)[OF True _ this] 2(3) True chunk_wf_data_step show ?thesis by blast
  next
    case False
    with 2(4) obtain t where "chunked_body [] 0 b (st, sz) = Next t" "dechunk t bs = In_progress s' out"
      by (auto split: outcome.splits chunk_exit.splits)
    with "2.IH"(2)[OF False _ chunked_body_wf[OF 2(3)]] show ?thesis by blast
  qed
qed auto

text \<open>An oversized chunk length is refused at the next byte.\<close>

lemma dechunk_oversized:
  assumes "chunk_wf s" "snd s > NGX_MAX_OFF_T_VALUE div 16" "bs \<noteq> []"
  shows "dechunk s bs = Malformed"
proof -
  obtain st sz b bs' where "s = (st, sz)" "bs = b # bs'" using assms by (metis list.exhaust prod.exhaust)
  with assms show ?thesis by (cases st) (auto simp: chunk_wf_def)
qed

lemma chunked_filter_chain_complete:
  assumes "chunk_wf (chunk_norm (rb_chunked rb))" "chain_ok chain"
    and "dechunk (chunk_norm (rb_chunked rb)) (chain_bytes chain) = Complete [] out"
  shows "\<exists>rb' bufs. chunked_filter_chain 0 chain rb = Some (Body_ok, rb', bufs) \<and>
    concat (map fst bufs) = out \<and> rb_rest rb' = 0 \<and>
    rb_content_length_n rb' = rb_content_length_n rb + int (length out)"
  using assms
proof (induction chain arbitrary: rb out)
  case Nil
  then show ?case by (simp add: chain_bytes_def)
next
  case (Cons link chain)
  obtain mem pos lim where link: "link = (mem, pos, lim)" by (metis prod.exhaust)
  let ?s = "chunk_norm (rb_chunked rb)" and ?b = "slice mem pos lim"
  have ok: "pos < lim" "lim \<le> length mem" "chain_ok chain" using Cons.prems(2) by (auto simp: chain_ok_def link)
  have bytes: "chain_bytes (link # chain) = ?b @ chain_bytes chain" by (simp add: chain_bytes_def link)
  have ref: "buf_refines (dechunk ?s ?b) lim rb (chunked_filter_buf (2 + (lim - pos)) 0 mem pos lim rb)"
    by (rule chunked_filter_buf_refines[OF Cons.prems(1) ok(2)]) (use ok(1) in auto)
  show ?case
  proof (cases "dechunk ?s ?b")
    case (Complete rest o1)
    with Cons.prems(3) have "rest = []" "chain_bytes chain = []" "o1 = out"
      by (auto simp: bytes dechunk_append)
    moreover have "chain = []"
      using \<open>chain_bytes chain = []\<close> ok(3)
      by (cases chain) (auto simp: chain_bytes_def chain_ok_def slice_Cons)
    ultimately show ?thesis using ref Complete by (auto simp: buf_refines_def link)
  next
    case (In_progress s1 o1)
    obtain o2 where o2: "dechunk s1 (chain_bytes chain) = Complete [] o2" "out = o1 @ o2"
      using Cons.prems(3) In_progress by (auto simp: bytes dechunk_append emit_Complete)
    have wf1: "chunk_wf s1" using dechunk_wf[OF Cons.prems(1) In_progress] .
    have "snd s1 \<le> NGX_MAX_OFF_T_VALUE div 16"
      using dechunk_oversized[OF wf1] o2(1) by (cases "chain_bytes chain = []") force+
    hence "\<not> snd s1 > NGX_MAX_OFF_T_VALUE - 5" by (simp add: limit_simps)
    with ref In_progress obtain p rb1 bufs1 where
      b1: "chunked_filter_buf (2 + (lim - pos)) 0 mem pos lim rb = Some (Body_ok, p, rb1, bufs1)"
      and n1: "chunk_norm (rb_chunked rb1) = s1" "concat (map fst bufs1) = o1"
        "rb_content_length_n rb1 = rb_content_length_n rb + int (length o1)"
      by (auto simp: buf_refines_def)
    from Cons.IH[of rb1 o2] wf1 n1 ok(3) o2(1) obtain rb2 bufs2 where
      "chunked_filter_chain 0 chain rb1 = Some (Body_ok, rb2, bufs2)" "concat (map fst bufs2) = o2"
      "rb_rest rb2 = 0" "rb_content_length_n rb2 = rb_content_length_n rb1 + int (length o2)"
      by auto
    with b1 n1 o2 show ?thesis by (auto simp: link)
  next
    case Malformed
    with Cons.prems(3) show ?thesis by (simp add: bytes dechunk_append)
  qed
qed

section \<open>The encoder is inverted by the specification\<close>

lemma chunked_body_hex_start:
  "hex_val c = Some d \<Longrightarrow> chunked_body mem p c (sw_chunk_start, sz) = Next (sw_chunk_size, d)"
  by (auto simp: hex_val_def split: if_splits)

lemma chunked_body_hex_size:
  "hex_val c = Some d \<Longrightarrow> sz \<le> NGX_MAX_OFF_T_VALUE div 16 \<Longrightarrow>
     chunked_body mem p c (sw_chunk_size, sz) = Next (sw_chunk_size, sz * 16 + d)"
  by (auto simp: hex_val_def split: if_splits)

lemma dechunk_hex_size:
  assumes "\<forall>c \<in> set ds. hex_val c \<noteq> None" "0 \<le> sz"
    "base_value 16 (\<lambda>c. the (hex_val c)) sz ds \<le> NGX_MAX_OFF_T_VALUE div 16"
  shows "dechunk (sw_chunk_size, sz) (ds @ r) =
    dechunk (sw_chunk_size, base_value 16 (\<lambda>c. the (hex_val c)) sz ds) r"
  using assms
proof (induction ds arbitrary: sz)
  case (Cons c ds)
  then obtain d where d: "hex_val c = Some d" by auto
  have ge: "0 \<le> d" using hex_val_range[OF d] by simp
  have "\<forall>x \<in> set ds. 0 \<le> the (hex_val x)" using Cons.prems(1) hex_val_range by fastforce
  from base_value_mono[OF _ _ this, of 16 "sz * 16 + d"] Cons.prems d ge
  have "sz * 16 + d \<le> NGX_MAX_OFF_T_VALUE div 16" by simp
  hence "sz \<le> NGX_MAX_OFF_T_VALUE div 16" using Cons.prems(2) ge by linarith
  with chunked_body_hex_size[OF d] Cons.IH[of "sz * 16 + d"] Cons.prems d ge show ?case by simp
qed simp

abbreviation chunk_hex :: "nat \<Rightarrow> u_char list" where
  "chunk_hex n \<equiv> hex_digits hex_lower n []"

lemma dechunk_hex:
  assumes "int n \<le> NGX_MAX_OFF_T_VALUE div 16"
  shows "dechunk (sw_chunk_start, sz) (chunk_hex n @ r) = dechunk (sw_chunk_size, int n) r"
proof -
  have v: "chunk_hex n \<noteq> []" "\<forall>c \<in> set (chunk_hex n). hex_val c \<noteq> None" "hex_value (chunk_hex n) = int n"
    using hex_digits_value[of hex_lower n] hex_byte(1) by auto
  then obtain c ds d where c: "chunk_hex n = c # ds" "hex_val c = Some d" by (cases "chunk_hex n") auto
  have "0 \<le> d" using hex_val_range[OF c(2)] by simp
  with v c assms show ?thesis
    by (simp add: chunked_body_hex_start[OF c(2)] dechunk_hex_size del: chunked_body.simps)
qed

lemma dechunk_chunk:
  assumes "d \<noteq> []" "int (length d) \<le> NGX_MAX_OFF_T_VALUE div 16"
  shows "dechunk (sw_chunk_start, sz) (chunk_hex (length d) @ CRLF @ d @ CRLF @ r) =
    emit d (dechunk (sw_chunk_start, 0) r)"
proof -
  have wf: "chunk_wf (sw_chunk_data, int (length d))"
    using assms by (cases d) (auto simp: chunk_wf_def limit_simps)
  have "dechunk (sw_chunk_size, int (length d)) (CRLF @ d @ CRLF @ r) =
      dechunk (sw_chunk_data, int (length d)) (d @ CRLF @ r)"
    using assms by (simp add: CRLF_def char_class_simps)
  also have "\<dots> = emit d (dechunk (sw_after_data, 0) (CRLF @ r))"
    by (simp add: dechunk_data[OF wf])
  also have "\<dots> = emit d (dechunk (sw_chunk_start, 0) r)"
    by (simp add: CRLF_def)
  finally show ?thesis by (simp only: dechunk_hex[OF assms(2)])
qed

lemma dechunk_last:
  "dechunk (sw_chunk_start, sz) (bytes ''0'' @ CRLF @ CRLF) = Complete [] []"
  by (simp add: CRLF_def char_class_simps limit_simps)

text \<open>
  A response: the chains passed to the filter, one after another, and the last buffer of the
  last chain marked \<open>last_buf\<close>. A buffer with content is in memory or in a file.
\<close>

fun chunk_message :: "chunk_buf list list \<Rightarrow> bool" where
  "chunk_message [] = False"
| "chunk_message (c # cs) =
     (c \<noteq> [] \<and> list_all (\<lambda>b. cb_data b \<noteq> [] \<longrightarrow> cb_memory b \<or> cb_in_file b) c \<and>
      int (length (wire c)) \<le> NGX_MAX_OFF_T_VALUE div 16 \<and>
      (if cs = [] then cb_last_buf (List.last c) else \<not> cb_last_buf (List.last c) \<and> chunk_message cs))"

lemma wire_filter:
  "list_all (\<lambda>b. cb_data b \<noteq> [] \<longrightarrow> cb_memory b \<or> cb_in_file b) c \<Longrightarrow>
     wire (filter (\<lambda>b. cb_flush b \<or> cb_sync b \<or> cb_memory b \<or> cb_in_file b) c) = wire c"
  by (induction c) (auto simp: wire_def)

lemma wire_size: "sum_list (map (length \<circ> cb_data) c) = length (wire c)"
  by (induction c) (auto simp: wire_def)

lemma wire_append [simp]: "wire (a @ b) = wire a @ wire b"
  by (simp add: wire_def)

lemma chunk_size_wire: 
  assumes "int n \<le> NGX_MAX_OFF_T_VALUE"
  shows "wire [chunk_size_buf n] = chunk_hex n @ CRLF"
proof -
  have "n < 16 ^ 16" using assms by (simp add: limit_simps)
  hence "length (chunk_hex n) \<le> 16" by (rule hex_digits_length[rotated]) simp
  thus ?thesis by (simp add: wire_def chunk_size_buf_def ngx_sprintf_num_def sprintf_room_def Let_def)
qed

definition chunk_wire :: "bool \<Rightarrow> u_char list \<Rightarrow> u_char list" where
  "chunk_wire is_last d =
     (if d = [] then [] else chunk_hex (length d) @ CRLF @ d @ CRLF)
     @ (if is_last then bytes ''0'' @ CRLF @ CRLF else [])"

lemma chunked_body_filter_wire:
  assumes "c \<noteq> []" "list_all (\<lambda>b. cb_data b \<noteq> [] \<longrightarrow> cb_memory b \<or> cb_in_file b) c"
    "int (length (wire c)) \<le> NGX_MAX_OFF_T_VALUE"
  shows "wire (ngx_http_chunked_body_filter True False c) = chunk_wire (cb_last_buf (List.last c)) (wire c)"
proof -
  define c' where "c' = (if cb_last_buf (List.last c)
    then butlast c @ [(List.last c)\<lparr>cb_last_buf := False\<rparr>] else c)"
  have "wire (butlast c @ [(List.last c)\<lparr>cb_last_buf := False\<rparr>]) = wire (butlast c @ [List.last c])"
    by (simp add: wire_def)
  hence w: "wire c' = wire c" unfolding c'_def using assms(1) by simp
  have "list_all (\<lambda>b. cb_data b \<noteq> [] \<longrightarrow> cb_memory b \<or> cb_in_file b) c'"
    using assms(1,2) unfolding c'_def by (auto simp: list_all_iff dest: in_set_butlastD)
  from wire_filter[OF this] w
  have f: "wire (filter (\<lambda>b. cb_flush b \<or> cb_sync b \<or> cb_memory b \<or> cb_in_file b) c') = wire c" by simp
  have t: "wire [chunk_tail_buf l d] = d" for l d by (simp add: wire_def chunk_tail_buf_def)
  have e: "wire [] = []" by (simp add: wire_def)
  show ?thesis
    unfolding ngx_http_chunked_body_filter_def Let_def wire_size c'_def[symmetric]
    using assms(1) by (simp add: f t e chunk_size_wire[OF assms(3)] chunk_wire_def CRLF_def)
qed

lemma dechunk_message:
  "chunk_message ins \<Longrightarrow>
     dechunk (sw_chunk_start, sz) (concat (map (wire \<circ> ngx_http_chunked_body_filter True False) ins)) =
       Complete [] (concat (map wire ins))"
proof (induction ins arbitrary: sz)
  case (Cons c cs)
  let ?l = "cb_last_buf (List.last c)" and ?w = "concat (map (wire \<circ> ngx_http_chunked_body_filter True False) cs)"
  have w: "wire (ngx_http_chunked_body_filter True False c) = chunk_wire ?l (wire c)"
    using Cons.prems by (intro chunked_body_filter_wire) (auto simp: limit_simps)
  have d: "dechunk (sw_chunk_start, sz) (chunk_wire ?l (wire c) @ ?w) =
      emit (wire c) (dechunk (sw_chunk_start, if wire c = [] then sz else 0)
        ((if ?l then bytes ''0'' @ CRLF @ CRLF else []) @ ?w))"
    using Cons.prems dechunk_chunk[of "wire c" sz] by (auto simp: chunk_wire_def)
  show ?case
  proof (cases "cs = []")
    case True
    with Cons.prems w d dechunk_last show ?thesis by simp
  next
    case False
    hence l: "\<not> ?l" and cs: "chunk_message cs" using Cons.prems by auto
    from d l Cons.IH[OF cs] have "dechunk (sw_chunk_start, sz) (chunk_wire ?l (wire c) @ ?w) =
        emit (wire c) (Complete [] (concat (map wire cs)))" by simp
    with w show ?thesis by (simp add: comp_def)
  qed
qed simp

text \<open>The shortest completion the source's comments name, for each state.\<close>

fun shortest_rest :: "chunk_state \<Rightarrow> int \<Rightarrow> u_char list" where
  "shortest_rest sw_chunk_start sz = [48, LF, LF]"
| "shortest_rest sw_chunk_size sz =
     LF # (if sz \<noteq> 0 then replicate (nat sz) 0 @ [LF, 48, LF, LF] else [LF])"
| "shortest_rest sw_chunk_extension sz = LF # replicate (nat sz) 0 @ [LF, 48, LF, LF]"
| "shortest_rest sw_chunk_extension_almost_done sz = LF # replicate (nat sz) 0 @ [LF, 48, LF, LF]"
| "shortest_rest sw_chunk_data sz = replicate (nat sz) 0 @ [LF, 48, LF, LF]"
| "shortest_rest sw_after_data sz = [LF, 48, LF, LF]"
| "shortest_rest sw_after_data_almost_done sz = [LF, 48, LF, LF]"
| "shortest_rest sw_last_chunk_extension sz = [LF, LF]"
| "shortest_rest sw_last_chunk_extension_almost_done sz = [LF, LF]"
| "shortest_rest sw_trailer sz = [LF]"
| "shortest_rest sw_trailer_almost_done sz = [LF]"
| "shortest_rest sw_trailer_header sz = [LF, LF]"
| "shortest_rest sw_trailer_header_almost_done sz = [LF, LF]"

lemma dechunk_shortest_data:
  "chunk_wf (sw_chunk_data, sz) \<Longrightarrow>
     dechunk (sw_chunk_data, sz) (replicate (nat sz) 0 @ [LF, 48, LF, LF]) = Complete [] (replicate (nat sz) 0)"
  by (simp add: dechunk_data char_class_simps limit_simps)

lemma chunked_length_tight:
  assumes "chunk_wf s" "snd s \<le> NGX_MAX_OFF_T_VALUE div 16"
  shows "\<exists>out. dechunk s (shortest_rest (fst s) (snd s)) = Complete [] out"
    and "int (length (shortest_rest (fst s) (snd s))) = chunked_length (fst s) (snd s)"
proof -
  obtain st sz where s: "s = (st, sz)" by fastforce
  have data: "1 \<le> sz \<Longrightarrow> chunk_wf (sw_chunk_data, sz)"
    using assms s by (auto simp: chunk_wf_def limit_simps)
  show "\<exists>out. dechunk s (shortest_rest (fst s) (snd s)) = Complete [] out"
    using assms dechunk_shortest_data[OF data] unfolding s
    by (cases st) (auto simp: chunk_wf_def char_class_simps limit_simps)
  show "int (length (shortest_rest (fst s) (snd s))) = chunked_length (fst s) (snd s)"
    using assms unfolding s by (cases st) (auto simp: chunk_wf_def)
qed

lemma parse_chunked_wf:
  assumes "ngx_http_parse_chunked mem pos lim ctx = (rc, p, ctx')" "rc \<noteq> NGX_ERROR"
    "chunk_wf (chunk_norm ctx)" "pos \<le> lim" "lim \<le> length mem"
  shows "chunk_wf (chunk_norm ctx') \<or> rc = NGX_DONE" "pos \<le> p" "p \<le> lim"
    "rc = NGX_AGAIN \<or> rc = NGX_OK \<Longrightarrow> chunk_norm ctx' = (ck_state ctx', ck_size ctx') \<and>
       ck_size ctx' \<le> NGX_MAX_OFF_T_VALUE - 5 \<and> ck_length ctx' = chunked_length (ck_state ctx') (ck_size ctx')"
proof -
  note ref = scan_refines[OF assms(3,5), of pos, unfolded scan_refines_def]
  have parse: "ngx_http_parse_chunked mem pos lim ctx =
    (case scan chunked_body mem pos lim (chunk_norm ctx) of
           More p s \<Rightarrow> chunked_data NGX_AGAIN p s ctx
         | Halt p (Chunk_data, s) \<Rightarrow> chunked_data NGX_OK p s ctx
         | Halt p (Chunk_done, s) \<Rightarrow>
             (NGX_DONE, Suc p, ctx\<lparr>ck_state := sw_chunk_start, ck_size := snd s\<rparr>)
         | Halt p (Chunk_invalid, s) \<Rightarrow> (NGX_ERROR, pos, ctx\<lparr>ck_size := snd s\<rparr>))"
    by (simp add: ngx_http_parse_chunked_def chunk_norm_def)
  have nz: "chunk_wf (st, sz) \<Longrightarrow> \<not> (st = sw_chunk_data \<and> sz = 0)" for st sz
    by (auto simp: chunk_wf_def)
  have "(chunk_wf (chunk_norm ctx') \<or> rc = NGX_DONE) \<and> pos \<le> p \<and> p \<le> lim \<and>
    (rc = NGX_AGAIN \<or> rc = NGX_OK \<longrightarrow> chunk_norm ctx' = (ck_state ctx', ck_size ctx') \<and>
       ck_size ctx' \<le> NGX_MAX_OFF_T_VALUE - 5 \<and> ck_length ctx' = chunked_length (ck_state ctx') (ck_size ctx'))"
    using assms(1,2,4) ref scan_MoreD[of chunked_body mem pos lim "chunk_norm ctx"] nz unfolding parse
    by (auto simp: chunked_data_def chunk_norm_def Let_def
        split: scanned.splits chunk_exit.splits prod.splits if_splits)
  thus "chunk_wf (chunk_norm ctx') \<or> rc = NGX_DONE" "pos \<le> p" "p \<le> lim"
    "rc = NGX_AGAIN \<or> rc = NGX_OK \<Longrightarrow> chunk_norm ctx' = (ck_state ctx', ck_size ctx') \<and>
       ck_size ctx' \<le> NGX_MAX_OFF_T_VALUE - 5 \<and> ck_length ctx' = chunked_length (ck_state ctx') (ck_size ctx')"
    by auto
qed

lemma chunked_length_bounds:
  "chunk_wf (st, sz) \<Longrightarrow> sz \<le> NGX_MAX_OFF_T_VALUE - 5 \<Longrightarrow>
     0 < chunked_length st sz \<and> chunked_length st sz \<le> NGX_MAX_OFF_T_VALUE"
  by (cases st) (auto simp: chunk_wf_def limit_simps)

section \<open>Properties\<close>

text \<open>
  C31 (round trip). Whatever the response chains, what \<open>ngx_http_chunked_body_filter\<close> writes is
  read back by \<open>ngx_http_request_body_chunked_filter\<close> as the same body, in however many buffers
  and at whatever boundaries the bytes arrive; the body is then complete (\<open>rest = 0\<close>) and
  \<open>content_length_n\<close> is its length.
\<close>

theorem chunked_roundtrip:
  assumes "chunk_message ins" "chain_ok chain"
    and "chain_bytes chain = concat (map (wire \<circ> ngx_http_chunked_body_filter True False) ins)"
    and "rb_rest rb = -1"
  shows "\<exists>rb' bufs. ngx_http_request_body_chunked_filter 0 chain rb = Some (Body_ok, rb', bufs) \<and>
    concat (map fst bufs) = concat (map wire ins) \<and> rb_rest rb' = 0 \<and>
    rb_content_length_n rb' = int (length (concat (map wire ins)))"
proof -
  let ?rb = "rb\<lparr>rb_chunked := \<lparr>ck_state = sw_chunk_start, ck_size = 0, ck_length = 0\<rparr>,
                rb_content_length_n := 0, rb_rest := 3\<rparr>"
  have "dechunk (chunk_norm (rb_chunked ?rb)) (chain_bytes chain) = Complete [] (concat (map wire ins))"
    using dechunk_message[OF assms(1), of 0] assms(3) by (simp add: chunk_norm_def)
  from chunked_filter_chain_complete[OF _ assms(2) this]
  show ?thesis
    using assms(4)
    by (auto simp: ngx_http_request_body_chunked_filter_def chunk_wf_def chunk_norm_def limit_simps)
qed

text \<open>The example: a two byte body, chunked, arriving in two pieces.\<close>

definition example_response :: "chunk_buf list list" where
  "example_response = [[\<lparr>cb_memory = True, cb_in_file = False, cb_flush = False, cb_sync = False,
     cb_last_buf = True, cb_data = bytes ''hi''\<rparr>]]"

definition example_chain :: "(u_char list \<times> nat \<times> nat) list" where
  "example_chain = [([50, CR, LF, 104], 0, 4), ([0, 105, CR, LF, 48, CR, LF, CR, LF], 1, 9)]"

definition example_body :: request_body where
  "example_body = \<lparr>rb_rest = -1, rb_chunked = \<lparr>ck_state = sw_chunk_start, ck_size = 0, ck_length = 0\<rparr>,
     rb_content_length_n = -1\<rparr>"

lemma example_response_facts:
  "chunk_message example_response" "chain_ok example_chain"
  "chain_bytes example_chain =
     concat (map (wire \<circ> ngx_http_chunked_body_filter True False) example_response)"
  "rb_rest example_body = -1"
  by (simp_all add: example_response_def example_chain_def example_body_def chain_ok_def chain_bytes_def
      slice_def wire_def ngx_http_chunked_body_filter_def chunk_size_buf_def chunk_tail_buf_def
      ngx_sprintf_num_def sprintf_room_def hex_digits.simps hex_lower_def CRLF_def limit_simps)

theorem chunked_roundtrip_witness:
  "\<exists>rb' bufs. ngx_http_request_body_chunked_filter 0 example_chain example_body = Some (Body_ok, rb', bufs) \<and>
    concat (map fst bufs) = [104, 105] \<and> rb_rest rb' = 0 \<and> rb_content_length_n rb' = 2"
proof -
  have "concat (map wire example_response) = [104, 105]" by (simp add: example_response_def wire_def)
  with chunked_roundtrip[OF example_response_facts] show ?thesis by simp
qed

text \<open>
  After \<open>NGX_AGAIN\<close> or \<open>NGX_OK\<close>, \<open>ctx->length\<close> is exactly the least number of
  bytes that still have to be read: no completion of the message is shorter, and one has that
  length (a chunk length beyond a sixteenth of the \<open>off_t\<close> range has no completion at all).
\<close>

theorem chunked_length_exact:
  assumes "ngx_http_parse_chunked mem pos lim ctx = (rc, p, ctx')" "rc = NGX_AGAIN \<or> rc = NGX_OK"
    and "chunk_wf (chunk_norm ctx)" "pos \<le> lim" "lim \<le> length mem"
  shows "(\<forall>bs out. dechunk (ck_state ctx', ck_size ctx') bs = Complete [] out \<longrightarrow>
      ck_length ctx' \<le> int (length bs)) \<and>
    (ck_size ctx' \<le> NGX_MAX_OFF_T_VALUE div 16 \<longrightarrow>
      (\<exists>bs out. dechunk (ck_state ctx', ck_size ctx') bs = Complete [] out \<and>
        int (length bs) = ck_length ctx'))"
proof -
  have "rc \<noteq> NGX_ERROR" "rc \<noteq> NGX_DONE" using assms(2) by auto
  note wf = parse_chunked_wf[OF assms(1) this(1) assms(3,4,5)]
  have s: "chunk_wf (ck_state ctx', ck_size ctx')"
    "ck_length ctx' = chunked_length (ck_state ctx') (ck_size ctx')"
    using wf(1,4) assms(2) \<open>rc \<noteq> NGX_DONE\<close> by auto
  show ?thesis
    using dechunk_needs_length[OF s(1)] chunked_length_tight[OF s(1)] s(2) by fastforce
qed

text \<open>The example: the first five bytes of a chunk of length 3, \<open>3;x\<close>, CR, LF.\<close>

definition chunk_ctx0 :: ngx_http_chunked_t where
  "chunk_ctx0 = \<lparr>ck_state = sw_chunk_start, ck_size = 0, ck_length = 0\<rparr>"

lemma chunk_example_parse:
  "ngx_http_parse_chunked [51, 59, 120, CR, LF] 0 5 chunk_ctx0 =
     (NGX_AGAIN, 5, \<lparr>ck_state = sw_chunk_data, ck_size = 3, ck_length = 7\<rparr>)"
  "chunk_wf (chunk_norm chunk_ctx0)"
  by (simp_all add: ngx_http_parse_chunked_def chunk_ctx0_def scan_step char_class_simps limit_simps
      chunked_data_def chunk_wf_def chunk_norm_def)

theorem chunked_length_exact_witness:
  "\<not> (\<exists>bs out. dechunk (sw_chunk_data, 3) bs = Complete [] out \<and> int (length bs) < 7) \<and>
   (\<exists>bs out. dechunk (sw_chunk_data, 3) bs = Complete [] out \<and> int (length bs) = 7)"
proof -
  have "\<forall>bs out. dechunk (sw_chunk_data, 3) bs = Complete [] out \<longrightarrow> 7 \<le> int (length bs)"
    "\<exists>bs out. dechunk (sw_chunk_data, 3) bs = Complete [] out \<and> int (length bs) = 7"
    using chunked_length_exact[OF chunk_example_parse(1) _ chunk_example_parse(2)]
    by (simp_all add: limit_simps)
  thus ?thesis by (meson not_less)
qed

text \<open>
  From a well-formed context the parser never leaves its buffer and none of its
  \<open>off_t\<close> values leaves the non-negative \<open>off_t\<close> range: the chunk size is kept within it by the
  test before each digit, and \<open>ctx->length\<close> is positive and does not overflow.
\<close>

theorem chunked_parse_bounds:
  assumes "ngx_http_parse_chunked mem pos lim ctx = (rc, p, ctx')" "rc = NGX_AGAIN \<or> rc = NGX_OK"
    and "chunk_wf (chunk_norm ctx)" "pos \<le> lim" "lim \<le> length mem"
  shows "pos \<le> p \<and> p \<le> lim \<and> chunk_wf (chunk_norm ctx') \<and>
    0 \<le> ck_size ctx' \<and> ck_size ctx' \<le> NGX_MAX_OFF_T_VALUE \<and>
    0 < ck_length ctx' \<and> ck_length ctx' \<le> NGX_MAX_OFF_T_VALUE"
proof -
  have "rc \<noteq> NGX_ERROR" "rc \<noteq> NGX_DONE" using assms(2) by auto
  note wf = parse_chunked_wf[OF assms(1) this(1) assms(3,4,5)]
  have s: "chunk_wf (chunk_norm ctx')" "chunk_norm ctx' = (ck_state ctx', ck_size ctx')"
    "ck_size ctx' \<le> NGX_MAX_OFF_T_VALUE - 5" "ck_length ctx' = chunked_length (ck_state ctx') (ck_size ctx')"
    using wf(1,4) assms(2) \<open>rc \<noteq> NGX_DONE\<close> by auto
  hence "0 \<le> ck_size ctx' \<and> ck_size ctx' \<le> NGX_MAX_OFF_T_VALUE" by (simp add: chunk_wf_def)
  with s wf(2,3) chunked_length_bounds[of "ck_state ctx'" "ck_size ctx'"] show ?thesis by simp
qed

theorem chunked_parse_bounds_witness:
  "0 \<le> (5::nat) \<and> (5::nat) \<le> 5 \<and> chunk_wf (chunk_norm \<lparr>ck_state = sw_chunk_data, ck_size = 3, ck_length = 7\<rparr>)"
  using chunked_parse_bounds[OF chunk_example_parse(1) _ chunk_example_parse(2)] by simp

end
