(* ===== verification/Ngx_Http_Request_Line.thy ===== *)
theory Ngx_Http_Request_Line
  imports Nginx_Prelude
begin

text \<open>
  The request line: \<open>ngx_http_parse_request_line\<close> of \<^verbatim>\<open>src/http/ngx_http_parse.c\<close>, all its states
  (the Unix build). The fields of \<open>ngx_http_request_t\<close> it writes form a record; pointers are
  indices into the buffer. \<open>http_major\<close> and \<open>http_minor\<close> are 16-bit fields in the source and
  natural numbers here: property \<open>request_line_sound\<close> bounds them by 999.
\<close>

section \<open>The parser\<close>

definition usual :: "32 word list" where
  "usual = [0xffffdbfe, 0x7fff37d6, 0xffffffff, 0xffffffff,
     0xffffffff, 0xffffffff, 0xffffffff, 0xffffffff]"

abbreviation is_usual :: "u_char \<Rightarrow> bool" where
  "is_usual \<equiv> bitmap_test usual"

text \<open>Which bytes the \<open>usual\<close> map leaves out.\<close>

lemma not_usual [simp]:
  "\<not> is_usual 47" "\<not> is_usual 46" "\<not> is_usual 37" "\<not> is_usual 63" "\<not> is_usual 35" "\<not> is_usual 43"
  by (simp_all add: bitmap_test_def usual_def)

datatype rl_state =
    sw_start | sw_method | sw_spaces_before_uri | sw_schema | sw_schema_slash | sw_schema_slash_slash
  | sw_host_start | sw_host | sw_host_end | sw_host_ip_literal | sw_port | sw_host_http_09
  | sw_after_slash_in_uri | sw_check_uri | sw_check_uri_http_09 | sw_uri | sw_http_09
  | sw_http_H | sw_http_HT | sw_http_HTT | sw_http_HTTP
  | sw_first_major_digit | sw_major_digit | sw_first_minor_digit | sw_minor_digit
  | sw_spaces_after_digit | sw_almost_done

datatype http_method =
    NGX_HTTP_UNKNOWN | NGX_HTTP_GET | NGX_HTTP_HEAD | NGX_HTTP_POST | NGX_HTTP_PUT | NGX_HTTP_DELETE
  | NGX_HTTP_MKCOL | NGX_HTTP_COPY | NGX_HTTP_MOVE | NGX_HTTP_OPTIONS | NGX_HTTP_PROPFIND
  | NGX_HTTP_PROPPATCH | NGX_HTTP_LOCK | NGX_HTTP_UNLOCK | NGX_HTTP_PATCH | NGX_HTTP_TRACE

record request_line =
  rl_state :: rl_state
  rl_method :: http_method
  rl_http_major :: nat
  rl_http_minor :: nat
  rl_http_version :: nat
  rl_request_start :: ngx_ptr
  rl_request_end :: ngx_ptr
  rl_method_end :: ngx_ptr
  rl_schema_start :: ngx_ptr
  rl_schema_end :: ngx_ptr
  rl_host_start :: ngx_ptr
  rl_host_end :: ngx_ptr
  rl_port_end :: ngx_ptr
  rl_uri_start :: ngx_ptr
  rl_uri_end :: ngx_ptr
  rl_uri_ext :: ngx_ptr
  rl_args_start :: ngx_ptr
  rl_http_protocol :: ngx_ptr
  rl_complex_uri :: bool
  rl_quoted_uri :: bool
  rl_plus_in_uri :: bool
  rl_space_in_uri :: bool

text \<open>How the loop is left: \<open>goto done\<close> or one of the error returns.\<close>

datatype rl_exit = Rl_done | Rl_invalid_method | Rl_invalid_request

type_synonym rl_outcome = "(request_line, rl_exit \<times> request_line) outcome"

definition rl_invalid :: "request_line \<Rightarrow> rl_outcome" where
  "rl_invalid s = Stop (Rl_invalid_request, s)"

text \<open>\<open>(ch >= 'A' && ch <= 'Z') || ch == '_' || ch == '-'\<close>.\<close>

definition is_method_char :: "u_char \<Rightarrow> bool" where
  "is_method_char ch \<longleftrightarrow> \<not> ((ch < c8 CHR ''A'' \<or> ch > c8 CHR ''Z'') \<and> ch \<noteq> c8 CHR ''_'' \<and> ch \<noteq> c8 CHR ''-'')"

text \<open>
  The \<open>switch (p - m)\<close>. The 32-bit compares of \<open>ngx_str3_cmp\<close> and \<open>ngx_str7_cmp\<close> include the space
  that follows the method, which is the byte at \<open>p\<close>. A method that is not found leaves
  \<open>r->method\<close> as it is.
\<close>

definition rl_find_method :: "u_char list \<Rightarrow> http_method option" where
  "rl_find_method m =
     (if m = bytes ''GET'' then Some NGX_HTTP_GET
      else if m = bytes ''PUT'' then Some NGX_HTTP_PUT
      else if m = bytes ''POST'' then Some NGX_HTTP_POST
      else if m = bytes ''COPY'' then Some NGX_HTTP_COPY
      else if m = bytes ''MOVE'' then Some NGX_HTTP_MOVE
      else if m = bytes ''LOCK'' then Some NGX_HTTP_LOCK
      else if m = bytes ''HEAD'' then Some NGX_HTTP_HEAD
      else if m = bytes ''MKCOL'' then Some NGX_HTTP_MKCOL
      else if m = bytes ''PATCH'' then Some NGX_HTTP_PATCH
      else if m = bytes ''TRACE'' then Some NGX_HTTP_TRACE
      else if m = bytes ''DELETE'' then Some NGX_HTTP_DELETE
      else if m = bytes ''UNLOCK'' then Some NGX_HTTP_UNLOCK
      else if m = bytes ''OPTIONS'' then Some NGX_HTTP_OPTIONS
      else if m = bytes ''PROPFIND'' then Some NGX_HTTP_PROPFIND
      else if m = bytes ''PROPPATCH'' then Some NGX_HTTP_PROPPATCH
      else None)"

definition rl_method_step :: "u_char list \<Rightarrow> nat \<Rightarrow> u_char \<Rightarrow> request_line \<Rightarrow> rl_outcome" where
  "rl_method_step mem p ch s =
     (case rl_state s of
        sw_start \<Rightarrow>
          (let s = s\<lparr>rl_request_start := Some p\<rparr> in
           if ch = CR \<or> ch = LF then Next s
           else if \<not> is_method_char ch then Stop (Rl_invalid_method, s)
           else Next (s\<lparr>rl_state := sw_method\<rparr>))
      | _ \<Rightarrow>
          (if ch = SP then
             (let m = (case rl_request_start s of None \<Rightarrow> [] | Some m \<Rightarrow> between mem m p) in
              Next (s\<lparr>rl_method_end := Some (p - 1),
                      rl_method := (case rl_find_method m of None \<Rightarrow> rl_method s | Some x \<Rightarrow> x),
                      rl_state := sw_spaces_before_uri\<rparr>))
           else if \<not> is_method_char ch then Stop (Rl_invalid_method, s)
           else Next s))"

definition rl_schema_step :: "nat \<Rightarrow> u_char \<Rightarrow> request_line \<Rightarrow> rl_outcome" where
  "rl_schema_step p ch s =
     (case rl_state s of
        sw_spaces_before_uri \<Rightarrow>
          (if ch = c8 CHR ''/'' then Next (s\<lparr>rl_uri_start := Some p, rl_state := sw_after_slash_in_uri\<rparr>)
           else if is_alpha ch then Next (s\<lparr>rl_schema_start := Some p, rl_state := sw_schema\<rparr>)
           else if ch = SP then Next s
           else rl_invalid s)
      | sw_schema \<Rightarrow>
          (if is_alpha ch then Next s
           else if ch = c8 CHR '':'' then Next (s\<lparr>rl_schema_end := Some p, rl_state := sw_schema_slash\<rparr>)
           else rl_invalid s)
      | sw_schema_slash \<Rightarrow>
          (if ch = c8 CHR ''/'' then Next (s\<lparr>rl_state := sw_schema_slash_slash\<rparr>) else rl_invalid s)
      | _ \<Rightarrow>
          (if ch = c8 CHR ''/'' then Next (s\<lparr>rl_state := sw_host_start\<rparr>) else rl_invalid s))"

text \<open>A target without a path: \<open>uri\<close> is the single slash after the schema's colon.\<close>

definition rl_slash_uri :: "request_line \<Rightarrow> request_line" where
  "rl_slash_uri s = s\<lparr>rl_uri_start := map_option (\<lambda>e. e + 1) (rl_schema_end s),
     rl_uri_end := map_option (\<lambda>e. e + 2) (rl_schema_end s), rl_state := sw_host_http_09\<rparr>"

definition rl_host_end_step :: "nat \<Rightarrow> u_char \<Rightarrow> request_line \<Rightarrow> rl_outcome" where
  "rl_host_end_step p ch s0 =
     (let s = s0\<lparr>rl_host_end := Some p\<rparr> in
      if ch = c8 CHR '':'' then Next (s\<lparr>rl_state := sw_port\<rparr>)
      else if ch = c8 CHR ''/'' then Next (s\<lparr>rl_uri_start := Some p, rl_state := sw_after_slash_in_uri\<rparr>)
      else if ch = SP then Next (rl_slash_uri s)
      else rl_invalid s)"

definition rl_host_plain_step :: "nat \<Rightarrow> u_char \<Rightarrow> request_line \<Rightarrow> rl_outcome" where
  "rl_host_plain_step p ch s =
     (if is_alpha ch \<or> is_digit ch \<or> ch = c8 CHR ''.'' \<or> ch = c8 CHR ''-'' then Next s
      else rl_host_end_step p ch s)"

definition is_ip_literal_char :: "u_char \<Rightarrow> bool" where
  "is_ip_literal_char ch \<longleftrightarrow> is_digit ch \<or> is_alpha ch \<or> ch \<in> set (bytes '':-._~!$&()*+,;='') \<or> ch = 39"

definition rl_host_step :: "nat \<Rightarrow> u_char \<Rightarrow> request_line \<Rightarrow> rl_outcome" where
  "rl_host_step p ch s =
     (case rl_state s of
        sw_host_start \<Rightarrow>
          (let s = s\<lparr>rl_host_start := Some p\<rparr> in
           if ch = c8 CHR ''['' then Next (s\<lparr>rl_state := sw_host_ip_literal\<rparr>)
           else rl_host_plain_step p ch (s\<lparr>rl_state := sw_host\<rparr>))
      | sw_host \<Rightarrow> rl_host_plain_step p ch s
      | sw_host_end \<Rightarrow> rl_host_end_step p ch s
      | sw_host_ip_literal \<Rightarrow>
          (if is_ip_literal_char ch then Next s
           else if ch = c8 CHR '']'' then Next (s\<lparr>rl_state := sw_host_end\<rparr>)
           else rl_invalid s)
      | _ \<Rightarrow>
          (if is_digit ch then Next s
           else if ch = c8 CHR ''/'' then
             Next (s\<lparr>rl_port_end := Some p, rl_uri_start := Some p, rl_state := sw_after_slash_in_uri\<rparr>)
           else if ch = SP then Next (rl_slash_uri (s\<lparr>rl_port_end := Some p\<rparr>))
           else rl_invalid s))"

text \<open>The end of the target: \<open>' '\<close>, \<open>CR\<close>, \<open>LF\<close> in the URI states; \<open>q\<close> is where a space leads.\<close>

definition rl_uri_space :: "nat \<Rightarrow> rl_state \<Rightarrow> request_line \<Rightarrow> rl_outcome" where
  "rl_uri_space p q s = Next (s\<lparr>rl_uri_end := Some p, rl_state := q\<rparr>)"

definition rl_uri_cr :: "nat \<Rightarrow> request_line \<Rightarrow> rl_outcome" where
  "rl_uri_cr p s = Next (s\<lparr>rl_uri_end := Some p, rl_http_minor := 9, rl_state := sw_almost_done\<rparr>)"

definition rl_uri_lf :: "nat \<Rightarrow> request_line \<Rightarrow> rl_outcome" where
  "rl_uri_lf p s = Stop (Rl_done, s\<lparr>rl_uri_end := Some p, rl_http_minor := 9\<rparr>)"

definition rl_after_slash_step :: "nat \<Rightarrow> u_char \<Rightarrow> request_line \<Rightarrow> rl_outcome" where
  "rl_after_slash_step p ch s =
     (if is_usual ch then Next (s\<lparr>rl_state := sw_check_uri\<rparr>)
      else if ch = SP then rl_uri_space p sw_check_uri_http_09 s
      else if ch = CR then rl_uri_cr p s
      else if ch = LF then rl_uri_lf p s
      else if ch = c8 CHR ''.'' then Next (s\<lparr>rl_complex_uri := True, rl_state := sw_uri\<rparr>)
      else if ch = c8 CHR ''%'' then Next (s\<lparr>rl_quoted_uri := True, rl_state := sw_uri\<rparr>)
      else if ch = c8 CHR ''/'' then Next (s\<lparr>rl_complex_uri := True, rl_state := sw_uri\<rparr>)
      else if ch = c8 CHR ''?'' then Next (s\<lparr>rl_args_start := Some (p + 1), rl_state := sw_uri\<rparr>)
      else if ch = c8 CHR ''#'' then Next (s\<lparr>rl_complex_uri := True, rl_state := sw_uri\<rparr>)
      else if ch = c8 CHR ''+'' then Next (s\<lparr>rl_plus_in_uri := True\<rparr>)
      else if ch = 0 then rl_invalid s
      else Next (s\<lparr>rl_state := sw_check_uri\<rparr>))"

definition rl_check_uri_step :: "nat \<Rightarrow> u_char \<Rightarrow> request_line \<Rightarrow> rl_outcome" where
  "rl_check_uri_step p ch s =
     (if is_usual ch then Next s
      else if ch = c8 CHR ''/'' then Next (s\<lparr>rl_uri_ext := None, rl_state := sw_after_slash_in_uri\<rparr>)
      else if ch = c8 CHR ''.'' then Next (s\<lparr>rl_uri_ext := Some (p + 1)\<rparr>)
      else if ch = SP then rl_uri_space p sw_check_uri_http_09 s
      else if ch = CR then rl_uri_cr p s
      else if ch = LF then rl_uri_lf p s
      else if ch = c8 CHR ''%'' then Next (s\<lparr>rl_quoted_uri := True, rl_state := sw_uri\<rparr>)
      else if ch = c8 CHR ''?'' then Next (s\<lparr>rl_args_start := Some (p + 1), rl_state := sw_uri\<rparr>)
      else if ch = c8 CHR ''#'' then Next (s\<lparr>rl_complex_uri := True, rl_state := sw_uri\<rparr>)
      else if ch = c8 CHR ''+'' then Next (s\<lparr>rl_plus_in_uri := True\<rparr>)
      else if ch = 0 then rl_invalid s
      else Next s)"

definition rl_uri_step :: "nat \<Rightarrow> u_char \<Rightarrow> request_line \<Rightarrow> rl_outcome" where
  "rl_uri_step p ch s =
     (if is_usual ch then Next s
      else if ch = SP then rl_uri_space p sw_http_09 s
      else if ch = CR then rl_uri_cr p s
      else if ch = LF then rl_uri_lf p s
      else if ch = c8 CHR ''#'' then Next (s\<lparr>rl_complex_uri := True\<rparr>)
      else if ch = 0 then rl_invalid s
      else Next s)"

text \<open>
  Spaces after the target. In the two states inside a target with a space, \<open>p--\<close> makes the loop
  look at the byte again in the URI state: \<open>resume\<close> is that state's step.
\<close>

definition rl_http_09_step :: "(request_line \<Rightarrow> rl_outcome) \<Rightarrow> nat \<Rightarrow> u_char \<Rightarrow> request_line \<Rightarrow> rl_outcome" where
  "rl_http_09_step resume p ch s =
     (if ch = SP then Next s
      else if ch = CR then Next (s\<lparr>rl_http_minor := 9, rl_state := sw_almost_done\<rparr>)
      else if ch = LF then Stop (Rl_done, s\<lparr>rl_http_minor := 9\<rparr>)
      else if ch = c8 CHR ''H'' then Next (s\<lparr>rl_http_protocol := Some p, rl_state := sw_http_H\<rparr>)
      else resume s)"

definition rl_target_step :: "nat \<Rightarrow> u_char \<Rightarrow> request_line \<Rightarrow> rl_outcome" where
  "rl_target_step p ch s =
     (case rl_state s of
        sw_host_http_09 \<Rightarrow> rl_http_09_step rl_invalid p ch s
      | sw_after_slash_in_uri \<Rightarrow> rl_after_slash_step p ch s
      | sw_check_uri \<Rightarrow> rl_check_uri_step p ch s
      | sw_check_uri_http_09 \<Rightarrow>
          rl_http_09_step (\<lambda>s. rl_check_uri_step p ch (s\<lparr>rl_space_in_uri := True, rl_state := sw_check_uri\<rparr>)) p ch s
      | sw_uri \<Rightarrow> rl_uri_step p ch s
      | _ \<Rightarrow> rl_http_09_step (\<lambda>s. rl_uri_step p ch (s\<lparr>rl_space_in_uri := True, rl_state := sw_uri\<rparr>)) p ch s)"

definition rl_expect :: "u_char \<Rightarrow> rl_state \<Rightarrow> u_char \<Rightarrow> request_line \<Rightarrow> rl_outcome" where
  "rl_expect c q ch s = (if ch = c then Next (s\<lparr>rl_state := q\<rparr>) else rl_invalid s)"

definition digit_value :: "u_char \<Rightarrow> nat" where
  "digit_value ch = unat ch - 48"

definition rl_version_step :: "nat \<Rightarrow> u_char \<Rightarrow> request_line \<Rightarrow> rl_outcome" where
  "rl_version_step p ch s =
     (case rl_state s of
        sw_http_H \<Rightarrow> rl_expect (c8 CHR ''T'') sw_http_HT ch s
      | sw_http_HT \<Rightarrow> rl_expect (c8 CHR ''T'') sw_http_HTT ch s
      | sw_http_HTT \<Rightarrow> rl_expect (c8 CHR ''P'') sw_http_HTTP ch s
      | sw_http_HTTP \<Rightarrow> rl_expect (c8 CHR ''/'') sw_first_major_digit ch s
      | sw_first_major_digit \<Rightarrow>
          (if ch < c8 CHR ''1'' \<or> ch > c8 CHR ''9'' then rl_invalid s
           else Next (s\<lparr>rl_http_major := digit_value ch, rl_state := sw_major_digit\<rparr>))
      | sw_major_digit \<Rightarrow>
          (if ch = c8 CHR ''.'' then Next (s\<lparr>rl_state := sw_first_minor_digit\<rparr>)
           else if \<not> is_digit ch \<or> rl_http_major s > 99 then rl_invalid s
           else Next (s\<lparr>rl_http_major := rl_http_major s * 10 + digit_value ch\<rparr>))
      | sw_first_minor_digit \<Rightarrow>
          (if \<not> is_digit ch then rl_invalid s
           else Next (s\<lparr>rl_http_minor := digit_value ch, rl_state := sw_minor_digit\<rparr>))
      | sw_minor_digit \<Rightarrow>
          (if ch = CR then Next (s\<lparr>rl_state := sw_almost_done\<rparr>)
           else if ch = LF then Stop (Rl_done, s)
           else if ch = SP then Next (s\<lparr>rl_state := sw_spaces_after_digit\<rparr>)
           else if \<not> is_digit ch \<or> rl_http_minor s > 99 then rl_invalid s
           else Next (s\<lparr>rl_http_minor := rl_http_minor s * 10 + digit_value ch\<rparr>))
      | sw_spaces_after_digit \<Rightarrow>
          (if ch = SP then Next s
           else if ch = CR then Next (s\<lparr>rl_state := sw_almost_done\<rparr>)
           else if ch = LF then Stop (Rl_done, s)
           else rl_invalid s)
      | _ \<Rightarrow>
          (let s = s\<lparr>rl_request_end := Some (p - 1)\<rparr> in
           if ch = LF then Stop (Rl_done, s) else rl_invalid s))"

text \<open>The body of the loop.\<close>

definition request_line_body :: "(request_line, rl_exit \<times> request_line) body" where
  "request_line_body mem p ch s =
     (if rl_state s \<in> {sw_start, sw_method} then rl_method_step mem p ch s
      else if rl_state s \<in> {sw_spaces_before_uri, sw_schema, sw_schema_slash, sw_schema_slash_slash}
      then rl_schema_step p ch s
      else if rl_state s \<in> {sw_host_start, sw_host, sw_host_end, sw_host_ip_literal, sw_port}
      then rl_host_step p ch s
      else if rl_state s \<in> {sw_host_http_09, sw_after_slash_in_uri, sw_check_uri, sw_check_uri_http_09,
        sw_uri, sw_http_09}
      then rl_target_step p ch s
      else rl_version_step p ch s)"

datatype rl_rc = Rl_ok | Rl_again | Rl_bad_method | Rl_bad_request | Rl_bad_09_method

text \<open>The code after the label \<open>done\<close>; an error return leaves the request as it is.\<close>

definition request_line_fin :: "nat \<Rightarrow> rl_exit \<times> request_line \<Rightarrow> nat \<times> (rl_rc \<times> request_line)" where
  "request_line_fin p x =
     (case x of
        (Rl_done, s) \<Rightarrow>
          (let s1 = s\<lparr>rl_request_end := (case rl_request_end s of None \<Rightarrow> Some p | e \<Rightarrow> e),
                      rl_http_version := rl_http_major s * 1000 + rl_http_minor s,
                      rl_state := sw_start\<rparr> in
           (p, (if rl_http_version s1 = 9 \<and> rl_method s1 \<noteq> NGX_HTTP_GET then Rl_bad_09_method else Rl_ok, s1)))
      | (Rl_invalid_method, s) \<Rightarrow> (p, (Rl_bad_method, s))
      | (Rl_invalid_request, s) \<Rightarrow> (p, (Rl_bad_request, s)))"

definition request_line_parse :: "u_char list \<Rightarrow> nat \<Rightarrow> nat \<Rightarrow> request_line \<Rightarrow>
    (request_line, rl_rc \<times> request_line) parsed" where
  "request_line_parse = scan_parse request_line_body request_line_fin"

text \<open>One call: the return code, the new \<open>b->pos\<close> and the request.\<close>

definition ngx_http_parse_request_line :: "u_char list \<Rightarrow> nat \<Rightarrow> nat \<Rightarrow> request_line \<Rightarrow>
    rl_rc \<times> nat \<times> request_line" where
  "ngx_http_parse_request_line mem pos lim s =
     (case request_line_parse mem pos lim s of
        Again s' \<Rightarrow> (Rl_again, lim, s')
      | Fin p (rc, s') \<Rightarrow> (rc, if rc \<in> {Rl_ok, Rl_bad_09_method} then p + 1 else pos, s'))"
section \<open>Independence of how the bytes arrive\<close>

lemma request_line_local: "local_body request_line_body"
  unfolding local_body_def
proof (intro allI impI)
  fix mem mem' :: "u_char list" and p ch s
  assume "take (Suc p) mem = take (Suc p) mem'"
  from between_local[OF this] show "request_line_body mem p ch s = request_line_body mem' p ch s"
    by (cases "rl_request_start s") (simp_all add: request_line_body_def rl_method_step_def)
qed

interpretation request_line: resumable_parser request_line_parse "\<lambda>_. True"
  unfolding request_line_parse_def by (rule scan_parse_resumable[OF request_line_local])


section \<open>Soundness\<close>

text \<open>A target region: it starts with a slash and holds no zero byte.\<close>

definition target :: "u_char list \<Rightarrow> nat \<Rightarrow> nat \<Rightarrow> bool" where
  "target mem u e \<longleftrightarrow> u < e \<and> mem ! u = c8 CHR ''/'' \<and> (\<forall>i. u \<le> i \<longrightarrow> i < e \<longrightarrow> mem ! i \<noteq> 0)"

lemma target_Suc: "target mem u p \<Longrightarrow> mem ! p \<noteq> 0 \<Longrightarrow> target mem u (Suc p)"
  by (auto simp: target_def less_Suc_eq)

lemma target_start: "mem ! p = 47 \<Longrightarrow> target mem p (Suc p)"
  by (auto simp: target_def less_Suc_eq)

definition ptr_in :: "ngx_ptr \<Rightarrow> nat \<Rightarrow> nat \<Rightarrow> bool" where
  "ptr_in q u e \<longleftrightarrow> (case q of None \<Rightarrow> True | Some a \<Rightarrow> u < a \<and> a \<le> e)"

lemma ptr_in_mono: "ptr_in q u e \<Longrightarrow> e \<le> e' \<Longrightarrow> ptr_in q u e'"
  by (auto simp: ptr_in_def split: option.splits)

text \<open>The target found so far, with its pointers \<open>args_start\<close> and \<open>uri_ext\<close> inside.\<close>

definition target_open :: "u_char list \<Rightarrow> nat \<Rightarrow> request_line \<Rightarrow> bool" where
  "target_open mem p s \<longleftrightarrow> (\<exists>u. rl_uri_start s = Some u \<and> target mem u p \<and>
     ptr_in (rl_args_start s) u p \<and> ptr_in (rl_uri_ext s) u p)"

definition target_closed :: "u_char list \<Rightarrow> nat \<Rightarrow> request_line \<Rightarrow> bool" where
  "target_closed mem p s \<longleftrightarrow> (\<exists>u e. rl_uri_start s = Some u \<and> rl_uri_end s = Some e \<and> e \<le> p \<and>
     target mem u e \<and> ptr_in (rl_args_start s) u e \<and> ptr_in (rl_uri_ext s) u e)"

definition no_args :: "request_line \<Rightarrow> bool" where
  "no_args s \<longleftrightarrow> rl_args_start s = None \<and> rl_uri_ext s = None"

text \<open>What holds before byte \<open>p\<close> is looked at, by state.\<close>

definition rl_inv :: "u_char list \<Rightarrow> nat \<Rightarrow> request_line \<Rightarrow> bool" where
  "rl_inv mem p s \<longleftrightarrow> rl_http_major s \<le> 999 \<and> rl_http_minor s \<le> 999 \<and>
     (if rl_state s \<in> {sw_start, sw_method, sw_spaces_before_uri, sw_schema} then no_args s
      else if rl_state s = sw_schema_slash
      then no_args s \<and> (\<exists>e. rl_schema_end s = Some e \<and> p = e + 1)
      else if rl_state s = sw_schema_slash_slash
      then no_args s \<and> (\<exists>e. rl_schema_end s = Some e \<and> p = e + 2 \<and> mem ! (e + 1) = 47)
      else if rl_state s \<in> {sw_host_start, sw_host, sw_host_end, sw_host_ip_literal, sw_port}
      then no_args s \<and> (\<exists>e. rl_schema_end s = Some e \<and> e + 2 \<le> p \<and> mem ! (e + 1) = 47)
      else if rl_state s \<in> {sw_after_slash_in_uri, sw_check_uri, sw_uri} then target_open mem p s
      else if rl_state s \<in> {sw_check_uri_http_09, sw_http_09}
      then target_closed mem p s \<and> target_open mem p s
      else target_closed mem p s)"

text \<open>The version stays small.\<close>

lemma digit_value_le: "is_digit ch \<Longrightarrow> digit_value ch \<le> 9"
  by (auto simp: is_digit_def digit_value_def word_le_nat_alt)

lemmas rl_step_defs = rl_method_step_def rl_schema_step_def rl_host_step_def rl_host_plain_step_def
  rl_host_end_step_def rl_slash_uri_def rl_target_step_def rl_after_slash_step_def rl_check_uri_step_def
  rl_uri_step_def rl_http_09_step_def rl_uri_space_def rl_uri_cr_def rl_uri_lf_def
  rl_version_step_def rl_expect_def rl_invalid_def

lemma not_usual_end [simp]: "\<not> is_usual 0" "\<not> is_usual 10" "\<not> is_usual 13" "\<not> is_usual 32"
  by (simp_all add: bitmap_test_def usual_def)

lemma usual_nonzero: "is_usual ch \<Longrightarrow> ch \<noteq> 0"
  by auto

text \<open>Each group of states keeps the invariant; leaving the loop well leaves a closed target.\<close>

definition rl_keeps :: "u_char list \<Rightarrow> nat \<Rightarrow> rl_outcome \<Rightarrow> bool" where
  "rl_keeps mem p out \<longleftrightarrow>
     (case out of
        Next s' \<Rightarrow> rl_inv mem (Suc p) s'
      | Stop (x, s') \<Rightarrow> x = Rl_done \<longrightarrow>
          rl_http_major s' \<le> 999 \<and> rl_http_minor s' \<le> 999 \<and> target_closed mem p s')"

lemma method_keeps:
  assumes "rl_inv mem p s" "rl_state s \<in> {sw_start, sw_method}"
  shows "rl_keeps mem p (rl_method_step mem p (mem ! p) s)"
  using assms by (auto simp: rl_keeps_def rl_step_defs rl_inv_def no_args_def Let_def)

lemma start_target:
  assumes "no_args s" "mem ! p = 47"
  shows "target_open mem (Suc p) (s\<lparr>rl_uri_start := Some p, rl_state := q\<rparr>)"
    "target_open mem (Suc p) (s\<lparr>rl_port_end := x, rl_uri_start := Some p, rl_state := q\<rparr>)"
    "target_open mem (Suc p) (s\<lparr>rl_host_end := x, rl_uri_start := Some p, rl_state := q\<rparr>)"
    "target_open mem (Suc p) (s\<lparr>rl_host_start := y, rl_state := q1, rl_host_end := x, rl_uri_start := Some p, rl_state := q\<rparr>)"
  using assms target_start[of mem p] by (auto simp: target_open_def no_args_def ptr_in_def)

lemma schema_keeps:
  assumes "rl_inv mem p s" "rl_state s \<in> {sw_spaces_before_uri, sw_schema, sw_schema_slash, sw_schema_slash_slash}"
  shows "rl_keeps mem p (rl_schema_step p (mem ! p) s)"
  using assms by (auto simp: rl_keeps_def rl_step_defs rl_inv_def intro!: start_target) (auto simp: no_args_def)

lemma slash_target:
  assumes "no_args s" "rl_schema_end s = Some e" "e + 2 \<le> p" "mem ! (e + 1) = 47"
  shows "target_closed mem (Suc p) (rl_slash_uri s)"
proof -
  have "target mem (e + 1) (e + 2)" using target_start[of mem "e + 1"] assms(4) by simp
  with assms show ?thesis
    by (auto simp: target_closed_def rl_slash_uri_def no_args_def ptr_in_def intro!: exI[of _ "e + 1"])
qed

lemma host_end_keeps:
  assumes "no_args s" "rl_schema_end s = Some e" "e + 2 \<le> p" "mem ! (e + 1) = 47"
    "rl_http_major s \<le> 999" "rl_http_minor s \<le> 999"
  shows "rl_keeps mem p (rl_host_end_step p (mem ! p) s)"
proof -
  let ?s = "s\<lparr>rl_host_end := Some p\<rparr>"
  have "target_closed mem (Suc p) (rl_slash_uri ?s)"
    using assms by (intro slash_target) (auto simp: no_args_def)
  moreover have "rl_http_major (rl_slash_uri ?s) = rl_http_major s" "rl_http_minor (rl_slash_uri ?s) = rl_http_minor s"
    "rl_state (rl_slash_uri ?s) = sw_host_http_09" by (simp_all add: rl_slash_uri_def)
  ultimately show ?thesis
    using assms start_target(3)[OF assms(1), of mem p]
    by (auto simp: rl_keeps_def rl_host_end_step_def rl_invalid_def Let_def rl_inv_def no_args_def)
qed

lemma host_plain_keeps:
  assumes "no_args s" "rl_schema_end s = Some e" "e + 2 \<le> p" "mem ! (e + 1) = 47"
    "rl_http_major s \<le> 999" "rl_http_minor s \<le> 999" "rl_state s = sw_host"
  shows "rl_keeps mem p (rl_host_plain_step p (mem ! p) s)"
  using assms host_end_keeps[OF assms(1-6)]
  by (auto simp: rl_host_plain_step_def rl_keeps_def rl_inv_def)

lemma host_keeps:
  assumes "rl_inv mem p s" "rl_state s \<in> {sw_host_start, sw_host, sw_host_end, sw_host_ip_literal, sw_port}"
  shows "rl_keeps mem p (rl_host_step p (mem ! p) s)"
proof -
  obtain e where e: "no_args s" "rl_schema_end s = Some e" "e + 2 \<le> p" "mem ! (e + 1) = 47"
    "rl_http_major s \<le> 999" "rl_http_minor s \<le> 999"
    using assms by (auto simp: rl_inv_def)
  have na: "no_args (f s)" if "rl_args_start (f s) = rl_args_start s" "rl_uri_ext (f s) = rl_uri_ext s" for f
    using e(1) that by (simp add: no_args_def)
  from assms(2) consider "rl_state s = sw_host_start" | "rl_state s = sw_host" | "rl_state s = sw_host_end"
    | "rl_state s = sw_host_ip_literal" | "rl_state s = sw_port" by auto
  then show ?thesis
  proof cases
    case 1
    have "rl_keeps mem p (rl_host_plain_step p (mem ! p) (s\<lparr>rl_host_start := Some p, rl_state := sw_host\<rparr>))"
      using e by (intro host_plain_keeps[where e = e]) (auto simp: no_args_def)
    with 1 e show ?thesis
      by (auto simp: rl_host_step_def Let_def rl_keeps_def rl_inv_def no_args_def)
  next
    case 2
    with host_plain_keeps[OF e] show ?thesis by (simp add: rl_host_step_def)
  next
    case 3
    with host_end_keeps[OF e] show ?thesis by (simp add: rl_host_step_def)
  next
    case 4
    with e show ?thesis
      by (auto simp: rl_host_step_def rl_keeps_def rl_inv_def no_args_def rl_invalid_def)
  next
    case 5
    let ?s = "s\<lparr>rl_port_end := Some p\<rparr>"
    have "target_closed mem (Suc p) (rl_slash_uri ?s)"
      using e by (intro slash_target) (auto simp: no_args_def)
    moreover have "rl_http_major (rl_slash_uri ?s) = rl_http_major s" "rl_http_minor (rl_slash_uri ?s) = rl_http_minor s"
      "rl_state (rl_slash_uri ?s) = sw_host_http_09" by (simp_all add: rl_slash_uri_def)
    ultimately show ?thesis
      using 5 e start_target(2)[OF e(1), of mem p]
      by (auto simp: rl_host_step_def rl_keeps_def rl_inv_def rl_invalid_def)
  qed
qed

text \<open>The target states: a byte joins the target, or closes it.\<close>

lemma target_open_cong:
  assumes "target_open mem p s" "rl_uri_start s' = rl_uri_start s"
    "rl_args_start s' = rl_args_start s" "rl_uri_ext s' = rl_uri_ext s"
  shows "target_open mem p s'"
  using assms by (simp add: target_open_def)

lemma target_open_next:
  assumes "target_open mem p s" "mem ! p \<noteq> 0" "rl_uri_start s' = rl_uri_start s"
    and "rl_args_start s' = rl_args_start s \<or> rl_args_start s' = Some (Suc p)"
    and "rl_uri_ext s' = rl_uri_ext s \<or> rl_uri_ext s' = Some (Suc p) \<or> rl_uri_ext s' = None"
  shows "target_open mem (Suc p) s'"
proof -
  from assms(1) obtain u where u: "rl_uri_start s = Some u" "target mem u p"
    "ptr_in (rl_args_start s) u p" "ptr_in (rl_uri_ext s) u p" by (auto simp: target_open_def)
  have "u < p" using u(2) by (simp add: target_def)
  hence "ptr_in (rl_args_start s') u (Suc p)" "ptr_in (rl_uri_ext s') u (Suc p)"
    using assms(4,5) u(3,4) by (auto simp: ptr_in_def split: option.splits)
  with u target_Suc[OF u(2) assms(2)] assms(3) show ?thesis by (auto simp: target_open_def)
qed

lemma target_close:
  assumes "target_open mem p s" "rl_uri_start s' = rl_uri_start s" "rl_uri_end s' = Some p"
    "rl_args_start s' = rl_args_start s" "rl_uri_ext s' = rl_uri_ext s"
  shows "target_closed mem p s'" "target_closed mem (Suc p) s'"
  using assms by (auto simp: target_open_def target_closed_def)

lemma target_closed_next:
  assumes "target_closed mem p s" "rl_uri_start s' = rl_uri_start s" "rl_uri_end s' = rl_uri_end s"
    "rl_args_start s' = rl_args_start s" "rl_uri_ext s' = rl_uri_ext s"
  shows "target_closed mem p s'" "target_closed mem (Suc p) s'"
  using assms by (fastforce simp: target_closed_def)+

lemma uri_ends_keep:
  assumes "target_open mem p s" "rl_http_major s \<le> 999" "rl_http_minor s \<le> 999"
  shows "mem ! p = SP \<Longrightarrow> q \<in> {sw_check_uri_http_09, sw_http_09} \<Longrightarrow> rl_keeps mem p (rl_uri_space p q s)"
    "rl_keeps mem p (rl_uri_cr p s)" "rl_keeps mem p (rl_uri_lf p s)"
proof -
  note close = target_close[OF assms(1)]
  show "rl_keeps mem p (rl_uri_space p q s)" if "mem ! p = SP" "q \<in> {sw_check_uri_http_09, sw_http_09}"
    using that assms by (auto simp: rl_keeps_def rl_uri_space_def rl_inv_def intro!: close target_open_next[OF assms(1)])
  show "rl_keeps mem p (rl_uri_cr p s)" "rl_keeps mem p (rl_uri_lf p s)"
    using assms by (auto simp: rl_keeps_def rl_uri_cr_def rl_uri_lf_def rl_inv_def intro!: close)
qed

lemma target_states_keep:
  assumes "target_open mem p s" "rl_http_major s \<le> 999" "rl_http_minor s \<le> 999"
  shows "rl_state s = sw_after_slash_in_uri \<Longrightarrow> rl_keeps mem p (rl_after_slash_step p (mem ! p) s)"
    "rl_state s = sw_check_uri \<Longrightarrow> rl_keeps mem p (rl_check_uri_step p (mem ! p) s)"
    "rl_state s = sw_uri \<Longrightarrow> rl_keeps mem p (rl_uri_step p (mem ! p) s)"
proof -
  note nxt = target_open_next[OF assms(1)] and ends = uri_ends_keep[OF assms]
  have step: "rl_keeps mem p (Next s')"
    if "mem ! p \<noteq> 0" "rl_state s' \<in> {sw_after_slash_in_uri, sw_check_uri, sw_uri}" "target_open mem (Suc p) s'"
      "rl_http_major s' = rl_http_major s" "rl_http_minor s' = rl_http_minor s" for s'
    using that assms by (auto simp: rl_keeps_def rl_inv_def)
  have bad: "rl_keeps mem p (rl_invalid s)" by (simp add: rl_keeps_def rl_invalid_def)
  show "rl_keeps mem p (rl_after_slash_step p (mem ! p) s)" if "rl_state s = sw_after_slash_in_uri"
    using that by (auto simp: rl_after_slash_step_def dest: usual_nonzero intro!: step nxt ends bad)
  show "rl_keeps mem p (rl_check_uri_step p (mem ! p) s)" if "rl_state s = sw_check_uri"
    using that by (auto simp: rl_check_uri_step_def dest: usual_nonzero intro!: step nxt ends bad)
  show "rl_keeps mem p (rl_uri_step p (mem ! p) s)" if "rl_state s = sw_uri"
    using that by (auto simp: rl_uri_step_def dest: usual_nonzero intro!: step nxt ends bad)
qed

lemma http_09_keeps:
  assumes "target_closed mem p s" "rl_http_major s \<le> 999" "rl_http_minor s \<le> 999"
    and "rl_state s \<in> {sw_check_uri_http_09, sw_http_09} \<Longrightarrow> target_open mem p s"
    and "rl_state s \<in> {sw_host_http_09, sw_check_uri_http_09, sw_http_09}"
    and "mem ! p \<noteq> SP \<Longrightarrow> rl_keeps mem p (resume s)"
  shows "rl_keeps mem p (rl_http_09_step resume p (mem ! p) s)"
proof -
  note closed = target_closed_next[OF assms(1)]
  show ?thesis
  proof (cases "mem ! p = SP")
    case True
    have "target_open mem (Suc p) s" if "rl_state s \<in> {sw_check_uri_http_09, sw_http_09}"
      using target_open_next[OF assms(4)[OF that], of s] True by simp
    with True assms(2,3,5) show ?thesis
      by (auto simp: rl_http_09_step_def rl_keeps_def rl_inv_def intro!: closed)
  next
    case False
    note res = assms(6)[OF False]
    show ?thesis
    proof (cases "mem ! p \<in> {CR, LF, c8 CHR ''H''}")
      case True
      with assms(2,3) show ?thesis
        by (auto simp: rl_http_09_step_def rl_keeps_def rl_inv_def intro!: closed)
    next
      case False
      with res \<open>mem ! p \<noteq> SP\<close> show ?thesis by (simp add: rl_http_09_step_def)
    qed
  qed
qed

lemma target_keeps:
  assumes "rl_inv mem p s"
    "rl_state s \<in> {sw_host_http_09, sw_after_slash_in_uri, sw_check_uri, sw_check_uri_http_09, sw_uri, sw_http_09}"
  shows "rl_keeps mem p (rl_target_step p (mem ! p) s)"
proof -
  have v: "rl_http_major s \<le> 999" "rl_http_minor s \<le> 999" using assms(1) by (auto simp: rl_inv_def)
  from assms(2) consider (host) "rl_state s = sw_host_http_09"
    | (uri) "rl_state s \<in> {sw_after_slash_in_uri, sw_check_uri, sw_uri}"
    | (check) "rl_state s = sw_check_uri_http_09" | (plain) "rl_state s = sw_http_09" by auto
  then show ?thesis
  proof cases
    case host
    hence "rl_keeps mem p (rl_http_09_step rl_invalid p (mem ! p) s)"
      using assms(1) v by (intro http_09_keeps) (auto simp: rl_inv_def rl_keeps_def rl_invalid_def)
    with host show ?thesis by (simp add: rl_target_step_def)
  next
    case uri
    hence "target_open mem p s" using assms(1) by (auto simp: rl_inv_def)
    from target_states_keep[OF this v] uri show ?thesis by (auto simp: rl_target_step_def)
  next
    case check
    hence t: "target_closed mem p s" "target_open mem p s" using assms(1) by (auto simp: rl_inv_def)
    let ?s = "s\<lparr>rl_space_in_uri := True, rl_state := sw_check_uri\<rparr>"
    have "rl_keeps mem p (rl_check_uri_step p (mem ! p) ?s)"
      using v by (intro target_states_keep(2) target_open_cong[OF t(2)]) auto
    with http_09_keeps[OF t(1) v, of "\<lambda>s. rl_check_uri_step p (mem ! p) (s\<lparr>rl_space_in_uri := True, rl_state := sw_check_uri\<rparr>)"]
      t(2) check show ?thesis by (simp add: rl_target_step_def)
  next
    case plain
    hence t: "target_closed mem p s" "target_open mem p s" using assms(1) by (auto simp: rl_inv_def)
    let ?s = "s\<lparr>rl_space_in_uri := True, rl_state := sw_uri\<rparr>"
    have "rl_keeps mem p (rl_uri_step p (mem ! p) ?s)"
      using v by (intro target_states_keep(3) target_open_cong[OF t(2)]) auto
    with http_09_keeps[OF t(1) v, of "\<lambda>s. rl_uri_step p (mem ! p) (s\<lparr>rl_space_in_uri := True, rl_state := sw_uri\<rparr>)"]
      t(2) plain show ?thesis by (simp add: rl_target_step_def)
  qed
qed

definition version_states :: "rl_state set" where
  "version_states = {sw_http_H, sw_http_HT, sw_http_HTT, sw_http_HTTP, sw_first_major_digit, sw_major_digit,
     sw_first_minor_digit, sw_minor_digit, sw_spaces_after_digit, sw_almost_done}"

lemma rl_inv_version:
  "rl_state s \<in> version_states \<Longrightarrow> rl_inv mem p s \<longleftrightarrow>
     rl_http_major s \<le> 999 \<and> rl_http_minor s \<le> 999 \<and> target_closed mem p s"
  by (auto simp: rl_inv_def version_states_def)

lemma version_keeps:
  assumes "rl_inv mem p s" "rl_state s \<in> version_states"
  shows "rl_keeps mem p (rl_version_step p (mem ! p) s)"
proof -
  have v: "rl_http_major s \<le> 999" "rl_http_minor s \<le> 999" and t: "target_closed mem p s"
    using assms by (auto simp: rl_inv_version)
  have step: "rl_keeps mem p (Next s')"
    if "rl_state s' \<in> version_states" "rl_http_major s' \<le> 999" "rl_http_minor s' \<le> 999"
      "rl_uri_start s' = rl_uri_start s" "rl_uri_end s' = rl_uri_end s"
      "rl_args_start s' = rl_args_start s" "rl_uri_ext s' = rl_uri_ext s" for s'
    using that target_closed_next[OF t] by (simp add: rl_keeps_def rl_inv_version)
  have fin: "rl_keeps mem p (Stop (Rl_done, s'))"
    if "rl_http_major s' \<le> 999" "rl_http_minor s' \<le> 999"
      "rl_uri_start s' = rl_uri_start s" "rl_uri_end s' = rl_uri_end s"
      "rl_args_start s' = rl_args_start s" "rl_uri_ext s' = rl_uri_ext s" for s'
    using that target_closed_next[OF t] by (simp add: rl_keeps_def)
  have bad: "rl_keeps mem p (rl_invalid s')" for s' by (simp add: rl_keeps_def rl_invalid_def)
  have d: "digit_value ch \<le> 999" if "is_digit ch" for ch
    using digit_value_le[OF that] by simp
  have major: "is_digit ch" if "\<not> (ch < 49 \<or> 57 < ch)" for ch :: u_char
    using that by (auto simp: is_digit_def word_le_nat_alt word_less_nat_alt)
  have ten: "n * 10 + digit_value ch \<le> 999" if "\<not> (\<not> is_digit ch \<or> 99 < n)" for n ch
    using digit_value_le[of ch] that by simp
  show ?thesis
  proof (cases "rl_state s")
    case sw_first_major_digit
    then show ?thesis
      using v major[of "mem ! p"] unfolding rl_version_step_def
      by (simp add: bad) (intro impI step, auto simp: version_states_def d)
  next
    case sw_major_digit
    then show ?thesis
      using v ten[of "mem ! p" "rl_http_major s"] unfolding rl_version_step_def
      by (auto intro!: step bad simp: version_states_def)
  next
    case sw_first_minor_digit
    then show ?thesis
      using v d[of "mem ! p"] unfolding rl_version_step_def
      by (auto intro!: step bad simp: version_states_def)
  next
    case sw_minor_digit
    then show ?thesis
      using v ten[of "mem ! p" "rl_http_minor s"] unfolding rl_version_step_def
      by (auto intro!: step bad fin simp: version_states_def)
  qed (use assms(2) v in \<open>auto intro!: step bad fin simp: version_states_def rl_version_step_def rl_expect_def Let_def\<close>)
qed

lemma rl_state_groups:
  "rl_state s \<in> {sw_start, sw_method} \<or>
   rl_state s \<in> {sw_spaces_before_uri, sw_schema, sw_schema_slash, sw_schema_slash_slash} \<or>
   rl_state s \<in> {sw_host_start, sw_host, sw_host_end, sw_host_ip_literal, sw_port} \<or>
   rl_state s \<in> {sw_host_http_09, sw_after_slash_in_uri, sw_check_uri, sw_check_uri_http_09, sw_uri, sw_http_09} \<or>
   rl_state s \<in> version_states"
  by (cases "rl_state s") (simp_all add: version_states_def)

lemma body_keeps:
  assumes "rl_inv mem p s"
  shows "rl_keeps mem p (request_line_body mem p (mem ! p) s)"
  using rl_state_groups[of s] method_keeps[OF assms] schema_keeps[OF assms] host_keeps[OF assms]
    target_keeps[OF assms] version_keeps[OF assms]
  by (auto simp: request_line_body_def)

definition rl_fresh :: "request_line \<Rightarrow> bool" where
  "rl_fresh s \<longleftrightarrow> rl_state s = sw_start \<and> rl_http_major s = 0 \<and> rl_http_minor s = 0 \<and> no_args s"

text \<open>An accepted line.\<close>

lemma request_line_acc:
  assumes "ngx_http_parse_request_line mem pos lim s = (Rl_ok, pos', r)" "rl_fresh s"
  shows "\<exists>u e. rl_uri_start r = Some u \<and> rl_uri_end r = Some e \<and> target mem u e \<and> e < pos' \<and> pos' \<le> lim \<and>
    ptr_in (rl_args_start r) u e \<and> ptr_in (rl_uri_ext r) u e \<and>
    rl_http_major r \<le> 999 \<and> rl_http_minor r \<le> 999 \<and>
    rl_http_version r = rl_http_major r * 1000 + rl_http_minor r \<and>
    (rl_http_version r = 9 \<longrightarrow> rl_method r = NGX_HTTP_GET)"
proof -
  have "rl_inv mem pos s" using assms(2) by (simp add: rl_fresh_def rl_inv_def)
  hence inv: "case scan request_line_body mem pos lim s of
      More q s' \<Rightarrow> rl_inv mem q s'
    | Halt q x \<Rightarrow> \<exists>s'. rl_inv mem q s' \<and> request_line_body mem q (mem ! q) s' = Stop x"
    using body_keeps by (intro scan_invariant_at[where I = "rl_inv mem"]) (force simp: rl_keeps_def)+
  from assms(1) obtain p t where h: "scan request_line_body mem pos lim s = Halt p (Rl_done, t)" "pos' = p + 1"
    "request_line_fin p (Rl_done, t) = (p, (Rl_ok, r))"
    by (auto simp: ngx_http_parse_request_line_def request_line_parse_def scan_parse_def request_line_fin_def Let_def
        split: scanned.splits parsed.splits prod.splits rl_exit.splits if_splits)
  with inv obtain s' where "rl_inv mem p s'" "request_line_body mem p (mem ! p) s' = Stop (Rl_done, t)" by auto
  with body_keeps[of mem p s'] have "rl_http_major t \<le> 999" "rl_http_minor t \<le> 999" "target_closed mem p t"
    by (auto simp: rl_keeps_def)
  with h(2,3) scan_HaltD[OF h(1)] show ?thesis
    by (auto simp: request_line_fin_def Let_def target_closed_def split: if_splits)
qed

text \<open>
  C25 (safety). What the request line parser accepts. When a fresh request is answered with
  \<open>NGX_OK\<close>, the target lies in the bytes consumed, starts with a slash and holds no zero byte;
  \<open>args_start\<close> and \<open>uri_ext\<close>, where set, lie inside it; the version numbers are at most 999, so
  their 16-bit fields and \<open>http_version\<close> do not overflow; and an HTTP/0.9 request is a GET.\<close>

theorem request_line_sound:
  assumes "ngx_http_parse_request_line mem pos lim s = (Rl_ok, pos', r)" "rl_fresh s"
  shows "\<exists>u e. rl_uri_start r = Some u \<and> rl_uri_end r = Some e \<and> target mem u e \<and> e < pos' \<and> pos' \<le> lim \<and>
    ptr_in (rl_args_start r) u e \<and> ptr_in (rl_uri_ext r) u e \<and>
    rl_http_major r \<le> 999 \<and> rl_http_minor r \<le> 999 \<and>
    rl_http_version r = rl_http_major r * 1000 + rl_http_minor r \<and>
    (rl_http_version r = 9 \<longrightarrow> rl_method r = NGX_HTTP_GET)"
  by (rule request_line_acc[OF assms])

definition rl_init :: request_line where
  "rl_init = \<lparr>rl_state = sw_start, rl_method = NGX_HTTP_UNKNOWN, rl_http_major = 0, rl_http_minor = 0,
     rl_http_version = 0, rl_request_start = None, rl_request_end = None, rl_method_end = None,
     rl_schema_start = None, rl_schema_end = None, rl_host_start = None, rl_host_end = None,
     rl_port_end = None, rl_uri_start = None, rl_uri_end = None, rl_uri_ext = None, rl_args_start = None,
     rl_http_protocol = None, rl_complex_uri = False, rl_quoted_uri = False, rl_plus_in_uri = False,
     rl_space_in_uri = False\<rparr>"

theorem request_line_sound_witness:
  "\<exists>pos' r u e. ngx_http_parse_request_line (bytes ''GET /a?b HTTP/1.1'' @ [13, 10]) 0 19 rl_init = (Rl_ok, pos', r) \<and>
     rl_uri_start r = Some u \<and> rl_uri_end r = Some e \<and> u < e \<and> e < pos'"
proof -
  let ?mem = "bytes ''GET /a?b HTTP/1.1'' @ [13, 10]"
  obtain rc pos' r where c: "ngx_http_parse_request_line ?mem 0 19 rl_init = (rc, pos', r)" by (metis prod_cases3)
  have "fst (ngx_http_parse_request_line ?mem 0 19 rl_init) = Rl_ok" by code_simp
  hence rc: "rc = Rl_ok" using c by simp
  have "rl_fresh rl_init" by (simp add: rl_fresh_def rl_init_def no_args_def)
  from request_line_sound[OF c[unfolded rc] this] c rc show ?thesis
    unfolding target_def by blast
qed


section \<open>Completeness: a well-formed request line is accepted\<close>

definition is_target_char :: "u_char \<Rightarrow> bool" where
  "is_target_char c \<longleftrightarrow> c \<noteq> 0 \<and> c \<noteq> SP \<and> c \<noteq> CR \<and> c \<noteq> LF"

definition request_line_bytes :: "u_char list \<Rightarrow> u_char list \<Rightarrow> u_char \<Rightarrow> u_char \<Rightarrow> u_char list" where
  "request_line_bytes m t d1 d2 = m @ [SP] @ t @ bytes '' HTTP/'' @ [d1, c8 CHR ''.'', d2, CR, LF]"

lemma method_char_not_end: "is_method_char c \<Longrightarrow> c \<noteq> CR \<and> c \<noteq> LF \<and> c \<noteq> SP"
  by (auto simp: is_method_char_def)

lemma run_method:
  assumes "list_all is_method_char m" "rl_state s = sw_method"
  shows "run request_line_body mem p m s = Some s"
  using assms
proof (induction m arbitrary: p)
  case (Cons c m)
  then show ?case
    using method_char_not_end[of c] by (simp add: request_line_body_def rl_method_step_def)
qed simp

text \<open>The bytes of a target change only the flags and the pointers inside the target.\<close>

definition same_line :: "request_line \<Rightarrow> request_line \<Rightarrow> bool" where
  "same_line s s' \<longleftrightarrow> rl_method s' = rl_method s \<and> rl_http_major s' = rl_http_major s \<and>
     rl_http_minor s' = rl_http_minor s \<and> rl_request_start s' = rl_request_start s \<and>
     rl_request_end s' = rl_request_end s \<and> rl_method_end s' = rl_method_end s \<and>
     rl_uri_start s' = rl_uri_start s \<and> rl_space_in_uri s' = rl_space_in_uri s"

definition uri_states :: "rl_state set" where
  "uri_states = {sw_after_slash_in_uri, sw_check_uri, sw_uri}"

lemma target_char_step:
  assumes "is_target_char c" "rl_state s \<in> uri_states"
  shows "\<exists>s'. request_line_body mem p c s = Next s' \<and> rl_state s' \<in> uri_states \<and> same_line s s'"
  using assms
  by (auto simp: uri_states_def is_target_char_def request_line_body_def rl_target_step_def
      rl_after_slash_step_def rl_check_uri_step_def rl_uri_step_def same_line_def)

lemma run_target:
  assumes "list_all is_target_char t" "rl_state s \<in> uri_states"
  shows "\<exists>s'. run request_line_body mem p t s = Some s' \<and> rl_state s' \<in> uri_states \<and> same_line s s'"
  using assms
proof (induction t arbitrary: p s)
  case (Cons c t)
  from target_char_step[of c s mem p] Cons.prems obtain s1 where
    s1: "request_line_body mem p c s = Next s1" "rl_state s1 \<in> uri_states" "same_line s s1" by auto
  from Cons.IH[OF _ s1(2), of "Suc p"] Cons.prems(1) s1(3) show ?case
    by (auto simp: s1(1) same_line_def)
qed (simp add: same_line_def)

text \<open>From the space after the target to the carriage return.\<close>

lemma protocol_steps:
  "rl_state s \<in> uri_states \<Longrightarrow> request_line_body mem p SP s = Next (s\<lparr>rl_uri_end := Some p,
     rl_state := (if rl_state s = sw_uri then sw_http_09 else sw_check_uri_http_09)\<rparr>)"
  "rl_state s \<in> {sw_check_uri_http_09, sw_http_09} \<Longrightarrow>
     request_line_body mem p 72 s = Next (s\<lparr>rl_http_protocol := Some p, rl_state := sw_http_H\<rparr>)"
  "rl_state s = sw_http_H \<Longrightarrow> request_line_body mem p 84 s = Next (s\<lparr>rl_state := sw_http_HT\<rparr>)"
  "rl_state s = sw_http_HT \<Longrightarrow> request_line_body mem p 84 s = Next (s\<lparr>rl_state := sw_http_HTT\<rparr>)"
  "rl_state s = sw_http_HTT \<Longrightarrow> request_line_body mem p 80 s = Next (s\<lparr>rl_state := sw_http_HTTP\<rparr>)"
  "rl_state s = sw_http_HTTP \<Longrightarrow> request_line_body mem p 47 s = Next (s\<lparr>rl_state := sw_first_major_digit\<rparr>)"
  subgoal by (unfold uri_states_def, elim insertE emptyE)
      (simp_all add: request_line_body_def rl_target_step_def rl_after_slash_step_def
        rl_check_uri_step_def rl_uri_step_def rl_uri_space_def)
  subgoal by (elim insertE emptyE) (simp_all add: request_line_body_def rl_target_step_def rl_http_09_step_def)
  by (simp_all add: request_line_body_def rl_version_step_def rl_expect_def)

lemma run_protocol:
  assumes "rl_state s \<in> uri_states"
  shows "run request_line_body mem p (bytes '' HTTP/'') s =
    Some (s\<lparr>rl_uri_end := Some p, rl_http_protocol := Some (p + 1), rl_state := sw_first_major_digit\<rparr>)"
  using assms by (simp add: protocol_steps)

lemma run_version:
  assumes "rl_state s = sw_first_major_digit" "is_digit d1" "d1 \<noteq> c8 CHR ''0''" "is_digit d2"
  shows "run request_line_body mem p [d1, c8 CHR ''.'', d2, CR] s =
    Some (s\<lparr>rl_http_major := digit_value d1, rl_http_minor := digit_value d2, rl_state := sw_almost_done\<rparr>)"
proof -
  have "unat d1 \<noteq> unat (48 :: u_char)" using assms(3) unfolding word_unat_eq_iff[symmetric] by simp
  hence d1: "\<not> d1 < 49" "\<not> 57 < d1"
    using assms(2) by (auto simp: is_digit_def word_less_nat_alt word_le_nat_alt)
  show ?thesis
    using assms(1,4) d1 by (simp add: request_line_body_def rl_version_step_def)
qed

lemma run_start:
  assumes "m \<noteq> []" "list_all is_method_char m" "between mem p (p + length m) = m"
  shows "run request_line_body mem p (m @ [SP, c8 CHR ''/'']) rl_init = Some (rl_init\<lparr>
    rl_request_start := Some p, rl_method_end := Some (p + length m - 1),
    rl_method := (case rl_find_method m of None \<Rightarrow> NGX_HTTP_UNKNOWN | Some x \<Rightarrow> x),
    rl_uri_start := Some (p + length m + 1), rl_state := sw_after_slash_in_uri\<rparr>)"
proof -
  let ?s1 = "rl_init\<lparr>rl_request_start := Some p, rl_state := sw_method\<rparr>"
  obtain c cs where m: "m = c # cs" using assms(1) by (cases m) auto
  have "request_line_body mem p c rl_init = Next ?s1"
    using assms(2) method_char_not_end[of c]
    by (simp add: m request_line_body_def rl_method_step_def rl_init_def Let_def)
  moreover have "run request_line_body mem (Suc p) cs ?s1 = Some ?s1"
    using assms(2) by (intro run_method) (simp_all add: m)
  ultimately have r: "run request_line_body mem p m rl_init = Some ?s1" by (simp add: m)
  let ?s2 = "?s1\<lparr>rl_method_end := Some (p + length m - 1),
    rl_method := (case rl_find_method m of None \<Rightarrow> NGX_HTTP_UNKNOWN | Some x \<Rightarrow> x), rl_state := sw_spaces_before_uri\<rparr>"
  have "request_line_body mem (p + length m) SP ?s1 = Next ?s2"
    using assms(3) by (simp add: request_line_body_def rl_method_step_def rl_init_def split: option.split)
  moreover have "request_line_body mem (Suc (p + length m)) 47 ?s2 =
      Next (?s2\<lparr>rl_uri_start := Some (Suc (p + length m)), rl_state := sw_after_slash_in_uri\<rparr>)"
    by (simp add: request_line_body_def rl_schema_step_def)
  ultimately show ?thesis by (simp add: run_append r)
qed

text \<open>
  C27 (functional). Every request line of the form \<open>METHOD /target HTTP/d.d\<close> is accepted wherever it
  stands in the buffer, whatever follows it: the pointers delimit exactly the line and its target,
  the method and the version are the ones written, and the position is just after the line.\<close>

theorem request_line_complete:
  assumes "m \<noteq> []" "list_all is_method_char m" "list_all is_target_char t"
    and "is_digit d1" "d1 \<noteq> c8 CHR ''0''" "is_digit d2"
    and "line = request_line_bytes m (c8 CHR ''/'' # t) d1 d2" "length pre + length line \<le> lim"
  shows "\<exists>r. ngx_http_parse_request_line (pre @ line @ rest) (length pre) lim rl_init =
      (Rl_ok, length pre + length line, r) \<and>
    rl_method r = (case rl_find_method m of None \<Rightarrow> NGX_HTTP_UNKNOWN | Some x \<Rightarrow> x) \<and>
    rl_request_start r = Some (length pre) \<and> rl_request_end r = Some (length pre + length line - 2) \<and>
    rl_uri_start r = Some (length pre + length m + 1) \<and>
    rl_uri_end r = Some (length pre + length m + 2 + length t) \<and>
    rl_http_version r = digit_value d1 * 1000 + digit_value d2"
proof -
  let ?mem = "pre @ line @ rest" and ?p = "length pre"
  let ?a = "m @ [SP, c8 CHR ''/'']" and ?v = "[d1, c8 CHR ''.'', d2, CR]"
  have line: "line = ?a @ t @ bytes '' HTTP/'' @ ?v @ [LF]" using assms(7) by (simp add: request_line_bytes_def)
  have "between ?mem ?p (?p + length m) = m" by (simp add: between_def line)
  note ra = run_start[OF assms(1,2) this]
  let ?s3 = "rl_init\<lparr>rl_request_start := Some ?p, rl_method_end := Some (?p + length m - 1),
    rl_method := (case rl_find_method m of None \<Rightarrow> NGX_HTTP_UNKNOWN | Some x \<Rightarrow> x),
    rl_uri_start := Some (?p + length m + 1), rl_state := sw_after_slash_in_uri\<rparr>"
  obtain s4 where r4: "run request_line_body ?mem (?p + length ?a) t ?s3 = Some s4" "rl_state s4 \<in> uri_states"
    "same_line ?s3 s4"
    using run_target[OF assms(3), of ?s3 ?mem "?p + length ?a"] by (auto simp: uri_states_def)
  let ?q = "?p + length ?a + length t"
  let ?s5 = "s4\<lparr>rl_uri_end := Some ?q, rl_http_protocol := Some (?q + 1), rl_state := sw_first_major_digit\<rparr>"
  let ?s6 = "?s5\<lparr>rl_http_major := digit_value d1, rl_http_minor := digit_value d2, rl_state := sw_almost_done\<rparr>"
  let ?x = "?a @ t @ bytes '' HTTP/'' @ ?v"
  have "run request_line_body ?mem q ?v ?s5 = Some ?s6" for q
    using run_version[of ?s5 d1 d2] assms(4-6) by simp
  hence "run request_line_body ?mem ?p ?x rl_init = Some ?s6"
    by (rule run_appendI[OF ra run_appendI[OF r4(1) run_appendI[OF run_protocol[OF r4(2)]]]])
  hence "scan request_line_body ?mem ?p lim rl_init = scan request_line_body ?mem (?p + length ?x) lim ?s6"
    by (rule scan_run_at[where post = "[LF] @ rest"]) (use assms(8) in \<open>simp_all add: line\<close>)
  moreover have "?mem ! (?p + length ?x) = LF" by (simp add: line nth_append)
  moreover have "?p + length ?x < lim" using assms(8) by (simp add: line)
  ultimately have "scan request_line_body ?mem ?p lim rl_init =
      Halt (?p + length ?x) (Rl_done, ?s6\<lparr>rl_request_end := Some (?p + length ?x - 1)\<rparr>)"
    by (simp add: scan_step request_line_body_def rl_version_step_def Let_def)
  moreover have "0 < digit_value d1"
    using assms(4,5) by (auto simp: digit_value_def is_digit_def word_le_nat_alt word_unat_eq_iff)
  ultimately show ?thesis
    using r4(3) by (auto simp: ngx_http_parse_request_line_def request_line_parse_def scan_parse_def
        request_line_fin_def Let_def same_line_def rl_init_def line)
qed

theorem request_line_complete_witness:
  "\<exists>r. ngx_http_parse_request_line
      ([10] @ request_line_bytes (bytes ''POST'') (c8 CHR ''/'' # bytes ''a%20b?c'') 49 49 @ bytes ''Host'') (length [10 :: u_char]) 40 rl_init =
      (Rl_ok, length [10 :: u_char] + length (request_line_bytes (bytes ''POST'') (c8 CHR ''/'' # bytes ''a%20b?c'') 49 49), r) \<and>
      rl_method r = NGX_HTTP_POST \<and> rl_http_version r = 1001"
proof -
  have p: "list_all is_method_char (bytes ''POST'')" "list_all is_target_char (bytes ''a%20b?c'')" "is_digit 49"
    "bytes ''POST'' \<noteq> []" "(49 :: u_char) \<noteq> c8 CHR ''0''"
    by (simp_all add: is_method_char_def is_target_char_def is_digit_def)
  have l: "length [10 :: u_char] + length (request_line_bytes (bytes ''POST'') (c8 CHR ''/'' # bytes ''a%20b?c'') 49 49) \<le> 40"
    by (simp add: request_line_bytes_def)
  have v: "rl_find_method (bytes ''POST'') = Some NGX_HTTP_POST" "digit_value 49 * 1000 + digit_value 49 = 1001"
    by (simp_all add: rl_find_method_def digit_value_def)
  from request_line_complete[OF p(4,1,2,3,5,3) refl l, of "bytes ''Host''", unfolded v option.case]
  show ?thesis by blast
qed

end
