(* ===== verification/Ngx_Http_Complex_Uri.thy ===== *)
theory Ngx_Http_Complex_Uri
  imports Ngx_Http_Request_Line
begin

text \<open>
  URI normalisation: \<open>ngx_http_parse_complex_uri\<close> of \<^verbatim>\<open>src/http/ngx_http_parse.c\<close> (the Unix
  build, without the \<open>NGX_WIN32\<close> branches). The routine decodes percent escapes, merges slashes
  and resolves \<open>.\<close> and \<open>..\<close> in one pass over the bytes.

  The source buffer is \<open>src\<close> with the pointers \<open>uri_start\<close> and \<open>uri_end\<close> as indices; the byte at
  \<open>uri_end\<close> exists (the source's comment: at least the line feed follows). What has been written
  to \<open>r->uri.data\<close> up to \<open>u\<close> is the list \<open>cu_out\<close>, so \<open>u\<close> is its length; nothing above \<open>u\<close> is
  ever read back.
\<close>

section \<open>The routine\<close>

text \<open>
  The \<open>enum\<close>: \<open>quoted_state\<close> only ever holds one of the four unquoted states.
\<close>

datatype cu_plain = sw_usual | sw_slash | sw_dot | sw_dot_dot

datatype cu_state = Plain cu_plain | sw_quoted | sw_quoted_second

record complex_uri =
  cu_state :: cu_state
  cu_quoted_state :: cu_plain
  cu_p :: nat
  cu_ch :: u_char
  cu_decoded :: u_char
  cu_out :: "u_char list"
  cu_uri_ext :: ngx_ptr
  cu_args_start :: ngx_ptr
  cu_plus_in_uri :: bool
  cu_quoted_uri :: bool

text \<open>How the loop is left: label \<open>done\<close>, label \<open>args\<close> or \<open>NGX_HTTP_PARSE_INVALID_REQUEST\<close>.\<close>

datatype cu_exit = Cu_done | Cu_args | Cu_invalid

text \<open>\<open>ch = *p++\<close> and \<open>*u++ = ch\<close>.\<close>

definition cu_next :: "u_char list \<Rightarrow> complex_uri \<Rightarrow> complex_uri" where
  "cu_next src s = s\<lparr>cu_ch := src ! cu_p s, cu_p := Suc (cu_p s)\<rparr>"

definition cu_put :: "u_char \<Rightarrow> complex_uri \<Rightarrow> complex_uri" where
  "cu_put c s = s\<lparr>cu_out := cu_out s @ [c]\<rparr>"

text \<open>
  \<open>u -= 5; for ( ;; ) { if (u < data) return INVALID; if (*u == '/') { u++; break; } u--; }\<close>.
  \<open>cu_back out n\<close> is the loop with \<open>u = data + n - 1\<close>; the result is the new \<open>u\<close>.
\<close>

fun cu_back :: "u_char list \<Rightarrow> nat \<Rightarrow> nat option" where
  "cu_back out 0 = None"
| "cu_back out (Suc u) = (if out ! u = c8 CHR ''/'' then Some (Suc u) else cu_back out u)"

text \<open>The branches the four unquoted states share: \<open>%\<close>, \<open>?\<close>, \<open>#\<close>.\<close>

definition cu_quote :: "u_char list \<Rightarrow> cu_plain \<Rightarrow> complex_uri \<Rightarrow> complex_uri" where
  "cu_quote src q s = cu_next src (s\<lparr>cu_quoted_state := q, cu_state := sw_quoted\<rparr>)"

definition cu_args :: "complex_uri \<Rightarrow> complex_uri" where
  "cu_args s = s\<lparr>cu_args_start := Some (cu_p s)\<rparr>"

fun cu_usual_step :: "u_char list \<Rightarrow> complex_uri \<Rightarrow> (complex_uri, cu_exit \<times> complex_uri) outcome" where
  "cu_usual_step src s =
     (let ch = cu_ch s in
      if is_usual ch then Next (cu_next src (cu_put ch s))
      else if ch = c8 CHR ''/'' then
        Next (cu_next src (cu_put ch (s\<lparr>cu_uri_ext := None, cu_state := Plain sw_slash\<rparr>)))
      else if ch = c8 CHR ''%'' then Next (cu_quote src sw_usual s)
      else if ch = c8 CHR ''?'' then Stop (Cu_args, cu_args s)
      else if ch = c8 CHR ''#'' then Stop (Cu_done, s)
      else if ch = c8 CHR ''.'' then
        Next (cu_next src (cu_put ch (s\<lparr>cu_uri_ext := Some (Suc (length (cu_out s)))\<rparr>)))
      else if ch = c8 CHR ''+'' then Next (cu_next src (cu_put ch (s\<lparr>cu_plus_in_uri := True\<rparr>)))
      else Next (cu_next src (cu_put ch s)))"

fun cu_slash_step :: "u_char list \<Rightarrow> bool \<Rightarrow> complex_uri \<Rightarrow>
    (complex_uri, cu_exit \<times> complex_uri) outcome" where
  "cu_slash_step src merge_slashes s =
     (let ch = cu_ch s in
      if is_usual ch then Next (cu_next src (cu_put ch (s\<lparr>cu_state := Plain sw_usual\<rparr>)))
      else if ch = c8 CHR ''/'' then
        Next (cu_next src (if merge_slashes then s else cu_put ch s))
      else if ch = c8 CHR ''.'' then Next (cu_next src (cu_put ch (s\<lparr>cu_state := Plain sw_dot\<rparr>)))
      else if ch = c8 CHR ''%'' then Next (cu_quote src sw_slash s)
      else if ch = c8 CHR ''?'' then Stop (Cu_args, cu_args s)
      else if ch = c8 CHR ''#'' then Stop (Cu_done, s)
      else if ch = c8 CHR ''+'' then
        Next (cu_next src (cu_put ch (s\<lparr>cu_plus_in_uri := True, cu_state := Plain sw_usual\<rparr>)))
      else Next (cu_next src (cu_put ch (s\<lparr>cu_state := Plain sw_usual\<rparr>))))"

fun cu_dot_step :: "u_char list \<Rightarrow> complex_uri \<Rightarrow> (complex_uri, cu_exit \<times> complex_uri) outcome" where
  "cu_dot_step src s =
     (let ch = cu_ch s in
      if is_usual ch then Next (cu_next src (cu_put ch (s\<lparr>cu_state := Plain sw_usual\<rparr>)))
      else if ch = c8 CHR ''/'' then
        Next (cu_next src (s\<lparr>cu_state := Plain sw_slash, cu_out := butlast (cu_out s)\<rparr>))
      else if ch = c8 CHR ''.'' then Next (cu_next src (cu_put ch (s\<lparr>cu_state := Plain sw_dot_dot\<rparr>)))
      else if ch = c8 CHR ''%'' then Next (cu_quote src sw_dot s)
      else if ch = c8 CHR ''?'' then Stop (Cu_args, cu_args s)
      else if ch = c8 CHR ''#'' then Stop (Cu_done, s)
      else if ch = c8 CHR ''+'' then
        Next (cu_next src (cu_put ch (s\<lparr>cu_plus_in_uri := True, cu_state := Plain sw_usual\<rparr>)))
      else Next (cu_next src (cu_put ch (s\<lparr>cu_state := Plain sw_usual\<rparr>))))"

fun cu_dot_dot_step :: "u_char list \<Rightarrow> complex_uri \<Rightarrow> (complex_uri, cu_exit \<times> complex_uri) outcome" where
  "cu_dot_dot_step src s =
     (let ch = cu_ch s in
      if is_usual ch then Next (cu_next src (cu_put ch (s\<lparr>cu_state := Plain sw_usual\<rparr>)))
      else if ch = c8 CHR ''/'' then
        (case cu_back (cu_out s) (length (cu_out s) - 4) of
           None \<Rightarrow> Stop (Cu_invalid, s\<lparr>cu_state := Plain sw_slash\<rparr>)
         | Some u \<Rightarrow> Next (cu_next src (s\<lparr>cu_state := Plain sw_slash, cu_out := take u (cu_out s)\<rparr>)))
      else if ch = c8 CHR ''%'' then Next (cu_quote src sw_dot_dot s)
      else if ch = c8 CHR ''?'' then Stop (Cu_args, cu_args s)
      else if ch = c8 CHR ''#'' then Stop (Cu_done, s)
      else if ch = c8 CHR ''+'' then
        Next (cu_next src (cu_put ch (s\<lparr>cu_plus_in_uri := True, cu_state := Plain sw_usual\<rparr>)))
      else Next (cu_next src (cu_put ch (s\<lparr>cu_state := Plain sw_usual\<rparr>))))"

fun cu_quoted_step :: "u_char list \<Rightarrow> complex_uri \<Rightarrow> (complex_uri, cu_exit \<times> complex_uri) outcome" where
  "cu_quoted_step src s =
     (let ch = cu_ch s; s' = s\<lparr>cu_quoted_uri := True\<rparr> in
      if is_digit ch then
        Next (cu_next src (s'\<lparr>cu_decoded := ch - c8 CHR ''0'', cu_state := sw_quoted_second\<rparr>))
      else if is_hex_alpha ch then
        Next (cu_next src (s'\<lparr>cu_decoded := (ch OR 0x20) - c8 CHR ''a'' + 10, cu_state := sw_quoted_second\<rparr>))
      else Stop (Cu_invalid, s'))"

text \<open>The second hexadecimal digit: the decoded byte becomes \<open>ch\<close> and is looked at again in
  \<open>quoted_state\<close>, except that \<open>%\<close>, \<open>#\<close> and \<open>?\<close> are copied and \<open>\0\<close> is refused.\<close>

fun cu_quoted_second_step :: "u_char list \<Rightarrow> complex_uri \<Rightarrow>
    (complex_uri, cu_exit \<times> complex_uri) outcome" where
  "cu_quoted_second_step src s =
     (if is_digit (cu_ch s) then
        (let ch = push_bit 4 (cu_decoded s) + cu_ch s - c8 CHR ''0''; s' = s\<lparr>cu_ch := ch\<rparr> in
         if ch = c8 CHR ''%'' \<or> ch = c8 CHR ''#'' then
           Next (cu_next src (cu_put ch (s'\<lparr>cu_state := Plain sw_usual\<rparr>)))
         else if ch = 0 then Stop (Cu_invalid, s')
         else Next (s'\<lparr>cu_state := Plain (cu_quoted_state s)\<rparr>))
      else if is_hex_alpha (cu_ch s) then
        (let ch = push_bit 4 (cu_decoded s) + (cu_ch s OR 0x20) - c8 CHR ''a'' + 10; s' = s\<lparr>cu_ch := ch\<rparr> in
         if ch = c8 CHR ''?'' then
           Next (cu_next src (cu_put ch (s'\<lparr>cu_state := Plain sw_usual\<rparr>)))
         else if ch = c8 CHR ''+'' then
           Next (s'\<lparr>cu_plus_in_uri := True, cu_state := Plain (cu_quoted_state s)\<rparr>)
         else Next (s'\<lparr>cu_state := Plain (cu_quoted_state s)\<rparr>))
      else Stop (Cu_invalid, s))"

text \<open>One pass of \<open>while (p <= r->uri_end) { switch (state) ... }\<close>.\<close>

definition cu_step :: "u_char list \<Rightarrow> bool \<Rightarrow> complex_uri \<Rightarrow>
    (complex_uri, cu_exit \<times> complex_uri) outcome" where
  "cu_step src merge_slashes s =
     (case cu_state s of
        Plain sw_usual \<Rightarrow> cu_usual_step src s
      | Plain sw_slash \<Rightarrow> cu_slash_step src merge_slashes s
      | Plain sw_dot \<Rightarrow> cu_dot_step src s
      | Plain sw_dot_dot \<Rightarrow> cu_dot_dot_step src s
      | sw_quoted \<Rightarrow> cu_quoted_step src s
      | sw_quoted_second \<Rightarrow> cu_quoted_second_step src s)"

text \<open>Every pass reads a byte, or leaves the second quoted state for an unquoted one.\<close>

lemmas cu_defs = cu_next_def cu_put_def cu_quote_def cu_args_def

lemma cu_step_progress:
  assumes "cu_step src m s = Next s'"
  shows "cu_p s' = Suc (cu_p s) \<or>
    (cu_p s' = cu_p s \<and> cu_state s = sw_quoted_second \<and> cu_state s' \<noteq> sw_quoted_second)"
  using assms
  by (auto simp: cu_step_def cu_defs Let_def split: cu_state.splits cu_plain.splits if_splits option.splits)

function cu_loop :: "u_char list \<Rightarrow> nat \<Rightarrow> bool \<Rightarrow> complex_uri \<Rightarrow> cu_exit \<times> complex_uri" where
  "cu_loop src uri_end merge_slashes s =
     (if cu_p s \<le> uri_end
      then (case cu_step src merge_slashes s of
              Next s' \<Rightarrow> cu_loop src uri_end merge_slashes s'
            | Stop e \<Rightarrow> e)
      else (Cu_done, s))"
  by pat_completeness auto
termination
proof (relation "measure (\<lambda>(src, uri_end, m, s).
    2 * (Suc uri_end - cu_p s) + (if cu_state s = sw_quoted_second then 1 else 0))", goal_cases)
  case (2 src uri_end m s s')
  from cu_step_progress[OF 2(2)] 2(1) show ?case by auto
qed simp

declare cu_loop.simps [simp del]

text \<open>The \<open>args\<close> loop: the arguments end at a \<open>#\<close>.\<close>

function cu_args_loop :: "u_char list \<Rightarrow> nat \<Rightarrow> nat \<Rightarrow> nat option" where
  "cu_args_loop src uri_end p =
     (if p < uri_end then (if src ! p = c8 CHR ''#'' then Some (Suc p) else cu_args_loop src uri_end (Suc p))
      else None)"
  by pat_completeness auto
termination
  by (relation "measure (\<lambda>(src, uri_end, p). uri_end - p)") auto

declare cu_args_loop.simps [simp del]

record complex_uri_result =
  cr_uri :: "u_char list"
  cr_exten :: "u_char list option"
  cr_args :: "(nat \<times> nat) option"
  cr_args_start :: ngx_ptr
  cr_plus_in_uri :: bool
  cr_quoted_uri :: bool

definition cu_result :: "complex_uri \<Rightarrow> (nat \<times> nat) option \<Rightarrow> ngx_ptr \<Rightarrow> complex_uri_result" where
  "cu_result s args args_start =
     \<lparr>cr_uri = cu_out s, cr_exten = map_option (\<lambda>e. drop e (cu_out s)) (cu_uri_ext s),
      cr_args = args, cr_args_start = args_start,
      cr_plus_in_uri = cu_plus_in_uri s, cr_quoted_uri = cu_quoted_uri s\<rparr>"

definition cu_init :: "u_char list \<Rightarrow> nat \<Rightarrow> bool \<Rightarrow> bool \<Rightarrow> complex_uri" where
  "cu_init src uri_start plus_in_uri quoted_uri =
     \<lparr>cu_state = Plain sw_usual, cu_quoted_state = sw_usual, cu_p = Suc uri_start,
      cu_ch = src ! uri_start, cu_decoded = 0, cu_out = [], cu_uri_ext = None, cu_args_start = None,
      cu_plus_in_uri = plus_in_uri, cu_quoted_uri = quoted_uri\<rparr>"

text \<open>\<^term>\<open>None\<close> is \<open>NGX_HTTP_PARSE_INVALID_REQUEST\<close>.\<close>

definition ngx_http_parse_complex_uri :: "u_char list \<Rightarrow> nat \<Rightarrow> nat \<Rightarrow> bool \<Rightarrow> bool \<Rightarrow> bool \<Rightarrow>
    complex_uri_result option" where
  "ngx_http_parse_complex_uri src uri_start uri_end merge_slashes plus_in_uri quoted_uri =
     (case cu_loop src uri_end merge_slashes (cu_init src uri_start plus_in_uri quoted_uri) of
        (Cu_done, s) \<Rightarrow> Some (cu_result s None (cu_args_start s))
      | (Cu_args, s) \<Rightarrow>
          (case cu_args_loop src uri_end (cu_p s) of
             None \<Rightarrow> Some (cu_result s None (cu_args_start s))
           | Some p \<Rightarrow>
               Some (cu_result s (map_option (\<lambda>a. (a, p - 1 - a)) (cu_args_start s)) None))
      | (Cu_invalid, s) \<Rightarrow> None)"

section \<open>Specification: decode, split into segments, resolve\<close>

text \<open>
  What the pass computes, in three separate stages. \<open>path_decode\<close> takes the path off the front of
  the request target (an unescaped \<open>?\<close> or \<open>#\<close> ends it) and undoes the percent escapes; an escape
  cut short by the end of the target is dropped without an error, as in the code.
\<close>

definition is_xdigit :: "u_char \<Rightarrow> bool" where
  "is_xdigit c \<longleftrightarrow> is_digit c \<or> is_hex_alpha c"

definition xdigit_value :: "u_char \<Rightarrow> u_char" where
  "xdigit_value c = (if is_digit c then c - c8 CHR ''0'' else (c OR 0x20) - c8 CHR ''a'' + 10)"

fun path_decode :: "u_char list \<Rightarrow> u_char list option" where
  "path_decode [] = Some []"
| "path_decode (c # cs) =
     (if c = c8 CHR ''?'' \<or> c = c8 CHR ''#'' then Some []
      else if c = c8 CHR ''%'' then
        (case cs of
           [] \<Rightarrow> Some []
         | [a] \<Rightarrow> if is_xdigit a then Some [] else None
         | a # b # r \<Rightarrow>
             if is_xdigit a \<and> is_xdigit b \<and> push_bit 4 (xdigit_value a) + xdigit_value b \<noteq> 0
             then map_option (Cons (push_bit 4 (xdigit_value a) + xdigit_value b)) (path_decode r)
             else None)
      else map_option (Cons c) (path_decode cs))"

text \<open>The segments of a path: the parts between the slashes.\<close>

fun segs :: "u_char list \<Rightarrow> u_char list list" where
  "segs [] = [[]]"
| "segs (c # cs) = (if c = c8 CHR ''/'' then [] # segs cs
     else (case segs cs of x # xs \<Rightarrow> (c # x) # xs | [] \<Rightarrow> [[c]]))"

abbreviation dot :: "u_char list" where "dot \<equiv> [46]"
abbreviation dotdot :: "u_char list" where "dotdot \<equiv> [46, 46]"

text \<open>
  The segments kept so far are a stack, the last one on top. \<open>..\<close> removes the top one; when that
  is empty (possible only when slashes are not merged) the one below goes with it.
\<close>

fun pop_seg :: "u_char list list \<Rightarrow> u_char list list option" where
  "pop_seg [] = None"
| "pop_seg (x # st) = (if x \<noteq> [] then Some st else case st of [] \<Rightarrow> None | _ # st' \<Rightarrow> Some st')"

fun dot_resolve :: "bool \<Rightarrow> u_char list list \<Rightarrow> u_char list list \<Rightarrow> u_char list list option" where
  "dot_resolve m st [] = Some (rev st)"
| "dot_resolve m st [x] = Some (rev (x # st))"
| "dot_resolve m st (x # y # ys) =
     (if x = [] then dot_resolve m (if m then st else [] # st) (y # ys)
      else if x = dot then dot_resolve m st (y # ys)
      else if x = dotdot then
        (case pop_seg st of None \<Rightarrow> None | Some st' \<Rightarrow> dot_resolve m st' (y # ys))
      else dot_resolve m (x # st) (y # ys))"

definition seg_path :: "u_char list list \<Rightarrow> u_char list" where
  "seg_path ss = concat (map ((#) (c8 CHR ''/'')) ss)"

definition uri_spec :: "bool \<Rightarrow> u_char list \<Rightarrow> u_char list option" where
  "uri_spec m uri = Option.bind (path_decode uri) (\<lambda>d. map_option seg_path (dot_resolve m [] (segs (tl d))))"

section \<open>Facts on the specification\<close>

lemma segs_not_Nil [simp]: "segs d \<noteq> []"
  by (induction d) (auto split: list.split)

lemma segs_Cons_no_slash: "c \<noteq> 47 \<Longrightarrow> segs (c # cs) = (c # hd (segs cs)) # tl (segs cs)"
  by (cases "segs cs") auto

lemma segs_no_slash: "list_all (\<lambda>x. 47 \<notin> set x) (segs d)"
proof (induction d)
  case (Cons c d)
  then show ?case by (cases "segs d") auto
qed simp

lemma segs_slash_free: "47 \<notin> set x \<Longrightarrow> segs x = [x]"
  by (induction x) (auto split: list.split)

lemma segs_append_slash: "47 \<notin> set x \<Longrightarrow> segs (x @ 47 # d) = x # segs d"
  by (induction x) (auto split: list.split)

lemma seg_path_Cons [simp]: "seg_path (x # xs) = 47 # x @ seg_path xs"
  by (simp add: seg_path_def)

lemma seg_path_Nil [simp]: "seg_path [] = []"
  by (simp add: seg_path_def)

lemma segs_seg_path:
  "list_all (\<lambda>x. 47 \<notin> set x) ss \<Longrightarrow> ss \<noteq> [] \<Longrightarrow> segs (tl (seg_path ss)) = ss"
proof (induction ss)
  case (Cons x ss)
  then show ?case
    by (cases ss) (auto simp: segs_slash_free segs_append_slash)
qed simp

lemma pop_seg_all: "pop_seg st = Some st' \<Longrightarrow> list_all P st \<Longrightarrow> list_all P st'"
  by (cases st) (auto split: if_splits list.splits)

lemma pop_seg_length: "pop_seg st = Some st' \<Longrightarrow> length (concat st') + length st' < length (concat st) + length st"
  by (cases st) (auto split: if_splits list.splits)

text \<open>
  A segment that is kept below the last one is none of \<open>.\<close> and \<open>..\<close>, and not empty when slashes
  are merged.
\<close>

definition plain_seg :: "bool \<Rightarrow> u_char list \<Rightarrow> bool" where
  "plain_seg m x \<longleftrightarrow> x \<noteq> dot \<and> x \<noteq> dotdot \<and> (m \<longrightarrow> x \<noteq> []) \<and> 47 \<notin> set x"

lemma dot_resolve_plain:
  assumes "dot_resolve m st xs = Some ss" "list_all (plain_seg m) st" "xs \<noteq> []"
    "list_all (\<lambda>x. 47 \<notin> set x) xs"
  shows "ss \<noteq> [] \<and> list_all (plain_seg m) (butlast ss) \<and> List.last ss = List.last xs"
  using assms
proof (induction m st xs rule: dot_resolve.induct)
  case (2 m st x)
  then show ?case by (auto simp: list_all_iff)
next
  case (3 m st x y ys)
  show ?case
  proof (cases "x = dotdot")
    case True
    with 3 show ?thesis
      by (auto split: option.splits dest: pop_seg_all)
  next
    case False
    with 3 show ?thesis
      by (auto simp: plain_seg_def split: if_splits)
  qed
qed simp

lemma dot_resolve_length:
  "dot_resolve m st xs = Some ss \<Longrightarrow>
     length (concat ss) + length ss \<le> length (concat st) + length st + length (concat xs) + length xs"
proof (induction m st xs rule: dot_resolve.induct)
  case (3 m st x y ys)
  show ?case
  proof (cases "x = dotdot")
    case True
    with 3 show ?thesis by (fastforce split: option.splits dest!: pop_seg_length)
  next
    case False
    with 3 show ?thesis by (force split: if_splits)
  qed
qed (auto simp: rev_concat[symmetric] length_concat rev_map[symmetric] sum_list_rev)

lemma segs_length: "length (concat (segs d)) + length (segs d) = Suc (length d)"
proof (induction d)
  case (Cons c d)
  then show ?case by (cases "segs d") auto
qed simp

lemma seg_path_length: "length (seg_path ss) = length (concat ss) + length ss"
  by (induction ss) auto

lemma path_decode_length: "path_decode uri = Some d \<Longrightarrow> length d \<le> length uri"
proof (induction uri arbitrary: d rule: path_decode.induct)
  case (2 c cs)
  then show ?case
    by (fastforce split: if_splits list.splits)
qed simp

section \<open>The machine implements the specification\<close>

text \<open>The state of the machine says what the current segment is so far.\<close>

definition seg_state :: "u_char list \<Rightarrow> cu_plain" where
  "seg_state cur = (if cur = [] then sw_slash else if cur = dot then sw_dot
     else if cur = dotdot then sw_dot_dot else sw_usual)"

definition cu_rep :: "complex_uri \<Rightarrow> u_char list list \<Rightarrow> u_char list \<Rightarrow> bool" where
  "cu_rep s st cur \<longleftrightarrow> cu_out s = seg_path (rev st) @ 47 # cur \<and> 47 \<notin> set cur \<and>
     list_all (\<lambda>x. 47 \<notin> set x) st"

text \<open>One byte of the decoded path, on the stack.\<close>

definition path_byte :: "bool \<Rightarrow> u_char list list \<Rightarrow> u_char list \<Rightarrow> u_char \<Rightarrow>
    (u_char list list \<times> u_char list) option" where
  "path_byte m st cur c =
     (if c \<noteq> 47 then Some (st, cur @ [c])
      else if cur = [] then Some (if m then st else [] # st, [])
      else if cur = dot then Some (st, [])
      else if cur = dotdot then map_option (\<lambda>st'. (st', [])) (pop_seg st)
      else Some (cur # st, []))"

lemma seg_path_append [simp]: "seg_path (xs @ ys) = seg_path xs @ seg_path ys"
  by (simp add: seg_path_def)

lemma cu_back_append: "n \<le> length a \<Longrightarrow> cu_back (a @ b) n = cu_back a n"
  by (induction n) (auto simp: nth_append)

lemma cu_back_skip:
  "47 \<notin> set x \<Longrightarrow> cu_back (a @ x @ b) (length a + length x) = cu_back a (length a)"
proof (induction x arbitrary: b rule: rev_induct)
  case (snoc c x)
  from snoc.prems have "47 \<notin> set x" "c \<noteq> 47" by auto
  with snoc.IH[of "c # b"] show ?case by (simp add: nth_append)
qed (simp add: cu_back_append)

lemma cu_back_slash: "cu_back (a @ [47]) (Suc (length a)) = Some (Suc (length a))"
  by simp

text \<open>The backwards search for a slash pops the stack.\<close>

lemma cu_back_pop:
  assumes "list_all (\<lambda>x. 47 \<notin> set x) st" "out = seg_path (rev st) @ 47 # dotdot"
  shows "cu_back out (length out - 4) =
    map_option (\<lambda>st'. Suc (length (seg_path (rev st')))) (pop_seg st)"
proof (cases st)
  case Nil
  with assms show ?thesis by simp
next
  case (Cons x st1)
  show ?thesis
  proof (cases "x = []")
    case False
    then obtain y c where x: "x = y @ [c]" by (metis rev_exhaust)
    have "cu_back ((seg_path (rev st1) @ [47]) @ y @ [c, 47, 46, 46])
        (length (seg_path (rev st1) @ [47]) + length y) = Some (Suc (length (seg_path (rev st1))))"
      using assms(1) Cons x by (subst cu_back_skip) auto
    with assms(2) Cons x show ?thesis by simp
  next
    case True
    show ?thesis
    proof (cases st1)
      case Nil
      with assms Cons True show ?thesis by simp
    next
      case (Cons z st2)
      have "cu_back ((seg_path (rev st2) @ [47]) @ z @ [47, 47, 46, 46])
          (length (seg_path (rev st2) @ [47]) + length z) = Some (Suc (length (seg_path (rev st2))))"
        using assms(1) \<open>st = x # st1\<close> Cons by (subst cu_back_skip) auto
      with assms(2) Cons True \<open>st = x # st1\<close> show ?thesis by simp
    qed
  qed
qed

lemma pop_seg_take:
  assumes "pop_seg st = Some st'"
  shows "take (Suc (length (seg_path (rev st')))) (seg_path (rev st) @ 47 # b) = seg_path (rev st') @ [47]"
  using assms by (cases st) (auto split: if_splits list.splits)

text \<open>One pass on a byte of the path, raw or decoded: the current segment grows, or a slash
  closes it.\<close>

lemma cu_step_byte:
  assumes "cu_state s = Plain (seg_state cur)" "cu_rep s st cur"
    and "cu_ch s \<notin> {37, 63, 35}"
  shows "case path_byte m st cur (cu_ch s) of
      None \<Rightarrow> \<exists>s'. cu_step src m s = Stop (Cu_invalid, s')
    | Some (st', cur') \<Rightarrow> \<exists>s'. cu_step src m s = Next s' \<and>
        cu_state s' = Plain (seg_state cur') \<and> cu_rep s' st' cur' \<and>
        cu_p s' = Suc (cu_p s) \<and> cu_ch s' = src ! cu_p s"
proof (cases "cu_ch s = 47")
  case False
  show ?thesis
    using assms False
    by (auto simp: path_byte_def cu_step_def seg_state_def cu_defs Let_def cu_rep_def)
next
  case True
  show ?thesis
  proof (cases "cur = dotdot")
    case True': True
    hence st: "cu_state s = Plain sw_dot_dot" using assms(1) by (simp add: seg_state_def)
    have "cu_back (cu_out s) (length (cu_out s) - 4) =
      map_option (\<lambda>st'. Suc (length (seg_path (rev st')))) (pop_seg st)"
      using cu_back_pop[of st "cu_out s"] assms(2) True' by (auto simp: cu_rep_def)
    with True True' st assms(2) show ?thesis
      by (cases "pop_seg st")
         (auto simp: path_byte_def cu_step_def seg_state_def cu_defs Let_def cu_rep_def pop_seg_take simp del: take_append
          intro: pop_seg_all)
  next
    case False
    with True assms(1,2) show ?thesis
      by (auto simp: path_byte_def cu_step_def seg_state_def cu_defs Let_def cu_rep_def butlast_append)
  qed
qed

text \<open>The value of an escape, and in which branch its byte can be which.\<close>

lemma unat_add_low:
  assumes "unat (x :: u_char) mod 16 = 0" "unat y < 16"
  shows "unat (x + y) mod 16 = unat y"
proof -
  have "unat (x + y) mod 16 = (unat x + unat y) mod 256 mod 16" by (simp add: unat_word_ariths)
  also have "\<dots> = (unat x + unat y) mod 16" by (rule mod_mod_cancel) simp
  also have "\<dots> = unat y" using assms by (subst mod_add_left_eq[symmetric]) simp
  finally show ?thesis .
qed

lemma xbyte_low:
  "is_xdigit b \<Longrightarrow> (push_bit 4 (xdigit_value a) + xdigit_value b) AND 15 = xdigit_value b"
proof -
  assume "is_xdigit b"
  hence "xdigit_value b < 16"
    unfolding is_xdigit_def xdigit_value_def
    by (auto simp: char_class_simps word_less_nat_alt word_le_nat_alt unat_sub_if_size
        unat_word_ariths word_size)
  hence low: "unat (xdigit_value b) < 16" by (simp add: word_less_nat_alt)
  have "unat (push_bit 4 (xdigit_value a) :: u_char) mod 16 = 0"
    by (simp add: push_bit_eq_mult unat_word_ariths mod_mod_cancel)
  from this low have "unat (push_bit 4 (xdigit_value a) + xdigit_value b) mod 16 = unat (xdigit_value b)"
    by (rule unat_add_low)
  thus ?thesis
    by (simp add: and_masks word_eq_iff_unsigned[where ?'a = nat] unsigned_take_bit_eq
        take_bit_eq_mod unat_mod_distrib)
qed

lemma xdigit_value_ge:
  "is_digit b \<Longrightarrow> xdigit_value b \<le> 9" "\<not> is_digit b \<Longrightarrow> is_hex_alpha b \<Longrightarrow> 10 \<le> xdigit_value b"
  unfolding xdigit_value_def
  by (auto simp: char_class_simps word_less_nat_alt word_le_nat_alt unat_sub_if_size
      unat_word_ariths word_size)

lemma xbyte_digit:
  assumes "is_xdigit b" "push_bit 4 (xdigit_value a) + xdigit_value b = c"
  shows "is_digit b \<longleftrightarrow> c AND 15 \<le> 9"
  using xbyte_low[OF assms(1), of a] xdigit_value_ge[of b] assms
  by (cases "is_digit b") (auto simp: is_xdigit_def not_le word_less_nat_alt word_le_nat_alt)

text \<open>The byte after both digits are read: where the machine stands.\<close>

definition cu_escaped :: "u_char list \<Rightarrow> complex_uri \<Rightarrow> u_char \<Rightarrow> complex_uri \<Rightarrow> bool" where
  "cu_escaped src s c s' \<longleftrightarrow>
     (if c \<in> {37, 35, 63}
      then cu_state s' = Plain sw_usual \<and> cu_out s' = cu_out s @ [c] \<and>
        cu_p s' = Suc (cu_p s) \<and> cu_ch s' = src ! cu_p s
      else cu_state s' = Plain (cu_quoted_state s) \<and> cu_out s' = cu_out s \<and>
        cu_p s' = cu_p s \<and> cu_ch s' = c)"

lemma cu_quoted_second:
  assumes "cu_state s = sw_quoted_second" "cu_decoded s = xdigit_value a"
    and "c = push_bit 4 (xdigit_value a) + xdigit_value (cu_ch s)"
  shows "if is_xdigit (cu_ch s) \<and> c \<noteq> 0
    then \<exists>s'. cu_step src m s = Next s' \<and> cu_escaped src s c s'
    else \<exists>s'. cu_step src m s = Stop (Cu_invalid, s')"
proof (cases "is_xdigit (cu_ch s)")
  case False
  with assms(1) show ?thesis by (simp add: cu_step_def is_xdigit_def)
next
  case x: True
  show ?thesis
  proof (cases "is_digit (cu_ch s)")
    case True
    hence "c = push_bit 4 (cu_decoded s) + cu_ch s - 48"
      using assms by (simp add: xdigit_value_def)
    moreover have "c \<noteq> 63" using xbyte_digit[OF x assms(3)[symmetric]] True by auto
    ultimately show ?thesis
      using assms(1) x True by (auto simp: cu_step_def cu_escaped_def Let_def cu_defs)
  next
    case False
    hence "c = push_bit 4 (cu_decoded s) + (cu_ch s OR 0x20) - 97 + 10" "is_hex_alpha (cu_ch s)"
      using assms x by (auto simp: xdigit_value_def is_xdigit_def)
    moreover have "c \<noteq> 37" "c \<noteq> 35" "c \<noteq> 0" using xbyte_digit[OF x assms(3)[symmetric]] False by auto
    ultimately show ?thesis
      using assms(1) x False by (auto simp: cu_step_def cu_escaped_def Let_def cu_defs)
  qed
qed

lemma cu_quoted_first:
  assumes "cu_state s = Plain (seg_state cur)" "cu_ch s = 37"
  shows "\<exists>s1. cu_step src m s = Next s1 \<and> cu_state s1 = sw_quoted \<and>
    cu_quoted_state s1 = seg_state cur \<and> cu_out s1 = cu_out s \<and> cu_p s1 = Suc (cu_p s) \<and>
    cu_ch s1 = src ! cu_p s"
  using assms by (auto simp: cu_step_def seg_state_def cu_defs)

lemma cu_quoted_mid:
  assumes "cu_state s = sw_quoted"
  shows "if is_xdigit (cu_ch s)
    then \<exists>s'. cu_step src m s = Next s' \<and> cu_state s' = sw_quoted_second \<and>
      cu_decoded s' = xdigit_value (cu_ch s) \<and> cu_quoted_state s' = cu_quoted_state s \<and>
      cu_out s' = cu_out s \<and> cu_p s' = Suc (cu_p s) \<and> cu_ch s' = src ! cu_p s
    else \<exists>s'. cu_step src m s = Stop (Cu_invalid, s')"
  using assms by (auto simp: cu_step_def cu_defs Let_def is_xdigit_def xdigit_value_def)

section \<open>The loop\<close>

definition cu_end :: "cu_exit \<times> complex_uri \<Rightarrow> u_char list option" where
  "cu_end x = (if fst x = Cu_invalid then None else Some (cu_out (snd x)))"

lemma cu_end_invalid [simp]: "cu_end (Cu_invalid, s) = None"
  by (simp add: cu_end_def)

definition onto :: "u_char list \<Rightarrow> u_char list \<Rightarrow> u_char list list" where
  "onto cur d = (cur @ hd (segs d)) # tl (segs d)"

lemma dot_resolve_byte:
  "dot_resolve m st (onto cur (c # d)) =
     Option.bind (path_byte m st cur c) (\<lambda>(st', cur'). dot_resolve m st' (onto cur' d))"
proof (cases "c = 47")
  case True
  obtain y ys where "segs d = y # ys" by (meson segs_not_Nil neq_Nil_conv)
  with True show ?thesis
    by (auto simp: path_byte_def onto_def split: option.split)
next
  case False
  then show ?thesis
    by (simp add: path_byte_def onto_def segs_Cons_no_slash del: segs.simps)
qed

text \<open>The current state of the machine as a specification of what is still to come.\<close>

definition rest_spec :: "bool \<Rightarrow> u_char list list \<Rightarrow> u_char list \<Rightarrow> u_char list \<Rightarrow> u_char list option" where
  "rest_spec m st cur rest =
     Option.bind (path_decode rest) (\<lambda>d. map_option seg_path (dot_resolve m st (onto cur d)))"

lemma rest_spec_Nil [simp]: "rest_spec m st cur [] = Some (seg_path (rev st) @ 47 # cur)"
  by (simp add: rest_spec_def onto_def)

lemma rest_spec_byte:
  assumes "path_decode rest = map_option (Cons c) (path_decode rest')"
  shows "rest_spec m st cur rest =
    Option.bind (path_byte m st cur c) (\<lambda>(st', cur'). rest_spec m st' cur' rest')"
  using assms by (cases "path_decode rest'"; cases "path_byte m st cur c")
    (auto simp: rest_spec_def dot_resolve_byte)

text \<open>An unrolling of the loop in terms of one pass.\<close>

lemma cu_loop_Next:
  "cu_step src m s = Next s' \<Longrightarrow> cu_p s \<le> e \<Longrightarrow> cu_loop src e m s = cu_loop src e m s'"
  by (simp add: cu_loop.simps)

lemma cu_loop_Stop:
  "cu_step src m s = Stop x \<Longrightarrow> cu_p s \<le> e \<Longrightarrow> cu_loop src e m s = x"
  by (simp add: cu_loop.simps)

lemma cu_loop_end: "e < cu_p s \<Longrightarrow> cu_loop src e m s = (Cu_done, s)"
  by (simp add: cu_loop.simps)

lemma path_decode_escape:
  "path_decode (37 # a # b # r) =
     (if is_xdigit a \<and> is_xdigit b \<and> push_bit 4 (xdigit_value a) + xdigit_value b \<noteq> 0
      then map_option (Cons (push_bit 4 (xdigit_value a) + xdigit_value b)) (path_decode r) else None)"
  by simp

text \<open>The passes over one escape, complete or cut short by the end of the target.\<close>

lemma cu_loop_escape:
  assumes "cu_state s = Plain (seg_state cur)" "cu_ch s = 37" "cu_p s = Suc p" "Suc (Suc p) < e"
    and c: "c = push_bit 4 (xdigit_value (src ! Suc p)) + xdigit_value (src ! Suc (Suc p))"
  shows "if is_xdigit (src ! Suc p) \<and> is_xdigit (src ! Suc (Suc p)) \<and> c \<noteq> 0
    then \<exists>t s2. cu_loop src e m s = cu_loop src e m t \<and> cu_escaped src s2 c t \<and>
      cu_out s2 = cu_out s \<and> cu_p s2 = Suc (Suc (Suc p)) \<and> cu_quoted_state s2 = seg_state cur
    else cu_end (cu_loop src e m s) = None"
proof -
  obtain s1 where s1: "cu_step src m s = Next s1" "cu_state s1 = sw_quoted"
    "cu_quoted_state s1 = seg_state cur" "cu_out s1 = cu_out s" "cu_p s1 = Suc (Suc p)"
    "cu_ch s1 = src ! Suc p"
    using cu_quoted_first[OF assms(1,2), of src m] assms(3) by auto
  have l1: "cu_loop src e m s = cu_loop src e m s1" using s1(1) assms by (intro cu_loop_Next) auto
  show ?thesis
  proof (cases "is_xdigit (src ! Suc p)")
    case False
    with cu_quoted_mid[OF s1(2), of src m] s1 assms(4) show ?thesis
      unfolding l1 by (auto simp: cu_loop_Stop cu_end_def)
  next
    case True
    with cu_quoted_mid[OF s1(2), of src m] s1 obtain s2 where
      s2: "cu_step src m s1 = Next s2" "cu_state s2 = sw_quoted_second"
        "cu_decoded s2 = xdigit_value (src ! Suc p)" "cu_quoted_state s2 = seg_state cur"
        "cu_out s2 = cu_out s" "cu_p s2 = Suc (Suc (Suc p))" "cu_ch s2 = src ! Suc (Suc p)" by auto
    have l2: "cu_loop src e m s1 = cu_loop src e m s2" using s2(1) s1 assms by (intro cu_loop_Next) auto
    from cu_quoted_second[OF s2(2,3), of c src m] True s2 c assms(4) show ?thesis
      unfolding l1 l2 by (auto simp: cu_loop_Stop cu_loop_Next cu_end_def split: if_splits)
  qed
qed

lemma cu_loop_escape_cut:
  assumes "cu_state s = Plain (seg_state cur)" "cu_ch s = 37" "cu_p s = Suc p" "p < e" "e \<le> Suc (Suc p)"
  shows "cu_end (cu_loop src e m s) =
    (if e = Suc (Suc p) \<and> \<not> is_xdigit (src ! Suc p) then None else Some (cu_out s))"
proof -
  obtain s1 where s1: "cu_step src m s = Next s1" "cu_state s1 = sw_quoted"
    "cu_out s1 = cu_out s" "cu_p s1 = Suc (Suc p)" "cu_ch s1 = src ! Suc p"
    using cu_quoted_first[OF assms(1,2), of src m] assms(3) by auto
  have l1: "cu_loop src e m s = cu_loop src e m s1" using s1(1) assms by (intro cu_loop_Next) auto
  from cu_quoted_mid[OF s1(2), of src m] s1 assms(4,5) show ?thesis
    unfolding l1 by (cases "e = Suc p")
      (auto simp: cu_loop_Stop cu_loop_Next cu_loop_end cu_end_def split: if_splits)
qed

text \<open>From any point of the loop the machine computes what the specification says of the rest.\<close>

lemma cu_loop_spec:
  assumes "cu_state s = Plain (seg_state cur)" "cu_rep s st cur"
    and "e \<le> length src" "cu_p s = Suc p" "p \<le> e" "p < e \<longrightarrow> cu_ch s = src ! p"
  shows "cu_end (cu_loop src e m s) = rest_spec m st cur (between src p e)"
  using assms
proof (induction "e - p" arbitrary: s st cur p rule: less_induct)
  case less
  note rep = less.prems(1,2) and p = less.prems(4)
  have IH: "cu_end (cu_loop src e m s') = rest_spec m st' cur' (between src q e)"
    if "cu_state s' = Plain (seg_state cur')" "cu_rep s' st' cur'" "cu_p s' = Suc q"
      "cu_ch s' = src ! q" "p < q" "q \<le> e" for s' st' cur' q
    using that less.prems(3) by (intro less.hyps) auto
  text \<open>One byte of the path, whether raw (then \<open>q = Suc p\<close>) or decoded.\<close>
  have byte: "cu_end (cu_loop src e m t) = rest_spec m st cur rest"
    if "cu_state t = Plain (seg_state cur)" "cu_rep t st cur" "cu_ch t \<notin> {37, 63, 35}"
      "cu_p t = q" "p < q" "q \<le> e"
      "path_decode rest = map_option (Cons (cu_ch t)) (path_decode (between src q e))" for t q rest
    using cu_step_byte[OF that(1-3), where m = m and src = src] that(4-6) IH
    unfolding rest_spec_byte[OF that(7)]
    by (cases "path_byte m st cur (cu_ch t)")
      (auto simp: cu_loop_Next cu_loop_Stop)
  show ?case
  proof (cases "p < e")
    case False
    with less.prems show ?thesis by (simp add: cu_loop_end cu_end_def cu_rep_def)
  next
    case True
    hence ch: "cu_ch s = src ! p" and sl: "between src p e = src ! p # between src (Suc p) e"
      using less.prems by (auto simp: between_Cons)
    consider (stop) "src ! p \<in> {63, 35}" | (esc) "src ! p = 37" | (raw) "src ! p \<notin> {37, 63, 35}"
      by auto
    then show ?thesis
    proof cases
      case stop
      hence "cu_step src m s = Stop (if src ! p = 63 then (Cu_args, cu_args s) else (Cu_done, s))"
        using rep(1) ch by (auto simp: cu_step_def seg_state_def)
      from cu_loop_Stop[OF this] stop sl p True rep(2) show ?thesis
        by (auto simp: rest_spec_def onto_def cu_end_def cu_rep_def cu_args_def)
    next
      case raw
      with ch rep p True show ?thesis
        by (intro byte[of s "Suc p"]) (auto simp: sl)
    next
      case esc
      show ?thesis
      proof (cases "Suc (Suc p) < e")
        case False
        with True have e: "e = Suc p \<or> e = Suc (Suc p)" by auto
        from cu_loop_escape_cut[OF rep(1) ch[unfolded esc] p True, of src m] False e less.prems(3) rep(2) show ?thesis
          unfolding sl esc by (auto simp: between_Cons rest_spec_def onto_def cu_rep_def)
      next
        case far: True
        define c where "c = push_bit 4 (xdigit_value (src ! Suc p)) + xdigit_value (src ! Suc (Suc p))"
        have sl': "between src p e = 37 # src ! Suc p # src ! Suc (Suc p) # between src (Suc (Suc (Suc p))) e"
          unfolding sl esc using far less.prems(3) by (simp add: between_Cons)
        show ?thesis
        proof (cases "is_xdigit (src ! Suc p) \<and> is_xdigit (src ! Suc (Suc p)) \<and> c \<noteq> 0")
          case False
          with cu_loop_escape[OF rep(1) ch[unfolded esc] p far c_def, of m] show ?thesis
            unfolding sl' rest_spec_def path_decode_escape c_def[symmetric] by auto
        next
          case good: True
          with cu_loop_escape[OF rep(1) ch[unfolded esc] p far c_def, of m] obtain t s2 where
            t: "cu_loop src e m s = cu_loop src e m t" "cu_escaped src s2 c t" "cu_out s2 = cu_out s"
              "cu_p s2 = Suc (Suc (Suc p))" "cu_quoted_state s2 = seg_state cur" by auto
          have dec: "path_decode (between src p e) =
              map_option (Cons c) (path_decode (between src (Suc (Suc (Suc p))) e))"
            using good unfolding sl' path_decode_escape c_def[symmetric] by simp
          show ?thesis
          proof (cases "c \<in> {37, 35, 63}")
            case True
            hence "cu_end (cu_loop src e m t) = rest_spec m st (cur @ [c]) (between src (Suc (Suc (Suc p))) e)"
              using t rep(2) far
              by (intro IH) (auto simp: cu_escaped_def cu_rep_def seg_state_def)
            with True t(1) show ?thesis
              unfolding rest_spec_byte[OF dec] by (auto simp: path_byte_def)
          next
            case False
            with t rep(2) far dec show ?thesis
              unfolding t(1) by (intro byte) (auto simp: cu_escaped_def cu_rep_def)
          qed
        qed
      qed
    qed
  qed
qed

section \<open>Properties\<close>

text \<open>The first byte is a slash: after one pass the machine stands at the start of a segment.\<close>

lemma ngx_http_parse_complex_uri_cr_uri:
  "map_option cr_uri (ngx_http_parse_complex_uri src us ue m pl qu) =
     cu_end (cu_loop src ue m (cu_init src us pl qu))"
  by (auto simp: ngx_http_parse_complex_uri_def cu_end_def cu_result_def
      split: prod.splits cu_exit.splits option.splits)

lemma cu_loop_start:
  assumes "src ! us = 47" "us < ue" "ue < length src"
  shows "cu_end (cu_loop src ue m (cu_init src us pl qu)) = uri_spec m (between src us ue)"
proof -
  let ?s = "cu_next src (cu_put 47 ((cu_init src us pl qu)\<lparr>cu_uri_ext := None, cu_state := Plain sw_slash\<rparr>))"
  have "cu_loop src ue m (cu_init src us pl qu) = cu_loop src ue m ?s"
    using assms by (intro cu_loop_Next) (auto simp: cu_step_def cu_init_def)
  moreover have "cu_end (cu_loop src ue m ?s) = rest_spec m [] [] (between src (Suc us) ue)"
    using assms by (intro cu_loop_spec) (auto simp: cu_defs cu_init_def seg_state_def cu_rep_def)
  moreover have "rest_spec m [] [] (between src (Suc us) ue) = uri_spec m (between src us ue)"
    using assms by (cases "path_decode (between src (Suc us) ue)")
      (auto simp: rest_spec_def uri_spec_def between_Cons onto_def)
  ultimately show ?thesis by simp
qed

text \<open>
  C3 (refinement). On a target that starts with a slash the one-pass normaliser computes what the
  three separate stages do: decode the path, split it at the slashes, resolve the dot segments on
  a stack; and it refuses exactly the targets the stages refuse (a bad or zero escape, a \<open>..\<close>
  with nothing left to remove).\<close>

theorem complex_uri_refines_spec:
  assumes "src ! uri_start = c8 CHR ''/''" "uri_start < uri_end" "uri_end < length src"
  shows "map_option cr_uri (ngx_http_parse_complex_uri src uri_start uri_end m pl qu) =
    uri_spec m (between src uri_start uri_end)"
  using cu_loop_start[of src uri_start uri_end m pl qu] assms
  by (simp add: ngx_http_parse_complex_uri_cr_uri)

theorem complex_uri_refines_spec_witness:
  "map_option cr_uri (ngx_http_parse_complex_uri (bytes ''/a/%2E%2E/b//c HTTP'') 0 14 True False False) =
     Some (bytes ''/b/c'')"
proof -
  have "uri_spec True (between (bytes ''/a/%2E%2E/b//c HTTP'') 0 14) = Some (bytes ''/b/c'')"
    by code_simp
  thus ?thesis
    using complex_uri_refines_spec[of "bytes ''/a/%2E%2E/b//c HTTP''" 0 14 True False False] by simp
qed

lemma uri_spec_SomeE:
  assumes "uri_spec m t = Some u"
  obtains d ss where "path_decode t = Some d" "dot_resolve m [] (segs (tl d)) = Some ss"
    "u = seg_path ss" "ss \<noteq> []" "list_all (plain_seg m) (butlast ss)" "segs (tl u) = ss"
proof -
  from assms obtain d ss where d: "path_decode t = Some d" "dot_resolve m [] (segs (tl d)) = Some ss"
    "u = seg_path ss" by (auto simp: uri_spec_def bind_eq_Some_conv)
  from dot_resolve_plain[OF d(2)] segs_no_slash[of "tl d"]
  have p: "ss \<noteq> []" "list_all (plain_seg m) (butlast ss)" "List.last ss = List.last (segs (tl d))"
    by auto
  have "47 \<notin> set (List.last ss)" using segs_no_slash[of "tl d"] p(3) by (simp add: list_all_iff)
  hence "list_all (\<lambda>x. 47 \<notin> set x) (butlast ss @ [List.last ss])"
    using p(2) by (auto simp: list_all_iff plain_seg_def)
  hence "list_all (\<lambda>x. 47 \<notin> set x) ss" using p(1) by simp
  hence "segs (tl u) = ss" using p(1) d(3) by (simp add: segs_seg_path)
  with that d p show thesis by blast
qed

text \<open>
  C21 (safety). A normalised URI starts with a slash, and every segment but the last is neither
  \<open>.\<close> nor \<open>..\<close>, and not empty when slashes are merged: a prefix of directories never climbs out
  of the document root. Only the last segment can still be a dot segment.\<close>

theorem complex_uri_no_traversal:
  assumes "src ! uri_start = c8 CHR ''/''" "uri_start < uri_end" "uri_end < length src"
    and "ngx_http_parse_complex_uri src uri_start uri_end m pl qu = Some r"
  shows "hd (cr_uri r) = c8 CHR ''/'' \<and>
    list_all (\<lambda>x. x \<noteq> bytes ''.'' \<and> x \<noteq> bytes ''..'' \<and> (m \<longrightarrow> x \<noteq> [])) (butlast (segs (tl (cr_uri r))))"
proof -
  from assms have "uri_spec m (between src uri_start uri_end) = Some (cr_uri r)"
    using cu_loop_start[of src uri_start uri_end m pl qu]
      ngx_http_parse_complex_uri_cr_uri[of src uri_start uri_end m pl qu] by simp
  then obtain ss where "cr_uri r = seg_path ss" "ss \<noteq> []" "list_all (plain_seg m) (butlast ss)"
    "segs (tl (cr_uri r)) = ss" by (rule uri_spec_SomeE)
  thus ?thesis by (cases ss) (auto simp: list_all_iff plain_seg_def)
qed

theorem complex_uri_no_traversal_witness:
  "\<exists>r. ngx_http_parse_complex_uri (bytes ''/x/./y HTTP'') 0 6 True False False = Some r \<and>
     hd (cr_uri r) = 47 \<and> butlast (segs (tl (cr_uri r))) = [bytes ''x'']"
proof -
  let ?src = "bytes ''/x/./y HTTP''"
  have "uri_spec True (between ?src 0 6) = Some (bytes ''/x/y'')" by code_simp
  with cu_loop_start[of ?src 0 6 True False False]
    ngx_http_parse_complex_uri_cr_uri[of ?src 0 6 True False False]
  obtain r where r: "ngx_http_parse_complex_uri ?src 0 6 True False False = Some r" "cr_uri r = bytes ''/x/y''"
    by (cases "ngx_http_parse_complex_uri ?src 0 6 True False False") auto
  with complex_uri_no_traversal[of ?src 0 6 True False False r] show ?thesis by simp
qed

lemma path_decode_escapeD:
  assumes "path_decode (37 # a # b # r) = Some d"
  shows "\<exists>x d'. x \<noteq> 0 \<and> path_decode r = Some d' \<and> d = x # d'"
proof -
  define x where "x = push_bit 4 (xdigit_value a) + xdigit_value b"
  from assms have "x \<noteq> 0 \<and> map_option (Cons x) (path_decode r) = Some d"
    unfolding path_decode_escape x_def[symmetric] by (auto split: if_splits)
  thus ?thesis by auto
qed

lemma path_decode_nonzero: "path_decode t = Some d \<Longrightarrow> 0 \<notin> set t \<Longrightarrow> 0 \<notin> set d"
proof (induction t arbitrary: d rule: length_induct)
  case (1 t)
  show ?case
  proof (cases t)
    case (Cons c cs)
    show ?thesis
    proof (cases "c = 37")
      case False
      with 1 Cons show ?thesis by (auto split: if_splits)
    next
      case True
      show ?thesis
      proof (cases cs rule: remdups_adj.cases)
        case (3 a b r)
        with 1 Cons True obtain x d' where "x \<noteq> 0" "path_decode r = Some d'" "d = x # d'"
          by (metis path_decode_escapeD)
        moreover have "0 \<notin> set r" "length r < length t" using "1.prems"(2) Cons 3 by auto
        ultimately show ?thesis using "1.IH" by simp
      qed (use 1 Cons True in \<open>auto split: if_splits\<close>)
    qed
  qed (use 1 in simp)
qed

lemma segs_set: "\<Union> (set ` set (segs d)) \<subseteq> set d"
proof (induction d)
  case (Cons c d)
  then show ?case by (cases "segs d") auto
qed simp

lemma dot_resolve_set:
  "dot_resolve m st xs = Some ss \<Longrightarrow> set ss \<subseteq> set st \<union> set xs \<union> {[]}"
proof (induction m st xs rule: dot_resolve.induct)
  case (3 m st x y ys)
  then show ?case
    using pop_seg_all[of st _ "\<lambda>x. x \<in> set st"]
    by (fastforce simp: list_all_iff split: if_splits option.splits)
qed auto

text \<open>
  The normalised URI is never longer than the raw target, so the buffer of
  \<open>uri_end - uri_start + 1\<close> bytes \<^verbatim>\<open>ngx_http_process_request_uri\<close> allocates is large enough, and a
  target without a zero byte never yields one: the file name built from it is not cut short.\<close>

theorem complex_uri_bounds:
  assumes "src ! uri_start = c8 CHR ''/''" "uri_start < uri_end" "uri_end < length src"
    and "ngx_http_parse_complex_uri src uri_start uri_end m pl qu = Some r"
    and "0 \<notin> set (between src uri_start uri_end)"
  shows "length (cr_uri r) \<le> uri_end - uri_start \<and> 0 \<notin> set (cr_uri r)"
proof -
  let ?t = "between src uri_start uri_end"
  from assms have "uri_spec m ?t = Some (cr_uri r)"
    using cu_loop_start[of src uri_start uri_end m pl qu]
      ngx_http_parse_complex_uri_cr_uri[of src uri_start uri_end m pl qu] by simp
  then obtain d ss where d: "path_decode ?t = Some d" "dot_resolve m [] (segs (tl d)) = Some ss"
    "cr_uri r = seg_path ss" by (rule uri_spec_SomeE)
  have "d \<noteq> []" using d(1) assms(1-3) by (auto simp: between_Cons)
  hence "Suc (length (tl d)) = length d" by (cases d) auto
  moreover have "length ?t = uri_end - uri_start" using assms(3) by (simp add: between_def)
  moreover have "length (concat ss) + length ss \<le> Suc (length (tl d))"
    using dot_resolve_length[OF d(2)] segs_length[of "tl d"] by simp
  ultimately have "length (cr_uri r) \<le> uri_end - uri_start"
    using path_decode_length[OF d(1)] by (simp add: d(3) seg_path_length)
  moreover have nz: "0 \<notin> set (tl d)"
    using path_decode_nonzero[OF d(1) assms(5)] \<open>d \<noteq> []\<close> by (cases d) auto
  moreover have "0 \<notin> set (cr_uri r)"
  proof
    assume "0 \<in> set (cr_uri r)"
    then obtain x where "x \<in> set ss" "0 \<in> set x" by (auto simp: d(3) seg_path_def split: if_splits)
    moreover from this have "x \<in> set (segs (tl d))" using dot_resolve_set[OF d(2)] by auto
    ultimately show False using segs_set[of "tl d"] nz by blast
  qed
  ultimately show ?thesis by simp
qed

theorem complex_uri_bounds_witness:
  "\<exists>r. ngx_http_parse_complex_uri (bytes ''/%41 HTTP'') 0 4 True False False = Some r \<and>
     length (cr_uri r) \<le> 4 \<and> 0 \<notin> set (cr_uri r)"
proof -
  let ?src = "bytes ''/%41 HTTP''"
  have "uri_spec True (between ?src 0 4) = Some (bytes ''/A'')" by code_simp
  with cu_loop_start[of ?src 0 4 True False False]
    ngx_http_parse_complex_uri_cr_uri[of ?src 0 4 True False False]
  obtain r where r: "ngx_http_parse_complex_uri ?src 0 4 True False False = Some r"
    by (cases "ngx_http_parse_complex_uri ?src 0 4 True False False") auto
  have "0 \<notin> set (between ?src 0 4)" by (simp add: between_def)
  with complex_uri_bounds[of ?src 0 4 True False False r] r show ?thesis by simp
qed

lemma dot_resolve_plain_id:
  "list_all (plain_seg m) (butlast ss) \<Longrightarrow> dot_resolve m st ss = Some (rev st @ ss)"
proof (induction m st ss rule: dot_resolve.induct)
  case (3 m st x y ys)
  then show ?case by (auto simp: plain_seg_def)
qed auto

lemma path_decode_plain_id: "set u \<inter> {37, 63, 35} = {} \<Longrightarrow> path_decode u = Some u"
  by (induction u) auto

text \<open>
  Normalisation is idempotent: a normalised URI that holds no \<open>%\<close>, \<open>?\<close> or \<open>#\<close>
  normalises to itself, in either slash mode it was produced under.\<close>

theorem complex_uri_idempotent:
  assumes "src ! uri_start = c8 CHR ''/''" "uri_start < uri_end" "uri_end < length src"
    and "ngx_http_parse_complex_uri src uri_start uri_end m pl qu = Some r"
    and "set (cr_uri r) \<inter> {c8 CHR ''%'', c8 CHR ''?'', c8 CHR ''#''} = {}"
  shows "map_option cr_uri (ngx_http_parse_complex_uri (cr_uri r @ [c]) 0 (length (cr_uri r)) m pl' qu') =
    Some (cr_uri r)"
proof -
  from assms have "uri_spec m (between src uri_start uri_end) = Some (cr_uri r)"
    using cu_loop_start[of src uri_start uri_end m pl qu]
      ngx_http_parse_complex_uri_cr_uri[of src uri_start uri_end m pl qu] by simp
  then obtain ss where ss: "cr_uri r = seg_path ss" "ss \<noteq> []" "list_all (plain_seg m) (butlast ss)"
    "segs (tl (cr_uri r)) = ss" by (rule uri_spec_SomeE)
  have "uri_spec m (cr_uri r) = Some (cr_uri r)"
    using ss assms(5) by (simp add: uri_spec_def path_decode_plain_id dot_resolve_plain_id)
  moreover have "between (cr_uri r @ [c]) 0 (length (cr_uri r)) = cr_uri r" by (simp add: between_def)
  moreover have "(cr_uri r @ [c]) ! 0 = 47" "0 < length (cr_uri r)" using ss(1,2) by (cases ss; simp)+
  ultimately show ?thesis
    using cu_loop_start[of "cr_uri r @ [c]" 0 "length (cr_uri r)" m pl' qu']
    by (simp add: ngx_http_parse_complex_uri_cr_uri)
qed

theorem complex_uri_idempotent_witness:
  "map_option cr_uri (ngx_http_parse_complex_uri (bytes ''/a/b '') 0 4 True False False) = Some (bytes ''/a/b'')"
proof -
  let ?src = "bytes ''/a/./b HTTP''"
  have "uri_spec True (between ?src 0 6) = Some (bytes ''/a/b'')" by code_simp
  with cu_loop_start[of ?src 0 6 True False False]
    ngx_http_parse_complex_uri_cr_uri[of ?src 0 6 True False False]
  obtain r where r: "ngx_http_parse_complex_uri ?src 0 6 True False False = Some r" "cr_uri r = bytes ''/a/b''"
    by (cases "ngx_http_parse_complex_uri ?src 0 6 True False False") auto
  have four: "(4 :: nat) = Suc (Suc (Suc (Suc 0)))" by simp
  from complex_uri_idempotent[of ?src 0 6 True False False r "c8 CHR '' ''" False False] r
  show ?thesis unfolding four by simp
qed

text \<open>
  A dot segment at the very end of the path is not resolved: \<open>/a/..\<close> keeps its
  \<open>..\<close>, where a specification that resolves every segment (and the code itself, one slash later)
  gives the parent directory.\<close>

lemma complex_uri_last_dotdot:
  "map_option cr_uri (ngx_http_parse_complex_uri (bytes ''/a/.. HTTP'') 0 5 True False False) =
     Some (bytes ''/a/..'') \<and>
   map_option cr_uri (ngx_http_parse_complex_uri (bytes ''/a/../ HTTP'') 0 6 True False False) =
     Some (bytes ''/'')"
proof -
  have "uri_spec True (between (bytes ''/a/.. HTTP'') 0 5) = Some (bytes ''/a/..'')"
    "uri_spec True (between (bytes ''/a/../ HTTP'') 0 6) = Some (bytes ''/'')" by code_simp+
  thus ?thesis
    using cu_loop_start[of "bytes ''/a/.. HTTP''" 0 5 True False False]
      cu_loop_start[of "bytes ''/a/../ HTTP''" 0 6 True False False]
    by (simp add: ngx_http_parse_complex_uri_cr_uri)
qed

end
