(* ===== verification/Ngx_Http_Request_Uri.thy ===== *)
theory Ngx_Http_Request_Uri
  imports Ngx_Http_Complex_Uri
begin

text \<open>
  The request's URI: \<open>ngx_http_process_request_uri\<close> of \<^verbatim>\<open>src/http/ngx_http_request.c\<close> (the Unix
  build), which decides from the flags of the request line parser whether the target has to be
  normalised. Here the parser and the normaliser meet: the shortcut is right, and the buffer the
  normaliser writes to is large enough.
\<close>

section \<open>The operation\<close>

record request_uri =
  ru_uri :: "u_char list"
  ru_unparsed_uri :: "u_char list"
  ru_valid_unparsed_uri :: bool
  ru_exten :: "u_char list option"
  ru_args :: "(nat \<times> nat) option"

text \<open>\<open>r->uri.len\<close> before normalisation; one more byte is allocated.\<close>

definition ru_len :: "request_line \<Rightarrow> nat \<Rightarrow> nat \<Rightarrow> nat" where
  "ru_len r u e = (case rl_args_start r of Some a \<Rightarrow> a - 1 - u | None \<Rightarrow> e - u)"

definition ru_query :: "nat \<Rightarrow> ngx_ptr \<Rightarrow> (nat \<times> nat) option \<Rightarrow> (nat \<times> nat) option" where
  "ru_query e args_start args =
     (case args_start of Some a \<Rightarrow> if e > a then Some (a, e - a) else args | None \<Rightarrow> args)"

text \<open>\<^term>\<open>None\<close> is the answer 400; \<open>u\<close> and \<open>e\<close> are \<open>uri_start\<close> and \<open>uri_end\<close>.\<close>

definition ngx_http_process_request_uri :: "u_char list \<Rightarrow> bool \<Rightarrow> request_line \<Rightarrow> nat \<Rightarrow> nat \<Rightarrow> request_uri option" where
  "ngx_http_process_request_uri mem merge_slashes r u e =
     (if rl_complex_uri r \<or> rl_quoted_uri r then
        (case ngx_http_parse_complex_uri mem u e merge_slashes (rl_plus_in_uri r) (rl_quoted_uri r) of
           None \<Rightarrow> None
         | Some c \<Rightarrow>
             Some \<lparr>ru_uri = cr_uri c, ru_unparsed_uri = between mem u e,
               ru_valid_unparsed_uri = (\<not> rl_space_in_uri r), ru_exten = cr_exten c,
               ru_args = ru_query e (cr_args_start c) (cr_args c)\<rparr>)
      else
        Some \<lparr>ru_uri = between mem u (u + ru_len r u e), ru_unparsed_uri = between mem u e,
          ru_valid_unparsed_uri = (\<not> rl_space_in_uri r),
          ru_exten = (case rl_uri_ext r of
              None \<Rightarrow> None
            | Some x \<Rightarrow> Some (between mem x (case rl_args_start r of Some a \<Rightarrow> a - 1 | None \<Rightarrow> e))),
          ru_args = ru_query e (rl_args_start r) None\<rparr>)"

section \<open>What the flags say of the target\<close>

definition clean :: "u_char list \<Rightarrow> nat \<Rightarrow> nat \<Rightarrow> bool" where
  "clean mem u q \<longleftrightarrow> (\<forall>i. u \<le> i \<longrightarrow> i < q \<longrightarrow> mem ! i \<notin> {37, 63, 35}) \<and>
     (\<forall>i. u \<le> i \<longrightarrow> Suc i < q \<longrightarrow> mem ! i = 47 \<longrightarrow> mem ! Suc i \<notin> {47, 46})"

lemma clean_Suc:
  assumes "clean mem u p" "mem ! p \<notin> {37, 63, 35}" "mem ! (p - 1) = 47 \<longrightarrow> mem ! p \<notin> {47, 46}"
  shows "clean mem u (Suc p)"
  using assms unfolding clean_def
  by (metis (no_types, lifting) diff_Suc_1 less_Suc_eq)

lemma clean_start: "mem ! u = 47 \<Longrightarrow> clean mem u (Suc u)"
  by (auto simp: clean_def less_Suc_eq)

lemma clean_mono: "clean mem u q \<Longrightarrow> q' \<le> q \<Longrightarrow> clean mem u q'"
  by (auto simp: clean_def)

definition unflagged :: "request_line \<Rightarrow> bool" where
  "unflagged s \<longleftrightarrow> \<not> rl_complex_uri s \<and> \<not> rl_quoted_uri s"

definition path_end :: "nat \<Rightarrow> request_line \<Rightarrow> nat" where
  "path_end e s = (case rl_args_start s of None \<Rightarrow> e | Some a \<Rightarrow> a - 1)"

text \<open>The query mark is where \<open>args_start\<close> says, no escape comes before it and the extension
  ends before it.\<close>

definition args_ok :: "u_char list \<Rightarrow> nat \<Rightarrow> request_line \<Rightarrow> bool" where
  "args_ok mem u s \<longleftrightarrow> (case rl_args_start s of
       None \<Rightarrow> True
     | Some a \<Rightarrow> u < a \<and> mem ! (a - 1) = 63 \<and> (\<forall>i. u \<le> i \<longrightarrow> i < a - 1 \<longrightarrow> mem ! i \<noteq> 37) \<and>
         (case rl_uri_ext s of None \<Rightarrow> True | Some x \<Rightarrow> x \<le> a - 1))"

definition open_path :: "u_char list \<Rightarrow> nat \<Rightarrow> request_line \<Rightarrow> bool" where
  "open_path mem p s \<longleftrightarrow> (\<exists>u. rl_uri_start s = Some u \<and> u < p \<and> mem ! u = 47 \<and> args_ok mem u s \<and>
     path_end p s \<le> p \<and> (unflagged s \<longrightarrow> clean mem u (path_end p s)) \<and>
     (if rl_state s \<in> {sw_after_slash_in_uri, sw_check_uri, sw_check_uri_http_09}
      then rl_args_start s = None \<and> (\<forall>i. u \<le> i \<longrightarrow> i < p \<longrightarrow> mem ! i \<noteq> 37) \<and> ptr_in (rl_uri_ext s) u p
      else unflagged s \<longrightarrow> rl_args_start s \<noteq> None) \<and>
     (rl_state s \<in> {sw_check_uri, sw_check_uri_http_09} \<longrightarrow> mem ! (p - 1) \<noteq> 47))"

definition closed_path :: "u_char list \<Rightarrow> request_line \<Rightarrow> bool" where
  "closed_path mem s \<longleftrightarrow> (\<exists>u e. rl_uri_start s = Some u \<and> rl_uri_end s = Some e \<and> args_ok mem u s \<and>
     path_end e s \<le> e \<and> (unflagged s \<longrightarrow> clean mem u (path_end e s)))"
text \<open>How the path grows: by a byte of the path, by the byte that sets a flag, by the query
  mark, by a byte after one of these.\<close>

lemma args_okI_None: "rl_args_start s = None \<Longrightarrow> args_ok mem u s"
  by (simp add: args_ok_def)

lemma path_cong:
  assumes "rl_args_start s' = rl_args_start s" "rl_uri_ext s' = rl_uri_ext s"
  shows "args_ok mem u s' = args_ok mem u s" "path_end e s' = path_end e s"
  unfolding args_ok_def path_end_def assms by (rule refl)+

lemma path_end_Suc:
  "path_end p s \<le> p \<Longrightarrow> path_end (Suc p) s \<le> Suc p"
  "rl_args_start s \<noteq> None \<Longrightarrow> path_end (Suc p) s = path_end p s"
  by (auto simp: path_end_def split: option.splits)

lemma open_plain:
  assumes "open_path mem p s"
    and "rl_state s \<in> {sw_after_slash_in_uri, sw_check_uri, sw_check_uri_http_09}"
    and "rl_state s' \<in> {sw_after_slash_in_uri, sw_check_uri, sw_check_uri_http_09}"
    and "mem ! p \<notin> {37, 63, 35}" "rl_state s = sw_after_slash_in_uri \<longrightarrow> mem ! p \<notin> {47, 46}"
    and "rl_state s' \<noteq> sw_after_slash_in_uri \<longrightarrow> mem ! p \<noteq> 47"
    and "rl_uri_start s' = rl_uri_start s" "rl_args_start s' = rl_args_start s" "unflagged s' = unflagged s"
    and "rl_uri_ext s' = rl_uri_ext s \<or> rl_uri_ext s' = None \<or> rl_uri_ext s' = Some (Suc p)"
  shows "open_path mem (Suc p) s'"
proof -
  from assms(1,2) obtain u where u: "rl_uri_start s = Some u" "u < p" "mem ! u = 47" "rl_args_start s = None"
    "unflagged s \<longrightarrow> clean mem u p" "\<forall>i. u \<le> i \<longrightarrow> i < p \<longrightarrow> mem ! i \<noteq> 37" "ptr_in (rl_uri_ext s) u p"
    "rl_state s \<in> {sw_check_uri, sw_check_uri_http_09} \<longrightarrow> mem ! (p - 1) \<noteq> 47"
    by (auto simp: open_path_def path_end_def)
  have "unflagged s' \<longrightarrow> clean mem u (Suc p)"
    using clean_Suc[of mem u p] u(5,8) assms(2,4,5,9) by auto
  moreover have "\<forall>i. u \<le> i \<longrightarrow> i < Suc p \<longrightarrow> mem ! i \<noteq> 37" using u(6) assms(4) by (auto simp: less_Suc_eq)
  moreover have "ptr_in (rl_uri_ext s') u (Suc p)"
    using u(2,7) assms(10) by (auto simp: ptr_in_def split: option.splits)
  ultimately show ?thesis
    using u assms(3,6-8) by (auto simp: open_path_def path_end_def args_okI_None)
qed

lemma open_flag:
  assumes "open_path mem p s" "rl_state s' \<notin> {sw_after_slash_in_uri, sw_check_uri, sw_check_uri_http_09}"
    and "\<not> unflagged s'" "rl_uri_start s' = rl_uri_start s" "rl_args_start s' = rl_args_start s"
    and "rl_uri_ext s' = rl_uri_ext s"
  shows "open_path mem (Suc p) s'"
proof -
  note c = path_cong[OF assms(5,6)]
  show ?thesis
    using assms(1-4) path_end_Suc(1)[where p = p and s = s] unfolding open_path_def c assms(4) by auto
qed

lemma open_query:
  assumes "open_path mem p s" "rl_state s \<in> {sw_after_slash_in_uri, sw_check_uri, sw_check_uri_http_09}"
    and "mem ! p = 63" "rl_state s' = sw_uri" "unflagged s' = unflagged s"
    and "rl_uri_start s' = rl_uri_start s" "rl_args_start s' = Some (Suc p)" "rl_uri_ext s' = rl_uri_ext s"
  shows "open_path mem (Suc p) s'"
  using assms by (auto simp: open_path_def path_end_def args_ok_def ptr_in_def split: option.splits)

lemma open_tail:
  assumes "open_path mem p s" "rl_state s \<notin> {sw_after_slash_in_uri, sw_check_uri, sw_check_uri_http_09}"
    and "rl_state s' \<notin> {sw_after_slash_in_uri, sw_check_uri, sw_check_uri_http_09}"
    and "unflagged s' \<longrightarrow> unflagged s"
    and "rl_uri_start s' = rl_uri_start s" "rl_args_start s' = rl_args_start s" "rl_uri_ext s' = rl_uri_ext s"
  shows "open_path mem (Suc p) s'"
proof -
  note c = path_cong[OF assms(6,7)]
  show ?thesis
    using assms(1-5) path_end_Suc[where p = p and s = s] unfolding open_path_def c assms(5,6) by auto
qed

lemma open_close:
  assumes "open_path mem p s" "rl_uri_end s' = Some p" "unflagged s' = unflagged s"
    and "rl_uri_start s' = rl_uri_start s" "rl_args_start s' = rl_args_start s" "rl_uri_ext s' = rl_uri_ext s"
  shows "closed_path mem s'"
proof -
  note c = path_cong[OF assms(5,6)]
  show ?thesis using assms(1-4) unfolding open_path_def closed_path_def c by auto
qed

lemma open_resume:
  assumes "open_path mem p s" "rl_state s = sw_check_uri_http_09 \<and> rl_state s' = sw_check_uri \<or>
      rl_state s = sw_http_09 \<and> rl_state s' = sw_uri" "unflagged s' = unflagged s"
    and "rl_uri_start s' = rl_uri_start s" "rl_args_start s' = rl_args_start s" "rl_uri_ext s' = rl_uri_ext s"
  shows "open_path mem p s'"
proof -
  note c = path_cong[OF assms(5,6)]
  show ?thesis using assms unfolding open_path_def c by auto
qed

lemma closed_cong:
  assumes "closed_path mem s" "rl_uri_end s' = rl_uri_end s" "unflagged s' = unflagged s"
    and "rl_uri_start s' = rl_uri_start s" "rl_args_start s' = rl_args_start s" "rl_uri_ext s' = rl_uri_ext s"
  shows "closed_path mem s'"
proof -
  note c = path_cong[OF assms(5,6)]
  show ?thesis using assms(1-4) unfolding closed_path_def c by auto
qed

text \<open>The three ways a byte of the two checking states is taken.\<close>

lemma open_check:
  assumes "open_path mem p s" "rl_state s \<in> {sw_after_slash_in_uri, sw_check_uri}"
    and "rl_uri_start s' = rl_uri_start s"
    and "rl_state s' \<in> {sw_after_slash_in_uri, sw_check_uri, sw_check_uri_http_09} \<and>
        mem ! p \<notin> {37, 63, 35} \<and> (rl_state s = sw_after_slash_in_uri \<longrightarrow> mem ! p \<notin> {47, 46}) \<and>
        (rl_state s' \<noteq> sw_after_slash_in_uri \<longrightarrow> mem ! p \<noteq> 47) \<and>
        rl_args_start s' = rl_args_start s \<and> unflagged s' = unflagged s \<and>
        (rl_uri_ext s' = rl_uri_ext s \<or> rl_uri_ext s' = None \<or> rl_uri_ext s' = Some (Suc p))
      \<or> rl_state s' = sw_uri \<and> \<not> unflagged s' \<and> rl_args_start s' = rl_args_start s \<and> rl_uri_ext s' = rl_uri_ext s
      \<or> rl_state s' = sw_uri \<and> mem ! p = 63 \<and> unflagged s' = unflagged s \<and>
        rl_args_start s' = Some (Suc p) \<and> rl_uri_ext s' = rl_uri_ext s"
  shows "open_path mem (Suc p) s'"
  using assms(4)
proof (elim disjE conjE, goal_cases)
  case 1
  with assms show ?case by (intro open_plain[OF assms(1)]) auto
next
  case 2
  with assms show ?case by (intro open_plain[OF assms(1)]) auto
next
  case 3
  with assms show ?case by (intro open_plain[OF assms(1)]) auto
next
  case 4
  with assms(3) show ?case by (intro open_flag[OF assms(1)]) auto
next
  case 5
  with assms(2,3) show ?case by (intro open_query[OF assms(1)]) auto
qed

section \<open>The invariant along the request line\<close>

definition before_uri :: "rl_state set" where
  "before_uri = {sw_start, sw_method, sw_spaces_before_uri, sw_schema, sw_schema_slash, sw_schema_slash_slash,
     sw_host_start, sw_host, sw_host_end, sw_host_ip_literal, sw_port}"

definition ru_inv :: "u_char list \<Rightarrow> nat \<Rightarrow> request_line \<Rightarrow> bool" where
  "ru_inv mem p s \<longleftrightarrow>
     (if rl_state s \<in> before_uri then no_args s \<and> unflagged s
      else if rl_state s \<in> uri_states then open_path mem p s
      else if rl_state s \<in> {sw_check_uri_http_09, sw_http_09} then open_path mem p s \<and> closed_path mem s
      else closed_path mem s)"

definition ru_keeps :: "u_char list \<Rightarrow> nat \<Rightarrow> rl_outcome \<Rightarrow> bool" where
  "ru_keeps mem p out \<longleftrightarrow>
     (case out of Next s' \<Rightarrow> ru_inv mem (Suc p) s' | Stop (x, s') \<Rightarrow> x = Rl_done \<longrightarrow> closed_path mem s')"

lemma ru_bad [simp]: "ru_keeps mem p (rl_invalid s)"
  by (simp add: ru_keeps_def rl_invalid_def)

lemma unflagged_update [simp]:
  "unflagged (s\<lparr>rl_state := q\<rparr>) = unflagged s" "unflagged (s\<lparr>rl_uri_end := e\<rparr>) = unflagged s"
  "unflagged (s\<lparr>rl_uri_start := e\<rparr>) = unflagged s" "unflagged (s\<lparr>rl_http_minor := n\<rparr>) = unflagged s"
  "unflagged (s\<lparr>rl_http_major := n\<rparr>) = unflagged s" "unflagged (s\<lparr>rl_args_start := e\<rparr>) = unflagged s"
  "unflagged (s\<lparr>rl_uri_ext := e\<rparr>) = unflagged s" "unflagged (s\<lparr>rl_plus_in_uri := b\<rparr>) = unflagged s"
  "unflagged (s\<lparr>rl_space_in_uri := b\<rparr>) = unflagged s" "unflagged (s\<lparr>rl_http_protocol := e\<rparr>) = unflagged s"
  "unflagged (s\<lparr>rl_request_end := e\<rparr>) = unflagged s" "\<not> unflagged (s\<lparr>rl_complex_uri := True\<rparr>)"
  "\<not> unflagged (s\<lparr>rl_quoted_uri := True\<rparr>)"
  by (simp_all add: unflagged_def)

lemma uri_ends_ru:
  assumes "open_path mem p s"
  shows "rl_state s \<in> {sw_after_slash_in_uri, sw_check_uri} \<Longrightarrow> mem ! p = SP \<Longrightarrow>
      ru_keeps mem p (rl_uri_space p sw_check_uri_http_09 s)"
    "rl_state s = sw_uri \<Longrightarrow> ru_keeps mem p (rl_uri_space p sw_http_09 s)"
    "ru_keeps mem p (rl_uri_cr p s)" "ru_keeps mem p (rl_uri_lf p s)"
proof -
  have closed: "closed_path mem (s\<lparr>rl_uri_end := Some p, rl_state := q\<rparr>)"
    "closed_path mem (s\<lparr>rl_uri_end := Some p, rl_http_minor := 9, rl_state := q\<rparr>)"
    "closed_path mem (s\<lparr>rl_uri_end := Some p, rl_http_minor := 9\<rparr>)" for q
    by (intro open_close[OF assms]; simp)+
  show "ru_keeps mem p (rl_uri_cr p s)" "ru_keeps mem p (rl_uri_lf p s)"
    using closed by (simp_all add: ru_keeps_def rl_uri_cr_def rl_uri_lf_def ru_inv_def before_uri_def uri_states_def)
  show "ru_keeps mem p (rl_uri_space p sw_check_uri_http_09 s)"
    if "rl_state s \<in> {sw_after_slash_in_uri, sw_check_uri}" "mem ! p = SP"
  proof -
    have "open_path mem (Suc p) (s\<lparr>rl_uri_end := Some p, rl_state := sw_check_uri_http_09\<rparr>)"
      using that by (intro open_check[OF assms]) auto
    thus ?thesis
      using closed(1) by (simp add: ru_keeps_def rl_uri_space_def ru_inv_def before_uri_def uri_states_def)
  qed
  show "ru_keeps mem p (rl_uri_space p sw_http_09 s)" if "rl_state s = sw_uri"
  proof -
    have "open_path mem (Suc p) (s\<lparr>rl_uri_end := Some p, rl_state := sw_http_09\<rparr>)"
      using that by (intro open_tail[OF assms]) auto
    thus ?thesis
      using closed(1) by (simp add: ru_keeps_def rl_uri_space_def ru_inv_def before_uri_def uri_states_def)
  qed
qed

lemma ru_next:
  "rl_state s' \<in> uri_states \<Longrightarrow> open_path mem (Suc p) s' \<Longrightarrow> ru_keeps mem p (Next s')"
  by (auto simp: ru_keeps_def ru_inv_def uri_states_def before_uri_def)

lemma keeps_if:
  "(b \<Longrightarrow> ru_keeps mem p x) \<Longrightarrow> (\<not> b \<Longrightarrow> ru_keeps mem p y) \<Longrightarrow> ru_keeps mem p (if b then x else y)"
  by simp

lemma usual_plain: "is_usual ch \<Longrightarrow> ch \<notin> {37, 63, 35, 47, 46}"
  by auto

lemma after_slash_ru:
  assumes "open_path mem p s" "rl_state s = sw_after_slash_in_uri"
  shows "ru_keeps mem p (rl_after_slash_step p (mem ! p) s)"
proof -
  note step = ru_next[OF _ open_check[OF assms(1)]]
  show ?thesis
    unfolding rl_after_slash_step_def
    by (intro keeps_if)
      (simp_all add: uri_ends_ru[OF assms(1)] assms(2) step uri_states_def, insert usual_plain[of "mem ! p"], simp_all add: step uri_states_def assms(2))
qed

lemma check_uri_ru:
  assumes "open_path mem p s" "rl_state s = sw_check_uri"
  shows "ru_keeps mem p (rl_check_uri_step p (mem ! p) s)"
proof -
  note step = ru_next[OF _ open_check[OF assms(1)]]
  show ?thesis
    unfolding rl_check_uri_step_def
    by (intro keeps_if)
      (simp_all add: uri_ends_ru[OF assms(1)] assms(2) step uri_states_def, insert usual_plain[of "mem ! p"],
       simp_all add: step uri_states_def assms(2))
qed

lemma uri_ru:
  assumes "open_path mem p s" "rl_state s = sw_uri"
  shows "ru_keeps mem p (rl_uri_step p (mem ! p) s)"
proof -
  note step = ru_next[OF _ open_tail[OF assms(1)]]
  show ?thesis
    unfolding rl_uri_step_def
    by (intro keeps_if) (simp_all add: uri_ends_ru[OF assms(1)] assms(2) step uri_states_def)
qed

lemma open_space:
  assumes "open_path mem p s" "rl_state s \<in> {sw_check_uri_http_09, sw_http_09}" "mem ! p = SP"
  shows "open_path mem (Suc p) s"
proof (cases "rl_state s = sw_http_09")
  case True
  then show ?thesis by (intro open_tail[OF assms(1)]) auto
next
  case False
  with assms(2,3) show ?thesis by (intro open_plain[OF assms(1)]) auto
qed

lemma http_09_ru:
  assumes "closed_path mem s" "rl_state s \<in> {sw_host_http_09, sw_check_uri_http_09, sw_http_09}"
    and "rl_state s \<noteq> sw_host_http_09 \<Longrightarrow> open_path mem p s"
    and "ru_keeps mem p (resume s)"
  shows "ru_keeps mem p (rl_http_09_step resume p (mem ! p) s)"
proof -
  have closed: "closed_path mem (s\<lparr>rl_http_minor := 9, rl_state := sw_almost_done\<rparr>)"
    "closed_path mem (s\<lparr>rl_http_minor := 9\<rparr>)" "closed_path mem (s\<lparr>rl_http_protocol := Some p, rl_state := sw_http_H\<rparr>)"
    by (intro closed_cong[OF assms(1)]; simp)+
  have "ru_keeps mem p (Next s)" if "mem ! p = SP"
    using that assms(1-3) open_space[of mem p s]
    by (auto simp: ru_keeps_def ru_inv_def before_uri_def uri_states_def)
  with closed assms(4) show ?thesis
    unfolding rl_http_09_step_def
    by (intro keeps_if) (simp_all add: ru_keeps_def ru_inv_def before_uri_def uri_states_def)
qed

lemma target_ru:
  assumes "ru_inv mem p s"
    "rl_state s \<in> {sw_host_http_09, sw_after_slash_in_uri, sw_check_uri, sw_check_uri_http_09, sw_uri, sw_http_09}"
  shows "ru_keeps mem p (rl_target_step p (mem ! p) s)"
proof -
  from assms(2) consider (host) "rl_state s = sw_host_http_09"
    | (uri) "rl_state s \<in> uri_states"
    | (check) "rl_state s = sw_check_uri_http_09" | (plain) "rl_state s = sw_http_09" by (auto simp: uri_states_def)
  then show ?thesis
  proof cases
    case host
    hence "closed_path mem s" using assms(1) by (simp add: ru_inv_def before_uri_def uri_states_def)
    from http_09_ru[OF this, of p rl_invalid] host show ?thesis by (simp add: rl_target_step_def)
  next
    case uri
    hence "open_path mem p s" using assms(1) by (auto simp: ru_inv_def before_uri_def uri_states_def)
    from after_slash_ru[OF this] check_uri_ru[OF this] uri_ru[OF this] uri show ?thesis
      by (auto simp: rl_target_step_def uri_states_def)
  next
    case check
    hence o: "open_path mem p s" "closed_path mem s" using assms(1) by (auto simp: ru_inv_def before_uri_def uri_states_def)
    let ?s = "s\<lparr>rl_space_in_uri := True, rl_state := sw_check_uri\<rparr>"
    have "open_path mem p ?s" using check by (intro open_resume[OF o(1)]) auto
    hence "ru_keeps mem p (rl_check_uri_step p (mem ! p) ?s)" by (rule check_uri_ru) simp
    with http_09_ru[OF o(2), of p "\<lambda>s. rl_check_uri_step p (mem ! p) (s\<lparr>rl_space_in_uri := True, rl_state := sw_check_uri\<rparr>)"]
      check o(1) show ?thesis by (simp add: rl_target_step_def)
  next
    case plain
    hence o: "open_path mem p s" "closed_path mem s" using assms(1) by (auto simp: ru_inv_def before_uri_def uri_states_def)
    let ?s = "s\<lparr>rl_space_in_uri := True, rl_state := sw_uri\<rparr>"
    have "open_path mem p ?s" using plain by (intro open_resume[OF o(1)]) auto
    hence "ru_keeps mem p (rl_uri_step p (mem ! p) ?s)" by (rule uri_ru) simp
    with http_09_ru[OF o(2), of p "\<lambda>s. rl_uri_step p (mem ! p) (s\<lparr>rl_space_in_uri := True, rl_state := sw_uri\<rparr>)"]
      plain o(1) show ?thesis by (simp add: rl_target_step_def)
  qed
qed

lemma version_ru:
  assumes "ru_inv mem p s" "rl_state s \<in> version_states"
  shows "ru_keeps mem p (rl_version_step p (mem ! p) s)"
proof -
  have c: "closed_path mem s"
    using assms by (auto simp: ru_inv_def before_uri_def uri_states_def version_states_def)
  have step: "ru_keeps mem p (Next s')"
    if "rl_state s' \<in> version_states" "unflagged s' = unflagged s" "rl_uri_start s' = rl_uri_start s"
      "rl_uri_end s' = rl_uri_end s" "rl_args_start s' = rl_args_start s" "rl_uri_ext s' = rl_uri_ext s" for s'
    using that closed_cong[OF c] by (auto simp: ru_keeps_def ru_inv_def before_uri_def uri_states_def version_states_def)
  have fin: "ru_keeps mem p (Stop (Rl_done, s'))"
    if "unflagged s' = unflagged s" "rl_uri_start s' = rl_uri_start s"
      "rl_uri_end s' = rl_uri_end s" "rl_args_start s' = rl_args_start s" "rl_uri_ext s' = rl_uri_ext s" for s'
    using that closed_cong[OF c] by (simp add: ru_keeps_def)
  show ?thesis
    by (cases "rl_state s")
      (use assms(2) in \<open>simp_all add: rl_version_step_def rl_expect_def Let_def step fin version_states_def\<close>)
qed

lemma open_start:
  assumes "no_args s'" "unflagged s'" "mem ! p = 47" "rl_uri_start s' = Some p" "rl_state s' = sw_after_slash_in_uri"
  shows "ru_keeps mem p (Next s')"
proof -
  have "open_path mem (Suc p) s'"
    using assms clean_start[of mem p]
    by (auto simp: open_path_def path_end_def no_args_def args_okI_None ptr_in_def less_Suc_eq)
  with assms(5) show ?thesis by (simp add: ru_keeps_def ru_inv_def before_uri_def uri_states_def)
qed

lemma closed_slash:
  assumes "no_args s" "unflagged s" "rl_schema_end s = Some e" "mem ! (e + 1) = 47"
  shows "ru_keeps mem p (Next (rl_slash_uri s))"
proof -
  have "clean mem (e + 1) (e + 2)" using clean_start[of mem "e + 1"] assms(4) by simp
  moreover have "unflagged (rl_slash_uri s)" using assms(2) by (simp add: unflagged_def rl_slash_uri_def)
  ultimately have "closed_path mem (rl_slash_uri s)"
    using assms by (auto simp: closed_path_def path_end_def no_args_def args_okI_None rl_slash_uri_def)
  thus ?thesis by (simp add: ru_keeps_def ru_inv_def before_uri_def uri_states_def rl_slash_uri_def)
qed

lemma ru_stay:
  "rl_state s' \<in> before_uri \<Longrightarrow> no_args s' \<Longrightarrow> unflagged s' \<Longrightarrow> ru_keeps mem p (Next s')"
  by (simp add: ru_keeps_def ru_inv_def)

lemma ru_method_bad [simp]: "ru_keeps mem p (Stop (Rl_invalid_method, s))"
  by (simp add: ru_keeps_def)

lemma no_args_update [simp]:
  "no_args (s\<lparr>rl_state := q\<rparr>) = no_args s" "no_args (s\<lparr>rl_request_start := e\<rparr>) = no_args s"
  "no_args (s\<lparr>rl_method_end := e\<rparr>) = no_args s" "no_args (s\<lparr>rl_method := m\<rparr>) = no_args s"
  "no_args (s\<lparr>rl_uri_start := e\<rparr>) = no_args s" "no_args (s\<lparr>rl_schema_start := e\<rparr>) = no_args s"
  "no_args (s\<lparr>rl_schema_end := e\<rparr>) = no_args s" "no_args (s\<lparr>rl_host_start := e\<rparr>) = no_args s"
  "no_args (s\<lparr>rl_host_end := e\<rparr>) = no_args s" "no_args (s\<lparr>rl_port_end := e\<rparr>) = no_args s"
  by (simp_all add: no_args_def)

lemma unflagged_update' [simp]:
  "unflagged (s\<lparr>rl_request_start := e\<rparr>) = unflagged s" "unflagged (s\<lparr>rl_method_end := e\<rparr>) = unflagged s"
  "unflagged (s\<lparr>rl_method := m\<rparr>) = unflagged s" "unflagged (s\<lparr>rl_schema_start := e\<rparr>) = unflagged s"
  "unflagged (s\<lparr>rl_schema_end := e\<rparr>) = unflagged s" "unflagged (s\<lparr>rl_host_start := e\<rparr>) = unflagged s"
  "unflagged (s\<lparr>rl_host_end := e\<rparr>) = unflagged s" "unflagged (s\<lparr>rl_port_end := e\<rparr>) = unflagged s"
  by (simp_all add: unflagged_def)

lemma method_ru:
  assumes "ru_inv mem p s" "rl_state s \<in> {sw_start, sw_method}"
  shows "ru_keeps mem p (rl_method_step mem p (mem ! p) s)"
proof -
  have s: "no_args s" "unflagged s" using assms by (auto simp: ru_inv_def before_uri_def)
  show ?thesis
    using assms(2) s by (auto simp: rl_method_step_def Let_def before_uri_def intro!: ru_stay)
qed

lemma schema_ru:
  assumes "ru_inv mem p s" "rl_state s \<in> {sw_spaces_before_uri, sw_schema, sw_schema_slash, sw_schema_slash_slash}"
  shows "ru_keeps mem p (rl_schema_step p (mem ! p) s)"
proof -
  have s: "no_args s" "unflagged s" using assms by (auto simp: ru_inv_def before_uri_def)
  show ?thesis
    using assms(2) s
    by (elim insertE emptyE) (simp_all add: rl_schema_step_def open_start ru_stay before_uri_def)
qed

lemma host_end_ru:
  assumes "no_args s" "unflagged s" "rl_schema_end s = Some e" "mem ! (e + 1) = 47"
  shows "ru_keeps mem p (rl_host_end_step p (mem ! p) s)"
  unfolding rl_host_end_step_def Let_def
  using assms by (intro keeps_if) (simp_all add: open_start ru_stay before_uri_def closed_slash)

lemma host_ru:
  assumes "rl_inv mem p s" "ru_inv mem p s"
    "rl_state s \<in> {sw_host_start, sw_host, sw_host_end, sw_host_ip_literal, sw_port}"
  shows "ru_keeps mem p (rl_host_step p (mem ! p) s)"
proof -
  obtain e where e: "no_args s" "unflagged s" "rl_schema_end s = Some e" "mem ! (e + 1) = 47"
    using assms by (auto simp: rl_inv_def ru_inv_def before_uri_def)
  have plain: "ru_keeps mem p (rl_host_plain_step p (mem ! p) t)"
    if "no_args t" "unflagged t" "rl_schema_end t = Some e" "rl_state t = sw_host" for t
    using that host_end_ru[OF that(1-3) e(4)]
    unfolding rl_host_plain_step_def by (intro keeps_if) (simp_all add: ru_stay before_uri_def)
  show ?thesis
    using assms(3) e
    by (elim insertE emptyE)
      (simp_all add: rl_host_step_def Let_def plain host_end_ru ru_stay open_start closed_slash before_uri_def)
qed

lemma body_ru:
  assumes "rl_inv mem p s" "ru_inv mem p s"
  shows "ru_keeps mem p (request_line_body mem p (mem ! p) s)"
  using rl_state_groups[of s] method_ru[OF assms(2)] schema_ru[OF assms(2)] host_ru[OF assms]
    target_ru[OF assms(2)] version_ru[OF assms(2)]
  by (auto simp: request_line_body_def)

text \<open>What an accepted request line says of its target.\<close>

lemma accepted_target:
  assumes "ngx_http_parse_request_line mem pos lim s = (Rl_ok, pos', r)" "rl_fresh s" "unflagged s"
  obtains u e where "rl_uri_start r = Some u" "rl_uri_end r = Some e" "target mem u e" "e < pos'" "pos' \<le> lim"
    "args_ok mem u r" "path_end e r \<le> e" "unflagged r \<longrightarrow> clean mem u (path_end e r)"
proof -
  let ?I = "\<lambda>q s. rl_inv mem q s \<and> ru_inv mem q s"
  have "?I pos s" using assms(2,3) by (simp add: rl_fresh_def rl_inv_def ru_inv_def before_uri_def)
  hence inv: "case scan request_line_body mem pos lim s of
      More q s' \<Rightarrow> ?I q s' | Halt q x \<Rightarrow> \<exists>s'. ?I q s' \<and> request_line_body mem q (mem ! q) s' = Stop x"
    by (intro scan_invariant_at[where I = ?I]) (auto dest: body_keeps body_ru simp: rl_keeps_def ru_keeps_def split: outcome.splits)
  from assms(1) obtain p t where h: "scan request_line_body mem pos lim s = Halt p (Rl_done, t)" "pos' = p + 1"
    "request_line_fin p (Rl_done, t) = (p, (Rl_ok, r))"
    by (auto simp: ngx_http_parse_request_line_def request_line_parse_def scan_parse_def request_line_fin_def Let_def
        split: scanned.splits parsed.splits prod.splits rl_exit.splits if_splits)
  with inv obtain s' where "?I p s'" "request_line_body mem p (mem ! p) s' = Stop (Rl_done, t)" by auto
  with body_keeps[of mem p s'] body_ru[of mem p s'] have c: "target_closed mem p t" "closed_path mem t"
    by (auto simp: rl_keeps_def ru_keeps_def)
  have r: "rl_uri_start r = rl_uri_start t" "rl_uri_end r = rl_uri_end t" "rl_args_start r = rl_args_start t"
    "rl_uri_ext r = rl_uri_ext t" "unflagged r = unflagged t"
    using h(3) by (auto simp: request_line_fin_def Let_def unflagged_def split: if_splits)
  from c r show thesis
    using that scan_HaltD[OF h(1)] h(2) path_cong[OF r(3,4)]
    unfolding target_closed_def closed_path_def by auto
qed

section \<open>A clean target is normalised already\<close>

lemma segs_successively:
  assumes "successively (\<lambda>x y. x = 47 \<longrightarrow> y \<notin> {47, 46}) (c # d)"
  shows "list_all (\<lambda>x. x \<noteq> [] \<and> hd x \<noteq> 46) (butlast (tl (segs d))) \<and>
    (c = 47 \<longrightarrow> tl (segs d) \<noteq> [] \<longrightarrow> hd (segs d) \<noteq> [] \<and> hd (hd (segs d)) \<noteq> 46)"
  using assms
proof (induction d arbitrary: c)
  case (Cons y d)
  have IH: "list_all (\<lambda>x. x \<noteq> [] \<and> hd x \<noteq> 46) (butlast (tl (segs d)))"
    "y = 47 \<Longrightarrow> tl (segs d) \<noteq> [] \<Longrightarrow> hd (segs d) \<noteq> [] \<and> hd (hd (segs d)) \<noteq> 46"
    using Cons by auto
  obtain z zs where z: "segs d = z # zs" by (meson neq_Nil_conv segs_not_Nil)
  show ?case
  proof (cases "y = 47")
    case True
    with Cons.prems have "c \<noteq> 47" by auto
    with True IH z show ?thesis by (cases zs) auto
  next
    case False
    with Cons.prems IH z show ?thesis by auto
  qed
qed simp

lemma clean_segs:
  assumes "successively (\<lambda>x y. x = 47 \<longrightarrow> y \<notin> {47, 46}) (47 # d)"
  shows "list_all (plain_seg m) (butlast (segs d))"
proof -
  obtain z zs where z: "segs d = z # zs" by (meson neq_Nil_conv segs_not_Nil)
  have "list_all (\<lambda>x. x \<noteq> [] \<and> hd x \<noteq> 46) (butlast (segs d))"
    using segs_successively[OF assms] z by (cases zs) auto
  moreover have "list_all (\<lambda>x. 47 \<notin> set x) (butlast (segs d))"
    using segs_no_slash[of d] by (auto simp: list_all_iff dest: in_set_butlastD)
  ultimately show ?thesis by (auto simp: list_all_iff plain_seg_def)
qed

lemma path_decode_stop:
  assumes "set a \<inter> {37, 63, 35} = {}" "b = [] \<or> hd b \<in> {63, 35}"
  shows "path_decode (a @ b) = Some a"
  using assms
proof (induction a)
  case Nil
  then show ?case by (cases b) auto
qed auto

lemma seg_path_segs: "seg_path (segs d) = 47 # d"
proof (induction d)
  case (Cons c d)
  then show ?case by (cases "segs d") auto
qed simp

lemma between_split:
  assumes "u \<le> q" "q \<le> e"
  shows "between mem u e = between mem u q @ between mem q e"
proof -
  have e: "e - u = (q - u) + (e - q)" using assms by simp
  show ?thesis unfolding between_def e take_add using assms(1) by simp
qed

lemma uri_spec_clean:
  assumes "clean mem u q" "u < q" "q \<le> e" "e \<le> length mem" "mem ! u = 47" "q = e \<or> mem ! q = 63"
  shows "uri_spec m (between mem u e) = Some (between mem u q)"
proof -
  let ?a = "between mem u q"
  have len: "length ?a = q - u" using assms(3,4) by (simp add: length_between)
  have nth: "?a ! i = mem ! (u + i)" if "i < q - u" for i using that assms(3,4) by (simp add: between_nth)
  have "set ?a \<inter> {37, 63, 35} = {}"
    using assms(1) nth len by (auto simp: clean_def in_set_conv_nth)
  moreover have "between mem q e = [] \<or> hd (between mem q e) \<in> {63, 35}"
    using assms(3,4,6) by (cases "q = e") (auto simp: between_Cons)
  ultimately have d: "path_decode (between mem u e) = Some ?a"
    using assms(2,3) by (simp add: between_split[of u q e] path_decode_stop)
  obtain t where t: "?a = 47 # t" using assms(2-5) by (auto simp: between_Cons)
  have "successively (\<lambda>x y. x = 47 \<longrightarrow> y \<notin> {47, 46}) ?a"
    unfolding successively_conv_nth using assms(1) nth len by (auto simp: clean_def)
  hence "list_all (plain_seg m) (butlast (segs t))" by (intro clean_segs) (simp add: t)
  hence "dot_resolve m [] (segs t) = Some (segs t)" by (simp add: dot_resolve_plain_id)
  thus ?thesis by (simp add: uri_spec_def d t seg_path_segs)
qed

section \<open>Properties\<close>

text \<open>
  C19 (equivalence). The shortcut of \<open>ngx_http_process_request_uri\<close> is right: for an accepted request
  line whose target set neither \<open>complex_uri\<close> nor \<open>quoted_uri\<close>, the URI taken as it stands is the
  one the normaliser would compute, in either slash mode.\<close>

theorem simple_uri_is_normal:
  assumes "ngx_http_parse_request_line mem pos lim s = (Rl_ok, pos', r)" "rl_fresh s" "unflagged s" "lim \<le> length mem"
    and "\<not> rl_complex_uri r" "\<not> rl_quoted_uri r" "rl_uri_start r = Some u" "rl_uri_end r = Some e"
  shows "map_option ru_uri (ngx_http_process_request_uri mem m r u e) =
    map_option cr_uri (ngx_http_parse_complex_uri mem u e m pl qu)"
proof -
  from accepted_target[OF assms(1-3)] assms(7,8)
  have t: "target mem u e" "e < pos'" "pos' \<le> lim" "args_ok mem u r" "path_end e r \<le> e"
    "unflagged r \<longrightarrow> clean mem u (path_end e r)" by (auto elim!: accepted_target[OF assms(1-3)])
  have u: "u < e" "mem ! u = 47" "e < length mem" using t(1-3) assms(4) by (auto simp: target_def)
  have c: "clean mem u (path_end e r)" using t(6) assms(5,6) by (simp add: unflagged_def)
  have q: "u < path_end e r" "path_end e r = e \<or> mem ! path_end e r = 63"
  proof -
    show "path_end e r = e \<or> mem ! path_end e r = 63"
      using t(4) by (auto simp: path_end_def args_ok_def split: option.splits)
    show "u < path_end e r"
    proof (cases "rl_args_start r")
      case (Some a)
      hence "u < a" "mem ! (a - 1) = 63" using t(4) by (auto simp: args_ok_def)
      moreover have "a - 1 \<noteq> u" using calculation u(2) by auto
      ultimately show ?thesis using Some by (simp add: path_end_def)
    qed (use u(1) in \<open>simp add: path_end_def\<close>)
  qed
  have "u + ru_len r u e = path_end e r"
    using q(1) u(1) t(5) by (auto simp: ru_len_def path_end_def split: option.splits)
  hence "map_option ru_uri (ngx_http_process_request_uri mem m r u e) = Some (between mem u (path_end e r))"
    using assms(5,6) by (simp add: ngx_http_process_request_uri_def)
  also have "\<dots> = uri_spec m (between mem u e)"
    using uri_spec_clean[OF c q(1) t(5) _ u(2) q(2)] u(3) by simp
  also have "\<dots> = map_option cr_uri (ngx_http_parse_complex_uri mem u e m pl qu)"
    using cu_loop_start[OF u(2,1,3)] by (simp add: ngx_http_parse_complex_uri_cr_uri)
  finally show ?thesis .
qed

theorem simple_uri_is_normal_witness:
  "let mem = bytes ''GET /a/b?c HTTP/1.1'' @ [13, 10]; r = snd (snd (ngx_http_parse_request_line mem 0 21 rl_init)) in
     map_option ru_uri (ngx_http_process_request_uri mem True r 4 10) =
     map_option cr_uri (ngx_http_parse_complex_uri mem 4 10 True False False)"
proof -
  define mem where "mem = bytes ''GET /a/b?c HTTP/1.1'' @ [13, 10]"
  obtain rc pos' r where c: "ngx_http_parse_request_line mem 0 21 rl_init = (rc, pos', r)" by (metis prod_cases3)
  have "(let (rc, p, r) = ngx_http_parse_request_line mem 0 21 rl_init in
      rc = Rl_ok \<and> \<not> rl_complex_uri r \<and> \<not> rl_quoted_uri r \<and> rl_uri_start r = Some 4 \<and> rl_uri_end r = Some 10)"
    unfolding mem_def by code_simp
  hence r: "rc = Rl_ok" "\<not> rl_complex_uri r" "\<not> rl_quoted_uri r" "rl_uri_start r = Some 4" "rl_uri_end r = Some 10"
    unfolding c by simp_all
  have f: "rl_fresh rl_init" "unflagged rl_init" "21 \<le> length mem"
    by (simp_all add: rl_fresh_def rl_init_def no_args_def unflagged_def mem_def)
  from simple_uri_is_normal[OF c[unfolded r(1)] f r(2-5)] show ?thesis
    unfolding Let_def mem_def[symmetric] c by simp
qed

text \<open>The states the normaliser's loop passes through.\<close>

inductive cu_reach :: "u_char list \<Rightarrow> nat \<Rightarrow> bool \<Rightarrow> complex_uri \<Rightarrow> complex_uri \<Rightarrow> bool" for src e m s0 where
  start: "cu_reach src e m s0 s0"
| pass: "cu_reach src e m s0 s \<Longrightarrow> cu_p s \<le> e \<Longrightarrow> cu_step src m s = Next s' \<Longrightarrow> cu_reach src e m s0 s'"

lemma cu_step_out:
  assumes "cu_step src m s = Next s'"
  shows "length (cu_out s') + cu_p s \<le> length (cu_out s) + cu_p s'"
  using assms
  by (auto simp: cu_step_def cu_defs Let_def split: cu_state.splits cu_plain.splits if_splits option.splits)

lemma cu_reach_bound:
  assumes "cu_reach src e m (cu_init src u pl qu) s" "u < e"
  shows "length (cu_out s) + Suc u \<le> cu_p s \<and> cu_p s \<le> Suc e"
  using assms
proof (induction rule: cu_reach.induct)
  case start
  then show ?case by (simp add: cu_init_def)
next
  case (pass s s')
  from cu_step_out[OF pass(3)] cu_step_progress[OF pass(3)] pass show ?case by auto
qed

lemma cu_plain_step:
  assumes "cu_state s = Plain q" "cu_ch s \<noteq> 37" "cu_step src m s = Next s'"
  shows "(\<exists>q'. cu_state s' = Plain q') \<and> cu_ch s \<noteq> 63 \<and> cu_p s' = Suc (cu_p s) \<and> cu_ch s' = src ! cu_p s"
  using assms
  by (auto simp: cu_step_def cu_defs Let_def split: cu_plain.splits if_splits option.splits)

lemma cu_reach_query:
  assumes "cu_reach src e m (cu_init src u pl qu) s" "src ! (a - 1) = 63" "u < a"
    and "\<forall>i. u \<le> i \<longrightarrow> i < a - 1 \<longrightarrow> src ! i \<noteq> 37"
  shows "(\<exists>q. cu_state s = Plain q) \<and> u < cu_p s \<and> cu_p s \<le> a \<and> cu_ch s = src ! (cu_p s - 1)"
  using assms(1)
proof (induction rule: cu_reach.induct)
  case start
  then show ?case using assms(3) by (simp add: cu_init_def)
next
  case (pass s s')
  have "cu_ch s \<noteq> 37"
    using pass.IH assms(2,4) by (cases "cu_p s = a") auto
  with pass cu_plain_step[of s _ src m s'] have
    n: "\<exists>q'. cu_state s' = Plain q'" "cu_ch s \<noteq> 63" "cu_p s' = Suc (cu_p s)" "cu_ch s' = src ! cu_p s" by auto
  moreover have "cu_p s \<noteq> a" using n(2) pass.IH assms(2) by auto
  ultimately show ?case using pass.IH by simp
qed

text \<open>
  C22 (safety). The normaliser never writes outside its buffer: for every accepted request line, and in
  every state its loop passes through, the bytes written are at most the \<open>r->uri.len\<close> that
  \<open>ngx_http_process_request_uri\<close> computed from the parser's pointers, one less than it allocated;
  that length and the extension's length are differences that do not wrap.\<close>

theorem complex_uri_buffer:
  assumes "ngx_http_parse_request_line mem pos lim s = (Rl_ok, pos', r)" "rl_fresh s" "unflagged s" "lim \<le> length mem"
    and "rl_uri_start r = Some u" "rl_uri_end r = Some e"
    and "cu_reach mem e m (cu_init mem u pl qu) st"
  shows "length (cu_out st) \<le> ru_len r u e \<and> u + ru_len r u e = path_end e r \<and>
    (\<forall>x. rl_uri_ext r = Some x \<longrightarrow> x \<le> path_end e r)"
proof -
  obtain u' e' where "rl_uri_start r = Some u'" "rl_uri_end r = Some e'" "target mem u' e'" "args_ok mem u' r"
    "path_end e' r \<le> e'" using accepted_target[OF assms(1-3)] .
  with assms(5,6) have t: "target mem u e" "args_ok mem u r" "path_end e r \<le> e" by simp_all
  from request_line_acc[OF assms(1,2)] assms(5,6) have x: "ptr_in (rl_uri_ext r) u e" by auto
  have u: "u < e" using t(1) by (simp add: target_def)
  note b = cu_reach_bound[OF assms(7) u]
  show ?thesis
  proof (cases "rl_args_start r")
    case None
    with b u x show ?thesis by (auto simp: ru_len_def path_end_def ptr_in_def split: option.splits)
  next
    case (Some a)
    with t(2) have a: "u < a" "mem ! (a - 1) = 63" "\<forall>i. u \<le> i \<longrightarrow> i < a - 1 \<longrightarrow> mem ! i \<noteq> 37"
      "\<forall>x. rl_uri_ext r = Some x \<longrightarrow> x \<le> a - 1" by (auto simp: args_ok_def split: option.splits)
    from cu_reach_query[OF assms(7) a(2,1,3)] b Some a show ?thesis
      by (auto simp: ru_len_def path_end_def)
  qed
qed

theorem complex_uri_buffer_witness:
  "let mem = bytes ''GET /a/.b?c HTTP/1.1'' @ [13, 10]; r = snd (snd (ngx_http_parse_request_line mem 0 22 rl_init)) in
     ru_len r 4 11 = 7 \<and> length (cu_out (cu_init mem 4 False False)) \<le> ru_len r 4 11"
proof -
  define mem where "mem = bytes ''GET /a/.b?c HTTP/1.1'' @ [13, 10]"
  obtain rc pos' r where c: "ngx_http_parse_request_line mem 0 22 rl_init = (rc, pos', r)" by (metis prod_cases3)
  have "(let (rc, p, r) = ngx_http_parse_request_line mem 0 22 rl_init in
      rc = Rl_ok \<and> rl_uri_start r = Some 4 \<and> rl_uri_end r = Some 11 \<and> ru_len r 4 11 = 7)"
    unfolding mem_def by code_simp
  hence r: "rc = Rl_ok" "rl_uri_start r = Some 4" "rl_uri_end r = Some 11" "ru_len r 4 11 = 7"
    unfolding c by simp_all
  have f: "rl_fresh rl_init" "unflagged rl_init" "22 \<le> length mem"
    by (simp_all add: rl_fresh_def rl_init_def no_args_def unflagged_def mem_def)
  from complex_uri_buffer[OF c[unfolded r(1)] f r(2,3) cu_reach.start[of mem 11 True "cu_init mem 4 False False"]] r(4) show ?thesis
    unfolding Let_def mem_def[symmetric] c by simp
qed

end
