(* ===== verification/Ngx_Hash.thy ===== *)
theory Ngx_Hash
  imports Nginx_Prelude
begin

text \<open>
  \<^verbatim>\<open>core/ngx_hash.c\<close>: the hash tables that are built once, from a list of names, and then only searched. The elements of
  a bucket lie one behind the other in one block of memory, and the sizes of the buckets are 16-bit numbers. The block is
  a list of cells, an element and the offset it is stored at; a write that does not fit the block or overlaps another
  element, and a read of an offset where there is none, are errors of the model. Sizes are of a 64-bit platform; the
  size of a cache line is an argument.
\<close>

section \<open>Hash functions\<close>

definition ngx_hash :: "ngx_uint_t \<Rightarrow> u_char \<Rightarrow> ngx_uint_t" where
  "ngx_hash key c = key * 31 + ucast c"

definition ngx_hash_key :: "u_char list \<Rightarrow> ngx_uint_t" where
  "ngx_hash_key data = foldl ngx_hash 0 data"

definition ngx_hash_key_lc :: "u_char list \<Rightarrow> ngx_uint_t" where
  "ngx_hash_key_lc data = foldl (\<lambda>key c. ngx_hash key (ngx_tolower c)) 0 data"

text \<open>\<open>dst\<close> and the key.\<close>

fun hash_strlow_loop :: "64 word \<Rightarrow> u_char list \<Rightarrow> u_char list \<times> 64 word" where
  "hash_strlow_loop key [] = ([], key)"
| "hash_strlow_loop key (c # src) =
     (case hash_strlow_loop (ngx_hash key (ngx_tolower c)) src of (dst, k) \<Rightarrow> (ngx_tolower c # dst, k))"

definition ngx_hash_strlow :: "u_char list \<Rightarrow> u_char list \<times> 64 word" where
  "ngx_hash_strlow src = hash_strlow_loop 0 src"

definition ngx_strlow :: "u_char list \<Rightarrow> u_char list" where
  "ngx_strlow src = map ngx_tolower src"

lemma hash_key_lc: "ngx_hash_key_lc data = ngx_hash_key (ngx_strlow data)"
  by (simp add: ngx_hash_key_lc_def ngx_hash_key_def ngx_strlow_def foldl_map)

lemma hash_key_snoc: "ngx_hash_key (xs @ [c]) = ngx_hash (ngx_hash_key xs) c"
  by (simp add: ngx_hash_key_def)

lemma hash_strlow: "ngx_hash_strlow src = (ngx_strlow src, ngx_hash_key (ngx_strlow src))"
proof -
  have "hash_strlow_loop k src = (ngx_strlow src, foldl ngx_hash k (ngx_strlow src))" for k
    by (induction src arbitrary: k) (simp_all add: ngx_strlow_def)
  thus ?thesis by (simp add: ngx_hash_strlow_def ngx_hash_key_def)
qed

section \<open>Tables\<close>

text \<open>A value that is NULL is \<open>None\<close>; \<open>hk_data\<close> tells whether \<open>key.data\<close> is set.\<close>

record 'v hash_key =
  hk_data :: bool
  hk_key :: "u_char list"
  hk_hash :: "64 word"
  hk_value :: "'v option"

record 'v hash_elt =
  he_val :: "'v option"
  he_len :: nat
  he_name :: "u_char list"

text \<open>An element at an offset, with the number of bytes it takes.\<close>

type_synonym 'v hash_cells = "(nat \<times> nat \<times> 'v hash_elt) list"

text \<open>The block and the offsets of the buckets in it.\<close>

record 'v hash_table =
  ht_size :: nat
  ht_buckets :: "nat option list"
  ht_cells :: "'v hash_cells"

text \<open>Alignments are powers of two.\<close>

definition ngx_align :: "nat \<Rightarrow> nat \<Rightarrow> nat" where
  "ngx_align d a = (d + (a - 1)) div a * a"

definition NGX_HASH_ELT_SIZE :: "nat \<Rightarrow> nat" where
  "NGX_HASH_ELT_SIZE len = 8 + ngx_align (len + 2) 8"

abbreviation u_short :: "nat \<Rightarrow> nat" where
  "u_short n \<equiv> n mod 65536"

section \<open>Search\<close>

datatype 'v hash_found = Hash_found 'v | Hash_none | Hash_overread

lemma map_of_le_sum: "map_of (cells :: (nat \<times> 'a) list) off = Some e \<Longrightarrow> off \<le> sum_list (map fst cells)"
  by (induction cells) (auto split: if_splits)

lemma ngx_align_8_ge: "d \<le> ngx_align d 8"
  by (simp add: ngx_align_def)

function hash_find_loop :: "'v hash_cells \<Rightarrow> nat \<Rightarrow> u_char list \<Rightarrow> 'v hash_found" where
  "hash_find_loop cells off name =
     (case map_of cells off of
        None \<Rightarrow> Hash_overread
      | Some (n, elt) \<Rightarrow>
          (case he_val elt of
             None \<Rightarrow> Hash_none
           | Some v \<Rightarrow>
               if length name = he_len elt \<and> list_all (\<lambda>i. name ! i = he_name elt ! i) [0..<length name] then Hash_found v
               else hash_find_loop cells (ngx_align (off + 10 + he_len elt) 8) name))"
  by pat_completeness auto
termination
proof (relation "measure (\<lambda>(cells, off, name). Suc (sum_list (map fst cells)) - off)", goal_cases)
  case (2 cells off name x n elt v)
  thus ?case using map_of_le_sum[of cells off x] ngx_align_8_ge[of "off + 10 + he_len elt"] by simp
qed simp

declare hash_find_loop.simps [simp del]

definition ngx_hash_find :: "'v hash_table \<Rightarrow> 64 word \<Rightarrow> u_char list \<Rightarrow> 'v hash_found" where
  "ngx_hash_find h key name =
     (case ht_buckets h ! (unat key mod ht_size h) of
        None \<Rightarrow> Hash_none
      | Some off \<Rightarrow> hash_find_loop (ht_cells h) off name)"

section \<open>Construction\<close>

datatype 'v hash_built = Hash_built "'v hash_table" | Hash_error | Hash_div_by_zero | Hash_overrun

text \<open>Whether the elements fit buckets of the given size, when there are \<open>sz\<close> of them.\<close>

fun hash_test_loop :: "nat \<Rightarrow> nat \<Rightarrow> 'v hash_key list \<Rightarrow> nat list \<Rightarrow> bool" where
  "hash_test_loop sz bucket_size [] test = True"
| "hash_test_loop sz bucket_size (n # names) test =
     (if \<not> hk_data n then hash_test_loop sz bucket_size names test
      else let key = unat (hk_hash n) mod sz;
               t = u_short (test ! key + NGX_HASH_ELT_SIZE (length (hk_key n)))
           in if t > u_short bucket_size then False else hash_test_loop sz bucket_size names (test[key := t]))"

function hash_size_loop :: "nat \<Rightarrow> nat \<Rightarrow> 'v hash_key list \<Rightarrow> nat \<Rightarrow> nat" where
  "hash_size_loop max_size bucket_size names sz =
     (if sz \<le> max_size
      then if hash_test_loop sz bucket_size names (replicate sz 0) then sz else hash_size_loop max_size bucket_size names (sz + 1)
      else max_size)"
  by pat_completeness auto
termination by (relation "measure (\<lambda>(max_size, bucket_size, names, sz). Suc max_size - sz)") auto

declare hash_size_loop.simps [simp del]

text \<open>\<open>hinit->bucket_size - sizeof(void *)\<close>, unsigned.\<close>

definition hash_bucket_room :: "nat \<Rightarrow> nat" where
  "hash_bucket_room bucket_size = (bucket_size + 2 ^ 64 - 8) mod 2 ^ 64"

definition hash_start :: "nat \<Rightarrow> nat \<Rightarrow> nat \<Rightarrow> nat" where
  "hash_start max_size bucket_size nelts =
     (if max_size > 10000 \<and> nelts \<noteq> 0 \<and> max_size div nelts < 100 then max_size - 1000
      else let start = nelts div (bucket_size div 16) in if start \<noteq> 0 then start else 1)"

text \<open>The sizes of the buckets, with the NULL pointer at the end of each.\<close>

fun hash_count_loop :: "nat \<Rightarrow> 'v hash_key list \<Rightarrow> nat list \<Rightarrow> nat list" where
  "hash_count_loop sz [] test = test"
| "hash_count_loop sz (n # names) test =
     (if \<not> hk_data n then hash_count_loop sz names test
      else let key = unat (hk_hash n) mod sz
           in hash_count_loop sz names (test[key := u_short (test ! key + NGX_HASH_ELT_SIZE (length (hk_key n)))]))"

definition hash_align_sizes :: "nat \<Rightarrow> nat list \<Rightarrow> nat list" where
  "hash_align_sizes cacheline test = map (\<lambda>t. if t = 8 then t else u_short (ngx_align t cacheline)) test"

definition hash_block_len :: "nat list \<Rightarrow> nat list \<Rightarrow> nat" where
  "hash_block_len test aligned = sum_list (map (\<lambda>(t, a). if t = 8 then 0 else a) (zip test aligned))"

fun hash_buckets :: "nat list \<Rightarrow> nat \<Rightarrow> nat option list" where
  "hash_buckets [] elts = []"
| "hash_buckets (t # test) elts = (if t = 8 then None # hash_buckets test elts else Some elts # hash_buckets test (elts + t))"

text \<open>A write of \<open>n\<close> bytes at an offset: they have to lie in the block and not to overlap other elements.\<close>

definition hash_write :: "nat \<Rightarrow> nat \<Rightarrow> nat \<Rightarrow> 'v hash_elt \<Rightarrow> 'v hash_cells \<Rightarrow> 'v hash_cells option" where
  "hash_write len off n e cells =
     (if off + n \<le> len \<and> list_all (\<lambda>(o', n', e'). off + n \<le> o' \<or> o' + n' \<le> off) cells
      then Some ((off, n, e) # cells) else None)"

fun hash_fill_loop :: "nat \<Rightarrow> nat \<Rightarrow> nat option list \<Rightarrow> 'v hash_key list \<Rightarrow> nat list \<Rightarrow> 'v hash_cells \<Rightarrow>
    (nat list \<times> 'v hash_cells) option" where
  "hash_fill_loop len sz buckets [] test cells = Some (test, cells)"
| "hash_fill_loop len sz buckets (n # names) test cells =
     (if \<not> hk_data n then hash_fill_loop len sz buckets names test cells
      else let key = unat (hk_hash n) mod sz in
        case buckets ! key of
          None \<Rightarrow> None
        | Some b \<Rightarrow>
            (case hash_write len (b + test ! key) (10 + length (hk_key n))
                    \<lparr>he_val = hk_value n, he_len = u_short (length (hk_key n)), he_name = ngx_strlow (hk_key n)\<rparr> cells of
               None \<Rightarrow> None
             | Some cells' \<Rightarrow> hash_fill_loop len sz buckets names
                 (test[key := u_short (test ! key + NGX_HASH_ELT_SIZE (length (hk_key n)))]) cells'))"

fun hash_end_loop :: "nat \<Rightarrow> nat option list \<Rightarrow> nat list \<Rightarrow> 'v hash_cells \<Rightarrow> 'v hash_cells option" where
  "hash_end_loop len (None # buckets) (t # test) cells = hash_end_loop len buckets test cells"
| "hash_end_loop len (Some b # buckets) (t # test) cells =
     (case hash_write len (b + t) 8 \<lparr>he_val = None, he_len = 0, he_name = []\<rparr> cells of
        None \<Rightarrow> None
      | Some cells' \<Rightarrow> hash_end_loop len buckets test cells')"
| "hash_end_loop len _ _ cells = Some cells"

text \<open>From \<open>found\<close> on.\<close>

definition hash_layout :: "nat \<Rightarrow> nat \<Rightarrow> 'v hash_key list \<Rightarrow> 'v hash_built" where
  "hash_layout cacheline sz names =
     (let test = hash_count_loop sz names (replicate sz 8);
          aligned = hash_align_sizes cacheline test;
          len = hash_block_len test aligned;
          buckets = hash_buckets aligned 0
      in case hash_fill_loop len sz buckets names (replicate sz 0) [] of
           None \<Rightarrow> Hash_overrun
         | Some (test', cells) \<Rightarrow>
             (case hash_end_loop len buckets test' cells of
                None \<Rightarrow> Hash_overrun
              | Some cells' \<Rightarrow> Hash_built \<lparr>ht_size = sz, ht_buckets = buckets, ht_cells = cells'\<rparr>))"

definition ngx_hash_init :: "nat \<Rightarrow> nat \<Rightarrow> nat \<Rightarrow> 'v hash_key list \<Rightarrow> 'v hash_built" where
  "ngx_hash_init cacheline max_size bucket_size names =
     (if max_size = 0 then Hash_error
      else if \<not> list_all (\<lambda>n. NGX_HASH_ELT_SIZE (length (hk_key n)) + 8 \<le> bucket_size) names then Hash_error
      else let room = hash_bucket_room bucket_size in
        if room div 16 = 0 then Hash_div_by_zero
        else hash_layout cacheline (hash_size_loop max_size room names (hash_start max_size room (length names))) names)"

section \<open>The layout of the block\<close>

abbreviation elt_bytes :: "'v hash_key \<Rightarrow> nat" where
  "elt_bytes n \<equiv> NGX_HASH_ELT_SIZE (length (hk_key n))"

definition in_bucket :: "nat \<Rightarrow> nat \<Rightarrow> 'v hash_key \<Rightarrow> bool" where
  "in_bucket sz k n \<longleftrightarrow> hk_data n \<and> unat (hk_hash n) mod sz = k"

definition bucket_names :: "nat \<Rightarrow> nat \<Rightarrow> 'v hash_key list \<Rightarrow> 'v hash_key list" where
  "bucket_names sz k names = filter (in_bucket sz k) names"

definition bucket_bytes :: "nat \<Rightarrow> nat \<Rightarrow> 'v hash_key list \<Rightarrow> nat" where
  "bucket_bytes sz k names = sum_list (map elt_bytes (bucket_names sz k names))"

lemma bucket_simps [simp]:
  "bucket_names sz k [] = []" "bucket_bytes sz k [] = 0"
  "bucket_names sz k (n # names) = (if in_bucket sz k n then [n] else []) @ bucket_names sz k names"
  "bucket_bytes sz k (n # names) = (if in_bucket sz k n then elt_bytes n else 0) + bucket_bytes sz k names"
  by (simp_all add: bucket_names_def bucket_bytes_def)

lemma bucket_append:
  "bucket_names sz k (ns @ ms) = bucket_names sz k ns @ bucket_names sz k ms"
  "bucket_bytes sz k (ns @ ms) = bucket_bytes sz k ns + bucket_bytes sz k ms"
  by (simp_all add: bucket_names_def bucket_bytes_def)

lemma elt_bytes_ge: "16 \<le> NGX_HASH_ELT_SIZE l" "10 + l \<le> NGX_HASH_ELT_SIZE l"
  by (simp_all add: NGX_HASH_ELT_SIZE_def ngx_align_def)

lemma elt_bytes_dvd: "8 dvd NGX_HASH_ELT_SIZE l"
  by (simp add: NGX_HASH_ELT_SIZE_def ngx_align_def)

lemma next_elt:
  assumes "8 dvd off"
  shows "ngx_align (off + 10 + l) 8 = off + NGX_HASH_ELT_SIZE l"
proof -
  obtain k where k: "off = 8 * k" using assms by (elim dvdE)
  have "(l + 9 + (k + 1) * 8) div 8 = (k + 1) + (l + 9) div 8" by (rule div_mult_self1) simp
  moreover have "off + 10 + l + (8 - 1) = l + 9 + (k + 1) * 8" "l + 2 + (8 - 1) = l + 9" using k by simp_all
  ultimately have "ngx_align (off + 10 + l) 8 = ((k + 1) + (l + 9) div 8) * 8" "NGX_HASH_ELT_SIZE l = 8 + (l + 9) div 8 * 8"
    unfolding NGX_HASH_ELT_SIZE_def ngx_align_def by (simp_all only:)
  thus ?thesis using k by simp
qed

lemma bucket_bytes_0: "bucket_bytes sz k names = 0 \<longleftrightarrow> bucket_names sz k names = []"
proof (induction names)
  case (Cons n names)
  thus ?case using elt_bytes_ge(1)[of "length (hk_key n)"] by auto
qed simp

lemma hash_count_sizes:
  assumes "\<And>k. k < sz \<Longrightarrow> test ! k + bucket_bytes sz k names < 65536" "length test = sz" "0 < sz"
  shows "length (hash_count_loop sz names test) = sz \<and>
    (\<forall>k < sz. hash_count_loop sz names test ! k = test ! k + bucket_bytes sz k names)"
  using assms
proof (induction names arbitrary: test)
  case (Cons n names)
  show ?case
  proof (cases "hk_data n")
    case True
    let ?key = "unat (hk_hash n) mod sz"
    have k: "?key < sz" using Cons.prems(3) by simp
    have "test ! ?key + elt_bytes n < 65536" using Cons.prems(1)[OF k] True by (simp add: in_bucket_def)
    hence t: "test[?key := u_short (test ! ?key + elt_bytes n)] = test[?key := test ! ?key + elt_bytes n]" by simp
    have "j < sz \<Longrightarrow> test[?key := test ! ?key + elt_bytes n] ! j = test ! j + (if in_bucket sz j n then elt_bytes n else 0)" for j
      using True Cons.prems(2) by (auto simp: in_bucket_def nth_list_update)
    thus ?thesis using Cons.IH[of "test[?key := test ! ?key + elt_bytes n]"] Cons.prems True t
      by (simp add: Let_def add.assoc)
  next
    case False
    thus ?thesis using Cons by (auto simp: in_bucket_def)
  qed
qed simp

text \<open>No bucket is larger than a 16-bit number can tell.\<close>

definition buckets_fit :: "nat \<Rightarrow> nat \<Rightarrow> 'v hash_key list \<Rightarrow> bool" where
  "buckets_fit cacheline sz names \<longleftrightarrow> 0 < sz \<and> (\<forall>k < sz. ngx_align (8 + bucket_bytes sz k names) cacheline < 65536)"

definition bucket_area :: "nat \<Rightarrow> nat \<Rightarrow> 'v hash_key list \<Rightarrow> nat \<Rightarrow> nat" where
  "bucket_area cacheline sz names k = (if bucket_bytes sz k names = 0 then 0 else ngx_align (8 + bucket_bytes sz k names) cacheline)"

definition bucket_off :: "nat \<Rightarrow> nat \<Rightarrow> 'v hash_key list \<Rightarrow> nat \<Rightarrow> nat" where
  "bucket_off cacheline sz names k = sum_list (map (bucket_area cacheline sz names) [0..<k])"

lemma bucket_off_Suc: "bucket_off cl sz names (Suc k) = bucket_off cl sz names k + bucket_area cl sz names k"
  by (simp add: bucket_off_def)

lemma bucket_off_mono: "i \<le> j \<Longrightarrow> bucket_off cl sz names i \<le> bucket_off cl sz names j"
  by (rule lift_Suc_mono_le) (simp_all add: bucket_off_Suc)

lemma ngx_align_ge: "0 < a \<Longrightarrow> d \<le> ngx_align d a"
  unfolding ngx_align_def using div_mult_mod_eq[of "d + (a - 1)" a] mod_less_divisor[of a "d + (a - 1)"] by linarith

lemma ngx_align_dvd: "a dvd ngx_align d a"
  by (simp add: ngx_align_def)

lemma bucket_off_dvd: "8 dvd cl \<Longrightarrow> 8 dvd bucket_off cl sz names k"
proof (induction k)
  case (Suc k)
  thus ?case using dvd_trans[OF _ ngx_align_dvd] by (auto simp: bucket_off_Suc bucket_area_def intro!: dvd_add)
qed (simp add: bucket_off_def)

lemma hash_buckets_sum:
  "length (hash_buckets ts o1) = length ts \<and>
   (\<forall>k<length ts. hash_buckets ts o1 ! k = (if ts ! k = 8 then None else Some (o1 + sum_list (map (\<lambda>t. if t = 8 then 0 else t) (take k ts)))))"
proof (induction ts arbitrary: o1)
  case (Cons t ts)
  show ?case
  proof (intro conjI allI impI)
    fix k assume k: "k < length (t # ts)"
    show "hash_buckets (t # ts) o1 ! k =
        (if (t # ts) ! k = 8 then None else Some (o1 + sum_list (map (\<lambda>t. if t = 8 then 0 else t) (take k (t # ts)))))"
      using Cons.IH[of o1] Cons.IH[of "o1 + t"] k by (cases k) (auto simp: add.assoc)
  qed (use Cons.IH in simp)
qed simp

text \<open>What the passes before the writing compute.\<close>

lemma hash_layout_sizes:
  assumes fit: "buckets_fit cl sz names" and cl: "8 dvd cl" "8 < cl"
    and test: "test = hash_count_loop sz names (replicate sz 8)" and al: "aligned = hash_align_sizes cl test"
  shows "hash_block_len test aligned = bucket_off cl sz names sz" "length (hash_buckets aligned 0) = sz"
    "\<And>k. k < sz \<Longrightarrow> hash_buckets aligned 0 ! k = (if bucket_bytes sz k names = 0 then None else Some (bucket_off cl sz names k))"
proof -
  have small: "8 + bucket_bytes sz k names < 65536" if "k < sz" for k
    using fit that ngx_align_ge[of cl "8 + bucket_bytes sz k names"] cl(2) by (fastforce simp: buckets_fit_def)
  have t: "length test = sz" "\<And>k. k < sz \<Longrightarrow> test ! k = 8 + bucket_bytes sz k names"
    using hash_count_sizes[of sz "replicate sz 8" names] small fit unfolding test by (simp_all add: buckets_fit_def)
  have big: "ngx_align (8 + b) cl \<noteq> 8" for b using ngx_align_dvd[of cl "8 + b"] cl(2) by (auto dest: dvd_imp_le)
  have a: "length aligned = sz" "\<And>k. k < sz \<Longrightarrow> aligned ! k = (if bucket_bytes sz k names = 0 then 8 else bucket_area cl sz names k)"
    using t fit unfolding al by (auto simp: hash_align_sizes_def bucket_area_def buckets_fit_def)
  have not8: "aligned ! k = 8 \<longleftrightarrow> bucket_bytes sz k names = 0" if "k < sz" for k
    using a(2)[OF that] big[of "bucket_bytes sz k names"] by (auto simp: bucket_area_def)
  have "map (\<lambda>(t, a). if t = 8 then 0 else a) (zip test aligned) = map (bucket_area cl sz names) [0..<sz]"
    using t a by (auto intro!: nth_equalityI simp: bucket_area_def)
  thus "hash_block_len test aligned = bucket_off cl sz names sz" by (simp add: hash_block_len_def bucket_off_def)
  show "length (hash_buckets aligned 0) = sz" using hash_buckets_sum[of aligned 0] a(1) by simp
  fix k assume k: "k < sz"
  have "map (\<lambda>t. if t = 8 then 0 else t) (take k aligned) = map (bucket_area cl sz names) [0..<k]"
    using a not8 k by (auto intro!: nth_equalityI simp: bucket_area_def)
  thus "hash_buckets aligned 0 ! k = (if bucket_bytes sz k names = 0 then None else Some (bucket_off cl sz names k))"
    using hash_buckets_sum[of aligned 0] a(1) k not8[OF k] by (simp add: bucket_off_def)
qed

definition elt_of :: "'v hash_key \<Rightarrow> 'v hash_elt" where
  "elt_of n = \<lparr>he_val = hk_value n, he_len = u_short (length (hk_key n)), he_name = ngx_strlow (hk_key n)\<rparr>"

definition elt_end :: "'v hash_elt" where
  "elt_end = \<lparr>he_val = None, he_len = 0, he_name = []\<rparr>"

text \<open>The elements of a bucket, one behind the other.\<close>

fun lay :: "nat \<Rightarrow> 'v hash_key list \<Rightarrow> 'v hash_cells" where
  "lay off [] = []"
| "lay off (n # ns) = (off, 10 + length (hk_key n), elt_of n) # lay (off + elt_bytes n) ns"

lemma lay_append: "lay off (ns @ ms) = lay off ns @ lay (off + sum_list (map elt_bytes ns)) ms"
  by (induction ns arbitrary: off) (simp_all add: add.assoc)

lemma lay_range: "(o1, m, e) \<in> set (lay off ns) \<Longrightarrow> off \<le> o1 \<and> o1 + m \<le> off + sum_list (map elt_bytes ns) \<and> 0 < m"
proof (induction ns arbitrary: off)
  case (Cons n ns)
  thus ?case using elt_bytes_ge(2)[of "length (hk_key n)"] by fastforce
qed simp

lemma bucket_bytes_area: "0 < cl \<Longrightarrow> bucket_bytes sz k names \<noteq> 0 \<Longrightarrow> 8 + bucket_bytes sz k names \<le> bucket_area cl sz names k"
  by (simp add: bucket_area_def ngx_align_ge)

lemma area_disjoint:
  assumes "j \<noteq> k" "bucket_off cl sz names j \<le> o1" "o1 + n1 \<le> bucket_off cl sz names (Suc j)"
    and "bucket_off cl sz names k \<le> o2" "o2 + n2 \<le> bucket_off cl sz names (Suc k)"
  shows "o2 + n2 \<le> o1 \<or> o1 + n1 \<le> o2"
proof (cases "j < k")
  case True
  thus ?thesis using assms bucket_off_mono[of "Suc j" k cl sz names] by linarith
next
  case False
  thus ?thesis using assms bucket_off_mono[of "Suc k" j cl sz names] by linarith
qed

lemma hash_write_ok:
  assumes "off + n \<le> len" "0 < n" "\<And>o1 m e'. (o1, m, e') \<in> set cells \<Longrightarrow> 0 < m \<and> (off + n \<le> o1 \<or> o1 + m \<le> off)" "distinct (map fst cells)"
  shows "hash_write len off n e cells = Some ((off, n, e) # cells)" "distinct (map fst ((off, n, e) # cells))"
proof -
  show "hash_write len off n e cells = Some ((off, n, e) # cells)" using assms(1,3) by (auto simp: hash_write_def list_all_iff)
  have "off \<notin> fst ` set cells" using assms(2,3) by fastforce
  thus "distinct (map fst ((off, n, e) # cells))" using assms(4) by simp
qed

definition fill_inv :: "nat \<Rightarrow> nat \<Rightarrow> 'v hash_key list \<Rightarrow> 'v hash_key list \<Rightarrow> nat list \<Rightarrow> 'v hash_cells \<Rightarrow> bool" where
  "fill_inv cl sz names ns test cells \<longleftrightarrow> length test = sz \<and> (\<forall>k < sz. test ! k = bucket_bytes sz k ns) \<and> distinct (map fst cells) \<and>
     (\<forall>c. c \<in> set cells \<longleftrightarrow> (\<exists>k < sz. c \<in> set (lay (bucket_off cl sz names k) (bucket_names sz k ns))))"

lemma bucket_bytes_prefix: "names = ns @ ms \<Longrightarrow> bucket_bytes sz k ns \<le> bucket_bytes sz k names"
  by (simp add: bucket_append)

lemma bucket_area_bytes: "0 < cl \<Longrightarrow> bucket_bytes sz k names \<le> bucket_area cl sz names k"
  using bucket_bytes_area[of cl sz k names] by (cases "bucket_bytes sz k names = 0") simp_all

lemma lay_bucket_range:
  assumes "(o1, m, e) \<in> set (lay (bucket_off cl sz names k) (bucket_names sz k ns))" "names = ns @ ms" "0 < cl"
  shows "bucket_off cl sz names k \<le> o1" "o1 + m \<le> bucket_off cl sz names k + bucket_bytes sz k ns"
    "o1 + m \<le> bucket_off cl sz names (Suc k)" "0 < m"
proof -
  have "bucket_off cl sz names k \<le> o1 \<and> o1 + m \<le> bucket_off cl sz names k + bucket_bytes sz k ns \<and> 0 < m"
    using lay_range[OF assms(1)] by (simp add: bucket_bytes_def)
  thus "bucket_off cl sz names k \<le> o1" "o1 + m \<le> bucket_off cl sz names k + bucket_bytes sz k ns"
    "o1 + m \<le> bucket_off cl sz names (Suc k)" "0 < m"
    using bucket_bytes_prefix[OF assms(2), of sz k] bucket_area_bytes[OF assms(3), of sz k names] by (auto simp: bucket_off_Suc)
qed

lemma fill_inv_step:
  assumes inv: "fill_inv cl sz names ns test cells" and names: "names = ns @ n # ms" and n: "hk_data n"
    and fit: "buckets_fit cl sz names" and cl: "0 < cl" and k: "k = unat (hk_hash n) mod sz"
    and off: "off = bucket_off cl sz names k + test ! k"
  shows "bucket_bytes sz k names \<noteq> 0"
    "hash_write (bucket_off cl sz names sz) off (10 + length (hk_key n)) (elt_of n) cells = Some ((off, 10 + length (hk_key n), elt_of n) # cells)"
    "fill_inv cl sz names (ns @ [n]) (test[k := u_short (test ! k + elt_bytes n)]) ((off, 10 + length (hk_key n), elt_of n) # cells)"
proof -
  have k1: "k < sz" using fit k by (simp add: buckets_fit_def)
  have b: "in_bucket sz j n \<longleftrightarrow> j = k" for j using n k by (auto simp: in_bucket_def)
  have t: "test ! k = bucket_bytes sz k ns" using inv k1 by (simp add: fill_inv_def)
  have tot: "bucket_bytes sz k ns + elt_bytes n \<le> bucket_bytes sz k names" using names b by (simp add: bucket_append)
  show nz: "bucket_bytes sz k names \<noteq> 0" using tot elt_bytes_ge(1)[of "length (hk_key n)"] by simp
  note area = bucket_bytes_area[OF cl nz]
  have en: "off + (10 + length (hk_key n)) \<le> bucket_off cl sz names (Suc k)"
    using off t tot area elt_bytes_ge(2)[of "length (hk_key n)"] by (simp add: bucket_off_Suc)
  have free: "0 < m \<and> (off + (10 + length (hk_key n)) \<le> o1 \<or> o1 + m \<le> off)" if c: "(o1, m, e') \<in> set cells" for o1 m e'
  proof -
    obtain j where j: "j < sz" "(o1, m, e') \<in> set (lay (bucket_off cl sz names j) (bucket_names sz j ns))"
      using inv c by (auto simp: fill_inv_def)
    note r = lay_bucket_range[OF j(2) names cl]
    show ?thesis
    proof (cases "j = k")
      case True
      thus ?thesis using r off t by simp
    next
      case False
      have "bucket_off cl sz names k \<le> off" using off by simp
      thus ?thesis using area_disjoint[OF False r(1,3) _ en] r(4) by simp
    qed
  qed
  have len: "off + (10 + length (hk_key n)) \<le> bucket_off cl sz names sz"
    using en bucket_off_mono[of "Suc k" sz cl sz names] k1 by simp
  have d: "distinct (map fst cells)" using inv by (simp add: fill_inv_def)
  note w = hash_write_ok[where e = "elt_of n", OF len _ free d]
  show "hash_write (bucket_off cl sz names sz) off (10 + length (hk_key n)) (elt_of n) cells = Some ((off, 10 + length (hk_key n), elt_of n) # cells)"
    by (rule w(1)) simp
  have "test ! k + elt_bytes n < 65536"
    using t tot area fit k1 by (fastforce simp: buckets_fit_def bucket_area_def nz)
  hence u: "u_short (test ! k + elt_bytes n) = test ! k + elt_bytes n" by simp
  have lay: "lay (bucket_off cl sz names j) (bucket_names sz j (ns @ [n])) =
      lay (bucket_off cl sz names j) (bucket_names sz j ns) @ (if j = k then [(off, 10 + length (hk_key n), elt_of n)] else [])" for j
    using b off t by (simp add: bucket_append lay_append bucket_bytes_def)
  show "fill_inv cl sz names (ns @ [n]) (test[k := u_short (test ! k + elt_bytes n)]) ((off, 10 + length (hk_key n), elt_of n) # cells)"
    unfolding fill_inv_def u lay
  proof (intro conjI allI impI)
    show "c \<in> set ((off, 10 + length (hk_key n), elt_of n) # cells) \<longleftrightarrow>
        (\<exists>j < sz. c \<in> set (lay (bucket_off cl sz names j) (bucket_names sz j ns) @ (if j = k then [(off, 10 + length (hk_key n), elt_of n)] else [])))" for c
    proof -
      have "c \<in> set cells \<longleftrightarrow> (\<exists>j < sz. c \<in> set (lay (bucket_off cl sz names j) (bucket_names sz j ns)))"
        using inv unfolding fill_inv_def by blast
      thus ?thesis using k1 by auto
    qed
    show "test[k := test ! k + elt_bytes n] ! j = bucket_bytes sz j (ns @ [n])" if "j < sz" for j
      using inv that b by (auto simp: fill_inv_def bucket_append nth_list_update)
  qed (use inv w(2) in \<open>simp_all add: fill_inv_def\<close>)
qed

lemma hash_fill_all:
  assumes "fill_inv cl sz names ns test cells" "names = ns @ ms" "buckets_fit cl sz names" "0 < cl"
    and "\<And>k. k < sz \<Longrightarrow> buckets ! k = (if bucket_bytes sz k names = 0 then None else Some (bucket_off cl sz names k))"
  shows "\<exists>test' cells'. hash_fill_loop (bucket_off cl sz names sz) sz buckets ms test cells = Some (test', cells') \<and>
     fill_inv cl sz names names test' cells'"
  using assms(1,2)
proof (induction ms arbitrary: ns test cells)
  case (Cons n ms)
  show ?case
  proof (cases "hk_data n")
    case False
    hence "fill_inv cl sz names (ns @ [n]) test cells"
      using Cons.prems(1) by (simp add: fill_inv_def bucket_append in_bucket_def)
    from Cons.IH[OF this] Cons.prems(2) False show ?thesis by simp
  next
    case True
    let ?k = "unat (hk_hash n) mod sz"
    note step = fill_inv_step[OF Cons.prems True assms(3,4) refl refl]
    have "?k < sz" using assms(3) by (simp add: buckets_fit_def)
    hence "buckets ! ?k = Some (bucket_off cl sz names ?k)" using assms(5) step(1) by simp
    moreover note Cons.IH[OF step(3)] Cons.prems(2)
    ultimately show ?thesis using True step(2) by (simp add: Let_def elt_of_def)
  qed
qed simp

text \<open>The NULL pointers at the ends of the buckets.\<close>

definition end_cell :: "nat \<Rightarrow> nat \<Rightarrow> 'v hash_key list \<Rightarrow> nat \<Rightarrow> nat \<times> nat \<times> 'v hash_elt" where
  "end_cell cl sz names k = (bucket_off cl sz names k + bucket_bytes sz k names, 8, elt_end)"

definition end_inv :: "nat \<Rightarrow> nat \<Rightarrow> 'v hash_key list \<Rightarrow> nat \<Rightarrow> 'v hash_cells \<Rightarrow> bool" where
  "end_inv cl sz names i cells \<longleftrightarrow> distinct (map fst cells) \<and>
     (\<forall>c. c \<in> set cells \<longleftrightarrow> (\<exists>k < sz. c \<in> set (lay (bucket_off cl sz names k) (bucket_names sz k names)) \<or>
        k < i \<and> bucket_bytes sz k names \<noteq> 0 \<and> c = end_cell cl sz names k))"

lemma end_inv_step:
  assumes inv: "end_inv cl sz names i cells" and i: "i < sz" "bucket_bytes sz i names \<noteq> 0" and cl: "0 < cl"
  shows "hash_write (bucket_off cl sz names sz) (bucket_off cl sz names i + bucket_bytes sz i names) 8 elt_end cells =
      Some (end_cell cl sz names i # cells)"
    "end_inv cl sz names (Suc i) (end_cell cl sz names i # cells)"
proof -
  let ?off = "bucket_off cl sz names i + bucket_bytes sz i names"
  note area = bucket_bytes_area[OF cl]
  have en: "?off + 8 \<le> bucket_off cl sz names (Suc i)" using area[OF i(2)] by (simp add: bucket_off_Suc)
  have free: "0 < m \<and> (?off + 8 \<le> o1 \<or> o1 + m \<le> ?off)" if c: "(o1, m, e') \<in> set cells" for o1 m e'
  proof -
    obtain k where "k < sz" "(o1, m, e') \<in> set (lay (bucket_off cl sz names k) (bucket_names sz k names)) \<or>
        k < i \<and> bucket_bytes sz k names \<noteq> 0 \<and> (o1, m, e') = end_cell cl sz names k"
      using inv c unfolding end_inv_def by blast
    then consider "(o1, m, e') \<in> set (lay (bucket_off cl sz names k) (bucket_names sz k names))"
      | "k < i" "bucket_bytes sz k names \<noteq> 0" "(o1, m, e') = end_cell cl sz names k" by blast
    thus ?thesis
    proof cases
      case 1
      note r = lay_bucket_range[OF 1 _ cl, of "[]"]
      show ?thesis
      proof (cases "k = i")
        case True
        thus ?thesis using r by simp
      next
        case False
        from area_disjoint[OF this _ _ _ en, of o1 m] r show ?thesis by simp
      qed
    next
      case 2
      hence "o1 + m \<le> bucket_off cl sz names (Suc k)" "m = 8" using area[OF 2(2)] by (simp_all add: end_cell_def bucket_off_Suc)
      thus ?thesis using bucket_off_mono[of "Suc k" i cl sz names] 2(1) by simp
    qed
  qed
  have len: "?off + 8 \<le> bucket_off cl sz names sz" using en bucket_off_mono[of "Suc i" sz cl sz names] i(1) by simp
  have "distinct (map fst cells)" using inv by (simp add: end_inv_def)
  note w = hash_write_ok[where e = elt_end, OF len _ free this]
  show "hash_write (bucket_off cl sz names sz) ?off 8 elt_end cells = Some (end_cell cl sz names i # cells)"
    using w(1) by (simp add: end_cell_def)
  have "c \<in> set (end_cell cl sz names i # cells) \<longleftrightarrow> (\<exists>k < sz. c \<in> set (lay (bucket_off cl sz names k) (bucket_names sz k names)) \<or>
        k < Suc i \<and> bucket_bytes sz k names \<noteq> 0 \<and> c = end_cell cl sz names k)" for c
  proof -
    have "c \<in> set cells \<longleftrightarrow> (\<exists>k < sz. c \<in> set (lay (bucket_off cl sz names k) (bucket_names sz k names)) \<or>
        k < i \<and> bucket_bytes sz k names \<noteq> 0 \<and> c = end_cell cl sz names k)" using inv unfolding end_inv_def by blast
    thus ?thesis using i by (auto simp: less_Suc_eq)
  qed
  thus "end_inv cl sz names (Suc i) (end_cell cl sz names i # cells)"
    using w(2) unfolding end_inv_def by (simp add: end_cell_def)
qed

lemma hash_end_all:
  assumes "end_inv cl sz names i cells" "i \<le> sz" "0 < cl" "length buckets = sz" "length test = sz"
    and "\<And>k. k < sz \<Longrightarrow> buckets ! k = (if bucket_bytes sz k names = 0 then None else Some (bucket_off cl sz names k))"
    and "\<And>k. k < sz \<Longrightarrow> test ! k = bucket_bytes sz k names"
  shows "\<exists>cells'. hash_end_loop (bucket_off cl sz names sz) (drop i buckets) (drop i test) cells = Some cells' \<and> end_inv cl sz names sz cells'"
  using assms(1,2)
proof (induction "sz - i" arbitrary: i cells)
  case 0
  thus ?case using assms(4,5) by simp
next
  case (Suc d)
  hence i: "i < sz" "d = sz - Suc i" by simp_all
  have dr: "drop i buckets = buckets ! i # drop (Suc i) buckets" "drop i test = test ! i # drop (Suc i) test"
    using i(1) assms(4,5) by (simp_all add: Cons_nth_drop_Suc)
  show ?case
  proof (cases "bucket_bytes sz i names = 0")
    case True
    hence "end_inv cl sz names (Suc i) cells" using Suc.prems(1) unfolding end_inv_def by (auto simp: less_Suc_eq)
    from Suc.hyps(1)[OF i(2) this] i(1) show ?thesis using assms(6)[OF i(1)] True dr by simp
  next
    case False
    note step = end_inv_step[OF Suc.prems(1) i(1) False assms(3)]
    from Suc.hyps(1)[OF i(2) step(2)] i(1) show ?thesis
      using assms(6)[OF i(1)] assms(7)[OF i(1)] False dr step(1) by (simp add: elt_end_def)
  qed
qed

text \<open>The table: where the buckets are and what they hold.\<close>

lemma hash_layout_built:
  assumes "buckets_fit cl sz names" "8 dvd cl" "8 < cl"
  shows "\<exists>h. hash_layout cl sz names = Hash_built h \<and> ht_size h = sz \<and> distinct (map fst (ht_cells h)) \<and>
     (\<forall>k < sz. ht_buckets h ! k = (if bucket_bytes sz k names = 0 then None else Some (bucket_off cl sz names k)) \<and>
        set (lay (bucket_off cl sz names k) (bucket_names sz k names)) \<subseteq> set (ht_cells h) \<and>
        (bucket_bytes sz k names \<noteq> 0 \<longrightarrow> end_cell cl sz names k \<in> set (ht_cells h)))"
proof -
  define test where "test = hash_count_loop sz names (replicate sz 8)"
  define aligned where "aligned = hash_align_sizes cl test"
  note s = hash_layout_sizes[OF assms test_def aligned_def]
  have "fill_inv cl sz names [] (replicate sz 0) []" by (simp add: fill_inv_def)
  from hash_fill_all[OF this _ assms(1) _ s(3)] assms(3)
  obtain test' cells where f: "hash_fill_loop (bucket_off cl sz names sz) sz (hash_buckets aligned 0) names (replicate sz 0) [] = Some (test', cells)"
    and inv: "fill_inv cl sz names names test' cells" by auto
  have "end_inv cl sz names 0 cells" using inv unfolding fill_inv_def end_inv_def by simp
  from hash_end_all[OF this _ _ s(2) _ s(3), of test'] inv assms(3) obtain cells' where
    e: "hash_end_loop (bucket_off cl sz names sz) (hash_buckets aligned 0) test' cells = Some cells'" and inv': "end_inv cl sz names sz cells'"
    by (auto simp: fill_inv_def)
  have h: "hash_layout cl sz names = Hash_built \<lparr>ht_size = sz, ht_buckets = hash_buckets aligned 0, ht_cells = cells'\<rparr>"
    unfolding hash_layout_def test_def[symmetric] Let_def aligned_def[symmetric] s(1) f using e by simp
  have mem: "\<And>c. c \<in> set cells' \<longleftrightarrow> (\<exists>k < sz. c \<in> set (lay (bucket_off cl sz names k) (bucket_names sz k names)) \<or>
        k < sz \<and> bucket_bytes sz k names \<noteq> 0 \<and> c = end_cell cl sz names k)" and "distinct (map fst cells')"
    using inv' unfolding end_inv_def by blast+
  thus ?thesis using h s(3) by (intro exI[of _ "\<lparr>ht_size = sz, ht_buckets = hash_buckets aligned 0, ht_cells = cells'\<rparr>"]) auto
qed

section \<open>Search in a built table\<close>

lemma ngx_strlow_length [simp]: "length (ngx_strlow s) = length s"
  by (simp add: ngx_strlow_def)

lemma list_all_nth_eq: "length xs = length ys \<Longrightarrow> list_all (\<lambda>i. xs ! i = ys ! i) [0..<length xs] \<longleftrightarrow> xs = ys"
  by (auto simp: list_all_iff intro: nth_equalityI)

definition found_in :: "'v hash_key list \<Rightarrow> 'v hash_found" where
  "found_in ns = (case ns of [] \<Rightarrow> Hash_none | n # _ \<Rightarrow> Hash_found (the (hk_value n)))"

definition key_storable :: "'v hash_key \<Rightarrow> bool" where
  "key_storable n \<longleftrightarrow> hk_value n \<noteq> None \<and> length (hk_key n) < 65536"

lemma hash_find_lay:
  assumes "distinct (map fst cells)" "8 dvd off" "list_all key_storable ns" "set (lay off ns) \<subseteq> set cells"
    and "(off + sum_list (map elt_bytes ns), 8, elt_end) \<in> set cells"
  shows "hash_find_loop cells off name = found_in (filter (\<lambda>n. ngx_strlow (hk_key n) = name) ns)"
  using assms(2-5)
proof (induction ns arbitrary: off)
  case Nil
  hence "map_of cells off = Some (8, elt_end)" using assms(1) by simp
  thus ?case by (subst hash_find_loop.simps) (simp add: elt_end_def found_in_def)
next
  case (Cons n ns)
  have c: "map_of cells off = Some (10 + length (hk_key n), elt_of n)" using Cons.prems(3) assms(1) by simp
  obtain v where v: "hk_value n = Some v" and l: "length (hk_key n) < 65536" using Cons.prems(2) by (auto simp: key_storable_def)
  show ?case
  proof (cases "ngx_strlow (hk_key n) = name")
    case True
    thus ?thesis using c v l list_all_nth_eq[of name "ngx_strlow (hk_key n)"]
      by (subst hash_find_loop.simps) (auto simp: elt_of_def found_in_def)
  next
    case False
    have "\<not> (length name = he_len (elt_of n) \<and> list_all (\<lambda>i. name ! i = he_name (elt_of n) ! i) [0..<length name])"
      using False l list_all_nth_eq[of name "ngx_strlow (hk_key n)"] by (auto simp: elt_of_def)
    moreover have "he_val (elt_of n) = Some v" "he_len (elt_of n) = length (hk_key n)" using v l by (simp_all add: elt_of_def)
    ultimately have "hash_find_loop cells off name = hash_find_loop cells (off + elt_bytes n) name"
      using c next_elt[OF Cons.prems(1), of "length (hk_key n)"] by (subst hash_find_loop.simps) (simp only: option.case prod.case if_False)
    also have "\<dots> = found_in (filter (\<lambda>n. ngx_strlow (hk_key n) = name) ns)"
      by (rule Cons.IH) (use Cons.prems elt_bytes_dvd in \<open>auto simp: add.assoc\<close>)
    finally show ?thesis using False by simp
  qed
qed

text \<open>The keys carry the hash of their name in lower case.\<close>

definition keys_ok :: "(u_char list \<Rightarrow> 64 word) \<Rightarrow> 'v hash_key list \<Rightarrow> bool" where
  "keys_ok hf names \<longleftrightarrow> list_all (\<lambda>n. hk_data n \<longrightarrow> key_storable n \<and> hk_hash n = hf (ngx_strlow (hk_key n))) names"

definition hash_lookup :: "'v hash_key list \<Rightarrow> u_char list \<Rightarrow> 'v hash_found" where
  "hash_lookup names x = found_in (filter (\<lambda>n. hk_data n \<and> ngx_strlow (hk_key n) = x) names)"

lemma bucket_filter:
  assumes "keys_ok hf names" "k = unat (hf x) mod sz"
  shows "filter (\<lambda>n. ngx_strlow (hk_key n) = x) (bucket_names sz k names) = filter (\<lambda>n. hk_data n \<and> ngx_strlow (hk_key n) = x) names"
  using assms(1) unfolding bucket_names_def filter_filter
  by (intro filter_cong) (auto simp: keys_ok_def list_all_iff in_bucket_def assms(2))

lemma hash_layout_find:
  assumes "buckets_fit cl sz names" "8 dvd cl" "8 < cl" "keys_ok hf names"
  shows "\<exists>h. hash_layout cl sz names = Hash_built h \<and> ngx_hash_find h (hf x) x = hash_lookup names x"
proof -
  obtain h where h: "hash_layout cl sz names = Hash_built h" "ht_size h = sz" "distinct (map fst (ht_cells h))"
    and b: "\<And>k. k < sz \<Longrightarrow> ht_buckets h ! k = (if bucket_bytes sz k names = 0 then None else Some (bucket_off cl sz names k)) \<and>
        set (lay (bucket_off cl sz names k) (bucket_names sz k names)) \<subseteq> set (ht_cells h) \<and>
        (bucket_bytes sz k names \<noteq> 0 \<longrightarrow> end_cell cl sz names k \<in> set (ht_cells h))"
    using hash_layout_built[OF assms(1-3)] by blast
  let ?k = "unat (hf x) mod sz"
  have k: "?k < sz" using assms(1) by (simp add: buckets_fit_def)
  have "ngx_hash_find h (hf x) x = hash_lookup names x"
  proof (cases "bucket_bytes sz ?k names = 0")
    case True
    hence "bucket_names sz ?k names = []" by (simp add: bucket_bytes_0)
    hence "filter (\<lambda>n. hk_data n \<and> ngx_strlow (hk_key n) = x) names = []"
      using bucket_filter[OF assms(4) refl, of x sz] by (simp only: filter.simps)
    thus ?thesis using b[OF k] True h(2) by (simp add: ngx_hash_find_def hash_lookup_def found_in_def)
  next
    case False
    have "list_all key_storable (bucket_names sz ?k names)"
      using assms(4) by (auto simp: bucket_names_def in_bucket_def keys_ok_def list_all_iff)
    moreover have "(bucket_off cl sz names ?k + sum_list (map elt_bytes (bucket_names sz ?k names)), 8, elt_end) \<in> set (ht_cells h)"
      using b[OF k] False by (simp add: end_cell_def bucket_bytes_def)
    ultimately have "hash_find_loop (ht_cells h) (bucket_off cl sz names ?k) x = found_in (filter (\<lambda>n. ngx_strlow (hk_key n) = x) (bucket_names sz ?k names))"
      using hash_find_lay[OF h(3) bucket_off_dvd[OF assms(2)]] b[OF k] by blast
    thus ?thesis using b[OF k] False h(2) bucket_filter[OF assms(4) refl, of x sz] by (simp add: ngx_hash_find_def hash_lookup_def)
  qed
  thus ?thesis using h(1) by blast
qed

section \<open>The number of buckets\<close>

lemma hash_test_loop_bytes:
  assumes "hash_test_loop sz room names test" "length test = sz" "0 < sz" "\<And>k. k < sz \<Longrightarrow> test ! k \<le> room"
    and "list_all (\<lambda>n. elt_bytes n \<le> room) names" "room < 32768"
  shows "k < sz \<Longrightarrow> test ! k + bucket_bytes sz k names \<le> room"
  using assms(1-5)
proof (induction names arbitrary: test)
  case (Cons n names)
  show ?case
  proof (cases "hk_data n")
    case True
    let ?key = "unat (hk_hash n) mod sz"
    have key: "?key < sz" using Cons.prems(4) by simp
    have "test ! ?key + elt_bytes n < 65536" using Cons.prems(5)[OF key] Cons.prems(6) assms(6) by simp
    hence u: "u_short (test ! ?key + elt_bytes n) = test ! ?key + elt_bytes n" "u_short room = room" using assms(6) by simp_all
    have t: "hash_test_loop sz room names (test[?key := test ! ?key + elt_bytes n])" "test ! ?key + elt_bytes n \<le> room"
      using Cons.prems(2) True u by (auto simp: Let_def split: if_splits)
    have "test[?key := test ! ?key + elt_bytes n] ! k + bucket_bytes sz k names \<le> room"
      by (rule Cons.IH[OF Cons.prems(1) t(1)]) (use Cons.prems t(2) in \<open>auto simp: nth_list_update\<close>)
    thus ?thesis using Cons.prems(1,3) True by (auto simp: nth_list_update in_bucket_def split: if_splits)
  next
    case False
    thus ?thesis using Cons by (simp add: in_bucket_def)
  qed
qed simp

definition hash_size_of :: "nat \<Rightarrow> nat \<Rightarrow> 'v hash_key list \<Rightarrow> nat" where
  "hash_size_of max_size bucket_size names =
     (let room = hash_bucket_room bucket_size in hash_size_loop max_size room names (hash_start max_size room (length names)))"

lemma hash_size_loop_range: "0 < max_size \<Longrightarrow> 0 < sz \<Longrightarrow> 0 < hash_size_loop max_size room names sz \<and> hash_size_loop max_size room names sz \<le> max_size"
proof (induction max_size room names sz rule: hash_size_loop.induct)
  case (1 max_size room names sz)
  thus ?case by (subst (1 2) hash_size_loop.simps) simp
qed

lemma hash_bucket_room_eq: "8 \<le> b \<Longrightarrow> b < 2 ^ 64 \<Longrightarrow> hash_bucket_room b = b - 8"
proof -
  assume b: "8 \<le> b" "b < 2 ^ 64"
  hence "b + 2 ^ 64 - 8 = (b - 8) + 2 ^ 64" by simp
  thus ?thesis unfolding hash_bucket_room_def using b by (simp only: mod_add_self2) simp
qed

lemma hash_optimal_fit:
  assumes "hash_test_loop sz (bucket_size - 8) names (replicate sz 0)" "0 < sz" "bucket_size \<le> 32768" "24 \<le> bucket_size"
    and "list_all (\<lambda>n. elt_bytes n + 8 \<le> bucket_size) names" "0 < cl" "cl \<le> 32768"
  shows "buckets_fit cl sz names"
proof -
  have "list_all (\<lambda>n. elt_bytes n \<le> bucket_size - 8) names" using assms(5) by (auto simp: list_all_iff)
  hence b: "8 + bucket_bytes sz k names \<le> bucket_size" if "k < sz" for k
    using hash_test_loop_bytes[OF assms(1) _ assms(2), of k] that assms(3,4) by fastforce
  have "ngx_align d cl < d + cl" for d
    unfolding ngx_align_def using div_mult_mod_eq[of "d + (cl - 1)" cl] assms(6) by linarith
  hence a: "ngx_align (8 + bucket_bytes sz k names) cl < 8 + bucket_bytes sz k names + cl" for k by blast
  have "ngx_align (8 + bucket_bytes sz k names) cl < 65536" if "k < sz" for k
    using b[OF that] a[of k] assms(3,7) by linarith
  thus ?thesis using assms(2) by (simp add: buckets_fit_def)
qed

lemma hash_size_found: "sz \<le> m \<Longrightarrow> hash_test_loop sz room names (replicate sz 0) \<Longrightarrow> hash_size_loop m room names sz = sz"
  by (subst hash_size_loop.simps) simp

lemma hash_size_last: "\<not> hash_test_loop m room names (replicate m 0) \<Longrightarrow> hash_size_loop m room names m = m"
  by (subst hash_size_loop.simps, subst hash_size_loop.simps) simp

section \<open>Properties\<close>

text \<open>
  C11 (functional). A table that is built is a map: whenever no bucket exceeds a 16-bit size, in particular when the search
  for the number of buckets succeeds, construction stays in its memory and returns, and the search for any name returns
  the value of the first key with that name, without regard to case, or nothing.
\<close>

theorem hash_init_find:
  assumes "0 < max_size" "24 \<le> bucket_size" "bucket_size \<le> 32768" "list_all (\<lambda>n. elt_bytes n + 8 \<le> bucket_size) names"
    and "8 dvd cacheline" "8 < cacheline" "cacheline \<le> 32768" "keys_ok hf names" "sz = hash_size_of max_size bucket_size names"
    and "hash_test_loop sz (bucket_size - 8) names (replicate sz 0) \<or> buckets_fit cacheline sz names"
  shows "\<exists>h. ngx_hash_init cacheline max_size bucket_size names = Hash_built h \<and> ngx_hash_find h (hf x) x = hash_lookup names x"
proof -
  have room: "hash_bucket_room bucket_size = bucket_size - 8" using assms(2,3) by (simp add: hash_bucket_room_eq)
  have d: "(bucket_size - 8) div 16 \<noteq> 0" using assms(2) by (simp add: div_eq_0_iff)
  have st: "0 < hash_start max_size (bucket_size - 8) (length names)" by (auto simp: hash_start_def Let_def)
  have sz: "0 < sz" using hash_size_loop_range[OF assms(1) st, of "bucket_size - 8" names] unfolding assms(9) hash_size_of_def room Let_def by simp
  have fit: "buckets_fit cacheline sz names" using assms(10) hash_optimal_fit[OF _ sz assms(3,2,4) _ assms(7)] assms(6) by auto
  have "ngx_hash_init cacheline max_size bucket_size names = hash_layout cacheline sz names"
    using assms(1,4) d room unfolding ngx_hash_init_def assms(9) hash_size_of_def by (simp add: Let_def)
  thus ?thesis using hash_layout_find[OF fit assms(5,6,8)] by simp
qed

definition hash_key_sample :: "string \<Rightarrow> nat \<Rightarrow> nat hash_key" where
  "hash_key_sample s v = \<lparr>hk_data = True, hk_key = bytes s, hk_hash = ngx_hash_key (ngx_strlow (bytes s)), hk_value = Some v\<rparr>"

theorem hash_init_find_witness:
  "\<exists>h. ngx_hash_init 64 512 64 [hash_key_sample ''Host'' 1, hash_key_sample ''Accept'' 2] = Hash_built h \<and>
     ngx_hash_find h (ngx_hash_key (bytes ''accept'')) (bytes ''accept'') = Hash_found 2"
proof -
  let ?names = "[hash_key_sample ''Host'' 1, hash_key_sample ''Accept'' 2]"
  have ok: "keys_ok ngx_hash_key ?names" "list_all (\<lambda>n. elt_bytes n + 8 \<le> 64) ?names"
    by (simp_all add: keys_ok_def hash_key_sample_def key_storable_def NGX_HASH_ELT_SIZE_def ngx_align_def)
  have t: "hash_test_loop 1 56 ?names (replicate 1 0)"
    by (simp add: hash_key_sample_def NGX_HASH_ELT_SIZE_def ngx_align_def Let_def)
  have "hash_size_of 512 64 ?names = 1"
    using hash_size_found[OF _ t, of 512] by (simp add: hash_size_of_def hash_bucket_room_def hash_start_def)
  hence o: "hash_test_loop (hash_size_of 512 64 ?names) (64 - 8) ?names (replicate (hash_size_of 512 64 ?names) 0)" using t by simp
  have "\<exists>h. ngx_hash_init 64 512 64 ?names = Hash_built h \<and>
      ngx_hash_find h (ngx_hash_key (bytes ''accept'')) (bytes ''accept'') = hash_lookup ?names (bytes ''accept'')"
    by (rule hash_init_find[OF _ _ _ ok(2) _ _ _ ok(1) refl disjI1[OF o]]) simp_all
  thus ?thesis by (simp add: hash_lookup_def found_in_def hash_key_sample_def ngx_strlow_def ngx_tolower_def)
qed

text \<open>
  C37 (error). The 16-bit size of a bucket overflows: three names of 30000 bytes in a table that may have only one bucket
  pass the test of their sizes, the size of the bucket wraps, and construction writes past the end of the block it
  allocated.
\<close>

theorem hash_init_overflow:
  assumes "list_all (\<lambda>n. hk_data n \<and> length (hk_key n) = 30000) names" "length names = 3"
  shows "ngx_hash_init 64 1 32768 names = Hash_overrun"
proof -
  obtain a b c where n: "names = [a, b, c]" using assms(2) by (auto simp: length_Suc_conv numeral_3_eq_3)
  have l: "hk_data a" "hk_data b" "hk_data c" "length (hk_key a) = 30000" "length (hk_key b) = 30000" "length (hk_key c) = 30000"
    using assms(1) n by auto
  have e: "NGX_HASH_ELT_SIZE 30000 = 30016" by (simp add: NGX_HASH_ELT_SIZE_def ngx_align_def)
  have room: "hash_bucket_room 32768 = 32760" by (simp add: hash_bucket_room_def)
  have st: "hash_start 1 32760 (length names) = 1" using assms(2) by (simp add: hash_start_def)
  have "\<not> hash_test_loop 1 32760 names (replicate 1 0)" using l e by (simp add: n Let_def)
  hence sz: "hash_size_loop 1 32760 names (hash_start 1 32760 (length names)) = 1" unfolding st by (rule hash_size_last)
  have t: "hash_count_loop 1 names (replicate 1 8) = [24520]" using l e by (simp add: n Let_def)
  have al: "hash_align_sizes 64 [24520] = [24576]" by (simp add: hash_align_sizes_def ngx_align_def)
  have "hash_fill_loop 24576 1 [Some 0] names (replicate 1 0) [] = None" using l by (simp add: n Let_def hash_write_def)
  hence "hash_layout 64 1 names = Hash_overrun" unfolding hash_layout_def t al Let_def by (simp add: hash_block_len_def)
  thus ?thesis using l e room sz by (simp add: ngx_hash_init_def n Let_def)
qed

theorem hash_init_overflow_witness:
  "ngx_hash_init 64 1 32768 (map (\<lambda>c. \<lparr>hk_data = True, hk_key = replicate 30000 c, hk_hash = ngx_hash_key (replicate 30000 c), hk_value = Some ()\<rparr>) (bytes ''abc'')) = Hash_overrun"
  by (rule hash_init_overflow) simp_all

end
