(* ===== verification/Ngx_Http_Header_Line.thy ===== *)
theory Ngx_Http_Header_Line
  imports Ngx_Hash
begin

text \<open>
  \<^verbatim>\<open>http/ngx_http_parse.c\<close>: \<open>ngx_http_parse_header_line\<close>, the resumable parser of one header line
  of a request or of an upstream response, and the part of \<open>ngx_http_process_request_headers\<close>
  (\<^verbatim>\<open>http/ngx_http_request.c\<close>) that builds the header's hash key from what it leaves.
\<close>

section \<open>The parser\<close>

text \<open>The table \<open>lowcase\<close>: the lower case of a letter, a digit or a dash, zero for other bytes.\<close>

definition lowcase_table :: "u_char list" where
  "lowcase_table = replicate 32 0
     @ replicate 13 0 @ bytes ''-'' @ replicate 2 0 @ bytes ''0123456789'' @ replicate 6 0
     @ [0] @ bytes ''abcdefghijklmnopqrstuvwxyz'' @ replicate 5 0
     @ [0] @ bytes ''abcdefghijklmnopqrstuvwxyz'' @ replicate 5 0
     @ replicate 128 0"

definition lowcase :: "u_char \<Rightarrow> u_char" where
  "lowcase ch = lowcase_table ! unat ch"

datatype hl_state = sw_start | sw_name | sw_space_before_value | sw_value | sw_space_after_value
  | sw_ignore_line | sw_almost_done | sw_header_almost_done

text \<open>
  The fields of the request the parser uses. \<open>header_hash\<close> and \<open>lowcase_index\<close> are, within a call,
  the locals \<open>hash\<close> and \<open>i\<close> loaded from them; \<open>lowcase_header\<close> is the array of
  \<open>NGX_HTTP_LC_HEADER_LEN\<close> bytes.
\<close>

record header_line =
  hl_state :: hl_state
  header_name_start :: ngx_ptr
  header_name_end :: ngx_ptr
  header_start :: ngx_ptr
  header_end :: ngx_ptr
  invalid_header :: bool
  header_hash :: ngx_uint_t
  lowcase_index :: ngx_uint_t
  lowcase_header :: "u_char list"

abbreviation NGX_HTTP_LC_HEADER_LEN :: ngx_uint_t where
  "NGX_HTTP_LC_HEADER_LEN \<equiv> 32"

datatype hl_exit = Hl_done | Hl_header_done | Hl_invalid

type_synonym hl_outcome = "(header_line, hl_exit \<times> header_line) outcome"

definition hl_start_step :: "bool \<Rightarrow> nat \<Rightarrow> u_char \<Rightarrow> header_line \<Rightarrow> hl_outcome" where
  "hl_start_step allow_underscores p ch s0 =
     (let s = s0\<lparr>header_name_start := Some p, invalid_header := False\<rparr>; c = lowcase ch in
      if ch = CR then Next (s\<lparr>header_end := Some p, hl_state := sw_header_almost_done\<rparr>)
      else if ch = LF then Stop (Hl_header_done, s\<lparr>header_end := Some p\<rparr>)
      else let s1 = s\<lparr>hl_state := sw_name\<rparr> in
        if c \<noteq> 0
        then Next (s1\<lparr>header_hash := ngx_hash 0 c, lowcase_header := (lowcase_header s1)[0 := c], lowcase_index := 1\<rparr>)
        else if ch = c8 CHR ''_''
        then (if allow_underscores
              then Next (s1\<lparr>header_hash := ngx_hash 0 ch, lowcase_header := (lowcase_header s1)[0 := ch], lowcase_index := 1\<rparr>)
              else Next (s1\<lparr>invalid_header := True\<rparr>))
        else if ch = 0 then Stop (Hl_invalid, s1)
        else Next (s1\<lparr>invalid_header := True\<rparr>))"

text \<open>\<open>r->lowcase_header[i++] = c; i &= (NGX_HTTP_LC_HEADER_LEN - 1);\<close>\<close>

definition hl_push :: "u_char \<Rightarrow> header_line \<Rightarrow> header_line" where
  "hl_push c s = s\<lparr>header_hash := ngx_hash (header_hash s) c,
     lowcase_header := (lowcase_header s)[unat (lowcase_index s) := c],
     lowcase_index := (lowcase_index s + 1) AND (NGX_HTTP_LC_HEADER_LEN - 1)\<rparr>"

definition hl_is_http :: "u_char list \<Rightarrow> nat \<Rightarrow> ngx_ptr \<Rightarrow> bool" where
  "hl_is_http mem p start =
     (case start of Some n \<Rightarrow> p = n + 4 \<and> between mem n p = bytes ''HTTP'' | None \<Rightarrow> False)"

definition hl_name_step :: "bool \<Rightarrow> bool \<Rightarrow> u_char list \<Rightarrow> nat \<Rightarrow> u_char \<Rightarrow> header_line \<Rightarrow> hl_outcome" where
  "hl_name_step allow_underscores upstream mem p ch s =
     (let c = lowcase ch in
      if c \<noteq> 0 then Next (hl_push c s)
      else if ch = c8 CHR ''_''
      then Next (if allow_underscores then hl_push ch s else s\<lparr>invalid_header := True\<rparr>)
      else if ch = c8 CHR '':'' then Next (s\<lparr>header_name_end := Some p, hl_state := sw_space_before_value\<rparr>)
      else if ch = CR
      then Next (s\<lparr>header_name_end := Some p, header_start := Some p, header_end := Some p, hl_state := sw_almost_done\<rparr>)
      else if ch = LF
      then Stop (Hl_done, s\<lparr>header_name_end := Some p, header_start := Some p, header_end := Some p\<rparr>)
      else if ch = c8 CHR ''/'' \<and> upstream \<and> hl_is_http mem p (header_name_start s)
      then Next (s\<lparr>hl_state := sw_ignore_line\<rparr>)
      else if ch = 0 then Stop (Hl_invalid, s)
      else Next (s\<lparr>invalid_header := True\<rparr>))"

definition hl_value_step :: "nat \<Rightarrow> u_char \<Rightarrow> header_line \<Rightarrow> hl_outcome" where
  "hl_value_step p ch s =
     (case hl_state s of
        sw_space_before_value \<Rightarrow>
          if ch = SP then Next s
          else if ch = CR then Next (s\<lparr>header_start := Some p, header_end := Some p, hl_state := sw_almost_done\<rparr>)
          else if ch = LF then Stop (Hl_done, s\<lparr>header_start := Some p, header_end := Some p\<rparr>)
          else if ch = 0 then Stop (Hl_invalid, s)
          else Next (s\<lparr>header_start := Some p, hl_state := sw_value\<rparr>)
      | sw_value \<Rightarrow>
          if ch = SP then Next (s\<lparr>header_end := Some p, hl_state := sw_space_after_value\<rparr>)
          else if ch = CR then Next (s\<lparr>header_end := Some p, hl_state := sw_almost_done\<rparr>)
          else if ch = LF then Stop (Hl_done, s\<lparr>header_end := Some p\<rparr>)
          else if ch = 0 then Stop (Hl_invalid, s)
          else Next s
      | _ \<Rightarrow>
          if ch = SP then Next s
          else if ch = CR then Next (s\<lparr>hl_state := sw_almost_done\<rparr>)
          else if ch = LF then Stop (Hl_done, s)
          else if ch = 0 then Stop (Hl_invalid, s)
          else Next (s\<lparr>hl_state := sw_value\<rparr>))"

definition header_line_body :: "bool \<Rightarrow> bool \<Rightarrow> (header_line, hl_exit \<times> header_line) body" where
  "header_line_body allow_underscores upstream mem p ch s =
     (case hl_state s of
        sw_start \<Rightarrow> hl_start_step allow_underscores p ch s
      | sw_name \<Rightarrow> hl_name_step allow_underscores upstream mem p ch s
      | sw_ignore_line \<Rightarrow> Next (if ch = LF then s\<lparr>hl_state := sw_start\<rparr> else s)
      | sw_almost_done \<Rightarrow>
          if ch = LF then Stop (Hl_done, s) else if ch = CR then Next s else Stop (Hl_invalid, s)
      | sw_header_almost_done \<Rightarrow> if ch = LF then Stop (Hl_header_done, s) else Stop (Hl_invalid, s)
      | _ \<Rightarrow> hl_value_step p ch s)"

text \<open>\<open>NGX_HTTP_PARSE_HEADER_DONE\<close> and \<open>NGX_HTTP_PARSE_INVALID_HEADER\<close> beside \<open>NGX_OK\<close>.\<close>

datatype hl_rc = Hl_ok | Hl_again | Hl_parse_header_done | Hl_parse_invalid_header

definition header_line_fin :: "nat \<Rightarrow> hl_exit \<times> header_line \<Rightarrow> nat \<times> (hl_rc \<times> header_line)" where
  "header_line_fin p x =
     (case x of
        (Hl_done, s) \<Rightarrow> (p, (Hl_ok, s\<lparr>hl_state := sw_start\<rparr>))
      | (Hl_header_done, s) \<Rightarrow> (p, (Hl_parse_header_done, s\<lparr>hl_state := sw_start\<rparr>))
      | (Hl_invalid, s) \<Rightarrow> (p, (Hl_parse_invalid_header, s)))"

definition header_line_parse :: "bool \<Rightarrow> bool \<Rightarrow> u_char list \<Rightarrow> nat \<Rightarrow> nat \<Rightarrow> header_line \<Rightarrow>
    (header_line, hl_rc \<times> header_line) parsed" where
  "header_line_parse allow_underscores upstream =
     scan_parse (header_line_body allow_underscores upstream) header_line_fin"

text \<open>
  One call: the return code, the new \<open>b->pos\<close> and the request. The locals are stored back when the
  call asks for more input or returns a line; at the end of the header and on an error they are not,
  and on an error the state is not either.
\<close>

definition ngx_http_parse_header_line :: "bool \<Rightarrow> bool \<Rightarrow> u_char list \<Rightarrow> nat \<Rightarrow> nat \<Rightarrow> header_line \<Rightarrow>
    hl_rc \<times> nat \<times> header_line" where
  "ngx_http_parse_header_line allow_underscores upstream mem pos lim r =
     (case header_line_parse allow_underscores upstream mem pos lim r of
        Again s \<Rightarrow> (Hl_again, lim, s)
      | Fin p (rc, s) \<Rightarrow>
          (case rc of
             Hl_parse_header_done \<Rightarrow>
               (rc, p + 1, s\<lparr>header_hash := header_hash r, lowcase_index := lowcase_index r\<rparr>)
           | Hl_parse_invalid_header \<Rightarrow>
               (rc, pos, s\<lparr>header_hash := header_hash r, lowcase_index := lowcase_index r, hl_state := hl_state r\<rparr>)
           | _ \<Rightarrow> (rc, p + 1, s)))"

section \<open>Independence of how the bytes arrive\<close>

lemma header_line_local: "local_body (header_line_body allow upstream)"
  unfolding local_body_def
proof (intro allI impI)
  fix mem mem' :: "u_char list" and p ch s
  assume "take (Suc p) mem = take (Suc p) mem'"
  hence "hl_is_http mem p a = hl_is_http mem' p a" for a
    using between_local[of p mem mem'] by (simp add: hl_is_http_def split: option.split)
  hence "hl_name_step allow upstream mem p ch s = hl_name_step allow upstream mem' p ch s"
    by (simp only: hl_name_step_def)
  thus "header_line_body allow upstream mem p ch s = header_line_body allow upstream mem' p ch s"
    by (simp only: header_line_body_def)
qed

interpretation header_line: resumable_parser "header_line_parse allow upstream" "\<lambda>_. True"
  unfolding header_line_parse_def by (rule scan_parse_resumable[OF header_line_local])

section \<open>Names, keys and values\<close>

text \<open>The bytes of a valid name, and what the parser may find around it.\<close>

definition is_name_char :: "bool \<Rightarrow> u_char \<Rightarrow> bool" where
  "is_name_char allow_underscores c \<longleftrightarrow> lowcase c \<noteq> 0 \<or> allow_underscores \<and> c = c8 CHR ''_''"

definition is_line_end :: "u_char \<Rightarrow> bool" where
  "is_line_end c \<longleftrightarrow> c = 0 \<or> c = CR \<or> c = LF"

lemma lowcase_chars: "lowcase c \<noteq> 0 \<longrightarrow> lowcase c = ngx_tolower c \<and> \<not> is_line_end c \<and> c \<noteq> 58 \<and> c \<noteq> 95 \<and> c \<noteq> 47 \<and> c \<noteq> 32"
  by (rule all_bytesI) code_simp

lemma tolower_underscore: "ngx_tolower 95 = 95"
  by code_simp


lemma name_char_facts:
  assumes "is_name_char allow c"
  shows "\<not> is_line_end c" "c \<noteq> 58" "c \<noteq> 47" "c \<noteq> 32"
  using assms lowcase_chars[of c] by (auto simp: is_name_char_def is_line_end_def)

section \<open>The invariant of the loop\<close>

text \<open>
  The array \<open>lowcase_header\<close> is never written out of its bounds; \<open>hl_key\<close> is what the hash and the
  array hold of a name that has no invalid byte.
\<close>

definition hl_array :: "header_line \<Rightarrow> bool" where
  "hl_array s \<longleftrightarrow> length (lowcase_header s) = 32 \<and> unat (lowcase_index s) < 32"

definition hl_key :: "u_char list \<Rightarrow> header_line \<Rightarrow> bool" where
  "hl_key name s \<longleftrightarrow> header_hash s = ngx_hash_key_lc name \<and>
     unat (lowcase_index s) = length name mod 32 \<and>
     (length name < 32 \<longrightarrow> take (length name) (lowcase_header s) = ngx_strlow name)"

definition hl_name :: "bool \<Rightarrow> u_char list \<Rightarrow> nat \<Rightarrow> nat \<Rightarrow> header_line \<Rightarrow> bool" where
  "hl_name allow mem a e s \<longleftrightarrow> a < e \<and> header_name_start s = Some a \<and> \<not> is_line_end (mem ! a) \<and>
     (\<forall>i. a < i \<and> i < e \<longrightarrow> \<not> is_line_end (mem ! i) \<and> mem ! i \<noteq> c8 CHR '':'') \<and>
     (\<not> invalid_header s \<longrightarrow> list_all (is_name_char allow) (between mem a e) \<and> hl_key (between mem a e) s)"

lemma unat_index_push:
  "unat (i :: ngx_uint_t) < 32 \<Longrightarrow> unat ((i + 1) AND 31) = Suc (unat i) mod 32"
proof -
  assume i: "unat i < 32"
  have "(i + 1) AND 31 = (i + 1) mod 2 ^ 5"
    using take_bit_eq_mod[of 5 "i + 1"] take_bit_eq_mask[of 5 "i + 1"] by (simp add: mask_eq_exp_minus_1)
  moreover have "unat (i + 1) = Suc (unat i)"
    using i by (simp add: unat_word_ariths)
  ultimately show ?thesis by (simp add: unat_mod)
qed

lemma hl_array_push: "hl_array s \<Longrightarrow> hl_array (hl_push c s)"
  by (simp add: hl_array_def hl_push_def unat_index_push)

lemma hl_push_fields [simp]:
  "hl_state (hl_push c s) = hl_state s" "header_name_start (hl_push c s) = header_name_start s"
  "invalid_header (hl_push c s) = invalid_header s"
  by (simp_all add: hl_push_def)

lemma hl_key_push:
  assumes "hl_key name s" "hl_array s"
  shows "hl_key (name @ [c]) (hl_push (ngx_tolower c) s)"
proof -
  let ?n = "length name"
  have "take (Suc ?n) ((lowcase_header s)[?n := ngx_tolower c]) = ngx_strlow name @ [ngx_tolower c]"
    if "?n < 31"
    using assms that
    by (simp add: hl_key_def hl_array_def take_Suc_conv_app_nth)
  moreover have "Suc (?n mod 32) mod 32 = Suc ?n mod 32" by (rule mod_Suc_eq)
  ultimately show ?thesis
    using assms
    by (simp add: hl_key_def hl_push_def hl_array_def hash_key_lc ngx_strlow_def hash_key_snoc unat_index_push)
qed

lemma name_char_lower:
  "is_name_char allow c \<Longrightarrow> (if lowcase c \<noteq> 0 then lowcase c else c) = ngx_tolower c"
  using lowcase_chars[of c] tolower_underscore by (auto simp: is_name_char_def)

text \<open>A value being read, and a complete line.\<close>

definition value_open :: "u_char list \<Rightarrow> nat \<Rightarrow> nat \<Rightarrow> nat \<Rightarrow> header_line \<Rightarrow> bool" where
  "value_open mem e h p s \<longleftrightarrow> header_name_end s = Some e \<and> header_start s = Some h \<and> e < h \<and> h < p \<and>
     mem ! e = c8 CHR '':'' \<and> mem ! h \<noteq> SP \<and> (\<forall>i. h \<le> i \<and> i < p \<longrightarrow> \<not> is_line_end (mem ! i))"

definition header_ok :: "bool \<Rightarrow> u_char list \<Rightarrow> nat \<Rightarrow> nat \<Rightarrow> header_line \<Rightarrow> bool" where
  "header_ok allow mem lo p s \<longleftrightarrow>
     (\<exists>a e h v. lo \<le> a \<and> hl_name allow mem a e s \<and> header_name_end s = Some e \<and>
        header_start s = Some h \<and> header_end s = Some v \<and> e \<le> h \<and> h \<le> v \<and> v \<le> p \<and>
        (\<forall>i. h \<le> i \<and> i < v \<longrightarrow> \<not> is_line_end (mem ! i)) \<and>
        (h < v \<longrightarrow> e < h \<and> mem ! e = c8 CHR '':'' \<and> mem ! h \<noteq> SP \<and> mem ! (v - 1) \<noteq> SP))"

definition hl_inv :: "bool \<Rightarrow> u_char list \<Rightarrow> nat \<Rightarrow> nat \<Rightarrow> header_line \<Rightarrow> bool" where
  "hl_inv allow mem lo p s \<longleftrightarrow> hl_array s \<and>
     (case hl_state s of
        sw_name \<Rightarrow> \<exists>a\<ge>lo. hl_name allow mem a p s
      | sw_space_before_value \<Rightarrow> \<exists>a e. lo \<le> a \<and> hl_name allow mem a e s \<and> header_name_end s = Some e \<and>
          e < p \<and> mem ! e = c8 CHR '':''
      | sw_value \<Rightarrow> \<exists>a e h. lo \<le> a \<and> hl_name allow mem a e s \<and> value_open mem e h p s \<and> mem ! (p - 1) \<noteq> SP
      | sw_space_after_value \<Rightarrow> \<exists>a e h v. lo \<le> a \<and> hl_name allow mem a e s \<and> value_open mem e h p s \<and>
          header_end s = Some v \<and> h < v \<and> v < p \<and> mem ! (v - 1) \<noteq> SP
      | sw_almost_done \<Rightarrow> header_ok allow mem lo p s
      | _ \<Rightarrow> True)"

definition hl_keeps :: "bool \<Rightarrow> u_char list \<Rightarrow> nat \<Rightarrow> nat \<Rightarrow> hl_outcome \<Rightarrow> bool" where
  "hl_keeps allow mem lo p out =
     (case out of
        Next s \<Rightarrow> hl_inv allow mem lo (Suc p) s
      | Stop (x, s) \<Rightarrow> hl_array s \<and> (x = Hl_done \<longrightarrow> header_ok allow mem lo p s))"

lemma hl_upd [simp]:
  "hl_array (s\<lparr>hl_state := st\<rparr>) = hl_array s" "hl_array (s\<lparr>invalid_header := b\<rparr>) = hl_array s"
  "hl_array (s\<lparr>header_name_end := q\<rparr>) = hl_array s" "hl_array (s\<lparr>header_start := q\<rparr>) = hl_array s"
  "hl_array (s\<lparr>header_end := q\<rparr>) = hl_array s" "hl_array (s\<lparr>header_name_start := q\<rparr>) = hl_array s"
  "hl_name allow mem a e (s\<lparr>hl_state := st\<rparr>) = hl_name allow mem a e s"
  "hl_name allow mem a e (s\<lparr>header_name_end := q\<rparr>) = hl_name allow mem a e s"
  "hl_name allow mem a e (s\<lparr>header_start := q\<rparr>) = hl_name allow mem a e s"
  "hl_name allow mem a e (s\<lparr>header_end := q\<rparr>) = hl_name allow mem a e s"
  by (simp_all add: hl_array_def hl_name_def hl_key_def)

lemma name_first:
  assumes "hl_array s" "p < length mem" "is_name_char allow (mem ! p)" "header_name_start s = Some p"
    "c = ngx_tolower (mem ! p)"
  shows "hl_name allow mem p (Suc p) (s\<lparr>header_hash := ngx_hash 0 c,
      lowcase_header := (lowcase_header s)[0 := c], lowcase_index := 1\<rparr>)"
  using assms
  by (auto simp: hl_name_def hl_key_def hl_array_def between_Cons name_char_facts ngx_hash_key_lc_def
      ngx_strlow_def take_Suc_conv_app_nth)

lemma name_bad:
  assumes "header_name_start s = Some p" "\<not> is_line_end (mem ! p)" "invalid_header s"
  shows "hl_name allow mem p (Suc p) s"
  using assms by (auto simp: hl_name_def less_Suc_eq)

lemma start_keeps:
  assumes "hl_array s" "p < length mem" "lo \<le> p"
  shows "hl_keeps allow mem lo p (hl_start_step allow p (mem ! p) s)"
proof -
  let ?c = "mem ! p"
  let ?s = "s\<lparr>header_name_start := Some p, invalid_header := False, hl_state := sw_name\<rparr>"
  have char: "hl_keeps allow mem lo p (Next (?s\<lparr>header_hash := ngx_hash 0 c,
      lowcase_header := (lowcase_header ?s)[0 := c], lowcase_index := 1\<rparr>))"
    if "is_name_char allow ?c" "c = ngx_tolower ?c" for c
  proof -
    have "hl_name allow mem p (Suc p) (?s\<lparr>header_hash := ngx_hash 0 c,
      lowcase_header := (lowcase_header ?s)[0 := c], lowcase_index := 1\<rparr>)"
      using assms that by (intro name_first) simp_all
    thus ?thesis using assms by (auto simp: hl_keeps_def hl_inv_def hl_array_def)
  qed
  have bad: "hl_keeps allow mem lo p (Next (?s\<lparr>invalid_header := True\<rparr>))" if "\<not> is_line_end ?c"
  proof -
    have "hl_name allow mem p (Suc p) (?s\<lparr>invalid_header := True\<rparr>)"
      using that by (intro name_bad) simp_all
    thus ?thesis using assms by (auto simp: hl_keeps_def hl_inv_def)
  qed
  consider (cr) "?c = CR" | (lf) "?c = LF" | (zero) "?c = 0" | (other) "\<not> is_line_end ?c"
    by (auto simp: is_line_end_def)
  thus ?thesis
  proof cases
    case other
    thus ?thesis
      using char[of "lowcase ?c"] char[of ?c] bad lowcase_chars[of ?c] tolower_underscore
      by (auto simp: hl_start_step_def Let_def is_name_char_def is_line_end_def)
  qed (use assms lowcase_chars[of 0] in \<open>auto simp: hl_start_step_def Let_def hl_keeps_def hl_inv_def is_line_end_def\<close>)
qed

lemma name_push:
  assumes "hl_array s" "p < length mem" "hl_name allow mem a p s" "is_name_char allow (mem ! p)"
    "c = ngx_tolower (mem ! p)"
  shows "hl_name allow mem a (Suc p) (hl_push c s)"
  using assms hl_key_push[of "between mem a p" s "mem ! p"] name_char_facts[OF assms(4)]
  by (auto simp: hl_name_def between_snoc less_Suc_eq)

lemma name_bad_next:
  assumes "hl_name allow mem a p s" "\<not> is_line_end (mem ! p)" "mem ! p \<noteq> 58" "invalid_header s'"
    "header_name_start s' = header_name_start s"
  shows "hl_name allow mem a (Suc p) s'"
  using assms by (auto simp: hl_name_def less_Suc_eq)

lemma name_keeps:
  assumes "hl_array s" "p < length mem" "lo \<le> a" "hl_name allow mem a p s" "hl_state s = sw_name"
  shows "hl_keeps allow mem lo p (hl_name_step allow upstream mem p (mem ! p) s)"
proof -
  let ?c = "mem ! p"
  have char: "hl_keeps allow mem lo p (Next (hl_push c s))"
    if "is_name_char allow ?c" "c = ngx_tolower ?c" for c
    using name_push[OF assms(1,2,4) that] hl_array_push[OF assms(1)] assms
    by (auto simp: hl_keeps_def hl_inv_def)
  have bad: "hl_keeps allow mem lo p (Next (s\<lparr>invalid_header := True\<rparr>))"
    if "\<not> is_line_end ?c" "?c \<noteq> 58"
    using name_bad_next[OF assms(4) that, of "s\<lparr>invalid_header := True\<rparr>"] assms
    by (auto simp: hl_keeps_def hl_inv_def)
  have empty_value: "header_ok allow mem lo q (s\<lparr>header_name_end := Some p, header_start := Some p, header_end := Some p, hl_state := st\<rparr>)"
    if "p \<le> q" for q st
    unfolding header_ok_def using assms that
    by auto
  have empty_value': "header_ok allow mem lo p (s\<lparr>header_name_end := Some p, header_start := Some p, header_end := Some p\<rparr>)"
    using empty_value[of p "hl_state s"] by simp
  consider (name) "is_name_char allow ?c" | (colon) "?c = 58" "\<not> is_name_char allow ?c" | (zero) "?c = 0" | (cr) "?c = CR" | (lf) "?c = LF"
    | (other) "\<not> is_line_end ?c" "?c \<noteq> 58" "\<not> is_name_char allow ?c"
    unfolding is_line_end_def by blast
  thus ?thesis
  proof cases
    case name
    thus ?thesis using char[of "lowcase ?c"] char[of ?c] lowcase_chars[of ?c] tolower_underscore
      by (auto simp: hl_name_step_def Let_def is_name_char_def)
  next
    case colon
    thus ?thesis using assms lowcase_chars[of 58]
      by (auto simp: hl_name_step_def Let_def hl_keeps_def hl_inv_def)
  next
    case other
    thus ?thesis using bad assms
      by (auto simp: hl_name_step_def is_name_char_def is_line_end_def hl_keeps_def hl_inv_def)
  next
    case cr
    thus ?thesis using empty_value[of "Suc p" sw_almost_done] assms lowcase_chars[of 13]
      by (auto simp: hl_name_step_def Let_def hl_keeps_def hl_inv_def is_line_end_def)
  next
    case lf
    thus ?thesis using empty_value' assms lowcase_chars[of 10]
      by (auto simp: hl_name_step_def Let_def hl_keeps_def is_line_end_def)
  next
    case zero
    thus ?thesis using assms lowcase_chars[of 0]
      by (auto simp: hl_name_step_def Let_def hl_keeps_def is_line_end_def)
  qed
qed

text \<open>How the states of a value follow one another.\<close>

lemma value_open_next:
  "value_open mem e h p s \<Longrightarrow> \<not> is_line_end (mem ! p) \<Longrightarrow> value_open mem e h (Suc p) s"
  by (auto simp: value_open_def less_Suc_eq)

lemma value_open_upd [simp]:
  "value_open mem e h p (s\<lparr>hl_state := st\<rparr>) = value_open mem e h p s"
  "value_open mem e h p (s\<lparr>header_end := q\<rparr>) = value_open mem e h p s"
  by (simp_all add: value_open_def)

lemma header_ok_upd [simp]: "header_ok allow mem lo p (s\<lparr>hl_state := st\<rparr>) = header_ok allow mem lo p s"
  by (simp add: header_ok_def)

lemma header_ok_mono: "header_ok allow mem lo p s \<Longrightarrow> p \<le> q \<Longrightarrow> header_ok allow mem lo q s"
  unfolding header_ok_def by (meson order_trans)

lemma value_closed:
  assumes "lo \<le> a" "hl_name allow mem a e s" "value_open mem e h p s" "header_end s = Some v"
    "h < v" "v \<le> p" "mem ! (v - 1) \<noteq> SP" "p \<le> q"
  shows "header_ok allow mem lo q s"
  unfolding header_ok_def using assms
  by (intro exI[of _ a] exI[of _ e] exI[of _ h] exI[of _ v]) (auto simp: value_open_def)

lemma value_empty:
  assumes "lo \<le> a" "hl_name allow mem a e s" "header_name_end s = Some e" "e < p" "p \<le> q"
  shows "header_ok allow mem lo q (s\<lparr>header_start := Some p, header_end := Some p\<rparr>)"
  unfolding header_ok_def using assms
  by (intro exI[of _ a] exI[of _ e] exI[of _ p]) auto

lemma before_value_keeps:
  assumes "hl_state s = sw_space_before_value" "hl_inv allow mem lo p s"
  shows "hl_keeps allow mem lo p (hl_value_step p (mem ! p) s)"
proof -
  from assms obtain a e where a: "hl_array s" "lo \<le> a" "hl_name allow mem a e s" "header_name_end s = Some e"
      "e < p" "mem ! e = 58"
    by (auto simp: hl_inv_def)
  note empty_value = value_empty[OF a(2-5)]
  have start: "value_open mem e p (Suc p) (s\<lparr>header_start := Some p, hl_state := sw_value\<rparr>)"
    if "mem ! p \<noteq> SP" "\<not> is_line_end (mem ! p)"
    using that a by (auto simp: value_open_def less_Suc_eq_le)
  show ?thesis
    using a empty_value[of p] empty_value[of "Suc p"] start
    by (auto simp: hl_value_step_def assms(1) hl_keeps_def hl_inv_def is_line_end_def)
qed

lemma value_keeps:
  assumes "hl_state s = sw_value" "hl_inv allow mem lo p s"
  shows "hl_keeps allow mem lo p (hl_value_step p (mem ! p) s)"
proof -
  from assms obtain a e h where a: "hl_array s" "lo \<le> a" "hl_name allow mem a e s" "value_open mem e h p s"
      "mem ! (p - 1) \<noteq> SP"
    by (auto simp: hl_inv_def)
  have h: "h < p" using a(4) by (simp add: value_open_def)
  have closed: "header_ok allow mem lo q (s\<lparr>header_end := Some p\<rparr>)" if "p \<le> q" for q
    using a h that by (intro value_closed[of lo a allow mem e _ h p p]) simp_all
  have sp: "\<exists>a e h. lo \<le> a \<and> hl_name allow mem a e s \<and> value_open mem e h (Suc p) s \<and> h < p" if "\<not> is_line_end (mem ! p)"
    using a h value_open_next[OF a(4) that] by blast
  have spn: "mem ! p \<noteq> SP \<Longrightarrow> \<exists>a e h. lo \<le> a \<and> hl_name allow mem a e s \<and> value_open mem e h (Suc p) s" if "\<not> is_line_end (mem ! p)"
    using sp that by blast
  show ?thesis
    using a(1,5) closed[of p] closed[of "Suc p"] sp spn assms(1)
    by (auto simp: hl_value_step_def hl_keeps_def hl_inv_def is_line_end_def)
qed

lemma after_value_keeps:
  assumes "hl_state s = sw_space_after_value" "hl_inv allow mem lo p s"
  shows "hl_keeps allow mem lo p (hl_value_step p (mem ! p) s)"
proof -
  from assms obtain a e h v where a: "hl_array s" "lo \<le> a" "hl_name allow mem a e s" "value_open mem e h p s"
      "header_end s = Some v" "h < v" "v < p" "mem ! (v - 1) \<noteq> SP"
    by (auto simp: hl_inv_def)
  have closed: "header_ok allow mem lo q s" if "p \<le> q" for q
    using a that by (intro value_closed[of lo a allow mem e _ h p v]) simp_all
  have sp: "\<exists>a e h. lo \<le> a \<and> hl_name allow mem a e s \<and> value_open mem e h (Suc p) s \<and> h < v" if "\<not> is_line_end (mem ! p)"
    using a value_open_next[OF a(4) that] by blast
  have spn: "\<exists>a e h. lo \<le> a \<and> hl_name allow mem a e s \<and> value_open mem e h (Suc p) s" if "\<not> is_line_end (mem ! p)"
    using sp that by blast
  show ?thesis
    using a(1,5,7,8) closed[of p] closed[of "Suc p"] sp spn assms(1)
    by (auto simp: hl_value_step_def hl_keeps_def hl_inv_def is_line_end_def)
qed

lemma header_line_keeps:
  assumes "hl_inv allow mem lo p s" "lo \<le> p" "p < length mem"
  shows "hl_keeps allow mem lo p (header_line_body allow upstream mem p (mem ! p) s)"
proof (cases "hl_state s")
  case sw_start
  with assms start_keeps[of s p mem lo allow] show ?thesis
    by (simp add: header_line_body_def hl_inv_def)
next
  case sw_name
  with assms name_keeps[of s p mem lo _ allow upstream] show ?thesis
    by (auto simp: header_line_body_def hl_inv_def)
next
  case sw_ignore_line
  with assms show ?thesis by (simp add: header_line_body_def hl_inv_def hl_keeps_def)
next
  case sw_almost_done
  with assms header_ok_mono[of allow mem lo p s "Suc p"] show ?thesis
    by (simp add: header_line_body_def hl_inv_def hl_keeps_def)
next
  case sw_header_almost_done
  with assms show ?thesis by (simp add: header_line_body_def hl_inv_def hl_keeps_def)
qed (use assms before_value_keeps value_keeps after_value_keeps in \<open>simp_all add: header_line_body_def\<close>)

text \<open>The outcome of the loop.\<close>

lemma header_line_scan:
  assumes "hl_inv allow mem lo pos s" "lo \<le> pos" "pos \<le> lim" "lim \<le> length mem"
  shows "case header_line_parse allow upstream mem pos lim s of
      Again s' \<Rightarrow> hl_inv allow mem lo lim s'
    | Fin p (rc, s') \<Rightarrow> pos \<le> p \<and> p < lim \<and> hl_array s' \<and> rc \<noteq> Hl_again \<and>
        (rc = Hl_ok \<longrightarrow> hl_state s' = sw_start \<and> header_ok allow mem lo p s')"
proof -
  let ?f = "header_line_body allow upstream"
  have step: "hl_inv allow mem lo (Suc q) t'"
    if "hl_inv allow mem lo q t" "pos \<le> q" "q < lim" "?f mem q (mem ! q) t = Next t'" for q t t'
    using header_line_keeps[of allow mem lo q t upstream] that assms by (simp add: hl_keeps_def)
  have inv: "case scan ?f mem pos lim s of
      More q s' \<Rightarrow> hl_inv allow mem lo q s'
    | Halt q r \<Rightarrow> \<exists>s'. hl_inv allow mem lo q s' \<and> ?f mem q (mem ! q) s' = Stop r"
    by (rule scan_invariant_at) (use assms(1) step in blast)+
  show ?thesis
  proof (cases "scan ?f mem pos lim s")
    case (More q s')
    with inv scan_MoreD[OF More] assms show ?thesis
      by (simp add: header_line_parse_def scan_parse_def)
  next
    case (Halt q r)
    with inv obtain s' where "hl_inv allow mem lo q s'" "?f mem q (mem ! q) s' = Stop r" by auto
    with header_line_keeps[of allow mem lo q s' upstream] scan_HaltD[OF Halt] assms
    have "hl_keeps allow mem lo q (Stop r)" "pos \<le> q" "q < lim" by simp_all
    thus ?thesis
      by (cases r; cases "fst r")
        (simp_all add: header_line_parse_def scan_parse_def Halt header_line_fin_def hl_keeps_def)
  qed
qed

section \<open>The headers of a request\<close>

text \<open>\<open>ngx_table_elt_t\<close> of \<^verbatim>\<open>core/ngx_hash.h\<close>.\<close>

record table_elt =
  h_hash :: ngx_uint_t
  h_key :: "u_char list"
  h_value :: "u_char list"
  h_lowcase_key :: "u_char list"

definition header_entry :: "u_char list \<Rightarrow> header_line \<Rightarrow> table_elt" where
  "header_entry mem r =
     (let key = between mem (the (header_name_start r)) (the (header_name_end r));
          val = between mem (the (header_start r)) (the (header_end r)) in
      \<lparr>h_hash = header_hash r, h_key = key, h_value = val,
       h_lowcase_key = (if length key = unat (lowcase_index r) then take (length key) (lowcase_header r)
                        else ngx_strlow key)\<rparr>)"

text \<open>
  The loop of \<open>ngx_http_process_request_headers\<close> over the bytes received so far: \<open>handler\<close> stands
  for \<open>ngx_hash_find\<close> in the table of known headers and the handler found there, and tells whether
  it returned \<open>NGX_OK\<close>. No upstream exists while a request's headers are read.
\<close>

datatype hs_rc = Hs_done | Hs_again | Hs_bad_request | Hs_handler

lemma header_line_progress:
  assumes "ngx_http_parse_header_line allow upstream mem pos lim r = (rc, q, r')" "rc = Hl_ok \<or> rc = Hl_parse_header_done"
  shows "pos < q \<and> q \<le> lim"
proof (cases "scan (header_line_body allow upstream) mem pos lim r")
  case (More m s)
  with assms show ?thesis
    by (auto simp: ngx_http_parse_header_line_def header_line_parse_def scan_parse_def)
next
  case (Halt m x)
  with assms scan_HaltD[OF Halt] show ?thesis
    by (cases x; cases "fst x")
      (auto simp: ngx_http_parse_header_line_def header_line_parse_def scan_parse_def header_line_fin_def)
qed

function ngx_http_process_request_headers :: "bool \<Rightarrow> bool \<Rightarrow> (table_elt \<Rightarrow> bool) \<Rightarrow> u_char list \<Rightarrow> nat \<Rightarrow> nat \<Rightarrow>
    header_line \<Rightarrow> table_elt list \<Rightarrow> int \<Rightarrow> hs_rc \<times> nat \<times> header_line \<times> table_elt list \<times> int" where
  "ngx_http_process_request_headers underscores_in_headers ignore_invalid_headers handler mem pos lim r headers request_length =
     (case ngx_http_parse_header_line underscores_in_headers False mem pos lim r of
        (Hl_ok, q, r') \<Rightarrow>
          (let n = request_length + (int q - int (the (header_name_start r'))) in
           if invalid_header r' \<and> ignore_invalid_headers
           then ngx_http_process_request_headers underscores_in_headers ignore_invalid_headers handler mem q lim r' headers n
           else let h = header_entry mem r' in
             if handler h
             then ngx_http_process_request_headers underscores_in_headers ignore_invalid_headers handler mem q lim r' (headers @ [h]) n
             else (Hs_handler, q, r', headers @ [h], n))
      | (Hl_parse_header_done, q, r') \<Rightarrow>
          (Hs_done, q, r', headers, request_length + (int q - int (the (header_name_start r'))))
      | (Hl_again, q, r') \<Rightarrow> (Hs_again, q, r', headers, request_length)
      | (Hl_parse_invalid_header, q, r') \<Rightarrow> (Hs_bad_request, q, r', headers, request_length))"
  by pat_completeness auto
termination
  by (relation "measure (\<lambda>(u, i, h, mem, pos, lim, r, hs, n). lim - pos)")
    (auto dest!: header_line_progress[OF sym])

declare ngx_http_process_request_headers.simps [simp del]

text \<open>What the parser promises for a line it returns.\<close>

lemma header_line_ok:
  assumes "ngx_http_parse_header_line allow upstream mem pos lim r = (Hl_ok, q, r')"
    "hl_array r" "hl_state r = sw_start" "pos \<le> lim" "lim \<le> length mem"
  shows "hl_array r' \<and> hl_state r' = sw_start \<and> q \<le> lim \<and> header_ok allow mem pos (q - 1) r'"
proof -
  have "hl_inv allow mem pos pos r" using assms by (simp add: hl_inv_def)
  from header_line_scan[OF this order_refl assms(4,5), of upstream] assms(1) show ?thesis
    by (auto simp: ngx_http_parse_header_line_def split: parsed.splits hl_rc.splits)
qed

text \<open>The entry built from a line without invalid bytes.\<close>

definition entry_ok :: "bool \<Rightarrow> table_elt \<Rightarrow> bool" where
  "entry_ok allow h \<longleftrightarrow> h_key h \<noteq> [] \<and> list_all (is_name_char allow) (h_key h) \<and>
     h_hash h = ngx_hash_key_lc (h_key h) \<and> h_lowcase_key h = ngx_strlow (h_key h) \<and>
     list_all (\<lambda>c. \<not> is_line_end c) (h_value h) \<and>
     (h_value h \<noteq> [] \<longrightarrow> hd (h_value h) \<noteq> SP \<and> last (h_value h) \<noteq> SP)"

lemma list_all_between:
  assumes "j \<le> length src" "\<And>k. i \<le> k \<Longrightarrow> k < j \<Longrightarrow> P (src ! k)"
  shows "list_all P (between src i j)"
  using assms by (auto simp: list_all_length length_between between_nth)

lemma header_entry_ok:
  assumes "header_ok allow mem lo p r" "\<not> invalid_header r" "p \<le> length mem"
  shows "entry_ok allow (header_entry mem r)"
proof -
  from assms(1) obtain a e h v where
    f: "hl_name allow mem a e r" "header_name_end r = Some e" "header_start r = Some h" "header_end r = Some v"
      "e \<le> h" "h \<le> v" "v \<le> p" "\<And>i. h \<le> i \<Longrightarrow> i < v \<Longrightarrow> \<not> is_line_end (mem ! i)"
      "h < v \<longrightarrow> mem ! h \<noteq> SP \<and> mem ! (v - 1) \<noteq> SP"
    unfolding header_ok_def by blast
  have n: "header_name_start r = Some a" "a < e" "list_all (is_name_char allow) (between mem a e)" "hl_key (between mem a e) r"
    using f(1) assms(2) by (simp_all add: hl_name_def)
  have len: "length (between mem a e) = e - a" "length (between mem h v) = v - h"
    using f assms(3) by (simp_all add: length_between)
  have key: "h_lowcase_key (header_entry mem r) = ngx_strlow (between mem a e)"
    using n(4) mod_less_divisor[of 32 "e - a"]
    by (auto simp: header_entry_def Let_def n f(2-4) len hl_key_def)
  have "hd (between mem h v) = mem ! h \<and> last (between mem h v) = mem ! (v - 1)" if "h < v"
    using that len f assms(3)
    by (auto simp: hd_conv_nth last_conv_nth between_nth length_between simp flip: length_greater_0_conv)
  moreover have "list_all (\<lambda>c. \<not> is_line_end c) (between mem h v)"
    using f assms(3) by (intro list_all_between) auto
  moreover have "between mem a e \<noteq> []" "between mem h v \<noteq> [] \<longleftrightarrow> h < v"
    using n(2) len by (auto simp flip: length_greater_0_conv)
  ultimately show ?thesis
    using n f key unfolding entry_ok_def header_entry_def by (simp add: Let_def hl_key_def)
qed

lemma request_headers_ok:
  assumes "hl_array r" "hl_state r = sw_start" "pos \<le> lim" "lim \<le> length mem" "list_all (entry_ok allow) headers"
    "ngx_http_process_request_headers allow True handler mem pos lim r headers n = (rc, q, r', hs, n')"
  shows "list_all (entry_ok allow) hs"
  using assms
proof (induction allow "True" handler mem pos lim r headers n rule: ngx_http_process_request_headers.induct)
  case (1 allow handler mem pos lim r headers n)
  obtain c m s where call: "ngx_http_parse_header_line allow False mem pos lim r = (c, m, s)"
    by (metis prod_cases3)
  show ?case
  proof (cases c)
    case Hl_ok
    note ok = header_line_ok[OF call[unfolded Hl_ok] "1.prems"(1-4)]
    have e: "\<not> invalid_header s \<Longrightarrow> entry_ok allow (header_entry mem s)"
      using ok "1.prems"(4) by (intro header_entry_ok[of allow mem pos "m - 1"]) auto
    show ?thesis
      using "1.prems" ok e "1.hyps"(1)[OF call[symmetric] Hl_ok refl] "1.hyps"(2)[OF call[symmetric] Hl_ok refl]
      by (auto simp: ngx_http_process_request_headers.simps[of allow True handler mem pos] call Hl_ok Let_def split: if_splits)
  qed (use "1.prems" call in \<open>simp_all add: ngx_http_process_request_headers.simps\<close>)
qed

section \<open>A well-formed header block\<close>

definition header_bytes :: "u_char list \<times> u_char list \<Rightarrow> u_char list" where
  "header_bytes nv = fst nv @ [c8 CHR '':'', SP] @ snd nv @ [CR, LF]"

definition header_wf :: "bool \<Rightarrow> u_char list \<times> u_char list \<Rightarrow> bool" where
  "header_wf allow nv \<longleftrightarrow> fst nv \<noteq> [] \<and> list_all (is_name_char allow) (fst nv) \<and>
     list_all (\<lambda>c. \<not> is_line_end c) (snd nv) \<and> (snd nv \<noteq> [] \<longrightarrow> hd (snd nv) \<noteq> SP \<and> last (snd nv) \<noteq> SP)"

definition at_name :: "nat \<Rightarrow> header_line \<Rightarrow> bool" where
  "at_name a s \<longleftrightarrow> hl_state s = sw_name \<and> header_name_start s = Some a \<and> \<not> invalid_header s"

lemma start_name:
  assumes "is_name_char allow c" "hl_state s = sw_start"
  shows "\<exists>s'. header_line_body allow up mem p c s = Next s' \<and> at_name p s'"
  using assms name_char_facts[OF assms(1)]
  by (auto simp: header_line_body_def hl_start_step_def Let_def at_name_def is_name_char_def is_line_end_def)

lemma next_name:
  assumes "is_name_char allow c" "at_name a s"
  shows "\<exists>s'. header_line_body allow up mem p c s = Next s' \<and> at_name a s'"
  using assms by (auto simp: header_line_body_def hl_name_step_def Let_def at_name_def is_name_char_def)

lemma run_name_tail:
  "list_all (is_name_char allow) cs \<Longrightarrow> at_name a s \<Longrightarrow>
     \<exists>s'. run (header_line_body allow up) mem p cs s = Some s' \<and> at_name a s'"
proof (induction cs arbitrary: p s)
  case (Cons c cs)
  from Cons.prems next_name[of allow c a s up mem p] obtain s1
    where "header_line_body allow up mem p c s = Next s1" "at_name a s1" by auto
  with Cons show ?case by auto
qed simp

lemma run_name:
  assumes "list_all (is_name_char allow) n" "n \<noteq> []" "hl_state s = sw_start"
  shows "\<exists>s'. run (header_line_body allow up) mem p n s = Some s' \<and> at_name p s'"
proof -
  obtain c cs where n: "n = c # cs" using assms(2) by (cases n) auto
  with assms start_name[of allow c s up mem p] obtain s1
    where "header_line_body allow up mem p c s = Next s1" "at_name p s1" by auto
  with assms n run_name_tail[of allow cs p s1 up mem "Suc p"] show ?thesis by auto
qed

text \<open>The value: its pointers once the byte after it, the carriage return, is read.\<close>

definition at_value :: "nat \<Rightarrow> nat \<Rightarrow> nat \<Rightarrow> header_line \<Rightarrow> bool" where
  "at_value a e h s \<longleftrightarrow> header_name_start s = Some a \<and> header_name_end s = Some e \<and>
     header_start s = Some h \<and> \<not> invalid_header s"

definition value_state :: "u_char \<Rightarrow> hl_state" where
  "value_state c = (if c = SP then sw_space_after_value else sw_value)"

lemma value_step:
  assumes "at_value a e h s" "hl_state s = value_state d" "\<not> is_line_end c"
  shows "\<exists>s'. header_line_body allow up mem p c s = Next s' \<and> at_value a e h s' \<and> hl_state s' = value_state c"
  using assms
  by (auto simp: header_line_body_def hl_value_step_def at_value_def value_state_def is_line_end_def)

lemma run_value_tail:
  "list_all (\<lambda>c. \<not> is_line_end c) cs \<Longrightarrow> at_value a e h s \<Longrightarrow> hl_state s = value_state d \<Longrightarrow>
     \<exists>s'. run (header_line_body allow up) mem p cs s = Some s' \<and> at_value a e h s' \<and>
       hl_state s' = value_state (last (d # cs))"
proof (induction cs arbitrary: p s d)
  case (Cons c cs)
  from Cons.prems value_step[of a e h s d c allow up mem p] obtain s1
    where "header_line_body allow up mem p c s = Next s1" "at_value a e h s1" "hl_state s1 = value_state c" by auto
  with Cons show ?case by auto
qed simp

lemma run_value:
  assumes "list_all (\<lambda>c. \<not> is_line_end c) v" "v \<noteq> [] \<longrightarrow> hd v \<noteq> SP \<and> last v \<noteq> SP"
    "at_name a s"
  shows "\<exists>s'. run (header_line_body allow up) mem e ([c8 CHR '':'', SP] @ v @ [CR]) s = Some s' \<and>
     at_value a e (e + 2) s' \<and> header_end s' = Some (e + 2 + length v) \<and> hl_state s' = sw_almost_done"
proof -
  let ?f = "header_line_body allow up"
  let ?s = "s\<lparr>header_name_end := Some e, hl_state := sw_space_before_value\<rparr>"
  have sep: "run ?f mem e [c8 CHR '':'', SP] s = Some ?s"
    using assms(3) lowcase_chars[of 58]
    by (auto simp: header_line_body_def hl_name_step_def Let_def at_name_def hl_value_step_def)
  show ?thesis
  proof (cases v)
    case Nil
    have "run ?f mem (e + 2) [CR] ?s = Some (?s\<lparr>header_start := Some (e + 2), header_end := Some (e + 2), hl_state := sw_almost_done\<rparr>)"
      by (simp add: header_line_body_def hl_value_step_def)
    with Nil assms(3) run_append[of ?f mem e "[c8 CHR '':'', SP]" "[CR]" s] sep show ?thesis
      by (auto simp: at_value_def at_name_def)
  next
    case (Cons c cs)
    let ?s1 = "?s\<lparr>header_start := Some (e + 2), hl_state := sw_value\<rparr>"
    have "?f mem (e + 2) c ?s = Next ?s1"
      using assms(1,2) Cons by (simp add: header_line_body_def hl_value_step_def is_line_end_def)
    moreover have "at_value a e (e + 2) ?s1" "hl_state ?s1 = value_state c"
      using assms Cons by (simp_all add: at_value_def at_name_def value_state_def)
    ultimately obtain s2 where s2: "run ?f mem (e + 2) v ?s = Some s2" "at_value a e (e + 2) s2"
        "hl_state s2 = value_state (last v)"
      using run_value_tail[of cs a e "e + 2" ?s1 c allow up mem "e + 3"] assms(1) Cons
      by (auto simp: numeral_eq_Suc)
    have "run ?f mem (e + 2 + length v) [CR] s2 = Some (s2\<lparr>header_end := Some (e + 2 + length v), hl_state := sw_almost_done\<rparr>)"
      using s2(3) assms(2) Cons by (simp add: header_line_body_def hl_value_step_def value_state_def)
    from run_appendI[OF s2(1) this]
    have "run ?f mem (e + length [c8 CHR '':'', SP]) (v @ [CR]) ?s = Some (s2\<lparr>header_end := Some (e + 2 + length v), hl_state := sw_almost_done\<rparr>)"
      by simp
    from run_appendI[OF sep this] s2(2) show ?thesis by (auto simp: at_value_def)
  qed
qed

lemma header_line_complete:
  assumes "header_wf allow nv" "mem = pre @ header_bytes nv @ post" "hl_array r" "hl_state r = sw_start"
    "length (pre @ header_bytes nv) \<le> lim" "lim \<le> length mem"
  shows "\<exists>r'. ngx_http_parse_header_line allow up mem (length pre) lim r = (Hl_ok, length pre + length (header_bytes nv), r') \<and>
     header_name_start r' = Some (length pre) \<and> \<not> invalid_header r' \<and> hl_array r' \<and> hl_state r' = sw_start \<and>
     h_key (header_entry mem r') = fst nv \<and> h_value (header_entry mem r') = snd nv \<and>
     entry_ok allow (header_entry mem r')"
proof -
  obtain n v where nv: "nv = (n, v)" by (cases nv)
  let ?f = "header_line_body allow up" and ?p = "length pre" and ?e = "length pre + length n"
  let ?t = "[c8 CHR '':'', SP] @ v @ [CR]" and ?q = "length pre + length n + 3 + length v"
  have w: "n \<noteq> []" "list_all (is_name_char allow) n" "list_all (\<lambda>c. \<not> is_line_end c) v"
      "v \<noteq> [] \<longrightarrow> hd v \<noteq> SP \<and> last v \<noteq> SP"
    using assms(1) by (auto simp: header_wf_def nv)
  obtain s1 where s1: "run ?f mem ?p n r = Some s1" "at_name ?p s1"
    using run_name[OF w(2,1) assms(4), of up mem ?p] by blast
  obtain s2 where s2: "run ?f mem ?e ?t s1 = Some s2" "at_value ?p ?e (?e + 2) s2"
      "header_end s2 = Some (?e + 2 + length v)" "hl_state s2 = sw_almost_done"
    using run_value[OF w(3,4) s1(2), of allow up mem ?e] by blast
  have mem: "mem = pre @ (n @ ?t) @ LF # post" and len: "?q < lim" "length (header_bytes nv) = length n + 4 + length v"
    using assms(2,5) by (simp_all add: header_bytes_def nv)
  have "scan ?f mem ?p lim r = scan ?f mem (?p + length (n @ ?t)) lim s2"
    using len by (intro scan_run_at[OF run_appendI[OF s1(1) s2(1)] mem]) simp
  also have "?p + length (n @ ?t) = ?q" by simp
  also have "scan ?f mem ?q lim s2 = Halt ?q (Hl_done, s2)"
    using len s2(4) by (simp add: scan_step header_line_body_def mem nth_append)
  finally have call: "ngx_http_parse_header_line allow up mem ?p lim r = (Hl_ok, ?p + length (header_bytes nv), s2\<lparr>hl_state := sw_start\<rparr>)"
    using len by (simp add: ngx_http_parse_header_line_def header_line_parse_def scan_parse_def header_line_fin_def)
  let ?r = "s2\<lparr>hl_state := sw_start\<rparr>"
  have ok: "hl_array ?r" "header_ok allow mem ?p (?p + length (header_bytes nv) - 1) ?r"
    using header_line_ok[OF call assms(3,4) _ assms(6)] assms(5) by simp_all
  have ptr: "header_name_start ?r = Some ?p" "header_name_end ?r = Some ?e" "header_start ?r = Some (?e + 2)"
      "header_end ?r = Some (?e + 2 + length v)" "\<not> invalid_header ?r"
    using s2(2,3) by (simp_all add: at_value_def)
  have "between mem ?p ?e = n" using between_append[of pre n "?t @ LF # post"] by (simp add: mem)
  moreover have "between mem (?e + 2) (?e + 2 + length v) = v"
    using between_append[of "pre @ n @ [c8 CHR '':'', SP]" v "[CR, LF] @ post"] by (simp add: mem)
  moreover have "entry_ok allow (header_entry mem ?r)"
    using header_entry_ok[OF ok(2) ptr(5)] assms(2) by simp
  ultimately show ?thesis using call ok(1) ptr
    by (intro exI[of _ ?r]) (simp add: header_entry_def Let_def nv)
qed

lemma header_done:
  assumes "mem = pre @ [CR, LF] @ post" "hl_state r = sw_start" "length pre + 2 \<le> lim"
  shows "\<exists>r'. ngx_http_parse_header_line allow up mem (length pre) lim r = (Hl_parse_header_done, length pre + 2, r') \<and>
    header_name_start r' = Some (length pre)"
proof -
  have "mem ! length pre = CR" "mem ! Suc (length pre) = LF" "length pre < lim" "Suc (length pre) < lim"
    using assms by (simp_all add: nth_append)
  thus ?thesis using assms(2)
    by (simp add: ngx_http_parse_header_line_def header_line_parse_def scan_parse_def scan_step header_line_body_def
        hl_start_step_def Let_def header_line_fin_def)
qed

text \<open>The entry the code makes of a name and a value.\<close>

definition entry_of :: "u_char list \<times> u_char list \<Rightarrow> table_elt" where
  "entry_of nv = \<lparr>h_hash = ngx_hash_key_lc (fst nv), h_key = fst nv, h_value = snd nv, h_lowcase_key = ngx_strlow (fst nv)\<rparr>"

lemma entry_of: "entry_ok allow h \<Longrightarrow> h = entry_of (h_key h, h_value h)"
  by (simp add: entry_of_def entry_ok_def)

lemma request_headers_run:
  assumes "list_all (header_wf allow) nvs" "list_all (\<lambda>nv. handler (entry_of nv)) nvs"
    "mem = pre @ (concat (map header_bytes nvs) @ [CR, LF]) @ post" "hl_array r" "hl_state r = sw_start"
    "length pre + length (concat (map header_bytes nvs)) + 2 \<le> lim" "lim \<le> length mem"
  shows "\<exists>r'. ngx_http_process_request_headers allow ign handler mem (length pre) lim r hs n =
    (Hs_done, length pre + length (concat (map header_bytes nvs)) + 2, r', hs @ map entry_of nvs,
     n + int (length (concat (map header_bytes nvs))) + 2)"
  using assms
proof (induction nvs arbitrary: pre r hs n)
  case Nil
  obtain r' where "ngx_http_parse_header_line allow False mem (length pre) lim r = (Hl_parse_header_done, length pre + 2, r')"
      "header_name_start r' = Some (length pre)"
    using header_done[of mem pre post r lim allow False] Nil.prems by auto
  thus ?case by (simp add: ngx_http_process_request_headers.simps)
next
  case (Cons nv nvs)
  let ?post = "concat (map header_bytes nvs) @ [CR, LF] @ post"
  have mem: "mem = pre @ header_bytes nv @ ?post" using Cons.prems(3) by simp
  have "header_wf allow nv" "length (pre @ header_bytes nv) \<le> lim" using Cons.prems by simp_all
  from header_line_complete[OF this(1) mem Cons.prems(4,5) this(2) Cons.prems(7), of False]
  obtain r' where call: "ngx_http_parse_header_line allow False mem (length pre) lim r = (Hl_ok, length pre + length (header_bytes nv), r')"
    and r': "header_name_start r' = Some (length pre)" "\<not> invalid_header r'" "hl_array r'" "hl_state r' = sw_start"
    and h: "h_key (header_entry mem r') = fst nv" "h_value (header_entry mem r') = snd nv" "entry_ok allow (header_entry mem r')"
    by blast
  have e: "header_entry mem r' = entry_of nv" using entry_of[OF h(3)] h(1,2) by simp
  have "handler (entry_of nv)" using Cons.prems(2) by simp
  hence step: "ngx_http_process_request_headers allow ign handler mem (length pre) lim r hs n =
      ngx_http_process_request_headers allow ign handler mem (length (pre @ header_bytes nv)) lim r' (hs @ [entry_of nv])
        (n + int (length (header_bytes nv)))"
    by (subst ngx_http_process_request_headers.simps) (simp add: call r' e Let_def)
  show ?case
    unfolding step
    using Cons.IH[of "pre @ header_bytes nv" r' "hs @ [entry_of nv]" "n + int (length (header_bytes nv))"] Cons.prems r'
    by (simp add: algebra_simps)
qed

section \<open>Properties\<close>


definition hl_init :: header_line where
  "hl_init = \<lparr>hl_state = sw_start, header_name_start = None, header_name_end = None, header_start = None,
     header_end = None, invalid_header = False, header_hash = 0, lowcase_index = 0, lowcase_header = replicate 32 0\<rparr>"

lemma hl_init [simp]: "hl_array hl_init" "hl_state hl_init = sw_start"
  by (simp_all add: hl_init_def hl_array_def)

lemma example_headers:
  "list_all (header_wf False) [(bytes ''Host'', bytes ''a b''), (bytes ''X-1'', [])]"
  by code_simp




text \<open>
  How the bytes of a header line arrive does not matter: one call for each read gives
  the same line as one call on all the bytes.\<close>

theorem header_line_resumable:
  assumes "sorted (pos # ls)" "ls \<noteq> []"
  shows "feed (header_line_parse allow_underscores upstream) mem pos ls r =
    header_line_parse allow_underscores upstream mem pos (List.last ls) r"
  using header_line.feed_eq_parse[OF assms] by simp

theorem header_line_resumable_witness:
  "feed (header_line_parse False True) (bytes ''Host: a'' @ [CR, LF]) 0 [2, 5, 9] hl_init =
    header_line_parse False True (bytes ''Host: a'' @ [CR, LF]) 0 (List.last [2, 5, 9]) hl_init"
  by (rule header_line_resumable) simp_all

text \<open>
  With \<open>ignore_invalid_headers\<close> off the key of an invalid name can be that of the line before: the
  first byte of a name resets the hash and the index only when it is valid. Here the name of four
  bytes @ after \<open>Host\<close> gets the key and hash of \<open>host\<close>.\<close>

lemma stale_key:
  "(case ngx_http_process_request_headers False False (\<lambda>h. True)
      (bytes ''Host:y'' @ [LF] @ bytes ''@@@@:z'' @ [LF, LF]) 0 15 hl_init [] 0 of
      (rc, q, r', hs, n') \<Rightarrow> rc = Hs_done \<and> map h_lowcase_key hs = [bytes ''host'', bytes ''host'']
        \<and> map h_hash hs = [ngx_hash_key_lc (bytes ''Host''), ngx_hash_key_lc (bytes ''Host'')]
        \<and> map h_key hs = [bytes ''Host'', bytes ''@@@@''])"
  by code_simp

end
