(* ===== verification/Ngx_Stream_Round_Robin.thy ===== *)
theory Ngx_Stream_Round_Robin
  imports Nginx_Prelude
begin

text \<open>
  The weighted round robin balancer of the stream proxy:
  \<^verbatim>\<open>src/stream/ngx_stream_upstream_round_robin.c\<close> and its header.

  The linked list of peers is a list, a peer pointer its index. The chain of peer groups
  (\<open>peers->next\<close>: the primary servers, then the backup servers) is a list of \<open>rr_peers\<close>; the
  pointer \<open>rrp->peers\<close> is an index into it and \<open>rrp->current\<close> a pair of indices. The weights
  (\<open>ngx_int_t\<close>) and times (\<open>time_t\<close>) are integers; the counters (\<open>ngx_uint_t\<close>) are 64-bit words.
  The locks of a shared zone make each operation atomic, as it is here; an allocation never fails.
\<close>

section \<open>Data\<close>

record rr_peer =
  sockaddr :: "u_char list"
  name :: "u_char list"
  server :: "u_char list"
  current_weight :: int
  effective_weight :: int
  weight :: int
  conns :: ngx_uint_t
  max_conns :: ngx_uint_t
  fails :: ngx_uint_t
  accessed :: int
  checked :: int
  max_fails :: ngx_uint_t
  fail_timeout :: int
  down :: bool

record rr_peers =
  number :: nat
  total_weight :: ngx_uint_t
  single :: bool
  weighted :: bool
  peers_name :: "u_char list"
  peer :: "rr_peer list"

record rr_peer_data =
  rrp_peers :: nat
  rrp_current :: "(nat \<times> nat) option"
  rrp_tried :: "64 word list"

text \<open>The fields of \<open>ngx_peer_connection_t\<close> the balancer uses.\<close>

record peer_connection =
  pc_sockaddr :: "u_char list"
  pc_name :: "u_char list"
  pc_tries :: nat

definition set_peer :: "rr_peers list \<Rightarrow> nat \<Rightarrow> nat \<Rightarrow> (rr_peer \<Rightarrow> rr_peer) \<Rightarrow> rr_peers list" where
  "set_peer chain k i f =
     chain[k := (chain ! k)\<lparr>peer := (peer (chain ! k))[i := f (peer (chain ! k) ! i)]\<rparr>]"

section \<open>Configuration time\<close>

record upstream_server =
  sv_name :: "u_char list"
  sv_addrs :: "(u_char list \<times> u_char list) list"
  sv_weight :: ngx_uint_t
  sv_max_conns :: ngx_uint_t
  sv_max_fails :: ngx_uint_t
  sv_fail_timeout :: int
  sv_down :: bool
  sv_backup :: bool

definition rr_server_peer :: "upstream_server \<Rightarrow> u_char list \<times> u_char list \<Rightarrow> rr_peer" where
  "rr_server_peer sv addr =
     \<lparr>sockaddr = fst addr, name = snd addr, server = sv_name sv,
      current_weight = 0, effective_weight = sint (sv_weight sv), weight = sint (sv_weight sv),
      conns = 0, max_conns = sv_max_conns sv, fails = 0, accessed = 0, checked = 0,
      max_fails = sv_max_fails sv, fail_timeout = sv_fail_timeout sv, down = sv_down sv\<rparr>"

text \<open>The counting loop (\<open>n\<close>, \<open>w\<close>) and the filling loop over the servers of one kind.\<close>

fun rr_count :: "upstream_server list \<Rightarrow> nat \<times> ngx_uint_t \<Rightarrow> nat \<times> ngx_uint_t" where
  "rr_count [] (n, w) = (n, w)"
| "rr_count (sv # svs) (n, w) =
     rr_count svs (n + length (sv_addrs sv), w + of_nat (length (sv_addrs sv)) * sv_weight sv)"

definition rr_fill :: "upstream_server list \<Rightarrow> rr_peer list" where
  "rr_fill svs = concat (map (\<lambda>sv. map (rr_server_peer sv) (sv_addrs sv)) svs)"

definition rr_group :: "u_char list \<Rightarrow> bool \<Rightarrow> upstream_server list \<Rightarrow> rr_peers" where
  "rr_group host is_single svs =
     (case rr_count svs (0, 0) of (n, w) \<Rightarrow>
       \<lparr>number = n, total_weight = w, single = is_single, weighted = (w \<noteq> of_nat n),
        peers_name = host, peer = rr_fill svs\<rparr>)"

datatype rr_error = No_servers | No_port | Host_not_found

text \<open>
  \<open>servers\<close> is \<open>us->servers\<close> (\<^term>\<open>None\<close> for an upstream implied by \<open>proxy_pass\<close>), \<open>resolve\<close>
  the result of \<open>ngx_inet_resolve_host\<close>: the addresses with their names.
\<close>

definition rr_implicit_peer :: "u_char list \<times> u_char list \<Rightarrow> rr_peer" where
  "rr_implicit_peer addr =
     \<lparr>sockaddr = fst addr, name = snd addr, server = [],
      current_weight = 0, effective_weight = 1, weight = 1,
      conns = 0, max_conns = 0, fails = 0, accessed = 0, checked = 0,
      max_fails = 1, fail_timeout = 10, down = False\<rparr>"

definition ngx_stream_upstream_init_round_robin ::
    "u_char list \<Rightarrow> nat \<Rightarrow> upstream_server list option \<Rightarrow>
     (u_char list \<Rightarrow> nat \<Rightarrow> (u_char list \<times> u_char list) list option) \<Rightarrow> rr_error + rr_peers list" where
  "ngx_stream_upstream_init_round_robin host port servers resolve =
     (case servers of
        Some svs \<Rightarrow>
          (let prim = filter (\<lambda>sv. \<not> sv_backup sv) svs; bk = filter sv_backup svs;
               n = fst (rr_count prim (0, 0)); nb = fst (rr_count bk (0, 0)) in
           if n = 0 then Inl No_servers
           else if nb = 0 then Inr [rr_group host (n = 1) prim]
           else Inr [rr_group host False prim, rr_group host False bk])
      | None \<Rightarrow>
          if port = 0 then Inl No_port
          else (case resolve host port of
                  None \<Rightarrow> Inl Host_not_found
                | Some addrs \<Rightarrow>
                    Inr [\<lparr>number = length addrs, total_weight = of_nat (length addrs),
                          single = (length addrs = 1), weighted = False, peers_name = host,
                          peer = map rr_implicit_peer addrs\<rparr>]))"

section \<open>One session\<close>

definition ngx_stream_upstream_tries :: "rr_peers list \<Rightarrow> nat \<Rightarrow> nat" where
  "ngx_stream_upstream_tries chain k =
     number (chain ! k) + (if Suc k < length chain then number (chain ! Suc k) else 0)"

text \<open>The number of words of the \<open>tried\<close> map: \<open>(n + 63) / 64\<close>.\<close>

definition tried_words :: "nat \<Rightarrow> nat" where
  "tried_words n = (n + 63) div 64"

definition ngx_stream_upstream_init_round_robin_peer ::
    "rr_peers list \<Rightarrow> peer_connection \<Rightarrow> rr_peer_data \<times> peer_connection" where
  "ngx_stream_upstream_init_round_robin_peer chain pc =
     (let n = number (chain ! 0);
          n = (if 1 < length chain \<and> number (chain ! 1) > n then number (chain ! 1) else n) in
      (\<lparr>rrp_peers = 0, rrp_current = None,
        rrp_tried = (if n \<le> 64 then [0] else replicate (tried_words n) 0)\<rparr>,
       pc\<lparr>pc_tries := ngx_stream_upstream_tries chain 0\<rparr>))"

text \<open>
  A name resolved at run time: \<open>ngx_inet_set_port\<close> and \<open>ngx_sock_ntop\<close> are arguments, \<open>sa\<close> is
  \<open>ur->sockaddr\<close> with \<open>ur->name\<close>.
\<close>

definition ngx_stream_upstream_create_round_robin_peer ::
    "(u_char list \<Rightarrow> nat \<Rightarrow> u_char list) \<Rightarrow> (u_char list \<Rightarrow> u_char list) \<Rightarrow>
     u_char list \<Rightarrow> nat \<Rightarrow> nat \<Rightarrow> (u_char list \<times> u_char list) option \<Rightarrow> u_char list list \<Rightarrow>
     peer_connection \<Rightarrow> rr_peers list \<times> rr_peer_data \<times> peer_connection" where
  "ngx_stream_upstream_create_round_robin_peer set_port sock_ntop host port naddrs sa addrs pc =
     (let ps = (case sa of
                  Some addr \<Rightarrow> [rr_implicit_peer addr]
                | None \<Rightarrow> map (\<lambda>a. rr_implicit_peer (set_port a port, sock_ntop (set_port a port)))
                    (take naddrs addrs));
          n = naddrs;
          chain = [\<lparr>number = n, total_weight = 0, single = (n = 1), weighted = False,
                    peers_name = host, peer = ps\<rparr>] in
      (chain,
       \<lparr>rrp_peers = 0, rrp_current = None,
        rrp_tried = (if n \<le> 64 then [0] else replicate (tried_words n) 0)\<rparr>,
       pc\<lparr>pc_tries := ngx_stream_upstream_tries chain 0\<rparr>))"

section \<open>Selecting a peer\<close>

definition tried_test :: "64 word list \<Rightarrow> nat \<Rightarrow> bool" where
  "tried_test tried i \<longleftrightarrow> tried ! (i div 64) AND push_bit (i mod 64) 1 \<noteq> 0"

definition tried_set :: "64 word list \<Rightarrow> nat \<Rightarrow> 64 word list" where
  "tried_set tried i = tried[i div 64 := tried ! (i div 64) OR push_bit (i mod 64) 1]"

text \<open>The four \<open>continue\<close> conditions of the loop.\<close>

definition peer_failing :: "int \<Rightarrow> rr_peer \<Rightarrow> bool" where
  "peer_failing now p \<longleftrightarrow> max_fails p \<noteq> 0 \<and> max_fails p \<le> fails p \<and> now - checked p \<le> fail_timeout p"

definition peer_full :: "rr_peer \<Rightarrow> bool" where
  "peer_full p \<longleftrightarrow> max_conns p \<noteq> 0 \<and> max_conns p \<le> conns p"

definition rr_skip :: "int \<Rightarrow> 64 word list \<Rightarrow> nat \<Rightarrow> rr_peer \<Rightarrow> bool" where
  "rr_skip now tried i p \<longleftrightarrow> tried_test tried i \<or> down p \<or> peer_failing now p \<or> peer_full p"

text \<open>\<open>current_weight += effective_weight; if (effective_weight < weight) effective_weight++\<close>.\<close>

definition peer_gain :: "rr_peer \<Rightarrow> rr_peer" where
  "peer_gain p = p\<lparr>current_weight := current_weight p + effective_weight p,
     effective_weight := (if effective_weight p < weight p then effective_weight p + 1 else effective_weight p)\<rparr>"

text \<open>One pass of the loop, on the peers, \<open>total\<close> and \<open>best\<close>.\<close>

fun rr_visit :: "int \<Rightarrow> 64 word list \<Rightarrow> nat \<Rightarrow> rr_peer list \<times> int \<times> nat option \<Rightarrow>
    rr_peer list \<times> int \<times> nat option" where
  "rr_visit now tried i (ps, tot, best) =
     (if rr_skip now tried i (ps ! i) then (ps, tot, best)
      else let ps' = ps[i := peer_gain (ps ! i)] in
        (ps', tot + effective_weight (ps ! i),
         case best of
           None \<Rightarrow> Some i
         | Some b \<Rightarrow> if current_weight (ps' ! i) > current_weight (ps' ! b) then Some i else best))"

text \<open>What the loop ends with: the chosen peer pays \<open>total\<close> and its check time is renewed.\<close>

definition peer_chosen :: "int \<Rightarrow> int \<Rightarrow> rr_peer \<Rightarrow> rr_peer" where
  "peer_chosen now tot p =
     (let p' = p\<lparr>current_weight := current_weight p - tot\<rparr> in
      if now - checked p > fail_timeout p then p'\<lparr>checked := now\<rparr> else p')"

definition ngx_stream_upstream_get_peer :: "int \<Rightarrow> rr_peer list \<Rightarrow> 64 word list \<Rightarrow>
    rr_peer list \<times> 64 word list \<times> nat option" where
  "ngx_stream_upstream_get_peer now ps tried =
     (case fold (rr_visit now tried) [0..<length ps] (ps, 0, None) of
        (ps', tot, None) \<Rightarrow> (ps', tried, None)
      | (ps', tot, Some b) \<Rightarrow>
          (ps'[b := peer_chosen now tot (ps' ! b)], tried_set tried b, Some b))"

text \<open>
  The first half of \<open>get_round_robin_peer\<close>: the choice in the group \<open>rrp->peers\<close> points to.
  \<open>rrp->current\<close> changes only when a peer was found.
\<close>

definition rr_select :: "int \<Rightarrow> rr_peers list \<Rightarrow> rr_peer_data \<Rightarrow> rr_peers list \<times> rr_peer_data \<times> nat option" where
  "rr_select now chain rrp =
     (let k = rrp_peers rrp; peers = chain ! k in
      if single peers then
        (if down (peer peers ! 0) \<or> peer_full (peer peers ! 0) then (chain, rrp, None)
         else (chain, rrp\<lparr>rrp_current := Some (k, 0)\<rparr>, Some 0))
      else (case ngx_stream_upstream_get_peer now (peer peers) (rrp_tried rrp) of
              (ps, tried, None) \<Rightarrow> (chain[k := peers\<lparr>peer := ps\<rparr>], rrp\<lparr>rrp_tried := tried\<rparr>, None)
            | (ps, tried, Some b) \<Rightarrow>
                (chain[k := peers\<lparr>peer := ps\<rparr>],
                 rrp\<lparr>rrp_tried := tried, rrp_current := Some (k, b)\<rparr>, Some b)))"

text \<open>\<open>pc->sockaddr = ...; pc->name = ...; peer->conns++\<close>.\<close>

definition peer_connect :: "rr_peers list \<Rightarrow> nat \<Rightarrow> nat \<Rightarrow> peer_connection \<Rightarrow> rr_peers list \<times> peer_connection" where
  "peer_connect chain k i pc =
     (let p = peer (chain ! k) ! i in
      (set_peer chain k i (\<lambda>p. p\<lparr>conns := conns p + 1\<rparr>),
       pc\<lparr>pc_sockaddr := sockaddr p, pc_name := name p\<rparr>))"

text \<open>\<open>rrp->peers = peers->next; for (i = 0; i < n; i++) rrp->tried[i] = 0\<close>.\<close>

definition rr_next_group :: "rr_peers list \<Rightarrow> rr_peer_data \<Rightarrow> rr_peer_data" where
  "rr_next_group chain rrp =
     (let k = Suc (rrp_peers rrp); n = tried_words (number (chain ! k)) in
      rrp\<lparr>rrp_peers := k, rrp_tried := replicate n 0 @ drop n (rrp_tried rrp)\<rparr>)"

lemma rr_select_keeps:
  "rr_select now chain rrp = (chain', rrp', r) \<Longrightarrow> length chain' = length chain \<and> rrp_peers rrp' = rrp_peers rrp"
  by (auto simp: rr_select_def Let_def split: if_splits prod.splits option.splits)

function ngx_stream_upstream_get_round_robin_peer ::
    "int \<Rightarrow> rr_peers list \<Rightarrow> rr_peer_data \<Rightarrow> peer_connection \<Rightarrow>
     ngx_rc \<times> rr_peers list \<times> rr_peer_data \<times> peer_connection" where
  "ngx_stream_upstream_get_round_robin_peer now chain rrp pc =
     (let peers = chain ! rrp_peers rrp in
      case rr_select now chain rrp of
        (chain', rrp', Some b) \<Rightarrow>
          (case peer_connect chain' (rrp_peers rrp') b pc of (chain'', pc') \<Rightarrow> (NGX_OK, chain'', rrp', pc'))
      | (chain', rrp', None) \<Rightarrow>
          if Suc (rrp_peers rrp') < length chain'
          then (case ngx_stream_upstream_get_round_robin_peer now chain' (rr_next_group chain' rrp') pc of
                  (rc, chain'', rrp'', pc') \<Rightarrow>
                    if rc \<noteq> NGX_BUSY then (rc, chain'', rrp'', pc')
                    else (NGX_BUSY, chain'', rrp'', pc'\<lparr>pc_name := peers_name peers\<rparr>))
          else (NGX_BUSY, chain', rrp', pc\<lparr>pc_name := peers_name peers\<rparr>))"
  by pat_completeness auto
termination
  by (relation "measure (\<lambda>(now, chain, rrp, pc). length chain - rrp_peers rrp)")
    (auto simp: rr_next_group_def Let_def dest!: rr_select_keeps[OF sym])

declare ngx_stream_upstream_get_round_robin_peer.simps [simp del]

section \<open>Giving a peer back\<close>

text \<open>\<open>state & NGX_PEER_FAILED\<close>.\<close>

definition peer_failed :: "int \<Rightarrow> rr_peer \<Rightarrow> rr_peer" where
  "peer_failed now p =
     (let p1 = p\<lparr>fails := fails p + 1, accessed := now, checked := now\<rparr>;
          p2 = (if max_fails p1 \<noteq> 0
                then p1\<lparr>effective_weight := effective_weight p1 - uint (word_of_int (weight p1) div max_fails p1)\<rparr>
                else p1) in
      if effective_weight p2 < 0 then p2\<lparr>effective_weight := 0\<rparr> else p2)"

definition peer_live :: "rr_peer \<Rightarrow> rr_peer" where
  "peer_live p = (if accessed p < checked p then p\<lparr>fails := 0\<rparr> else p)"

definition ngx_stream_upstream_free_round_robin_peer ::
    "int \<Rightarrow> bool \<Rightarrow> rr_peers list \<Rightarrow> rr_peer_data \<Rightarrow> peer_connection \<Rightarrow> rr_peers list \<times> peer_connection" where
  "ngx_stream_upstream_free_round_robin_peer now failed chain rrp pc =
     (case rrp_current rrp of
        None \<Rightarrow> (chain, pc)
      | Some (k, i) \<Rightarrow>
          if single (chain ! rrp_peers rrp)
          then (set_peer chain k i (\<lambda>p. p\<lparr>conns := conns p - 1\<rparr>), pc\<lparr>pc_tries := 0\<rparr>)
          else (set_peer chain k i (\<lambda>p. (\<lambda>q. q\<lparr>conns := conns q - 1\<rparr>)
                  (if failed then peer_failed now p else peer_live p)),
                pc\<lparr>pc_tries := pc_tries pc - 1\<rparr>))"

text \<open>\<open>NGX_STREAM_UPSTREAM_NOTIFY_CONNECT\<close> on a \<open>SOCK_STREAM\<close> connection.\<close>

definition ngx_stream_upstream_notify_round_robin_peer ::
    "bool \<Rightarrow> bool \<Rightarrow> rr_peers list \<Rightarrow> rr_peer_data \<Rightarrow> rr_peers list" where
  "ngx_stream_upstream_notify_round_robin_peer notify_connect sock_stream chain rrp =
     (case rrp_current rrp of
        None \<Rightarrow> chain
      | Some (k, i) \<Rightarrow> if notify_connect \<and> sock_stream then set_peer chain k i peer_live else chain)"
section \<open>The tried map\<close>

lemma tried_set_length [simp]: "length (tried_set tried i) = length tried"
  by (simp add: tried_set_def)

lemma tried_test_bit: "tried_test tried i = bit (tried ! (i div 64)) (i mod 64)"
  unfolding tried_test_def by (rule bit_and_push_bit_1)

lemma tried_test_set:
  assumes "i div 64 < length tried"
  shows "tried_test (tried_set tried i) j \<longleftrightarrow> i = j \<or> tried_test tried j"
proof (cases "i div 64 = j div 64")
  case True
  have "j mod 64 < 64" by simp
  with True assms have "tried_test (tried_set tried i) j \<longleftrightarrow> i mod 64 = j mod 64 \<or> tried_test tried j"
    by (auto simp: tried_test_bit tried_set_def bit_simps)
  moreover have "i mod 64 = j mod 64 \<longleftrightarrow> i = j" using True by (metis div_mult_mod_eq)
  ultimately show ?thesis by simp
next
  case False
  then show ?thesis by (auto simp: tried_test_bit tried_set_def)
qed

lemma tried_words_less: "i < n \<Longrightarrow> i div 64 < tried_words n"
  by (simp add: tried_words_def)

section \<open>What the selection loop computes\<close>

abbreviation eligible :: "int \<Rightarrow> 64 word list \<Rightarrow> rr_peer list \<Rightarrow> nat \<Rightarrow> bool" where
  "eligible now tried ps i \<equiv> \<not> rr_skip now tried i (ps ! i)"

definition gained :: "int \<Rightarrow> 64 word list \<Rightarrow> rr_peer list \<Rightarrow> nat \<Rightarrow> rr_peer list" where
  "gained now tried ps m =
     map (\<lambda>i. if i < m \<and> eligible now tried ps i then peer_gain (ps ! i) else ps ! i) [0..<length ps]"

definition gain_total :: "int \<Rightarrow> 64 word list \<Rightarrow> rr_peer list \<Rightarrow> nat \<Rightarrow> int" where
  "gain_total now tried ps m =
     (\<Sum>i\<leftarrow>filter (eligible now tried ps) [0..<m]. effective_weight (ps ! i))"

text \<open>The raised weight of a candidate and the first candidate with the greatest one.\<close>

definition raised :: "rr_peer \<Rightarrow> int" where
  "raised p = current_weight p + effective_weight p"

definition first_max :: "int \<Rightarrow> 64 word list \<Rightarrow> rr_peer list \<Rightarrow> nat \<Rightarrow> nat option \<Rightarrow> bool" where
  "first_max now tried ps m best \<longleftrightarrow>
     (case best of
        None \<Rightarrow> \<forall>i<m. \<not> eligible now tried ps i
      | Some b \<Rightarrow> b < m \<and> eligible now tried ps b \<and>
          (\<forall>i<m. eligible now tried ps i \<longrightarrow> raised (ps ! i) \<le> raised (ps ! b)) \<and>
          (\<forall>i<b. eligible now tried ps i \<longrightarrow> raised (ps ! i) < raised (ps ! b)))"

lemma gained_length [simp]: "length (gained now tried ps m) = length ps"
  by (simp add: gained_def)

lemma gained_nth:
  "i < length ps \<Longrightarrow> gained now tried ps m ! i =
     (if i < m \<and> eligible now tried ps i then peer_gain (ps ! i) else ps ! i)"
  by (simp add: gained_def)

lemma gained_0: "gained now tried ps 0 = ps"
  by (rule nth_equalityI) (auto simp: gained_nth)

lemma gained_Suc:
  "m < length ps \<Longrightarrow> gained now tried ps (Suc m) =
     (if eligible now tried ps m then (gained now tried ps m)[m := peer_gain (ps ! m)] else gained now tried ps m)"
  by (rule nth_equalityI) (auto simp: gained_nth nth_list_update less_Suc_eq)

lemma current_weight_gain [simp]: "current_weight (peer_gain p) = raised p"
  by (simp add: peer_gain_def raised_def)

lemma rr_fold:
  assumes "m \<le> length ps"
  shows "\<exists>best. fold (rr_visit now tried) [0..<m] (ps, 0, None) =
      (gained now tried ps m, gain_total now tried ps m, best) \<and> first_max now tried ps m best"
  using assms
proof (induction m)
  case 0
  show ?case by (simp add: gained_0 gain_total_def first_max_def)
next
  case (Suc m)
  then obtain best where IH: "fold (rr_visit now tried) [0..<m] (ps, 0, None) =
      (gained now tried ps m, gain_total now tried ps m, best)" "first_max now tried ps m best" by auto
  have m: "gained now tried ps m ! m = ps ! m" using Suc.prems by (simp add: gained_nth)
  show ?case
  proof (cases "eligible now tried ps m")
    case False
    with IH m Suc.prems show ?thesis
      by (intro exI[of _ best])
         (auto simp: gained_Suc gain_total_def first_max_def less_Suc_eq split: option.splits)
  next
    case True
    show ?thesis
    proof (cases best)
      case None
      with IH m Suc.prems True show ?thesis
        by (auto simp: gained_Suc gain_total_def first_max_def less_Suc_eq Let_def)
    next
      case (Some b)
      with IH(2) have b: "b < m" "eligible now tried ps b" by (auto simp: first_max_def)
      hence "(gained now tried ps m)[m := peer_gain (ps ! m)] ! b = peer_gain (ps ! b)"
        using Suc.prems by (simp add: gained_nth)
      with IH m Suc.prems True Some b show ?thesis
        by (auto simp: gained_Suc gain_total_def first_max_def less_Suc_eq Let_def)
    qed
  qed
qed

text \<open>The whole selection.\<close>

lemma get_peer_cases:
  obtains
    (none) "ngx_stream_upstream_get_peer now ps tried = (ps, tried, None)"
      "\<forall>i<length ps. \<not> eligible now tried ps i"
  | (some) b where "ngx_stream_upstream_get_peer now ps tried =
      ((gained now tried ps (length ps))[b := peer_chosen now (gain_total now tried ps (length ps)) (peer_gain (ps ! b))],
       tried_set tried b, Some b)"
      "first_max now tried ps (length ps) (Some b)"
proof -
  obtain best where f: "fold (rr_visit now tried) [0..<length ps] (ps, 0, None) =
      (gained now tried ps (length ps), gain_total now tried ps (length ps), best)"
      "first_max now tried ps (length ps) best"
    using rr_fold[of "length ps" ps now tried] by auto
  show thesis
  proof (cases best)
    case None
    hence n: "\<forall>i<length ps. \<not> eligible now tried ps i" using f(2) by (simp add: first_max_def)
    hence "gained now tried ps (length ps) = ps" by (intro nth_equalityI) (auto simp: gained_nth)
    with none n f(1) None show thesis by (simp add: ngx_stream_upstream_get_peer_def)
  next
    case (Some b)
    with f(2) have "b < length ps" "eligible now tried ps b" by (auto simp: first_max_def)
    with some[of b] f Some show thesis by (simp add: ngx_stream_upstream_get_peer_def gained_nth)
  qed
qed

section \<open>The contract of a selection\<close>

text \<open>
  What a selection may change of a peer: its current and effective weight and its check time,
  keeping the effective weight between zero and the weight; the current weights of a group keep
  their sum.
\<close>

definition static :: "rr_peer \<Rightarrow> rr_peer" where
  "static p = p\<lparr>current_weight := 0, effective_weight := 0, checked := 0\<rparr>"

definition ew_ok :: "rr_peer \<Rightarrow> bool" where
  "ew_ok p \<longleftrightarrow> 0 \<le> effective_weight p \<and> effective_weight p \<le> weight p"

definition cw_sum :: "rr_peer list \<Rightarrow> int" where
  "cw_sum ps = (\<Sum>p\<leftarrow>ps. current_weight p)"

lemma static_fields:
  assumes "static q = static p"
  shows "conns q = conns p" "max_conns q = max_conns p" "down q = down p" "weight q = weight p"
    "fails q = fails p" "max_fails q = max_fails p" "sockaddr q = sockaddr p" "name q = name p"
    "fail_timeout q = fail_timeout p"
  using arg_cong[OF assms, of conns] arg_cong[OF assms, of max_conns] arg_cong[OF assms, of down]
    arg_cong[OF assms, of weight] arg_cong[OF assms, of fails] arg_cong[OF assms, of max_fails]
    arg_cong[OF assms, of sockaddr] arg_cong[OF assms, of name] arg_cong[OF assms, of fail_timeout]
  by (simp_all add: static_def)

lemma static_gain [simp]: "static (peer_gain p) = static p"
  by (simp add: static_def peer_gain_def)

lemma static_chosen [simp]: "static (peer_chosen now tot p) = static p"
  by (simp add: static_def peer_chosen_def Let_def)

lemma ew_ok_gain: "ew_ok p \<Longrightarrow> ew_ok (peer_gain p)"
  by (simp add: ew_ok_def peer_gain_def)

lemma ew_ok_chosen: "ew_ok (peer_chosen now tot p) = ew_ok p"
  by (simp add: ew_ok_def peer_chosen_def Let_def)

lemma current_weight_chosen [simp]:
  "current_weight (peer_chosen now tot p) = current_weight p - tot"
  by (simp add: peer_chosen_def Let_def)

text \<open>Sums over the peers of a group.\<close>

lemma cw_sum_update:
  assumes "i < length ps"
  shows "cw_sum (ps[i := p]) = cw_sum ps - current_weight (ps ! i) + current_weight p"
  using assms
proof (induction ps arbitrary: i)
  case (Cons q ps)
  then show ?case by (cases i) (auto simp: cw_sum_def)
qed simp

lemma gain_total_sum:
  "gain_total now tried ps m = (\<Sum>i<m. if eligible now tried ps i then effective_weight (ps ! i) else 0)"
  by (induction m) (auto simp: gain_total_def)

lemma cw_sum_gained:
  "cw_sum (gained now tried ps (length ps)) = cw_sum ps + gain_total now tried ps (length ps)"
proof -
  have "cw_sum (gained now tried ps (length ps)) =
    (\<Sum>i<length ps. current_weight (ps ! i) + (if eligible now tried ps i then effective_weight (ps ! i) else 0))"
    unfolding cw_sum_def sum_list_nth gained_length
    by (rule sum.cong) (auto simp: gained_nth raised_def)
  thus ?thesis by (simp add: sum.distrib gain_total_sum cw_sum_def sum_list_nth)
qed

type_synonym pick_fun = "int \<Rightarrow> rr_peer list \<Rightarrow> 64 word list \<Rightarrow> rr_peer list \<times> 64 word list \<times> nat option"

text \<open>
  The picks of one session in one group, whatever the other sessions make of the peers in between:
  \<open>obs\<close> is the time and the state of the peers at each call.
\<close>

fun session_picks :: "pick_fun \<Rightarrow> 64 word list \<Rightarrow> (int \<times> rr_peer list) list \<Rightarrow> nat list" where
  "session_picks pick tried [] = []"
| "session_picks pick tried ((now, ps) # obs) =
     (case pick now ps tried of
        (ps', tried', Some b) \<Rightarrow> b # session_picks pick tried' obs
      | (ps', tried', None) \<Rightarrow> session_picks pick tried' obs)"

locale selection =
  fixes pick :: pick_fun
  assumes pick_None: "pick now ps tried = (ps', tried', None) \<Longrightarrow>
      ps' = ps \<and> tried' = tried \<and> (\<forall>i<length ps. rr_skip now tried i (ps ! i))"
    and pick_Some: "pick now ps tried = (ps', tried', Some b) \<Longrightarrow>
      b < length ps \<and> \<not> rr_skip now tried b (ps ! b) \<and> tried' = tried_set tried b"
    and pick_static: "pick now ps tried = (ps', tried', r) \<Longrightarrow> map static ps' = map static ps"
    and pick_sum: "pick now ps tried = (ps', tried', r) \<Longrightarrow> cw_sum ps' = cw_sum ps"
    and pick_ew: "pick now ps tried = (ps', tried', r) \<Longrightarrow> list_all ew_ok ps \<Longrightarrow> list_all ew_ok ps'"
begin

lemma pick_length: "pick now ps tried = (ps', tried', r) \<Longrightarrow> length ps' = length ps"
  using pick_static map_eq_imp_length_eq by metis

lemma pick_tried_length: "pick now ps tried = (ps', tried', r) \<Longrightarrow> length tried' = length tried"
  using pick_None pick_Some by (cases r) fastforce+

lemma picks_distinct:
  assumes "tried_words n \<le> length tried" "list_all (\<lambda>(now, ps). length ps = n) obs"
  shows "distinct (session_picks pick tried obs) \<and> (\<forall>b\<in>set (session_picks pick tried obs). b < n \<and> \<not> tried_test tried b)"
  using assms
proof (induction obs arbitrary: tried)
  case (Cons o1 obs)
  obtain now ps where o1: "o1 = (now, ps)" by force
  obtain ps' tried' r where p: "pick now ps tried = (ps', tried', r)" by (metis prod_cases3)
  have IH: "distinct (session_picks pick tried' obs) \<and> (\<forall>b\<in>set (session_picks pick tried' obs). b < n \<and> \<not> tried_test tried' b)"
    using Cons.prems pick_tried_length[OF p] by (intro Cons.IH) simp_all
  show ?case
  proof (cases r)
    case None
    with IH p pick_None[of now ps tried] show ?thesis by (auto simp: o1)
  next
    case (Some b)
    from pick_Some[OF p[unfolded Some]]
    have b: "b < length ps" "\<not> rr_skip now tried b (ps ! b)" "tried' = tried_set tried b" by auto
    have "length ps = n" using Cons.prems(2) by (simp add: o1)
    hence "b div 64 < length tried"
      using Cons.prems(1) b(1) tried_words_less[of b n] by (auto intro: less_le_trans)
    from tried_test_set[OF this] b IH p Some \<open>length ps = n\<close> show ?thesis
      by (auto simp: rr_skip_def o1)
  qed
qed simp

lemma picks_bounded:
  assumes "tried_words n \<le> length tried" "list_all (\<lambda>(now, ps). length ps = n) obs"
  shows "length (session_picks pick tried obs) \<le> n"
proof -
  have "set (session_picks pick tried obs) \<subseteq> {..<n}" using picks_distinct[OF assms] by auto
  hence "card (set (session_picks pick tried obs)) \<le> n" using card_mono[of "{..<n}"] by fastforce
  thus ?thesis using picks_distinct[OF assms] by (simp add: distinct_card)
qed

end

text \<open>The round robin selection keeps the contract.\<close>

lemma get_peer_static:
  "ngx_stream_upstream_get_peer now ps tried = (ps', tried', r) \<Longrightarrow> map static ps' = map static ps"
  by (rule get_peer_cases[of now ps tried])
    (auto intro!: nth_equalityI simp: gained_nth nth_list_update first_max_def)

lemma get_peer_sum:
  assumes "ngx_stream_upstream_get_peer now ps tried = (ps', tried', r)"
  shows "cw_sum ps' = cw_sum ps"
proof (rule get_peer_cases[of now ps tried])
  fix b assume b: "ngx_stream_upstream_get_peer now ps tried =
      ((gained now tried ps (length ps))[b := peer_chosen now (gain_total now tried ps (length ps)) (peer_gain (ps ! b))],
       tried_set tried b, Some b)" "first_max now tried ps (length ps) (Some b)"
  hence "b < length ps" "eligible now tried ps b" by (auto simp: first_max_def)
  with b assms show ?thesis by (auto simp: cw_sum_update gained_nth cw_sum_gained)
qed (use assms in auto)

interpretation rr: selection ngx_stream_upstream_get_peer
proof
  fix now ps tried ps' tried' and b :: nat and r
  show "ngx_stream_upstream_get_peer now ps tried = (ps', tried', None) \<Longrightarrow>
      ps' = ps \<and> tried' = tried \<and> (\<forall>i<length ps. rr_skip now tried i (ps ! i))"
    by (rule get_peer_cases[of now ps tried]) auto
  show "ngx_stream_upstream_get_peer now ps tried = (ps', tried', Some b) \<Longrightarrow>
      b < length ps \<and> \<not> rr_skip now tried b (ps ! b) \<and> tried' = tried_set tried b"
    by (rule get_peer_cases[of now ps tried]) (auto simp: first_max_def)
  assume a: "ngx_stream_upstream_get_peer now ps tried = (ps', tried', r)"
  show "map static ps' = map static ps" by (rule get_peer_static[OF a])
  show "cw_sum ps' = cw_sum ps" by (rule get_peer_sum[OF a])
  show "list_all ew_ok ps \<Longrightarrow> list_all ew_ok ps'"
    by (rule get_peer_cases[of now ps tried])
      (use a in \<open>auto simp: list_all_length gained_nth nth_list_update ew_ok_chosen ew_ok_gain first_max_def\<close>)
qed

section \<open>Fairness\<close>

text \<open>
  A history of one upstream group: sessions start and take a peer (each with a fresh \<open>rrp\<close>), and
  connections end without a failure, in any order.
\<close>

datatype rr_event = Ev_get int | Ev_free int nat

definition rr_pc :: peer_connection where
  "rr_pc = \<lparr>pc_sockaddr = [], pc_name = [], pc_tries = 0\<rparr>"

fun rr_do :: "rr_event \<Rightarrow> rr_peers list \<times> nat list \<Rightarrow> rr_peers list \<times> nat list" where
  "rr_do (Ev_get now) (chain, picked) =
     (case ngx_stream_upstream_init_round_robin_peer chain rr_pc of (rrp, pc) \<Rightarrow>
      case ngx_stream_upstream_get_round_robin_peer now chain rrp pc of (rc, chain', rrp', pc') \<Rightarrow>
        (chain', if rc = NGX_OK then picked @ [snd (the (rrp_current rrp'))] else picked))"
| "rr_do (Ev_free now i) (chain, picked) =
     (fst (ngx_stream_upstream_free_round_robin_peer now False chain
        \<lparr>rrp_peers = 0, rrp_current = Some (0, i), rrp_tried = []\<rparr> rr_pc), picked)"

definition rr_run :: "rr_event list \<Rightarrow> rr_peers list \<Rightarrow> rr_peers list \<times> nat list" where
  "rr_run evs chain = fold rr_do evs (chain, [])"

fun is_get :: "rr_event \<Rightarrow> bool" where
  "is_get (Ev_get now) = True"
| "is_get (Ev_free now i) = False"

text \<open>Every peer can be chosen: up, not failing, without a connection limit, at full weight.\<close>

definition peer_steady :: "rr_peer \<Rightarrow> bool" where
  "peer_steady p \<longleftrightarrow> \<not> down p \<and> (max_fails p = 0 \<or> fails p = 0) \<and> max_conns p = 0 \<and>
     effective_weight p = weight p \<and> 1 \<le> weight p"

definition weight_sum :: "rr_peer list \<Rightarrow> int" where
  "weight_sum ps = (\<Sum>p\<leftarrow>ps. weight p)"

definition group_steady :: "rr_peers \<Rightarrow> bool" where
  "group_steady g \<longleftrightarrow> \<not> single g \<and> number g = length (peer g) \<and> peer g \<noteq> [] \<and>
     list_all peer_steady (peer g)"

text \<open>The state after the picks \<open>picked\<close>: each weight is the share still owed to the peer.\<close>

definition rr_balance :: "int list \<Rightarrow> nat list \<Rightarrow> rr_peers \<Rightarrow> bool" where
  "rr_balance ws picked g \<longleftrightarrow> group_steady g \<and> map weight (peer g) = ws \<and> set picked \<subseteq> {..<length ws} \<and>
     (\<forall>i<length ws. current_weight (peer g ! i) =
        int (length picked) * ws ! i - sum_list ws * int (count_list picked i) \<and>
        - sum_list ws < current_weight (peer g ! i))"

lemma fresh_tried:
  "i < number g \<Longrightarrow> \<not> tried_test (rrp_tried (fst (ngx_stream_upstream_init_round_robin_peer [g] pc))) i"
  using tried_words_less[of i "number g"]
  by (auto simp: ngx_stream_upstream_init_round_robin_peer_def Let_def tried_test_bit)

lemma steady_not_skip:
  "peer_steady p \<Longrightarrow> \<not> tried_test tried i \<Longrightarrow> \<not> rr_skip now tried i p"
  by (auto simp: rr_skip_def peer_steady_def peer_failing_def peer_full_def)

lemma get_peer_steady:
  assumes "list_all peer_steady ps" "ps \<noteq> []" "\<forall>i<length ps. \<not> tried_test tried i"
  obtains b where "b < length ps"
    "\<forall>i<length ps. raised (ps ! i) \<le> raised (ps ! b)"
    "ngx_stream_upstream_get_peer now ps tried =
      ((map peer_gain ps)[b := peer_chosen now (weight_sum ps) (peer_gain (ps ! b))], tried_set tried b, Some b)"
proof -
  have e: "eligible now tried ps i" if "i < length ps" for i
    using assms that by (intro steady_not_skip) (auto simp: list_all_length)
  have g: "gained now tried ps (length ps) = map peer_gain ps"
    by (rule nth_equalityI) (auto simp: gained_nth e)
  have "gain_total now tried ps (length ps) = (\<Sum>i<length ps. weight (ps ! i))"
    unfolding gain_total_sum using e assms(1)
    by (intro sum.cong) (auto simp: list_all_length peer_steady_def)
  hence t: "gain_total now tried ps (length ps) = weight_sum ps"
    by (simp add: weight_sum_def sum_list_nth)
  show thesis
  proof (rule get_peer_cases[of now ps tried])
    assume "\<forall>i<length ps. \<not> eligible now tried ps i"
    with e assms(2) show thesis by blast
  next
    fix b assume "ngx_stream_upstream_get_peer now ps tried =
      ((gained now tried ps (length ps))[b := peer_chosen now (gain_total now tried ps (length ps)) (peer_gain (ps ! b))],
       tried_set tried b, Some b)" "first_max now tried ps (length ps) (Some b)"
    with that[of b] e show thesis unfolding g t by (auto simp: first_max_def)
  qed
qed

text \<open>Some raised weight is positive, so the greatest one is.\<close>

lemma raised_max_pos:
  assumes "list_all peer_steady ps" "cw_sum ps = 0" "ps \<noteq> []" "\<forall>i<length ps. raised (ps ! i) \<le> raised (ps ! b)"
  shows "0 < raised (ps ! b)"
proof (rule ccontr)
  assume "\<not> 0 < raised (ps ! b)"
  hence "raised (ps ! i) \<le> 0" if "i < length ps" for i using assms(4) that by force
  hence "(\<Sum>i<length ps. raised (ps ! i)) \<le> 0" by (intro sum_nonpos) auto
  moreover have "(\<Sum>i<length ps. raised (ps ! i)) = cw_sum ps + (\<Sum>i<length ps. effective_weight (ps ! i))"
    by (simp add: raised_def sum.distrib cw_sum_def sum_list_nth)
  moreover have "0 < (\<Sum>i<length ps. effective_weight (ps ! i))"
    using assms(1,3) by (intro sum_pos) (auto simp: list_all_length peer_steady_def)
  ultimately show False using assms(2) by simp
qed

lemma peer_steady_gain [simp]: "peer_steady p \<Longrightarrow> peer_steady (peer_gain p)"
  by (simp add: peer_steady_def peer_gain_def)

lemma peer_steady_chosen [simp]: "peer_steady (peer_chosen now tot p) = peer_steady p"
  by (simp add: peer_steady_def peer_chosen_def Let_def)

lemma weight_gain_chosen [simp]: "weight (peer_gain p) = weight p" "weight (peer_chosen now tot p) = weight p"
  by (simp_all add: peer_gain_def peer_chosen_def Let_def)

lemma rr_balance_sum:
  assumes "rr_balance ws picked g"
  shows "cw_sum (peer g) = 0"
proof -
  have len: "length (peer g) = length ws" using assms by (auto simp: rr_balance_def)
  have "sum (count_list picked) {..<length ws} = length picked"
    using assms by (intro sum_count_set) (auto simp: rr_balance_def)
  hence c: "(\<Sum>i<length ws. int (count_list picked i)) = int (length picked)"
    by (metis of_nat_sum)
  have "cw_sum (peer g) = (\<Sum>i<length ws. int (length picked) * ws ! i - sum_list ws * int (count_list picked i))"
    unfolding cw_sum_def sum_list_nth len using assms by (intro sum.cong) (auto simp: rr_balance_def)
  also have "\<dots> = int (length picked) * (\<Sum>i<length ws. ws ! i) - sum_list ws * int (length picked)"
    by (simp add: sum_subtractf sum_distrib_left[symmetric] c)
  also have "(\<Sum>i<length ws. ws ! i) = sum_list ws" by (simp add: sum_list_sum_nth atLeast0LessThan)
  finally show ?thesis by simp
qed

lemma rr_do_get_eq:
  assumes "group_steady g"
    and "ngx_stream_upstream_get_peer now (peer g)
           (rrp_tried (fst (ngx_stream_upstream_init_round_robin_peer [g] rr_pc))) = (ps, tried', Some b)"
  shows "rr_do (Ev_get now) ([g], picked) =
    ([g\<lparr>peer := ps[b := (ps ! b)\<lparr>conns := conns (ps ! b) + 1\<rparr>]\<rparr>], picked @ [b])"
proof -
  obtain rrp pc where i: "ngx_stream_upstream_init_round_robin_peer [g] rr_pc = (rrp, pc)" by force
  hence "rrp_peers rrp = 0" by (auto simp: ngx_stream_upstream_init_round_robin_peer_def Let_def)
  with assms i show ?thesis
    by (simp add: ngx_stream_upstream_get_round_robin_peer.simps rr_select_def Let_def group_steady_def
        peer_connect_def set_peer_def)
qed

lemma peer_steady_conns [simp]: "peer_steady (p\<lparr>conns := c\<rparr>) = peer_steady p"
  by (simp add: peer_steady_def)

lemma rr_balance_get:
  assumes "rr_balance ws picked g"
  shows "\<exists>b g'. rr_do (Ev_get now) ([g], picked) = ([g'], picked @ [b]) \<and> rr_balance ws (picked @ [b]) g'"
proof -
  let ?ps = "peer g" and ?tried = "rrp_tried (fst (ngx_stream_upstream_init_round_robin_peer [g] rr_pc))"
  have s: "group_steady g" "list_all peer_steady ?ps" "?ps \<noteq> []" and len: "length ?ps = length ws"
    and ws: "map weight ?ps = ws"
    using assms by (auto simp: rr_balance_def group_steady_def)
  have "\<forall>i<length ?ps. \<not> tried_test ?tried i"
    using fresh_tried[of _ g rr_pc] s(1) by (simp add: group_steady_def)
  from get_peer_steady[OF s(2,3) this, of now] obtain b where b: "b < length ?ps"
    "\<forall>i<length ?ps. raised (?ps ! i) \<le> raised (?ps ! b)"
    and get: "ngx_stream_upstream_get_peer now ?ps ?tried =
      ((map peer_gain ?ps)[b := peer_chosen now (weight_sum ?ps) (peer_gain (?ps ! b))], tried_set ?tried b, Some b)"
    by blast
  let ?p = "peer_chosen now (weight_sum ?ps) (peer_gain (?ps ! b))"
  let ?g = "g\<lparr>peer := (map peer_gain ?ps)[b := ?p\<lparr>conns := conns ?p + 1\<rparr>]\<rparr>"
  have W: "weight_sum ?ps = sum_list ws" using ws by (auto simp: weight_sum_def)
  have wi: "weight (?ps ! i) = ws ! i" "effective_weight (?ps ! i) = ws ! i" "1 \<le> ws ! i" if "i < length ws" for i
  proof -
    show "weight (?ps ! i) = ws ! i" using that by (simp add: ws[symmetric])
    moreover have "peer_steady (?ps ! i)" using s(2) len that by (simp add: list_all_length)
    ultimately show "effective_weight (?ps ! i) = ws ! i" "1 \<le> ws ! i" by (simp_all add: peer_steady_def)
  qed
  have cw0: "current_weight (?ps ! i) = int (length picked) * ws ! i - sum_list ws * int (count_list picked i)"
    "- sum_list ws < current_weight (?ps ! i)" if "i < length ws" for i
    using assms that unfolding rr_balance_def by blast+
  have cw: "current_weight (peer ?g ! i) = raised (?ps ! i) - (if i = b then sum_list ws else 0)"
    if "i < length ws" for i
    using that b(1) len W by (simp add: nth_list_update)
  have steady: "group_steady ?g"
    using s(1,2) b(1) unfolding group_steady_def
    by (simp add: list_all_length nth_list_update)
  moreover have "map weight (peer ?g) = ws"
    using b(1) by (simp add: map_update comp_def ws[symmetric] list_update_same_conv)
  moreover have "set (picked @ [b]) \<subseteq> {..<length ws}" using assms b(1) len by (auto simp: rr_balance_def)
  moreover have "current_weight (peer ?g ! i) =
      int (length (picked @ [b])) * ws ! i - sum_list ws * int (count_list (picked @ [b]) i)"
    if "i < length ws" for i
    unfolding cw[OF that] raised_def wi(2)[OF that] cw0(1)[OF that] by (simp add: algebra_simps)
  moreover have "- sum_list ws < current_weight (peer ?g ! i)" if "i < length ws" for i
    using cw0(2)[OF that] wi(2,3)[OF that] raised_max_pos[OF s(2) rr_balance_sum[OF assms] s(3) b(2)]
    unfolding cw[OF that] by (cases "i = b") (simp_all add: raised_def)
  ultimately have "rr_balance ws (picked @ [b]) ?g" unfolding rr_balance_def by simp
  moreover have "rr_do (Ev_get now) ([g], picked) = ([?g], picked @ [b])"
    using b(1) unfolding rr_do_get_eq[OF s(1) get] by simp
  ultimately show ?thesis by blast
qed

lemma rr_balance_free:
  assumes "rr_balance ws picked g"
  shows "\<exists>g'. rr_do (Ev_free now i) ([g], picked) = ([g'], picked) \<and> rr_balance ws picked g'"
proof -
  let ?f = "\<lambda>p. (peer_live p)\<lparr>conns := conns (peer_live p) - 1\<rparr>"
  let ?g = "g\<lparr>peer := (peer g)[i := ?f (peer g ! i)]\<rparr>"
  have s: "\<not> single g" "list_all peer_steady (peer g)"
    using assms by (auto simp: rr_balance_def group_steady_def)
  have f: "peer_steady p \<Longrightarrow> peer_steady (?f p)" "weight (?f p) = weight p"
    "current_weight (?f p) = current_weight p" for p
    by (auto simp: peer_steady_def peer_live_def)
  have "rr_do (Ev_free now i) ([g], picked) = ([?g], picked)"
    using s(1) by (simp add: ngx_stream_upstream_free_round_robin_peer_def set_peer_def)
  moreover have "group_steady ?g"
    using assms f(1) by (auto simp: rr_balance_def group_steady_def list_all_length nth_list_update_if)
  moreover have "map weight (peer ?g) = map weight (peer g)"
    by (rule nth_equalityI) (auto simp: nth_list_update_if f(2))
  moreover have "current_weight (peer ?g ! j) = current_weight (peer g ! j)" if "j < length (peer g)" for j
    using that by (auto simp: nth_list_update_if f(3))
  ultimately show ?thesis
    using assms unfolding rr_balance_def by (metis length_map)
qed

lemma rr_balance_run:
  assumes "rr_balance ws picked g"
  shows "\<exists>g' picked'. fold rr_do evs ([g], picked) = ([g'], picked') \<and> rr_balance ws picked' g' \<and>
    length picked' = length picked + length (filter is_get evs)"
  using assms
proof (induction evs arbitrary: g picked)
  case (Cons ev evs)
  show ?case
  proof (cases ev)
    case (Ev_get now)
    from rr_balance_get[OF Cons.prems, of now] obtain b g' where
      g': "rr_do ev ([g], picked) = ([g'], picked @ [b])" "rr_balance ws (picked @ [b]) g'"
      unfolding Ev_get by blast
    from Cons.IH[OF g'(2)] show ?thesis by (simp add: g'(1) del: rr_do.simps) (simp add: Ev_get)
  next
    case (Ev_free now i)
    with rr_balance_free[OF Cons.prems, of now i] Cons.IH show ?thesis by fastforce
  qed
qed simp


definition rr_sample :: rr_peers where
  "rr_sample = rr_group (bytes ''backend'') False
     [\<lparr>sv_name = bytes ''a'', sv_addrs = [(bytes ''a1'', bytes ''a1'')], sv_weight = 2, sv_max_conns = 0,
       sv_max_fails = 1, sv_fail_timeout = 10, sv_down = False, sv_backup = False\<rparr>,
      \<lparr>sv_name = bytes ''b'', sv_addrs = [(bytes ''b1'', bytes ''b1'')], sv_weight = 1, sv_max_conns = 0,
       sv_max_fails = 1, sv_fail_timeout = 10, sv_down = False, sv_backup = False\<rparr>]"

lemma rr_sample_steady:
  "group_steady rr_sample" "list_all (\<lambda>p. current_weight p = 0) (peer rr_sample)"
  "length (peer rr_sample) = 2" "weight_sum (peer rr_sample) = 3" "weight (peer rr_sample ! 0) = 2"
  by (simp_all add: rr_sample_def rr_group_def rr_fill_def rr_server_peer_def group_steady_def
      peer_steady_def weight_sum_def)


text \<open>
  The retries of a session: whatever the other sessions do to the peers in between,
  the calls of one session on a group never choose a peer twice, so at most as many as it has
  peers succeed before the group is exhausted.\<close>

theorem round_robin_no_retry:
  assumes "tried_words n \<le> length tried" "list_all (\<lambda>(now, ps). length ps = n) obs"
  shows "distinct (session_picks ngx_stream_upstream_get_peer tried obs) \<and>
    length (session_picks ngx_stream_upstream_get_peer tried obs) \<le> n"
  using rr.picks_distinct[OF assms] rr.picks_bounded[OF assms] by blast

theorem round_robin_no_retry_witness:
  "distinct (session_picks ngx_stream_upstream_get_peer [0] (replicate 5 (7, peer rr_sample))) \<and>
   length (session_picks ngx_stream_upstream_get_peer [0] (replicate 5 (7, peer rr_sample))) \<le> 2"
  using round_robin_no_retry[of 2 "[0]" "replicate 5 (7, peer rr_sample)"]
  by (simp add: tried_words_def rr_sample_steady(3) list_all_iff)

end
