(* ===== verification/Ngx_Stream_Sessions.thy ===== *)
theory Ngx_Stream_Sessions
  imports Ngx_Stream_Round_Robin
begin

text \<open>
  The sessions of the stream proxy sharing one upstream: a step relation of their calls of the
  balancer, the contract a balancer's \<open>get\<close> has to keep (locale \<open>balancer\<close>), the invariant of
  connection counters and weights proved once from that contract, and its round robin instance.
\<close>

section \<open>All the sessions of an upstream\<close>

text \<open>
  The shared state is the chain; a session has its \<open>rrp\<close> and a mark that it holds a peer: \<open>get\<close>
  returned \<open>NGX_OK\<close> and \<open>free\<close> was not called yet (the proxy tests \<open>u->peer.sockaddr\<close>). The calls
  of different sessions interleave in any order. \<open>get\<close> is a parameter: the balancers differ in it
  and share the rest.
\<close>

type_synonym get_peer_fun = "int \<Rightarrow> rr_peers list \<Rightarrow> rr_peer_data \<Rightarrow> peer_connection \<Rightarrow>
    ngx_rc \<times> rr_peers list \<times> rr_peer_data \<times> peer_connection"

type_synonym rr_system = "rr_peers list \<times> (rr_peer_data \<times> bool) list"

inductive rr_step :: "get_peer_fun \<Rightarrow> rr_system \<Rightarrow> rr_system \<Rightarrow> bool" for get :: get_peer_fun where
  start: "ngx_stream_upstream_init_round_robin_peer chain pc = (rrp, pc') \<Longrightarrow>
    rr_step get (chain, ss) (chain, ss @ [(rrp, False)])"
| get: "j < length ss \<Longrightarrow> ss ! j = (rrp, False) \<Longrightarrow> get now chain rrp pc = (rc, chain', rrp', pc') \<Longrightarrow>
    rr_step get (chain, ss) (chain', ss[j := (rrp', rc = NGX_OK)])"
| free: "j < length ss \<Longrightarrow> ss ! j = (rrp, True) \<Longrightarrow>
    ngx_stream_upstream_free_round_robin_peer now failed chain rrp pc = (chain', pc') \<Longrightarrow>
    rr_step get (chain, ss) (chain', ss[j := (rrp, False)])"
| notify: "j < length ss \<Longrightarrow> ss ! j = (rrp, True) \<Longrightarrow>
    ngx_stream_upstream_notify_round_robin_peer connect stream chain rrp = chain' \<Longrightarrow>
    rr_step get (chain, ss) (chain', ss)"

text \<open>How many sessions hold peer \<open>i\<close> of group \<open>k\<close>.\<close>

definition holders :: "(rr_peer_data \<times> bool) list \<Rightarrow> nat \<Rightarrow> nat \<Rightarrow> nat" where
  "holders ss k i = length (filter (\<lambda>(rrp, h). h \<and> rrp_current rrp = Some (k, i)) ss)"

definition peer_inv :: "nat \<Rightarrow> rr_peer \<Rightarrow> bool" where
  "peer_inv held p \<longleftrightarrow> ew_ok p \<and> conns p = of_nat held \<and> (max_conns p = 0 \<or> held \<le> unat (max_conns p))"

definition session_inv :: "rr_peers list \<Rightarrow> rr_peer_data \<times> bool \<Rightarrow> bool" where
  "session_inv chain s \<longleftrightarrow> (case s of (rrp, h) \<Rightarrow>
     rrp_peers rrp < length chain \<and>
     list_all (\<lambda>g. tried_words (length (peer g)) \<le> length (rrp_tried rrp)) chain \<and>
     (h \<longrightarrow> (\<exists>i. rrp_current rrp = Some (rrp_peers rrp, i) \<and> i < length (peer (chain ! rrp_peers rrp)))))"

definition rr_inv :: "rr_system \<Rightarrow> bool" where
  "rr_inv sys \<longleftrightarrow> (case sys of (chain, ss) \<Rightarrow>
     chain \<noteq> [] \<and> length chain \<le> 2 \<and>
     (\<forall>k<length chain. number (chain ! k) = length (peer (chain ! k)) \<and> peer (chain ! k) \<noteq> [] \<and>
        cw_sum (peer (chain ! k)) = 0 \<and>
        (\<forall>i<length (peer (chain ! k)). peer_inv (holders ss k i) (peer (chain ! k) ! i))) \<and>
     list_all (session_inv chain) ss)"

subsection \<open>The contract of \<open>get\<close>\<close>

definition group_evolves :: "rr_peers \<Rightarrow> rr_peers \<Rightarrow> bool" where
  "group_evolves g g' \<longleftrightarrow> number g' = number g \<and> single g' = single g \<and>
     map static (peer g') = map static (peer g) \<and> cw_sum (peer g') = cw_sum (peer g) \<and>
     (list_all ew_ok (peer g) \<longrightarrow> list_all ew_ok (peer g'))"

definition chain_evolves :: "rr_peers list \<Rightarrow> rr_peers list \<Rightarrow> bool" where
  "chain_evolves chain chain' \<longleftrightarrow> list_all2 group_evolves chain chain'"

lemma group_evolves_refl [simp]: "group_evolves g g"
  by (simp add: group_evolves_def)

lemma chain_evolves_refl [simp]: "chain_evolves chain chain"
  by (simp add: chain_evolves_def list_all2_refl)

lemma chain_evolves_trans:
  "chain_evolves c1 c2 \<Longrightarrow> chain_evolves c2 c3 \<Longrightarrow> chain_evolves c1 c3"
  unfolding chain_evolves_def
  by (erule list_all2_trans[rotated], assumption) (simp add: group_evolves_def)

lemma chain_evolves_length: "chain_evolves c c' \<Longrightarrow> length c' = length c"
  by (simp add: chain_evolves_def list_all2_lengthD)

lemma chain_evolves_nth: "chain_evolves c c' \<Longrightarrow> k < length c \<Longrightarrow> group_evolves (c ! k) (c' ! k)"
  by (simp add: chain_evolves_def list_all2_nthD)

lemma chain_evolves_update:
  "k < length c \<Longrightarrow> group_evolves (c ! k) g \<Longrightarrow> chain_evolves c (c[k := g])"
  by (simp add: chain_evolves_def list_all2_conv_all_nth nth_list_update)

lemma group_evolves_length: "group_evolves g g' \<Longrightarrow> length (peer g') = length (peer g)"
  by (metis group_evolves_def length_map)

lemma group_evolves_static:
  assumes "group_evolves g g'" "i < length (peer g)"
  shows "static (peer g' ! i) = static (peer g ! i)"
proof -
  have "map static (peer g') ! i = map static (peer g) ! i" using assms(1) by (simp add: group_evolves_def)
  thus ?thesis using assms(2) group_evolves_length[OF assms(1)] by simp
qed

text \<open>The groups are as configured and the session's \<open>tried\<close> map is large enough for each.\<close>

definition get_pre :: "rr_peers list \<Rightarrow> rr_peer_data \<Rightarrow> bool" where
  "get_pre chain rrp \<longleftrightarrow> rrp_peers rrp < length chain \<and>
     list_all (\<lambda>g. number g = length (peer g) \<and> peer g \<noteq> [] \<and>
       tried_words (length (peer g)) \<le> length (rrp_tried rrp)) chain"

text \<open>
  A call leaves the group pointer where it was or further on, keeps the length of the \<open>tried\<close>
  map, and either finds no peer or adds a connection to one that is up and below its limit.
\<close>

definition get_result :: "rr_peers list \<Rightarrow> rr_peer_data \<Rightarrow> ngx_rc \<Rightarrow> rr_peers list \<Rightarrow> rr_peer_data \<Rightarrow> bool" where
  "get_result chain rrp rc chain' rrp' \<longleftrightarrow>
     rrp_peers rrp \<le> rrp_peers rrp' \<and> rrp_peers rrp' < length chain \<and>
     length (rrp_tried rrp') = length (rrp_tried rrp) \<and>
     (\<exists>mid. chain_evolves chain mid \<and>
       (rc = NGX_BUSY \<and> chain' = mid \<or>
        rc = NGX_OK \<and> (\<exists>i. i < length (peer (mid ! rrp_peers rrp')) \<and>
          rrp_current rrp' = Some (rrp_peers rrp', i) \<and>
          \<not> down (peer (mid ! rrp_peers rrp') ! i) \<and> \<not> peer_full (peer (mid ! rrp_peers rrp') ! i) \<and>
          chain' = set_peer mid (rrp_peers rrp') i (\<lambda>p. p\<lparr>conns := conns p + 1\<rparr>))))"

lemma get_pre_evolves:
  assumes "get_pre chain rrp" "chain_evolves chain chain'" "rrp_peers rrp' = rrp_peers rrp"
    "length (rrp_tried rrp') = length (rrp_tried rrp)"
  shows "get_pre chain' rrp'"
proof -
  have "number (chain' ! k) = number (chain ! k) \<and> length (peer (chain' ! k)) = length (peer (chain ! k))"
    if "k < length chain" for k
    using chain_evolves_nth[OF assms(2) that] group_evolves_length by (auto simp: group_evolves_def)
  moreover have "peer (chain' ! k) = [] \<longleftrightarrow> peer (chain ! k) = []" if "k < length chain" for k
    using calculation[OF that] by (metis length_0_conv)
  ultimately show ?thesis
    using assms chain_evolves_length[OF assms(2)] unfolding get_pre_def list_all_length by simp
qed

lemma get_pre_next_group:
  assumes "get_pre chain rrp" "Suc (rrp_peers rrp) < length chain"
  shows "get_pre chain (rr_next_group chain rrp)"
    "length (rrp_tried (rr_next_group chain rrp)) = length (rrp_tried rrp)"
    "rrp_peers (rr_next_group chain rrp) = Suc (rrp_peers rrp)"
proof -
  let ?n = "tried_words (number (chain ! Suc (rrp_peers rrp)))"
  have "?n \<le> length (rrp_tried rrp)" using assms by (auto simp: get_pre_def list_all_length)
  with assms show "get_pre chain (rr_next_group chain rrp)"
    "length (rrp_tried (rr_next_group chain rrp)) = length (rrp_tried rrp)"
    "rrp_peers (rr_next_group chain rrp) = Suc (rrp_peers rrp)"
    by (simp_all add: rr_next_group_def Let_def get_pre_def)
qed

text \<open>One group: what every selection that keeps its contract makes of the chain.\<close>

definition select_result :: "rr_peers list \<Rightarrow> rr_peer_data \<Rightarrow> rr_peers list \<Rightarrow> rr_peer_data \<Rightarrow> nat option \<Rightarrow> bool" where
  "select_result chain rrp chain' rrp' r \<longleftrightarrow> chain_evolves chain chain' \<and>
     rrp_peers rrp' = rrp_peers rrp \<and> length (rrp_tried rrp') = length (rrp_tried rrp) \<and>
     (\<forall>i. r = Some i \<longrightarrow> i < length (peer (chain' ! rrp_peers rrp)) \<and>
        rrp_current rrp' = Some (rrp_peers rrp, i) \<and>
        \<not> down (peer (chain' ! rrp_peers rrp) ! i) \<and> \<not> peer_full (peer (chain' ! rrp_peers rrp) ! i))"

context selection
begin

lemma select_group:
  assumes "pick now (peer (chain ! k)) tried = (ps, tried', r)" "k < length chain"
    and "rrp_peers rrp = k" "rrp_tried rrp = tried" "rrp_peers rrp' = k" "rrp_tried rrp' = tried'"
    and "r \<noteq> None \<Longrightarrow> rrp_current rrp' = Some (k, the r)"
  shows "select_result chain rrp (chain[k := (chain ! k)\<lparr>peer := ps\<rparr>]) rrp' r"
proof -
  let ?g = "(chain ! k)\<lparr>peer := ps\<rparr>"
  have ev: "group_evolves (chain ! k) ?g"
    using pick_static[OF assms(1)] pick_sum[OF assms(1)] pick_ew[OF assms(1)]
    by (auto simp: group_evolves_def)
  have "i < length ps \<and> \<not> down (ps ! i) \<and> \<not> peer_full (ps ! i)" if "r = Some i" for i
  proof -
    from pick_Some[OF assms(1)[unfolded that]]
    have i: "i < length (peer (chain ! k))" "\<not> down (peer (chain ! k) ! i)" "\<not> peer_full (peer (chain ! k) ! i)"
      by (auto simp: rr_skip_def)
    have "static (ps ! i) = static (peer (chain ! k) ! i)"
      using group_evolves_static[OF ev i(1)] by simp
    from static_fields(1,2,3)[OF this] i pick_length[OF assms(1)] show ?thesis
      by (simp add: peer_full_def)
  qed
  with assms chain_evolves_update[OF assms(2) ev] pick_tried_length[OF assms(1)] show ?thesis
    by (auto simp: select_result_def)
qed

end

lemma rr_select_result:
  assumes "get_pre chain rrp" "rr_select now chain rrp = (chain', rrp', r)"
  shows "select_result chain rrp chain' rrp' r"
proof (cases "single (chain ! rrp_peers rrp)")
  case True
  have "peer (chain ! rrp_peers rrp) \<noteq> []" using assms(1) by (auto simp: get_pre_def list_all_length)
  with True assms(2) show ?thesis
    by (auto simp: rr_select_def Let_def select_result_def split: if_splits)
next
  case False
  have k: "rrp_peers rrp < length chain" using assms(1) by (simp add: get_pre_def)
  obtain ps tried where p: "ngx_stream_upstream_get_peer now (peer (chain ! rrp_peers rrp)) (rrp_tried rrp) = (ps, tried, r)"
    using False assms(2) by (auto simp: rr_select_def Let_def split: prod.splits option.splits)
  have "chain' = chain[rrp_peers rrp := (chain ! rrp_peers rrp)\<lparr>peer := ps\<rparr>]"
    "rrp_peers rrp' = rrp_peers rrp" "rrp_tried rrp' = tried"
    "r \<noteq> None \<Longrightarrow> rrp_current rrp' = Some (rrp_peers rrp, the r)"
    using False assms(2) p by (auto simp: rr_select_def Let_def split: option.splits)
  with rr.select_group[OF p k, of rrp rrp'] show ?thesis by simp
qed

lemma get_result_later:
  assumes "get_result chain' rrp1 rc chain'' rrp''" "chain_evolves chain chain'"
    "length (rrp_tried rrp1) = length (rrp_tried rrp)" "rrp_peers rrp \<le> rrp_peers rrp1"
  shows "get_result chain rrp rc chain'' rrp''"
  using assms chain_evolves_trans[OF assms(2)] chain_evolves_length[OF assms(2)]
  unfolding get_result_def by fastforce

lemma get_result_found:
  assumes "select_result chain rrp chain' rrp' (Some b)" "get_pre chain rrp"
  shows "get_result chain rrp NGX_OK (set_peer chain' (rrp_peers rrp') b (\<lambda>p. p\<lparr>conns := conns p + 1\<rparr>)) rrp'"
  using assms unfolding get_result_def select_result_def get_pre_def by auto

lemma get_result_busy:
  assumes "select_result chain rrp chain' rrp' r" "get_pre chain rrp"
  shows "get_result chain rrp NGX_BUSY chain' rrp'"
  using assms unfolding get_result_def select_result_def get_pre_def by auto

lemma get_round_robin_result:
  assumes "get_pre chain rrp"
    and "ngx_stream_upstream_get_round_robin_peer now chain rrp pc = (rc, chain', rrp', pc')"
  shows "get_result chain rrp rc chain' rrp'"
  using assms
proof (induction now chain rrp pc arbitrary: rc chain' rrp' pc'
    rule: ngx_stream_upstream_get_round_robin_peer.induct)
  case (1 now chain rrp pc)
  obtain c r1 res where s: "rr_select now chain rrp = (c, r1, res)" by (metis prod_cases3)
  note sel = rr_select_result[OF "1.prems"(1) s]
  show ?case
  proof (cases res)
    case (Some b)
    with "1.prems"(2) s get_result_found[OF sel[unfolded Some] "1.prems"(1)] show ?thesis
      by (auto simp: ngx_stream_upstream_get_round_robin_peer.simps[of now chain] peer_connect_def Let_def)
  next
    case None
    have ev: "chain_evolves chain c" "rrp_peers r1 = rrp_peers rrp" "length (rrp_tried r1) = length (rrp_tried rrp)"
      using sel by (auto simp: select_result_def)
    show ?thesis
    proof (cases "Suc (rrp_peers r1) < length c")
      case False
      with "1.prems"(2) s None get_result_busy[OF sel "1.prems"(1)] show ?thesis
        by (auto simp: ngx_stream_upstream_get_round_robin_peer.simps[of now chain])
    next
      case True
      obtain rc1 c1 r2 pc1 where g: "ngx_stream_upstream_get_round_robin_peer now c (rr_next_group c r1) pc =
          (rc1, c1, r2, pc1)" by (metis prod_cases4)
      have pre: "get_pre c r1" by (rule get_pre_evolves[OF "1.prems"(1) ev])
      note nxt = get_pre_next_group[OF pre True]
      from "1.IH"[OF refl s[symmetric] refl _ True nxt(1) g] None
      have "get_result c (rr_next_group c r1) rc1 c1 r2" by simp
      hence "get_result chain rrp rc1 c1 r2"
        by (rule get_result_later[OF _ ev(1)]) (use nxt ev in auto)
      moreover have "rc = rc1" "chain' = c1" "rrp' = r2"
        using "1.prems"(2) s None True g
        by (auto simp: ngx_stream_upstream_get_round_robin_peer.simps[of now chain] split: if_splits)
      ultimately show ?thesis by simp
    qed
  qed
qed

subsection \<open>The invariant of all sessions\<close>

lemma holders_release:
  assumes "j < length ss" "ss ! j = (rrp, True)" "rrp_current rrp = Some (k, i)"
  shows "holders ss k' i' = holders (ss[j := (rrp, False)]) k' i' + (if k' = k \<and> i' = i then 1 else 0)"
  using length_filter_update[OF assms(1), of "\<lambda>(rrp, h). h \<and> rrp_current rrp = Some (k', i')" "(rrp, False)"] assms
  by (auto simp: holders_def)

lemma holders_take:
  assumes "j < length ss" "ss ! j = (rrp, False)" "rrp_current rrp' = Some (k, i)"
  shows "holders (ss[j := (rrp', True)]) k' i' = holders ss k' i' + (if k' = k \<and> i' = i then 1 else 0)"
  using length_filter_update[OF assms(1), of "\<lambda>(rrp, h). h \<and> rrp_current rrp = Some (k', i')" "(rrp', True)"] assms
  by (auto simp: holders_def)

lemma holders_idle:
  assumes "j < length ss" "ss ! j = (rrp, False)"
  shows "holders (ss[j := (rrp', False)]) k' i' = holders ss k' i'"
  using length_filter_update[OF assms(1), of "\<lambda>(rrp, h). h \<and> rrp_current rrp = Some (k', i')" "(rrp', False)"] assms
  by (auto simp: holders_def)

text \<open>The steps of a peer's counters.\<close>

lemma peer_inv_static:
  assumes "peer_inv held p" "static q = static p" "ew_ok q"
  shows "peer_inv held q"
  using assms static_fields[OF assms(2)] by (simp add: peer_inv_def)

lemma peer_inv_connect:
  assumes "peer_inv held p" "\<not> peer_full p"
  shows "peer_inv (held + 1) (p\<lparr>conns := conns p + 1\<rparr>)"
proof (cases "max_conns p = 0")
  case False
  with assms have h: "held \<le> unat (max_conns p)" "conns p = of_nat held" "conns p < max_conns p"
    by (auto simp: peer_inv_def peer_full_def)
  have "held < 2 ^ 64" using h(1) unsigned_less[of "max_conns p", where ?'a = nat] by simp
  hence "unat (conns p) = held" using h(2) by (simp add: unat_of_nat)
  hence "held < unat (max_conns p)" using h(3) by (simp add: word_less_nat_alt)
  with assms(1) show ?thesis by (simp add: peer_inv_def ew_ok_def)
qed (use assms in \<open>simp add: peer_inv_def ew_ok_def\<close>)

lemma peer_inv_disconnect:
  "peer_inv (held + 1) p \<Longrightarrow> peer_inv held (p\<lparr>conns := conns p - 1\<rparr>)"
  by (auto simp: peer_inv_def ew_ok_def)

lemma peer_inv_failed: "peer_inv held p \<Longrightarrow> peer_inv held (peer_failed now p)"
proof -
  assume p: "peer_inv held p"
  define d where "d = uint (word_of_int (weight p) div max_fails p :: 64 word)"
  have "0 \<le> d" by (simp add: d_def)
  with p show ?thesis
    by (auto simp: peer_inv_def ew_ok_def peer_failed_def Let_def d_def[symmetric])
qed

lemma peer_inv_live: "peer_inv held p \<Longrightarrow> peer_inv held (peer_live p)"
  by (simp add: peer_inv_def ew_ok_def peer_live_def)

lemma current_weight_failed [simp]: "current_weight (peer_failed now p) = current_weight p"
  by (simp add: peer_failed_def Let_def)

lemma current_weight_live [simp]: "current_weight (peer_live p) = current_weight p"
  by (simp add: peer_live_def)

lemma set_peer_nth:
  "k < length chain \<Longrightarrow> set_peer chain k i f ! k' =
     (if k' = k then (chain ! k)\<lparr>peer := (peer (chain ! k))[i := f (peer (chain ! k) ! i)]\<rparr> else chain ! k')"
  by (simp add: set_peer_def nth_list_update)

lemma set_peer_length [simp]: "length (set_peer chain k i f) = length chain"
  by (simp add: set_peer_def)

lemma session_inv_cong:
  assumes "length chain' = length chain"
    "\<And>k. k < length chain \<Longrightarrow> length (peer (chain' ! k)) = length (peer (chain ! k))"
  shows "session_inv chain' s = session_inv chain s"
  using assms by (auto simp: session_inv_def list_all_length split: prod.splits)

lemma rr_invI:
  assumes "rr_inv (chain, ss)" "length chain' = length chain"
    and "\<And>k. k < length chain \<Longrightarrow> number (chain' ! k) = number (chain ! k) \<and>
      length (peer (chain' ! k)) = length (peer (chain ! k)) \<and> cw_sum (peer (chain' ! k)) = cw_sum (peer (chain ! k))"
    and "\<And>k i. k < length chain \<Longrightarrow> i < length (peer (chain ! k)) \<Longrightarrow>
      peer_inv (holders ss k i) (peer (chain ! k) ! i) \<Longrightarrow> peer_inv (holders ss' k i) (peer (chain' ! k) ! i)"
    and "list_all (session_inv chain) ss'"
  shows "rr_inv (chain', ss')"
proof -
  have "list_all (session_inv chain') ss'"
    using assms(5) session_inv_cong[of chain' chain] assms(2,3) by (simp add: list_all_iff)
  moreover have "peer (chain' ! k) \<noteq> []" if "k < length chain" for k
  proof -
    have "peer (chain ! k) \<noteq> []" using assms(1) that by (simp add: rr_inv_def)
    thus ?thesis using assms(3)[OF that] by (metis length_0_conv)
  qed
  moreover have "chain' \<noteq> []" using assms(1,2) by (auto simp: rr_inv_def)
  ultimately show ?thesis
    using assms(1-4) unfolding rr_inv_def by simp
qed

lemma rr_inv_set_peer:
  assumes "rr_inv (chain, ss)" "k < length chain" "i < length (peer (chain ! k))"
    and "current_weight (f (peer (chain ! k) ! i)) = current_weight (peer (chain ! k) ! i)"
    and "peer_inv (holders ss k i) (peer (chain ! k) ! i) \<Longrightarrow>
      peer_inv (holders ss' k i) (f (peer (chain ! k) ! i))"
    and "\<And>k' i'. (k', i') \<noteq> (k, i) \<Longrightarrow> holders ss' k' i' = holders ss k' i'"
    and "list_all (session_inv chain) ss'"
  shows "rr_inv (set_peer chain k i f, ss')"
proof (rule rr_invI[OF assms(1)])
  fix k' i' assume a: "k' < length chain" "i' < length (peer (chain ! k'))"
    "peer_inv (holders ss k' i') (peer (chain ! k') ! i')"
  show "peer_inv (holders ss' k' i') (peer (set_peer chain k i f ! k') ! i')"
  proof (cases "(k', i') = (k, i)")
    case True
    with a assms(3,5) show ?thesis by (simp add: set_peer_nth[OF assms(2)])
  next
    case False
    with a assms(6)[OF False] show ?thesis by (auto simp: set_peer_nth[OF assms(2)] nth_list_update_if)
  qed
qed (use assms in \<open>auto simp: set_peer_nth cw_sum_update\<close>)

lemma rr_inv_evolves:
  assumes "rr_inv (chain, ss)" "chain_evolves chain mid"
  shows "rr_inv (mid, ss)"
proof (rule rr_invI[OF assms(1) chain_evolves_length[OF assms(2)]])
  fix k i assume k: "k < length chain"
  note ev = chain_evolves_nth[OF assms(2) k]
  show "number (mid ! k) = number (chain ! k) \<and> length (peer (mid ! k)) = length (peer (chain ! k)) \<and>
      cw_sum (peer (mid ! k)) = cw_sum (peer (chain ! k))"
    using ev group_evolves_length[OF ev] by (simp add: group_evolves_def)
  assume i: "i < length (peer (chain ! k))" "peer_inv (holders ss k i) (peer (chain ! k) ! i)"
  have "list_all ew_ok (peer (chain ! k))"
    using assms(1) k by (auto simp: rr_inv_def list_all_length peer_inv_def)
  hence "ew_ok (peer (mid ! k) ! i)"
    using ev i(1) group_evolves_length[OF ev] by (simp add: group_evolves_def list_all_length)
  with i(2) group_evolves_static[OF ev i(1)] show "peer_inv (holders ss k i) (peer (mid ! k) ! i)"
    by (rule peer_inv_static)
qed (use assms in \<open>simp add: rr_inv_def\<close>)

lemma rr_inv_session: "rr_inv (chain, ss) \<Longrightarrow> j < length ss \<Longrightarrow> session_inv chain (ss ! j)"
  by (simp add: rr_inv_def list_all_length)

lemma rr_inv_get_pre:
  "rr_inv (chain, ss) \<Longrightarrow> j < length ss \<Longrightarrow> ss ! j = (rrp, h) \<Longrightarrow> get_pre chain rrp"
  using rr_inv_session[of chain ss j] by (auto simp: rr_inv_def session_inv_def get_pre_def list_all_length)

text \<open>The operations the balancers share.\<close>

lemma tried_words_mono: "m \<le> n \<Longrightarrow> tried_words m \<le> tried_words n"
  by (simp add: tried_words_def div_le_mono)

lemma rr_inv_start:
  assumes "rr_inv (chain, ss)" "ngx_stream_upstream_init_round_robin_peer chain pc = (rrp, pc')"
  shows "rr_inv (chain, ss @ [(rrp, False)])"
proof -
  define n where "n = (if 1 < length chain \<and> number (chain ! 1) > number (chain ! 0)
    then number (chain ! 1) else number (chain ! 0))"
  have rrp: "rrp_peers rrp = 0" "rrp_tried rrp = (if n \<le> 64 then [0] else replicate (tried_words n) 0)"
    using assms(2) by (auto simp: ngx_stream_upstream_init_round_robin_peer_def Let_def n_def)
  have c: "chain \<noteq> []" "length chain \<le> 2" "\<And>k. k < length chain \<Longrightarrow> number (chain ! k) = length (peer (chain ! k))"
    using assms(1) by (auto simp: rr_inv_def)
  have "length (peer (chain ! k)) \<le> n" if "k < length chain" for k
  proof -
    have "k = 0 \<or> k = 1" using that c(2) by auto
    thus ?thesis using that c(3)[OF that] by (auto simp: n_def)
  qed
  moreover have "tried_words n \<le> length (rrp_tried rrp)"
    using tried_words_mono[of n 64] by (auto simp: rrp(2) tried_words_def)
  ultimately have "tried_words (length (peer (chain ! k))) \<le> length (rrp_tried rrp)" if "k < length chain" for k
    using that tried_words_mono order_trans by meson
  hence "session_inv chain (rrp, False)"
    using c(1) by (simp add: session_inv_def rrp(1) list_all_length)
  thus ?thesis using assms(1) by (simp add: rr_inv_def holders_def)
qed

lemma rr_inv_holder:
  assumes "rr_inv (chain, ss)" "j < length ss" "ss ! j = (rrp, True)"
  obtains k i where "rrp_current rrp = Some (k, i)" "k < length chain" "i < length (peer (chain ! k))"
  using rr_inv_session[OF assms(1,2)] assms(3) by (auto simp: session_inv_def)

lemma rr_inv_free:
  assumes "rr_inv (chain, ss)" "j < length ss" "ss ! j = (rrp, True)"
    and "ngx_stream_upstream_free_round_robin_peer now failed chain rrp pc = (chain', pc')"
  shows "rr_inv (chain', ss[j := (rrp, False)])"
proof -
  obtain k i where k: "rrp_current rrp = Some (k, i)" "k < length chain" "i < length (peer (chain ! k))"
    using rr_inv_holder[OF assms(1-3)] .
  note rel = holders_release[OF assms(2,3) k(1)]
  have "session_inv chain (rrp, False)"
    using rr_inv_session[OF assms(1,2)] assms(3) by (simp add: session_inv_def)
  hence ss: "list_all (session_inv chain) (ss[j := (rrp, False)])"
    using assms(1) by (intro list_all_update) (simp_all add: rr_inv_def)
  obtain f where f: "chain' = set_peer chain k i f"
    "f = (\<lambda>p. p\<lparr>conns := conns p - 1\<rparr>) \<or>
     f = (\<lambda>p. (peer_failed now p)\<lparr>conns := conns (peer_failed now p) - 1\<rparr>) \<or>
     f = (\<lambda>p. (peer_live p)\<lparr>conns := conns (peer_live p) - 1\<rparr>)"
    using assms(4) k(1) by (cases failed) (auto simp: ngx_stream_upstream_free_round_robin_peer_def split: if_splits)
  have "peer_inv (holders ss k i) p \<Longrightarrow> peer_inv (holders (ss[j := (rrp, False)]) k i) (f p)" for p
    using f(2) rel[of k i] peer_inv_failed[of _ p now] peer_inv_live[of _ p]
    by (auto simp del: Suc_eq_plus1 simp flip: Suc_eq_plus1 intro: peer_inv_disconnect)
  moreover have "current_weight (f p) = current_weight p" for p using f(2) by auto
  moreover have "holders (ss[j := (rrp, False)]) k' i' = holders ss k' i'" if "(k', i') \<noteq> (k, i)" for k' i'
    using rel[of k' i'] that by auto
  ultimately show ?thesis
    unfolding f(1) using ss by (intro rr_inv_set_peer[OF assms(1) k(2,3)]) auto
qed

lemma rr_inv_notify:
  assumes "rr_inv (chain, ss)" "j < length ss" "ss ! j = (rrp, True)"
  shows "rr_inv (ngx_stream_upstream_notify_round_robin_peer connect stream chain rrp, ss)"
proof -
  obtain k i where k: "rrp_current rrp = Some (k, i)" "k < length chain" "i < length (peer (chain ! k))"
    using rr_inv_holder[OF assms] .
  have "rr_inv (set_peer chain k i peer_live, ss)"
    using assms(1) by (intro rr_inv_set_peer[OF assms(1) k(2,3)]) (auto simp: peer_inv_live rr_inv_def)
  with assms(1) k(1) show ?thesis by (simp add: ngx_stream_upstream_notify_round_robin_peer_def)
qed

text \<open>An interface for the balancers: any \<open>get\<close> with this contract.\<close>

locale balancer =
  fixes get :: get_peer_fun
  assumes get_contract: "get_pre chain rrp \<Longrightarrow> get now chain rrp pc = (rc, chain', rrp', pc') \<Longrightarrow>
    get_result chain rrp rc chain' rrp'"
begin

lemma get_step:
  assumes "rr_inv (chain, ss)" "j < length ss" "ss ! j = (rrp, False)"
    and "get now chain rrp pc = (rc, chain', rrp', pc')"
  shows "rr_inv (chain', ss[j := (rrp', rc = NGX_OK)])"
proof -
  from get_contract[OF rr_inv_get_pre[OF assms(1-3)] assms(4)] obtain mid where
    mid: "chain_evolves chain mid" and r: "rrp_peers rrp' < length chain"
      "length (rrp_tried rrp') = length (rrp_tried rrp)" and cases:
      "rc = NGX_BUSY \<and> chain' = mid \<or>
       rc = NGX_OK \<and> (\<exists>i. i < length (peer (mid ! rrp_peers rrp')) \<and>
          rrp_current rrp' = Some (rrp_peers rrp', i) \<and>
          \<not> down (peer (mid ! rrp_peers rrp') ! i) \<and> \<not> peer_full (peer (mid ! rrp_peers rrp') ! i) \<and>
          chain' = set_peer mid (rrp_peers rrp') i (\<lambda>p. p\<lparr>conns := conns p + 1\<rparr>))"
    unfolding get_result_def by blast
  have inv: "rr_inv (mid, ss)" by (rule rr_inv_evolves[OF assms(1) mid])
  have len: "length mid = length chain" by (rule chain_evolves_length[OF mid])
  have ss: "list_all (session_inv mid) ss" using inv by (simp add: rr_inv_def)
  have free: "session_inv mid (rrp', False)"
    using rr_inv_session[OF inv assms(2)] assms(3) r len by (auto simp: session_inv_def)
  from cases show ?thesis
  proof (elim disjE conjE exE)
    assume "rc = NGX_BUSY" "chain' = mid"
    moreover have "rr_inv (mid, ss[j := (rrp', False)])"
      by (rule rr_invI[OF inv]) (use list_all_update[OF ss free] holders_idle[OF assms(2,3)] in auto)
    ultimately show ?thesis by simp
  next
    fix i assume i: "rc = NGX_OK" "i < length (peer (mid ! rrp_peers rrp'))"
      "rrp_current rrp' = Some (rrp_peers rrp', i)" "\<not> peer_full (peer (mid ! rrp_peers rrp') ! i)"
      "chain' = set_peer mid (rrp_peers rrp') i (\<lambda>p. p\<lparr>conns := conns p + 1\<rparr>)"
    have hold: "session_inv mid (rrp', True)" using free i by (auto simp: session_inv_def)
    have "rr_inv (chain', ss[j := (rrp', True)])"
      unfolding i(5) using i r len holders_take[OF assms(2,3) i(3)] list_all_update[OF ss hold]
      by (intro rr_inv_set_peer[OF inv]) (auto simp del: Suc_eq_plus1 simp flip: Suc_eq_plus1 dest: peer_inv_connect)
    with i(1) show ?thesis by simp
  qed
qed

lemma step_inv:
  assumes "rr_step get s s'" "rr_inv s"
  shows "rr_inv s'"
  using assms
proof cases
  case (start chain pc rrp pc' ss)
  with assms(2) show ?thesis by (simp add: rr_inv_start)
next
  case (get j ss rrp now chain pc rc chain' rrp' pc')
  with assms(2) show ?thesis by (simp add: get_step)
next
  case (free j ss rrp now failed chain pc chain' pc')
  with assms(2) show ?thesis by (simp add: rr_inv_free)
next
  case (notify j ss rrp connect stream chain chain')
  with assms(2) show ?thesis by (auto simp: rr_inv_notify)
qed

lemma reachable_inv: "(rr_step get)\<^sup>*\<^sup>* s s' \<Longrightarrow> rr_inv s \<Longrightarrow> rr_inv s'"
  by (induction rule: rtranclp_induct) (auto intro: step_inv)

end

interpretation rr_bal: balancer ngx_stream_upstream_get_round_robin_peer
  by unfold_locales (rule get_round_robin_result)

text \<open>A configured upstream satisfies the invariant before the first session.\<close>

lemma rr_count_fill: "fst (rr_count svs (n, w)) = n + length (rr_fill svs)"
  by (induction svs arbitrary: n w) (auto simp: rr_fill_def)

lemma rr_fill_peers:
  assumes "p \<in> set (rr_fill svs)"
  shows "\<exists>sv\<in>set svs. weight p = sint (sv_weight sv) \<and> effective_weight p = sint (sv_weight sv)
    \<and> current_weight p = 0 \<and> conns p = 0"
  using assms by (auto simp: rr_fill_def rr_server_peer_def)

lemma rr_group_ok:
  assumes "list_all (\<lambda>sv. 0 \<le> sint (sv_weight sv)) svs"
  shows "number (rr_group host s svs) = length (peer (rr_group host s svs))"
    "cw_sum (peer (rr_group host s svs)) = 0"
    "i < length (peer (rr_group host s svs)) \<Longrightarrow> peer_inv 0 (peer (rr_group host s svs) ! i)"
proof -
  have p: "peer (rr_group host s svs) = rr_fill svs" by (simp add: rr_group_def split: prod.split)
  show "number (rr_group host s svs) = length (peer (rr_group host s svs))"
    by (simp add: rr_group_def case_prod_beta rr_count_fill)
  have "current_weight p = 0" if "p \<in> set (rr_fill svs)" for p using rr_fill_peers[OF that] by auto
  hence "map current_weight (rr_fill svs) = map (\<lambda>_. 0) (rr_fill svs)" by simp
  thus "cw_sum (peer (rr_group host s svs)) = 0"
    unfolding p cw_sum_def by (simp only: sum_list_0)
  assume "i < length (peer (rr_group host s svs))"
  hence "rr_fill svs ! i \<in> set (rr_fill svs)" by (simp add: p)
  from rr_fill_peers[OF this] assms show "peer_inv 0 (peer (rr_group host s svs) ! i)"
    by (auto simp: p peer_inv_def ew_ok_def list_all_iff)
qed

lemma rr_init_inv:
  assumes "ngx_stream_upstream_init_round_robin host port (Some svs) resolve = Inr chain"
    and "list_all (\<lambda>sv. 0 \<le> sint (sv_weight sv)) svs"
  shows "rr_inv (chain, [])"
proof -
  let ?prim = "filter (\<lambda>sv. \<not> sv_backup sv) svs" and ?bk = "filter sv_backup svs"
  have ok: "list_all (\<lambda>sv. 0 \<le> sint (sv_weight sv)) ?prim" "list_all (\<lambda>sv. 0 \<le> sint (sv_weight sv)) ?bk"
    using assms(2) by (auto simp: list_all_iff)
  have n: "fst (rr_count xs (0, 0)) = length (peer (rr_group host s xs))" for xs s
    by (simp add: rr_group_def case_prod_beta rr_count_fill)
  from assms(1) consider
      (one) s where "chain = [rr_group host s ?prim]" "fst (rr_count ?prim (0, 0)) \<noteq> 0"
    | (two) "chain = [rr_group host False ?prim, rr_group host False ?bk]"
        "fst (rr_count ?prim (0, 0)) \<noteq> 0" "fst (rr_count ?bk (0, 0)) \<noteq> 0"
    by (auto simp: ngx_stream_upstream_init_round_robin_def Let_def split: if_splits)
  then show ?thesis
  proof cases
    case (one s)
    with rr_group_ok[OF ok(1)] n[of ?prim s] show ?thesis by (auto simp: rr_inv_def holders_def)
  next
    case two
    with rr_group_ok[OF ok(1)] rr_group_ok[OF ok(2)] n[of ?prim False] n[of ?bk False] show ?thesis
      by (auto simp: rr_inv_def holders_def less_Suc_eq numeral_2_eq_2)
  qed
qed


definition rr_sample_servers :: "upstream_server list" where
  "rr_sample_servers =
     [\<lparr>sv_name = bytes ''a'', sv_addrs = [(bytes ''a1'', bytes ''a1'')], sv_weight = 2, sv_max_conns = 1,
       sv_max_fails = 1, sv_fail_timeout = 10, sv_down = False, sv_backup = False\<rparr>,
      \<lparr>sv_name = bytes ''b'', sv_addrs = [(bytes ''b1'', bytes ''b1'')], sv_weight = 1, sv_max_conns = 0,
       sv_max_fails = 1, sv_fail_timeout = 10, sv_down = False, sv_backup = True\<rparr>]"

definition rr_sample_chain :: "rr_peers list" where
  "rr_sample_chain = [rr_group (bytes ''u'') False (take 1 rr_sample_servers),
     rr_group (bytes ''u'') False (drop 1 rr_sample_servers)]"

lemma rr_sample_init:
  "ngx_stream_upstream_init_round_robin (bytes ''u'') 80 (Some rr_sample_servers) (\<lambda>_ _. None) =
     Inr rr_sample_chain"
  "list_all (\<lambda>sv. 0 \<le> sint (sv_weight sv)) rr_sample_servers"
  by (simp_all add: ngx_stream_upstream_init_round_robin_def rr_sample_chain_def rr_sample_servers_def Let_def)


text \<open>A peer no session can get at: its bit is set in the map, or it is unavailable.\<close>

definition unavailable :: "int \<Rightarrow> rr_peer \<Rightarrow> bool" where
  "unavailable now p \<longleftrightarrow> down p \<or> peer_failing now p \<or> peer_full p"

lemma rr_select_none:
  assumes "rr_select now chain rrp = (chain', rrp', None)" "get_pre chain rrp"
    "i < length (peer (chain ! rrp_peers rrp))" "\<not> tried_test (rrp_tried rrp) i"
    "single (chain ! rrp_peers rrp) \<Longrightarrow> i = 0"
  shows "chain' = chain \<and> rrp' = rrp \<and> unavailable now (peer (chain ! rrp_peers rrp) ! i)"
proof (cases "single (chain ! rrp_peers rrp)")
  case True
  with assms show ?thesis by (auto simp: rr_select_def Let_def unavailable_def split: if_splits)
next
  case False
  obtain ps tried where p: "ngx_stream_upstream_get_peer now (peer (chain ! rrp_peers rrp)) (rrp_tried rrp) = (ps, tried, None)"
    and c: "chain' = chain[rrp_peers rrp := (chain ! rrp_peers rrp)\<lparr>peer := ps\<rparr>]" "rrp' = rrp\<lparr>rrp_tried := tried\<rparr>"
    using False assms(1) by (auto simp: rr_select_def Let_def split: prod.splits option.splits)
  from rr.pick_None[OF p] c assms(3,4) show ?thesis
    by (auto simp: rr_skip_def unavailable_def)
qed

lemma rr_select_none_keeps:
  assumes "rr_select now chain rrp = (chain', rrp', None)"
  shows "chain' = chain \<and> rrp' = rrp"
proof -
  have "ngx_stream_upstream_get_peer now (peer (chain ! rrp_peers rrp)) (rrp_tried rrp) = (ps, tried, None) \<Longrightarrow>
      ps = peer (chain ! rrp_peers rrp) \<and> tried = rrp_tried rrp" for ps tried
    using rr.pick_None by blast
  with assms show ?thesis
    by (auto simp: rr_select_def Let_def split: if_splits prod.splits option.splits)
qed

lemma next_group_untried:
  assumes "get_pre chain rrp" "Suc (rrp_peers rrp) < length chain" "i < length (peer (chain ! Suc (rrp_peers rrp)))"
  shows "\<not> tried_test (rrp_tried (rr_next_group chain rrp)) i"
proof -
  have "number (chain ! Suc (rrp_peers rrp)) = length (peer (chain ! Suc (rrp_peers rrp)))"
    using assms(1,2) by (simp add: get_pre_def list_all_length)
  with tried_words_less[OF assms(3)] show ?thesis
    by (simp add: tried_test_bit rr_next_group_def Let_def nth_append)
qed

text \<open>
  \<open>NGX_BUSY\<close> is returned only when nothing can serve the session: every peer of its
  current group that it did not try yet, and every peer of the groups after it, is down, failing or
  at its connection limit.\<close>

theorem round_robin_busy:
  assumes "ngx_stream_upstream_get_round_robin_peer now chain rrp pc = (NGX_BUSY, chain', rrp', pc')"
    and "get_pre chain rrp" "list_all (\<lambda>g. single g \<longrightarrow> length (peer g) = 1) chain"
    and "rrp_peers rrp \<le> k" "k < length chain" "i < length (peer (chain ! k))"
    and "k = rrp_peers rrp \<longrightarrow> \<not> tried_test (rrp_tried rrp) i"
  shows "unavailable now (peer (chain ! k) ! i)"
  using assms
proof (induction now chain rrp pc arbitrary: chain' rrp' pc'
    rule: ngx_stream_upstream_get_round_robin_peer.induct)
  case (1 now chain rrp pc)
  note pre = "1.prems"(2)
  obtain c r1 res where s: "rr_select now chain rrp = (c, r1, res)" by (metis prod_cases3)
  have None: "res = None"
    using "1.prems"(1) s by (cases res)
      (auto simp: ngx_stream_upstream_get_round_robin_peer.simps[of now chain] peer_connect_def Let_def)
  from rr_select_none_keeps[OF s[unfolded None]] have eq: "c = chain" "r1 = rrp" by auto
  show ?case
  proof (cases "k = rrp_peers rrp")
    case True
    have "single (chain ! k) \<Longrightarrow> i = 0" using "1.prems"(3,5,6) by (auto simp: list_all_length)
    with rr_select_none[OF s[unfolded None] pre] "1.prems"(6,7) True show ?thesis by simp
  next
    case False
    hence k: "Suc (rrp_peers rrp) \<le> k" using "1.prems"(4) by simp
    hence nxt: "Suc (rrp_peers r1) < length c" using "1.prems"(5) eq by simp
    obtain rc1 c1 r2 pc1 where g: "ngx_stream_upstream_get_round_robin_peer now c (rr_next_group c r1) pc =
        (rc1, c1, r2, pc1)" by (metis prod_cases4)
    have "rc1 = NGX_BUSY"
      using "1.prems"(1) s None nxt g
      by (auto simp: ngx_stream_upstream_get_round_robin_peer.simps[of now chain] split: if_splits)
    note IH = "1.IH"[OF refl s[symmetric] refl None nxt g[unfolded this], unfolded eq]
    note ng = get_pre_next_group[OF pre nxt[unfolded eq]]
    have "k = Suc (rrp_peers rrp) \<longrightarrow> \<not> tried_test (rrp_tried (rr_next_group chain rrp)) i"
      using next_group_untried[OF pre nxt[unfolded eq]] "1.prems"(6) by blast
    with IH[OF ng(1) "1.prems"(3) _ "1.prems"(5,6)] k ng(3) show ?thesis by simp
  qed
qed

lemma get_peer_all_down:
  assumes "list_all down ps"
  shows "ngx_stream_upstream_get_peer now ps tried = (ps, tried, None)"
proof (rule get_peer_cases[of now ps tried])
  fix b assume "first_max now tried ps (length ps) (Some b)"
  hence "b < length ps" "\<not> down (ps ! b)" by (auto simp: first_max_def rr_skip_def)
  with assms show ?thesis by (simp add: list_all_length)
qed

definition rr_sample_down :: rr_peers where
  "rr_sample_down = rr_sample\<lparr>peer := map (\<lambda>p. p\<lparr>down := True\<rparr>) (peer rr_sample)\<rparr>"

theorem round_robin_busy_witness:
  "unavailable 100 (peer rr_sample_down ! 1)"
proof -
  let ?rrp = "\<lparr>rrp_peers = 0, rrp_current = None, rrp_tried = [0]\<rparr>"
  have g: "\<not> single rr_sample_down" "list_all down (peer rr_sample_down)" "length (peer rr_sample_down) = 2"
    "number rr_sample_down = 2"
    by (simp_all add: rr_sample_down_def rr_sample_def rr_group_def rr_fill_def list_all_iff)
  hence pre: "get_pre [rr_sample_down] ?rrp" by (auto simp: get_pre_def tried_words_def)
  have "ngx_stream_upstream_get_round_robin_peer 100 [rr_sample_down] ?rrp rr_pc =
      (NGX_BUSY, [rr_sample_down], ?rrp, rr_pc\<lparr>pc_name := peers_name rr_sample_down\<rparr>)"
    using g(1) get_peer_all_down[OF g(2), of 100 "[0]"]
    by (simp add: ngx_stream_upstream_get_round_robin_peer.simps rr_select_def Let_def)
  from round_robin_busy[OF this pre, of 0 1] g show ?thesis by (simp add: tried_test_bit)
qed

end
