(* ===== verification/Ngx_Stream_Least_Conn.thy ===== *)
theory Ngx_Stream_Least_Conn
  imports Ngx_Stream_Sessions
begin

text \<open>
  The least connections balancer of the stream proxy:
  \<^verbatim>\<open>src/stream/ngx_stream_upstream_least_conn_module.c\<close>. It shares the peers, the session state and
  everything but \<open>get\<close> with the round robin balancer; here its two selection loops are modelled
  and shown to keep the contracts \<open>selection\<close> and \<open>balancer\<close>.
\<close>

section \<open>The selection\<close>

text \<open>
  \<open>peer->conns * best->weight\<close>: the product of an \<open>ngx_uint_t\<close> and an \<open>ngx_int_t\<close> is taken modulo
  \<open>2 ^ 64\<close>.
\<close>

definition load :: "rr_peer \<Rightarrow> rr_peer \<Rightarrow> ngx_uint_t" where
  "load p q = conns p * word_of_int (weight q)"

text \<open>One pass of the first loop, on \<open>best\<close> (the index is also \<open>p\<close>) and \<open>many\<close>.\<close>

fun lc_visit :: "int \<Rightarrow> 64 word list \<Rightarrow> rr_peer list \<Rightarrow> nat \<Rightarrow> nat option \<times> bool \<Rightarrow> nat option \<times> bool" where
  "lc_visit now tried ps i (best, many) =
     (if rr_skip now tried i (ps ! i) then (best, many)
      else case best of
        None \<Rightarrow> (Some i, False)
      | Some b \<Rightarrow>
          if load (ps ! i) (ps ! b) < load (ps ! b) (ps ! i) then (Some i, False)
          else if load (ps ! i) (ps ! b) = load (ps ! b) (ps ! i) then (best, True)
          else (best, many))"

text \<open>One pass of the second loop: round robin among the peers with the same load.\<close>

fun lc_tie_visit :: "int \<Rightarrow> 64 word list \<Rightarrow> nat \<Rightarrow> rr_peer list \<times> int \<times> nat \<Rightarrow> rr_peer list \<times> int \<times> nat" where
  "lc_tie_visit now tried i (ps, tot, b) =
     (if rr_skip now tried i (ps ! i) \<or> load (ps ! i) (ps ! b) \<noteq> load (ps ! b) (ps ! i) then (ps, tot, b)
      else let ps' = ps[i := peer_gain (ps ! i)] in
        (ps', tot + effective_weight (ps ! i),
         if current_weight (ps' ! i) > current_weight (ps' ! b) then i else b))"

definition lc_pick :: "int \<Rightarrow> rr_peer list \<Rightarrow> 64 word list \<Rightarrow> rr_peer list \<times> 64 word list \<times> nat option" where
  "lc_pick now ps tried =
     (case fold (lc_visit now tried ps) [0..<length ps] (None, False) of
        (None, _) \<Rightarrow> (ps, tried, None)
      | (Some b0, many) \<Rightarrow>
          (case (if many then fold (lc_tie_visit now tried) [b0..<length ps] (ps, 0, b0) else (ps, 0, b0)) of
             (ps', tot, b) \<Rightarrow> (ps'[b := peer_chosen now tot (ps' ! b)], tried_set tried b, Some b)))"

definition lc_select :: "int \<Rightarrow> rr_peers list \<Rightarrow> rr_peer_data \<Rightarrow> rr_peers list \<times> rr_peer_data \<times> nat option" where
  "lc_select now chain rrp =
     (let k = rrp_peers rrp; peers = chain ! k in
      case lc_pick now (peer peers) (rrp_tried rrp) of
        (ps, tried, None) \<Rightarrow> (chain[k := peers\<lparr>peer := ps\<rparr>], rrp\<lparr>rrp_tried := tried\<rparr>, None)
      | (ps, tried, Some b) \<Rightarrow>
          (chain[k := peers\<lparr>peer := ps\<rparr>], rrp\<lparr>rrp_tried := tried, rrp_current := Some (k, b)\<rparr>, Some b))"

lemma lc_select_keeps:
  "lc_select now chain rrp = (chain', rrp', r) \<Longrightarrow> length chain' = length chain \<and> rrp_peers rrp' = rrp_peers rrp"
  by (auto simp: lc_select_def Let_def split: prod.splits option.splits)

function ngx_stream_upstream_get_least_conn_peer :: get_peer_fun where
  "ngx_stream_upstream_get_least_conn_peer now chain rrp pc =
     (let peers = chain ! rrp_peers rrp in
      if single peers then ngx_stream_upstream_get_round_robin_peer now chain rrp pc
      else case lc_select now chain rrp of
        (chain', rrp', Some b) \<Rightarrow>
          (case peer_connect chain' (rrp_peers rrp') b pc of (chain'', pc') \<Rightarrow> (NGX_OK, chain'', rrp', pc'))
      | (chain', rrp', None) \<Rightarrow>
          if Suc (rrp_peers rrp') < length chain'
          then (case ngx_stream_upstream_get_least_conn_peer now chain' (rr_next_group chain' rrp') pc of
                  (rc, chain'', rrp'', pc') \<Rightarrow>
                    if rc \<noteq> NGX_BUSY then (rc, chain'', rrp'', pc')
                    else (NGX_BUSY, chain'', rrp'', pc'\<lparr>pc_name := peers_name peers\<rparr>))
          else (NGX_BUSY, chain', rrp', pc\<lparr>pc_name := peers_name peers\<rparr>))"
  by pat_completeness auto
termination
  by (relation "measure (\<lambda>(now, chain, rrp, pc). length chain - rrp_peers rrp)")
    (auto simp: rr_next_group_def Let_def dest!: lc_select_keeps[OF sym])

declare ngx_stream_upstream_get_least_conn_peer.simps [simp del]
section \<open>The contracts\<close>

lemma lc_fold_eligible:
  "m \<le> length ps \<Longrightarrow> case fst (fold (lc_visit now tried ps) [0..<m] (None, False)) of
     None \<Rightarrow> \<forall>i<m. \<not> eligible now tried ps i
   | Some b \<Rightarrow> b < m \<and> eligible now tried ps b"
proof (induction m)
  case (Suc m)
  obtain best many where f: "fold (lc_visit now tried ps) [0..<m] (None, False) = (best, many)" by force
  with Suc show ?case by (cases best) (auto simp: less_Suc_eq)
qed simp

text \<open>What the second loop keeps.\<close>

definition lc_inv :: "int \<Rightarrow> 64 word list \<Rightarrow> rr_peer list \<Rightarrow> rr_peer list \<times> int \<times> nat \<Rightarrow> bool" where
  "lc_inv now tried ps0 st \<longleftrightarrow> (case st of (ps, tot, b) \<Rightarrow>
     length ps = length ps0 \<and> (\<forall>i<length ps0. static (ps ! i) = static (ps0 ! i) \<and> checked (ps ! i) = checked (ps0 ! i)) \<and>
     cw_sum ps = cw_sum ps0 + tot \<and> (list_all ew_ok ps0 \<longrightarrow> list_all ew_ok ps) \<and>
     b < length ps0 \<and> eligible now tried ps0 b)"

lemma rr_skip_static:
  assumes "static q = static p" "checked q = checked p"
  shows "rr_skip now tried i q = rr_skip now tried i p"
  using static_fields[OF assms(1)] assms(2) by (simp add: rr_skip_def peer_failing_def peer_full_def)

lemma checked_gain [simp]: "checked (peer_gain p) = checked p"
  by (simp add: peer_gain_def)

lemma lc_inv_visit:
  assumes "lc_inv now tried ps0 (ps, tot, b)" "i < length ps0"
  shows "lc_inv now tried ps0 (lc_tie_visit now tried i (ps, tot, b))"
proof (cases "rr_skip now tried i (ps ! i) \<or> load (ps ! i) (ps ! b) \<noteq> load (ps ! b) (ps ! i)")
  case True
  with assms show ?thesis by simp
next
  case False
  have "eligible now tried ps0 i"
    using False assms rr_skip_static[of "ps ! i" "ps0 ! i"] by (auto simp: lc_inv_def)
  with False assms show ?thesis
    by (auto simp: lc_inv_def Let_def nth_list_update cw_sum_update raised_def list_all_length ew_ok_gain)
qed

lemma lc_inv_fold:
  "lc_inv now tried ps0 st \<Longrightarrow> (\<And>i. i \<in> set xs \<Longrightarrow> i < length ps0) \<Longrightarrow>
     lc_inv now tried ps0 (fold (lc_tie_visit now tried) xs st)"
proof (induction xs arbitrary: st)
  case (Cons i xs)
  obtain ps tot b where "st = (ps, tot, b)" by (metis prod_cases3)
  with Cons lc_inv_visit[of now tried ps0 ps tot b i] show ?case by (simp del: lc_tie_visit.simps)
qed simp

lemma lc_pick_cases:
  obtains
    (none) "lc_pick now ps tried = (ps, tried, None)" "\<forall>i<length ps. \<not> eligible now tried ps i"
  | (some) b0 many ps' tot b where
      "fold (lc_visit now tried ps) [0..<length ps] (None, False) = (Some b0, many)"
      "(if many then fold (lc_tie_visit now tried) [b0..<length ps] (ps, 0, b0) else (ps, 0, b0)) = (ps', tot, b)"
      "lc_pick now ps tried = (ps'[b := peer_chosen now tot (ps' ! b)], tried_set tried b, Some b)"
      "lc_inv now tried ps (ps', tot, b)"
proof -
  obtain best many where f: "fold (lc_visit now tried ps) [0..<length ps] (None, False) = (best, many)" by force
  show thesis
  proof (cases best)
    case None
    with lc_fold_eligible[of "length ps" ps now tried] f none show thesis by (simp add: lc_pick_def)
  next
    case (Some b0)
    with lc_fold_eligible[of "length ps" ps now tried] f
    have "lc_inv now tried ps (ps, 0, b0)" by (simp add: lc_inv_def)
    hence inv: "lc_inv now tried ps (if many then fold (lc_tie_visit now tried) [b0..<length ps] (ps, 0, b0) else (ps, 0, b0))"
      by (auto intro: lc_inv_fold)
    obtain ps' tot b where
      t: "(if many then fold (lc_tie_visit now tried) [b0..<length ps] (ps, 0, b0) else (ps, 0, b0)) = (ps', tot, b)"
      by (metis prod_cases3)
    from some[OF f[unfolded Some] t] inv f Some t show thesis by (simp add: lc_pick_def)
  qed
qed

lemma lc_pick_Some:
  assumes "lc_pick now ps tried = (ps', tried', Some b)"
  shows "b < length ps \<and> \<not> rr_skip now tried b (ps ! b) \<and> tried' = tried_set tried b"
  by (rule lc_pick_cases[of now ps tried]) (use assms in \<open>auto simp: lc_inv_def\<close>)

lemma lc_pick_frame:
  assumes "lc_pick now ps tried = (ps', tried', r)"
  shows "length ps' = length ps" "i < length ps \<Longrightarrow> static (ps' ! i) = static (ps ! i)"
    "cw_sum ps' = cw_sum ps" "list_all ew_ok ps \<Longrightarrow> list_all ew_ok ps'"
  by (atomize (full), rule lc_pick_cases[of now ps tried])
    (use assms in \<open>auto simp: lc_inv_def nth_list_update cw_sum_update list_all_length ew_ok_chosen\<close>)

interpretation lc: selection lc_pick
proof
  fix now ps tried ps' tried' and b :: nat and r
  show "lc_pick now ps tried = (ps', tried', None) \<Longrightarrow>
      ps' = ps \<and> tried' = tried \<and> (\<forall>i<length ps. rr_skip now tried i (ps ! i))"
    by (rule lc_pick_cases[of now ps tried]) auto
  show "lc_pick now ps tried = (ps', tried', Some b) \<Longrightarrow>
      b < length ps \<and> \<not> rr_skip now tried b (ps ! b) \<and> tried' = tried_set tried b"
    by (rule lc_pick_Some)
  assume a: "lc_pick now ps tried = (ps', tried', r)"
  note f = lc_pick_frame[OF a]
  show "map static ps' = map static ps" by (rule nth_equalityI) (use f in simp_all)
  show "cw_sum ps' = cw_sum ps" by (rule f)
  show "list_all ew_ok ps \<Longrightarrow> list_all ew_ok ps'" by (rule f)
qed

lemma lc_select_result:
  assumes "get_pre chain rrp" "lc_select now chain rrp = (chain', rrp', r)"
  shows "select_result chain rrp chain' rrp' r"
proof -
  have k: "rrp_peers rrp < length chain" using assms(1) by (simp add: get_pre_def)
  obtain ps tried where p: "lc_pick now (peer (chain ! rrp_peers rrp)) (rrp_tried rrp) = (ps, tried, r)"
    using assms(2) by (auto simp: lc_select_def Let_def split: prod.splits option.splits)
  have "chain' = chain[rrp_peers rrp := (chain ! rrp_peers rrp)\<lparr>peer := ps\<rparr>]"
    "rrp_peers rrp' = rrp_peers rrp" "rrp_tried rrp' = tried"
    "r \<noteq> None \<Longrightarrow> rrp_current rrp' = Some (rrp_peers rrp, the r)"
    using assms(2) p by (auto simp: lc_select_def Let_def split: option.splits)
  with lc.select_group[OF p k, of rrp rrp'] show ?thesis by simp
qed

lemma get_least_conn_result:
  assumes "get_pre chain rrp"
    and "ngx_stream_upstream_get_least_conn_peer now chain rrp pc = (rc, chain', rrp', pc')"
  shows "get_result chain rrp rc chain' rrp'"
  using assms
proof (induction now chain rrp pc arbitrary: rc chain' rrp' pc'
    rule: ngx_stream_upstream_get_least_conn_peer.induct)
  case (1 now chain rrp pc)
  show ?case
  proof (cases "single (chain ! rrp_peers rrp)")
    case True
    with "1.prems" show ?thesis
      by (auto simp: ngx_stream_upstream_get_least_conn_peer.simps[of now chain] intro: get_round_robin_result)
  next
    case multi: False
    obtain c r1 res where s: "lc_select now chain rrp = (c, r1, res)" by (metis prod_cases3)
    note sel = lc_select_result[OF "1.prems"(1) s]
    note unfold = ngx_stream_upstream_get_least_conn_peer.simps[of now chain rrp pc]
    show ?thesis
    proof (cases res)
      case (Some b)
      with "1.prems"(2) s multi get_result_found[OF sel[unfolded Some] "1.prems"(1)] show ?thesis
        by (auto simp: unfold peer_connect_def Let_def)
    next
      case None
      have ev: "chain_evolves chain c" "rrp_peers r1 = rrp_peers rrp" "length (rrp_tried r1) = length (rrp_tried rrp)"
        using sel by (auto simp: select_result_def)
      show ?thesis
      proof (cases "Suc (rrp_peers r1) < length c")
        case False
        with "1.prems"(2) s None multi get_result_busy[OF sel "1.prems"(1)] show ?thesis
          by (auto simp: unfold)
      next
        case True
        obtain rc1 c1 r2 pc1 where g: "ngx_stream_upstream_get_least_conn_peer now c (rr_next_group c r1) pc =
            (rc1, c1, r2, pc1)" by (metis prod_cases4)
        have pre: "get_pre c r1" by (rule get_pre_evolves[OF "1.prems"(1) ev])
        note nxt = get_pre_next_group[OF pre True]
        from "1.IH"[OF refl multi s[symmetric] refl None True nxt(1) g]
        have "get_result chain rrp rc1 c1 r2"
          by (rule get_result_later[OF _ ev(1)]) (use nxt ev in auto)
        moreover have "rc = rc1" "chain' = c1" "rrp' = r2"
          using "1.prems"(2) s None True multi g by (auto simp: unfold split: if_splits)
        ultimately show ?thesis by simp
      qed
    qed
  qed
qed

interpretation lc_bal: balancer ngx_stream_upstream_get_least_conn_peer
  by unfold_locales (rule get_least_conn_result)

section \<open>Properties\<close>

text \<open>
  The sessions of a least connections upstream keep the same invariant as those of a
  round robin one, from the same contract: the counters are the numbers of sessions holding the
  peer and stay within \<open>max_conns\<close>, and the weights stay in range and balanced.\<close>

theorem least_conn_invariant:
  assumes "ngx_stream_upstream_init_round_robin host port (Some svs) resolve = Inr chain0"
    and "list_all (\<lambda>sv. 0 \<le> sint (sv_weight sv)) svs"
    and "(rr_step ngx_stream_upstream_get_least_conn_peer)\<^sup>*\<^sup>* (chain0, []) (chain, ss)"
    and "k < length chain" "i < length (peer (chain ! k))"
  shows "conns (peer (chain ! k) ! i) = of_nat (holders ss k i) \<and>
    (max_conns (peer (chain ! k) ! i) = 0 \<or> holders ss k i \<le> unat (max_conns (peer (chain ! k) ! i))) \<and>
    0 \<le> effective_weight (peer (chain ! k) ! i) \<and>
    effective_weight (peer (chain ! k) ! i) \<le> weight (peer (chain ! k) ! i) \<and>
    cw_sum (peer (chain ! k)) = 0"
proof -
  have "rr_inv (chain, ss)" by (rule lc_bal.reachable_inv[OF assms(3) rr_init_inv[OF assms(1,2)]])
  with assms(4,5) show ?thesis by (simp add: rr_inv_def peer_inv_def ew_ok_def)
qed

theorem least_conn_invariant_witness:
  "\<exists>ss. (rr_step ngx_stream_upstream_get_least_conn_peer)\<^sup>*\<^sup>* (rr_sample_chain, []) (rr_sample_chain, ss) \<and>
     length ss = 1 \<and> conns (peer (rr_sample_chain ! 0) ! 0) = of_nat (holders ss 0 0)"
proof -
  obtain rrp pc where i: "ngx_stream_upstream_init_round_robin_peer rr_sample_chain rr_pc = (rrp, pc)" by force
  have r: "(rr_step ngx_stream_upstream_get_least_conn_peer)\<^sup>*\<^sup>* (rr_sample_chain, []) (rr_sample_chain, [(rrp, False)])"
    using rr_step.start[OF i, of _ "[]"] by auto
  have "0 < length rr_sample_chain" "0 < length (peer (rr_sample_chain ! 0))"
    by (simp_all add: rr_sample_chain_def rr_sample_servers_def rr_group_def rr_fill_def)
  from least_conn_invariant[OF rr_sample_init r this] r show ?thesis by (intro exI[of _ "[(rrp, False)]"]) simp
qed

text \<open>The loads as natural numbers, when no product overflows.\<close>

definition lighter :: "rr_peer \<Rightarrow> rr_peer \<Rightarrow> bool" where
  "lighter p q \<longleftrightarrow> unat (conns p) * nat (weight q) \<le> unat (conns q) * nat (weight p)"

definition loads_fit :: "rr_peer list \<Rightarrow> bool" where
  "loads_fit ps \<longleftrightarrow> list_all (\<lambda>p. 1 \<le> weight p \<and>
     list_all (\<lambda>q. unat (conns q) * nat (weight p) < 2 ^ 64) ps) ps"

lemma unat_load:
  assumes "loads_fit ps" "p \<in> set ps" "q \<in> set ps"
  shows "unat (load p q) = unat (conns p) * nat (weight q)"
proof -
  have w: "1 \<le> weight q" "unat (conns p) * nat (weight q) < 2 ^ 64"
    using assms by (auto simp: loads_fit_def list_all_iff)
  hence "word_of_int (weight q) = (of_nat (nat (weight q)) :: 64 word)" by simp
  hence "load p q = of_nat (unat (conns p) * nat (weight q))" by (simp add: load_def)
  hence "unat (load p q) = unat (of_nat (unat (conns p) * nat (weight q)) :: 64 word)" by (rule arg_cong)
  also have "\<dots> = unat (conns p) * nat (weight q)"
    by (subst unat_of_nat) (use w(2) in simp)
  finally show ?thesis .
qed

lemma lighter_trans:
  assumes "lighter p q" "lighter q r" "1 \<le> weight q"
  shows "lighter p r"
proof -
  let ?c = "\<lambda>x. unat (conns x)" and ?w = "\<lambda>x. nat (weight x)"
  have "?c p * ?w r * ?w q \<le> ?c q * ?w p * ?w r"
    using mult_right_mono[OF assms(1)[unfolded lighter_def], of "?w r"] by (simp add: ac_simps)
  also have "\<dots> \<le> ?c r * ?w p * ?w q"
    using mult_right_mono[OF assms(2)[unfolded lighter_def], of "?w p"] by (simp add: ac_simps)
  finally show ?thesis using assms(3) by (simp add: lighter_def)
qed

lemma lighter_if_le:
  assumes "loads_fit ps" "p \<in> set ps" "q \<in> set ps"
  shows "lighter p q \<longleftrightarrow> load p q \<le> load q p"
  by (simp add: lighter_def word_le_nat_alt unat_load[OF assms] unat_load[OF assms(1,3,2)])

text \<open>The first loop finds a lightest candidate, the second stays among the lightest.\<close>

lemma lc_fold_lightest:
  assumes "loads_fit ps"
  shows "m \<le> length ps \<Longrightarrow> fst (fold (lc_visit now tried ps) [0..<m] (None, False)) = Some b \<Longrightarrow>
    i < m \<Longrightarrow> eligible now tried ps i \<Longrightarrow> lighter (ps ! b) (ps ! i)"
proof (induction m arbitrary: b i)
  case (Suc m)
  obtain best many where f: "fold (lc_visit now tried ps) [0..<m] (None, False) = (best, many)" by force
  note prev = lc_fold_eligible[of m ps now tried] 
  have le: "lighter (ps ! x) (ps ! y) \<longleftrightarrow> load (ps ! x) (ps ! y) \<le> load (ps ! y) (ps ! x)"
    if "x < length ps" "y < length ps" for x y
    using lighter_if_le[OF assms] that by simp
  have pos: "1 \<le> weight (ps ! x)" if "x < length ps" for x
    using assms that by (auto simp: loads_fit_def list_all_length)
  show ?case
  proof (cases best)
    case None
    with Suc.prems f prev le[of m m] show ?thesis
      by (auto simp: less_Suc_eq split: if_splits)
  next
    case (Some b1)
    hence b1: "b1 < m" using prev f Suc.prems(1) by simp
    have old: "lighter (ps ! b1) (ps ! j)" if "j < m" "eligible now tried ps j" for j
      using Suc.IH[of b1 j] Suc.prems(1) f Some that by simp
    have new: "b = b1 \<and> (i = m \<longrightarrow> lighter (ps ! b1) (ps ! i)) \<or>
        b = m \<and> eligible now tried ps m \<and> lighter (ps ! m) (ps ! b1)"
      using Suc.prems f Some b1 le[of m b1] le[of b1 m] by (auto split: if_splits)
    show ?thesis
    proof (cases "b = b1")
      case True
      with new old Suc.prems(3,4) b1 show ?thesis by (auto simp: less_Suc_eq)
    next
      case False
      with new have b: "b = m" "lighter (ps ! m) (ps ! b1)" by auto
      show ?thesis
      proof (cases "i = m")
        case True
        with b show ?thesis by (simp add: lighter_def)
      next
        case False
        with old[of i] Suc.prems b b1 pos[of b1] show ?thesis
          by (auto intro: lighter_trans[of _ "ps ! b1"])
      qed
    qed
  qed
qed simp

lemma lc_tie_lighter:
  assumes "loads_fit ps0"
  shows "lc_inv now tried ps0 (ps, tot, b) \<Longrightarrow> (\<And>i. i \<in> set xs \<Longrightarrow> i < length ps0) \<Longrightarrow>
    lighter (ps0 ! b) (ps0 ! b0) \<Longrightarrow>
    fold (lc_tie_visit now tried) xs (ps, tot, b) = (ps', tot', b') \<Longrightarrow> lighter (ps0 ! b') (ps0 ! b0)"
proof (induction xs arbitrary: ps tot b)
  case (Cons i xs)
  obtain ps1 tot1 b1 where v: "lc_tie_visit now tried i (ps, tot, b) = (ps1, tot1, b1)" by (metis prod_cases3)
  have inv: "lc_inv now tried ps0 (ps1, tot1, b1)"
    using lc_inv_visit[OF Cons.prems(1), of i] Cons.prems(2) v by simp
  have idx: "i < length ps0" "b < length ps0" using Cons.prems(1,2) by (auto simp: lc_inv_def)
  have st: "static (ps ! i) = static (ps0 ! i)" "static (ps ! b) = static (ps0 ! b)"
    using Cons.prems(1) idx by (auto simp: lc_inv_def)
  have "load (ps ! i) (ps ! b) = load (ps0 ! i) (ps0 ! b)" "load (ps ! b) (ps ! i) = load (ps0 ! b) (ps0 ! i)"
    using static_fields[OF st(1)] static_fields[OF st(2)] by (simp_all add: load_def)
  hence "b1 = b \<or> b1 = i \<and> load (ps0 ! i) (ps0 ! b) = load (ps0 ! b) (ps0 ! i)"
    using v by (auto simp: Let_def split: if_splits)
  hence "lighter (ps0 ! b1) (ps0 ! b)"
    using lighter_if_le[OF assms, of "ps0 ! i" "ps0 ! b"] idx by (auto simp: lighter_def[of "ps0 ! b"])
  moreover have "1 \<le> weight (ps0 ! b)" using assms idx by (auto simp: loads_fit_def list_all_length)
  ultimately have "lighter (ps0 ! b1) (ps0 ! b0)" using Cons.prems(3) lighter_trans by blast
  with Cons.IH[OF inv _ this] Cons.prems(2,4) v show ?case by (simp del: lc_tie_visit.simps)
qed simp

text \<open>
  C36 (functional). The peer the least connections balancer chooses has the least number of active
  connections relative to its weight among all candidates, as long as the products of the 64-bit
  comparison do not overflow.\<close>

theorem least_conn_minimal:
  assumes "lc_pick now ps tried = (ps', tried', Some b)" "loads_fit ps"
    and "i < length ps" "\<not> rr_skip now tried i (ps ! i)"
  shows "unat (conns (ps ! b)) * nat (weight (ps ! i)) \<le> unat (conns (ps ! i)) * nat (weight (ps ! b))"
proof (rule lc_pick_cases[of now ps tried])
  fix b0 many ps1 tot b1
  assume f: "fold (lc_visit now tried ps) [0..<length ps] (None, False) = (Some b0, many)"
    and t: "(if many then fold (lc_tie_visit now tried) [b0..<length ps] (ps, 0, b0) else (ps, 0, b0)) = (ps1, tot, b1)"
    and p: "lc_pick now ps tried = (ps1[b1 := peer_chosen now tot (ps1 ! b1)], tried_set tried b1, Some b1)"
  have b0: "b0 < length ps" "eligible now tried ps b0"
    using lc_fold_eligible[of "length ps" ps now tried] f by simp_all
  have "lighter (ps ! b) (ps ! b0)"
  proof (cases many)
    case True
    have "lc_inv now tried ps (ps, 0, b0)" using b0 by (simp add: lc_inv_def)
    from lc_tie_lighter[OF assms(2) this, of "[b0..<length ps]" b0] True t p assms(1) show ?thesis
      by (simp add: lighter_def)
  qed (use t p assms(1) in \<open>simp add: lighter_def\<close>)
  moreover have "lighter (ps ! b0) (ps ! i)"
    using lc_fold_lightest[OF assms(2), of "length ps" now tried b0 i] f assms(3,4) by simp
  moreover have "1 \<le> weight (ps ! b0)" using assms(2) b0(1) by (auto simp: loads_fit_def list_all_length)
  ultimately have "lighter (ps ! b) (ps ! i)" by (rule lighter_trans)
  thus ?thesis by (simp add: lighter_def)
qed (use assms in auto)

theorem least_conn_minimal_witness:
  "let ps = (peer rr_sample)[0 := (peer rr_sample ! 0)\<lparr>conns := 1\<rparr>] in
   snd (snd (lc_pick 5 ps [0])) = Some 1 \<and>
   unat (conns (ps ! 1)) * nat (weight (ps ! 0)) \<le> unat (conns (ps ! 0)) * nat (weight (ps ! 1))"
proof -
  let ?ps = "(peer rr_sample)[0 := (peer rr_sample ! 0)\<lparr>conns := 1\<rparr>]"
  have p: "snd (snd (lc_pick 5 ?ps [0])) = Some 1"
    by (simp add: lc_pick_def rr_sample_def rr_group_def rr_fill_def rr_server_peer_def upt_rec
        rr_skip_def tried_test_def peer_failing_def peer_full_def load_def)
  then obtain ps' tried' where l: "lc_pick 5 ?ps [0] = (ps', tried', Some 1)" by (metis prod.collapse)
  have fit: "loads_fit ?ps"
    by (simp add: loads_fit_def rr_sample_def rr_group_def rr_fill_def rr_server_peer_def)
  have i: "0 < length ?ps" "\<not> rr_skip 5 [0] 0 (?ps ! 0)"
    by (simp_all add: rr_sample_def rr_group_def rr_fill_def rr_server_peer_def
        rr_skip_def tried_test_def peer_failing_def peer_full_def)
  from p least_conn_minimal[OF l fit i] show ?thesis by (simp only: Let_def)
qed

end
