(* ===== verification/Ngx_Crc32.thy ===== *)
theory Ngx_Crc32
  imports Nginx_Prelude
begin

text \<open>
  \<^verbatim>\<open>core/ngx_crc32.h\<close>, \<^verbatim>\<open>core/ngx_crc32.c\<close>: CRC-32 by a table of 256 words, one byte at a time, and by a
  table of 16 words, half a byte at a time. Both are proved to be the division of the message by the polynomial, one bit
  at a time.
\<close>

section \<open>The tables and the loops\<close>

definition ngx_crc32_table16 :: "32 word list" where
  "ngx_crc32_table16 =
    [0x00000000, 0x1db71064, 0x3b6e20c8, 0x26d930ac, 0x76dc4190, 0x6b6b51f4, 0x4db26158, 0x5005713c,
     0xedb88320, 0xf00f9344, 0xd6d6a3e8, 0xcb61b38c, 0x9b64c2b0, 0x86d3d2d4, 0xa00ae278, 0xbdbdf21c]"

definition ngx_crc32_table256 :: "32 word list" where
  "ngx_crc32_table256 =
    [0x00000000, 0x77073096, 0xee0e612c, 0x990951ba, 0x076dc419, 0x706af48f, 0xe963a535, 0x9e6495a3,
     0x0edb8832, 0x79dcb8a4, 0xe0d5e91e, 0x97d2d988, 0x09b64c2b, 0x7eb17cbd, 0xe7b82d07, 0x90bf1d91,
     0x1db71064, 0x6ab020f2, 0xf3b97148, 0x84be41de, 0x1adad47d, 0x6ddde4eb, 0xf4d4b551, 0x83d385c7,
     0x136c9856, 0x646ba8c0, 0xfd62f97a, 0x8a65c9ec, 0x14015c4f, 0x63066cd9, 0xfa0f3d63, 0x8d080df5,
     0x3b6e20c8, 0x4c69105e, 0xd56041e4, 0xa2677172, 0x3c03e4d1, 0x4b04d447, 0xd20d85fd, 0xa50ab56b,
     0x35b5a8fa, 0x42b2986c, 0xdbbbc9d6, 0xacbcf940, 0x32d86ce3, 0x45df5c75, 0xdcd60dcf, 0xabd13d59,
     0x26d930ac, 0x51de003a, 0xc8d75180, 0xbfd06116, 0x21b4f4b5, 0x56b3c423, 0xcfba9599, 0xb8bda50f,
     0x2802b89e, 0x5f058808, 0xc60cd9b2, 0xb10be924, 0x2f6f7c87, 0x58684c11, 0xc1611dab, 0xb6662d3d,
     0x76dc4190, 0x01db7106, 0x98d220bc, 0xefd5102a, 0x71b18589, 0x06b6b51f, 0x9fbfe4a5, 0xe8b8d433,
     0x7807c9a2, 0x0f00f934, 0x9609a88e, 0xe10e9818, 0x7f6a0dbb, 0x086d3d2d, 0x91646c97, 0xe6635c01,
     0x6b6b51f4, 0x1c6c6162, 0x856530d8, 0xf262004e, 0x6c0695ed, 0x1b01a57b, 0x8208f4c1, 0xf50fc457,
     0x65b0d9c6, 0x12b7e950, 0x8bbeb8ea, 0xfcb9887c, 0x62dd1ddf, 0x15da2d49, 0x8cd37cf3, 0xfbd44c65,
     0x4db26158, 0x3ab551ce, 0xa3bc0074, 0xd4bb30e2, 0x4adfa541, 0x3dd895d7, 0xa4d1c46d, 0xd3d6f4fb,
     0x4369e96a, 0x346ed9fc, 0xad678846, 0xda60b8d0, 0x44042d73, 0x33031de5, 0xaa0a4c5f, 0xdd0d7cc9,
     0x5005713c, 0x270241aa, 0xbe0b1010, 0xc90c2086, 0x5768b525, 0x206f85b3, 0xb966d409, 0xce61e49f,
     0x5edef90e, 0x29d9c998, 0xb0d09822, 0xc7d7a8b4, 0x59b33d17, 0x2eb40d81, 0xb7bd5c3b, 0xc0ba6cad,
     0xedb88320, 0x9abfb3b6, 0x03b6e20c, 0x74b1d29a, 0xead54739, 0x9dd277af, 0x04db2615, 0x73dc1683,
     0xe3630b12, 0x94643b84, 0x0d6d6a3e, 0x7a6a5aa8, 0xe40ecf0b, 0x9309ff9d, 0x0a00ae27, 0x7d079eb1,
     0xf00f9344, 0x8708a3d2, 0x1e01f268, 0x6906c2fe, 0xf762575d, 0x806567cb, 0x196c3671, 0x6e6b06e7,
     0xfed41b76, 0x89d32be0, 0x10da7a5a, 0x67dd4acc, 0xf9b9df6f, 0x8ebeeff9, 0x17b7be43, 0x60b08ed5,
     0xd6d6a3e8, 0xa1d1937e, 0x38d8c2c4, 0x4fdff252, 0xd1bb67f1, 0xa6bc5767, 0x3fb506dd, 0x48b2364b,
     0xd80d2bda, 0xaf0a1b4c, 0x36034af6, 0x41047a60, 0xdf60efc3, 0xa867df55, 0x316e8eef, 0x4669be79,
     0xcb61b38c, 0xbc66831a, 0x256fd2a0, 0x5268e236, 0xcc0c7795, 0xbb0b4703, 0x220216b9, 0x5505262f,
     0xc5ba3bbe, 0xb2bd0b28, 0x2bb45a92, 0x5cb36a04, 0xc2d7ffa7, 0xb5d0cf31, 0x2cd99e8b, 0x5bdeae1d,
     0x9b64c2b0, 0xec63f226, 0x756aa39c, 0x026d930a, 0x9c0906a9, 0xeb0e363f, 0x72076785, 0x05005713,
     0x95bf4a82, 0xe2b87a14, 0x7bb12bae, 0x0cb61b38, 0x92d28e9b, 0xe5d5be0d, 0x7cdcefb7, 0x0bdbdf21,
     0x86d3d2d4, 0xf1d4e242, 0x68ddb3f8, 0x1fda836e, 0x81be16cd, 0xf6b9265b, 0x6fb077e1, 0x18b74777,
     0x88085ae6, 0xff0f6a70, 0x66063bca, 0x11010b5c, 0x8f659eff, 0xf862ae69, 0x616bffd3, 0x166ccf45,
     0xa00ae278, 0xd70dd2ee, 0x4e048354, 0x3903b3c2, 0xa7672661, 0xd06016f7, 0x4969474d, 0x3e6e77db,
     0xaed16a4a, 0xd9d65adc, 0x40df0b66, 0x37d83bf0, 0xa9bcae53, 0xdebb9ec5, 0x47b2cf7f, 0x30b5ffe9,
     0xbdbdf21c, 0xcabac28a, 0x53b39330, 0x24b4a3a6, 0xbad03605, 0xcdd70693, 0x54de5729, 0x23d967bf,
     0xb3667a2e, 0xc4614ab8, 0x5d681b02, 0x2a6f2b94, 0xb40bbe37, 0xc30c8ea1, 0x5a05df1b, 0x2d02ef8d]"

text \<open>\<open>*p\<close> as an operand of the 32-bit exclusive or.\<close>

abbreviation u32 :: "u_char \<Rightarrow> 32 word" where "u32 \<equiv> ucast"

fun ngx_crc32_update :: "32 word \<Rightarrow> u_char list \<Rightarrow> 32 word" where
  "ngx_crc32_update c [] = c"
| "ngx_crc32_update c (x # p) =
     ngx_crc32_update (ngx_crc32_table256 ! unat ((c XOR u32 x) AND 0xff) XOR drop_bit 8 c) p"

definition ngx_crc32_init :: "32 word" where
  "ngx_crc32_init = 0xffffffff"

definition ngx_crc32_final :: "32 word \<Rightarrow> 32 word" where
  "ngx_crc32_final crc = crc XOR 0xffffffff"

fun crc32_long_loop :: "32 word \<Rightarrow> u_char list \<Rightarrow> 32 word" where
  "crc32_long_loop crc [] = crc"
| "crc32_long_loop crc (x # p) =
     crc32_long_loop (ngx_crc32_table256 ! unat ((crc XOR u32 x) AND 0xff) XOR drop_bit 8 crc) p"

definition ngx_crc32_long :: "u_char list \<Rightarrow> 32 word" where
  "ngx_crc32_long p = crc32_long_loop 0xffffffff p XOR 0xffffffff"

fun crc32_short_loop :: "32 word \<Rightarrow> u_char list \<Rightarrow> 32 word" where
  "crc32_short_loop crc [] = crc"
| "crc32_short_loop crc (c # p) =
     (let crc1 = ngx_crc32_table16 ! unat ((crc XOR u32 (c AND 0xf)) AND 0xf) XOR drop_bit 4 crc;
          crc2 = ngx_crc32_table16 ! unat ((crc1 XOR u32 (drop_bit 4 c)) AND 0xf) XOR drop_bit 4 crc1
      in crc32_short_loop crc2 p)"

definition ngx_crc32_short :: "u_char list \<Rightarrow> 32 word" where
  "ngx_crc32_short p = crc32_short_loop 0xffffffff p XOR 0xffffffff"

section \<open>Bit by bit\<close>

definition crc_bit :: "32 word \<Rightarrow> 32 word" where
  "crc_bit c = (if bit c 0 then drop_bit 1 c XOR 0xEDB88320 else drop_bit 1 c)"

fun crc_bits :: "nat \<Rightarrow> 32 word \<Rightarrow> 32 word" where
  "crc_bits 0 c = c"
| "crc_bits (Suc n) c = crc_bits n (crc_bit c)"

fun crc_message :: "32 word \<Rightarrow> u_char list \<Rightarrow> 32 word" where
  "crc_message c [] = c"
| "crc_message c (x # p) = crc_message (crc_bits 8 (c XOR u32 x)) p"

definition crc32_spec :: "u_char list \<Rightarrow> 32 word" where
  "crc32_spec p = NOT (crc_message (NOT 0) p)"

lemma crc_bit_xor: "crc_bit (a XOR b) = crc_bit a XOR crc_bit b"
  by (auto simp: crc_bit_def bit_simps ac_simps xor.assoc)

lemma crc_bits_xor: "crc_bits n (a XOR b) = crc_bits n a XOR crc_bits n b"
  by (induction n arbitrary: a b) (simp_all add: crc_bit_xor)

lemma crc_bits_add: "crc_bits (m + n) c = crc_bits n (crc_bits m c)"
  by (induction m arbitrary: c) simp_all

text \<open>While the lowest bit is zero a step only shifts.\<close>

lemma crc_bits_shift: "(\<And>i. i < k \<Longrightarrow> \<not> bit c i) \<Longrightarrow> crc_bits k c = drop_bit k c"
proof (induction k arbitrary: c)
  case (Suc k)
  have "crc_bit c = drop_bit 1 c" using Suc.prems[of 0] by (simp add: crc_bit_def)
  moreover have "\<not> bit (drop_bit 1 c) i" if "i < k" for i using Suc.prems[of "Suc i"] that by (simp add: bit_drop_bit_eq)
  ultimately show ?case using Suc.IH[of "drop_bit 1 c"] by (simp add: drop_bit_drop_bit)
qed simp

lemma crc_bits_split: "crc_bits k c = crc_bits k (c AND mask k) XOR drop_bit k c"
proof -
  have "c = (c AND mask k) XOR (c AND NOT (mask k))" by (rule bit_word_eqI) (auto simp: bit_simps)
  hence "crc_bits k c = crc_bits k (c AND mask k) XOR crc_bits k (c AND NOT (mask k))" by (metis crc_bits_xor)
  moreover have "crc_bits k (c AND NOT (mask k)) = drop_bit k (c AND NOT (mask k))"
    by (rule crc_bits_shift) (auto simp: bit_simps)
  moreover have "drop_bit k (c AND NOT (mask k)) = drop_bit k c" by (rule bit_word_eqI) (auto simp: bit_simps dest: bit_imp_le_length)
  ultimately show ?thesis by simp
qed

text \<open>The tables hold the remainders of all bytes and half bytes.\<close>

lemma table16_checked: "list_all (\<lambda>i. crc_bits 4 (word_of_nat i) = ngx_crc32_table16 ! i) [0..<16]"
  by code_simp

fun spread :: "32 word list \<Rightarrow> 32 word list \<Rightarrow> 32 word list" where
  "spread [] ts = ts"
| "spread (b # bs) ts = spread bs (ts @ map (\<lambda>t. t XOR b) ts)"

lemma word_of_nat_high:
  assumes "j < 2 ^ k" "k < 32"
  shows "(word_of_nat (2 ^ k + j) :: 32 word) = word_of_nat j XOR 2 ^ k"
proof -
  have nb: "\<not> bit j i" if "k \<le> i" for i
    using assms(1) that by (metis bit_take_bit_iff not_le take_bit_nat_eq_self_iff)
  have "(word_of_nat j :: 32 word) AND 2 ^ k = 0"
    by (rule bit_word_eqI) (use nb[of k] assms(2) in \<open>auto simp: bit_simps\<close>)
  hence "(word_of_nat j :: 32 word) + 2 ^ k = word_of_nat j XOR 2 ^ k"
    by (simp add: disjunctive_xor_eq_or disjunctive_add_eq_or)
  thus ?thesis by (simp add: add.commute)
qed

lemma spread_nth:
  assumes "length ts = 2 ^ k" "\<And>i. i < 2 ^ k \<Longrightarrow> ts ! i = crc_bits 8 (word_of_nat i)"
    "\<And>j. j < length bs \<Longrightarrow> bs ! j = crc_bits 8 (2 ^ (k + j))" "k + length bs \<le> 32" "i < 2 ^ (k + length bs)"
  shows "spread bs ts ! i = crc_bits 8 (word_of_nat i)"
  using assms
proof (induction bs arbitrary: ts k)
  case (Cons b bs)
  have b: "b = crc_bits 8 (2 ^ k)" using Cons.prems(3)[of 0] by simp
  have "(ts @ map (\<lambda>t. t XOR b) ts) ! n = crc_bits 8 (word_of_nat n)" if n: "n < 2 ^ Suc k" for n
  proof (cases "n < 2 ^ k")
    case False
    then obtain j where j: "n = 2 ^ k + j" using le_Suc_ex by (metis not_less)
    hence "j < 2 ^ k" using n by simp
    thus ?thesis
      using Cons.prems(1,2,4) j b word_of_nat_high[of j k] by (simp add: nth_append crc_bits_xor)
  qed (use Cons.prems(1,2) in \<open>simp add: nth_append\<close>)
  moreover have "bs ! j = crc_bits 8 (2 ^ (Suc k + j))" if "j < length bs" for j using Cons.prems(3)[of "Suc j"] that by simp
  ultimately show ?case using Cons.IH[of "ts @ map (\<lambda>t. t XOR b) ts" "Suc k"] Cons.prems(1,4,5) by simp
qed simp

definition crc_powers :: "32 word list" where
  "crc_powers = [0x77073096, 0xee0e612c, 0x076dc419, 0x0edb8832, 0x1db71064, 0x3b6e20c8, 0x76dc4190, 0xedb88320]"

lemma crc_powers_checked: "list_all (\<lambda>j. crc_powers ! j = crc_bits 8 (2 ^ j)) [0..<8]"
  by code_simp

lemma table256_spread: "ngx_crc32_table256 = spread crc_powers [0]"
  by code_simp

lemma table16: "n < 16 \<Longrightarrow> ngx_crc32_table16 ! n = crc_bits 4 (word_of_nat n)"
  using table16_checked by (simp only: list_all_iff set_upt atLeastLessThan_iff) simp

lemma table256:
  assumes "n < 256"
  shows "ngx_crc32_table256 ! n = crc_bits 8 (word_of_nat n)"
proof -
  have "crc_bits m 0 = 0" for m by (induction m) (simp_all add: crc_bit_def)
  moreover have "crc_powers ! j = crc_bits 8 (2 ^ j)" if "j < 8" for j
    using crc_powers_checked that by (simp only: list_all_iff set_upt atLeastLessThan_iff) simp
  moreover have "length crc_powers = 8" by (simp add: crc_powers_def)
  ultimately show ?thesis
    unfolding table256_spread using assms by (intro spread_nth[of "[0]" 0]) simp_all
qed

lemma unat_and_mask: "unat ((c :: 32 word) AND mask k) < 2 ^ k" if "k < 32"
  using that by (simp add: take_bit_eq_mask[symmetric] unsigned_take_bit_eq)

lemma byte_step:
  "ngx_crc32_table256 ! unat ((c XOR u32 x) AND 0xff) XOR drop_bit 8 c = crc_bits 8 (c XOR u32 x)"
proof -
  have m: "(0xff :: 32 word) = mask 8" by (simp add: mask_eq_exp_minus_1)
  have "unat ((c XOR u32 x) AND mask 8) < 256" using unat_and_mask[of 8 "c XOR u32 x"] by simp
  moreover have "drop_bit 8 (c XOR u32 x) = drop_bit 8 c" by (rule bit_word_eqI) (auto simp: bit_simps)
  ultimately show ?thesis using crc_bits_split[of 8 "c XOR u32 x"] unfolding m by (simp add: table256)
qed

lemma half_step:
  assumes "\<And>i. 4 \<le> i \<Longrightarrow> \<not> bit x i"
  shows "ngx_crc32_table16 ! unat ((c XOR x) AND 0xf) XOR drop_bit 4 c = crc_bits 4 (c XOR x)"
proof -
  have m: "(0xf :: 32 word) = mask 4" by (simp add: mask_eq_exp_minus_1)
  have "unat ((c XOR x) AND mask 4) < 16" using unat_and_mask[of 4 "c XOR x"] by simp
  moreover have "drop_bit 4 x = 0" by (rule bit_word_eqI) (simp add: bit_drop_bit_eq assms)
  hence "drop_bit 4 (c XOR x) = drop_bit 4 c" by simp
  ultimately show ?thesis using crc_bits_split[of 4 "c XOR x"] unfolding m by (simp add: table16)
qed

lemma two_half_steps:
  "crc_bits 4 (crc_bits 4 (c XOR u32 (x AND 0xf)) XOR u32 (drop_bit 4 x)) = crc_bits 8 (c XOR u32 x)"
proof -
  have m: "(0xf :: 8 word) = mask 4" by (simp add: mask_eq_exp_minus_1)
  have x: "u32 x = u32 (x AND 0xf) XOR push_bit 4 (u32 (drop_bit 4 x))"
    unfolding m by (rule bit_word_eqI) (auto simp: bit_simps)
  have "crc_bits 4 (push_bit 4 (u32 (drop_bit 4 x))) = drop_bit 4 (push_bit 4 (u32 (drop_bit 4 x)))"
    by (rule crc_bits_shift) (auto simp: bit_simps)
  also have "\<dots> = u32 (drop_bit 4 x)"
  proof (rule bit_word_eqI)
    fix n
    have "bit x (4 + n) \<Longrightarrow> 4 + n < 8" by (drule bit_imp_le_length) simp
    thus "bit (drop_bit 4 (push_bit 4 (u32 (drop_bit 4 x)))) n = bit (u32 (drop_bit 4 x)) n" by (auto simp: bit_simps)
  qed
  finally have "crc_bits 4 (c XOR u32 x) = crc_bits 4 (c XOR u32 (x AND 0xf)) XOR u32 (drop_bit 4 x)"
    by (subst x) (simp add: xor.assoc[symmetric] crc_bits_xor)
  thus ?thesis using crc_bits_add[of 4 4 "c XOR u32 x"] by simp
qed

lemma crc32_update_message: "ngx_crc32_update c p = crc_message c p"
  by (induction p arbitrary: c) (simp_all add: byte_step)

lemma crc32_long_message: "crc32_long_loop c p = crc_message c p"
  by (induction p arbitrary: c) (simp_all add: byte_step)

lemma crc32_short_message: "crc32_short_loop c p = crc_message c p"
proof (induction p arbitrary: c)
  case (Cons x p)
  have m: "(0xf :: 8 word) = mask 4" by (simp add: mask_eq_exp_minus_1)
  have low: "\<not> bit (u32 (x AND 0xf)) i" and high: "\<not> bit (u32 (drop_bit 4 x)) i" if "4 \<le> i" for i
    using that unfolding m by (auto simp: bit_simps)
  have "crc32_short_loop c (x # p) = crc32_short_loop (crc_bits 4 (crc_bits 4 (c XOR u32 (x AND 0xf)) XOR u32 (drop_bit 4 x))) p"
    unfolding crc32_short_loop.simps Let_def using half_step[OF low, of c] half_step[OF high, of "crc_bits 4 (c XOR u32 (x AND 0xf))"] by simp
  thus ?case using Cons.IH two_half_steps by simp
qed simp

lemma crc_message_append: "crc_message c (p @ q) = crc_message (crc_message c p) q"
  by (induction p arbitrary: c) simp_all

section \<open>Properties\<close>

text \<open>
  C15 (equivalence). The routines with the large table, with the small table and in pieces all compute the same checksum, the
  remainder of the message by the polynomial of CRC-32.
\<close>

theorem crc32_correct:
  "ngx_crc32_long p = crc32_spec p \<and> ngx_crc32_short p = crc32_spec p \<and>
   ngx_crc32_final (ngx_crc32_update (ngx_crc32_update ngx_crc32_init q) r) = crc32_spec (q @ r)"
proof -
  have n: "(0xffffffff :: 32 word) = NOT 0" by simp
  have x: "c XOR NOT 0 = NOT c" for c :: "32 word" by (rule bit_word_eqI) (simp add: bit_simps)
  show ?thesis
    unfolding ngx_crc32_long_def ngx_crc32_short_def ngx_crc32_final_def ngx_crc32_init_def crc32_spec_def n x
      crc32_update_message crc32_long_message crc32_short_message crc_message_append by simp
qed

end
