(* ===== verification/Ngx_Stream_Hash.thy ===== *)
theory Ngx_Stream_Hash
  imports Ngx_Stream_Least_Conn Ngx_Crc32 Ngx_Number
begin

text \<open>
  \<^verbatim>\<open>stream/ngx_stream_upstream_hash_module.c\<close>: the balancers that choose a peer by a hash of a key, the simple one
  (compatible with \<open>Cache::Memcached\<close>) and the consistent one (a ring of points for each server). The peers, the
  sessions' data and the fallback are those of the round robin balancer. The value of the key of a session is an
  argument, and so is \<open>qsort\<close> of the C library.
\<close>

section \<open>The simple hash\<close>

record hash_peer_data =
  hp_rrp :: rr_peer_data
  hp_key :: "u_char list"
  hp_tries :: nat
  hp_rehash :: nat
  hp_hash :: "32 word"

definition ngx_stream_upstream_init_hash_peer ::
  "u_char list \<Rightarrow> rr_peers list \<Rightarrow> peer_connection \<Rightarrow> hash_peer_data \<times> peer_connection" where
  "ngx_stream_upstream_init_hash_peer key chain pc =
     (case ngx_stream_upstream_init_round_robin_peer chain pc of (rrp, pc') \<Rightarrow>
       (\<lparr>hp_rrp = rrp, hp_key = key, hp_tries = 0, hp_rehash = 0, hp_hash = 0\<rparr>, pc'))"

text \<open>\<open>((crc32([REHASH] KEY) >> 16) & 0x7fff)\<close>, with \<open>REHASH\<close> omitted at the first iteration.\<close>

definition hash_value :: "nat \<Rightarrow> u_char list \<Rightarrow> 32 word" where
  "hash_value rehash key =
     (let h0 = ngx_crc32_init;
          h1 = (if 0 < rehash then ngx_crc32_update h0 (ngx_sprintf_num sprintf_room rehash SP 0 0) else h0);
          h2 = ngx_crc32_final (ngx_crc32_update h1 key)
      in drop_bit 16 h2 AND 0x7fff)"

text \<open>The loop that finds the peer in whose share of the total weight \<open>w\<close> lies; \<open>None\<close>: it follows a NULL pointer.\<close>

fun hash_walk :: "int \<Rightarrow> rr_peer list \<Rightarrow> nat \<Rightarrow> nat option" where
  "hash_walk w [] p = None"
| "hash_walk w (q # ps) p = (if weight q \<le> w then hash_walk (w - weight q) ps (p + 1) else Some p)"

definition peer_checked :: "int \<Rightarrow> rr_peer \<Rightarrow> rr_peer" where
  "peer_checked now p = (if now - checked p > fail_timeout p then p\<lparr>checked := now\<rparr> else p)"

type_synonym hash_out = "ngx_rc \<times> rr_peers list \<times> hash_peer_data \<times> peer_connection"

text \<open>\<open>hp->get_rr_peer(pc, &hp->rrp)\<close>\<close>

definition hash_fallback :: "int \<Rightarrow> rr_peers list \<Rightarrow> hash_peer_data \<Rightarrow> peer_connection \<Rightarrow> hash_out" where
  "hash_fallback now chain hp pc =
     (case ngx_stream_upstream_get_round_robin_peer now chain (hp_rrp hp) pc of
        (rc, chain', rrp, pc') \<Rightarrow> (rc, chain', hp\<lparr>hp_rrp := rrp\<rparr>, pc'))"

text \<open>What follows the choice of peer \<open>i\<close>.\<close>

definition hash_take :: "int \<Rightarrow> nat \<Rightarrow> rr_peers list \<Rightarrow> hash_peer_data \<Rightarrow> peer_connection \<Rightarrow> hash_out" where
  "hash_take now i chain hp pc =
     (let k = rrp_peers (hp_rrp hp); p = peer (chain ! k) ! i;
          rrp = (hp_rrp hp)\<lparr>rrp_current := Some (k, i)\<rparr>;
          pc' = pc\<lparr>pc_sockaddr := sockaddr p, pc_name := name p\<rparr>;
          chain' = set_peer chain k i (\<lambda>p. peer_checked now (p\<lparr>conns := conns p + 1\<rparr>))
      in (NGX_OK, chain', hp\<lparr>hp_rrp := rrp\<lparr>rrp_tried := tried_set (rrp_tried rrp) i\<rparr>\<rparr>, pc'))"

function hash_loop :: "int \<Rightarrow> rr_peers list \<Rightarrow> hash_peer_data \<Rightarrow> peer_connection \<Rightarrow> hash_out option" where
  "hash_loop now chain hp pc =
     (let g = chain ! rrp_peers (hp_rrp hp);
          hp1 = hp\<lparr>hp_hash := hp_hash hp + hash_value (hp_rehash hp) (hp_key hp), hp_rehash := hp_rehash hp + 1\<rparr>;
          w = uint ((ucast (hp_hash hp1) :: 64 word) mod total_weight g)
      in case hash_walk w (peer g) 0 of
           None \<Rightarrow> None
         | Some p \<Rightarrow>
             if rr_skip now (rrp_tried (hp_rrp hp)) p (peer g ! p)
             then let hp2 = hp1\<lparr>hp_tries := hp_tries hp1 + 1\<rparr> in
                  if 20 < hp_tries hp2 then Some (hash_fallback now chain hp2 pc)
                  else hash_loop now chain hp2 pc
             else Some (hash_take now p chain hp1 pc))"
  by pat_completeness auto
termination by (relation "measure (\<lambda>(now, chain, hp, pc). 21 - hp_tries hp)") (auto simp: Let_def)

declare hash_loop.simps [simp del]

definition ngx_stream_upstream_get_hash_peer ::
  "int \<Rightarrow> rr_peers list \<Rightarrow> hash_peer_data \<Rightarrow> peer_connection \<Rightarrow> hash_out option" where
  "ngx_stream_upstream_get_hash_peer now chain hp pc =
     (if 20 < hp_tries hp \<or> single (chain ! rrp_peers (hp_rrp hp)) then Some (hash_fallback now chain hp pc)
      else hash_loop now chain hp pc)"

section \<open>The ring of the consistent hash\<close>

record chash_point =
  pt_hash :: "32 word"
  pt_server :: "u_char list"

text \<open>The length of the port behind the last colon, from the end of the name.\<close>

fun chash_port_len :: "u_char list \<Rightarrow> nat \<Rightarrow> nat option" where
  "chash_port_len [] j = None"
| "chash_port_len (c # cs) j =
     (if c = c8 CHR '':'' then Some j
      else if c < c8 CHR ''0'' \<or> c > c8 CHR ''9'' then None
      else chash_port_len cs (j + 1))"

definition chash_host_port :: "u_char list \<Rightarrow> u_char list \<times> u_char list" where
  "chash_host_port s =
     (if 5 \<le> length s \<and> ngx_strncasecmp s (bytes ''unix:'') 5 = 0 then (drop 5 s, [])
      else case chash_port_len (rev s) 0 of
             Some j \<Rightarrow> (take (length s - j - 1) s, drop (length s - j) s)
           | None \<Rightarrow> (s, []))"

definition chash_base :: "u_char list \<Rightarrow> 32 word" where
  "chash_base s =
     (case chash_host_port s of (host, port) \<Rightarrow>
       ngx_crc32_update (ngx_crc32_update (ngx_crc32_update ngx_crc32_init host) [0]) port)"

definition le_bytes :: "32 word \<Rightarrow> u_char list" where
  "le_bytes h = [ucast h, ucast (drop_bit 8 h), ucast (drop_bit 16 h), ucast (drop_bit 24 h)]"

fun chash_server_points :: "nat \<Rightarrow> u_char list \<Rightarrow> 32 word \<Rightarrow> 32 word \<Rightarrow> chash_point list" where
  "chash_server_points 0 s base prev = []"
| "chash_server_points (Suc n) s base prev =
     (let h = ngx_crc32_final (ngx_crc32_update base (le_bytes prev)) in
      \<lparr>pt_hash = h, pt_server = s\<rparr> # chash_server_points n s base h)"

definition chash_all_points :: "rr_peer list \<Rightarrow> chash_point list" where
  "chash_all_points ps = concat (map (\<lambda>p. chash_server_points (nat (weight p * 160)) (server p) (chash_base (server p)) 0) ps)"

definition ngx_stream_upstream_chash_cmp_points :: "chash_point \<Rightarrow> chash_point \<Rightarrow> int" where
  "ngx_stream_upstream_chash_cmp_points one two =
     (if pt_hash one < pt_hash two then -1 else if pt_hash one > pt_hash two then 1 else 0)"

text \<open>The loop that drops points with the same hash, with \<open>point[i]\<close> the last one kept.\<close>

fun chash_uniq :: "chash_point \<Rightarrow> chash_point list \<Rightarrow> chash_point list" where
  "chash_uniq last_kept [] = [last_kept]"
| "chash_uniq last_kept (p # ps) =
     (if pt_hash last_kept \<noteq> pt_hash p then last_kept # chash_uniq p ps else chash_uniq last_kept ps)"

text \<open>\<open>None\<close>: there is no point, and \<open>points->number\<close> would count one that was never written.\<close>

definition ngx_stream_upstream_init_chash ::
  "(chash_point list \<Rightarrow> chash_point list) \<Rightarrow> rr_peers list \<Rightarrow> chash_point list option" where
  "ngx_stream_upstream_init_chash qsort chain =
     (case qsort (chash_all_points (peer (chain ! 0))) of
        [] \<Rightarrow> None
      | p # ps \<Rightarrow> Some (chash_uniq p ps))"

function chash_search :: "chash_point list \<Rightarrow> 32 word \<Rightarrow> nat \<Rightarrow> nat \<Rightarrow> nat" where
  "chash_search point hash i j =
     (if i < j
      then let k = (i + j) div 2 in
           if hash > pt_hash (point ! k) then chash_search point hash (k + 1) j
           else if hash < pt_hash (point ! k) then chash_search point hash i k
           else k
      else i)"
  by pat_completeness auto
termination by (relation "measure (\<lambda>(point, hash, i, j). j - i)") auto

declare chash_search.simps [simp del]

definition ngx_stream_upstream_find_chash_point :: "chash_point list \<Rightarrow> 32 word \<Rightarrow> nat" where
  "ngx_stream_upstream_find_chash_point points hash = chash_search points hash 0 (length points)"

section \<open>The consistent hash\<close>

definition ngx_stream_upstream_init_chash_peer ::
  "chash_point list \<Rightarrow> u_char list \<Rightarrow> rr_peers list \<Rightarrow> peer_connection \<Rightarrow> hash_peer_data \<times> peer_connection" where
  "ngx_stream_upstream_init_chash_peer points key chain pc =
     (case ngx_stream_upstream_init_hash_peer key chain pc of (hp, pc') \<Rightarrow>
       (hp\<lparr>hp_hash := word_of_nat (ngx_stream_upstream_find_chash_point points (ngx_crc32_long key))\<rparr>, pc'))"

fun chash_visit :: "int \<Rightarrow> u_char list \<Rightarrow> 64 word list \<Rightarrow> nat \<Rightarrow> rr_peer list \<times> int \<times> nat option \<Rightarrow>
    rr_peer list \<times> int \<times> nat option" where
  "chash_visit now s tried i (ps, tot, best) =
     (if tried_test tried i \<or> down (ps ! i) \<or> \<not> same_str (server (ps ! i)) s \<or>
         peer_failing now (ps ! i) \<or> peer_full (ps ! i) then (ps, tot, best)
      else let ps' = ps[i := peer_gain (ps ! i)] in
        (ps', tot + effective_weight (ps ! i),
         case best of
           None \<Rightarrow> Some i
         | Some b \<Rightarrow> if current_weight (ps' ! i) > current_weight (ps' ! b) then Some i else best))"

function ngx_stream_upstream_get_chash_peer ::
  "chash_point list \<Rightarrow> int \<Rightarrow> rr_peers list \<Rightarrow> hash_peer_data \<Rightarrow> peer_connection \<Rightarrow> hash_out" where
  "ngx_stream_upstream_get_chash_peer points now chain hp pc =
     (let k = rrp_peers (hp_rrp hp); g = chain ! k;
          s = pt_server (points ! (unat (hp_hash hp) mod length points))
      in case fold (chash_visit now s (rrp_tried (hp_rrp hp))) [0..<length (peer g)] (peer g, 0, None) of
           (ps, tot, Some b) \<Rightarrow>
             let ps' = ps[b := (ps ! b)\<lparr>current_weight := current_weight (ps ! b) - tot\<rparr>]
             in hash_take now b (chain[k := g\<lparr>peer := ps'\<rparr>]) hp pc
         | (ps, tot, None) \<Rightarrow>
             let chain' = chain[k := g\<lparr>peer := ps\<rparr>];
                 hp1 = hp\<lparr>hp_hash := hp_hash hp + 1, hp_tries := hp_tries hp + 1\<rparr>
             in if length points \<le> hp_tries hp1 then (NGX_BUSY, chain', hp1, pc\<lparr>pc_name := peers_name g\<rparr>)
                else ngx_stream_upstream_get_chash_peer points now chain' hp1 pc)"
  by pat_completeness auto
termination by (relation "measure (\<lambda>(points, now, chain, hp, pc). length points - hp_tries hp)") auto

declare ngx_stream_upstream_get_chash_peer.simps [simp del]

section \<open>The ring\<close>

definition ring_sorted :: "chash_point list \<Rightarrow> bool" where
  "ring_sorted points \<longleftrightarrow> sorted_wrt (\<lambda>a b. pt_hash a < pt_hash b) points"

text \<open>The place of a hash: the points before it are smaller, those from it on are not.\<close>

definition ring_place :: "chash_point list \<Rightarrow> 32 word \<Rightarrow> nat \<Rightarrow> bool" where
  "ring_place points h i \<longleftrightarrow> i \<le> length points \<and> (\<forall>k<i. pt_hash (points ! k) < h) \<and>
     (\<forall>k<length points. i \<le> k \<longrightarrow> h \<le> pt_hash (points ! k))"

lemma ring_place_unique: "ring_place points h i \<Longrightarrow> ring_place points h j \<Longrightarrow> i = j"
proof -
  have "j \<le> i" if "ring_place points h i" "ring_place points h j" for i j
  proof (rule ccontr)
    assume "\<not> j \<le> i"
    hence "i < length points" "pt_hash (points ! i) < h" "h \<le> pt_hash (points ! i)" using that by (auto simp: ring_place_def)
    thus False by simp
  qed
  thus "ring_place points h i \<Longrightarrow> ring_place points h j \<Longrightarrow> i = j" by (simp add: order_antisym)
qed

lemma ring_place_append:
  assumes "\<forall>x\<in>set a. pt_hash x < h" "\<forall>x\<in>set b. h \<le> pt_hash x"
  shows "ring_place (a @ b) h (length a)"
  using assms nth_mem[of _ a] nth_mem[of _ b] by (auto simp: ring_place_def nth_append)

lemma ring_sorted_less:
  "ring_sorted points \<Longrightarrow> i < j \<Longrightarrow> j < length points \<Longrightarrow> pt_hash (points ! i) < pt_hash (points ! j)"
  by (simp add: ring_sorted_def sorted_wrt_iff_nth_less)

lemma chash_search_place:
  assumes "ring_sorted points" "i \<le> j" "j \<le> length points" "\<forall>k<i. pt_hash (points ! k) < h"
    "\<forall>k<length points. j \<le> k \<longrightarrow> h \<le> pt_hash (points ! k)"
  shows "ring_place points h (chash_search points h i j)"
  using assms
proof (induction points h i j rule: chash_search.induct)
  case (1 points h i j)
  let ?k = "(i + j) div 2"
  note less = ring_sorted_less[OF "1.prems"(1)]
  show ?case
  proof (cases "i < j")
    case False
    thus ?thesis using "1.prems" by (subst chash_search.simps) (auto simp: ring_place_def)
  next
    case True
    hence k: "i \<le> ?k" "?k < j" "?k < length points" using "1.prems"(3) by auto
    consider "pt_hash (points ! ?k) < h" | "h < pt_hash (points ! ?k)" | "h = pt_hash (points ! ?k)" by (metis linorder_cases)
    thus ?thesis
    proof cases
      case 1
      hence "\<forall>n<?k + 1. pt_hash (points ! n) < h"
        using less k(3) by (metis add.commute less_Suc_eq less_trans plus_1_eq_Suc)
      thus ?thesis
        using "1.IH"(1)[OF True refl 1] "1.prems"(1,3,5) k 1 True by (subst chash_search.simps) (simp add: Let_def)
    next
      case 2
      hence "\<forall>n<length points. ?k \<le> n \<longrightarrow> h \<le> pt_hash (points ! n)"
        using less by (metis le_neq_implies_less less_imp_le order.strict_trans)
      moreover have n: "\<not> pt_hash (points ! ?k) < h" using 2 by simp
      ultimately have "ring_place points h (chash_search points h i ?k)"
        using "1.IH"(2)[OF True refl n 2] "1.prems"(1,4) k by simp
      moreover have "chash_search points h i j = chash_search points h i ?k"
        using True n 2 by (subst chash_search.simps) (simp add: Let_def)
      ultimately show ?thesis by simp
    next
      case 3
      hence "ring_place points h ?k"
        using less k(3) by (auto simp: ring_place_def) (metis le_neq_implies_less less_imp_le order_refl)
      thus ?thesis using 3 True by (subst chash_search.simps) (simp add: Let_def)
    qed
  qed
qed

lemma find_point_place: "ring_sorted points \<Longrightarrow> ring_place points h (ngx_stream_upstream_find_chash_point points h)"
  unfolding ngx_stream_upstream_find_chash_point_def by (rule chash_search_place) simp_all

lemma chash_uniq_sorted:
  assumes "sorted_wrt (\<lambda>a b. pt_hash a \<le> pt_hash b) (p # ps)"
  shows "ring_sorted (chash_uniq p ps) \<and> set (chash_uniq p ps) \<subseteq> set (p # ps) \<and>
     pt_hash ` set (chash_uniq p ps) = pt_hash ` set (p # ps) \<and> chash_uniq p ps \<noteq> []"
  using assms
proof (induction ps arbitrary: p)
  case (Cons q qs)
  show ?case
  proof (cases "pt_hash p = pt_hash q")
    case True
    thus ?thesis using Cons.IH[of p] Cons.prems by auto
  next
    case False
    have "\<forall>x\<in>set (chash_uniq q qs). pt_hash p < pt_hash x"
      using False Cons.IH[of q] Cons.prems by (force simp: less_le dest: order_antisym)
    thus ?thesis using False Cons.IH[of q] Cons.prems by (auto simp: ring_sorted_def)
  qed
qed (simp add: ring_sorted_def)

text \<open>What \<open>qsort\<close> promises.\<close>

definition qsort_ok :: "(chash_point list \<Rightarrow> chash_point list) \<Rightarrow> bool" where
  "qsort_ok qsort \<longleftrightarrow> (\<forall>ps. set (qsort ps) = set ps \<and> length (qsort ps) = length ps \<and>
     sorted_wrt (\<lambda>a b. ngx_stream_upstream_chash_cmp_points a b \<le> 0) (qsort ps))"

lemma cmp_points_le: "ngx_stream_upstream_chash_cmp_points a b \<le> 0 \<longleftrightarrow> pt_hash a \<le> pt_hash b"
  by (auto simp: ngx_stream_upstream_chash_cmp_points_def)

lemma init_chash_ring:
  assumes "qsort_ok qsort" "ngx_stream_upstream_init_chash qsort chain = Some points"
  shows "ring_sorted points" "points \<noteq> []" "set points \<subseteq> set (chash_all_points (peer (chain ! 0)))"
    "pt_hash ` set points = pt_hash ` set (chash_all_points (peer (chain ! 0)))"
proof -
  obtain p ps where q: "qsort (chash_all_points (peer (chain ! 0))) = p # ps" "points = chash_uniq p ps"
    using assms(2) by (auto simp: ngx_stream_upstream_init_chash_def split: list.splits)
  have "set (p # ps) = set (chash_all_points (peer (chain ! 0)))" "sorted_wrt (\<lambda>a b. pt_hash a \<le> pt_hash b) (p # ps)"
    using assms(1) unfolding qsort_ok_def cmp_points_le q(1)[symmetric] by simp_all
  thus "ring_sorted points" "points \<noteq> []" "set points \<subseteq> set (chash_all_points (peer (chain ! 0)))"
    "pt_hash ` set points = pt_hash ` set (chash_all_points (peer (chain ! 0)))"
    using chash_uniq_sorted[of p ps] q(2) by auto
qed

definition ring_server :: "chash_point list \<Rightarrow> 32 word \<Rightarrow> u_char list" where
  "ring_server points h = pt_server (points ! (ngx_stream_upstream_find_chash_point points h mod length points))"

lemma ring_server_remove:
  assumes "ring_sorted points" "points \<noteq> []" "ring_server points h \<noteq> dead"
  shows "ring_server (filter (\<lambda>p. pt_server p \<noteq> dead) points) h = ring_server points h"
proof -
  let ?P = "\<lambda>p. pt_server p \<noteq> dead" and ?i = "ngx_stream_upstream_find_chash_point points h"
  have s: "ring_sorted (filter ?P points)" using assms(1) by (simp add: ring_sorted_def sorted_wrt_filter)
  have place: "ring_place points h ?i" by (rule find_point_place[OF assms(1)])
  show ?thesis
  proof (cases "?i < length points")
    case True
    define a b where "a = take ?i points" and "b = drop (Suc ?i) points"
    have pts: "points = a @ points ! ?i # b" using True by (simp add: a_def b_def id_take_nth_drop)
    have la: "length a = ?i" using True by (simp add: a_def)
    have srv: "ring_server points h = pt_server (points ! ?i)" using True by (simp add: ring_server_def)
    have f: "filter ?P points = filter ?P a @ points ! ?i # filter ?P b" using assms(3) srv by (subst pts) simp
    have "\<forall>x\<in>set a. pt_hash x < h" "\<forall>x\<in>set (points ! ?i # b). h \<le> pt_hash x"
      using place True by (auto simp: ring_place_def a_def b_def in_set_conv_nth)
    hence "ring_place (filter ?P points) h (length (filter ?P a))"
      unfolding f by (intro ring_place_append) auto
    hence "ngx_stream_upstream_find_chash_point (filter ?P points) h = length (filter ?P a)"
      using ring_place_unique find_point_place[OF s] by blast
    hence "ring_server (filter ?P points) h = pt_server (points ! ?i)" unfolding ring_server_def f by (simp add: nth_append)
    thus ?thesis unfolding srv .
  next
    case False
    hence all: "?i = length points" "\<forall>x\<in>set points. pt_hash x < h" using place by (auto simp: ring_place_def in_set_conv_nth)
    have srv: "ring_server points h = pt_server (hd points)" using all(1) assms(2) by (simp add: ring_server_def hd_conv_nth)
    hence f: "filter ?P points = hd points # filter ?P (tl points)" using assms(2,3) by (cases points) auto
    have "ring_place (filter ?P points) h (length (filter ?P points))"
      using all(2) unfolding ring_place_def by (auto dest: nth_mem)
    hence "ngx_stream_upstream_find_chash_point (filter ?P points) h = length (filter ?P points)"
      using ring_place_unique find_point_place[OF s] by blast
    thus ?thesis unfolding srv by (simp add: ring_server_def f)
  qed
qed

section \<open>The loop over the peers of a server\<close>

text \<open>It is the round robin loop with the peers of other servers marked as tried.\<close>

lemma tried_extend:
  assumes "tried_words n \<le> length tried"
  shows "\<exists>t. length t = length tried \<and> (\<forall>i. tried_test t i = (tried_test tried i \<or> i < n \<and> Q i))"
  using assms
proof (induction n)
  case (Suc n)
  have "tried_words n \<le> length tried" using Suc.prems by (simp add: tried_words_def)
  then obtain t where t: "length t = length tried" "\<And>i. tried_test t i = (tried_test tried i \<or> i < n \<and> Q i)" using Suc.IH by blast
  have "n div 64 < length t" using Suc.prems t(1) by (simp add: tried_words_def)
  thus ?case
    using t tried_test_set[of n t] by (cases "Q n") (auto simp: less_Suc_eq intro: exI[of _ "tried_set t n"] exI[of _ t])
qed auto

definition server_tried :: "u_char list \<Rightarrow> rr_peer list \<Rightarrow> 64 word list \<Rightarrow> 64 word list \<Rightarrow> bool" where
  "server_tried s ps tried t \<longleftrightarrow> length t = length tried \<and>
     (\<forall>i<length ps. tried_test t i = (tried_test tried i \<or> \<not> same_str (server (ps ! i)) s))"

lemma server_tried_ex: "tried_words (length ps) \<le> length tried \<Longrightarrow> \<exists>t. server_tried s ps tried t"
  using tried_extend[of "length ps" tried "\<lambda>i. \<not> same_str (server (ps ! i)) s"] unfolding server_tried_def by auto

lemma chash_fold:
  assumes "server_tried s ps tried t" "m \<le> length ps"
  shows "fold (chash_visit now s tried) [0..<m] (ps, 0, None) = fold (rr_visit now t) [0..<m] (ps, 0, None)"
  using assms(2)
proof (induction m)
  case (Suc m)
  obtain best where f: "fold (rr_visit now t) [0..<m] (ps, 0, None) = (gained now t ps m, gain_total now t ps m, best)"
    using rr_fold[of m ps now t] Suc.prems by auto
  have "gained now t ps m ! m = ps ! m" using Suc.prems by (simp add: gained_nth)
  hence "chash_visit now s tried m (gained now t ps m, gain_total now t ps m, best) =
      rr_visit now t m (gained now t ps m, gain_total now t ps m, best)"
    using assms(1) Suc.prems by (simp add: server_tried_def rr_skip_def disj_ac)
  thus ?case using Suc f by simp
qed simp

lemma chash_cases:
  assumes "server_tried s ps tried t"
  obtains (none) "fold (chash_visit now s tried) [0..<length ps] (ps, 0, None) = (ps, 0, None)"
      "\<forall>i<length ps. rr_skip now t i (ps ! i)" "ngx_stream_upstream_get_peer now ps t = (ps, t, None)"
  | (some) qs tot b where "fold (chash_visit now s tried) [0..<length ps] (ps, 0, None) = (qs, tot, Some b)" "b < length qs"
      "ngx_stream_upstream_get_peer now ps t = (qs[b := peer_chosen now tot (qs ! b)], tried_set t b, Some b)"
proof -
  obtain best where f: "fold (rr_visit now t) [0..<length ps] (ps, 0, None) =
      (gained now t ps (length ps), gain_total now t ps (length ps), best)" "first_max now t ps (length ps) best"
    using rr_fold[of "length ps" ps now t] by auto
  note c = chash_fold[OF assms order_refl, of now]
  show thesis
  proof (cases best)
    case None
    hence n: "\<forall>i<length ps. rr_skip now t i (ps ! i)" using f(2) by (simp add: first_max_def)
    hence "gained now t ps (length ps) = ps" "gain_total now t ps (length ps) = 0"
      by (auto intro!: nth_equalityI simp: gained_nth gain_total_def)
    thus thesis using none n f(1) c None by (simp add: ngx_stream_upstream_get_peer_def)
  next
    case (Some b)
    hence "b < length (gained now t ps (length ps))" using f(2) by (simp add: first_max_def)
    thus thesis using some f(1) c Some by (simp add: ngx_stream_upstream_get_peer_def)
  qed
qed

section \<open>The contract of the balancers\<close>

lemma peer_chosen_checked: "peer_chosen now tot p = peer_checked now (p\<lparr>current_weight := current_weight p - tot\<rparr>)"
  by (simp add: peer_chosen_def peer_checked_def Let_def)

lemma peer_checked_conns: "peer_checked now (p\<lparr>conns := c\<rparr>) = (peer_checked now p)\<lparr>conns := c\<rparr>"
  by (simp add: peer_checked_def)

lemma peer_checked_keeps [simp]:
  "conns (peer_checked now p) = conns p" "static (peer_checked now p) = static p" "current_weight (peer_checked now p) = current_weight p"
  "ew_ok (peer_checked now p) = ew_ok p"
  by (simp_all add: peer_checked_def static_def ew_ok_def)

text \<open>Taking a peer: its check time is renewed, then it has one connection more.\<close>

lemma hash_take_eq:
  assumes "k = rrp_peers (hp_rrp hp)" "k < length chain" "i < length (peer (chain ! k))"
  shows "\<exists>pc' rrp'. hash_take now i chain hp pc =
      (NGX_OK, set_peer (set_peer chain k i (peer_checked now)) k i (\<lambda>p. p\<lparr>conns := conns p + 1\<rparr>), hp\<lparr>hp_rrp := rrp'\<rparr>, pc') \<and>
      rrp_peers rrp' = k \<and> rrp_current rrp' = Some (k, i) \<and> rrp_tried rrp' = tried_set (rrp_tried (hp_rrp hp)) i"
proof -
  have "set_peer chain k i (\<lambda>p. peer_checked now (p\<lparr>conns := conns p + 1\<rparr>)) =
      set_peer (set_peer chain k i (peer_checked now)) k i (\<lambda>p. p\<lparr>conns := conns p + 1\<rparr>)"
    using assms(2,3) by (simp add: set_peer_def peer_checked_conns)
  thus ?thesis
    unfolding hash_take_def assms(1)[symmetric] Let_def
    by (intro exI[of _ "(hp_rrp hp)\<lparr>rrp_current := Some (k, i), rrp_tried := tried_set (rrp_tried (hp_rrp hp)) i\<rparr>"] exI conjI)
      (simp_all add: assms(1))
qed

lemma hash_take_result:
  assumes "get_pre chain0 (hp_rrp hp)" "k = rrp_peers (hp_rrp hp)" "i < length (peer (chain ! k))"
    and "select_result chain0 rrp0 (set_peer chain k i (peer_checked now)) rrp1 (Some i)" "rrp_peers rrp0 = k" "length chain = length chain0"
    and "hash_take now i chain hp pc = (rc, chain', hp', pc')"
  shows "get_result chain0 (hp_rrp hp) rc chain' (hp_rrp hp')"
proof -
  have k: "k < length chain0" using assms(1,2) by (simp add: get_pre_def)
  obtain rrp' where h: "rc = NGX_OK" "chain' = set_peer (set_peer chain k i (peer_checked now)) k i (\<lambda>p. p\<lparr>conns := conns p + 1\<rparr>)"
      "hp' = hp\<lparr>hp_rrp := rrp'\<rparr>" "rrp_peers rrp' = k" "rrp_current rrp' = Some (k, i)" "rrp_tried rrp' = tried_set (rrp_tried (hp_rrp hp)) i"
    using hash_take_eq[OF assms(2) _ assms(3), of now pc] assms(6,7) k by auto
  have "select_result chain0 (hp_rrp hp) (set_peer chain k i (peer_checked now)) rrp' (Some i)"
    using assms(2,4,5) h(4-6) by (auto simp: select_result_def)
  hence "get_result chain0 (hp_rrp hp) NGX_OK (set_peer (set_peer chain k i (peer_checked now)) (rrp_peers rrp') i (\<lambda>p. p\<lparr>conns := conns p + 1\<rparr>)) rrp'"
    by (rule get_result_found[OF _ assms(1)])
  thus ?thesis using h(1-4) by simp
qed

lemma get_chash_result:
  assumes "get_pre chain (hp_rrp hp)" "ngx_stream_upstream_get_chash_peer points now chain hp pc = (rc, chain', hp', pc')"
  shows "get_result chain (hp_rrp hp) rc chain' (hp_rrp hp')"
  using assms
proof (induction points now chain hp pc rule: ngx_stream_upstream_get_chash_peer.induct)
  case (1 points now chain hp pc)
  let ?k = "rrp_peers (hp_rrp hp)"
  let ?ps = "peer (chain ! ?k)" and ?s = "pt_server (points ! (unat (hp_hash hp) mod length points))"
  have k: "?k < length chain" and w: "tried_words (length ?ps) \<le> length (rrp_tried (hp_rrp hp))"
    using "1.prems"(1) by (auto simp: get_pre_def list_all_length)
  obtain t where t: "server_tried ?s ?ps (rrp_tried (hp_rrp hp)) t" using server_tried_ex[OF w] by blast
  note step = ngx_stream_upstream_get_chash_peer.simps[of points now chain hp pc, unfolded Let_def]
  from t show ?case
  proof (cases rule: chash_cases[where now = now])
    case none
    have id: "chain[?k := (chain ! ?k)\<lparr>peer := ?ps\<rparr>] = chain" using k by (simp add: list_update_same_conv)
    let ?hp1 = "hp\<lparr>hp_hash := hp_hash hp + 1, hp_tries := hp_tries hp + 1\<rparr>"
    show ?thesis
    proof (cases "length points \<le> hp_tries ?hp1")
      case True
      have "rc = NGX_BUSY" "chain' = chain" "hp_rrp hp' = hp_rrp hp" using "1.prems"(2) step none(1) id True by auto
      moreover have "select_result chain (hp_rrp hp) chain (hp_rrp hp) None" by (simp add: select_result_def)
      ultimately show ?thesis using get_result_busy "1.prems"(1) by simp
    next
      case False
      have "ngx_stream_upstream_get_chash_peer points now chain ?hp1 pc = (rc, chain', hp', pc')"
        using "1.prems"(2) step none(1) id False by simp
      thus ?thesis
        using "1.IH"[OF refl refl refl none(1)[symmetric] refl refl refl refl False] "1.prems"(1) id by simp
    qed
  next
    case (some qs tot b)
    let ?q = "(qs ! b)\<lparr>current_weight := current_weight (qs ! b) - tot\<rparr>"
    let ?c = "chain[?k := (chain ! ?k)\<lparr>peer := qs[b := ?q]\<rparr>]"
    have take: "hash_take now b ?c hp pc = (rc, chain', hp', pc')" using "1.prems"(2) step some(1) by simp
    have "set_peer ?c ?k b (peer_checked now) = chain[?k := (chain ! ?k)\<lparr>peer := qs[b := peer_chosen now tot (qs ! b)]\<rparr>]"
      using k some(2) by (simp add: set_peer_def peer_chosen_checked)
    moreover have "select_result chain (hp_rrp hp\<lparr>rrp_tried := t\<rparr>) (chain[?k := (chain ! ?k)\<lparr>peer := qs[b := peer_chosen now tot (qs ! b)]\<rparr>])
        (hp_rrp hp\<lparr>rrp_tried := tried_set t b, rrp_current := Some (?k, b)\<rparr>) (Some b)"
      by (rule rr.select_group[OF some(3) k]) simp_all
    ultimately have sel: "select_result chain (hp_rrp hp\<lparr>rrp_tried := t\<rparr>) (set_peer ?c ?k b (peer_checked now))
        (hp_rrp hp\<lparr>rrp_tried := tried_set t b, rrp_current := Some (?k, b)\<rparr>) (Some b)" by (simp only:)
    show ?thesis by (rule hash_take_result[OF "1.prems"(1) refl _ sel _ _ take]) (use k some(2) in simp_all)
  qed
qed

lemma chain_evolves_checked:
  assumes "k < length chain"
  shows "chain_evolves chain (set_peer chain k i (peer_checked now))"
proof -
  let ?ps = "peer (chain ! k)"
  have "map static (?ps[i := peer_checked now (?ps ! i)]) = map static ?ps"
    by (cases "i < length ?ps") (auto intro!: nth_equalityI simp: nth_list_update)
  moreover have "cw_sum (?ps[i := peer_checked now (?ps ! i)]) = cw_sum ?ps"
    by (cases "i < length ?ps") (simp_all add: cw_sum_update list_update_beyond not_less)
  moreover have "list_all ew_ok ?ps \<Longrightarrow> list_all ew_ok (?ps[i := peer_checked now (?ps ! i)])"
    by (cases "i < length ?ps") (auto simp: list_all_length nth_list_update)
  ultimately have "group_evolves (chain ! k) ((chain ! k)\<lparr>peer := ?ps[i := peer_checked now (?ps ! i)]\<rparr>)"
    by (simp add: group_evolves_def)
  thus ?thesis using chain_evolves_update[OF assms] by (simp add: set_peer_def)
qed

lemma hash_walk_index: "hash_walk w ps p = Some i \<Longrightarrow> p \<le> i \<and> i < p + length ps"
  by (induction ps arbitrary: w p) (fastforce split: if_splits)+

lemma hash_take_free:
  assumes "get_pre chain (hp_rrp hp)" "k = rrp_peers (hp_rrp hp)" "i < length (peer (chain ! k))"
    and "\<not> rr_skip now tried i (peer (chain ! k) ! i)" "hash_take now i chain hp pc = (rc, chain', hp', pc')"
  shows "get_result chain (hp_rrp hp) rc chain' (hp_rrp hp')"
proof (rule hash_take_result[OF assms(1-3) _ _ refl assms(5)])
  have k: "k < length chain" using assms(1,2) by (simp add: get_pre_def)
  show "select_result chain (hp_rrp hp) (set_peer chain k i (peer_checked now)) (hp_rrp hp\<lparr>rrp_current := Some (k, i)\<rparr>) (Some i)"
    using assms(2-4) k chain_evolves_checked[OF k, of i now]
    by (auto simp: select_result_def set_peer_nth rr_skip_def peer_full_def peer_checked_def)
qed (use assms(2) in simp)

lemma hash_fallback_result:
  assumes "get_pre chain (hp_rrp hp)" "hash_fallback now chain hp pc = (rc, chain', hp', pc')"
  shows "get_result chain (hp_rrp hp) rc chain' (hp_rrp hp')"
proof -
  obtain rc1 c1 rrp1 pc1 where g: "ngx_stream_upstream_get_round_robin_peer now chain (hp_rrp hp) pc = (rc1, c1, rrp1, pc1)"
    by (metis prod_cases4)
  hence "rc = rc1" "chain' = c1" "hp_rrp hp' = rrp1" using assms(2) by (auto simp: hash_fallback_def)
  thus ?thesis using get_round_robin_result[OF assms(1) g] by simp
qed

lemma hash_loop_result:
  assumes "get_pre chain (hp_rrp hp)" "hash_loop now chain hp pc = Some (rc, chain', hp', pc')"
  shows "get_result chain (hp_rrp hp) rc chain' (hp_rrp hp')"
  using assms
proof (induction now chain hp pc rule: hash_loop.induct)
  case (1 now chain hp pc)
  let ?g = "chain ! rrp_peers (hp_rrp hp)"
  let ?hp1 = "hp\<lparr>hp_hash := hp_hash hp + hash_value (hp_rehash hp) (hp_key hp), hp_rehash := hp_rehash hp + 1\<rparr>"
  let ?hp2 = "?hp1\<lparr>hp_tries := hp_tries ?hp1 + 1\<rparr>"
  note step = hash_loop.simps[of now chain hp pc, unfolded Let_def]
  obtain p where p: "hash_walk (uint ((ucast (hp_hash ?hp1) :: 64 word) mod total_weight ?g)) (peer ?g) 0 = Some p"
    using "1.prems"(2) step by (auto split: option.splits)
  have l: "p < length (peer ?g)" using hash_walk_index[OF p] by simp
  show ?case
  proof (cases "rr_skip now (rrp_tried (hp_rrp hp)) p (peer ?g ! p)")
    case False
    hence "hash_take now p chain ?hp1 pc = (rc, chain', hp', pc')" using "1.prems"(2) step p by simp
    thus ?thesis using hash_take_free[of chain ?hp1 _ p now] "1.prems"(1) l False by simp
  next
    case True
    show ?thesis
    proof (cases "20 < hp_tries ?hp2")
      case t: True
      hence "hash_fallback now chain ?hp2 pc = (rc, chain', hp', pc')" using "1.prems"(2) step p True by simp
      thus ?thesis using hash_fallback_result[of chain ?hp2] "1.prems"(1) by simp
    next
      case False
      hence "hash_loop now chain ?hp2 pc = Some (rc, chain', hp', pc')" using "1.prems"(2) step p True by simp
      thus ?thesis using "1.IH"[OF refl refl refl p True refl False] "1.prems"(1) by simp
    qed
  qed
qed

lemma get_hash_result:
  assumes "get_pre chain (hp_rrp hp)" "ngx_stream_upstream_get_hash_peer now chain hp pc = Some (rc, chain', hp', pc')"
  shows "get_result chain (hp_rrp hp) rc chain' (hp_rrp hp')"
  using assms hash_loop_result[OF assms(1)] hash_fallback_result[OF assms(1)]
  by (auto simp: ngx_stream_upstream_get_hash_peer_def split: if_splits)

text \<open>The callbacks as functions of the round robin data of a session, the rest of its data given.\<close>

definition hash_view :: "hash_peer_data \<Rightarrow> get_peer_fun" where
  "hash_view hp now chain rrp pc =
     (case ngx_stream_upstream_get_hash_peer now chain (hp\<lparr>hp_rrp := rrp\<rparr>) pc of
        None \<Rightarrow> (NGX_BUSY, chain, rrp, pc)
      | Some (rc, chain', hp', pc') \<Rightarrow> (rc, chain', hp_rrp hp', pc'))"

definition chash_view :: "chash_point list \<Rightarrow> hash_peer_data \<Rightarrow> get_peer_fun" where
  "chash_view points hp now chain rrp pc =
     (case ngx_stream_upstream_get_chash_peer points now chain (hp\<lparr>hp_rrp := rrp\<rparr>) pc of
        (rc, chain', hp', pc') \<Rightarrow> (rc, chain', hp_rrp hp', pc'))"

interpretation hash_bal: balancer "hash_view hp" for hp
proof
  fix chain rrp now pc rc chain' rrp' pc'
  assume a: "get_pre chain rrp" "hash_view hp now chain rrp pc = (rc, chain', rrp', pc')"
  have "select_result chain rrp chain rrp None" by (simp add: select_result_def)
  thus "get_result chain rrp rc chain' rrp'"
    using a get_hash_result[of chain "hp\<lparr>hp_rrp := rrp\<rparr>" now pc rc chain' _ pc'] get_result_busy[of chain rrp chain rrp None]
    by (auto simp: hash_view_def split: option.splits)
qed

interpretation chash_bal: balancer "chash_view points hp" for points hp
proof
  fix chain rrp now pc rc chain' rrp' pc'
  assume a: "get_pre chain rrp" "chash_view points hp now chain rrp pc = (rc, chain', rrp', pc')"
  obtain hp' where g: "ngx_stream_upstream_get_chash_peer points now chain (hp\<lparr>hp_rrp := rrp\<rparr>) pc = (rc, chain', hp', pc')" "rrp' = hp_rrp hp'"
    using a(2) by (auto simp: chash_view_def split: prod.splits)
  thus "get_result chain rrp rc chain' rrp'" using get_chash_result[OF _ g(1)] a(1) by simp
qed

section \<open>Properties\<close>

definition weights_ok :: "rr_peers \<Rightarrow> bool" where
  "weights_ok g \<longleftrightarrow> list_all (\<lambda>p. 0 \<le> weight p) (peer g) \<and> 0 < weight_sum (peer g) \<and> uint (total_weight g) = weight_sum (peer g)"

lemma hash_walk_total:
  "list_all (\<lambda>p. 0 \<le> weight p) ps \<Longrightarrow> 0 \<le> w \<Longrightarrow> w < weight_sum ps \<Longrightarrow> hash_walk w ps p \<noteq> None"
  by (induction ps arbitrary: w p) (auto simp: weight_sum_def)

lemma hash_loop_total:
  assumes "weights_ok (chain ! rrp_peers (hp_rrp hp))"
  shows "hash_loop now chain hp pc \<noteq> None"
  using assms
proof (induction now chain hp pc rule: hash_loop.induct)
  case (1 now chain hp pc)
  let ?g = "chain ! rrp_peers (hp_rrp hp)"
  let ?hp1 = "hp\<lparr>hp_hash := hp_hash hp + hash_value (hp_rehash hp) (hp_key hp), hp_rehash := hp_rehash hp + 1\<rparr>"
  let ?hp2 = "?hp1\<lparr>hp_tries := hp_tries ?hp1 + 1\<rparr>"
  let ?w = "uint ((ucast (hp_hash ?hp1) :: 64 word) mod total_weight ?g)"
  have "?w < weight_sum (peer ?g)"
    using "1.prems" pos_mod_bound[of "uint (total_weight ?g)"] by (simp add: weights_ok_def uint_mod)
  then obtain p where p: "hash_walk ?w (peer ?g) 0 = Some p"
    using hash_walk_total[of "peer ?g" ?w 0] "1.prems" by (auto simp: weights_ok_def)
  have "rr_skip now (rrp_tried (hp_rrp hp)) p (peer ?g ! p) \<Longrightarrow> \<not> 20 < hp_tries ?hp2 \<Longrightarrow> hash_loop now chain ?hp2 pc \<noteq> None"
    using "1.IH"[OF refl refl refl p _ refl] "1.prems" by simp
  thus ?case using p by (subst hash_loop.simps) (simp add: Let_def del: not_None_eq)
qed

text \<open>
  The simple hash, in a group whose total weight is the sum of the weights of its peers, never walks off the
  list of peers: the call returns, within 21 attempts, a peer or the answer of the round robin balancer.
\<close>

theorem hash_peer_safe:
  assumes "weights_ok (chain ! rrp_peers (hp_rrp hp))" "get_pre chain (hp_rrp hp)"
  shows "\<exists>rc chain' hp' pc'. ngx_stream_upstream_get_hash_peer now chain hp pc = Some (rc, chain', hp', pc') \<and>
     (rc = NGX_OK \<or> rc = NGX_BUSY)"
proof -
  have "ngx_stream_upstream_get_hash_peer now chain hp pc \<noteq> None"
    using hash_loop_total[OF assms(1)] by (simp add: ngx_stream_upstream_get_hash_peer_def del: not_None_eq)
  then obtain rc chain' hp' pc' where g: "ngx_stream_upstream_get_hash_peer now chain hp pc = Some (rc, chain', hp', pc')" by auto
  thus ?thesis using get_hash_result[OF assms(2) g] by (auto simp: get_result_def)
qed

definition hash_sample :: hash_peer_data where
  "hash_sample = fst (ngx_stream_upstream_init_hash_peer (bytes ''key'') rr_sample_chain rr_pc)"

lemma hash_sample_pre: "get_pre rr_sample_chain (hp_rrp hash_sample)" "rrp_peers (hp_rrp hash_sample) = 0"
  by (simp_all add: hash_sample_def ngx_stream_upstream_init_hash_peer_def ngx_stream_upstream_init_round_robin_peer_def rr_sample_chain_def
      rr_sample_servers_def rr_group_def rr_fill_def get_pre_def tried_words_def Let_def)

theorem hash_peer_safe_witness:
  "\<exists>rc chain' hp' pc'. ngx_stream_upstream_get_hash_peer 5 rr_sample_chain hash_sample rr_pc = Some (rc, chain', hp', pc')"
proof -
  have "weights_ok (rr_sample_chain ! rrp_peers (hp_rrp hash_sample))"
    unfolding hash_sample_pre(2)
    by (simp add: weights_ok_def rr_sample_chain_def rr_sample_servers_def rr_group_def rr_fill_def rr_server_peer_def weight_sum_def)
  from hash_peer_safe[OF this hash_sample_pre(1)] show ?thesis by blast
qed

text \<open>
  The ring of the consistent hash has the hashes of all points of the primary servers, each once, in
  order; the binary search returns the place of the first point that is not smaller, or the number of points.
\<close>

theorem chash_ring:
  assumes "qsort_ok qsort" "ngx_stream_upstream_init_chash qsort chain = Some points"
  shows "sorted_wrt (\<lambda>a b. pt_hash a < pt_hash b) points \<and>
     pt_hash ` set points = pt_hash ` set (chash_all_points (peer (chain ! 0))) \<and>
     set points \<subseteq> set (chash_all_points (peer (chain ! 0))) \<and>
     ngx_stream_upstream_find_chash_point points h = length (filter (\<lambda>p. pt_hash p < h) points)"
proof -
  note r = init_chash_ring[OF assms]
  let ?i = "ngx_stream_upstream_find_chash_point points h"
  have p: "ring_place points h ?i" by (rule find_point_place[OF r(1)])
  have "points = take ?i points @ drop ?i points" by simp
  moreover have "filter (\<lambda>p. pt_hash p < h) (take ?i points) = take ?i points" "filter (\<lambda>p. pt_hash p < h) (drop ?i points) = []"
    using p by (auto simp: ring_place_def filter_id_conv filter_empty_conv in_set_conv_nth not_less)
  ultimately have "length (filter (\<lambda>p. pt_hash p < h) points) = ?i"
    using p by (metis append_Nil2 filter_append length_take min.absorb2 ring_place_def)
  thus ?thesis using r by (simp add: ring_sorted_def)
qed

lemma qsort_ok_sort: "qsort_ok (sort_key pt_hash)"
proof -
  have "sorted_wrt (\<lambda>a b. pt_hash a \<le> pt_hash b) (sort_key pt_hash ps)" for ps :: "chash_point list"
    using sorted_sort_key[of pt_hash ps] by (simp add: sorted_map)
  thus ?thesis by (simp add: qsort_ok_def cmp_points_le)
qed

lemma chash_sample_points:
  obtains points where "ngx_stream_upstream_init_chash (sort_key pt_hash) rr_sample_chain = Some points"
proof -
  have "weight (peer (rr_sample_chain ! 0) ! 0) = 2" "length (peer (rr_sample_chain ! 0)) = 1"
    by (simp_all add: rr_sample_chain_def rr_sample_servers_def rr_group_def rr_fill_def rr_server_peer_def)
  then obtain p where p: "peer (rr_sample_chain ! 0) = [p]" "nat (weight p * 160) = Suc 319" by (auto simp: length_Suc_conv)
  hence "chash_all_points (peer (rr_sample_chain ! 0)) \<noteq> []"
    unfolding chash_all_points_def p(1) using p(2) by (simp only: list.map concat.simps chash_server_points.simps Let_def) simp
  hence "sort_key pt_hash (chash_all_points (peer (rr_sample_chain ! 0))) \<noteq> []" by (metis length_0_conv length_sort)
  then obtain q qs where "sort_key pt_hash (chash_all_points (peer (rr_sample_chain ! 0))) = q # qs"
    by (cases "sort_key pt_hash (chash_all_points (peer (rr_sample_chain ! 0)))") auto
  thus thesis using that by (simp add: ngx_stream_upstream_init_chash_def)
qed

theorem chash_ring_witness:
  "\<exists>points. ngx_stream_upstream_init_chash (sort_key pt_hash) rr_sample_chain = Some points \<and>
     ngx_stream_upstream_find_chash_point points 7 = length (filter (\<lambda>p. pt_hash p < 7) points)"
proof -
  obtain points where p: "ngx_stream_upstream_init_chash (sort_key pt_hash) rr_sample_chain = Some points" by (rule chash_sample_points)
  from chash_ring[OF qsort_ok_sort p, of 7] p show ?thesis by blast
qed



text \<open>The peers of a server that cannot take a session now.\<close>

definition server_busy :: "int \<Rightarrow> 64 word list \<Rightarrow> rr_peer list \<Rightarrow> u_char list \<Rightarrow> bool" where
  "server_busy now tried ps s \<longleftrightarrow> (\<forall>i<length ps. same_str (server (ps ! i)) s \<longrightarrow> rr_skip now tried i (ps ! i))"

definition ring_at :: "chash_point list \<Rightarrow> 32 word \<Rightarrow> u_char list" where
  "ring_at points h = pt_server (points ! (unat h mod length points))"

lemma rr_skip_server_tried:
  assumes "server_tried s ps tried t" "i < length ps"
  shows "rr_skip now t i (ps ! i) \<longleftrightarrow> rr_skip now tried i (ps ! i) \<or> \<not> same_str (server (ps ! i)) s"
  using assms by (auto simp: rr_skip_def server_tried_def)

text \<open>
  C14 (functional). A consistent hash session walks the ring from the point of its key: it passes the servers none of whose
  peers can take it, and ends at the first other one, with a peer of it that can, or, after as many points as the ring
  has, busy.
\<close>

theorem chash_peer_choice:
  assumes "get_pre chain (hp_rrp hp)" "ngx_stream_upstream_get_chash_peer points now chain hp pc = (rc, chain', hp', pc')"
    and "k = rrp_peers (hp_rrp hp)" "ps = peer (chain ! k)" "tried = rrp_tried (hp_rrp hp)"
  shows "\<exists>n. hp_hash hp' = hp_hash hp + word_of_nat n \<and> hp_tries hp' = hp_tries hp + n \<and>
     list_all (\<lambda>j. server_busy now tried ps (ring_at points (hp_hash hp + word_of_nat j))) [0..<n] \<and>
     (rc = NGX_OK \<and> (\<exists>i. rrp_current (hp_rrp hp') = Some (k, i) \<and> i < length ps \<and> \<not> rr_skip now tried i (ps ! i) \<and>
         same_str (server (ps ! i)) (ring_at points (hp_hash hp'))) \<or>
      rc = NGX_BUSY \<and> chain' = chain \<and> length points \<le> hp_tries hp')"
  using assms
proof (induction points now chain hp pc rule: ngx_stream_upstream_get_chash_peer.induct)
  case (1 points now chain hp pc)
  let ?s = "ring_at points (hp_hash hp)"
  have kl: "k < length chain" and w: "tried_words (length ps) \<le> length tried"
    using "1.prems" by (auto simp: get_pre_def list_all_length)
  obtain t where t: "server_tried ?s ps tried t" using server_tried_ex[OF w] by blast
  note step = ngx_stream_upstream_get_chash_peer.simps[of points now chain hp pc, unfolded Let_def, folded ring_at_def "1.prems"(3,5), folded "1.prems"(4)]
  from t show ?case
  proof (cases rule: chash_cases[where now = now])
    case none
    have id: "chain[k := (chain ! k)\<lparr>peer := ps\<rparr>] = chain" using kl "1.prems"(4) by (simp add: list_update_same_conv)
    have busy: "server_busy now tried ps ?s" using none(2) rr_skip_server_tried[OF t] by (auto simp: server_busy_def)
    let ?hp1 = "hp\<lparr>hp_hash := hp_hash hp + 1, hp_tries := hp_tries hp + 1\<rparr>"
    show ?thesis
    proof (cases "length points \<le> hp_tries ?hp1")
      case True
      have "rc = NGX_BUSY" "chain' = chain" "hp' = ?hp1" using "1.prems"(2) step none(1) id True by auto
      thus ?thesis using True busy by (intro exI[of _ 1]) simp
    next
      case False
      have "ngx_stream_upstream_get_chash_peer points now chain ?hp1 pc = (rc, chain', hp', pc')"
        using "1.prems"(2) step none(1) id False by simp
      hence "\<exists>n. hp_hash hp' = hp_hash ?hp1 + word_of_nat n \<and> hp_tries hp' = hp_tries ?hp1 + n \<and>
         list_all (\<lambda>j. server_busy now tried ps (ring_at points (hp_hash ?hp1 + word_of_nat j))) [0..<n] \<and>
         (rc = NGX_OK \<and> (\<exists>i. rrp_current (hp_rrp hp') = Some (k, i) \<and> i < length ps \<and> \<not> rr_skip now tried i (ps ! i) \<and>
           same_str (server (ps ! i)) (ring_at points (hp_hash hp'))) \<or>
          rc = NGX_BUSY \<and> chain' = chain \<and> length points \<le> hp_tries hp')"
        using "1.IH"[OF refl refl refl none(1)[unfolded "1.prems"(3-5) ring_at_def, symmetric] refl refl refl refl False]
          "1.prems" id by simp
      then obtain n where n: "hp_hash hp' = hp_hash ?hp1 + word_of_nat n" "hp_tries hp' = hp_tries ?hp1 + n"
         "list_all (\<lambda>j. server_busy now tried ps (ring_at points (hp_hash ?hp1 + word_of_nat j))) [0..<n]"
         "rc = NGX_OK \<and> (\<exists>i. rrp_current (hp_rrp hp') = Some (k, i) \<and> i < length ps \<and> \<not> rr_skip now tried i (ps ! i) \<and>
           same_str (server (ps ! i)) (ring_at points (hp_hash hp'))) \<or>
          rc = NGX_BUSY \<and> chain' = chain \<and> length points \<le> hp_tries hp'" by blast
      have "list_all (\<lambda>j. server_busy now tried ps (ring_at points (hp_hash hp + word_of_nat j))) [0..<Suc n]"
        using n(3) busy by (auto simp: list_all_length less_Suc_eq_0_disj add.assoc simp del: upt_Suc)
      thus ?thesis using n(1,2,4) by (intro exI[of _ "Suc n"]) (simp add: add.assoc)
    qed
  next
    case (some qs tot b)
    have b: "b < length ps" "\<not> rr_skip now t b (ps ! b)" using rr.pick_Some[OF some(3)] by auto
    have "rc = NGX_OK" "rrp_current (hp_rrp hp') = Some (k, b)" "hp_hash hp' = hp_hash hp" "hp_tries hp' = hp_tries hp"
      using "1.prems"(2) step some(1) by (auto simp: hash_take_def Let_def "1.prems"(3))
    thus ?thesis using b rr_skip_server_tried[OF t] by (intro exI[of _ 0]) auto
  qed
qed


theorem chash_peer_choice_witness:
  "\<exists>points rc chain' hp' pc' n. ngx_stream_upstream_init_chash (sort_key pt_hash) rr_sample_chain = Some points \<and>
     ngx_stream_upstream_get_chash_peer points 5 rr_sample_chain hash_sample rr_pc = (rc, chain', hp', pc') \<and>
     hp_hash hp' = hp_hash hash_sample + word_of_nat n \<and> hp_tries hp' = hp_tries hash_sample + n"
proof -
  obtain points where p: "ngx_stream_upstream_init_chash (sort_key pt_hash) rr_sample_chain = Some points" by (rule chash_sample_points)
  obtain rc chain' hp' pc' where g: "ngx_stream_upstream_get_chash_peer points 5 rr_sample_chain hash_sample rr_pc = (rc, chain', hp', pc')"
    by (metis prod_cases4)
  from chash_peer_choice[OF hash_sample_pre(1) g refl refl refl] obtain n where
    "hp_hash hp' = hp_hash hash_sample + word_of_nat n" "hp_tries hp' = hp_tries hash_sample + n" by blast
  with p g show ?thesis by blast
qed

text \<open>A step of a system with one of the balancers that extend round robin, with any hash data of the session.\<close>

definition balancer_step :: "rr_system \<Rightarrow> rr_system \<Rightarrow> bool" where
  "balancer_step sys sys' \<longleftrightarrow> rr_step ngx_stream_upstream_get_least_conn_peer sys sys' \<or>
     (\<exists>hp. rr_step (hash_view hp) sys sys') \<or> (\<exists>points hp. rr_step (chash_view points hp) sys sys')"

lemma balancer_step_inv: "balancer_step\<^sup>*\<^sup>* sys sys' \<Longrightarrow> rr_inv sys \<Longrightarrow> rr_inv sys'"
  by (induction rule: rtranclp_induct) (auto simp: balancer_step_def
      intro: lc_bal.step_inv hash_bal.step_inv chash_bal.step_inv)



end
