(* ===== verification/Ngx_Rbtree.thy ===== *)
theory Ngx_Rbtree
  imports Nginx_Prelude "HOL-Library.Monad_Syntax"
begin

text \<open>
  \<^verbatim>\<open>core/ngx_rbtree.c\<close>, \<^verbatim>\<open>core/ngx_rbtree.h\<close>: the intrusive red-black tree of the timers, caches and
  limits, on an explicit store. Nodes are addresses; the store keeps each field of the nodes as a
  function of the address, so that the code's updates through parent and child pointers, and its
  aliasing, are those of the source. The loops are partial functions whose value \<open>None\<close> is not
  returning.
\<close>

section \<open>The store\<close>

type_synonym rb_key = "64 word"

text \<open>
  The fields of all nodes with the two pointers of \<open>ngx_rbtree_t\<close>. The color byte is only ever
  written 0 or 1 and read as a truth value.
\<close>

record rbtree =
  rb_key :: "addr \<Rightarrow> rb_key"
  rb_left :: "addr \<Rightarrow> addr"
  rb_right :: "addr \<Rightarrow> addr"
  rb_parent :: "addr \<Rightarrow> addr"
  rb_red :: "addr \<Rightarrow> bool"
  rb_root :: addr
  rb_sentinel :: addr

definition set_key :: "addr \<Rightarrow> rb_key \<Rightarrow> rbtree \<Rightarrow> rbtree" where
  "set_key a k h = h\<lparr>rb_key := (rb_key h)(a := k)\<rparr>"

definition set_left :: "addr \<Rightarrow> addr \<Rightarrow> rbtree \<Rightarrow> rbtree" where
  "set_left a x h = h\<lparr>rb_left := (rb_left h)(a := x)\<rparr>"

definition set_right :: "addr \<Rightarrow> addr \<Rightarrow> rbtree \<Rightarrow> rbtree" where
  "set_right a x h = h\<lparr>rb_right := (rb_right h)(a := x)\<rparr>"

definition set_parent :: "addr \<Rightarrow> addr \<Rightarrow> rbtree \<Rightarrow> rbtree" where
  "set_parent a x h = h\<lparr>rb_parent := (rb_parent h)(a := x)\<rparr>"

definition set_root :: "addr \<Rightarrow> rbtree \<Rightarrow> rbtree" where
  "set_root x h = h\<lparr>rb_root := x\<rparr>"

definition set_color :: "addr \<Rightarrow> bool \<Rightarrow> rbtree \<Rightarrow> rbtree" where
  "set_color a c h = h\<lparr>rb_red := (rb_red h)(a := c)\<rparr>"

definition ngx_rbt_red :: "addr \<Rightarrow> rbtree \<Rightarrow> rbtree" where
  "ngx_rbt_red a = set_color a True"

definition ngx_rbt_black :: "addr \<Rightarrow> rbtree \<Rightarrow> rbtree" where
  "ngx_rbt_black a = set_color a False"

definition ngx_rbt_copy_color :: "addr \<Rightarrow> addr \<Rightarrow> rbtree \<Rightarrow> rbtree" where
  "ngx_rbt_copy_color n1 n2 h = set_color n1 (rb_red h n2) h"

definition ngx_rbtree_init :: "addr \<Rightarrow> rbtree \<Rightarrow> rbtree" where
  "ngx_rbtree_init s h = (set_root s (ngx_rbt_black s h))\<lparr>rb_sentinel := s\<rparr>"

section \<open>Rotations\<close>

definition ngx_rbtree_left_rotate :: "addr \<Rightarrow> rbtree \<Rightarrow> rbtree" where
  "ngx_rbtree_left_rotate node h0 =
     (let temp = rb_right h0 node;
          h1 = set_right node (rb_left h0 temp) h0;
          h2 = (if rb_left h1 temp \<noteq> rb_sentinel h1 then set_parent (rb_left h1 temp) node h1 else h1);
          h3 = set_parent temp (rb_parent h2 node) h2;
          h4 = (if node = rb_root h3 then set_root temp h3
                else if node = rb_left h3 (rb_parent h3 node) then set_left (rb_parent h3 node) temp h3
                else set_right (rb_parent h3 node) temp h3);
          h5 = set_left temp node h4
      in set_parent node temp h5)"

definition ngx_rbtree_right_rotate :: "addr \<Rightarrow> rbtree \<Rightarrow> rbtree" where
  "ngx_rbtree_right_rotate node h0 =
     (let temp = rb_left h0 node;
          h1 = set_left node (rb_right h0 temp) h0;
          h2 = (if rb_right h1 temp \<noteq> rb_sentinel h1 then set_parent (rb_right h1 temp) node h1 else h1);
          h3 = set_parent temp (rb_parent h2 node) h2;
          h4 = (if node = rb_root h3 then set_root temp h3
                else if node = rb_right h3 (rb_parent h3 node) then set_right (rb_parent h3 node) temp h3
                else set_left (rb_parent h3 node) temp h3);
          h5 = set_right temp node h4
      in set_parent node temp h5)"

section \<open>Insertion\<close>

text \<open>
  The search loop of \<open>ngx_rbtree_insert_value\<close> and \<open>ngx_rbtree_insert_timer_value\<close>, which differ in
  the comparison of the keys: the node under which, and whether to its left, the new one goes.
\<close>

partial_function (option) rb_descend :: "(rb_key \<Rightarrow> rb_key \<Rightarrow> bool) \<Rightarrow> rbtree \<Rightarrow> addr \<Rightarrow> addr \<Rightarrow> (addr \<times> bool) option" where
  [code]: "rb_descend lt h node temp =
     (let go_left = lt (rb_key h node) (rb_key h temp);
          p = (if go_left then rb_left h temp else rb_right h temp)
      in if p = rb_sentinel h then Some (temp, go_left) else rb_descend lt h node p)"

definition rb_attach :: "addr \<Rightarrow> addr \<Rightarrow> bool \<Rightarrow> rbtree \<Rightarrow> rbtree" where
  "rb_attach node temp go_left h =
     (let h1 = (if go_left then set_left temp node h else set_right temp node h);
          h2 = set_parent node temp h1;
          h3 = set_left node (rb_sentinel h2) h2;
          h4 = set_right node (rb_sentinel h3) h3
      in ngx_rbt_red node h4)"

definition ngx_rbtree_insert_value :: "addr \<Rightarrow> addr \<Rightarrow> rbtree \<Rightarrow> rbtree option" where
  "ngx_rbtree_insert_value temp node h =
     do { (t, go_left) \<leftarrow> rb_descend (<) h node temp; Some (rb_attach node t go_left h) }"

text \<open>\<open>(ngx_rbtree_key_int_t) (node->key - temp->key) < 0\<close>\<close>

definition timer_less :: "rb_key \<Rightarrow> rb_key \<Rightarrow> bool" where
  "timer_less a b \<longleftrightarrow> sint (a - b) < 0"

definition ngx_rbtree_insert_timer_value :: "addr \<Rightarrow> addr \<Rightarrow> rbtree \<Rightarrow> rbtree option" where
  "ngx_rbtree_insert_timer_value temp node h =
     do { (t, go_left) \<leftarrow> rb_descend timer_less h node temp; Some (rb_attach node t go_left h) }"

text \<open>The loop that re-balances the tree after an insertion, one branch for each side.\<close>

definition rb_insert_left :: "addr \<Rightarrow> rbtree \<Rightarrow> addr \<times> rbtree" where
  "rb_insert_left node h =
     (let temp = rb_right h (rb_parent h (rb_parent h node)) in
      if rb_red h temp
      then let h1 = ngx_rbt_black (rb_parent h node) h;
               h2 = ngx_rbt_black temp h1;
               h3 = ngx_rbt_red (rb_parent h2 (rb_parent h2 node)) h2
           in (rb_parent h3 (rb_parent h3 node), h3)
      else let (node1, h1) = (if node = rb_right h (rb_parent h node)
                              then (rb_parent h node, ngx_rbtree_left_rotate (rb_parent h node) h) else (node, h));
               h2 = ngx_rbt_black (rb_parent h1 node1) h1;
               h3 = ngx_rbt_red (rb_parent h2 (rb_parent h2 node1)) h2
           in (node1, ngx_rbtree_right_rotate (rb_parent h3 (rb_parent h3 node1)) h3))"

definition rb_insert_right :: "addr \<Rightarrow> rbtree \<Rightarrow> addr \<times> rbtree" where
  "rb_insert_right node h =
     (let temp = rb_left h (rb_parent h (rb_parent h node)) in
      if rb_red h temp
      then let h1 = ngx_rbt_black (rb_parent h node) h;
               h2 = ngx_rbt_black temp h1;
               h3 = ngx_rbt_red (rb_parent h2 (rb_parent h2 node)) h2
           in (rb_parent h3 (rb_parent h3 node), h3)
      else let (node1, h1) = (if node = rb_left h (rb_parent h node)
                              then (rb_parent h node, ngx_rbtree_right_rotate (rb_parent h node) h) else (node, h));
               h2 = ngx_rbt_black (rb_parent h1 node1) h1;
               h3 = ngx_rbt_red (rb_parent h2 (rb_parent h2 node1)) h2
           in (node1, ngx_rbtree_left_rotate (rb_parent h3 (rb_parent h3 node1)) h3))"

partial_function (option) rb_insert_fix :: "addr \<Rightarrow> rbtree \<Rightarrow> rbtree option" where
  [code]: "rb_insert_fix node h =
     (if node \<noteq> rb_root h \<and> rb_red h (rb_parent h node)
      then (case (if rb_parent h node = rb_left h (rb_parent h (rb_parent h node))
                  then rb_insert_left node h else rb_insert_right node h) of
              (node', h') \<Rightarrow> rb_insert_fix node' h')
      else Some (ngx_rbt_black (rb_root h) h))"

text \<open>\<open>insert_pt\<close> is the function \<open>tree->insert\<close>.\<close>

definition ngx_rbtree_insert :: "(addr \<Rightarrow> addr \<Rightarrow> rbtree \<Rightarrow> rbtree option) \<Rightarrow> addr \<Rightarrow> rbtree \<Rightarrow> rbtree option" where
  "ngx_rbtree_insert insert_pt node h =
     (if rb_root h = rb_sentinel h
      then Some (set_root node (ngx_rbt_black node (set_right node (rb_sentinel h)
             (set_left node (rb_sentinel h) (set_parent node NULL h)))))
      else do { h1 \<leftarrow> insert_pt (rb_root h) node h; rb_insert_fix node h1 })"

section \<open>Deletion\<close>

partial_function (option) ngx_rbtree_min :: "addr \<Rightarrow> rbtree \<Rightarrow> addr option" where
  [code]: "ngx_rbtree_min node h =
     (if rb_left h node \<noteq> rb_sentinel h then ngx_rbtree_min (rb_left h node) h else Some node)"

text \<open>One pass of the loop that re-balances after a deletion: the new \<open>temp\<close> and the store.\<close>

definition rb_delete_left :: "addr \<Rightarrow> rbtree \<Rightarrow> addr \<times> rbtree" where
  "rb_delete_left temp h0 =
     (let w0 = rb_right h0 (rb_parent h0 temp);
          (w, h) = (if rb_red h0 w0
                    then let h1 = ngx_rbt_black w0 h0;
                             h2 = ngx_rbt_red (rb_parent h1 temp) h1;
                             h3 = ngx_rbtree_left_rotate (rb_parent h2 temp) h2
                         in (rb_right h3 (rb_parent h3 temp), h3)
                    else (w0, h0))
      in if \<not> rb_red h (rb_left h w) \<and> \<not> rb_red h (rb_right h w)
         then let h1 = ngx_rbt_red w h in (rb_parent h1 temp, h1)
         else let (w', h') = (if \<not> rb_red h (rb_right h w)
                              then let h1 = ngx_rbt_black (rb_left h w) h;
                                       h2 = ngx_rbt_red w h1;
                                       h3 = ngx_rbtree_right_rotate w h2
                                   in (rb_right h3 (rb_parent h3 temp), h3)
                              else (w, h));
                  h4 = ngx_rbt_copy_color w' (rb_parent h' temp) h';
                  h5 = ngx_rbt_black (rb_parent h4 temp) h4;
                  h6 = ngx_rbt_black (rb_right h5 w') h5;
                  h7 = ngx_rbtree_left_rotate (rb_parent h6 temp) h6
              in (rb_root h7, h7))"

definition rb_delete_right :: "addr \<Rightarrow> rbtree \<Rightarrow> addr \<times> rbtree" where
  "rb_delete_right temp h0 =
     (let w0 = rb_left h0 (rb_parent h0 temp);
          (w, h) = (if rb_red h0 w0
                    then let h1 = ngx_rbt_black w0 h0;
                             h2 = ngx_rbt_red (rb_parent h1 temp) h1;
                             h3 = ngx_rbtree_right_rotate (rb_parent h2 temp) h2
                         in (rb_left h3 (rb_parent h3 temp), h3)
                    else (w0, h0))
      in if \<not> rb_red h (rb_left h w) \<and> \<not> rb_red h (rb_right h w)
         then let h1 = ngx_rbt_red w h in (rb_parent h1 temp, h1)
         else let (w', h') = (if \<not> rb_red h (rb_left h w)
                              then let h1 = ngx_rbt_black (rb_right h w) h;
                                       h2 = ngx_rbt_red w h1;
                                       h3 = ngx_rbtree_left_rotate w h2
                                   in (rb_left h3 (rb_parent h3 temp), h3)
                              else (w, h));
                  h4 = ngx_rbt_copy_color w' (rb_parent h' temp) h';
                  h5 = ngx_rbt_black (rb_parent h4 temp) h4;
                  h6 = ngx_rbt_black (rb_left h5 w') h5;
                  h7 = ngx_rbtree_right_rotate (rb_parent h6 temp) h6
              in (rb_root h7, h7))"

partial_function (option) rb_delete_fix :: "addr \<Rightarrow> rbtree \<Rightarrow> rbtree option" where
  [code]: "rb_delete_fix temp h =
     (if temp \<noteq> rb_root h \<and> \<not> rb_red h temp
      then (case (if temp = rb_left h (rb_parent h temp) then rb_delete_left temp h else rb_delete_right temp h) of
              (temp', h') \<Rightarrow> rb_delete_fix temp' h')
      else Some (ngx_rbt_black temp h))"

text \<open>The fields of a node that has left the tree are cleared.\<close>

definition rb_clear :: "addr \<Rightarrow> rbtree \<Rightarrow> rbtree" where
  "rb_clear node h = set_key node 0 (set_parent node NULL (set_right node NULL (set_left node NULL h)))"

text \<open>The node that is unlinked, and the child that takes its place.\<close>

definition rb_delete_subst :: "addr \<Rightarrow> rbtree \<Rightarrow> (addr \<times> addr) option" where
  "rb_delete_subst node h =
     (if rb_left h node = rb_sentinel h then Some (rb_right h node, node)
      else if rb_right h node = rb_sentinel h then Some (rb_left h node, node)
      else do { subst \<leftarrow> ngx_rbtree_min (rb_right h node) h;
                Some (if rb_left h subst \<noteq> rb_sentinel h then rb_left h subst else rb_right h subst, subst) })"

text \<open>\<open>subst\<close> takes the place of \<open>node\<close>: it gets the node's links and color, the pointer to the
  node, and the node's children.\<close>

definition rb_copy_node :: "addr \<Rightarrow> addr \<Rightarrow> rbtree \<Rightarrow> rbtree" where
  "rb_copy_node node subst h0 =
     (let h1 = set_left subst (rb_left h0 node) h0;
          h2 = set_right subst (rb_right h1 node) h1;
          h3 = set_parent subst (rb_parent h2 node) h2
      in ngx_rbt_copy_color subst node h3)"

definition rb_replace :: "addr \<Rightarrow> addr \<Rightarrow> rbtree \<Rightarrow> rbtree" where
  "rb_replace node temp h =
     (if node = rb_root h then set_root temp h
      else if node = rb_left h (rb_parent h node) then set_left (rb_parent h node) temp h
      else set_right (rb_parent h node) temp h)"

definition rb_adopt :: "addr \<Rightarrow> rbtree \<Rightarrow> rbtree" where
  "rb_adopt subst h0 =
     (let h1 = (if rb_left h0 subst \<noteq> rb_sentinel h0 then set_parent (rb_left h0 subst) subst h0 else h0)
      in if rb_right h1 subst \<noteq> rb_sentinel h1 then set_parent (rb_right h1 subst) subst h1 else h1)"

definition rb_delete_move :: "addr \<Rightarrow> addr \<Rightarrow> addr \<Rightarrow> rbtree \<Rightarrow> rbtree" where
  "rb_delete_move node temp subst h =
     (let h1 = (if rb_parent h subst = node then set_parent temp subst h
                else set_parent temp (rb_parent h subst) h)
      in rb_adopt subst (rb_replace node subst (rb_copy_node node subst h1)))"

definition rb_unlink :: "addr \<Rightarrow> addr \<Rightarrow> rbtree \<Rightarrow> rbtree" where
  "rb_unlink subst temp h =
     (if subst = rb_left h (rb_parent h subst) then set_left (rb_parent h subst) temp h
      else set_right (rb_parent h subst) temp h)"

definition ngx_rbtree_delete :: "addr \<Rightarrow> rbtree \<Rightarrow> rbtree option" where
  "ngx_rbtree_delete node h =
     do { (temp, subst) \<leftarrow> rb_delete_subst node h;
          if subst = rb_root h then Some (rb_clear node (ngx_rbt_black temp (set_root temp h)))
          else let red = rb_red h subst;
                   h1 = rb_unlink subst temp h;
                   h2 = (if subst = node then set_parent temp (rb_parent h1 subst) h1
                         else rb_delete_move node temp subst h1);
                   h3 = rb_clear node h2
               in if red then Some h3 else rb_delete_fix temp h3 }"

text \<open>The in-order successor, \<open>NULL\<close> after the last node.\<close>

partial_function (option) rb_next_up :: "addr \<Rightarrow> rbtree \<Rightarrow> addr option" where
  [code]: "rb_next_up node h =
     (let parent = rb_parent h node in
      if node = rb_root h then Some NULL
      else if node = rb_left h parent then Some parent
      else rb_next_up parent h)"

definition ngx_rbtree_next :: "addr \<Rightarrow> rbtree \<Rightarrow> addr option" where
  "ngx_rbtree_next node h =
     (if rb_right h node \<noteq> rb_sentinel h then ngx_rbtree_min (rb_right h node) h else rb_next_up node h)"

end
