(* ===== verification/Ngx_Rbtree_Shape.thy ===== *)
theory Ngx_Rbtree_Shape
  imports Ngx_Rbtree
begin

text \<open>
  The trees a store represents. A tree of addresses and colors stands in a context, the path from
  the place of the tree up to the root with the subtrees beside it; \<open>rep h t C\<close> says that the store's
  pointers are those of the tree \<open>t\<close> in the context \<open>C\<close>. Rotations and recolorings are lemmas on
  \<open>rep\<close>, and moving one step up or down the path is an equation.
\<close>

section \<open>Trees and contexts\<close>

datatype rbt = RE | RT bool rbt addr rbt

fun nodes :: "rbt \<Rightarrow> addr list" where
  "nodes RE = []"
| "nodes (RT c l a r) = nodes l @ a # nodes r"

fun is_red :: "rbt \<Rightarrow> bool" where
  "is_red RE = False"
| "is_red (RT c l a r) = c"

datatype frame = FL bool addr rbt | FR bool rbt addr

fun plug :: "rbt \<Rightarrow> frame list \<Rightarrow> rbt" where
  "plug t [] = t"
| "plug t (FL c a r # C) = plug (RT c t a r) C"
| "plug t (FR c l a # C) = plug (RT c l a t) C"

fun before :: "frame list \<Rightarrow> addr list" where
  "before [] = []"
| "before (FL c a r # C) = before C"
| "before (FR c l a # C) = before C @ nodes l @ [a]"

fun after :: "frame list \<Rightarrow> addr list" where
  "after [] = []"
| "after (FL c a r # C) = a # nodes r @ after C"
| "after (FR c l a # C) = after C"

lemma nodes_plug [simp]: "nodes (plug t C) = before C @ nodes t @ after C"
  by (induction t C rule: plug.induct) auto

section \<open>Representation\<close>

fun ptr :: "rbtree \<Rightarrow> rbt \<Rightarrow> addr" where
  "ptr h RE = rb_sentinel h"
| "ptr h (RT c l a r) = a"

fun shape :: "rbtree \<Rightarrow> addr \<Rightarrow> rbt \<Rightarrow> bool" where
  "shape h par RE \<longleftrightarrow> True"
| "shape h par (RT c l a r) \<longleftrightarrow> a \<noteq> rb_sentinel h \<and> a \<noteq> NULL \<and> rb_parent h a = par \<and> rb_red h a = c \<and>
     rb_left h a = ptr h l \<and> rb_right h a = ptr h r \<and> shape h a l \<and> shape h a r"

fun ctx :: "rbtree \<Rightarrow> addr \<Rightarrow> addr \<Rightarrow> frame list \<Rightarrow> bool" where
  "ctx h par x [] \<longleftrightarrow> rb_root h = x"
| "ctx h par x (FL c a r # C) \<longleftrightarrow> par = a \<and> a \<noteq> rb_sentinel h \<and> a \<noteq> NULL \<and> rb_red h a = c \<and>
     rb_left h a = x \<and> rb_right h a = ptr h r \<and> shape h a r \<and> ctx h (rb_parent h a) a C"
| "ctx h par x (FR c l a # C) \<longleftrightarrow> par = a \<and> a \<noteq> rb_sentinel h \<and> a \<noteq> NULL \<and> rb_red h a = c \<and>
     rb_right h a = x \<and> rb_left h a = ptr h l \<and> shape h a l \<and> ctx h (rb_parent h a) a C"

definition rep :: "rbtree \<Rightarrow> rbt \<Rightarrow> frame list \<Rightarrow> bool" where
  "rep h t C \<longleftrightarrow> (\<exists>par. ctx h par (ptr h t) C \<and> shape h par t) \<and> distinct (nodes (plug t C))"

text \<open>Moving along the path.\<close>

lemma rep_FL: "rep h t (FL c a r # C) \<longleftrightarrow> rep h (RT c t a r) C"
  by (auto simp: rep_def)

lemma rep_FR: "rep h t (FR c l a # C) \<longleftrightarrow> rep h (RT c l a t) C"
  by (auto simp: rep_def)

lemmas rep_up = rep_FL rep_FR

lemma rep_plug: "rep h (plug t C) [] \<longleftrightarrow> rep h t C"
  by (induction t C rule: plug.induct) (simp_all add: rep_up)

section \<open>What an update leaves as it is\<close>

definition same_at :: "rbtree \<Rightarrow> rbtree \<Rightarrow> addr \<Rightarrow> bool" where
  "same_at h h' a \<longleftrightarrow> rb_left h' a = rb_left h a \<and> rb_right h' a = rb_right h a \<and>
     rb_parent h' a = rb_parent h a \<and> rb_red h' a = rb_red h a"

lemma ptr_cong: "rb_sentinel h' = rb_sentinel h \<Longrightarrow> ptr h' t = ptr h t"
  by (cases t) auto

lemma shape_cong:
  assumes "shape h par t" "rb_sentinel h' = rb_sentinel h" "\<And>a. a \<in> set (nodes t) \<Longrightarrow> same_at h h' a"
  shows "shape h' par t"
  using assms by (induction t arbitrary: par) (auto simp: same_at_def ptr_cong[OF assms(2)])

lemma ctx_cong:
  assumes "ctx h par x C" "rb_sentinel h' = rb_sentinel h" "rb_root h' = rb_root h"
    "\<And>a. a \<in> set (before C @ after C) \<Longrightarrow> same_at h h' a"
  shows "ctx h' par x C"
  using assms
proof (induction h par x C rule: ctx.induct)
  case (2 h par x c a r C)
  then have "same_at h h' a" "shape h' a r" "ctx h' (rb_parent h a) a C"
    by (auto intro: shape_cong)
  with 2 show ?case by (simp add: same_at_def ptr_cong[OF \<open>rb_sentinel h' = rb_sentinel h\<close>])
next
  case (3 h par x c l a C)
  then have "same_at h h' a" "shape h' a l" "ctx h' (rb_parent h a) a C"
    by (auto intro: shape_cong)
  with 3 show ?case by (simp add: same_at_def ptr_cong[OF \<open>rb_sentinel h' = rb_sentinel h\<close>])
qed simp

text \<open>A subtree that gets a new parent.\<close>

lemma shape_reparent:
  assumes "shape h par t" "rb_sentinel h' = rb_sentinel h" "distinct (nodes t)"
    "\<And>a. a \<in> set (nodes t) \<Longrightarrow> a \<noteq> ptr h t \<Longrightarrow> same_at h h' a"
    "t \<noteq> RE \<Longrightarrow> rb_left h' (ptr h t) = rb_left h (ptr h t) \<and> rb_right h' (ptr h t) = rb_right h (ptr h t) \<and>
       rb_red h' (ptr h t) = rb_red h (ptr h t) \<and> rb_parent h' (ptr h t) = par'"
  shows "shape h' par' t"
proof (cases t)
  case (RT c l a r)
  have "shape h' a l" "shape h' a r"
    using assms(1,3,4) RT by (auto intro!: shape_cong[OF _ assms(2)])
  with RT assms(1,2,5) show ?thesis by (simp add: ptr_cong[OF assms(2)])
qed simp

section \<open>Reading the store\<close>

lemma rep_distinct: "rep h t C \<Longrightarrow> distinct (before C @ nodes t @ after C)"
  by (simp add: rep_def)

lemma ctx_root: "ctx h par x C \<Longrightarrow> C \<noteq> [] \<Longrightarrow> rb_root h \<in> set (before C @ after C) \<and> rb_root h \<noteq> rb_sentinel h"
proof (induction h par x C rule: ctx.induct)
  case (2 h par x c a r C)
  then show ?case by (cases C) auto
next
  case (3 h par x c l a C)
  then show ?case by (cases C) auto
qed simp

lemma rep_root: "rep h t C \<Longrightarrow> rb_root h = ptr h t \<longleftrightarrow> C = []"
proof
  assume r: "rep h t C" and eq: "rb_root h = ptr h t"
  show "C = []"
  proof (rule ccontr)
    assume "C \<noteq> []"
    with r have "rb_root h \<in> set (before C @ after C)" "rb_root h \<noteq> rb_sentinel h"
      using ctx_root unfolding rep_def by blast+
    with eq rep_distinct[OF r] show False by (cases t) auto
  qed
qed (auto simp: rep_def)

lemma rep_node:
  assumes "rep h (RT c l a r) C"
  shows "rb_left h a = ptr h l" "rb_right h a = ptr h r" "rb_red h a = c" "a \<noteq> rb_sentinel h" "a \<noteq> NULL"
  using assms by (auto simp: rep_def)

lemma rep_kids:
  assumes "rep h (RT c l a r) C"
  shows "l \<noteq> RE \<Longrightarrow> rb_parent h (ptr h l) = a" "r \<noteq> RE \<Longrightarrow> rb_parent h (ptr h r) = a"
  using assms by (cases l; auto simp: rep_def; fail) (use assms in \<open>cases r; auto simp: rep_def\<close>)

text \<open>A context's next address.\<close>

lemma ptr_in: "t \<noteq> RE \<Longrightarrow> ptr h t \<in> set (nodes t)"
  by (cases t) auto

lemma ptr_neq_sentinel: "shape h par t \<Longrightarrow> ptr h t = rb_sentinel h \<longleftrightarrow> t = RE"
  by (cases t) auto

lemma shape_nodes: "shape h par t \<Longrightarrow> x \<in> set (nodes t) \<Longrightarrow> x \<noteq> rb_sentinel h \<and> x \<noteq> NULL"
  by (induction t arbitrary: par) auto

lemma rep_nodes:
  assumes "rep h t C" "x \<in> set (before C @ nodes t @ after C)"
  shows "x \<noteq> rb_sentinel h" "x \<noteq> NULL"
proof -
  have "rep h (plug t C) []" using assms(1) by (simp only: rep_plug)
  then obtain par where "shape h par (plug t C)" unfolding rep_def by blast
  from shape_nodes[OF this, of x] assms(2) show "x \<noteq> rb_sentinel h" "x \<noteq> NULL" by simp_all
qed

lemma rep_red: "rep h t C \<Longrightarrow> \<not> rb_red h (rb_sentinel h) \<Longrightarrow> rb_red h (ptr h t) = is_red t"
  by (cases t) (auto simp: rep_def)

section \<open>Rotations\<close>

lemmas set_defs = set_left_def set_right_def set_parent_def set_root_def set_color_def

text \<open>
  The store after one subtree was restructured: outside the listed nodes nothing changed but the
  pointer from the context to the top of the subtree.
\<close>

definition relinked :: "rbtree \<Rightarrow> rbtree \<Rightarrow> frame list \<Rightarrow> addr \<Rightarrow> bool" where
  "relinked h h' C x \<longleftrightarrow> rb_sentinel h' = rb_sentinel h \<and>
     (case C of
        [] \<Rightarrow> rb_root h' = x
      | FL c p s # _ \<Rightarrow> rb_root h' = rb_root h \<and> rb_left h' p = x \<and> rb_right h' p = rb_right h p \<and>
          rb_parent h' p = rb_parent h p \<and> rb_red h' p = rb_red h p
      | FR c s p # _ \<Rightarrow> rb_root h' = rb_root h \<and> rb_right h' p = x \<and> rb_left h' p = rb_left h p \<and>
          rb_parent h' p = rb_parent h p \<and> rb_red h' p = rb_red h p)"

fun hole_parent :: "frame list \<Rightarrow> addr set" where
  "hole_parent [] = {}"
| "hole_parent (FL c p s # C) = {p}"
| "hole_parent (FR c s p # C) = {p}"

lemma ctx_relinked:
  assumes "ctx h par x C" "relinked h h' C y" "distinct (before C @ after C)"
    "\<And>a. a \<in> set (before C @ after C) - hole_parent C \<Longrightarrow> same_at h h' a"
  shows "ctx h' par y C"
proof (cases C rule: hole_parent.cases)
  case 1
  with assms(2) show ?thesis by (simp add: relinked_def)
next
  case (2 c p s C')
  have s: "\<And>a. a \<in> set (nodes s) \<Longrightarrow> same_at h h' a" "\<And>a. a \<in> set (before C' @ after C') \<Longrightarrow> same_at h h' a"
    using assms(3,4) by (auto simp: 2)
  have r: "rb_sentinel h' = rb_sentinel h" "rb_root h' = rb_root h" using assms(2) by (auto simp: relinked_def 2)
  have "shape h' p s" "ctx h' (rb_parent h p) p C'"
    using assms(1) shape_cong[OF _ r(1) s(1)] ctx_cong[OF _ r s(2)] by (auto simp: 2)
  with assms(1,2) show ?thesis by (simp add: relinked_def 2 ptr_cong[OF r(1)])
next
  case (3 c s p C')
  have s: "\<And>a. a \<in> set (nodes s) \<Longrightarrow> same_at h h' a" "\<And>a. a \<in> set (before C' @ after C') \<Longrightarrow> same_at h h' a"
    using assms(3,4) by (auto simp: 3)
  have r: "rb_sentinel h' = rb_sentinel h" "rb_root h' = rb_root h" using assms(2) by (auto simp: relinked_def 3)
  have "shape h' p s" "ctx h' (rb_parent h p) p C'"
    using assms(1) shape_cong[OF _ r(1) s(1)] ctx_cong[OF _ r s(2)] by (auto simp: 3)
  with assms(1,2) show ?thesis by (simp add: relinked_def 3 ptr_cong[OF r(1)])
qed

lemma hole_parent_in:
  assumes "ctx h par x C" "p \<in> hole_parent C"
  shows "p \<in> set (before C @ after C)" "p = par" "p \<noteq> rb_sentinel h"
  using assms by (cases C rule: hole_parent.cases; simp)+

lemma hole_parent_cases: "ctx h par x C \<Longrightarrow> C = [] \<or> hole_parent C = {par}"
  by (cases C rule: hole_parent.cases) auto

text \<open>
  \<open>rb_replace\<close> sets the pointer to a node, from its parent or the root. The right rotation tests the
  sides in the other order.
\<close>

definition rb_replace_mirror :: "addr \<Rightarrow> addr \<Rightarrow> rbtree \<Rightarrow> rbtree" where
  "rb_replace_mirror node temp h =
     (if node = rb_root h then set_root temp h
      else if node = rb_right h (rb_parent h node) then set_right (rb_parent h node) temp h
      else set_left (rb_parent h node) temp h)"

lemma relinked_replace:
  assumes "ctx h par a C" "a \<noteq> rb_sentinel h" "a \<notin> set (before C @ after C)" "rb_parent h a = par"
  shows "relinked h (rb_replace a b h) C b" "rb_replace_mirror a b h = rb_replace a b h"
proof -
  have root: "rb_root h = a \<longleftrightarrow> C = []" using ctx_root[OF assms(1)] assms by (cases C) auto
  have "ptr h s \<noteq> a" if "set (nodes s) \<subseteq> set (before C @ after C)" for s
    using that assms(2,3) by (cases s) auto
  thus "relinked h (rb_replace a b h) C b" "rb_replace_mirror a b h = rb_replace a b h"
    using assms(1,4) root
    by (cases C rule: hole_parent.cases; fastforce simp: relinked_def rb_replace_def rb_replace_mirror_def set_defs)+
qed

lemma rb_replace_fields [simp]:
  "rb_key (rb_replace a b h) = rb_key h" "rb_red (rb_replace a b h) = rb_red h"
  "rb_parent (rb_replace a b h) = rb_parent h" "rb_sentinel (rb_replace a b h) = rb_sentinel h"
  "x \<noteq> rb_parent h a \<Longrightarrow> rb_left (rb_replace a b h) x = rb_left h x"
  "x \<noteq> rb_parent h a \<Longrightarrow> rb_right (rb_replace a b h) x = rb_right h x"
  by (simp_all add: rb_replace_def set_defs)

lemma replace_root [simp]: "rb_root h = a \<Longrightarrow> rb_replace a b h = set_root b h"
  by (simp add: rb_replace_def)

text \<open>Stores that agree on what \<open>relinked\<close> reads.\<close>

lemma relinked_cong:
  assumes "relinked h1 h2 C b" "rb_sentinel h = rb_sentinel h1" "rb_sentinel h' = rb_sentinel h2"
    "rb_root h = rb_root h1" "rb_root h' = rb_root h2"
    "\<And>p. p \<in> hole_parent C \<Longrightarrow> same_at h h1 p \<and> same_at h2 h' p"
  shows "relinked h h' C b"
  using assms by (cases C rule: hole_parent.cases) (simp_all add: relinked_def same_at_def)

text \<open>The first half of a rotation, up to the choice of the pointer to the subtree.\<close>

definition rot_left_links :: "addr \<Rightarrow> rbtree \<Rightarrow> rbtree" where
  "rot_left_links node h0 =
     (let temp = rb_right h0 node;
          h1 = set_right node (rb_left h0 temp) h0;
          h2 = (if rb_left h1 temp \<noteq> rb_sentinel h1 then set_parent (rb_left h1 temp) node h1 else h1)
      in set_parent temp (rb_parent h2 node) h2)"

lemma left_rotate_replace:
  "ngx_rbtree_left_rotate a h =
     set_parent a (rb_right h a) (set_left (rb_right h a) a
       (rb_replace a (rb_right h a) (rot_left_links a h)))"
  unfolding ngx_rbtree_left_rotate_def rot_left_links_def rb_replace_def Let_def by (rule refl)

lemma rep_left_rotate:
  assumes "rep h (RT c l a (RT d m b r)) C"
  shows "rep (ngx_rbtree_left_rotate a h) (RT d (RT c l a m) b r) C"
    and "rb_key (ngx_rbtree_left_rotate a h) = rb_key h" "rb_red (ngx_rbtree_left_rotate a h) = rb_red h"
    and "rb_sentinel (ngx_rbtree_left_rotate a h) = rb_sentinel h"
    and "rb_parent (ngx_rbtree_left_rotate a h) (rb_sentinel h) = rb_parent h (rb_sentinel h)"
proof -
  obtain par where c: "ctx h par a C" and s: "shape h par (RT c l a (RT d m b r))"
    and dist: "distinct (before C @ nodes (RT c l a (RT d m b r)) @ after C)"
    using assms by (auto simp: rep_def)
  have f: "rb_left h a = ptr h l" "rb_right h a = b" "rb_left h b = ptr h m" "rb_right h b = ptr h r"
      "rb_parent h a = par" "a \<noteq> b" "a \<noteq> rb_sentinel h" "b \<noteq> rb_sentinel h" "shape h a l" "shape h b m" "shape h b r"
    using s dist by auto
  have m: "ptr h m = rb_sentinel h \<longleftrightarrow> m = RE" using ptr_neq_sentinel[OF f(10)] .
  have mn: "m \<noteq> RE \<Longrightarrow> ptr h m \<in> set (nodes m)" by (rule ptr_in)
  have hp: "hole_parent C \<subseteq> set (before C @ after C)" using hole_parent_in(1)[OF c] by blast
  define h4 where "h4 = h\<lparr>rb_right := (rb_right h)(a := ptr h m),
        rb_parent := (if m \<noteq> RE then (rb_parent h)(ptr h m := a) else rb_parent h)(b := par)\<rparr>"
  define h' where "h' = set_parent a b (set_left b a (rb_replace a b h4))"
  have ab: "m \<noteq> RE \<Longrightarrow> ptr h m \<noteq> a \<and> ptr h m \<noteq> b" using mn dist by auto
  have same4: "same_at h h4 x" if "x \<in> set (before C @ after C)" for x
    using that dist mn by (auto simp: same_at_def h4_def)
  have c4: "ctx h4 par a C" by (rule ctx_cong[OF c _ _ same4]) (simp_all add: h4_def)
  have p4: "rb_parent h4 a = par" using ab f(5,6) by (cases "m = RE") (auto simp: h4_def)
  have eq: "ngx_rbtree_left_rotate a h = h'"
  proof -
    have "rot_left_links a h = h4"
      using m ab by (cases "m = RE") (simp_all add: rot_left_links_def h4_def Let_def set_defs f(1-8))
    thus ?thesis by (simp add: left_rotate_replace h'_def f(2))
  qed
  have par: "C \<noteq> [] \<Longrightarrow> par \<in> set (before C @ after C)" using hole_parent_cases[OF c] hp by auto
  have fields: "rb_key h' = rb_key h" "rb_red h' = rb_red h" "rb_sentinel h' = rb_sentinel h"
    "rb_parent h' = ((if m \<noteq> RE then (rb_parent h)(ptr h m := a) else rb_parent h)(b := par))(a := b)"
    by (simp_all add: h'_def h4_def set_defs)
  have links: "rb_left h' x = ((rb_left h)(b := a)) x" "rb_right h' x = ((rb_right h)(a := ptr h m)) x" if "x \<notin> hole_parent C" for x
  proof -
    have root4: "C = [] \<Longrightarrow> rb_root h4 = a" using c4 by simp
    have "C \<noteq> [] \<Longrightarrow> x \<noteq> par" using that hole_parent_cases[OF c] by auto
    thus "rb_left h' x = ((rb_left h)(b := a)) x" "rb_right h' x = ((rb_right h)(a := ptr h m)) x"
      using root4 p4 by (cases "C = []"; simp add: h'_def set_defs; simp add: h4_def)+
  qed
  have "relinked h4 (rb_replace a b h4) C b"
    using c4 dist f(7) by (intro relinked_replace(1)[OF c4 _ _ p4]) (auto simp: h4_def)
  hence "relinked h h' C b"
  proof (rule relinked_cong)
    fix p assume p: "p \<in> hole_parent C"
    hence "p \<noteq> a" "p \<noteq> b" using hp dist by auto
    thus "same_at h h4 p \<and> same_at (rb_replace a b h4) h' p"
      using same4 p hp by (auto simp: same_at_def h'_def set_defs)
  qed (auto simp: h4_def h'_def set_defs)
  have c': "ctx h' par b C"
  proof (rule ctx_relinked[OF c \<open>relinked h h' C b\<close>])
    fix x assume "x \<in> set (before C @ after C) - hole_parent C"
    thus "same_at h h' x" using links[of x] dist mn by (auto simp: same_at_def fields)
  qed (use dist in auto)
  have out: "x \<notin> hole_parent C" if "x \<in> set (nodes (RT c l a (RT d m b r)))" for x
    using that hp dist by auto
  have mo: "m \<noteq> RE \<Longrightarrow> ptr h m \<notin> set (nodes l) \<union> set (nodes r)"
    using mn dist by auto
  have sl: "shape h' a l" "shape h' b r"
    using dist mo links out by (auto intro!: shape_cong[OF f(9)] shape_cong[OF f(11)] simp: same_at_def fields)
  have sm: "shape h' a m"
  proof (rule shape_reparent[OF f(10)])
    fix x assume "x \<in> set (nodes m)" "x \<noteq> ptr h m"
    thus "same_at h h' x" using dist links[of x] out[of x] by (auto simp: same_at_def fields)
  next
    assume "m \<noteq> RE"
    thus "rb_left h' (ptr h m) = rb_left h (ptr h m) \<and> rb_right h' (ptr h m) = rb_right h (ptr h m) \<and>
       rb_red h' (ptr h m) = rb_red h (ptr h m) \<and> rb_parent h' (ptr h m) = a"
      using links[of "ptr h m"] out[of "ptr h m"] mn ab by (auto simp: fields)
  qed (use dist fields in auto)
  have "shape h' par (RT d (RT c l a m) b r)"
    using s sl sm links[of a] links[of b] out[of a] out[of b] f
    by (auto simp: fields ptr_cong[OF fields(3)])
  with c' dist show "rep (ngx_rbtree_left_rotate a h) (RT d (RT c l a m) b r) C"
    unfolding eq rep_def by auto
  show "rb_key (ngx_rbtree_left_rotate a h) = rb_key h" "rb_red (ngx_rbtree_left_rotate a h) = rb_red h"
    "rb_sentinel (ngx_rbtree_left_rotate a h) = rb_sentinel h"
    "rb_parent (ngx_rbtree_left_rotate a h) (rb_sentinel h) = rb_parent h (rb_sentinel h)"
    unfolding eq using f m by (auto simp: fields)
qed

text \<open>The fields of an updated store.\<close>

lemma set_fields [simp]:
  "rb_key (set_left a x h) = rb_key h" "rb_left (set_left a x h) = (rb_left h)(a := x)"
  "rb_right (set_left a x h) = rb_right h" "rb_parent (set_left a x h) = rb_parent h"
  "rb_red (set_left a x h) = rb_red h" "rb_root (set_left a x h) = rb_root h"
  "rb_sentinel (set_left a x h) = rb_sentinel h" "rb_key (set_right a x h) = rb_key h"
  "rb_left (set_right a x h) = rb_left h" "rb_right (set_right a x h) = (rb_right h)(a := x)"
  "rb_parent (set_right a x h) = rb_parent h" "rb_red (set_right a x h) = rb_red h"
  "rb_root (set_right a x h) = rb_root h" "rb_sentinel (set_right a x h) = rb_sentinel h"
  "rb_key (set_parent a x h) = rb_key h" "rb_left (set_parent a x h) = rb_left h"
  "rb_right (set_parent a x h) = rb_right h" "rb_parent (set_parent a x h) = (rb_parent h)(a := x)"
  "rb_red (set_parent a x h) = rb_red h" "rb_root (set_parent a x h) = rb_root h"
  "rb_sentinel (set_parent a x h) = rb_sentinel h" "rb_key (set_color a c h) = rb_key h"
  "rb_left (set_color a c h) = rb_left h" "rb_right (set_color a c h) = rb_right h"
  "rb_parent (set_color a c h) = rb_parent h" "rb_red (set_color a c h) = (rb_red h)(a := c)"
  "rb_root (set_color a c h) = rb_root h" "rb_sentinel (set_color a c h) = rb_sentinel h"
  "rb_key (set_key a k h) = (rb_key h)(a := k)" "rb_left (set_key a k h) = rb_left h"
  "rb_right (set_key a k h) = rb_right h" "rb_parent (set_key a k h) = rb_parent h"
  "rb_red (set_key a k h) = rb_red h" "rb_root (set_key a k h) = rb_root h"
  "rb_sentinel (set_key a k h) = rb_sentinel h" "rb_key (set_root x h) = rb_key h"
  "rb_left (set_root x h) = rb_left h" "rb_right (set_root x h) = rb_right h"
  "rb_parent (set_root x h) = rb_parent h" "rb_red (set_root x h) = rb_red h"
  "rb_root (set_root x h) = x" "rb_sentinel (set_root x h) = rb_sentinel h"
  by (simp_all add: set_defs set_key_def)

lemma color_fields [simp]:
  "rb_key (ngx_rbt_black a h) = rb_key h" "rb_key (ngx_rbt_red a h) = rb_key h"
  "rb_key (ngx_rbt_copy_color a b h) = rb_key h"
  "rb_left (ngx_rbt_black a h) = rb_left h" "rb_left (ngx_rbt_red a h) = rb_left h"
  "rb_left (ngx_rbt_copy_color a b h) = rb_left h"
  "rb_right (ngx_rbt_black a h) = rb_right h" "rb_right (ngx_rbt_red a h) = rb_right h"
  "rb_right (ngx_rbt_copy_color a b h) = rb_right h"
  "rb_parent (ngx_rbt_black a h) = rb_parent h" "rb_parent (ngx_rbt_red a h) = rb_parent h"
  "rb_parent (ngx_rbt_copy_color a b h) = rb_parent h"
  "rb_red (ngx_rbt_black a h) = (rb_red h)(a := False)" "rb_red (ngx_rbt_red a h) = (rb_red h)(a := True)"
  "rb_red (ngx_rbt_copy_color a b h) = (rb_red h)(a := rb_red h b)"
  "rb_root (ngx_rbt_black a h) = rb_root h" "rb_root (ngx_rbt_red a h) = rb_root h"
  "rb_root (ngx_rbt_copy_color a b h) = rb_root h"
  "rb_sentinel (ngx_rbt_black a h) = rb_sentinel h" "rb_sentinel (ngx_rbt_red a h) = rb_sentinel h"
  "rb_sentinel (ngx_rbt_copy_color a b h) = rb_sentinel h"
  by (simp_all add: ngx_rbt_black_def ngx_rbt_red_def ngx_rbt_copy_color_def)

section \<open>The mirror image\<close>

text \<open>
  The code has each case twice, with left and right exchanged. Exchanging them in the store, in the
  tree and in the context turns one into the other.
\<close>

definition mirror :: "rbtree \<Rightarrow> rbtree" where
  "mirror h = h\<lparr>rb_left := rb_right h, rb_right := rb_left h\<rparr>"

lemma mirror_fields [simp]:
  "rb_left (mirror h) = rb_right h" "rb_right (mirror h) = rb_left h" "rb_parent (mirror h) = rb_parent h"
  "rb_red (mirror h) = rb_red h" "rb_key (mirror h) = rb_key h" "rb_root (mirror h) = rb_root h"
  "rb_sentinel (mirror h) = rb_sentinel h"
  by (simp_all add: mirror_def)

lemma mirror_mirror [simp]: "mirror (mirror h) = h"
  by (simp add: mirror_def)

lemma mirror_set [simp]:
  "mirror (set_left a x h) = set_right a x (mirror h)" "mirror (set_right a x h) = set_left a x (mirror h)"
  "mirror (set_parent a x h) = set_parent a x (mirror h)" "mirror (set_root x h) = set_root x (mirror h)"
  "mirror (set_color a c h) = set_color a c (mirror h)"
  "mirror (ngx_rbt_black a h) = ngx_rbt_black a (mirror h)" "mirror (ngx_rbt_red a h) = ngx_rbt_red a (mirror h)"
  "mirror (ngx_rbt_copy_color a b h) = ngx_rbt_copy_color a b (mirror h)"
  by (simp_all add: mirror_def set_defs ngx_rbt_black_def ngx_rbt_red_def ngx_rbt_copy_color_def)

definition rot_right_links :: "addr \<Rightarrow> rbtree \<Rightarrow> rbtree" where
  "rot_right_links node h0 =
     (let temp = rb_left h0 node;
          h1 = set_left node (rb_right h0 temp) h0;
          h2 = (if rb_right h1 temp \<noteq> rb_sentinel h1 then set_parent (rb_right h1 temp) node h1 else h1)
      in set_parent temp (rb_parent h2 node) h2)"

lemma right_rotate_replace:
  "ngx_rbtree_right_rotate a h =
     set_parent a (rb_left h a) (set_right (rb_left h a) a
       (rb_replace_mirror a (rb_left h a) (rot_right_links a h)))"
  unfolding ngx_rbtree_right_rotate_def rot_right_links_def rb_replace_mirror_def Let_def by (rule refl)

lemma mirror_links: "rot_right_links a (mirror h) = mirror (rot_left_links a h)"
  by (cases "a = rb_right h a") (simp_all add: rot_left_links_def rot_right_links_def Let_def)

lemma mirror_replace: "rb_replace_mirror a b (mirror h) = mirror (rb_replace a b h)"
  by (simp add: rb_replace_def rb_replace_mirror_def)

lemma mirror_left_rotate: "mirror (ngx_rbtree_left_rotate a h) = ngx_rbtree_right_rotate a (mirror h)"
  by (simp add: left_rotate_replace right_rotate_replace mirror_links mirror_replace)

lemma mirror_right_rotate: "mirror (ngx_rbtree_right_rotate a h) = ngx_rbtree_left_rotate a (mirror h)"
  using mirror_left_rotate[of a "mirror h"] by (metis mirror_mirror)

lemmas mirror_out = mirror_left_rotate[symmetric] mirror_right_rotate[symmetric] mirror_set[symmetric]

fun mirror_t :: "rbt \<Rightarrow> rbt" where
  "mirror_t RE = RE"
| "mirror_t (RT c l a r) = RT c (mirror_t r) a (mirror_t l)"

fun mirror_f :: "frame \<Rightarrow> frame" where
  "mirror_f (FL c a r) = FR c (mirror_t r) a"
| "mirror_f (FR c l a) = FL c a (mirror_t l)"

abbreviation mirror_c :: "frame list \<Rightarrow> frame list" where
  "mirror_c \<equiv> map mirror_f"

lemma mirror_t_mirror [simp]: "mirror_t (mirror_t t) = t"
  by (induction t) auto

lemma mirror_f_mirror [simp]: "mirror_f (mirror_f f) = f"
  by (cases f) auto

lemma mirror_c_mirror [simp]: "mirror_c (mirror_c C) = C"
  by (simp add: map_idI)

lemma nodes_mirror [simp]: "nodes (mirror_t t) = rev (nodes t)"
  by (induction t) auto

lemma plug_mirror: "plug (mirror_t t) (mirror_c C) = mirror_t (plug t C)"
  by (induction t C rule: plug.induct) auto

lemma ptr_mirror [simp]: "ptr (mirror h) (mirror_t t) = ptr h t" 
  by (cases t) auto

lemma shape_mirror [simp]: "shape (mirror h) par (mirror_t t) = shape h par t"
  by (induction t arbitrary: par) auto

lemma ctx_mirror [simp]: "ctx (mirror h) par x (mirror_c C) = ctx h par x C"
  by (induction h par x C rule: ctx.induct) auto

lemma rep_mirror: "rep (mirror h) (mirror_t t) (mirror_c C) = rep h t C"
  unfolding rep_def plug_mirror nodes_mirror by (simp del: nodes_plug)

lemma rep_right_rotate:
  assumes "rep h (RT c (RT d l b m) a r) C"
  shows "rep (ngx_rbtree_right_rotate a h) (RT d l b (RT c m a r)) C"
    and "rb_key (ngx_rbtree_right_rotate a h) = rb_key h" "rb_red (ngx_rbtree_right_rotate a h) = rb_red h"
    and "rb_sentinel (ngx_rbtree_right_rotate a h) = rb_sentinel h"
    and "rb_parent (ngx_rbtree_right_rotate a h) (rb_sentinel h) = rb_parent h (rb_sentinel h)"
proof -
  have r: "rep (mirror h) (RT c (mirror_t r) a (RT d (mirror_t m) b (mirror_t l))) (mirror_c C)"
    using rep_mirror[of h "RT c (RT d l b m) a r" C] assms by simp
  have eq: "ngx_rbtree_right_rotate a h = mirror (ngx_rbtree_left_rotate a (mirror h))"
    by (simp add: mirror_left_rotate)
  show "rep (ngx_rbtree_right_rotate a h) (RT d l b (RT c m a r)) C"
    using rep_mirror[of "mirror (ngx_rbtree_left_rotate a (mirror h))" "RT d l b (RT c m a r)" C] rep_left_rotate(1)[OF r]
    by (simp add: eq)
  show "rb_key (ngx_rbtree_right_rotate a h) = rb_key h" "rb_red (ngx_rbtree_right_rotate a h) = rb_red h"
    "rb_sentinel (ngx_rbtree_right_rotate a h) = rb_sentinel h"
    "rb_parent (ngx_rbtree_right_rotate a h) (rb_sentinel h) = rb_parent h (rb_sentinel h)"
    unfolding eq using rep_left_rotate(2-5)[OF r] by simp_all
qed

section \<open>Colors\<close>

lemma rep_recolor:
  assumes "rep h (RT c l a r) C"
  shows "rep (set_color a d h) (RT d l a r) C"
proof -
  obtain par where c: "ctx h par a C" and s: "shape h par (RT c l a r)"
    and dist: "distinct (before C @ nodes (RT c l a r) @ after C)"
    using assms by (auto simp: rep_def)
  have sen: "rb_sentinel (set_color a d h) = rb_sentinel h" by (simp add: set_defs)
  have same: "same_at h (set_color a d h) x" if "x \<noteq> a" for x using that by (simp add: same_at_def set_defs)
  have "ctx (set_color a d h) par a C"
    using dist by (intro ctx_cong[OF c sen _ same]) (auto simp: set_defs)
  moreover have "shape (set_color a d h) a l" "shape (set_color a d h) a r"
    using s dist by (auto intro!: shape_cong[OF _ sen same])
  ultimately show ?thesis
    using s dist unfolding rep_def by (auto simp: ptr_cong[OF sen])
qed

lemma rep_recolor_left:
  "rep h (RT c (RT d l b m) a r) C \<Longrightarrow> rep (set_color b e h) (RT c (RT e l b m) a r) C"
  using rep_recolor[of h d l b m "FL c a r # C" e] by (simp add: rep_up)

lemma rep_recolor_right:
  "rep h (RT c l a (RT d m b r)) C \<Longrightarrow> rep (set_color b e h) (RT c l a (RT e m b r)) C"
  using rep_recolor[of h d m b r "FR c l a # C" e] by (simp add: rep_up)

text \<open>Reading the parent of a node that is not at the top.\<close>

lemma rep_parent:
  assumes "rep h t (FL c a r # C) \<or> rep h t (FR c r a # C)" "t \<noteq> RE"
  shows "rb_parent h (ptr h t) = a"
  using assms rep_kids[of h c t a r C] rep_kids[of h c r a t C] by (auto simp: rep_up)

fun red_frame :: "frame \<Rightarrow> bool" where
  "red_frame (FL c a r) = c"
| "red_frame (FR c l a) = c"

fun frame_addr :: "frame \<Rightarrow> addr" where
  "frame_addr (FL c a r) = a"
| "frame_addr (FR c l a) = a"

lemma rep_frame:
  assumes "rep h t (f # C)" "t \<noteq> RE"
  shows "rb_parent h (ptr h t) = frame_addr f" "rb_red h (frame_addr f) = red_frame f"
  using assms rep_parent[of h t] rep_node(3)[of h _ t _ _ C] rep_node(3)[of h _ _ _ t C]
  by (cases f; auto simp: rep_up)+

text \<open>On which side of its parent a subtree hangs.\<close>

lemma rep_side:
  assumes "rep h t (f # C)"
  shows "ptr h t = rb_left h (frame_addr f) \<longleftrightarrow> (t = RE \<and> rb_left h (frame_addr f) = rb_sentinel h) \<or> (\<exists>c a r. f = FL c a r)"
proof (cases f)
  case (FL c a r)
  with assms rep_node(1)[of h c t a r C] show ?thesis by (auto simp: rep_up)
next
  case (FR c l a)
  have "rb_left h a = ptr h l" using assms FR rep_node(1)[of h c l a t C] by (simp add: rep_up)
  moreover have "t \<noteq> RE \<Longrightarrow> ptr h t \<noteq> ptr h l"
    using rep_distinct[OF assms] rep_nodes(1)[OF assms, of "ptr h t"] ptr_in[of t h] ptr_in[of l h] FR
    by (cases l) auto
  ultimately show ?thesis using FR by (cases t) auto
qed

section \<open>Balance\<close>

text \<open>A red-black tree of black height \<open>n\<close>, and a context that takes one with a black root.\<close>

fun rb :: "rbt \<Rightarrow> nat \<Rightarrow> bool" where
  "rb RE n \<longleftrightarrow> n = 0"
| "rb (RT True l a r) n \<longleftrightarrow> rb l n \<and> rb r n \<and> \<not> is_red l \<and> \<not> is_red r"
| "rb (RT False l a r) 0 \<longleftrightarrow> False"
| "rb (RT False l a r) (Suc n) \<longleftrightarrow> rb l n \<and> rb r n"

definition balanced :: "rbt \<Rightarrow> bool" where
  "balanced t \<longleftrightarrow> \<not> is_red t \<and> (\<exists>n. rb t n)"

fun rbc :: "frame list \<Rightarrow> nat \<Rightarrow> bool \<Rightarrow> bool" where
  "rbc [] n red \<longleftrightarrow> \<not> red"
| "rbc (FL True a s # C) n red \<longleftrightarrow> rb s n \<and> \<not> red \<and> \<not> is_red s \<and> rbc C n True"
| "rbc (FL False a s # C) n red \<longleftrightarrow> rb s n \<and> rbc C (Suc n) False"
| "rbc (FR True s a # C) n red \<longleftrightarrow> rb s n \<and> \<not> red \<and> \<not> is_red s \<and> rbc C n True"
| "rbc (FR False s a # C) n red \<longleftrightarrow> rb s n \<and> rbc C (Suc n) False"

lemma rbc_mono: "rbc C n red \<Longrightarrow> rbc C n False"
  by (cases "(C, n, red)" rule: rbc.cases) auto

lemma rb_black: "rb (RT False l a r) n \<longleftrightarrow> (\<exists>m. n = Suc m \<and> rb l m \<and> rb r m)"
  by (cases n) auto

lemma rb_RT: "rb (RT c l a r) n \<longleftrightarrow> (if c then rb l n \<and> rb r n \<and> \<not> is_red l \<and> \<not> is_red r else \<exists>m. n = Suc m \<and> rb l m \<and> rb r m)"
  using rb_black by (cases c) auto

lemma balanced_plug: "balanced (plug t C) \<longleftrightarrow> (\<exists>n. rb t n \<and> rbc C n (is_red t))"
proof (induction t C rule: plug.induct)
  case (1 t)
  then show ?case by (auto simp: balanced_def)
next
  case (2 t c a r C)
  then show ?case by (cases c) (auto simp: rb_RT)
next
  case (3 t c l a C)
  then show ?case by (cases c) (auto simp: rb_RT)
qed

lemma rb_mirror [simp]: "rb (mirror_t t) n = rb t n" and is_red_mirror [simp]: "is_red (mirror_t t) = is_red t"
proof -
  have red: "is_red (mirror_t t) = is_red t" for t by (cases t) auto
  show "rb (mirror_t t) n = rb t n" by (induction t n rule: rb.induct) (auto simp: red)
  show "is_red (mirror_t t) = is_red t" by (rule red)
qed

lemma rbc_mirror [simp]: "rbc (mirror_c C) n red = rbc C n red"
  by (induction C n red rule: rbc.induct) auto

text \<open>The height of a balanced tree is logarithmic in the number of its nodes.\<close>

fun rheight :: "rbt \<Rightarrow> nat" where
  "rheight RE = 0"
| "rheight (RT c l a r) = Suc (max (rheight l) (rheight r))"

lemma rb_height: "rb t n \<Longrightarrow> rheight t \<le> 2 * n + (if is_red t then 1 else 0)"
proof (induction t n rule: rb.induct)
  case (2 l a r n)
  then show ?case by auto
next
  case (4 l a r n)
  then have "rheight l \<le> 2 * n + 1" "rheight r \<le> 2 * n + 1" by (auto split: if_splits)
  then show ?case by simp
qed auto

lemma rb_size: "rb t n \<Longrightarrow> 2 ^ n \<le> length (nodes t) + 1"
  by (induction t n rule: rb.induct) auto

end
