(* ===== verification/Ngx_Rbtree_Insert.thy ===== *)
theory Ngx_Rbtree_Insert
  imports Ngx_Rbtree_Shape
begin

text \<open>
  Insertion into the red-black tree: the search for the place, the node attached there, and the loop
  that restores the balance return a balanced tree with the new node at its place in the order and
  all other nodes as they were.
\<close>

section \<open>The loop that re-balances\<close>

text \<open>
  The state of the loop: the node is red, everything else is balanced, and only the node's parent
  may be red too.
\<close>

definition ins_inv :: "rbtree \<Rightarrow> addr \<Rightarrow> frame list \<Rightarrow> addr list \<Rightarrow> (addr \<Rightarrow> rb_key) \<Rightarrow> addr \<Rightarrow> bool" where
  "ins_inv h z D ns k s \<longleftrightarrow>
     (\<exists>a b m. rep h (RT True a z b) D \<and> rb (RT True a z b) m \<and> rbc D m False \<and>
        before D @ nodes a @ z # nodes b @ after D = ns) \<and>
     rb_key h = k \<and> rb_sentinel h = s \<and> \<not> rb_red h s"

lemma ins_invI:
  "rep h (RT True a z b) D \<Longrightarrow> rb (RT True a z b) m \<Longrightarrow> rbc D m False \<Longrightarrow>
     before D @ nodes a @ z # nodes b @ after D = ns \<Longrightarrow> rb_key h = k \<Longrightarrow> rb_sentinel h = s \<Longrightarrow> \<not> rb_red h s \<Longrightarrow>
     ins_inv h z D ns k s"
  unfolding ins_inv_def by blast

lemmas rb_colors = ngx_rbt_black_def ngx_rbt_red_def ngx_rbt_copy_color_def

text \<open>A red uncle: three nodes change color and the grandparent is the next node.\<close>

lemma insert_left_red:
  assumes "rep h (RT False (RT True t1 p t2) g (RT True ul ua ur)) C" "rb_parent h z = p"
  shows "\<exists>h'. rb_insert_left z h = (g, h') \<and> rep h' (RT True (RT False t1 p t2) g (RT False ul ua ur)) C \<and>
    rb_key h' = rb_key h \<and> rb_sentinel h' = rb_sentinel h \<and> (rb_red h' (rb_sentinel h) \<longrightarrow> rb_red h (rb_sentinel h))"
proof -
  let ?h1 = "set_color p False h" and ?h2 = "set_color ua False (set_color p False h)"
  have g: "rb_parent h p = g" "rb_right h g = ua" "rb_red h ua" "g \<noteq> rb_sentinel h"
    using rep_kids[OF assms(1)] rep_node[OF assms(1)] rep_node[of h True ul ua ur "FR False (RT True t1 p t2) g # C"] assms(1)
    by (simp_all add: rep_up)
  have eq: "rb_insert_left z h = (g, set_color g True ?h2)"
    using g assms(2) by (simp add: rb_insert_left_def Let_def rb_colors)
  have "rep (set_color g True ?h2) (RT True (RT False t1 p t2) g (RT False ul ua ur)) C"
    by (rule rep_recolor rep_recolor_right rep_recolor_left assms)+
  with eq g show ?thesis by auto
qed

text \<open>
  A black uncle: the node, which may first have moved to the other side by a rotation, hangs below
  its parent, which takes the place of the grandparent.
\<close>

lemma insert_left_outer:
  assumes "rep h (RT False (RT True (RT True l z r) p s) g u) C" "\<not> rb_red h (rb_sentinel h)" "\<not> is_red u"
  shows "\<exists>h'. rb_insert_left z h = (z, h') \<and> rep h' (RT False (RT True l z r) p (RT True s g u)) C \<and>
    rb_key h' = rb_key h \<and> rb_sentinel h' = rb_sentinel h \<and> rb_red h' (rb_sentinel h) = rb_red h (rb_sentinel h)"
proof -
  have z: "rep h (RT True l z r) (FL True p s # FL False g u # C)" using assms(1) by (simp add: rep_up)
  have p: "rb_parent h z = p" "rb_right h p = ptr h s" "rb_parent h p = g" "rb_right h g = ptr h u"
    using rep_parent[OF disjI1, OF z] rep_node[of h True "RT True l z r" p s "FL False g u # C"]
      rep_kids[OF assms(1)] rep_node[OF assms(1)] assms(1) by (simp_all add: rep_up)
  have "ptr h s \<noteq> z"
    using rep_distinct[OF assms(1)] rep_node(4)[OF z] ptr_in[of s h] by (cases s) auto
  have u: "\<not> rb_red h (ptr h u)"
    using rep_red[of h u "FR False (RT True (RT True l z r) p s) g # C"] assms by (simp add: rep_up)
  let ?h = "set_color g True (set_color p False h)"
  have eq: "rb_insert_left z h = (z, ngx_rbtree_right_rotate g ?h)"
    using p u \<open>ptr h s \<noteq> z\<close> by (simp add: rb_insert_left_def Let_def rb_colors)
  have "rep (set_color p False h) (RT False (RT False (RT True l z r) p s) g u) C"
    using rep_recolor_left[OF assms(1)] .
  from rep_recolor[OF this, of True] have r: "rep ?h (RT True (RT False (RT True l z r) p s) g u) C" .
  have "g \<noteq> rb_sentinel h" "p \<noteq> rb_sentinel h" using rep_nodes(1)[OF assms(1)] by auto
  with rep_right_rotate[OF r] eq show ?thesis by auto
qed

lemma insert_left_inner:
  assumes "rep h (RT False (RT True s p (RT True l z r)) g u) C" "\<not> rb_red h (rb_sentinel h)" "\<not> is_red u"
  shows "\<exists>h'. rb_insert_left z h = (p, h') \<and> rep h' (RT False (RT True s p l) z (RT True r g u)) C \<and>
    rb_key h' = rb_key h \<and> rb_sentinel h' = rb_sentinel h \<and> rb_red h' (rb_sentinel h) = rb_red h (rb_sentinel h)"
proof -
  have z: "rep h (RT True l z r) (FR True s p # FL False g u # C)" using assms(1) by (simp add: rep_up)
  have p: "rb_parent h z = p" "rb_right h p = z" "rb_parent h p = g" "rb_right h g = ptr h u"
    using rep_parent[OF disjI2, OF z] rep_node[of h True s p "RT True l z r" "FL False g u # C"]
      rep_kids[OF assms(1)] rep_node[OF assms(1)] assms(1) by (simp_all add: rep_up)
  have u: "\<not> rb_red h (ptr h u)"
    using rep_red[of h u "FR False (RT True s p (RT True l z r)) g # C"] assms by (simp add: rep_up)
  let ?h1 = "ngx_rbtree_left_rotate p h"
  have r0: "rep h (RT True s p (RT True l z r)) (FL False g u # C)" using assms(1) by (simp add: rep_up)
  note rot = rep_left_rotate[OF r0]
  have r1: "rep ?h1 (RT False (RT True (RT True s p l) z r) g u) C" using rot(1) by (simp add: rep_up)
  have q: "rb_parent ?h1 p = z" "rb_parent ?h1 z = g"
    using rep_parent[OF disjI1, of ?h1 "RT True s p l" True z r "FL False g u # C"] rep_kids[OF r1] rot(1)
    by (simp_all add: rep_up)
  have eq: "rb_insert_left z h = (p, ngx_rbtree_right_rotate g (set_color g True (set_color z False ?h1)))"
    using p q u by (simp add: rb_insert_left_def Let_def rb_colors)
  from rep_recolor[OF rep_recolor_left[OF r1], of True]
  have r: "rep (set_color g True (set_color z False ?h1)) (RT True (RT False (RT True s p l) z r) g u) C" .
  have "g \<noteq> rb_sentinel h" "z \<noteq> rb_sentinel h" using rep_nodes(1)[OF assms(1)] by auto
  with rep_right_rotate[OF r] eq rot(2-4) show ?thesis by auto
qed

lemma insert_left_step:
  assumes "ins_inv h z (f # FL False g u # C) ns k s" "red_frame f"
  shows "\<exists>z' h' D. rb_insert_left z h = (z', h') \<and> ins_inv h' z' D ns k s \<and> length D < length C + 2"
proof -
  obtain l r m where rep: "rep h (RT True l z r) (f # FL False g u # C)" and m: "rb l m" "rb r m" "\<not> is_red l" "\<not> is_red r"
    and c: "rbc (f # FL False g u # C) m False"
    and ns: "before (f # FL False g u # C) @ nodes l @ z # nodes r @ after (f # FL False g u # C) = ns"
    and k: "rb_key h = k" "rb_sentinel h = s" "\<not> rb_red h s"
    using assms(1) by (auto simp: ins_inv_def)
  obtain p t where f: "f = FL True p t \<or> f = FR True t p" using assms(2) by (cases f) auto
  have t: "rb t m" "\<not> is_red t" "rb u m" "rbc C (Suc m) False" using f c by auto
  have parent: "rb_parent h z = p"
    using f rep rep_parent[of h "RT True l z r" True p t "FL False g u # C"] by auto
  show ?thesis
  proof (cases "is_red u")
    case True
    then obtain ul ua ur where u: "u = RT True ul ua ur" by (cases u) auto
    define t1 where "t1 = (if f = FL True p t then RT True l z r else t)"
    define t2 where "t2 = (if f = FL True p t then t else RT True l z r)"
    have p: "rep h (RT False (RT True t1 p t2) g (RT True ul ua ur)) C"
      using f rep u by (auto simp: t1_def t2_def rep_up)
    have n: "nodes t1 @ p # nodes t2 = (case f of FL c a w \<Rightarrow> nodes l @ z # nodes r @ p # nodes t | FR c q a \<Rightarrow> nodes t @ p # nodes l @ z # nodes r)"
      using f by (auto simp: t1_def t2_def)
    have b: "rb t1 m" "rb t2 m" using m t by (auto simp: t1_def t2_def)
    obtain h' where h': "rb_insert_left z h = (g, h')" "rep h' (RT True (RT False t1 p t2) g (RT False ul ua ur)) C"
        "rb_key h' = rb_key h" "rb_sentinel h' = rb_sentinel h" "rb_red h' (rb_sentinel h) \<longrightarrow> rb_red h (rb_sentinel h)"
      using insert_left_red[OF p parent] by blast
    have "ins_inv h' g C ns k s"
      using h' k b t ns n f u by (intro ins_invI[OF h'(2), of "Suc m"]) auto
    with h'(1) show ?thesis by fastforce
  next
    case False
    show ?thesis using f
    proof
      assume fl: "f = FL True p t"
      from insert_left_outer[of h l z r p t g u C] rep k fl False obtain h' where
        h': "rb_insert_left z h = (z, h')" "rep h' (RT True l z r) (FL False p (RT True t g u) # C)"
          "rb_key h' = rb_key h" "rb_sentinel h' = rb_sentinel h" "rb_red h' (rb_sentinel h) = rb_red h (rb_sentinel h)"
        by (auto simp: rep_up)
      have "ins_inv h' z (FL False p (RT True t g u) # C) ns k s"
        using h'(3-5) k m t ns fl False by (intro ins_invI[OF h'(2), of m]) auto
      with h'(1) show ?thesis by fastforce
    next
      assume fr: "f = FR True t p"
      from insert_left_inner[of h t p l z r g u C] rep k fr False obtain h' where
        h': "rb_insert_left z h = (p, h')" "rep h' (RT True t p l) (FL False z (RT True r g u) # C)"
          "rb_key h' = rb_key h" "rb_sentinel h' = rb_sentinel h" "rb_red h' (rb_sentinel h) = rb_red h (rb_sentinel h)"
        by (auto simp: rep_up)
      have "ins_inv h' p (FL False z (RT True r g u) # C) ns k s"
        using h'(3-5) k m t ns fr False by (intro ins_invI[OF h'(2), of m]) auto
      with h'(1) show ?thesis by fastforce
    qed
  qed
qed

text \<open>The other side, by the mirror image.\<close>

lemma mirror_insert: "rb_insert_right z (mirror h) = map_prod id mirror (rb_insert_left z h)"
  by (simp add: rb_insert_left_def rb_insert_right_def Let_def mirror_out del: mirror_set)

lemma before_mirror [simp]: "before (mirror_c C) = rev (after C)" and after_mirror [simp]: "after (mirror_c C) = rev (before C)"
  by (induction C rule: before.induct) auto

lemma ins_inv_mirror: "ins_inv h z D ns k s \<Longrightarrow> ins_inv (mirror h) z (mirror_c D) (rev ns) k s"
  unfolding ins_inv_def
proof (elim conjE exE, intro conjI)
  fix a b m
  assume "rep h (RT True a z b) D" "rb (RT True a z b) m" "rbc D m False" "before D @ nodes a @ z # nodes b @ after D = ns"
  thus "\<exists>a b m. rep (mirror h) (RT True a z b) (mirror_c D) \<and> rb (RT True a z b) m \<and> rbc (mirror_c D) m False \<and>
     before (mirror_c D) @ nodes a @ z # nodes b @ after (mirror_c D) = rev ns"
    using rep_mirror[of h "RT True a z b" D] by (intro exI[of _ "mirror_t b"] exI[of _ "mirror_t a"] exI[of _ m]) auto
qed auto

lemma insert_right_step:
  assumes "ins_inv h z (f # FR False u g # C) ns k s" "red_frame f"
  shows "\<exists>z' h' D. rb_insert_right z h = (z', h') \<and> ins_inv h' z' D ns k s \<and> length D < length C + 2"
proof -
  have "ins_inv (mirror h) z (mirror_f f # FL False g (mirror_t u) # mirror_c C) (rev ns) k s"
    using ins_inv_mirror[OF assms(1)] by simp
  moreover have "red_frame (mirror_f f)" using assms(2) by (cases f) auto
  ultimately obtain z' h' D where *: "rb_insert_left z (mirror h) = (z', h')" "ins_inv h' z' D (rev ns) k s" "length D < length C + 2"
    using insert_left_step by fastforce
  have "rb_insert_right z h = (z', mirror h')" using mirror_insert[of z "mirror h"] *(1) by simp
  moreover have "ins_inv (mirror h') z' (mirror_c D) ns k s" using ins_inv_mirror[OF *(2)] by simp
  ultimately show ?thesis using *(3) by (metis length_map)
qed

text \<open>One pass of the loop.\<close>

lemma insert_step:
  assumes "ins_inv h z (f # g # C) ns k s" "red_frame f"
  shows "\<exists>z' h' E. (if rb_parent h z = rb_left h (rb_parent h (rb_parent h z)) then rb_insert_left z h else rb_insert_right z h) = (z', h') \<and>
    ins_inv h' z' E ns k s \<and> length E < length C + 2"
proof -
  obtain l r m where rep: "rep h (RT True l z r) (f # g # C)" and c: "rbc (f # g # C) m False"
    using assms(1) by (auto simp: ins_inv_def)
  let ?t = "plug (RT True l z r) [f]"
  have R: "rep h ?t (g # C)" and t: "?t \<noteq> RE" "ptr h ?t = frame_addr f"
    using rep by (cases f; auto simp: rep_up)+
  have p: "rb_parent h z = frame_addr f" "rb_parent h (frame_addr f) = frame_addr g"
    using rep_frame(1)[OF rep] rep_frame(1)[OF R] t by simp_all
  have "\<not> red_frame g" using c assms(2) by (cases f; cases g) (auto elim: rbc.elims)
  show ?thesis
  proof (cases g)
    case (FL cg a u)
    with insert_left_step[of h z f a u C ns k s] assms rep_side[OF R] p t \<open>\<not> red_frame g\<close> show ?thesis by auto
  next
    case (FR cg u a)
    with insert_right_step[of h z f u a C ns k s] assms rep_side[OF R] p t \<open>\<not> red_frame g\<close> show ?thesis by auto
  qed
qed

section \<open>The abstraction\<close>

text \<open>
  What the store stands for: the sequence of the tree's nodes in order. \<open>rb_tree h ns\<close> holds when
  the pointers form a balanced tree with these nodes.
\<close>

definition rb_tree :: "rbtree \<Rightarrow> addr list \<Rightarrow> bool" where
  "rb_tree h ns \<longleftrightarrow> (\<exists>t. rep h t [] \<and> balanced t \<and> nodes t = ns) \<and> \<not> rb_red h (rb_sentinel h)"

lemma rb_treeI:
  assumes "rep h t C" "rb t n" "rbc C n (is_red t)" "before C @ nodes t @ after C = ns" "\<not> rb_red h (rb_sentinel h)"
  shows "rb_tree h ns"
  unfolding rb_tree_def using assms balanced_plug[of t C] rep_plug[of h t C] by auto

text \<open>Blackening the root of a tree that may have a red one.\<close>

lemma rb_tree_blacken:
  assumes "rep h (RT c l a r) []" "rb (RT c l a r) n" "\<not> rb_red h (rb_sentinel h)"
  shows "rb_tree (ngx_rbt_black a h) (nodes (RT c l a r))"
proof -
  have "rb (RT False l a r) (if c then Suc n else n)" using assms(2) by (cases c) auto
  moreover have "a \<noteq> rb_sentinel h" using rep_node(4)[OF assms(1)] .
  ultimately show ?thesis
    using rep_recolor[OF assms(1), of False] assms(3)
    by (intro rb_treeI[where t = "RT False l a r" and C = "[]"]) (auto simp: rb_colors)
qed

lemma insert_fix:
  "ins_inv h z D ns k s \<Longrightarrow> \<exists>h'. rb_insert_fix z h = Some h' \<and> rb_tree h' ns \<and> rb_key h' = k \<and> rb_sentinel h' = s"
proof (induction "length D" arbitrary: h z D rule: less_induct)
  case less
  obtain l r m where rep: "rep h (RT True l z r) D" and m: "rb (RT True l z r) m" and c: "rbc D m False"
    and ns: "before D @ nodes l @ z # nodes r @ after D = ns" and k: "rb_key h = k" "rb_sentinel h = s" "\<not> rb_red h s"
    using less.prems by (auto simp: ins_inv_def)
  show ?case
  proof (cases D)
    case Nil
    hence "rb_root h = z" using rep_root[OF rep] by simp
    with rb_tree_blacken[of h True l z r m] rep m k ns Nil show ?thesis
      by (subst rb_insert_fix.simps) auto
  next
    case (Cons f D')
    have root: "z \<noteq> rb_root h" using rep_root[OF rep] Cons by auto
    have p: "rb_red h (rb_parent h z) = red_frame f" using rep_frame[of h "RT True l z r" f D'] rep Cons by simp
    show ?thesis
    proof (cases "red_frame f")
      case False
      obtain c' l' a' r' where top: "plug (RT True l z r) D = RT c' l' a' r'"
        by (cases "plug (RT True l z r) D") (use nodes_plug[of "RT True l z r" D] in auto)
      have R: "rep h (RT c' l' a' r') []" using rep top rep_plug[of h "RT True l z r" D] by simp
      have "rbc D m True" using c False Cons by (cases f) auto
      hence "balanced (RT c' l' a' r')" using balanced_plug[of "RT True l z r" D] m top by auto
      then obtain n where n: "rb (RT c' l' a' r') n" by (auto simp: balanced_def)
      have "rb_root h = a'" using rep_root[OF R] by simp
      moreover have "rb_tree (ngx_rbt_black a' h) ns"
        using rb_tree_blacken[OF R n] k ns nodes_plug[of "RT True l z r" D] top by simp
      ultimately show ?thesis
        using False p k by (subst rb_insert_fix.simps) simp
    next
      case True
      with c Cons obtain g C where D': "D' = g # C" by (cases f; cases D') auto
      obtain z' h' E where E: "(if rb_parent h z = rb_left h (rb_parent h (rb_parent h z)) then rb_insert_left z h else rb_insert_right z h) = (z', h')"
          "ins_inv h' z' E ns k s" "length E < length D"
        using insert_step[of h z f g C ns k s] less.prems True Cons D' by auto
      have "rb_insert_fix z h = rb_insert_fix z' h'"
        using root p True E(1) by (subst rb_insert_fix.simps) simp
      with less.hyps[OF E(3,2)] show ?thesis by simp
    qed
  qed
qed

section \<open>The search and the new node\<close>

lemma sorted_wrt_mid:
  "sorted_wrt R (xs @ (l @ a # r) @ ys) \<Longrightarrow> (\<forall>x\<in>set r. R a x) \<and> (\<forall>x\<in>set l. R x a)"
  by (auto simp: sorted_wrt_append)

lemma rb_descend_place:
  fixes P :: "addr \<Rightarrow> bool"
  assumes "rep h t C" "t \<noteq> RE" "\<And>a. P a = lt (rb_key h z) (rb_key h a)"
    "sorted_wrt (\<lambda>a b. P a \<longrightarrow> P b) (before C @ nodes t @ after C)"
    "\<forall>x\<in>set (before C). \<not> P x" "\<forall>x\<in>set (after C). P x"
  shows "\<exists>a go_left D. rb_descend lt h z (ptr h t) = Some (a, go_left) \<and> plug RE D = plug t C \<and>
    (\<exists>c s E. D = (if go_left then FL c a s # E else FR c s a # E)) \<and>
    (\<forall>x\<in>set (before D). \<not> P x) \<and> (\<forall>x\<in>set (after D). P x)"
  using assms
proof (induction t arbitrary: C)
  case (RT c l a r)
  note f = rep_node[OF RT.prems(1)]
  have mono: "P a \<Longrightarrow> \<forall>x\<in>set (nodes r). P x" "\<not> P a \<Longrightarrow> \<forall>x\<in>set (nodes l). \<not> P x"
    using sorted_wrt_mid[of _ "before C" "nodes l" a "nodes r" "after C"] RT.prems(4) unfolding nodes.simps by blast+
  show ?case
  proof (cases "P a")
    case True
    have up: "rep h l (FL c a r # C)" using RT.prems(1) by (simp add: rep_up)
    have ok: "\<forall>x\<in>set (before (FL c a r # C)). \<not> P x" "\<forall>x\<in>set (after (FL c a r # C)). P x"
        "sorted_wrt (\<lambda>a b. P a \<longrightarrow> P b) (before (FL c a r # C) @ nodes l @ after (FL c a r # C))"
      using RT.prems True mono by auto
    show ?thesis
    proof (cases "l = RE")
      case True
      with f \<open>P a\<close> RT.prems(3) ok show ?thesis
        by (subst rb_descend.simps) (intro exI[of _ a] exI[of _ True] exI[of _ "FL c a r # C"], simp)
    next
      case False
      moreover have "ptr h l \<noteq> rb_sentinel h" using False up ptr_neq_sentinel unfolding rep_def by blast
      ultimately show ?thesis
        using RT.IH(1)[OF up False RT.prems(3) ok(3,1,2)] f(1) \<open>P a\<close> RT.prems(3)
        by (subst rb_descend.simps) simp
    qed
  next
    case False
    have up: "rep h r (FR c l a # C)" using RT.prems(1) by (simp add: rep_up)
    have ok: "\<forall>x\<in>set (before (FR c l a # C)). \<not> P x" "\<forall>x\<in>set (after (FR c l a # C)). P x"
        "sorted_wrt (\<lambda>a b. P a \<longrightarrow> P b) (before (FR c l a # C) @ nodes r @ after (FR c l a # C))"
      using RT.prems False mono by auto
    show ?thesis
    proof (cases "r = RE")
      case True
      with f \<open>\<not> P a\<close> RT.prems(3) ok show ?thesis
        by (subst rb_descend.simps) (intro exI[of _ a] exI[of _ False] exI[of _ "FR c l a # C"], simp)
    next
      case False
      moreover have "ptr h r \<noteq> rb_sentinel h" using False up ptr_neq_sentinel unfolding rep_def by blast
      ultimately show ?thesis
        using RT.IH(2)[OF up False RT.prems(3) ok(3,1,2)] f(2) \<open>\<not> P a\<close> RT.prems(3)
        by (subst rb_descend.simps) simp
    qed
  qed
qed simp

text \<open>Attaching a fresh red node where the search ended.\<close>

lemma rb_attach_fields:
  "rb_key (rb_attach z a gl h) = rb_key h" "rb_sentinel (rb_attach z a gl h) = rb_sentinel h"
  "rb_root (rb_attach z a gl h) = rb_root h"
  "rb_parent (rb_attach z a gl h) = (rb_parent h)(z := a)" "rb_red (rb_attach z a gl h) = (rb_red h)(z := True)"
  "rb_left (rb_attach z a gl h) = (if gl then (rb_left h)(a := z) else rb_left h)(z := rb_sentinel h)"
  "rb_right (rb_attach z a gl h) = (if gl then rb_right h else (rb_right h)(a := z))(z := rb_sentinel h)"
  by (simp_all add: rb_attach_def Let_def)

lemma rep_attach:
  assumes "rep h RE D" "D = (if gl then FL c a s # E else FR c s a # E)" "z \<notin> set (before D @ after D)"
    "z \<noteq> rb_sentinel h" "z \<noteq> NULL"
  shows "rep (rb_attach z a gl h) (RT True RE z RE) D"
proof -
  let ?h = "rb_attach z a gl h"
  obtain par where c: "ctx h par (rb_sentinel h) D" and dist: "distinct (before D @ after D)"
    using assms(1) by (auto simp: rep_def)
  have za: "z \<noteq> a" using assms(2,3) by (auto split: if_splits)
  have "relinked h ?h D z"
    using assms(2) za by (simp add: relinked_def rb_attach_fields)
  moreover have "same_at h ?h x" if "x \<in> set (before D @ after D) - hole_parent D" for x
    using that assms(2,3) by (cases gl) (auto simp: same_at_def rb_attach_fields)
  ultimately have "ctx ?h par z D" using ctx_relinked[OF c _ dist] by blast
  moreover have "par = a" using c assms(2) by (auto split: if_splits)
  ultimately have "ctx ?h a z D \<and> shape ?h a (RT True RE z RE)"
    using assms(4,5) za by (simp add: rb_attach_fields)
  with dist assms(3) show ?thesis unfolding rep_def by auto
qed

section \<open>Insertion\<close>

text \<open>The place of a new key: behind all nodes that it is not less than.\<close>

definition rb_insert_place :: "(rb_key \<Rightarrow> rb_key \<Rightarrow> bool) \<Rightarrow> (addr \<Rightarrow> rb_key) \<Rightarrow> addr \<Rightarrow> addr list \<Rightarrow> addr list" where
  "rb_insert_place lt key z ns = filter (\<lambda>a. \<not> lt (key z) (key a)) ns @ z # filter (\<lambda>a. lt (key z) (key a)) ns"

definition rb_insert_with :: "(rb_key \<Rightarrow> rb_key \<Rightarrow> bool) \<Rightarrow> addr \<Rightarrow> addr \<Rightarrow> rbtree \<Rightarrow> rbtree option" where
  "rb_insert_with lt temp node h = do { (t, go_left) \<leftarrow> rb_descend lt h node temp; Some (rb_attach node t go_left h) }"

lemma insert_values:
  "ngx_rbtree_insert_value = rb_insert_with (<)" "ngx_rbtree_insert_timer_value = rb_insert_with timer_less"
  by (simp_all add: fun_eq_iff ngx_rbtree_insert_value_def ngx_rbtree_insert_timer_value_def rb_insert_with_def)

lemma rb_insert:
  assumes "rb_tree h ns" "z \<notin> set ns" "z \<noteq> rb_sentinel h" "z \<noteq> NULL"
    "sorted_wrt (\<lambda>a b. lt (rb_key h z) (rb_key h a) \<longrightarrow> lt (rb_key h z) (rb_key h b)) ns"
  shows "\<exists>h'. ngx_rbtree_insert (rb_insert_with lt) z h = Some h' \<and> rb_tree h' (rb_insert_place lt (rb_key h) z ns) \<and>
    rb_key h' = rb_key h \<and> rb_sentinel h' = rb_sentinel h"
proof -
  let ?P = "\<lambda>a. lt (rb_key h z) (rb_key h a)"
  obtain t where t: "rep h t []" "balanced t" "nodes t = ns" and s: "\<not> rb_red h (rb_sentinel h)"
    using assms(1) by (auto simp: rb_tree_def)
  have root: "rb_root h = ptr h t" using rep_root[OF t(1)] by simp
  show ?thesis
  proof (cases "t = RE")
    case True
    let ?h = "set_root z (ngx_rbt_black z (set_right z (rb_sentinel h) (set_left z (rb_sentinel h) (set_parent z NULL h))))"
    have "rep ?h (RT False RE z RE) []" using assms(3,4) by (auto simp: rep_def)
    hence "rb_tree ?h [z]" using s assms(3) by (intro rb_treeI[of _ "RT False RE z RE" "[]" 1]) auto
    with True root t(3) show ?thesis by (auto simp: ngx_rbtree_insert_def rb_insert_place_def)
  next
    case False
    have "ptr h t \<noteq> rb_sentinel h" using False t(1) ptr_neq_sentinel unfolding rep_def by blast
    from rb_descend_place[OF t(1) False, of ?P lt z] assms(5) t(3) obtain a gl D where
      D: "rb_descend lt h z (ptr h t) = Some (a, gl)" "plug RE D = t" "\<exists>c s E. D = (if gl then FL c a s # E else FR c s a # E)"
        "\<forall>x\<in>set (before D). \<not> ?P x" "\<forall>x\<in>set (after D). ?P x" by auto
    have ns: "before D @ after D = ns" using nodes_plug[of RE D] D(2) t(3) by simp
    hence place: "before D @ z # after D = rb_insert_place lt (rb_key h) z ns"
      using D(4,5) by (auto simp: rb_insert_place_def filter_empty_conv)
    have R: "rep h RE D" using rep_plug[of h RE D] D(2) t(1) by simp
    then have R': "rep (rb_attach z a gl h) (RT True RE z RE) D" using D(3) assms(2-4) ns rep_attach by blast
    moreover have "rbc D 0 False" using balanced_plug[of RE D] D(2) t(2) by auto
    ultimately have "ins_inv (rb_attach z a gl h) z D (rb_insert_place lt (rb_key h) z ns) (rb_key h) (rb_sentinel h)"
      using place s assms(3) by (intro ins_invI[OF R', of 0]) (auto simp: rb_attach_fields)
    from insert_fix[OF this] show ?thesis
      using D(1) root \<open>ptr h t \<noteq> rb_sentinel h\<close> by (simp add: ngx_rbtree_insert_def rb_insert_with_def)
  qed
qed

end
