(* ===== verification/Ngx_Rbtree_Delete.thy ===== *)
theory Ngx_Rbtree_Delete
  imports Ngx_Rbtree_Insert
begin

text \<open>
  Deletion from the red-black tree: the loop that restores the balance, the unlinking of a node with
  at most one child, and the move of the in-order successor into the place of a node with two.
\<close>

section \<open>The loop that re-balances\<close>

fun blacken :: "rbt \<Rightarrow> rbt" where
  "blacken RE = RE"
| "blacken (RT c l a r) = RT False l a r"

text \<open>
  The state of the loop: the subtree at \<open>temp\<close> is one black node short of what its context asks
  for, unless it is red, in which case coloring it black makes up for it. The parent pointer of
  \<open>temp\<close> is right even where \<open>temp\<close> is the sentinel.
\<close>

definition del_inv :: "rbtree \<Rightarrow> addr \<Rightarrow> frame list \<Rightarrow> addr list \<Rightarrow> (addr \<Rightarrow> rb_key) \<Rightarrow> addr \<Rightarrow> bool" where
  "del_inv h x D ns k s \<longleftrightarrow>
     (\<exists>t n. rep h t D \<and> ptr h t = x \<and> (if is_red t then rb (blacken t) (Suc n) else rb t n) \<and>
        rbc D (Suc n) False \<and> before D @ nodes t @ after D = ns) \<and>
     (D \<noteq> [] \<longrightarrow> rb_parent h x = frame_addr (hd D)) \<and> rb_key h = k \<and> rb_sentinel h = s \<and> \<not> rb_red h s"

lemma del_invI:
  "rep h t D \<Longrightarrow> ptr h t = x \<Longrightarrow> (if is_red t then rb (blacken t) (Suc n) else rb t n) \<Longrightarrow> rbc D (Suc n) False \<Longrightarrow>
     before D @ nodes t @ after D = ns \<Longrightarrow> (D \<noteq> [] \<Longrightarrow> rb_parent h x = frame_addr (hd D)) \<Longrightarrow>
     rb_key h = k \<Longrightarrow> rb_sentinel h = s \<Longrightarrow> \<not> rb_red h s \<Longrightarrow> del_inv h x D ns k s"
  unfolding del_inv_def by blast

definition del_measure :: "rbtree \<Rightarrow> addr \<Rightarrow> frame list \<Rightarrow> nat" where
  "del_measure h x D = 2 * length D + (if rb_red h x then 0 else 1)"

text \<open>The second half of a pass, where the sibling \<open>w\<close> is black.\<close>

definition rb_delete_left_rest :: "addr \<Rightarrow> addr \<Rightarrow> rbtree \<Rightarrow> addr \<times> rbtree" where
  "rb_delete_left_rest temp w h =
     (if \<not> rb_red h (rb_left h w) \<and> \<not> rb_red h (rb_right h w)
      then let h1 = ngx_rbt_red w h in (rb_parent h1 temp, h1)
      else let (w', h') = (if \<not> rb_red h (rb_right h w)
                           then let h1 = ngx_rbt_black (rb_left h w) h;
                                    h2 = ngx_rbt_red w h1;
                                    h3 = ngx_rbtree_right_rotate w h2
                                in (rb_right h3 (rb_parent h3 temp), h3)
                           else (w, h));
               h4 = ngx_rbt_copy_color w' (rb_parent h' temp) h';
               h5 = ngx_rbt_black (rb_parent h4 temp) h4;
               h6 = ngx_rbt_black (rb_right h5 w') h5;
               h7 = ngx_rbtree_left_rotate (rb_parent h6 temp) h6
           in (rb_root h7, h7))"

lemma delete_left_rest:
  "rb_delete_left temp h =
     (let w = rb_right h (rb_parent h temp) in
      if rb_red h w
      then let h1 = ngx_rbt_red (rb_parent h temp) (ngx_rbt_black w h);
               h3 = ngx_rbtree_left_rotate (rb_parent h temp) h1
           in rb_delete_left_rest temp (rb_right h3 (rb_parent h3 temp)) h3
      else rb_delete_left_rest temp w h)"
  by (simp add: rb_delete_left_def rb_delete_left_rest_def Let_def)

text \<open>The parent of the sentinel, or of a node of the tree, is left alone by a rotation elsewhere.\<close>

lemma rep_temp_parent:
  assumes "rep h t (f # C)" "rb_parent h (rb_sentinel h) = a \<or> t \<noteq> RE" "frame_addr f = a"
  shows "rb_parent h (ptr h t) = a"
  using assms rep_frame(1)[OF assms(1)] by (cases "t = RE") auto

lemma delete_recolor:
  assumes "rep h t (FL c p (RT False wl w wr) # C)" "\<not> is_red t" "rb t n" "rb wl n" "rb wr n"
    "\<not> is_red wl" "\<not> is_red wr" "rbc C (if c then Suc n else Suc (Suc n)) c"
    "rb_parent h (ptr h t) = p" "\<not> rb_red h (rb_sentinel h)"
  shows "\<exists>h'. rb_delete_left_rest (ptr h t) w h = (p, h') \<and>
    del_inv h' p C (before C @ nodes t @ p # nodes wl @ w # nodes wr @ after C) (rb_key h) (rb_sentinel h) \<and>
    rb_red h' p = c"
proof -
  have P: "rep h (RT c t p (RT False wl w wr)) C" using assms(1) by (simp add: rep_up)
  have W: "rep h (RT False wl w wr) (FR c t p # C)" using P by (simp add: rep_up)
  have f: "\<not> rb_red h (rb_left h w)" "\<not> rb_red h (rb_right h w)"
    using rep_node(1,2)[OF W] rep_red[of h wl "FL False w wr # FR c t p # C"] rep_red[of h wr "FR False wl w # FR c t p # C"]
      W assms(6,7,10) by (auto simp: rep_up)
  let ?h = "ngx_rbt_red w h"
  have eq: "rb_delete_left_rest (ptr h t) w h = (p, ?h)" using f assms(9) by (simp add: rb_delete_left_rest_def)
  have R: "rep ?h (RT c t p (RT True wl w wr)) C" using rep_recolor_right[OF P] by (simp add: rb_colors)
  have n: "w \<noteq> rb_sentinel h" "p \<noteq> w" using rep_nodes(1)[OF P] rep_distinct[OF P] by auto
  have par: "C \<noteq> [] \<Longrightarrow> rb_parent ?h p = frame_addr (hd C)"
    using rep_frame(1)[of ?h "RT c t p (RT True wl w wr)" "hd C" "tl C"] R by (cases C) auto
  have "del_inv ?h p C (before C @ nodes t @ p # nodes wl @ w # nodes wr @ after C) (rb_key h) (rb_sentinel h)"
  proof (rule del_invI[OF R, where n = "if c then n else Suc n"])
    show "rbc C (Suc (if c then n else Suc n)) False" using assms(8) rbc_mono by (cases c) auto
  qed (use assms par n in \<open>auto simp: rb_RT\<close>)
  moreover have "rb_red ?h p = c" using rep_node(3)[OF R] .
  ultimately show ?thesis using eq by blast
qed

text \<open>The last case: the sibling has a red right child.\<close>

lemma delete_rotate:
  assumes "rep h t (FL c p (RT False wl w (RT True a b d)) # C)" "\<not> is_red t" "rb t n" "rb wl n" "rb a n" "rb d n"
    "rbc C (if c then Suc n else Suc (Suc n)) c"
    "rb_parent h (ptr h t) = p" "\<not> rb_red h (rb_sentinel h)"
  defines "h6 \<equiv> ngx_rbt_black b (ngx_rbt_black p (ngx_rbt_copy_color w p h))"
  shows "let h7 = ngx_rbtree_left_rotate p h6 in
    del_inv h7 (rb_root h7) [] (before C @ nodes t @ p # nodes wl @ w # nodes a @ b # nodes d @ after C) (rb_key h) (rb_sentinel h)"
proof -
  have P: "rep h (RT c t p (RT False wl w (RT True a b d))) C" using assms(1) by (simp add: rep_up)
  have c: "rb_red h p = c" using rep_node(3)[OF P] .
  have n: "w \<noteq> rb_sentinel h" "p \<noteq> rb_sentinel h" "b \<noteq> rb_sentinel h" using rep_nodes(1)[OF P] by auto
  have "rep (set_color w c h) (RT c t p (RT c wl w (RT True a b d))) C" using rep_recolor_right[OF P] .
  from rep_recolor[OF this, of False]
  have "rep (set_color p False (set_color w c h)) (RT True a b d) (FR c wl w # FR False t p # C)" by (simp add: rep_up)
  from rep_recolor[OF this, of False]
  have "rep h6 (RT False t p (RT c wl w (RT False a b d))) C" by (simp add: h6_def rb_colors c rep_up)
  note r = rep_left_rotate[OF this]
  let ?t = "RT c (RT False t p wl) w (RT False a b d)" and ?h = "ngx_rbtree_left_rotate p h6"
  have "rb ?t (if c then Suc n else Suc (Suc n))" using assms by (auto simp: rb_RT)
  hence bal: "balanced (plug ?t C)" using balanced_plug[of ?t C] assms(7) by fastforce
  then obtain m where m: "rb (plug ?t C) m" "\<not> is_red (plug ?t C)" by (auto simp: balanced_def)
  have R: "rep ?h (plug ?t C) []" using r(1) rep_plug by blast
  have "del_inv ?h (rb_root ?h) [] (before C @ nodes t @ p # nodes wl @ w # nodes a @ b # nodes d @ after C) (rb_key h) (rb_sentinel h)"
    using m n assms(9) rep_root[OF R] r(2-4)
    by (intro del_invI[OF R, where n = m]) (auto simp: h6_def)
  thus ?thesis by (simp add: Let_def)
qed

lemma del_measure_top: "rbc C n c \<Longrightarrow> del_measure h x [] \<le> 2 * length C + (if c then 0 else 1)"
  by (cases C) (auto simp: del_measure_def)

lemma delete_left_black:
  assumes "rep h t (FL c p (RT False wl w wr) # C)" "\<not> is_red t" "rb t n" "rb wl n" "rb wr n"
    "rbc C (if c then Suc n else Suc (Suc n)) c"
    "rb_parent h (ptr h t) = p" "\<not> rb_red h (rb_sentinel h)"
  shows "\<exists>x h' D. rb_delete_left_rest (ptr h t) w h = (x, h') \<and>
    del_inv h' x D (before C @ nodes t @ p # nodes wl @ w # nodes wr @ after C) (rb_key h) (rb_sentinel h) \<and>
    del_measure h' x D \<le> 2 * length C + (if c then 0 else 1)"
proof -
  have P: "rep h (RT c t p (RT False wl w wr)) C" and W: "rep h (RT False wl w wr) (FR c t p # C)"
    using assms(1) by (simp_all add: rep_up)
  have red: "rb_red h (rb_left h w) = is_red wl" "rb_red h (rb_right h w) = is_red wr"
    using rep_node(1,2)[OF W] rep_red[of h wl "FL False w wr # FR c t p # C"] rep_red[of h wr "FR False wl w # FR c t p # C"]
      W assms(8) by (auto simp: rep_up)
  consider (black) "\<not> is_red wl" "\<not> is_red wr" | (right) a b d where "wr = RT True a b d"
    | (left) a b d where "wl = RT True a b d" "\<not> is_red wr"
    by (cases wl; cases wr) auto
  thus ?thesis
  proof cases
    case black
    with delete_recolor[OF assms(1-5) _ _ assms(6-8)] show ?thesis
      by (auto simp: del_measure_def)
  next
    case (right a b d)
    have b: "rb_right h w = b" using rep_node(2)[OF W] right by simp
    let ?h = "ngx_rbtree_left_rotate p (ngx_rbt_black b (ngx_rbt_black p (ngx_rbt_copy_color w p h)))"
    have "rb_delete_left_rest (ptr h t) w h = (rb_root ?h, ?h)"
      using red right b assms(7) by (simp add: rb_delete_left_rest_def Let_def)
    moreover have "del_inv ?h (rb_root ?h) [] (before C @ nodes t @ p # nodes wl @ w # nodes wr @ after C) (rb_key h) (rb_sentinel h)"
      using delete_rotate[of h t c p wl w a b d C n] assms right by (simp add: Let_def)
    ultimately show ?thesis using del_measure_top[OF assms(6)] by blast
  next
    case (left a b d)
    have b: "rb_left h w = b" using rep_node(1)[OF W] left by simp
    let ?h2 = "set_color w True (set_color b False h)"
    let ?h3 = "ngx_rbtree_right_rotate w ?h2"
    have r2: "rep ?h2 (RT True (RT False a b d) w wr) (FR c t p # C)"
      using W left by (auto intro!: rep_recolor rep_recolor_left)
    note r3 = rep_right_rotate[OF r2]
    have R: "rep ?h3 t (FL c p (RT False a b (RT True d w wr)) # C)" using r3(1) by (simp add: rep_up)
    have n: "w \<noteq> rb_sentinel h" "b \<noteq> rb_sentinel h" using rep_nodes(1)[OF P] left by auto
    have s: "rb_sentinel ?h3 = rb_sentinel h" "\<not> rb_red ?h3 (rb_sentinel ?h3)" "rb_key ?h3 = rb_key h"
      using r3(2-4) n assms(8) by auto
    have tp: "ptr ?h3 t = ptr h t" using ptr_cong[OF s(1)] .
    have par: "rb_parent ?h3 (ptr h t) = p"
    proof -
      have "t = RE \<Longrightarrow> rb_parent ?h3 (rb_sentinel ?h3) = p" using r3(4,5) assms(7) by simp
      thus ?thesis using rep_temp_parent[OF R, of p] tp by auto
    qed
    have w': "rb_right ?h3 p = b" "rb_right ?h3 b = w"
      using rep_node(2)[of ?h3 c t p _ C] rep_node(2)[OF r3(1)] R by (simp_all add: rep_up)
    have n': "rb a n" "rb d n" "\<not> is_red d" using assms(4) left by auto
    let ?h = "ngx_rbtree_left_rotate p (ngx_rbt_black w (ngx_rbt_black p (ngx_rbt_copy_color b p ?h3)))"
    have "rb_delete_left_rest (ptr h t) w h = (rb_root ?h, ?h)"
      using red left b par w' by (simp add: rb_delete_left_rest_def Let_def rb_colors)
    moreover have "del_inv ?h (rb_root ?h) [] (before C @ nodes t @ p # nodes wl @ w # nodes wr @ after C) (rb_key h) (rb_sentinel h)"
      using delete_rotate[OF R assms(2,3) n'(1,2) assms(5,6)] tp par s left(1) by (simp add: Let_def)
    ultimately show ?thesis using del_measure_top[OF assms(6)] by blast
  qed
qed

text \<open>A whole pass on the left side: a red sibling is first rotated away.\<close>

lemma delete_left_step:
  assumes "del_inv h x (FL c p w # C) ns k s" "\<not> rb_red h x"
  shows "\<exists>x' h' D. rb_delete_left x h = (x', h') \<and> del_inv h' x' D ns k s \<and> del_measure h' x' D < del_measure h x (FL c p w # C)"
proof -
  obtain t n where rep: "rep h t (FL c p w # C)" and x: "ptr h t = x" and n0: "if is_red t then rb (blacken t) (Suc n) else rb t n"
    and C: "rbc (FL c p w # C) (Suc n) False" and ns: "before C @ nodes t @ p # nodes w @ after C = ns"
    and par: "rb_parent h x = p" and k: "rb_key h = k" "rb_sentinel h = s" "\<not> rb_red h s"
    using assms(1) by (auto simp: del_inv_def)
  have t: "\<not> is_red t" "rb t n" using rep_red[OF rep] x k assms(2) n0 by auto
  have m: "del_measure h x (FL c p w # C) = 2 * length C + 3" using assms(2) by (simp add: del_measure_def)
  have P: "rep h (RT c t p w) C" using rep by (simp add: rep_up)
  have "rb w (Suc n)" using C by (cases c) auto
  then obtain cw wl wa wr where w: "w = RT cw wl wa wr" by (cases w) auto
  have fw: "rb_right h p = wa" "rb_red h wa = cw"
    using rep_node(2)[OF P] rep_node(3)[of h cw wl wa wr "FR c t p # C"] P w by (simp_all add: rep_up)
  show ?thesis
  proof (cases cw)
    case False
    have "rbc C (if c then Suc n else Suc (Suc n)) c" using C w False by (cases c) auto
    from delete_left_black[of h t c p wl wa wr C n] this t rep w False \<open>rb w (Suc n)\<close> par x k
    obtain x' h' D where "rb_delete_left_rest x wa h = (x', h')" "del_inv h' x' D ns k s"
        "del_measure h' x' D \<le> 2 * length C + (if c then 0 else 1)"
      using ns by (auto simp: rb_RT)
    thus ?thesis
      using m par fw False by (auto simp: delete_left_rest Let_def split: if_splits)
  next
    case True
    have c: "\<not> c" using C w True by (cases c) auto
    have n: "rb wl (Suc n)" "rb wr (Suc n)" "\<not> is_red wl" "\<not> is_red wr" using \<open>rb w (Suc n)\<close> w True by auto
    then obtain la l lb where wl: "wl = RT False la l lb" by (cases wl) auto
    let ?h2 = "set_color p True (set_color wa False h)" and ?h3 = "ngx_rbtree_left_rotate p (set_color p True (set_color wa False h))"
    have "rep ?h2 (RT True t p (RT False wl wa wr)) C"
      using P w by (auto intro!: rep_recolor rep_recolor_right)
    note r3 = rep_left_rotate[OF this]
    have R: "rep ?h3 t (FL True p (RT False la l lb) # FL False wa wr # C)" using r3(1) wl by (simp add: rep_up)
    have s: "rb_sentinel ?h3 = s" "\<not> rb_red ?h3 (rb_sentinel ?h3)" "rb_key ?h3 = k"
      using r3(2-4) rep_nodes(1)[OF P] w k by auto
    have tp: "ptr ?h3 t = x" using ptr_cong[of ?h3 h t] s(1) k x by simp
    have par3: "rb_parent ?h3 x = p"
    proof -
      have "t = RE \<Longrightarrow> rb_parent ?h3 (rb_sentinel ?h3) = p" using r3(4,5) par x k s by simp
      thus ?thesis using rep_temp_parent[OF R, of p] tp by auto
    qed
    have w': "rb_right ?h3 p = l" using rep_node(2)[of ?h3 True t p _ "FL False wa wr # C"] R by (simp add: rep_up)
    have eq: "rb_delete_left x h = rb_delete_left_rest x l ?h3"
      using par fw True par3 w' by (simp add: delete_left_rest Let_def rb_colors)
    have C': "rbc (FL False wa wr # C) (Suc n) True" using C n c w True by auto
    have "rb la n" "rb lb n" using n(1) wl by auto
    from delete_left_black[OF R t this] C' tp par3 s(2)
    obtain x' h' D where "rb_delete_left_rest x l ?h3 = (x', h')"
        "del_inv h' x' D (before C @ nodes t @ p # nodes la @ l # nodes lb @ wa # nodes wr @ after C) k s"
        "del_measure h' x' D \<le> 2 * (length C + 1)"
      using s(1,3) by auto
    thus ?thesis using eq ns w wl m by auto
  qed
qed

text \<open>The other side, by the mirror image.\<close>

lemma mirror_delete: "rb_delete_right x (mirror h) = map_prod id mirror (rb_delete_left x h)"
  by (simp add: rb_delete_left_def rb_delete_right_def Let_def mirror_out conj_commute del: mirror_set)

lemma blacken_mirror [simp]: "blacken (mirror_t t) = mirror_t (blacken t)"
  by (cases t) auto

lemma frame_addr_mirror [simp]: "frame_addr (mirror_f f) = frame_addr f"
  by (cases f) auto

lemma del_inv_mirror: "del_inv h x D ns k s \<Longrightarrow> del_inv (mirror h) x (mirror_c D) (rev ns) k s"
proof -
  assume a: "del_inv h x D ns k s"
  then obtain t n where "rep h t D" "ptr h t = x" "if is_red t then rb (blacken t) (Suc n) else rb t n"
      "rbc D (Suc n) False" "before D @ nodes t @ after D = ns"
    by (auto simp: del_inv_def)
  with a rep_mirror[of h t D] show ?thesis
    by (intro del_invI[of "mirror h" "mirror_t t" _ x n]) (auto simp: del_inv_def hd_map split: if_splits)
qed

lemma delete_right_step:
  assumes "del_inv h x (FR c w p # C) ns k s" "\<not> rb_red h x"
  shows "\<exists>x' h' D. rb_delete_right x h = (x', h') \<and> del_inv h' x' D ns k s \<and> del_measure h' x' D < del_measure h x (FR c w p # C)"
proof -
  have "del_inv (mirror h) x (FL c p (mirror_t w) # mirror_c C) (rev ns) k s"
    using del_inv_mirror[OF assms(1)] by simp
  from delete_left_step[OF this] assms(2) obtain x' h' D where *: "rb_delete_left x (mirror h) = (x', h')"
      "del_inv h' x' D (rev ns) k s" "del_measure h' x' D < del_measure (mirror h) x (FL c p (mirror_t w) # mirror_c C)"
    by auto
  have "rb_delete_right x h = (x', mirror h')" using mirror_delete[of x "mirror h"] *(1) by simp
  moreover have "del_inv (mirror h') x' (mirror_c D) ns k s" using del_inv_mirror[OF *(2)] by simp
  moreover have "del_measure (mirror h') x' (mirror_c D) < del_measure h x (FR c w p # C)"
    using *(3) by (simp add: del_measure_def)
  ultimately show ?thesis by blast
qed

lemma delete_step:
  assumes "del_inv h x (f # C) ns k s" "\<not> rb_red h x"
  shows "\<exists>x' h' D. (if x = rb_left h (rb_parent h x) then rb_delete_left x h else rb_delete_right x h) = (x', h') \<and>
    del_inv h' x' D ns k s \<and> del_measure h' x' D < del_measure h x (f # C)"
proof -
  obtain t n where rep: "rep h t (f # C)" and x: "ptr h t = x" and c: "rbc (f # C) (Suc n) False"
    and par: "rb_parent h x = frame_addr f"
    using assms(1) by (auto simp: del_inv_def)
  show ?thesis
  proof (cases f)
    case (FL cf p w)
    with delete_left_step[of h x cf p w C] assms rep_side[OF rep] par x show ?thesis by auto
  next
    case (FR cf w p)
    have "rb w (Suc n)" using c FR by (cases cf) auto
    hence "w \<noteq> RE" by auto
    have W: "rep h (RT cf w p t) C" using rep FR by (simp add: rep_up)
    have "rb_left h p \<noteq> rb_sentinel h"
      using rep_node(1)[OF W] rep_nodes(1)[OF W, of "ptr h w"] ptr_in[OF \<open>w \<noteq> RE\<close>, of h] by simp
    with delete_right_step[of h x cf w p C] assms rep_side[OF rep] par x FR show ?thesis by auto
  qed
qed

lemma delete_fix:
  "del_inv h x D ns k s \<Longrightarrow> \<exists>h'. rb_delete_fix x h = Some h' \<and> rb_tree h' ns \<and> rb_key h' = k \<and> rb_sentinel h' = s"
proof (induction "del_measure h x D" arbitrary: h x D rule: less_induct)
  case less
  obtain t n where rep: "rep h t D" and x: "ptr h t = x" and n: "if is_red t then rb (blacken t) (Suc n) else rb t n"
    and c: "rbc D (Suc n) False" and ns: "before D @ nodes t @ after D = ns"
    and k: "rb_key h = k" "rb_sentinel h = s" "\<not> rb_red h s"
    using less.prems by (auto simp: del_inv_def)
  have red: "rb_red h x = is_red t" using rep_red[OF rep] x k by simp
  show ?case
  proof (cases "D = [] \<or> is_red t")
    case True
    have stop: "rb_delete_fix x h = Some (ngx_rbt_black x h)"
      using True red rep_root[OF rep] x by (subst rb_delete_fix.simps) auto
    have "rb_tree (ngx_rbt_black x h) ns"
    proof (cases t)
      case RE
      have "ngx_rbt_black x h = h" using k x RE by (simp add: rb_colors set_color_def fun_upd_idem)
      with RE True rep n ns k show ?thesis by (intro rb_treeI[of _ RE D n]) auto
    next
      case (RT ct l a r)
      have R: "rep (ngx_rbt_black x h) (RT False l a r) D" using rep_recolor[of h ct l a r D False] rep RT x by (simp add: rb_colors)
      have "D = [] \<Longrightarrow> rbc D n' False" for n' by simp
      moreover have "rb (RT False l a r) (if ct then Suc n else n)" using n RT by auto
      ultimately show ?thesis
        using c ns RT x k rep_nodes(1)[OF rep, of x] True
        by (intro rb_treeI[OF R, of "if ct then Suc n else n"]) auto
    qed
    with stop k show ?thesis by auto
  next
    case False
    then obtain f C where D: "D = f # C" by (cases D) auto
    obtain x' h' E where E: "(if x = rb_left h (rb_parent h x) then rb_delete_left x h else rb_delete_right x h) = (x', h')"
        "del_inv h' x' E ns k s" "del_measure h' x' E < del_measure h x D"
      using delete_step[of h x f C ns k s] less.prems False red D by auto
    have "rb_delete_fix x h = rb_delete_fix x' h'"
      using False red rep_root[OF rep] x E(1) by (subst rb_delete_fix.simps) auto
    with less.hyps[OF E(3,2)] show ?thesis by simp
  qed
qed

section \<open>Unlinking\<close>

lemma plug_append: "plug (plug t C) D = plug t (C @ D)"
  by (induction t C rule: plug.induct) auto

lemma rep_append: "rep h (plug t C) D \<longleftrightarrow> rep h t (C @ D)"
  using rep_plug[of h "plug t C" D] rep_plug[of h t "C @ D"] by (simp add: plug_append)

lemma focus: "z \<in> set (nodes t) \<Longrightarrow> \<exists>c l r C. t = plug (RT c l z r) C"
proof (induction t)
  case (RT c l a r)
  consider "z = a" | "z \<in> set (nodes l)" | "z \<in> set (nodes r)" using RT.prems by auto
  thus ?case
  proof cases
    case 1
    then show ?thesis by (metis plug.simps(1))
  next
    case 2
    with RT.IH(1) obtain c' l' r' C' where "l = plug (RT c' l' z r') C'" by blast
    hence "RT c l a r = plug (RT c' l' z r') (C' @ [FL c a r])" by (simp add: plug_append[symmetric])
    then show ?thesis by blast
  next
    case 3
    with RT.IH(2) obtain c' l' r' C' where "r = plug (RT c' l' z r') C'" by blast
    hence "RT c l a r = plug (RT c' l' z r') (C' @ [FR c l a])" by (simp add: plug_append[symmetric])
    then show ?thesis by blast
  qed
qed simp

text \<open>A node that is not in the tree can be cleared.\<close>

lemma rb_clear_fields:
  "rb_key (rb_clear z h) = (rb_key h)(z := 0)" "rb_red (rb_clear z h) = rb_red h" "rb_root (rb_clear z h) = rb_root h"
  "rb_sentinel (rb_clear z h) = rb_sentinel h" "x \<noteq> z \<Longrightarrow> rb_parent (rb_clear z h) x = rb_parent h x"
  "x \<noteq> z \<Longrightarrow> same_at h (rb_clear z h) x"
  by (simp_all add: rb_clear_def same_at_def)

lemma rep_clear:
  assumes "rep h t C" "z \<notin> set (before C @ nodes t @ after C)"
  shows "rep (rb_clear z h) t C"
proof -
  obtain par where c: "ctx h par (ptr h t) C" "shape h par t" using assms(1) by (auto simp: rep_def)
  have "ctx (rb_clear z h) par (ptr h t) C"
    using assms(2) by (intro ctx_cong[OF c(1) _ _ rb_clear_fields(6)]) (auto simp: rb_clear_fields)
  moreover have "shape (rb_clear z h) par t"
    using assms(2) by (intro shape_cong[OF c(2) _ rb_clear_fields(6)]) (auto simp: rb_clear_fields)
  ultimately show ?thesis using assms(1) ptr_cong[of "rb_clear z h" h t] by (auto simp: rep_def rb_clear_fields)
qed

text \<open>A node with at most one child leaves the tree and the child takes its place.\<close>

lemma rep_unlink:
  assumes "rep h (RT cy l y r) (f # C)" "l = RE \<and> u = r \<or> r = RE \<and> u = l"
  defines "h' \<equiv> set_parent (ptr h u) (frame_addr f) (rb_unlink y (ptr h u) h)"
  shows "rep h' u (f # C)" "rb_parent h' (ptr h u) = frame_addr f" "rb_parent h y = frame_addr f"
proof -
  have p: "rb_parent h y = frame_addr f" using rep_frame(1)[OF assms(1)] by simp
  obtain par where c: "ctx h par y (f # C)" and s: "shape h par (RT cy l y r)"
    using assms(1) by (auto simp: rep_def)
  have dist: "distinct (before (f # C) @ (nodes l @ y # nodes r) @ after (f # C))" using rep_distinct[OF assms(1)] by simp
  have u: "shape h y u" "set (nodes u) \<subseteq> set (nodes l @ nodes r)" "distinct (nodes u)" using s assms(2) dist by auto
  have side: "y = rb_left h (frame_addr f) \<longleftrightarrow> (\<exists>c a r. f = FL c a r)" using rep_side[OF assms(1)] by simp
  have fr: "frame_addr f \<in> set (before (f # C) @ after (f # C))" "hole_parent (f # C) = {frame_addr f}" by (cases f; simp)+
  have pu: "ptr h u \<notin> set (before (f # C) @ after (f # C))"
    using u dist ptr_in[of u h] rep_nodes(1)[OF assms(1)] by (cases u) auto
  define B where "B = (\<exists>c a r. f = FL c a r)"
  have h': "h' = set_parent (ptr h u) (frame_addr f) (if B then set_left (frame_addr f) (ptr h u) h else set_right (frame_addr f) (ptr h u) h)"
    using side by (simp add: h'_def rb_unlink_def p B_def)
  have rel: "relinked h h' (f # C) (ptr h u)"
    using pu fr by (cases f) (auto simp: relinked_def h' B_def)
  have "ctx h' par (ptr h u) (f # C)"
    using c pu p fr(2) dist
    by (intro ctx_relinked[OF c rel]) (auto simp: same_at_def h')
  moreover have "par = frame_addr f" using c by (cases f) auto
  moreover have "shape h' (frame_addr f) u"
  proof (rule shape_reparent[OF u(1) _ u(3)])
    show "rb_sentinel h' = rb_sentinel h" by (simp add: h'_def rb_unlink_def)
  next
    fix a assume "a \<in> set (nodes u)" "a \<noteq> ptr h u"
    moreover have "a \<noteq> frame_addr f" using \<open>a \<in> set (nodes u)\<close> u(2) dist fr(1) by auto
    ultimately show "same_at h h' a" by (simp add: h' same_at_def)
  next
    assume "u \<noteq> RE"
    hence "ptr h u \<noteq> frame_addr f" using pu fr(1) by auto
    thus "rb_left h' (ptr h u) = rb_left h (ptr h u) \<and> rb_right h' (ptr h u) = rb_right h (ptr h u) \<and>
       rb_red h' (ptr h u) = rb_red h (ptr h u) \<and> rb_parent h' (ptr h u) = frame_addr f"
      by (simp add: h')
  qed
  moreover have "ptr h' u = ptr h u" by (rule ptr_cong) (simp add: h'_def rb_unlink_def)
  moreover have "distinct (nodes (plug u (f # C)))" using assms(2) dist by (auto simp: nodes_plug)
  ultimately show "rep h' u (f # C)" unfolding rep_def by auto
  show "rb_parent h' (ptr h u) = frame_addr f" "rb_parent h y = frame_addr f" using p by (simp_all add: h'_def)
qed

lemma unlink_fields [simp]:
  "rb_key (rb_unlink y x h) = rb_key h" "rb_red (rb_unlink y x h) = rb_red h" "rb_parent (rb_unlink y x h) = rb_parent h"
  "rb_root (rb_unlink y x h) = rb_root h" "rb_sentinel (rb_unlink y x h) = rb_sentinel h"
  by (simp_all add: rb_unlink_def)

text \<open>The leftmost node of a subtree.\<close>

lemma rb_min:
  assumes "rep h t C" "t \<noteq> RE"
  shows "\<exists>c y m D. t = plug (RT c RE y m) D \<and> before D = [] \<and> ngx_rbtree_min (ptr h t) h = Some y"
  using assms
proof (induction t arbitrary: C)
  case (RT c l a r)
  note f = rep_node[OF RT.prems(1)]
  have up: "rep h l (FL c a r # C)" using RT.prems(1) by (simp add: rep_up)
  show ?case
  proof (cases "l = RE")
    case True
    with f have "RT c l a r = plug (RT c RE a r) [] \<and> before [] = [] \<and> ngx_rbtree_min (ptr h (RT c l a r)) h = Some a"
      by (subst ngx_rbtree_min.simps) simp
    thus ?thesis by blast
  next
    case False
    have "ptr h l \<noteq> rb_sentinel h" using False up ptr_neq_sentinel unfolding rep_def by blast
    moreover from RT.IH(1)[OF up False] obtain c' y m D where
      D: "l = plug (RT c' RE y m) D" "before D = []" "ngx_rbtree_min (ptr h l) h = Some y" by blast
    ultimately have "ngx_rbtree_min (ptr h (RT c l a r)) h = Some y" using f(1) by (simp add: ngx_rbtree_min.simps[of a])
    moreover have "RT c l a r = plug (RT c' RE y m) (D @ [FL c a r])" using D(1) by (simp add: plug_append[symmetric])
    moreover have "before (D @ [FL c a r]) = before D"
      by (induction D rule: before.induct) auto
    hence "before (D @ [FL c a r]) = []" using D(2) by simp
    ultimately show ?thesis by blast
  qed
qed simp

section \<open>A node takes the place of another\<close>

lemma rb_adopt_fields:
  "rb_key (rb_adopt y h) = rb_key h" "rb_red (rb_adopt y h) = rb_red h" "rb_left (rb_adopt y h) = rb_left h"
  "rb_right (rb_adopt y h) = rb_right h" "rb_root (rb_adopt y h) = rb_root h" "rb_sentinel (rb_adopt y h) = rb_sentinel h"
  "rb_parent (rb_adopt y h) x = (if x \<noteq> rb_sentinel h \<and> (x = rb_left h y \<or> x = rb_right h y) then y else rb_parent h x)"
  by (auto simp: rb_adopt_def Let_def)

lemma rb_copy_fields:
  assumes "y \<noteq> z"
  shows "rb_key (rb_copy_node z y h) = rb_key h" "rb_sentinel (rb_copy_node z y h) = rb_sentinel h"
  "rb_root (rb_copy_node z y h) = rb_root h"
  "rb_left (rb_copy_node z y h) = (rb_left h)(y := rb_left h z)" "rb_right (rb_copy_node z y h) = (rb_right h)(y := rb_right h z)"
  "rb_parent (rb_copy_node z y h) = (rb_parent h)(y := rb_parent h z)" "rb_red (rb_copy_node z y h) = (rb_red h)(y := rb_red h z)"
  using assms by (simp_all add: rb_copy_node_def Let_def)

lemma rep_substitute:
  assumes c: "ctx h par z C" and z: "z \<noteq> rb_sentinel h" "rb_left h z = ptr h l" "rb_right h z = ptr h r" "rb_parent h z = par" "rb_red h z = cz"
    and s: "shape h z l" "shape h q r" and dist: "distinct (before C @ nodes l @ z # nodes r @ after C)"
    and y: "y \<notin> set (before C @ nodes l @ z # nodes r @ after C)" "y \<noteq> rb_sentinel h" "y \<noteq> NULL"
  defines "h' \<equiv> rb_adopt y (rb_replace z y (rb_copy_node z y h))"
  shows "rep h' (RT cz l y r) C" "rb_key h' = rb_key h" "rb_sentinel h' = rb_sentinel h"
    "rb_red h' = (rb_red h)(y := cz)" "rb_parent h' (rb_sentinel h) = rb_parent h (rb_sentinel h)"
proof -
  let ?h5 = "rb_copy_node z y h" and ?h6 = "rb_replace z y (rb_copy_node z y h)"
  have yz: "y \<noteq> z" using y by auto
  note copy = rb_copy_fields[OF yz, of h]
  have sen: "rb_sentinel h' = rb_sentinel h" by (simp add: h'_def rb_adopt_fields copy)
  have c5: "ctx ?h5 par z C" using y(1) by (intro ctx_cong[OF c]) (auto simp: same_at_def copy)
  have hp: "hole_parent C \<subseteq> set (before C @ after C)" using hole_parent_in(1)[OF c] by blast
  have rel: "relinked ?h5 ?h6 C y"
    using z(1,4) dist yz by (intro relinked_replace(1)[OF c5]) (auto simp: copy)
  have ch: "x = ptr h l \<or> x = ptr h r \<Longrightarrow> x = rb_sentinel h \<or> x \<in> set (nodes l @ nodes r)" for x
    using ptr_in[of l h] ptr_in[of r h] by (cases l; cases r) auto
  have links: "rb_left h' x = (rb_left ?h5) x" "rb_right h' x = (rb_right ?h5) x" if "x \<notin> hole_parent C" for x
  proof -
    have "C = [] \<Longrightarrow> rb_root ?h5 = z" using c5 by simp
    moreover have "C \<noteq> [] \<Longrightarrow> x \<noteq> rb_parent ?h5 z" using that hole_parent_cases[OF c] yz z(4) by (auto simp: copy)
    ultimately show "rb_left h' x = (rb_left ?h5) x" "rb_right h' x = (rb_right ?h5) x"
      by (cases "C = []"; simp add: h'_def rb_adopt_fields)+
  qed
  have kids: "rb_left ?h6 y = ptr h l \<and> rb_right ?h6 y = ptr h r"
    using links[of y] hp y(1) by (auto simp: h'_def rb_adopt_fields copy z)
  have red: "rb_red h' = (rb_red h)(y := cz)" by (simp add: h'_def rb_adopt_fields copy z)
  have par: "rb_parent h' x = (if x \<noteq> rb_sentinel h \<and> (x = ptr h l \<or> x = ptr h r) then y else if x = y then par else rb_parent h x)" for x
    using kids by (simp add: h'_def rb_adopt_fields copy z)
  have out: "rb_parent h' x = rb_parent h x" if "x \<notin> set (nodes l @ nodes r)" "x \<noteq> y" for x
    using ch[of x] that by (auto simp: par)
  have rel': "relinked h h' C y"
  proof (rule relinked_cong[OF rel])
    fix p assume "p \<in> hole_parent C"
    hence "p \<in> set (before C @ after C)" using hp by blast
    hence "p \<noteq> y" "p \<notin> set (nodes l @ nodes r)" using y(1) dist by auto
    thus "same_at h ?h5 p \<and> same_at ?h6 h' p"
      using out[of p] by (simp add: same_at_def copy red) (simp add: h'_def rb_adopt_fields copy)
  qed (simp_all add: copy h'_def rb_adopt_fields)
  have c': "ctx h' par y C"
  proof (rule ctx_relinked[OF c rel'])
    fix x assume x: "x \<in> set (before C @ after C) - hole_parent C"
    hence "x \<noteq> y" "x \<notin> set (nodes l @ nodes r)" using y(1) dist by auto
    with links[of x] out[of x] x show "same_at h h' x" by (simp add: same_at_def copy red)
  qed (use dist in auto)
  have child: "shape h' y u" if u: "shape h p u" "set (nodes u) \<subseteq> set (nodes l @ nodes r)" "distinct (nodes u)" "u = l \<or> u = r" for u p
  proof (rule shape_reparent[OF u(1) sen u(3)])
    fix a assume a: "a \<in> set (nodes u)" "a \<noteq> ptr h u"
    have "a \<noteq> ptr h l" "a \<noteq> ptr h r"
      using a u dist ptr_in[of l h] ptr_in[of r h] shape_nodes[OF u(1) a(1)] by (cases l; cases r; auto)+
    moreover have "a \<in> set (nodes l @ nodes r)" using a(1) u(2) by blast
    hence "a \<notin> hole_parent C" "a \<noteq> y" using hp dist y(1) by auto
    ultimately show "same_at h h' a" using links[of a] by (simp add: same_at_def copy red par)
  next
    assume "u \<noteq> RE"
    hence a: "ptr h u \<in> set (nodes u)" by (rule ptr_in)
    hence "ptr h u \<in> set (nodes l @ nodes r)" using u(2) by blast
    hence "ptr h u \<notin> hole_parent C" "ptr h u \<noteq> y" "ptr h u \<noteq> rb_sentinel h"
      using hp dist y(1) shape_nodes[OF u(1) a] by auto
    thus "rb_left h' (ptr h u) = rb_left h (ptr h u) \<and> rb_right h' (ptr h u) = rb_right h (ptr h u) \<and>
       rb_red h' (ptr h u) = rb_red h (ptr h u) \<and> rb_parent h' (ptr h u) = y"
      using links[of "ptr h u"] u(4) by (auto simp: copy red par)
  qed
  have "shape h' y l" "shape h' y r" using child[OF s(1)] child[OF s(2)] dist by auto
  moreover have "y \<notin> hole_parent C" "y \<noteq> ptr h l" "y \<noteq> ptr h r" using hp y ch[of y] by auto
  ultimately have "shape h' par (RT cz l y r)"
    using y links[of y] by (simp add: sen red par copy z ptr_cong[OF sen])
  with c' dist y(1) show "rep h' (RT cz l y r) C" unfolding rep_def by auto
  show "rb_key h' = rb_key h" "rb_sentinel h' = rb_sentinel h"
    "rb_red h' = (rb_red h)(y := cz)" "rb_parent h' (rb_sentinel h) = rb_parent h (rb_sentinel h)"
    using sen red par[of "rb_sentinel h"] y(2) by (simp_all add: h'_def rb_adopt_fields copy)
qed

section \<open>Deletion\<close>

text \<open>The end of the operation: a black node that was taken out leaves work to the loop.\<close>

lemma delete_finish:
  assumes "rep h u D" "D \<noteq> []" "rb u m" "if cy then rbc D m True \<and> \<not> is_red u else rbc D (Suc m) False"
    "rb_parent h (ptr h u) = frame_addr (hd D)" "\<not> rb_red h (rb_sentinel h)"
  shows "\<exists>h'. (if cy then Some h else rb_delete_fix (ptr h u) h) = Some h' \<and> rb_tree h' (before D @ nodes u @ after D) \<and>
    rb_key h' = rb_key h \<and> rb_sentinel h' = rb_sentinel h"
proof (cases cy)
  case True
  hence "rb_tree h (before D @ nodes u @ after D)"
    using assms rbc_mono by (intro rb_treeI[OF assms(1,3)]) auto
  with True show ?thesis by auto
next
  case False
  have "if is_red u then rb (blacken u) (Suc m) else rb u m" using assms(3) by (cases u) auto
  hence "del_inv h (ptr h u) D (before D @ nodes u @ after D) (rb_key h) (rb_sentinel h)"
    using assms False by (intro del_invI[OF assms(1)]) auto
  from delete_fix[OF this] False show ?thesis by auto
qed

text \<open>What the balance says of the node that is taken out.\<close>

lemma balanced_hole:
  assumes "balanced (plug (RT cy l y r) D)" "l = RE \<and> u = r \<or> r = RE \<and> u = l"
  obtains m where "rb u m" "if cy then rbc D m True \<and> \<not> is_red u else rbc D (Suc m) False"
proof -
  from assms(1) obtain n where n: "rb (RT cy l y r) n" "rbc D n cy" by (auto simp: balanced_plug)
  show ?thesis
  proof (cases cy)
    case True
    with n assms(2) show ?thesis by (intro that[of n]) auto
  next
    case False
    with n obtain m where "n = Suc m" "rb l m" "rb r m" by (cases n) auto
    with n False assms(2) show ?thesis by (intro that[of m]) auto
  qed
qed

lemma delete_one_root:
  assumes "rep h (RT c l z r) []" "balanced (RT c l z r)" "l = RE \<and> u = r \<or> r = RE \<and> u = l" "\<not> rb_red h (rb_sentinel h)"
  shows "rb_tree (rb_clear z (ngx_rbt_black (ptr h u) (set_root (ptr h u) h))) (nodes u)"
proof -
  let ?h = "set_root (ptr h u) h"
  have s: "shape h z u" "distinct (nodes u)" "z \<notin> set (nodes u)"
    using assms(1,3) by (auto simp: rep_def)
  have "shape ?h z u" by (rule shape_cong[OF s(1)]) (simp_all add: same_at_def)
  moreover have "ptr ?h u = ptr h u" by (rule ptr_cong) simp
  ultimately have R: "rep ?h u []" using s(2) by (auto simp: rep_def)
  obtain m where m: "rb u m" using balanced_hole[of c l z r "[]" u] assms(2,3) by auto
  have zs: "z \<noteq> rb_sentinel h" using rep_nodes(1)[OF assms(1), of z] by simp
  show ?thesis
  proof (cases u)
    case RE
    have "rep (rb_clear z ?h) RE []" using rep_clear[OF R] RE by simp
    moreover have "ngx_rbt_black (ptr h u) ?h = ?h" using RE assms(4) by (simp add: rb_colors set_color_def fun_upd_idem)
    ultimately show ?thesis
      using RE assms(4) by (intro rb_treeI[where t = RE and C = "[]" and n = 0]) (auto simp: rb_clear_fields)
  next
    case (RT ca ul a ur)
    have "rep (ngx_rbt_black a ?h) (RT False ul a ur) []" using rep_recolor[of ?h ca ul a ur "[]" False] R RT by (simp add: rb_colors)
    hence "rep (rb_clear z (ngx_rbt_black a ?h)) (RT False ul a ur) []" using s(3) RT by (intro rep_clear) auto
    moreover have "rb (RT False ul a ur) (if ca then Suc m else m)" using m RT by (cases ca) auto
    moreover have "a \<noteq> rb_sentinel h" using shape_nodes[OF s(1), of a] RT by simp
    ultimately show ?thesis
      using RT assms(4) by (intro rb_treeI[where t = "RT False ul a ur" and C = "[]"]) (auto simp: rb_clear_fields)
  qed
qed

lemma delete_one:
  assumes "rep h (RT c l z r) C" "balanced (plug (RT c l z r) C)" "l = RE \<and> u = r \<or> r = RE \<and> u = l" "\<not> rb_red h (rb_sentinel h)"
  shows "\<exists>h'. ngx_rbtree_delete z h = Some h' \<and> rb_tree h' (before C @ nodes u @ after C) \<and>
    rb_key h' = (rb_key h)(z := 0) \<and> rb_sentinel h' = rb_sentinel h"
proof -
  note f = rep_node[OF assms(1)]
  have R': "l \<noteq> RE \<Longrightarrow> ptr h l \<noteq> rb_sentinel h"
    using rep_nodes(1)[OF assms(1), of "ptr h l"] ptr_in[of l h] by auto
  have subst: "rb_delete_subst z h = Some (ptr h u, z)"
    using f assms(3) R' by (auto simp: rb_delete_subst_def)
  have root: "z = rb_root h \<longleftrightarrow> C = []" using rep_root[OF assms(1)] by auto
  show ?thesis
  proof (cases C)
    case Nil
    with delete_one_root[of h c l z r u] assms root subst show ?thesis
      by (auto simp: ngx_rbtree_delete_def rb_clear_fields)
  next
    case (Cons g C')
    let ?h2 = "set_parent (ptr h u) (frame_addr g) (rb_unlink z (ptr h u) h)"
    note un = rep_unlink[OF assms(1)[unfolded Cons] assms(3)]
    have d: "z \<notin> set (before C @ nodes u @ after C)" "ptr h u \<noteq> z"
      using rep_distinct[OF assms(1)] assms(3) rep_node(4)[OF assms(1)] ptr_in[of u h] by (cases u; auto)+
    have R: "rep (rb_clear z ?h2) u C" using rep_clear[OF un(1)] d Cons by simp
    have tp: "ptr (rb_clear z ?h2) u = ptr h u" by (rule ptr_cong) (simp add: rb_clear_fields)
    obtain m where m: "rb u m" "if c then rbc C m True \<and> \<not> is_red u else rbc C (Suc m) False"
      using balanced_hole[OF assms(2,3)] by blast
    have p: "rb_parent (rb_clear z ?h2) (ptr h u) = frame_addr g"
      using un(2) d(2) by (simp add: rb_clear_fields)
    have eq: "ngx_rbtree_delete z h = (if c then Some (rb_clear z ?h2) else rb_delete_fix (ptr h u) (rb_clear z ?h2))"
      using subst root Cons f(3) un(3) by (simp add: ngx_rbtree_delete_def Let_def)
    from delete_finish[OF R _ m] tp p Cons assms(4) show ?thesis
      unfolding eq by (auto simp: rb_clear_fields)
  qed
qed

text \<open>
  A node with two children: \<open>y\<close> is the leftmost node of the right subtree, and the hole it leaves is
  in the context with \<open>y\<close> in the place of \<open>z\<close>.
\<close>

lemma rbc_rename: "rbc (D @ FR c l z # C) n b = rbc (D @ FR c l y # C) n b"
  by (induction D n b rule: rbc.induct) (cases c; auto)+

lemma context_append [simp]: "before (C @ D) = before D @ before C" "after (C @ D) = after C @ after D"
  by (induction C rule: before.induct) auto

text \<open>The store after \<open>y\<close> was unlinked and put in the place of \<open>z\<close>.\<close>

lemma delete_two_move:
  assumes "rep h (RT c l z (plug (RT cy RE y m) D)) C" "\<not> rb_red h (rb_sentinel h)"
  defines "h' \<equiv> rb_delete_move z (ptr h m) y (rb_unlink y (ptr h m) h)"
  shows "rep h' m (D @ FR c l y # C)" "rb_parent h' (ptr h m) = frame_addr (hd (D @ FR c l y # C))"
    "rb_key h' = rb_key h" "rb_sentinel h' = rb_sentinel h" "\<not> rb_red h' (rb_sentinel h)"
proof -
  let ?h1 = "rb_unlink y (ptr h m) h"
  have Y: "rep h (RT cy RE y m) (D @ FR c l z # C)" using assms(1) by (simp add: rep_append[symmetric] rep_up)
  obtain g E where g: "D @ FR c l z # C = g # E" by (cases D) auto
  note un = rep_unlink[OF Y[unfolded g], of m]
  have dist: "distinct (before C @ nodes l @ z # nodes (plug (RT cy RE y m) D) @ after C)"
    using rep_distinct[OF assms(1)] by simp
  have n: "z \<noteq> rb_sentinel h" "y \<noteq> rb_sentinel h" "y \<noteq> NULL" "y \<noteq> z"
    using rep_nodes[OF assms(1)] dist by auto
  let ?q = "if D = [] then y else frame_addr g" and ?h2 = "set_parent (ptr h m) (frame_addr g) ?h1"
  define h2 where "h2 = set_parent (ptr h m) ?q ?h1"
  have h2f: "rb_left h2 = rb_left ?h1" "rb_right h2 = rb_right ?h1" "rb_parent h2 = (rb_parent h)(ptr h m := ?q)"
    "rb_red h2 = rb_red h" "rb_key h2 = rb_key h" "rb_sentinel h2 = rb_sentinel h"
    by (simp_all add: h2_def)
  have q: "(if rb_parent h y = z then y else rb_parent h y) = ?q"
  proof (cases D)
    case (Cons f D')
    hence "f = g" using g by simp
    moreover have "z \<noteq> frame_addr f" using dist Cons by (cases f) auto
    ultimately show ?thesis using un(3) Cons by auto
  qed (use un(3) g in auto)
  have Z: "rep ?h2 (RT c l z (plug m D)) C" using un(1) by (simp add: g[symmetric] rep_append[symmetric] rep_up)
  have tp: "ptr ?h2 t = ptr h t" "ptr h2 t = ptr h t" for t by (auto intro: ptr_cong simp: h2_def)
  have ym: "y \<notin> set (nodes l @ z # nodes (plug m D) @ before C @ after C)" using dist by auto
  obtain par where Zc: "ctx ?h2 par z C" and Zs: "shape ?h2 par (RT c l z (plug m D))" using Z by (auto simp: rep_def)
  have pm: "ptr h m \<notin> set (nodes l @ z # before C @ after C)" "ptr h m \<noteq> y"
    using dist ptr_in[of m h] rep_nodes(1)[OF assms(1)] by (cases m; auto)+
  have same: "x \<noteq> ptr h m \<Longrightarrow> same_at ?h2 h2 x" for x by (simp add: same_at_def h2_def)
  have C2: "ctx h2 par z C" using pm by (intro ctx_cong[OF Zc _ _ same]) (auto simp: h2_def)
  have L2: "shape h2 z l" using pm Zs by (intro shape_cong[OF _ _ same]) (auto simp: h2_def)
  have R2: "\<exists>q. shape h2 q (plug m D)"
  proof (cases D)
    case Nil
    have "shape h2 y (plug m [])"
    proof (rule shape_reparent[of ?h2 z])
      show "shape ?h2 z (plug m [])" using Zs Nil by simp
      fix a assume "a \<in> set (nodes (plug m []))" "a \<noteq> ptr ?h2 (plug m [])"
      thus "same_at ?h2 h2 a" using same[of a] tp by simp
    qed (use Nil dist in \<open>auto simp: h2_def tp\<close>)
    thus ?thesis using Nil by blast
  qed (use Zs in \<open>auto simp: h2_def\<close>)
  have f2: "rb_left h2 z = ptr h2 l" "rb_right h2 z = ptr h2 (plug m D)" "rb_parent h2 z = par" "rb_red h2 z = c"
    "rb_sentinel h2 = rb_sentinel h" "rb_key h2 = rb_key h" "rb_red h2 = rb_red h"
    using Zs pm by (auto simp: h2f tp)
  obtain q where R2': "shape h2 q (plug m D)" using R2 by blast
  have h': "h' = rb_adopt y (rb_replace z y (rb_copy_node z y h2))"
    unfolding h'_def rb_delete_move_def h2_def Let_def q[symmetric] by simp
  note sub = rep_substitute[OF C2 _ f2(1-4) L2 R2', of y, folded h']
  have "distinct (before C @ nodes l @ z # nodes (plug m D) @ after C)" using dist by auto
  note sub = sub[OF _ this] 
  have r: "rep h' (RT c l y (plug m D)) C" "rb_key h' = rb_key h" "rb_sentinel h' = rb_sentinel h"
      "rb_red h' = (rb_red h)(y := c)" "rb_parent h' (rb_sentinel h) = rb_parent h2 (rb_sentinel h)"
    using sub n f2(5-7) ym by auto
  show R: "rep h' m (D @ FR c l y # C)" using r(1) by (simp add: rep_append[symmetric] rep_up)
  have "ptr h m = rb_sentinel h \<Longrightarrow> rb_parent h2 (rb_sentinel h) = frame_addr (hd (D @ FR c l y # C))"
    using g by (cases D) (auto simp: h2_def)
  moreover obtain g' E' where "D @ FR c l y # C = g' # E'" by (cases D) auto
  ultimately show "rb_parent h' (ptr h m) = frame_addr (hd (D @ FR c l y # C))"
    using rep_frame(1)[of h' m g' E'] R r(3,5) ptr_cong[of h' h m] by (cases m) auto
  show "rb_key h' = rb_key h" "rb_sentinel h' = rb_sentinel h" "\<not> rb_red h' (rb_sentinel h)"
    using r(2-4) assms(2) n by auto
qed

lemma delete_two:
  assumes "rep h (RT c l z r) C" "balanced (plug (RT c l z r) C)" "l \<noteq> RE" "r \<noteq> RE" "\<not> rb_red h (rb_sentinel h)"
  shows "\<exists>h'. ngx_rbtree_delete z h = Some h' \<and> rb_tree h' (before C @ nodes l @ nodes r @ after C) \<and>
    rb_key h' = (rb_key h)(z := 0) \<and> rb_sentinel h' = rb_sentinel h"
proof -
  have "rep h r (FR c l z # C)" using assms(1) by (simp add: rep_up)
  from rb_min[OF this assms(4)] obtain cy y m D where r: "r = plug (RT cy RE y m) D" "before D = []"
    and min: "ngx_rbtree_min (ptr h r) h = Some y" by blast
  let ?D = "D @ FR c l y # C" and ?h2 = "rb_delete_move z (ptr h m) y (rb_unlink y (ptr h m) h)"
  have Y: "rep h (RT cy RE y m) (D @ FR c l z # C)" using assms(1) r(1) by (simp add: rep_append[symmetric] rep_up)
  note mv = delete_two_move[OF assms(1)[unfolded r(1)] assms(5)]
  have root: "y \<noteq> rb_root h" using rep_root[OF Y] by auto
  have dist: "distinct (before C @ nodes l @ z # nodes r @ after C)" using rep_distinct[OF assms(1)] by simp
  have kids: "rb_left h z \<noteq> rb_sentinel h" "rb_right h z \<noteq> rb_sentinel h" "rb_right h z = ptr h r"
    using rep_node(1,2)[OF assms(1)] rep_nodes(1)[OF assms(1)] ptr_in[OF assms(3), of h] ptr_in[OF assms(4), of h] by auto
  have subst: "rb_delete_subst z h = Some (ptr h m, y)" "y \<noteq> z" "rb_red h y = cy"
    using kids min rep_node(1-3)[OF Y] dist r(1) by (auto simp: rb_delete_subst_def)
  have d: "z \<notin> set (before ?D @ nodes m @ after ?D)" "ptr h m \<noteq> z"
    using dist r rep_nodes(1)[OF assms(1)] ptr_in[of m h] by (cases m; auto)+
  have R: "rep (rb_clear z ?h2) m ?D" using rep_clear[OF mv(1)] d by simp
  obtain k where "rb m k" "if cy then rbc (D @ FR c l z # C) k True \<and> \<not> is_red m else rbc (D @ FR c l z # C) (Suc k) False"
    using balanced_hole[of cy RE y m "D @ FR c l z # C" m] assms(2) r(1) by (auto simp: plug_append[symmetric])
  hence k: "rb m k" "if cy then rbc ?D k True \<and> \<not> is_red m else rbc ?D (Suc k) False" by (simp_all only: rbc_rename[of D c l z C _ _ y])
  have tp: "ptr (rb_clear z ?h2) m = ptr h m" by (rule ptr_cong) (simp add: rb_clear_fields mv)
  have eq: "ngx_rbtree_delete z h = (if cy then Some (rb_clear z ?h2) else rb_delete_fix (ptr h m) (rb_clear z ?h2))"
    using subst root by (simp add: ngx_rbtree_delete_def Let_def)
  have ns: "before ?D @ nodes m @ after ?D = before C @ nodes l @ nodes r @ after C" using r by simp
  have "rb_parent (rb_clear z ?h2) (ptr h m) = frame_addr (hd ?D)" "\<not> rb_red (rb_clear z ?h2) (rb_sentinel (rb_clear z ?h2))"
      "rb_key (rb_clear z ?h2) = (rb_key h)(z := 0)" "rb_sentinel (rb_clear z ?h2) = rb_sentinel h"
    using mv(2-5) d(2) by (simp_all add: rb_clear_fields)
  with delete_finish[OF R _ k, unfolded ns tp] show ?thesis unfolding eq by simp
qed

lemma rb_delete:
  assumes "rb_tree h ns" "z \<in> set ns"
  shows "\<exists>h'. ngx_rbtree_delete z h = Some h' \<and> rb_tree h' (remove1 z ns) \<and>
    rb_key h' = (rb_key h)(z := 0) \<and> rb_sentinel h' = rb_sentinel h"
proof -
  obtain t where t: "rep h t []" "balanced t" "nodes t = ns" and s: "\<not> rb_red h (rb_sentinel h)"
    using assms(1) by (auto simp: rb_tree_def)
  obtain c l r C where f: "t = plug (RT c l z r) C" using focus[of z t] assms(2) t(3) by auto
  have R: "rep h (RT c l z r) C" using t(1) f rep_plug by blast
  have ns: "ns = before C @ nodes l @ z # nodes r @ after C" using f t(3) by auto
  have "z \<notin> set (before C @ nodes l)" using rep_distinct[OF R] by auto
  hence rem: "remove1 z ns = before C @ nodes l @ nodes r @ after C" by (simp add: ns remove1_append)
  consider "l = RE" | "r = RE" | "l \<noteq> RE" "r \<noteq> RE" by blast
  thus ?thesis
  proof cases
    case 1
    with delete_one[OF R t(2)[unfolded f], of r] s rem show ?thesis by simp
  next
    case 2
    with delete_one[OF R t(2)[unfolded f], of l] s rem show ?thesis by simp
  next
    case 3
    with delete_two[OF R t(2)[unfolded f]] s rem show ?thesis by simp
  qed
qed

section \<open>The smallest node and the next one\<close>

lemma rb_min_first:
  assumes "rb_tree h ns" "ns \<noteq> []"
  shows "rb_root h \<noteq> rb_sentinel h" "ngx_rbtree_min (rb_root h) h = Some (hd ns)"
proof -
  obtain t where t: "rep h t []" "nodes t = ns" using assms(1) by (auto simp: rb_tree_def)
  have ne: "t \<noteq> RE" using assms(2) t(2) by auto
  have root: "rb_root h = ptr h t" using rep_root[OF t(1)] by simp
  with rep_nodes(1)[OF t(1), of "ptr h t"] ptr_in[OF ne, of h] show "rb_root h \<noteq> rb_sentinel h" by simp
  from rb_min[OF t(1) ne] t(2) root show "ngx_rbtree_min (rb_root h) h = Some (hd ns)" by auto
qed

lemma rb_empty: "rb_tree h ns \<Longrightarrow> rb_root h = rb_sentinel h \<longleftrightarrow> ns = []"
  using rb_min_first(1)[of h ns] by (auto simp: rb_tree_def) (metis append_is_Nil_conv list.distinct(1) nodes.elims ptr.simps(1) rep_root)

lemma rb_next_up:
  assumes "rep h t C" "t \<noteq> RE"
  shows "rb_next_up (ptr h t) h = Some (case after C of [] \<Rightarrow> NULL | a # _ \<Rightarrow> a)"
  using assms
proof (induction C arbitrary: t)
  case Nil
  thus ?case using rep_root[OF Nil.prems(1)] by (subst rb_next_up.simps) simp
next
  case (Cons f C)
  have root: "ptr h t \<noteq> rb_root h" using rep_root[OF Cons.prems(1)] by auto
  have p: "rb_parent h (ptr h t) = frame_addr f" using rep_frame(1)[OF Cons.prems] .
  note side = rep_side[OF Cons.prems(1)]
  show ?case
  proof (cases f)
    case (FL c a r)
    with root p side show ?thesis by (subst rb_next_up.simps) simp
  next
    case (FR c l a)
    have "rep h (RT c l a t) C" using Cons.prems(1) FR by (simp add: rep_up)
    from Cons.IH[OF this] FR root p side Cons.prems(2) show ?thesis by (subst rb_next_up.simps) simp
  qed
qed

lemma nth_after:
  "(if Suc (length xs) < length (xs @ z # ys) then (xs @ z # ys) ! Suc (length xs) else NULL) = (case ys of [] \<Rightarrow> NULL | a # _ \<Rightarrow> a)"
  by (cases ys) (simp_all add: nth_append)

lemma rb_next:
  assumes "rb_tree h ns" "i < length ns"
  shows "ngx_rbtree_next (ns ! i) h = Some (if Suc i < length ns then ns ! Suc i else NULL)"
proof -
  obtain t where t: "rep h t []" "nodes t = ns" using assms(1) by (auto simp: rb_tree_def)
  obtain c l r C where f: "t = plug (RT c l (ns ! i) r) C" using focus[of "ns ! i" t] assms(2) t(2) by auto
  have R: "rep h (RT c l (ns ! i) r) C" using t(1) f rep_plug by blast
  have ns: "ns = (before C @ nodes l) @ ns ! i # (nodes r @ after C)" using f t(2) by (metis append.assoc append_Cons nodes.simps(2) nodes_plug)
  have "distinct ns" using rep_distinct[OF t(1)] t(2) by simp
  hence i: "length (before C @ nodes l) = i"
    using ns assms(2) nth_eq_iff_index_eq[of ns "length (before C @ nodes l)" i]
    by (metis length_append_singleton length_Cons length_append add_Suc_right less_add_Suc1 nth_append_length)
  have succ: "(if Suc i < length ns then ns ! Suc i else NULL) = (case nodes r @ after C of [] \<Rightarrow> NULL | a # _ \<Rightarrow> a)"
    using nth_after[of "before C @ nodes l" "ns ! i" "nodes r @ after C"] unfolding i ns[symmetric] .
  show ?thesis
  proof (cases "r = RE")
    case True
    hence "rb_right h (ns ! i) = rb_sentinel h" using rep_node(2)[OF R] by simp
    with rb_next_up[OF R] True succ show ?thesis by (simp add: ngx_rbtree_next_def)
  next
    case False
    have "rep h r (FR c l (ns ! i) # C)" using R by (simp add: rep_up)
    from rb_min[OF this False] have "ngx_rbtree_min (ptr h r) h = Some (hd (nodes r))" "nodes r \<noteq> []" by auto
    moreover have "ptr h r \<noteq> rb_sentinel h" using rep_nodes(1)[OF R, of "ptr h r"] ptr_in[OF False, of h] by simp
    ultimately show ?thesis using rep_node(2)[OF R] succ by (cases "nodes r") (simp_all add: ngx_rbtree_next_def)
  qed
qed

end
