(* ===== verification/Ngx_Rbtree_Order.thy ===== *)
theory Ngx_Rbtree_Order
  imports Ngx_Rbtree_Delete
begin

text \<open>
  The contract the users of the red-black tree rely on, as a locale over the sequence of nodes in
  order, with the facts on sorted sequences they need; its two interpretations are the tree with
  plain keys (\<open>ngx_rbtree_insert_value\<close>) and with timer keys (\<open>ngx_rbtree_insert_timer_value\<close>).
\<close>

section \<open>The interface\<close>

locale node_order =
  fixes tree :: "'s \<Rightarrow> addr list \<Rightarrow> bool" and key :: "'s \<Rightarrow> addr \<Rightarrow> rb_key" and node :: "'s \<Rightarrow> addr \<Rightarrow> bool"
    and lt :: "rb_key \<Rightarrow> rb_key \<Rightarrow> bool"
    and ins :: "addr \<Rightarrow> 's \<Rightarrow> 's option" and del :: "addr \<Rightarrow> 's \<Rightarrow> 's option"
    and first :: "'s \<Rightarrow> addr option" and succ :: "addr \<Rightarrow> 's \<Rightarrow> addr option"
  assumes tree_distinct: "tree s ns \<Longrightarrow> distinct ns"
    and tree_node: "tree s ns \<Longrightarrow> a \<in> set ns \<Longrightarrow> node s a"
    and tree_ins: "tree s ns \<Longrightarrow> node s z \<Longrightarrow> z \<notin> set ns \<Longrightarrow>
      sorted_wrt (\<lambda>a b. lt (key s z) (key s a) \<longrightarrow> lt (key s z) (key s b)) ns \<Longrightarrow>
      \<exists>s'. ins z s = Some s' \<and> tree s' (rb_insert_place lt (key s) z ns) \<and> key s' = key s \<and> node s' = node s"
    and tree_del: "tree s ns \<Longrightarrow> z \<in> set ns \<Longrightarrow>
      \<exists>s'. del z s = Some s' \<and> tree s' (remove1 z ns) \<and> key s' = (key s)(z := 0) \<and> node s' = node s"
    and tree_first: "tree s ns \<Longrightarrow> ns \<noteq> [] \<Longrightarrow> first s = Some (hd ns)"
    and tree_succ: "tree s ns \<Longrightarrow> i < length ns \<Longrightarrow> succ (ns ! i) s = Some (if Suc i < length ns then ns ! Suc i else NULL)"
    and node_not_NULL: "node s a \<Longrightarrow> a \<noteq> NULL"
begin

text \<open>
  The keys in use, \<open>W\<close>, are ordered by a rank that the comparison agrees with on them, and the
  sequence is sorted by it.
\<close>

definition agrees :: "(rb_key \<Rightarrow> nat) \<Rightarrow> rb_key set \<Rightarrow> bool" where
  "agrees rank W \<longleftrightarrow> (\<forall>a\<in>W. \<forall>b\<in>W. lt a b \<longleftrightarrow> rank a < rank b)"

definition ordered :: "(rb_key \<Rightarrow> nat) \<Rightarrow> rb_key set \<Rightarrow> 's \<Rightarrow> addr list \<Rightarrow> bool" where
  "ordered rank W s ns \<longleftrightarrow> tree s ns \<and> key s ` set ns \<subseteq> W \<and> sorted (map (\<lambda>a. rank (key s a)) ns)"

lemma ordered_mono: "ordered rank W s ns \<Longrightarrow> sorted_wrt (\<lambda>a b. rank (key s a) \<le> rank (key s b)) ns"
  by (simp add: ordered_def sorted_wrt_map)

lemma place_sorted:
  assumes "sorted_wrt (\<lambda>a b. f a \<le> (f b :: nat)) ns" "\<And>a. a \<in> set ns \<Longrightarrow> P a \<longleftrightarrow> f z < f a"
  shows "sorted (map f (filter (\<lambda>a. \<not> P a) ns @ z # filter P ns))"
proof -
  have "sorted (map f (filter (\<lambda>a. \<not> P a) ns))" "sorted (map f (filter P ns))"
    using assms(1) by (simp_all add: sorted_wrt_map sorted_wrt_filter)
  moreover have "f a \<le> f b" if "a \<in> set (filter (\<lambda>a. \<not> P a) ns)" "b \<in> set (z # filter P ns)" for a b
    using that assms(2) by (auto simp: not_less)
  moreover have "\<forall>b\<in>set (filter P ns). f z \<le> f b" using assms(2) by (auto intro: less_imp_le)
  ultimately show ?thesis by (auto simp: sorted_append)
qed

lemma ins_ordered:
  assumes "ordered rank W s ns" "agrees rank W" "node s z" "z \<notin> set ns" "key s z \<in> W"
  shows "\<exists>s'. ins z s = Some s' \<and> ordered rank W s' (rb_insert_place lt (key s) z ns) \<and> key s' = key s \<and> node s' = node s"
proof -
  have lt: "lt (key s z) (key s a) \<longleftrightarrow> rank (key s z) < rank (key s a)" if "a \<in> set ns" for a
    using assms that unfolding ordered_def agrees_def by blast
  have mono: "sorted_wrt (\<lambda>a b. rank (key s a) \<le> rank (key s b)) ns" using ordered_mono[OF assms(1)] .
  have "sorted_wrt (\<lambda>a b. lt (key s z) (key s a) \<longrightarrow> lt (key s z) (key s b)) ns"
    by (rule sorted_wrt_mono_rel[OF _ mono]) (auto simp: lt)
  moreover have "tree s ns" using assms(1) by (simp add: ordered_def)
  ultimately obtain s' where
    s': "ins z s = Some s'" "tree s' (rb_insert_place lt (key s) z ns)" "key s' = key s" "node s' = node s"
    using tree_ins[of s ns z] assms(3,4) by blast
  have "sorted (map (\<lambda>a. rank (key s a)) (rb_insert_place lt (key s) z ns))"
    unfolding rb_insert_place_def by (rule place_sorted[OF mono lt])
  with s' assms(1,5) show ?thesis unfolding ordered_def rb_insert_place_def by auto
qed

lemma del_ordered:
  assumes "ordered rank W s ns" "z \<in> set ns"
  shows "\<exists>s'. del z s = Some s' \<and> ordered rank W s' (remove1 z ns) \<and> key s' = (key s)(z := 0) \<and> node s' = node s"
proof -
  have d: "distinct ns" using assms(1) tree_distinct by (auto simp: ordered_def)
  have "tree s ns" using assms(1) by (simp add: ordered_def)
  from tree_del[OF this assms(2)] obtain s' where
    s': "del z s = Some s'" "tree s' (remove1 z ns)" "key s' = (key s)(z := 0)" "node s' = node s"
    by blast
  have r: "remove1 z ns = filter (\<lambda>a. z \<noteq> a) ns" using d by (simp add: distinct_remove1_removeAll removeAll_filter_not_eq)
  have "map (\<lambda>a. rank (key s' a)) (remove1 z ns) = map (\<lambda>a. rank (key s a)) (remove1 z ns)"
    by (simp add: r s'(3))
  moreover have "sorted (map (\<lambda>a. rank (key s a)) (remove1 z ns))"
    using assms(1) by (simp add: r ordered_def sorted_wrt_map sorted_wrt_filter)
  ultimately have "sorted (map (\<lambda>a. rank (key s' a)) (remove1 z ns))" by (simp only:)
  moreover have "key s' ` set (remove1 z ns) \<subseteq> W" using assms(1) by (auto simp: r s'(3) ordered_def)
  ultimately show ?thesis using s' unfolding ordered_def by blast
qed

lemma first_least:
  assumes "ordered rank W s ns" "ns \<noteq> []"
  shows "first s = Some (hd ns)" "\<And>a. a \<in> set ns \<Longrightarrow> rank (key s (hd ns)) \<le> rank (key s a)"
  using assms tree_first[of s ns] by (cases ns; auto simp: ordered_def)+

text \<open>A loop from the first node along \<open>succ\<close> visits the nodes in order.\<close>

lemma succ_suffix:
  assumes "tree s ns" "ns = xs @ a # ys"
  shows "succ a s = Some (case ys of [] \<Rightarrow> NULL | b # _ \<Rightarrow> b)"
  using tree_succ[OF assms(1), of "length xs"] assms(2) by (cases ys) (simp_all add: nth_append)

end

section \<open>The red-black tree provides it\<close>

definition rb_node :: "rbtree \<Rightarrow> addr \<Rightarrow> bool" where
  "rb_node h a \<longleftrightarrow> a \<noteq> rb_sentinel h \<and> a \<noteq> NULL"

definition rb_first :: "rbtree \<Rightarrow> addr option" where
  "rb_first h = ngx_rbtree_min (rb_root h) h"

lemma rb_tree_nodes: "rb_tree h ns \<Longrightarrow> distinct ns" "rb_tree h ns \<Longrightarrow> a \<in> set ns \<Longrightarrow> rb_node h a"
  using rep_distinct[of h _ "[]"] rep_nodes[of h _ "[]" a] by (auto simp: rb_tree_def rb_node_def)

lemma node_order_rb: "node_order rb_tree rb_key rb_node lt (ngx_rbtree_insert (rb_insert_with lt)) ngx_rbtree_delete rb_first ngx_rbtree_next"
proof
  show "\<exists>s'. ngx_rbtree_insert (rb_insert_with lt) z s = Some s' \<and> rb_tree s' (rb_insert_place lt (rb_key s) z ns) \<and>
      rb_key s' = rb_key s \<and> rb_node s' = rb_node s"
    if "rb_tree s ns" "rb_node s z" "z \<notin> set ns"
      "sorted_wrt (\<lambda>a b. lt (rb_key s z) (rb_key s a) \<longrightarrow> lt (rb_key s z) (rb_key s b)) ns" for s ns z
    using rb_insert[of s ns z lt] that by (auto simp: rb_node_def fun_eq_iff)
  show "\<exists>s'. ngx_rbtree_delete z s = Some s' \<and> rb_tree s' (remove1 z ns) \<and> rb_key s' = (rb_key s)(z := 0) \<and> rb_node s' = rb_node s"
    if "rb_tree s ns" "z \<in> set ns" for s ns z
    using rb_delete[OF that] by (auto simp: rb_node_def fun_eq_iff)
qed (use rb_tree_nodes rb_min_first(2) rb_next in \<open>auto simp: rb_first_def rb_node_def\<close>)

interpretation rbv: node_order rb_tree rb_key rb_node "(<)" "ngx_rbtree_insert ngx_rbtree_insert_value" ngx_rbtree_delete rb_first ngx_rbtree_next
  unfolding insert_values by (rule node_order_rb)

interpretation rbt: node_order rb_tree rb_key rb_node timer_less "ngx_rbtree_insert ngx_rbtree_insert_timer_value" ngx_rbtree_delete rb_first ngx_rbtree_next
  unfolding insert_values by (rule node_order_rb)

lemma rbv_agrees: "rbv.agrees unat UNIV"
  by (simp add: rbv.agrees_def word_less_nat_alt)

text \<open>Timer keys compare right when they lie within half the range above some base.\<close>

definition window :: "rb_key \<Rightarrow> rb_key set" where
  "window b = {k. unat (k - b) < 2 ^ 63}"

lemma sint_window:
  assumes "k \<in> window b" "l \<in> window b"
  shows "sint (k - l) = int (unat (k - b)) - int (unat (l - b))"
proof -
  let ?x = "uint (k - b)" and ?y = "uint (l - b)"
  have n: "?x = int (unat (k - b))" "?y = int (unat (l - b))" by simp_all
  have "unat (k - b) < 2 ^ 63" "unat (l - b) < 2 ^ 63" using assms by (auto simp: window_def)
  hence b: "0 \<le> ?x" "?x < 2 ^ 63" "0 \<le> ?y" "?y < 2 ^ 63" unfolding n by (simp_all only: of_nat_less_numeral_power_cancel_iff of_nat_0_le_iff)
  have "k - l = word_of_int (?x - ?y)" by simp
  hence "sint (k - l) = sint (word_of_int (?x - ?y) :: rb_key)" by (rule arg_cong)
  also have "\<dots> = signed_take_bit 63 (?x - ?y)" by (subst sint_sbintrunc') simp
  also have "\<dots> = ?x - ?y"
  proof (rule signed_take_bit_int_eq_self)
    show "- (2 ^ 63) \<le> ?x - ?y" using b(1,4) by linarith
    show "?x - ?y < 2 ^ 63" using b(2,3) by linarith
  qed
  finally show ?thesis by (simp only: n)
qed

lemma timer_less_window:
  "k \<in> window b \<Longrightarrow> l \<in> window b \<Longrightarrow> timer_less k l \<longleftrightarrow> unat (k - b) < unat (l - b)"
  using sint_window[of k b l] unfolding timer_less_def by linarith

lemma rbt_agrees: "rbt.agrees (\<lambda>k. unat (k - b)) (window b)"
  unfolding rbt.agrees_def by (intro ballI timer_less_window)

section \<open>Properties\<close>

lemma place_set [simp]: "set (rb_insert_place lt key z ns) = insert z (set ns)"
  by (auto simp: rb_insert_place_def)

text \<open>
  C6 (refinement). Insertion refines insertion into a sorted sequence. On a store whose pointers form a
  balanced tree sorted by key, \<open>ngx_rbtree_insert\<close> returns (both loops end), the store again holds a
  balanced tree, its sequence of nodes is the old one with the new node behind all nodes with a
  key not above its own, and the sequence is sorted. No key changes.\<close>

theorem rbtree_insert_refines:
  assumes "rb_tree h ns" "sorted (map (rb_key h) ns)" "z \<notin> set ns" "z \<noteq> rb_sentinel h" "z \<noteq> NULL"
  shows "\<exists>h'. ngx_rbtree_insert ngx_rbtree_insert_value z h = Some h' \<and>
     rb_tree h' (filter (\<lambda>a. rb_key h a \<le> rb_key h z) ns @ z # filter (\<lambda>a. rb_key h z < rb_key h a) ns) \<and>
     sorted (map (rb_key h') (filter (\<lambda>a. rb_key h a \<le> rb_key h z) ns @ z # filter (\<lambda>a. rb_key h z < rb_key h a) ns)) \<and>
     rb_key h' = rb_key h"
proof -
  have m: "sorted (map (\<lambda>a. unat (rb_key h a)) xs) \<longleftrightarrow> sorted (map (rb_key h) xs)" for xs
    by (simp add: sorted_wrt_map word_le_nat_alt)
  have "rbv.ordered unat UNIV h ns" using assms(1,2) by (simp add: rbv.ordered_def m)
  from rbv.ins_ordered[OF this rbv_agrees] assms(3-5) obtain h' where
    "ngx_rbtree_insert ngx_rbtree_insert_value z h = Some h'" "rb_key h' = rb_key h"
    "rbv.ordered unat UNIV h' (rb_insert_place (<) (rb_key h) z ns)"
    by (auto simp: rb_node_def)
  thus ?thesis using m[of "rb_insert_place (<) (rb_key h) z ns"]
    by (auto simp: rbv.ordered_def rb_insert_place_def not_less)
qed

text \<open>
  C9 (refinement). Deletion refines the removal from the sequence: on a balanced tree with the node in
  it, \<open>ngx_rbtree_delete\<close> returns, the store holds a balanced tree, its sequence of nodes is the old
  one without the node, and only the removed node's key is cleared.\<close>

theorem rbtree_delete_refines:
  assumes "rb_tree h ns" "z \<in> set ns"
  shows "\<exists>h'. ngx_rbtree_delete z h = Some h' \<and> rb_tree h' (remove1 z ns) \<and> rb_key h' = (rb_key h)(z := 0)"
  using rb_delete[OF assms] by blast

text \<open>A tree to apply them to: what the code builds from an empty one.\<close>

definition rb_example :: rbtree where
  "rb_example = ngx_rbtree_init 1 \<lparr>rb_key = (\<lambda>a. word_of_nat (a mod 4)), rb_left = (\<lambda>_. 0), rb_right = (\<lambda>_. 0),
     rb_parent = (\<lambda>_. 0), rb_red = (\<lambda>_. True), rb_root = 0, rb_sentinel = 0\<rparr>"

lemma rb_init: "s \<noteq> NULL \<Longrightarrow> rb_tree (ngx_rbtree_init s h) []"
  by (auto simp: rb_tree_def ngx_rbtree_init_def rep_def balanced_def set_root_def intro!: exI[of _ RE])

lemma rb_example: "rb_tree rb_example []" "rb_sentinel rb_example = 1" "rb_key rb_example = (\<lambda>a. word_of_nat (a mod 4))"
  by (simp_all add: rb_example_def rb_init) (simp_all add: ngx_rbtree_init_def)

theorem rbtree_insert_refines_witness:
  "\<exists>h'. ngx_rbtree_insert ngx_rbtree_insert_value 2 rb_example = Some h' \<and>
     rb_tree h' (filter (\<lambda>a. rb_key rb_example a \<le> rb_key rb_example 2) [] @ 2 # filter (\<lambda>a. rb_key rb_example 2 < rb_key rb_example a) []) \<and>
     sorted (map (rb_key h') (filter (\<lambda>a. rb_key rb_example a \<le> rb_key rb_example 2) [] @ 2 # filter (\<lambda>a. rb_key rb_example 2 < rb_key rb_example a) [])) \<and>
     rb_key h' = rb_key rb_example"
  by (rule rbtree_insert_refines[OF rb_example(1)]) (simp_all add: rb_example(2))

definition rb_example3 :: rbtree where
  "rb_example3 = (let ins = (\<lambda>z h. the (ngx_rbtree_insert ngx_rbtree_insert_value z h)) in ins 7 (ins 5 (ins 6 rb_example)))"

lemma rb_example3_fields:
  "rb_root rb_example3 = 6 \<and> rb_left rb_example3 6 = 5 \<and> rb_right rb_example3 6 = 7 \<and> rb_sentinel rb_example3 = 1 \<and>
   rb_left rb_example3 5 = 1 \<and> rb_right rb_example3 5 = 1 \<and> rb_left rb_example3 7 = 1 \<and> rb_right rb_example3 7 = 1 \<and>
   rb_parent rb_example3 5 = 6 \<and> rb_parent rb_example3 7 = 6 \<and> \<not> rb_red rb_example3 6 \<and> rb_red rb_example3 5 \<and>
   rb_red rb_example3 7 \<and> \<not> rb_red rb_example3 1"
  by code_simp

lemma rb_example3: "rb_tree rb_example3 [5, 6, 7]"
proof -
  have "rep rb_example3 (RT False (RT True RE 5 RE) 6 (RT True RE 7 RE)) [] \<and> \<not> rb_red rb_example3 (rb_sentinel rb_example3)"
    using rb_example3_fields by (auto simp: rep_def)
  thus ?thesis by (intro rb_treeI[where t = "RT False (RT True RE 5 RE) 6 (RT True RE 7 RE)" and C = "[]" and n = 1]) simp_all
qed

theorem rbtree_delete_refines_witness:
  "\<exists>h'. ngx_rbtree_delete 6 rb_example3 = Some h' \<and> rb_tree h' (remove1 6 [5, 6, 7]) \<and> rb_key h' = (rb_key rb_example3)(6 := 0)"
  by (rule rbtree_delete_refines[OF rb_example3]) simp

text \<open>The way up from a place is as long as its context.\<close>

lemma rep_path: "rep h t C \<Longrightarrow> t \<noteq> RE \<Longrightarrow> (rb_parent h ^^ length C) (ptr h t) = rb_root h"
proof (induction C arbitrary: t)
  case Nil
  thus ?case using rep_root[of h t "[]"] by simp
next
  case (Cons f C)
  have "rep h (plug t [f]) C" "ptr h (plug t [f]) = frame_addr f" "plug t [f] \<noteq> RE"
    using Cons.prems(1) by (cases f; simp add: rep_up)+
  moreover have "rb_parent h (ptr h t) = frame_addr f" using rep_frame(1)[OF Cons.prems] .
  ultimately show ?case using Cons.IH[of "plug t [f]"] by (simp add: funpow_swap1[symmetric] funpow_Suc_right del: funpow.simps)
qed

lemma plug_height: "length C + rheight t \<le> rheight (plug t C)"
proof (induction t C rule: plug.induct)
  case (2 t c a r C)
  then show ?case by simp
qed auto



end
