(* ===== verification/Ngx_Event_Timer.thy ===== *)
theory Ngx_Event_Timer
  imports Ngx_Rbtree_Order
begin

text \<open>
  \<^verbatim>\<open>event/ngx_event_timer.c\<close>, \<^verbatim>\<open>event/ngx_event_timer.h\<close>: the timers of the event loop. They are the
  nodes of a red-black tree whose keys are the milliseconds at which they expire, modulo the
  word; an event is identified with the address of the tree node inside it.
\<close>

section \<open>The operations\<close>

type_synonym ngx_msec_t = "64 word"

abbreviation NGX_TIMER_INFINITE :: ngx_msec_t where "NGX_TIMER_INFINITE \<equiv> - 1"
abbreviation NGX_TIMER_LAZY_DELAY :: int where "NGX_TIMER_LAZY_DELAY \<equiv> 300"

record timers =
  ngx_event_timer_rbtree :: rbtree
  ngx_current_msec :: ngx_msec_t
  timer_set :: "addr \<Rightarrow> bool"
  timedout :: "addr \<Rightarrow> bool"
  cancelable :: "addr \<Rightarrow> bool"

definition ngx_event_timer_init :: "addr \<Rightarrow> timers \<Rightarrow> timers" where
  "ngx_event_timer_init sentinel st =
     st\<lparr>ngx_event_timer_rbtree := ngx_rbtree_init sentinel (ngx_event_timer_rbtree st)\<rparr>"

definition ngx_event_del_timer :: "addr \<Rightarrow> timers \<Rightarrow> timers option" where
  "ngx_event_del_timer ev st =
     do { h \<leftarrow> ngx_rbtree_delete ev (ngx_event_timer_rbtree st);
          Some (st\<lparr>ngx_event_timer_rbtree := h, timer_set := (timer_set st)(ev := False)\<rparr>) }"

text \<open>\<open>ngx_abs\<close> of a signed word: the smallest value is its own negation.\<close>

definition ngx_abs :: "64 word \<Rightarrow> int" where
  "ngx_abs w = (if 0 \<le> sint w then sint w else sint (- w))"

definition add_timer_node :: "addr \<Rightarrow> ngx_msec_t \<Rightarrow> timers \<Rightarrow> timers option" where
  "add_timer_node ev key st =
     do { h \<leftarrow> ngx_rbtree_insert ngx_rbtree_insert_timer_value ev (set_key ev key (ngx_event_timer_rbtree st));
          Some (st\<lparr>ngx_event_timer_rbtree := h, timer_set := (timer_set st)(ev := True)\<rparr>) }"

definition ngx_event_add_timer :: "addr \<Rightarrow> ngx_msec_t \<Rightarrow> timers \<Rightarrow> timers option" where
  "ngx_event_add_timer ev timer st =
     (let key = ngx_current_msec st + timer in
      if timer_set st ev
      then let diff = key - rb_key (ngx_event_timer_rbtree st) ev in
           if ngx_abs diff < NGX_TIMER_LAZY_DELAY then Some st
           else do { st1 \<leftarrow> ngx_event_del_timer ev st; add_timer_node ev key st1 }
      else add_timer_node ev key st)"

definition ngx_event_find_timer :: "timers \<Rightarrow> ngx_msec_t option" where
  "ngx_event_find_timer st =
     (let h = ngx_event_timer_rbtree st in
      if rb_root h = rb_sentinel h then Some NGX_TIMER_INFINITE
      else do { node \<leftarrow> ngx_rbtree_min (rb_root h) h;
                let timer = rb_key h node - ngx_current_msec st in
                Some (if 0 < sint timer then timer else 0) })"

text \<open>
  The loop calls the handlers of the events; \<open>handler\<close> stands for \<open>ev->handler(ev)\<close>, which may itself
  set and delete timers. The events whose handlers were called are returned in their order.
\<close>

partial_function (option) ngx_event_expire_timers :: "(addr \<Rightarrow> timers \<Rightarrow> timers option) \<Rightarrow> timers \<Rightarrow> (addr list \<times> timers) option" where
  [code]: "ngx_event_expire_timers handler st =
     (let h = ngx_event_timer_rbtree st in
      if rb_root h = rb_sentinel h then Some ([], st)
      else do { node \<leftarrow> ngx_rbtree_min (rb_root h) h;
                if 0 < sint (rb_key h node - ngx_current_msec st) then Some ([], st)
                else do { h1 \<leftarrow> ngx_rbtree_delete node h;
                          st1 \<leftarrow> handler node (st\<lparr>ngx_event_timer_rbtree := h1, timer_set := (timer_set st)(node := False),
                                    timedout := (timedout st)(node := True)\<rparr>);
                          (fired, st2) \<leftarrow> ngx_event_expire_timers handler st1;
                          Some (node # fired, st2) } })"

partial_function (option) no_timers_loop :: "addr \<Rightarrow> timers \<Rightarrow> ngx_rc option" where
  [code]: "no_timers_loop node st =
     (if node = NULL then Some NGX_OK
      else if \<not> cancelable st node then Some NGX_AGAIN
      else do { n \<leftarrow> ngx_rbtree_next node (ngx_event_timer_rbtree st); no_timers_loop n st })"

definition ngx_event_no_timers_left :: "timers \<Rightarrow> ngx_rc option" where
  "ngx_event_no_timers_left st =
     (let h = ngx_event_timer_rbtree st in
      if rb_root h = rb_sentinel h then Some NGX_OK
      else do { node \<leftarrow> ngx_rbtree_min (rb_root h) h; no_timers_loop node st })"

section \<open>The invariant\<close>

text \<open>
  All deadlines and the current time lie within half the range of the word above some base \<open>b\<close>; they
  are measured from it. \<open>timers_ok b st ns\<close> says that \<open>ns\<close> are the events with a timer, in the order
  of their deadlines, and that they are the nodes of the tree.
\<close>

definition deadline :: "ngx_msec_t \<Rightarrow> timers \<Rightarrow> addr \<Rightarrow> nat" where
  "deadline b st a = unat (rb_key (ngx_event_timer_rbtree st) a - b)"

definition clock :: "ngx_msec_t \<Rightarrow> timers \<Rightarrow> nat" where
  "clock b st = unat (ngx_current_msec st - b)"

definition timers_ok :: "ngx_msec_t \<Rightarrow> timers \<Rightarrow> addr list \<Rightarrow> bool" where
  "timers_ok b st ns \<longleftrightarrow> rb_tree (ngx_event_timer_rbtree st) ns \<and>
     (\<forall>a\<in>set ns. deadline b st a < 2 ^ 63) \<and> clock b st < 2 ^ 63 \<and>
     sorted (map (deadline b st) ns) \<and> (\<forall>a. timer_set st a \<longleftrightarrow> a \<in> set ns)"

definition due :: "ngx_msec_t \<Rightarrow> timers \<Rightarrow> addr \<Rightarrow> bool" where
  "due b st a \<longleftrightarrow> deadline b st a \<le> clock b st"

lemma timers_ok_ordered:
  "timers_ok b st ns \<longleftrightarrow> rbt.ordered (\<lambda>k. unat (k - b)) (window b) (ngx_event_timer_rbtree st) ns \<and>
     ngx_current_msec st \<in> window b \<and> (\<forall>a. timer_set st a \<longleftrightarrow> a \<in> set ns)"
  unfolding timers_ok_def rbt.ordered_def window_def deadline_def clock_def by auto

lemma set_key_ordered:
  assumes "rbt.ordered rank W h ns" "z \<notin> set ns"
  shows "rbt.ordered rank W (set_key z k h) ns"
proof -
  have t: "rb_tree (set_key z k h) ns"
  proof -
    obtain t where t: "rep h t []" "balanced t" "nodes t = ns" and s: "\<not> rb_red h (rb_sentinel h)"
      using assms(1) by (auto simp: rbt.ordered_def rb_tree_def)
    obtain par where "ctx h par (ptr h t) []" "shape h par t" using t(1) by (auto simp: rep_def)
    moreover have "shape (set_key z k h) par t" by (rule shape_cong[OF \<open>shape h par t\<close>]) (simp_all add: same_at_def)
    moreover have "ptr (set_key z k h) t = ptr h t" by (rule ptr_cong) simp
    ultimately have "rep (set_key z k h) t []" using t(1) unfolding rep_def by auto
    with t s show ?thesis unfolding rb_tree_def by auto
  qed
  have "map (\<lambda>a. rank (rb_key (set_key z k h) a)) ns = map (\<lambda>a. rank (rb_key h a)) ns"
    using assms(2) by auto
  hence "sorted (map (\<lambda>a. rank (rb_key (set_key z k h) a)) ns)"
    using assms(1) unfolding rbt.ordered_def by (simp only:)
  moreover have "rb_key (set_key z k h) ` set ns \<subseteq> W" using assms unfolding rbt.ordered_def by auto
  ultimately show ?thesis using t unfolding rbt.ordered_def by blast
qed

lemma add_timer_node:
  assumes "timers_ok b st ns" "ev \<notin> set ns" "rb_node (ngx_event_timer_rbtree st) ev" "key \<in> window b"
  shows "\<exists>st' ns'. add_timer_node ev key st = Some st' \<and> timers_ok b st' ns' \<and> set ns' = insert ev (set ns) \<and>
    rb_key (ngx_event_timer_rbtree st') = (rb_key (ngx_event_timer_rbtree st))(ev := key) \<and>
    rb_node (ngx_event_timer_rbtree st') = rb_node (ngx_event_timer_rbtree st) \<and>
    ngx_current_msec st' = ngx_current_msec st"
proof -
  let ?h = "set_key ev key (ngx_event_timer_rbtree st)"
  have "rbt.ordered (\<lambda>k. unat (k - b)) (window b) ?h ns"
    using assms(1,2) set_key_ordered by (simp add: timers_ok_ordered)
  moreover have "rb_node ?h ev" "rb_key ?h ev \<in> window b" using assms(3,4) by (simp_all add: rb_node_def)
  ultimately obtain h' where
    h': "ngx_rbtree_insert ngx_rbtree_insert_timer_value ev ?h = Some h'"
      "rbt.ordered (\<lambda>k. unat (k - b)) (window b) h' (rb_insert_place timer_less (rb_key ?h) ev ns)"
      "rb_key h' = rb_key ?h" "rb_node h' = rb_node ?h"
    using rbt.ins_ordered[OF _ rbt_agrees _ assms(2)] by blast
  have "timers_ok b (st\<lparr>ngx_event_timer_rbtree := h', timer_set := (timer_set st)(ev := True)\<rparr>)
      (rb_insert_place timer_less (rb_key ?h) ev ns)"
    using h'(2) assms(1) by (auto simp: timers_ok_ordered)
  with h' show ?thesis
    by (intro exI[of _ "st\<lparr>ngx_event_timer_rbtree := h', timer_set := (timer_set st)(ev := True)\<rparr>"]
        exI[of _ "rb_insert_place timer_less (rb_key ?h) ev ns"])
      (auto simp: add_timer_node_def rb_node_def fun_eq_iff)
qed

lemma del_timer:
  assumes "timers_ok b st ns" "ev \<in> set ns"
  shows "\<exists>st'. ngx_event_del_timer ev st = Some st' \<and> timers_ok b st' (remove1 ev ns) \<and>
    rb_key (ngx_event_timer_rbtree st') = (rb_key (ngx_event_timer_rbtree st))(ev := 0) \<and>
    rb_node (ngx_event_timer_rbtree st') = rb_node (ngx_event_timer_rbtree st) \<and>
    ngx_current_msec st' = ngx_current_msec st"
proof -
  have o: "rbt.ordered (\<lambda>k. unat (k - b)) (window b) (ngx_event_timer_rbtree st) ns" using assms(1) by (simp add: timers_ok_ordered)
  have d: "distinct ns" using o rbt.tree_distinct by (auto simp: rbt.ordered_def)
  from rbt.del_ordered[OF o assms(2)] obtain h' where
    h': "ngx_rbtree_delete ev (ngx_event_timer_rbtree st) = Some h'" "rbt.ordered (\<lambda>k. unat (k - b)) (window b) h' (remove1 ev ns)"
      "rb_key h' = (rb_key (ngx_event_timer_rbtree st))(ev := 0)" "rb_node h' = rb_node (ngx_event_timer_rbtree st)" by blast
  with assms d show ?thesis
    by (intro exI[of _ "st\<lparr>ngx_event_timer_rbtree := h', timer_set := (timer_set st)(ev := False)\<rparr>"])
      (auto simp: ngx_event_del_timer_def timers_ok_ordered)
qed

lemma timers_distinct: "timers_ok b st ns \<Longrightarrow> distinct ns"
  using rb_tree_nodes(1)[of "ngx_event_timer_rbtree st" ns] by (simp add: timers_ok_def)

text \<open>The comparison of a deadline with the clock.\<close>

lemma remaining:
  assumes "timers_ok b st ns" "a \<in> set ns"
  shows "sint (rb_key (ngx_event_timer_rbtree st) a - ngx_current_msec st) = int (deadline b st a) - int (clock b st)"
  using assms unfolding deadline_def clock_def timers_ok_def
  by (intro sint_window) (auto simp: window_def)

lemma timers_first:
  assumes "timers_ok b st ns" "ns \<noteq> []"
  defines "h \<equiv> ngx_event_timer_rbtree st"
  shows "rb_root h \<noteq> rb_sentinel h" "ngx_rbtree_min (rb_root h) h = Some (hd ns)"
    "\<And>a. a \<in> set ns \<Longrightarrow> deadline b st (hd ns) \<le> deadline b st a"
  using assms rb_min_first[of h ns] by (auto simp: timers_ok_def) (cases ns; auto)

lemma timers_empty: "timers_ok b st [] \<Longrightarrow> rb_root (ngx_event_timer_rbtree st) = rb_sentinel (ngx_event_timer_rbtree st)"
  using rb_empty[of "ngx_event_timer_rbtree st" "[]"] by (simp add: timers_ok_def)

lemma timedout_ok: "timers_ok b (st\<lparr>timedout := f\<rparr>) ns = timers_ok b st ns"
  unfolding timers_ok_ordered by simp

text \<open>The due events come first.\<close>

lemma due_prefix:
  assumes "timers_ok b st ns" "ns \<noteq> []"
  shows "filter (due b st) ns = (if due b st (hd ns) then hd ns # filter (due b st) (tl ns) else [])"
  using assms by (cases ns) (auto simp: timers_ok_def due_def filter_empty_conv)

text \<open>What the loop does with the first event: it leaves the tree, and the others stay as they are.\<close>

lemma expire_first:
  assumes "timers_ok b st (a # ns)"
  shows "\<exists>h'. ngx_rbtree_delete a (ngx_event_timer_rbtree st) = Some h' \<and>
    (let st' = st\<lparr>ngx_event_timer_rbtree := h', timer_set := (timer_set st)(a := False), timedout := (timedout st)(a := True)\<rparr>
     in timers_ok b st' ns \<and> clock b st' = clock b st \<and> (\<forall>x\<in>set ns. deadline b st' x = deadline b st x))"
proof -
  have d: "distinct (a # ns)" using timers_distinct[OF assms] .
  from del_timer[OF assms, of a] obtain st' where
    "ngx_event_del_timer a st = Some st'" "timers_ok b st' ns" "rb_key (ngx_event_timer_rbtree st') = (rb_key (ngx_event_timer_rbtree st))(a := 0)"
    by auto
  then obtain h' where h': "ngx_rbtree_delete a (ngx_event_timer_rbtree st) = Some h'"
    and st': "st' = st\<lparr>ngx_event_timer_rbtree := h', timer_set := (timer_set st)(a := False)\<rparr>"
    and k: "rb_key h' = (rb_key (ngx_event_timer_rbtree st))(a := 0)"
    by (auto simp: ngx_event_del_timer_def bind_eq_Some_conv)
  let ?st = "st\<lparr>ngx_event_timer_rbtree := h', timer_set := (timer_set st)(a := False), timedout := (timedout st)(a := True)\<rparr>"
  have "timers_ok b ?st ns" using \<open>timers_ok b st' ns\<close> timedout_ok[where st = st' and b = b and ns = ns] by (simp add: st')
  moreover have "\<forall>x\<in>set ns. deadline b ?st x = deadline b st x" using d k by (auto simp: deadline_def)
  ultimately show ?thesis using h' by (auto simp: Let_def clock_def)
qed

section \<open>Properties\<close>

text \<open>
  C30 (invariant). Setting a timer keeps the invariant: \<open>ngx_event_add_timer\<close> returns, the event is among
  those with a timer, its deadline is the current time plus the delay unless a timer set earlier was
  close enough to be kept, and no other event's deadline moves.\<close>

theorem add_timer_ok:
  assumes "timers_ok b st ns" "rb_node (ngx_event_timer_rbtree st) ev" "unat (ngx_current_msec st + timer - b) < 2 ^ 63"
  shows "\<exists>st' ns'. ngx_event_add_timer ev timer st = Some st' \<and> timers_ok b st' ns' \<and> set ns' = insert ev (set ns) \<and>
    clock b st' = clock b st \<and> list_all (\<lambda>a. a = ev \<or> deadline b st' a = deadline b st a) ns' \<and>
    deadline b st' ev =
      (if timer_set st ev \<and> ngx_abs (ngx_current_msec st + timer - rb_key (ngx_event_timer_rbtree st) ev) < NGX_TIMER_LAZY_DELAY
       then deadline b st ev else unat (ngx_current_msec st + timer - b))"
proof -
  let ?key = "ngx_current_msec st + timer"
  have w: "?key \<in> window b" using assms(3) by (simp add: window_def)
  have set: "timer_set st ev \<longleftrightarrow> ev \<in> set ns" using assms(1) by (simp add: timers_ok_def)
  consider (lazy) "timer_set st ev" "ngx_abs (?key - rb_key (ngx_event_timer_rbtree st) ev) < NGX_TIMER_LAZY_DELAY"
    | (reset) "timer_set st ev" "\<not> ngx_abs (?key - rb_key (ngx_event_timer_rbtree st) ev) < NGX_TIMER_LAZY_DELAY"
    | (new) "\<not> timer_set st ev" by blast
  thus ?thesis
  proof cases
    case lazy
    with assms(1) set show ?thesis
      by (intro exI[of _ st] exI[of _ ns]) (auto simp: ngx_event_add_timer_def Let_def list_all_iff)
  next
    case reset
    have d: "distinct ns" using timers_distinct[OF assms(1)] .
    from reset(1) set have ev: "ev \<in> set ns" by simp
    from del_timer[OF assms(1) ev] obtain st1 where
      st1: "ngx_event_del_timer ev st = Some st1" "timers_ok b st1 (remove1 ev ns)"
        "rb_key (ngx_event_timer_rbtree st1) = (rb_key (ngx_event_timer_rbtree st))(ev := 0)"
        "rb_node (ngx_event_timer_rbtree st1) = rb_node (ngx_event_timer_rbtree st)" "ngx_current_msec st1 = ngx_current_msec st"
      by blast
    from add_timer_node[OF st1(2) _ _ w, of ev] d st1(4) assms(2) obtain st' ns' where
      st': "add_timer_node ev ?key st1 = Some st'" "timers_ok b st' ns'" "set ns' = insert ev (set (remove1 ev ns))"
        "rb_key (ngx_event_timer_rbtree st') = (rb_key (ngx_event_timer_rbtree st1))(ev := ?key)" "ngx_current_msec st' = ngx_current_msec st1"
      by auto
    with st1 reset d ev show ?thesis
      by (intro exI[of _ st'] exI[of _ ns'])
        (auto simp: ngx_event_add_timer_def Let_def list_all_iff deadline_def clock_def)
  next
    case new
    from add_timer_node[OF assms(1) _ assms(2) w] new set obtain st' ns' where
      st': "add_timer_node ev ?key st = Some st'" "timers_ok b st' ns'" "set ns' = insert ev (set ns)"
        "rb_key (ngx_event_timer_rbtree st') = (rb_key (ngx_event_timer_rbtree st))(ev := ?key)" "ngx_current_msec st' = ngx_current_msec st"
      by auto
    with new set show ?thesis
      by (intro exI[of _ st'] exI[of _ ns'])
        (auto simp: ngx_event_add_timer_def Let_def list_all_iff deadline_def clock_def)
  qed
qed

text \<open>
  The time the event loop may sleep is exactly the time to the nearest deadline, zero
  when one has passed, and \<open>NGX_TIMER_INFINITE\<close> when no timer is set.\<close>

theorem find_timer_nearest:
  assumes "timers_ok b st ns"
  shows "\<exists>r. ngx_event_find_timer st = Some r \<and>
    (if ns = [] then r = NGX_TIMER_INFINITE else unat r = Min (deadline b st ` set ns) - clock b st)"
proof (cases "ns = []")
  case True
  with timers_empty assms show ?thesis by (auto simp: ngx_event_find_timer_def)
next
  case False
  let ?t = "rb_key (ngx_event_timer_rbtree st) (hd ns) - ngx_current_msec st"
  note f = timers_first[OF assms False]
  have s: "sint ?t = int (deadline b st (hd ns)) - int (clock b st)" using remaining[OF assms] False by simp
  have "Min (deadline b st ` set ns) = deadline b st (hd ns)"
    using f(3) False by (intro Min_eqI) auto
  moreover have "0 < sint ?t \<Longrightarrow> unat ?t = deadline b st (hd ns) - clock b st"
  proof -
    assume "0 < sint ?t"
    hence "clock b st \<le> deadline b st (hd ns)" using s by linarith
    hence "ngx_current_msec st - b \<le> rb_key (ngx_event_timer_rbtree st) (hd ns) - b"
      by (simp only: word_le_nat_alt deadline_def clock_def)
    from unat_sub[OF this] show ?thesis by (simp add: deadline_def clock_def)
  qed
  ultimately show ?thesis using f(1,2) False s by (auto simp: ngx_event_find_timer_def Let_def)
qed


lemma no_timers_loop:
  assumes "rb_tree (ngx_event_timer_rbtree st) ns" "ns = xs @ ys" "xs \<noteq> [] \<or> ys \<noteq> []"
  shows "no_timers_loop (case ys of [] \<Rightarrow> NULL | a # _ \<Rightarrow> a) st = Some (if list_all (cancelable st) ys then NGX_OK else NGX_AGAIN)"
  using assms
proof (induction ys arbitrary: xs)
  case Nil
  then show ?case by (subst no_timers_loop.simps) simp
next
  case (Cons a ys)
  have a: "a \<noteq> NULL" using rb_tree_nodes(2)[OF Cons.prems(1), of a] Cons.prems(2) by (simp add: rb_node_def)
  have "ngx_rbtree_next a (ngx_event_timer_rbtree st) = Some (case ys of [] \<Rightarrow> NULL | b # _ \<Rightarrow> b)"
    using rbt.succ_suffix[OF Cons.prems(1,2)] .
  moreover have "no_timers_loop (case ys of [] \<Rightarrow> NULL | a # _ \<Rightarrow> a) st = Some (if list_all (cancelable st) ys then NGX_OK else NGX_AGAIN)"
    using Cons.IH[of "xs @ [a]"] Cons.prems by simp
  ultimately show ?case using a by (subst no_timers_loop.simps) simp
qed

text \<open>
  C35 (termination). A worker that shuts down waits exactly while some timer is not cancelable: the loop
  from the smallest node along \<open>ngx_rbtree_next\<close> ends and visits every timer.\<close>

theorem no_timers_left:
  assumes "timers_ok b st ns"
  shows "ngx_event_no_timers_left st = Some (if list_all (cancelable st) ns then NGX_OK else NGX_AGAIN)"
proof (cases ns)
  case Nil
  with timers_empty[of b st] assms show ?thesis by (auto simp: ngx_event_no_timers_left_def Let_def)
next
  case (Cons a as)
  have "rb_tree (ngx_event_timer_rbtree st) ns" using assms by (simp add: timers_ok_def)
  from no_timers_loop[OF this, of "[]" ns] timers_first(1,2)[OF assms] Cons show ?thesis
    by (simp add: ngx_event_no_timers_left_def Let_def)
qed

section \<open>Witnesses\<close>

definition timers_example :: timers where
  "timers_example = \<lparr>ngx_event_timer_rbtree = rb_example3, ngx_current_msec = 2, timer_set = (\<lambda>a. a \<in> {5, 6, 7}),
     timedout = (\<lambda>_. False), cancelable = (\<lambda>a. a = 5)\<rparr>"

lemma rb_example3_keys: "rb_key rb_example3 5 = 1 \<and> rb_key rb_example3 6 = 2 \<and> rb_key rb_example3 7 = 3"
  by code_simp

lemma timers_example: "timers_ok 0 timers_example [5, 6, 7]"
  using rb_example3 rb_example3_keys by (simp add: timers_ok_def timers_example_def deadline_def clock_def)

theorem add_timer_ok_witness:
  "\<exists>st' ns'. ngx_event_add_timer 8 40 timers_example = Some st' \<and> timers_ok 0 st' ns' \<and> set ns' = insert 8 (set [5, 6, 7]) \<and>
    clock 0 st' = clock 0 timers_example \<and> list_all (\<lambda>a. a = 8 \<or> deadline 0 st' a = deadline 0 timers_example a) ns' \<and>
    deadline 0 st' 8 =
      (if timer_set timers_example 8 \<and>
          ngx_abs (ngx_current_msec timers_example + 40 - rb_key (ngx_event_timer_rbtree timers_example) 8) < NGX_TIMER_LAZY_DELAY
       then deadline 0 timers_example 8 else unat (ngx_current_msec timers_example + 40 - 0))"
  using rb_example3_fields
  by (intro add_timer_ok[OF timers_example]) (simp_all add: timers_example_def rb_node_def)

theorem find_timer_nearest_witness:
  "\<exists>r. ngx_event_find_timer timers_example = Some r \<and>
    (if [5, 6, 7 :: addr] = [] then r = NGX_TIMER_INFINITE
     else unat r = Min (deadline 0 timers_example ` set [5, 6, 7]) - clock 0 timers_example)"
  by (rule find_timer_nearest[OF timers_example])


theorem no_timers_left_witness:
  "ngx_event_no_timers_left timers_example = Some (if list_all (cancelable timers_example) [5, 6, 7] then NGX_OK else NGX_AGAIN)"
  by (rule no_timers_left[OF timers_example])

end
