(* ===== verification/Ngx_Times.thy ===== *)
theory Ngx_Times
  imports Ngx_Number
begin

text \<open>
  \<^verbatim>\<open>core/ngx_times.c\<close>, \<^verbatim>\<open>core/ngx_parse_time.c\<close>: the conversion of seconds to a Gregorian date
  (\<open>ngx_gmtime\<close>), its printed form in headers and cookies, and the parser of the three date formats
  of HTTP (\<open>ngx_parse_http_time\<close>). Reads of the parser are checked: a read past the end of the value
  is an outcome of its own.
\<close>

section \<open>Printing dates\<close>

text \<open>\<open>struct tm\<close>: its fields are \<open>int\<close>; only the year can be out of range of it.\<close>

record ngx_tm =
  ngx_tm_sec :: nat
  ngx_tm_min :: nat
  ngx_tm_hour :: nat
  ngx_tm_mday :: nat
  ngx_tm_mon :: nat
  ngx_tm_year :: int
  ngx_tm_wday :: nat

definition leap_year :: "nat \<Rightarrow> bool" where
  "leap_year year \<longleftrightarrow> year mod 4 = 0 \<and> (year mod 100 \<noteq> 0 \<or> year mod 400 = 0)"

text \<open>
  \<open>t\<close> is not negative. No intermediate value of the calculation exceeds a 64-bit word, whatever
  \<open>t\<close>; \<open>yday\<close> is signed.
\<close>

definition gm_yday :: "nat \<Rightarrow> nat \<Rightarrow> int" where
  "gm_yday days year = int days - int (365 * year + year div 4 - year div 100 + year div 400)"

definition ngx_gmtime :: "nat \<Rightarrow> ngx_tm" where
  "ngx_gmtime t =
     (let days = t div 86400;
          wday = (4 + days) mod 7;
          n1 = t mod 86400;
          hour = n1 div 3600;
          n2 = n1 mod 3600;
          minute = n2 div 60;
          sec = n2 mod 60;
          days' = days + 719527 - (31 + 28);
          year0 = (days' + 2) * 400 div (365 * 400 + 100 - 4 + 1);
          yday0 = gm_yday days' year0;
          (year, yday) = (if yday0 < 0 then (year0 - 1, nat (365 + (if leap_year year0 then 1 else 0) + yday0))
                          else (year0, nat yday0));
          mon = (yday + 31) * 10 div 306;
          mday = yday + 1 - (367 * mon div 12 - 30);
          (year', mon') = (if 306 \<le> yday then (year + 1, mon - 10) else (year, mon + 2))
      in \<lparr>ngx_tm_sec = sec, ngx_tm_min = minute, ngx_tm_hour = hour, ngx_tm_mday = mday, ngx_tm_mon = mon',
          ngx_tm_year = signed_take_bit 31 (int year'), ngx_tm_wday = wday\<rparr>)"

definition week :: "string list" where
  "week = [''Sun'', ''Mon'', ''Tue'', ''Wed'', ''Thu'', ''Fri'', ''Sat'']"

definition months :: "string list" where
  "months = [''Jan'', ''Feb'', ''Mar'', ''Apr'', ''May'', ''Jun'', ''Jul'', ''Aug'', ''Sep'', ''Oct'', ''Nov'', ''Dec'']"

text \<open>The conversion \<open>%d\<close> of \<open>ngx_sprintf\<close>, with a width and zero or space as filler.\<close>

definition sprintf_d :: "u_char \<Rightarrow> nat \<Rightarrow> int \<Rightarrow> u_char list" where
  "sprintf_d zero width i =
     (if i < 0 then c8 CHR ''-'' # ngx_sprintf_num sprintf_room (nat (- i)) zero 0 width
      else ngx_sprintf_num sprintf_room (nat i) zero 0 width)"

abbreviation d02 :: "nat \<Rightarrow> u_char list" where
  "d02 n \<equiv> sprintf_d (c8 CHR ''0'') 2 (int n)"

definition ngx_http_time :: "nat \<Rightarrow> u_char list" where
  "ngx_http_time t =
     (let tm = ngx_gmtime t in
      bytes (week ! ngx_tm_wday tm) @ bytes '', '' @ d02 (ngx_tm_mday tm) @ bytes '' '' @
      bytes (months ! (ngx_tm_mon tm - 1)) @ bytes '' '' @ sprintf_d SP 4 (ngx_tm_year tm) @ bytes '' '' @
      d02 (ngx_tm_hour tm) @ bytes '':'' @ d02 (ngx_tm_min tm) @ bytes '':'' @ d02 (ngx_tm_sec tm) @ bytes '' GMT'')"

definition ngx_http_cookie_time :: "nat \<Rightarrow> u_char list" where
  "ngx_http_cookie_time t =
     (let tm = ngx_gmtime t in
      bytes (week ! ngx_tm_wday tm) @ bytes '', '' @ d02 (ngx_tm_mday tm) @ bytes ''-'' @
      bytes (months ! (ngx_tm_mon tm - 1)) @ bytes ''-'' @
      (if ngx_tm_year tm > 2037 then sprintf_d SP 0 (ngx_tm_year tm)
       else sprintf_d (c8 CHR ''0'') 2 (ngx_tm_year tm mod 100)) @ bytes '' '' @
      d02 (ngx_tm_hour tm) @ bytes '':'' @ d02 (ngx_tm_min tm) @ bytes '':'' @ d02 (ngx_tm_sec tm) @ bytes '' GMT'')"

section \<open>Parsing dates\<close>

datatype pt_fmt = no | rfc822 | rfc850 | isoc

datatype pt_result = Pt_time "64 word" | Pt_error | Pt_overread

text \<open>\<open>*p\<close>, a test for one character, and one for a digit.\<close>

definition rd :: "u_char list \<Rightarrow> nat \<Rightarrow> (u_char \<Rightarrow> pt_result) \<Rightarrow> pt_result" where
  "rd v p k = (if p < length v then k (v ! p) else Pt_overread)"

definition rd_char :: "u_char list \<Rightarrow> nat \<Rightarrow> u_char \<Rightarrow> pt_result \<Rightarrow> pt_result" where
  "rd_char v p c k = rd v p (\<lambda>ch. if ch = c then k else Pt_error)"

definition rd_digit :: "u_char list \<Rightarrow> nat \<Rightarrow> (nat \<Rightarrow> pt_result) \<Rightarrow> pt_result" where
  "rd_digit v p k = rd v p (\<lambda>ch. if is_digit ch then k (unat (ch - c8 CHR ''0'')) else Pt_error)"

definition rd_2digits :: "u_char list \<Rightarrow> nat \<Rightarrow> (nat \<Rightarrow> pt_result) \<Rightarrow> pt_result" where
  "rd_2digits v p k = rd_digit v p (\<lambda>a. rd_digit v (p + 1) (\<lambda>b. k (a * 10 + b)))"

definition rd_4digits :: "u_char list \<Rightarrow> nat \<Rightarrow> (nat \<Rightarrow> pt_result) \<Rightarrow> pt_result" where
  "rd_4digits v p k = rd_digit v p (\<lambda>a. rd_digit v (p + 1) (\<lambda>b. rd_digit v (p + 2) (\<lambda>c. rd_digit v (p + 3) (\<lambda>d.
     k (a * 1000 + b * 100 + c * 10 + d)))))"

text \<open>The two loops that skip the day of the week.\<close>

function pt_skip_word :: "u_char list \<Rightarrow> nat \<Rightarrow> nat \<times> pt_fmt" where
  "pt_skip_word v p =
     (if p < length v
      then if v ! p = c8 CHR '','' then (p, no)
           else if v ! p = SP then (p, isoc)
           else pt_skip_word v (p + 1)
      else (p, no))"
  by pat_completeness auto
termination by (relation "measure (\<lambda>(v, p). length v - p)") auto

function pt_skip_spaces :: "u_char list \<Rightarrow> nat \<Rightarrow> nat" where
  "pt_skip_spaces v p = (if p < length v \<and> v ! p = SP then pt_skip_spaces v (p + 1) else p)"
  by pat_completeness auto
termination by (relation "measure (\<lambda>(v, p). length v - p)") auto

declare pt_skip_word.simps [simp del] pt_skip_spaces.simps [simp del]

text \<open>The name of the month at \<open>p\<close>, from 0.\<close>

definition pt_month :: "u_char list \<Rightarrow> nat \<Rightarrow> (nat \<Rightarrow> pt_result) \<Rightarrow> pt_result" where
  "pt_month v p k = rd v p (\<lambda>c.
     if c = c8 CHR ''J'' then rd v (p + 1) (\<lambda>c1. if c1 = c8 CHR ''a'' then k 0
                             else rd v (p + 2) (\<lambda>c2. if c2 = c8 CHR ''n'' then k 5 else k 6))
     else if c = c8 CHR ''F'' then k 1
     else if c = c8 CHR ''M'' then rd v (p + 2) (\<lambda>c2. if c2 = c8 CHR ''r'' then k 2 else k 4)
     else if c = c8 CHR ''A'' then rd v (p + 1) (\<lambda>c1. if c1 = c8 CHR ''p'' then k 3 else k 7)
     else if c = c8 CHR ''S'' then k 8
     else if c = c8 CHR ''O'' then k 9
     else if c = c8 CHR ''N'' then k 10
     else if c = c8 CHR ''D'' then k 11
     else Pt_error)"

definition mday_table :: "nat list" where
  "mday_table = [31, 28, 31, 30, 31, 30, 31, 31, 30, 31, 30, 31]"

text \<open>Gauss' formula: the days from March 1, 1 BC, in unsigned arithmetic.\<close>

definition pt_seconds :: "64 word \<Rightarrow> nat \<Rightarrow> nat \<Rightarrow> nat \<Rightarrow> nat \<Rightarrow> nat \<Rightarrow> 64 word" where
  "pt_seconds year month day hour minute sec =
     (365 * year + year div 4 - year div 100 + year div 400
      + word_of_nat (367 * month div 12) - 30 + word_of_nat day - 1 - 719527 + 31 + 28) * 86400
     + word_of_nat hour * 3600 + word_of_nat minute * 60 + word_of_nat sec"

text \<open>The checks of the fields and the result.\<close>

definition pt_finish :: "nat \<Rightarrow> nat \<Rightarrow> nat \<Rightarrow> nat \<Rightarrow> nat \<Rightarrow> nat \<Rightarrow> pt_result" where
  "pt_finish day month year hour minute sec =
     (if hour > 23 \<or> minute > 59 \<or> sec > 59 then Pt_error
      else if (if day = 29 \<and> month = 1
               then year mod 4 \<noteq> 0 \<or> year mod 100 = 0 \<and> year mod 400 \<noteq> 0
               else day > mday_table ! month) then Pt_error
      else if month \<le> 1
      then Pt_time (pt_seconds (word_of_nat year - 1) (month + 11) day hour minute sec)
      else Pt_time (pt_seconds (word_of_nat year) (month - 1) day hour minute sec))"

definition pt_clock :: "u_char list \<Rightarrow> nat \<Rightarrow> (nat \<Rightarrow> nat \<Rightarrow> nat \<Rightarrow> pt_result) \<Rightarrow> pt_result" where
  "pt_clock v p k = rd_char v p SP (rd_2digits v (p + 1) (\<lambda>hour. rd_char v (p + 3) (c8 CHR '':'') (
     rd_2digits v (p + 4) (\<lambda>minute. rd_char v (p + 6) (c8 CHR '':'') (rd_2digits v (p + 7) (\<lambda>sec. k hour minute sec))))))"

text \<open>The three formats from the month on; \<open>p\<close> is at the name of the month.\<close>

definition pt_rfc822 :: "u_char list \<Rightarrow> nat \<Rightarrow> nat \<Rightarrow> pt_result" where
  "pt_rfc822 v p day = pt_month v p (\<lambda>month. rd_char v (p + 3) SP (rd_4digits v (p + 4) (\<lambda>year.
     pt_clock v (p + 8) (\<lambda>hour minute sec. pt_finish day month year hour minute sec))))"

definition pt_rfc850 :: "u_char list \<Rightarrow> nat \<Rightarrow> nat \<Rightarrow> pt_result" where
  "pt_rfc850 v p day = pt_month v p (\<lambda>month. rd_char v (p + 3) (c8 CHR ''-'') (rd_2digits v (p + 4) (\<lambda>y.
     let year = (if y < 70 then y + 2000 else y + 1900) in
     pt_clock v (p + 6) (\<lambda>hour minute sec. pt_finish day month year hour minute sec))))"

definition pt_isoc_rest :: "u_char list \<Rightarrow> nat \<Rightarrow> nat \<Rightarrow> nat \<Rightarrow> pt_result" where
  "pt_isoc_rest v p month day =
     (if length v - p < 14 then Pt_error
      else pt_clock v p (\<lambda>hour minute sec. rd_char v (p + 9) SP (rd_4digits v (p + 10) (\<lambda>year.
        pt_finish day month year hour minute sec))))"

definition pt_isoc :: "u_char list \<Rightarrow> nat \<Rightarrow> pt_result" where
  "pt_isoc v p = pt_month v p (\<lambda>month. rd v (p + 4) (\<lambda>c.
     let q = (if c = SP then p + 5 else p + 4) in
     rd_digit v q (\<lambda>a. rd v (q + 1) (\<lambda>c1.
       if c1 \<noteq> SP then rd_digit v (q + 1) (\<lambda>b. pt_isoc_rest v (q + 2) month (a * 10 + b))
       else pt_isoc_rest v (q + 1) month a))))"

definition ngx_parse_http_time :: "u_char list \<Rightarrow> pt_result" where
  "ngx_parse_http_time v =
     (let (p0, fmt) = pt_skip_word v 0; p = pt_skip_spaces v (p0 + 1) in
      if length v - p < 18 then Pt_error
      else if fmt = isoc then pt_isoc v p
      else rd_2digits v p (\<lambda>day. rd v (p + 2) (\<lambda>c.
        if c = SP then (if length v - (p + 2) < 18 then Pt_error else pt_rfc822 v (p + 3) day)
        else if c = c8 CHR ''-'' then pt_rfc850 v (p + 3) day
        else Pt_error)))"

section \<open>The calendar\<close>

text \<open>The days before March 1 of a year, counted from March 1 of the year 0.\<close>

definition march :: "nat \<Rightarrow> nat" where
  "march y = 365 * y + y div 4 - y div 100 + y div 400"

lemma div_Suc_iff: "Suc y div k = (if Suc y mod k = 0 then Suc (y div k) else y div k)" if "0 < k" for k :: nat
  using that by (simp add: div_Suc)

lemma march_Suc: "march (Suc y) = march y + 365 + (if leap_year (Suc y) then 1 else 0)"
proof -
  have le: "y div 100 \<le> 365 * y + y div 4" for y :: nat
    using div_le_dividend[of y 100] by linarith
  have m: "Suc y mod 400 = 0 \<Longrightarrow> Suc y mod 100 = 0" "Suc y mod 100 = 0 \<Longrightarrow> Suc y mod 4 = 0"
    by presburger+
  have int: "int (march y) = 365 * int y + int (y div 4) - int (y div 100) + int (y div 400)" for y
    unfolding march_def using le[of y] by simp
  have "int (march (Suc y)) = int (march y + 365 + (if leap_year (Suc y) then 1 else 0))"
    unfolding of_nat_add int div_Suc_iff[of 4, simplified] div_Suc_iff[of 100, simplified] div_Suc_iff[of 400, simplified]
    using m by (auto simp: leap_year_def)
  thus ?thesis by linarith
qed

lemma march_period: "march (400 * q + r) = 146097 * q + march r"
proof -
  have d: "(400 * q + r) div 4 = 100 * q + r div 4" "(400 * q + r) div 100 = 4 * q + r div 100" "(400 * q + r) div 400 = q + r div 400"
    using div_mult_self2[of 4 r "100 * q"] div_mult_self2[of 100 r "4 * q"] div_mult_self2[of 400 r q]
    by (simp_all add: add.commute)
  have le: "r div 100 \<le> 365 * r + r div 4" using div_le_dividend[of r 100] by linarith
  hence "4 * q + r div 100 \<le> 365 * (400 * q + r) + (100 * q + r div 4)" by simp
  hence "int (march (400 * q + r)) = int (146097 * q + march r)"
    unfolding march_def d using le by (simp add: of_nat_diff)
  thus ?thesis by linarith
qed

lemma march_mono: "y \<le> z \<Longrightarrow> march y \<le> march z"
  by (induction z) (auto simp: march_Suc le_Suc_eq)

lemma march_400: "march 400 = 146097"
  by (simp add: march_def)

text \<open>The estimate of the year is right or one too large; within a cycle of 400 years this is checked.\<close>

lemma year_estimate:
  assumes "y < 400"
  shows "y * 146097 \<le> (march y + 2) * 400" "(march y + 1) * 400 < (y + 1) * 146097"
proof -
  define c e f g where "c = y div 100" and "e = y mod 100" and "f = e div 4" and "g = e mod 4"
  have y: "y = 100 * c + e" and e: "e = 4 * f + g" "g < 4" "e < 100" by (simp_all add: c_def e_def f_def g_def)
  have c: "c < 4" using assms by (simp add: c_def)
  have "y div 4 = 25 * c + f" using div_mult_self2[of 4 e "25 * c"] by (simp add: y f_def add.commute)
  moreover have "y div 400 = 0" "y div 100 = c" using assms by (simp_all add: c_def)
  ultimately have "march y = 365 * y + (25 * c + f) - c" unfolding march_def by linarith
  hence m: "march y = 36524 * c + (365 * e + f)" using y by linarith
  show "y * 146097 \<le> (march y + 2) * 400" unfolding m using y e c by simp
  show "(march y + 1) * 400 < (y + 1) * 146097" unfolding m using y e c by simp
qed

lemma step_exists:
  fixes f :: "nat \<Rightarrow> nat"
  shows "f 0 \<le> r \<Longrightarrow> r < f n \<Longrightarrow> \<exists>y<n. f y \<le> r \<and> r < f (Suc y)"
proof (induction n)
  case (Suc n)
  then show ?case by (cases "r < f n") (auto simp: less_Suc_eq)
qed simp

lemma year_of_day:
  obtains y where "march y \<le> d" "d < march (Suc y)"
    "(d + 2) * 400 div 146097 = y \<or> (d + 2) * 400 div 146097 = Suc y"
proof -
  define q r where "q = d div 146097" and "r = d mod 146097"
  have d: "d = 146097 * q + r" "r < 146097" by (simp_all add: q_def r_def)
  obtain y where y: "y < 400" "march y \<le> r" "r < march (Suc y)"
    using step_exists[of march r 400] d(2) march_400 by (auto simp: march_def)
  have est: "y * 146097 \<le> (march y + 2) * 400" "(march (Suc y) + 1) * 400 < (y + 2) * 146097"
    using year_estimate[OF y(1)] year_estimate(2)[of "Suc y"] y(1) march_400 by (cases "Suc y = 400"; simp)+
  have b: "y * 146097 \<le> (r + 2) * 400" "(r + 2) * 400 < (y + 2) * 146097" using est y(2,3) by simp_all
  have "(d + 2) * 400 = (r + 2) * 400 + (400 * q) * 146097" using d by simp
  hence "(d + 2) * 400 div 146097 = 400 * q + (r + 2) * 400 div 146097" by (simp only: div_mult_self3)
  moreover have "(r + 2) * 400 div 146097 = y \<or> (r + 2) * 400 div 146097 = Suc y"
    by (cases "(r + 2) * 400 < (y + 1) * 146097") (use b in \<open>simp_all add: div_nat_eqI\<close>)
  ultimately show ?thesis
    using that[of "400 * q + y"] y d march_period[of q y] march_period[of q "Suc y"] by auto
qed

text \<open>The months of a year that starts in March: the days before each of them.\<close>

definition month_start :: "nat list" where
  "month_start = [0, 31, 61, 92, 122, 153, 184, 214, 245, 275, 306, 337, 366]"

lemma less_12_cases:
  assumes "i < (12::nat)"
  obtains "i = 0" | "i = 1" | "i = 2" | "i = 3" | "i = 4" | "i = 5" | "i = 6" | "i = 7" | "i = 8" | "i = 9" | "i = 10" | "i = 11"
proof -
  have "i = 0 \<or> i = 1 \<or> i = 2 \<or> i = 3 \<or> i = 4 \<or> i = 5 \<or> i = 6 \<or> i = 7 \<or> i = 8 \<or> i = 9 \<or> i = 10 \<or> i = 11"
    using assms by presburger
  thus ?thesis using that by blast
qed

lemma month_of_day:
  assumes "yday < 366"
  obtains i where "i < 12" "month_start ! i \<le> yday" "yday < month_start ! Suc i"
  using step_exists[of "\<lambda>i. month_start ! i" yday 12] assms by (auto simp: month_start_def)

lemma month_start_gauss:
  assumes "i < 12"
  shows "367 * Suc i div 12 - 30 = month_start ! i"
  using assms by (rule less_12_cases) (simp_all add: month_start_def)

lemma month_formula:
  assumes "i < 12" "month_start ! i \<le> yday" "yday < month_start ! Suc i"
  shows "(yday + 31) * 10 div 306 = Suc i"
  using assms(1) by (rule less_12_cases) (use assms(2,3) in \<open>simp_all add: month_start_def div_nat_eqI\<close>)

lemma month_start_306:
  assumes "i < 12" "month_start ! i \<le> yday" "yday < month_start ! Suc i"
  shows "306 \<le> yday \<longleftrightarrow> 10 \<le> i"
  using assms(1) by (rule less_12_cases) (use assms(2,3) in \<open>simp_all add: month_start_def\<close>)

text \<open>The date of day \<open>yday\<close> of month \<open>i\<close> of the year \<open>y\<close>, both from March.\<close>

definition march_date :: "nat \<Rightarrow> nat \<Rightarrow> nat \<Rightarrow> nat \<times> nat \<times> nat" where
  "march_date y i yday = (if 10 \<le> i then (y + 1, i - 9, yday + 1 - month_start ! i) else (y, i + 3, yday + 1 - month_start ! i))"

definition tm_date :: "ngx_tm \<Rightarrow> int \<times> nat \<times> nat" where
  "tm_date tm = (ngx_tm_year tm, ngx_tm_mon tm, ngx_tm_mday tm)"

lemma gm_yday_march: "gm_yday d y = int d - int (march y)"
  by (simp add: gm_yday_def march_def)

lemma gm_adjust:
  assumes "march y \<le> d" "d < march (Suc y)" "year0 = y \<or> year0 = Suc y"
  shows "(if gm_yday d year0 < 0 then (year0 - 1, nat (365 + (if leap_year year0 then 1 else 0) + gm_yday d year0))
          else (year0, nat (gm_yday d year0))) = (y, d - march y)"
  using assms(3)
proof
  assume "year0 = y"
  thus ?thesis using assms(1) by (simp add: gm_yday_march nat_diff_distrib)
next
  assume e: "year0 = Suc y"
  have "gm_yday d (Suc y) < 0" using assms(2) by (simp add: gm_yday_march)
  moreover have "365 + (if leap_year (Suc y) then 1 else 0) + gm_yday d (Suc y) = int d - int (march y)"
    by (simp add: gm_yday_march march_Suc)
  ultimately show ?thesis using assms(1) unfolding e by (simp add: nat_diff_distrib)
qed

lemma yday_366: "d < march (Suc y) \<Longrightarrow> d - march y < 366"
  by (simp add: march_Suc split: if_splits)

lemma gmtime_date:
  assumes "d = t div 86400 + 719468" "march y \<le> d" "d < march (Suc y)"
    and i: "i < 12" "month_start ! i \<le> d - march y" "d - march y < month_start ! Suc i"
  shows "tm_date (ngx_gmtime t) = (case march_date y i (d - march y) of (a, b, c) \<Rightarrow> (signed_take_bit 31 (int a), b, c))"
proof -
  obtain z where z: "march z \<le> d" "d < march (Suc z)" "(d + 2) * 400 div 146097 = z \<or> (d + 2) * 400 div 146097 = Suc z"
    by (rule year_of_day)
  have "z = y"
    using z(1,2) assms(2,3) march_mono[of "Suc z" y] march_mono[of "Suc y" z] by (cases z y rule: linorder_cases) auto
  note adj = gm_adjust[OF assms(2,3) z(3)[unfolded this]]
  have d: "t div 86400 + 719527 - (31 + 28) = d" using assms(1) by simp
  have c: "(365 * 400 + 100 - 4 + 1 :: nat) = 146097" by simp
  note m = month_formula[OF i] month_start_gauss[OF i(1)] month_start_306[OF i]
  show ?thesis
    unfolding ngx_gmtime_def Let_def d c adj prod.case m march_date_def tm_date_def by simp
qed

section \<open>The date of a day\<close>

text \<open>The Gregorian calendar, one day after the other.\<close>

definition gregorian_leap :: "nat \<Rightarrow> bool" where
  "gregorian_leap year \<longleftrightarrow> (if 100 dvd year then 400 dvd year else 4 dvd year)"

definition month_len :: "nat \<Rightarrow> nat \<Rightarrow> nat" where
  "month_len year mon = (if mon = 2 then (if gregorian_leap year then 29 else 28)
                         else if mon \<in> {4, 6, 9, 11} then 30 else 31)"

fun next_day :: "nat \<times> nat \<times> nat \<Rightarrow> nat \<times> nat \<times> nat" where
  "next_day (year, mon, mday) =
     (if mday < month_len year mon then (year, mon, mday + 1)
      else if mon < 12 then (year, mon + 1, 1)
      else (year + 1, 1, 1))"

fun civil :: "nat \<Rightarrow> nat \<times> nat \<times> nat" where
  "civil 0 = (1970, 1, 1)"
| "civil (Suc n) = next_day (civil n)"

lemma leap_year_gregorian: "gregorian_leap year = leap_year year"
  using dvd_trans[of 4 100 year] dvd_trans[of 100 400 year]
  by (auto simp: gregorian_leap_def leap_year_def mod_eq_0_iff_dvd)

lemmas month_len_code = month_len_def[unfolded leap_year_gregorian]

text \<open>The length of month \<open>i\<close> of the year from March; only its last one, February, varies.\<close>

lemma month_len_march:
  assumes "i < 12" "march_date y i yday = (a, b, c)"
  shows "month_len a b = (if i = 11 then (if leap_year (Suc y) then 29 else 28) else month_start ! Suc i - month_start ! i)"
  using assms(1) by (rule less_12_cases) (use assms(2) in \<open>auto simp: march_date_def month_len_code month_start_def\<close>)

lemma march_date_same:
  assumes "i < 12" "month_start ! i \<le> yday" "Suc yday < month_start ! Suc i" "yday + 1 < 365 + (if leap_year (Suc y) then 1 else 0)"
  shows "next_day (march_date y i yday) = march_date y i (Suc yday)"
proof -
  obtain a b c where md: "march_date y i yday = (a, b, c)" by (rule prod_cases3)
  have c: "c = yday + 1 - month_start ! i" using md by (auto simp: march_date_def split: if_splits)
  have "c < month_len a b"
    unfolding month_len_march[OF assms(1) md] c using assms(2-4) by (auto simp: month_start_def)
  thus ?thesis using md c assms(2) by (auto simp: march_date_def split: if_splits)
qed

lemma march_date_next:
  assumes "i < 11" "Suc yday = month_start ! Suc i"
  shows "next_day (march_date y i yday) = march_date y (Suc i) (Suc yday)"
proof -
  obtain a b c where md: "march_date y i yday = (a, b, c)" by (rule prod_cases3)
  have i: "i < 12" using assms(1) by simp
  have "c = month_len a b"
    unfolding month_len_march[OF i md] using md assms by (auto simp: march_date_def split: if_splits)
  moreover have "(if b < 12 then (a, b + 1, 1) else (a + 1, 1, 1)) = march_date y (Suc i) (Suc yday)"
    using i by (rule less_12_cases) (use md assms in \<open>auto simp: march_date_def month_start_def\<close>)
  ultimately show ?thesis unfolding md by simp
qed

lemma march_date_wrap:
  assumes "Suc yday = 365 + (if leap_year (Suc y) then 1 else 0)"
  shows "next_day (march_date y 11 yday) = march_date (Suc y) 0 0"
  using assms by (auto simp: march_date_def month_start_def month_len_code split: if_splits)

text \<open>\<open>date_of d x\<close>: the date of day \<open>d\<close>, counted from March 1 of the year 0, is \<open>x\<close>.\<close>

definition date_of :: "nat \<Rightarrow> nat \<times> nat \<times> nat \<Rightarrow> bool" where
  "date_of d x \<longleftrightarrow> (\<exists>y i. march y \<le> d \<and> d < march (Suc y) \<and> i < 12 \<and> month_start ! i \<le> d - march y \<and>
     d - march y < month_start ! Suc i \<and> x = march_date y i (d - march y))"

lemma date_ofI:
  "march y \<le> d \<Longrightarrow> d < march (Suc y) \<Longrightarrow> i < 12 \<Longrightarrow> month_start ! i \<le> d - march y \<Longrightarrow>
   d - march y < month_start ! Suc i \<Longrightarrow> date_of d (march_date y i (d - march y))"
  unfolding date_of_def by blast

lemma date_of_next:
  assumes "date_of d x"
  shows "date_of (Suc d) (next_day x)"
proof -
  obtain y i where a: "march y \<le> d" "d < march (Suc y)" "i < 12" "month_start ! i \<le> d - march y"
      "d - march y < month_start ! Suc i" "x = march_date y i (d - march y)"
    using assms unfolding date_of_def by blast
  have S: "Suc d - march y = Suc (d - march y)" using a(1) by simp
  consider "Suc d < march (Suc y)" "Suc (d - march y) < month_start ! Suc i"
    | "Suc d < march (Suc y)" "Suc (d - march y) = month_start ! Suc i" | "Suc d = march (Suc y)"
    using a(2,5) by linarith
  thus ?thesis
  proof cases
    case 1
    hence "d - march y + 1 < 365 + (if leap_year (Suc y) then 1 else 0)" using a(1) by (simp add: march_Suc split: if_splits)
    hence "next_day x = march_date y i (Suc d - march y)"
      using march_date_same[OF a(3,4) 1(2)] a(6) S by simp
    thus ?thesis using date_ofI[of y "Suc d" i] 1 a S by simp
  next
    case 2
    have "d - march y + 1 < 366" using 2(1) a(1) by (simp add: march_Suc split: if_splits)
    hence i: "i < 11" using 2(2) a(3) by (cases "i = 11") (auto simp: month_start_def)
    hence "month_start ! Suc i < month_start ! Suc (Suc i)"
      using a(3) by (elim less_12_cases) (simp_all add: month_start_def)
    thus ?thesis
      using date_ofI[of y "Suc d" "Suc i"] march_date_next[OF i 2(2)] 2 i a S by simp
  next
    case 3
    hence y: "Suc (d - march y) = 365 + (if leap_year (Suc y) then 1 else 0)" using a(1) by (simp add: march_Suc split: if_splits)
    have "i = 11" using a(3) by (rule less_12_cases) (use a(5) y in \<open>auto simp: month_start_def split: if_splits\<close>)
    hence "next_day x = march_date (Suc y) 0 (Suc d - march (Suc y))" using march_date_wrap[OF y] a(6) 3 by simp
    thus ?thesis using date_ofI[of "Suc y" "Suc d" 0] 3 march_Suc[of "Suc y"] by (simp add: month_start_def)
  qed
qed

lemma civil_date: "date_of (n + 719468) (civil n)"
proof (induction n)
  case 0
  show ?case using date_ofI[of 1969 719468 10] by (simp add: march_def month_start_def march_date_def)
next
  case (Suc n)
  thus ?case using date_of_next by fastforce
qed

lemma gmtime_civil:
  "tm_date (ngx_gmtime t) = (case civil (t div 86400) of (a, b, c) \<Rightarrow> (signed_take_bit 31 (int a), b, c))"
  using civil_date[of "t div 86400"] gmtime_date[OF refl] unfolding date_of_def by metis

section \<open>Printed dates are parsed\<close>

definition dg :: "nat \<Rightarrow> u_char" where "dg n = of_nat n + 48"

lemma d02_digits: "n < 100 \<Longrightarrow> d02 n = [dg (n div 10), dg (n mod 10)]"
proof -
  assume n: "n < 100"
  have "(2::nat) \<le> sprintf_room" "n div 10 < 10" using n by (simp_all add: sprintf_room_def)
  thus "d02 n = [dg (n div 10), dg (n mod 10)]"
    using n by (cases "n < 10")
      (simp_all add: sprintf_d_def ngx_sprintf_num_def dec_digits_unfold[of n] dec_digits_unfold[of "n div 10"] dg_def Let_def)
qed

lemma sprintf_d_4digits:
  assumes "1000 \<le> n" "n < 10000"
  shows "sprintf_d SP 4 (int n) = [dg (n div 1000), dg (n div 100 mod 10), dg (n div 10 mod 10), dg (n mod 10)]"
proof -
  have "(4::nat) \<le> sprintf_room" by (simp add: sprintf_room_def)
  moreover have "n div 10 div 10 = n div 100" "n div 100 div 10 = n div 1000" by (simp_all add: div_mult2_eq[symmetric])
  moreover have "n div 1000 < 10" "\<not> n div 100 < 10" "\<not> n div 10 < 10" "\<not> n < 10" using assms by simp_all
  ultimately show ?thesis
    by (simp add: sprintf_d_def ngx_sprintf_num_def dec_digits_unfold[of n] dec_digits_unfold[of "n div 10"]
        dec_digits_unfold[of "n div 100"] dec_digits_unfold[of "n div 1000"] dg_def Let_def)
qed

lemma rd_digit_dg:
  assumes "p < length v" "v ! p = dg n" "n < 10"
  shows "rd_digit v p k = k n"
proof -
  have "unat (dg n - 48) = n" using assms(3) by (simp add: dg_def unat_of_nat)
  thus ?thesis using assms digit_byte(1)[OF assms(3)] by (simp add: rd_digit_def rd_def dg_def)
qed

lemma digits_back: "n div 10 * 10 + n mod 10 = (n::nat)"
  "n div 1000 * 1000 + n div 100 mod 10 * 100 + n div 10 mod 10 * 10 + n mod 10 = n"
proof -
  have d: "n div 10 div 10 = n div 100" "n div 100 div 10 = n div 1000" by (simp_all add: div_mult2_eq[symmetric])
  show "n div 10 * 10 + n mod 10 = n" by simp
  show "n div 1000 * 1000 + n div 100 mod 10 * 100 + n div 10 mod 10 * 10 + n mod 10 = n"
    using div_mult_mod_eq[of n 10] div_mult_mod_eq[of "n div 10" 10] div_mult_mod_eq[of "n div 100" 10] unfolding d by linarith
qed

definition plain :: "u_char \<Rightarrow> bool" where "plain c \<longleftrightarrow> c \<noteq> c8 CHR '','' \<and> c \<noteq> SP"

lemma pt_day_of_week:
  assumes "plain w0" "plain w1" "plain w2" "d \<noteq> SP"
  shows "pt_skip_word (w0 # w1 # w2 # 44 # 32 # d # ds) 0 = (3, no)" "pt_skip_spaces (w0 # w1 # w2 # 44 # 32 # d # ds) 4 = 5"
  using assms by (simp_all add: plain_def pt_skip_word.simps pt_skip_spaces.simps numeral_eq_Suc)

text \<open>The clock, two and four digits at an offset of the value.\<close>

lemma rd_2digits_dg:
  assumes "Suc p < length v" "v ! p = dg (n div 10)" "v ! Suc p = dg (n mod 10)" "n < 100"
  shows "rd_2digits v p k = k n"
proof -
  have "n div 10 < 10" "n mod 10 < 10" using assms(4) by simp_all
  thus ?thesis unfolding rd_2digits_def using assms(1-3) digits_back(1)[of n] by (simp add: rd_digit_dg)
qed

lemma rd_4digits_dg:
  assumes "p + 3 < length v" "v ! p = dg (n div 1000)" "v ! (p + 1) = dg (n div 100 mod 10)"
    "v ! (p + 2) = dg (n div 10 mod 10)" "v ! (p + 3) = dg (n mod 10)" "n < 10000"
  shows "rd_4digits v p k = k n"
proof -
  have "n div 1000 < 10" using assms(6) by simp
  thus ?thesis unfolding rd_4digits_def using assms(1-5) digits_back(2)[of n] by (simp add: rd_digit_dg)
qed

lemma rd_char_here: "p < length v \<Longrightarrow> v ! p = c \<Longrightarrow> rd_char v p c k = k"
  by (simp add: rd_char_def rd_def)

definition hms :: "nat \<Rightarrow> nat \<Rightarrow> nat \<Rightarrow> u_char list" where
  "hms hour minute sec = [SP, dg (hour div 10), dg (hour mod 10), 58, dg (minute div 10), dg (minute mod 10), 58,
     dg (sec div 10), dg (sec mod 10)]"

lemma pt_clock_hms:
  assumes "hour < 100" "minute < 100" "sec < 100" "length u = p"
  shows "pt_clock (u @ hms hour minute sec @ z) p k = k hour minute sec"
proof -
  have l: "p + 9 \<le> length (u @ hms hour minute sec @ z)" using assms(4) by (simp add: hms_def)
  have nn: "(u @ hms hour minute sec @ z) ! p = SP" "(u @ hms hour minute sec @ z) ! (p + 1) = dg (hour div 10)"
    "(u @ hms hour minute sec @ z) ! Suc (p + 1) = dg (hour mod 10)" "(u @ hms hour minute sec @ z) ! (p + 3) = 58"
    "(u @ hms hour minute sec @ z) ! (p + 4) = dg (minute div 10)" "(u @ hms hour minute sec @ z) ! Suc (p + 4) = dg (minute mod 10)"
    "(u @ hms hour minute sec @ z) ! (p + 6) = 58"
    "(u @ hms hour minute sec @ z) ! (p + 7) = dg (sec div 10)" "(u @ hms hour minute sec @ z) ! Suc (p + 7) = dg (sec mod 10)"
    using assms(4) by (simp_all add: hms_def nth_append)
  show ?thesis
    unfolding pt_clock_def using l assms(1-3) by (simp add: rd_char_here rd_2digits_dg nn[simplified])
qed

lemma pt_month_name:
  assumes "m < 12" "length u = p"
  shows "pt_month (u @ bytes (months ! m) @ z) p k = k m"
  using assms(1) by (rule less_12_cases) (use assms(2) in \<open>simp_all add: pt_month_def rd_def months_def nth_append\<close>)

lemma months_length: "m < 12 \<Longrightarrow> length (months ! m) = 3"
  by (erule less_12_cases) (simp_all add: months_def)

lemma dg_not_SP: assumes "n < 10" shows "dg n \<noteq> SP"
proof
  assume "dg n = SP"
  hence "is_digit SP" using digit_byte(1)[OF assms] by (simp only: dg_def)
  thus False by (simp add: is_digit_def)
qed

text \<open>The part before the month.\<close>

lemma parse_day:
  assumes "plain w0" "plain w1" "plain w2" "day < 100" "17 \<le> length z"
  shows "ngx_parse_http_time ([w0, w1, w2, 44, 32, dg (day div 10), dg (day mod 10), c] @ z) =
    (let v = [w0, w1, w2, 44, 32, dg (day div 10), dg (day mod 10), c] @ z in
     if c = SP then pt_rfc822 v 8 day else if c = c8 CHR ''-'' then pt_rfc850 v 8 day else Pt_error)"
    (is "ngx_parse_http_time ?v = _")
proof -
  have d: "day div 10 < 10" using assms(4) by simp
  have dd: "rd_2digits ?v 5 k = k day" for k using assms(4) by (intro rd_2digits_dg) simp_all
  have k: "rd ?v 7 f = f c" for f by (simp add: rd_def)
  have p: "pt_skip_word ?v 0 = (3, no)" "pt_skip_spaces ?v 4 = 5"
    using pt_day_of_week[OF assms(1-3) dg_not_SP[OF d]] by simp_all
  have n: "\<not> length ?v - 5 < 18" "\<not> length ?v - 7 < 18" using assms(5) by simp_all
  have e: "(3::nat) + 1 = 4" "(5::nat) + 2 = 7" "(5::nat) + 3 = 8" by simp_all
  show ?thesis
    unfolding ngx_parse_http_time_def p Let_def prod.case e dd k using n by simp
qed

lemma parse_rfc822:
  assumes w: "plain w0" "plain w1" "plain w2" and day: "day < 100"
    and "m < 12" "year < 10000" "hour < 100" "minute < 100" "sec < 100"
  shows "ngx_parse_http_time ([w0, w1, w2, 44, 32, dg (day div 10), dg (day mod 10), SP] @ bytes (months ! m) @
      [SP, dg (year div 1000), dg (year div 100 mod 10), dg (year div 10 mod 10), dg (year mod 10)] @
      hms hour minute sec @ z) = pt_finish day m year hour minute sec"
    (is "ngx_parse_http_time ?v = _")
proof -
  let ?u = "[w0, w1, w2, 44, 32, dg (day div 10), dg (day mod 10), SP]" and ?n = "bytes (months ! m)"
  let ?y = "[SP, dg (year div 1000), dg (year div 100 mod 10), dg (year div 10 mod 10), dg (year mod 10)]"
  have len: "length ?n = 3" using months_length[OF assms(5)] by simp
  have m: "pt_month ?v 8 k = k m" for k using pt_month_name[OF assms(5), of ?u 8] by simp
  have c: "pt_clock ?v 16 k = k hour minute sec" for k
    using pt_clock_hms[OF assms(7-9), of "?u @ ?n @ ?y" 16] len by simp
  have at: "?v ! (11 + j) = (?y @ hms hour minute sec @ z) ! j" for j using len by (simp add: nth_append)
  have y: "rd_4digits ?v 12 k = k year" for k
    using at[of 1] at[of 2] at[of 3] at[of 4] len assms(6) by (intro rd_4digits_dg) simp_all
  have s: "rd_char ?v 11 SP k = k" for k using at[of 0] len by (intro rd_char_here) simp_all
  have "pt_rfc822 ?v 8 day = pt_finish day m year hour minute sec"
    unfolding pt_rfc822_def m by (simp add: m s y c del: append.simps)
  moreover have "17 \<le> length (?n @ ?y @ hms hour minute sec @ z)" using len by (simp add: hms_def)
  ultimately show ?thesis using parse_day[OF w day] by (simp only: Let_def simp_thms if_True)
qed

lemma parse_rfc850:
  assumes w: "plain w0" "plain w1" "plain w2" and day: "day < 100"
    and "m < 12" "y < 100" "hour < 100" "minute < 100" "sec < 100" "2 \<le> length z"
  shows "ngx_parse_http_time ([w0, w1, w2, 44, 32, dg (day div 10), dg (day mod 10), 45] @ bytes (months ! m) @
      [45, dg (y div 10), dg (y mod 10)] @ hms hour minute sec @ z) =
      pt_finish day m (if y < 70 then y + 2000 else y + 1900) hour minute sec"
    (is "ngx_parse_http_time ?v = _")
proof -
  let ?u = "[w0, w1, w2, 44, 32, dg (day div 10), dg (day mod 10), 45]" and ?n = "bytes (months ! m)"
  let ?y = "[45, dg (y div 10), dg (y mod 10)]"
  have len: "length ?n = 3" using months_length[OF assms(5)] by simp
  have m: "pt_month ?v 8 k = k m" for k using pt_month_name[OF assms(5), of ?u 8] by simp
  have c: "pt_clock ?v 14 k = k hour minute sec" for k
    using pt_clock_hms[OF assms(7-9), of "?u @ ?n @ ?y" 14] len by simp
  have at: "?v ! (11 + j) = (?y @ hms hour minute sec @ z) ! j" for j using len by (simp add: nth_append)
  have y: "rd_2digits ?v 12 k = k y" for k
    using at[of 1] at[of 2] len assms(6) by (intro rd_2digits_dg) simp_all
  have s: "rd_char ?v 11 45 k = k" for k using at[of 0] len by (intro rd_char_here) simp_all
  have "pt_rfc850 ?v 8 day = pt_finish day m (if y < 70 then y + 2000 else y + 1900) hour minute sec"
    unfolding pt_rfc850_def m by (simp add: m s y c Let_def del: append.simps)
  moreover have "17 \<le> length (?n @ ?y @ hms hour minute sec @ z)" using len assms(10) by (simp add: hms_def)
  ultimately show ?thesis using parse_day[OF w day, of "?n @ ?y @ hms hour minute sec @ z" 45] by (simp add: Let_def)
qed

text \<open>Gauss' formula inverts the date.\<close>

lemma word_div_small:
  assumes "y < 2 ^ 64" "k < 2 ^ 64"
  shows "(word_of_nat y :: 64 word) div word_of_nat k = word_of_nat (y div k)"
  using assms by (simp add: word_arith_nat_div unat_of_nat)

lemma march_word:
  assumes "y < 2 ^ 64"
  shows "(365 * word_of_nat y + word_of_nat y div 4 - word_of_nat y div 100 + word_of_nat y div 400 :: 64 word) = word_of_nat (march y)"
proof -
  have "(word_of_nat y :: 64 word) div 4 = word_of_nat (y div 4)" "(word_of_nat y :: 64 word) div 100 = word_of_nat (y div 100)"
    "(word_of_nat y :: 64 word) div 400 = word_of_nat (y div 400)"
    using word_div_small[OF assms, of 4] word_div_small[OF assms, of 100] word_div_small[OF assms, of 400] by simp_all
  moreover have "y div 100 \<le> 365 * y + y div 4" using div_le_dividend[of y 100] by linarith
  ultimately show ?thesis by (simp add: march_def of_nat_diff)
qed

lemma month_start_word:
  assumes "i < 12"
  shows "(word_of_nat (367 * Suc i div 12) :: 64 word) - 30 = word_of_nat (month_start ! i)"
  using assms by (rule less_12_cases) (simp_all add: month_start_def)

lemma clock_split: "t div 86400 * 86400 + t div 3600 mod 24 * 3600 + t div 60 mod 60 * 60 + t mod 60 = (t::nat)"
proof -
  have d: "t div 60 div 60 = t div 3600" "t div 3600 div 24 = t div 86400" by (simp_all add: div_mult2_eq[symmetric])
  show ?thesis
    using div_mult_mod_eq[of t 60] div_mult_mod_eq[of "t div 60" 60] div_mult_mod_eq[of "t div 3600" 24] unfolding d by linarith
qed

lemma pt_seconds_date:
  assumes "y < 2 ^ 64" "i < 12" "march y + month_start ! i + day = t div 86400 + 719469"
  shows "pt_seconds (word_of_nat y) (Suc i) day (t div 3600 mod 24) (t div 60 mod 60) (t mod 60) = word_of_nat t"
proof -
  let ?w = "word_of_nat :: nat \<Rightarrow> 64 word"
  have "?w (march y) + ?w (month_start ! i) + ?w day = ?w (t div 86400) + 719469"
    using arg_cong[OF assms(3), of ?w] by simp
  hence "?w (march y) + (?w (367 * Suc i div 12) - 30) + ?w day - 1 - 719527 + 31 + 28 = ?w (t div 86400)"
    unfolding month_start_word[OF assms(2)] by (simp add: algebra_simps)
  hence e: "365 * ?w y + ?w y div 4 - ?w y div 100 + ?w y div 400 + ?w (367 * Suc i div 12) - 30 + ?w day - 1 - 719527 + 31 + 28
      = ?w (t div 86400)"
    unfolding march_word[OF assms(1)] by (simp add: algebra_simps)
  have "?w (t div 86400 * 86400 + t div 3600 mod 24 * 3600 + t div 60 mod 60 * 60 + t mod 60) = ?w t"
    by (simp only: clock_split)
  thus ?thesis unfolding pt_seconds_def e by simp
qed

lemma finish_date:
  assumes "d = t div 86400 + 719468" "march y \<le> d" "d < march (Suc y)" "y < 10000"
    and i: "i < 12" "month_start ! i \<le> d - march y" "d - march y < month_start ! Suc i"
    and md: "march_date y i (d - march y) = (a, b, c)"
  shows "pt_finish c (b - 1) a (t div 3600 mod 24) (t div 60 mod 60) (t mod 60) = Pt_time (word_of_nat t)"
proof -
  have c: "c = d - march y + 1 - month_start ! i" "1 \<le> c"
    using md i(2) by (auto simp: march_date_def split: if_splits)
  have g: "march y + month_start ! i + c = t div 86400 + 719469" using c(1) i(2) assms(1,2) by simp
  have y: "y < 2 ^ 64" using assms(4) by simp
  have yd: "d - march y < 365 + (if leap_year (Suc y) then 1 else 0)" using assms(2,3) by (simp add: march_Suc split: if_splits)
  have "i = 11 \<Longrightarrow> c \<le> (if leap_year (Suc y) then 29 else 28)" using yd by (auto simp: c month_start_def)
  hence "c \<le> month_len a b"
    unfolding month_len_march[OF i(1) md] using i(2,3) by (auto simp: c)
  moreover have "a mod 4 \<noteq> 0 \<or> a mod 100 = 0 \<and> a mod 400 \<noteq> 0 \<longleftrightarrow> \<not> leap_year a" by (auto simp: leap_year_def)
  moreover have "b \<noteq> 2 \<Longrightarrow> month_len a b = mday_table ! (b - 1)" "month_len a 2 = (if leap_year a then 29 else 28)" "b - 1 = 1 \<longleftrightarrow> b = 2"
    using i(1) by (rule less_12_cases; use md in \<open>auto simp: march_date_def month_len_code mday_table_def\<close>)+
  ultimately have ok: "\<not> (if c = 29 \<and> b - 1 = 1 then a mod 4 \<noteq> 0 \<or> a mod 100 = 0 \<and> a mod 400 \<noteq> 0 else c > mday_table ! (b - 1))"
    by (cases "b = 2") (auto simp: mday_table_def split: if_splits)
  have h: "\<not> (t div 3600 mod 24 > 23 \<or> t div 60 mod 60 > 59 \<or> t mod 60 > 59)" by auto
  show ?thesis
  proof (cases "10 \<le> i")
    case True
    hence e: "a = y + 1" "b - 1 \<le> 1" "b - 1 + 11 = Suc i" using md i(1) by (auto simp: march_date_def)
    have "(word_of_nat a :: 64 word) - 1 = word_of_nat y" unfolding e(1) by simp
    thus ?thesis unfolding pt_finish_def if_not_P[OF h] if_not_P[OF ok] if_P[OF e(2)] e(3) by (simp only: pt_seconds_date[OF y i(1) g])
  next
    case False
    hence e: "a = y" "\<not> b - 1 \<le> 1" "b - 1 - 1 = Suc i" using md i(1) by (auto simp: march_date_def)
    show ?thesis unfolding pt_finish_def if_not_P[OF h] if_not_P[OF ok] if_not_P[OF e(2)]
      unfolding e(1,3) pt_seconds_date[OF y i(1) g] ..
  qed
qed

section \<open>Properties\<close>

lemma week_bytes:
  assumes "k < 7"
  obtains w0 w1 w2 where "bytes (week ! k) = [w0, w1, w2]" "plain w0" "plain w1" "plain w2"
proof -
  have "k = 0 \<or> k = 1 \<or> k = 2 \<or> k = 3 \<or> k = 4 \<or> k = 5 \<or> k = 6" using assms by presburger
  thus ?thesis by (elim disjE) (use that in \<open>simp_all add: week_def plain_def\<close>)
qed

lemma gmtime_clock:
  "ngx_tm_sec (ngx_gmtime t) = t mod 60" "ngx_tm_min (ngx_gmtime t) = t div 60 mod 60"
  "ngx_tm_hour (ngx_gmtime t) = t div 3600 mod 24" "ngx_tm_wday (ngx_gmtime t) = (4 + t div 86400) mod 7"
proof -
  have a: "t mod 86400 div 3600 = t div 3600 mod 24" "t mod 86400 mod 3600 = t mod 3600"
    using mod_mult2_eq[of t 3600 24] by simp_all
  have b: "t mod 3600 div 60 = t div 60 mod 60" "t mod 3600 mod 60 = t mod 60"
    using mod_mult2_eq[of t 60 60] by simp_all
  show "ngx_tm_sec (ngx_gmtime t) = t mod 60" "ngx_tm_min (ngx_gmtime t) = t div 60 mod 60"
    "ngx_tm_hour (ngx_gmtime t) = t div 3600 mod 24" "ngx_tm_wday (ngx_gmtime t) = (4 + t div 86400) mod 7"
    unfolding ngx_gmtime_def Let_def case_prod_beta ngx_tm.select_convs a b by (rule refl)+
qed

text \<open>
  C28 (equivalence). The broken-down time of \<open>ngx_gmtime\<close>, which divides, estimates and corrects, is the one of
  a calendar and a clock that go forward one day at a time from January 1, 1970, a Thursday; the year
  is stored in an \<open>int\<close>.
\<close>

theorem gmtime_calendar:
  "ngx_gmtime t =
     (case civil (t div 86400) of (year, mon, mday) \<Rightarrow>
        \<lparr>ngx_tm_sec = t mod 60, ngx_tm_min = t div 60 mod 60, ngx_tm_hour = t div 3600 mod 24,
         ngx_tm_mday = mday, ngx_tm_mon = mon, ngx_tm_year = signed_take_bit 31 (int year),
         ngx_tm_wday = (4 + t div 86400) mod 7\<rparr>)"
  using gmtime_civil[of t] gmtime_clock[of t]
  by (cases "civil (t div 86400)") (simp add: tm_date_def ngx_tm.equality)

text \<open>The date behind a time before the year 10000.\<close>

lemma time_date:
  assumes "t < 253402300800"
  obtains d y i a b c where "d = t div 86400 + 719468" "march y \<le> d" "d < march (Suc y)" "y < 10000"
    "i < 12" "month_start ! i \<le> d - march y" "d - march y < month_start ! Suc i" "march_date y i (d - march y) = (a, b, c)"
    "tm_date (ngx_gmtime t) = (int a, b, c)" "1000 \<le> a" "a < 10000" "1 \<le> b" "b \<le> 12" "c < 100"
    "t < 2145916800 \<longrightarrow> a < 2038" "1970 \<le> a"
proof -
  let ?d = "t div 86400 + 719468"
  obtain y i where a: "march y \<le> ?d" "?d < march (Suc y)" "i < 12" "month_start ! i \<le> ?d - march y"
      "?d - march y < month_start ! Suc i"
    using civil_date[of "t div 86400"] unfolding date_of_def by blast
  obtain a b c where md: "march_date y i (?d - march y) = (a, b, c)" by (rule prod_cases3)
  have m: "march 10000 = 3652425" "march 9999 = 3652059" "march 1969 = 719162" "march 2037 = 743999" "march 2038 = 744364"
    by (simp_all add: march_def)
  have d: "?d < 3652365" "719468 \<le> ?d" "t < 2145916800 \<Longrightarrow> ?d < 744305" using assms by auto
  have y: "y < 10000" "1969 \<le> y" "t < 2145916800 \<Longrightarrow> y \<le> 2037"
    using d a(1,2) m march_mono[of 10000 y] march_mono[of "Suc y" 1969] march_mono[of 2038 y] by linarith+
  have yd: "y = 9999 \<Longrightarrow> ?d - march y < 306" "y = 1969 \<Longrightarrow> 306 \<le> ?d - march y" "t < 2145916800 \<Longrightarrow> y = 2037 \<Longrightarrow> ?d - march y < 306"
    using d m by auto
  note s = month_start_306[OF a(3-5)]
  have "10 \<le> i \<Longrightarrow> y \<noteq> 9999" "\<not> 10 \<le> i \<Longrightarrow> y \<noteq> 1969" "t < 2145916800 \<Longrightarrow> 10 \<le> i \<Longrightarrow> y \<noteq> 2037"
    using yd s by auto
  hence "10 \<le> i \<Longrightarrow> y < 9999" "\<not> 10 \<le> i \<Longrightarrow> 1970 \<le> y" "t < 2145916800 \<Longrightarrow> 10 \<le> i \<Longrightarrow> y < 2037"
    using y by linarith+
  moreover have "a = (if 10 \<le> i then y + 1 else y)" "b = (if 10 \<le> i then i - 9 else i + 3)"
    using md by (auto simp: march_date_def split: if_splits)
  ultimately have A: "a < 10000" "1970 \<le> a" "t < 2145916800 \<Longrightarrow> a < 2038" "1 \<le> b" "b \<le> 12"
    using y a(3) by (cases "10 \<le> i"; simp)+
  have c: "c < 100"
    using md a(3) by (elim less_12_cases) (use a(4,5) in \<open>auto simp: march_date_def month_start_def\<close>)
  have "signed_take_bit 31 (int a) = int a" using A(1) by (intro signed_take_bit_int_eq_self) simp_all
  hence "tm_date (ngx_gmtime t) = (int a, b, c)" using gmtime_date[OF refl a] md by simp
  thus ?thesis using that[OF refl a(1,2) y(1) a(3-5) md] A c by simp
qed

lemma two_digit_year:
  assumes "1970 \<le> a" "a < 2070"
  shows "(if a mod 100 < 70 then a mod 100 + 2000 else a mod 100 + 1900) = (a::nat)"
proof (cases "a < 2000")
  case True
  hence "a = (a - 1900) + 19 * 100" "a - 1900 < 100" using assms by simp_all
  hence "a mod 100 = a - 1900" by (metis mod_mult_self1 mod_less)
  thus ?thesis using True assms by simp
next
  case False
  hence "a = (a - 2000) + 20 * 100" "a - 2000 < 100" using assms by simp_all
  hence "a mod 100 = a - 2000" by (metis mod_mult_self1 mod_less)
  thus ?thesis using False assms by simp
qed

lemma http_time_text:
  assumes "tm_date (ngx_gmtime t) = (int a, b, c)" "1000 \<le> a" "a < 10000" "c < 100"
  shows "ngx_http_time t = bytes (week ! ((4 + t div 86400) mod 7)) @ [44, 32, dg (c div 10), dg (c mod 10), SP] @
     bytes (months ! (b - 1)) @ [SP, dg (a div 1000), dg (a div 100 mod 10), dg (a div 10 mod 10), dg (a mod 10)] @
     hms (t div 3600 mod 24) (t div 60 mod 60) (t mod 60) @ bytes '' GMT''"
proof -
  have tm: "ngx_tm_year (ngx_gmtime t) = int a" "ngx_tm_mon (ngx_gmtime t) = b" "ngx_tm_mday (ngx_gmtime t) = c"
    using assms(1) by (simp_all add: tm_date_def)
  have dd: "d02 (t div 3600 mod 24) = [dg (t div 3600 mod 24 div 10), dg (t div 3600 mod 24 mod 10)]"
    "d02 (t div 60 mod 60) = [dg (t div 60 mod 60 div 10), dg (t div 60 mod 60 mod 10)]"
    "d02 (t mod 60) = [dg (t mod 60 div 10), dg (t mod 60 mod 10)]" "d02 c = [dg (c div 10), dg (c mod 10)]"
    using mod_less_divisor[of 24 "t div 3600"] mod_less_divisor[of 60 "t div 60"] mod_less_divisor[of 60 t] assms(4)
    by (intro d02_digits; linarith)+
  show ?thesis
    unfolding ngx_http_time_def Let_def tm gmtime_clock dd sprintf_d_4digits[OF assms(2,3)] hms_def by simp
qed

lemma http_cookie_time_text:
  assumes "tm_date (ngx_gmtime t) = (int a, b, c)" "a < 2038" "c < 100"
  shows "ngx_http_cookie_time t = bytes (week ! ((4 + t div 86400) mod 7)) @ [44, 32, dg (c div 10), dg (c mod 10), 45] @
     bytes (months ! (b - 1)) @ [45, dg (a mod 100 div 10), dg (a mod 100 mod 10)] @
     hms (t div 3600 mod 24) (t div 60 mod 60) (t mod 60) @ bytes '' GMT''"
proof -
  have tm: "ngx_tm_year (ngx_gmtime t) = int a" "ngx_tm_mon (ngx_gmtime t) = b" "ngx_tm_mday (ngx_gmtime t) = c"
    using assms(1) by (simp_all add: tm_date_def)
  have n: "\<not> 2037 < int a" "int a mod 100 = int (a mod 100)" using assms(2) by (simp_all add: zmod_int)
  have dd: "d02 (t div 3600 mod 24) = [dg (t div 3600 mod 24 div 10), dg (t div 3600 mod 24 mod 10)]"
    "d02 (t div 60 mod 60) = [dg (t div 60 mod 60 div 10), dg (t div 60 mod 60 mod 10)]"
    "d02 (t mod 60) = [dg (t mod 60 div 10), dg (t mod 60 mod 10)]" "d02 c = [dg (c div 10), dg (c mod 10)]"
    "d02 (a mod 100) = [dg (a mod 100 div 10), dg (a mod 100 mod 10)]"
    using mod_less_divisor[of 24 "t div 3600"] mod_less_divisor[of 60 "t div 60"] mod_less_divisor[of 60 t] assms(3)
      mod_less_divisor[of 100 a]
    by (intro d02_digits; linarith)+
  show ?thesis
    unfolding ngx_http_cookie_time_def Let_def tm gmtime_clock n(2) if_not_P[OF n(1)] dd hms_def by simp
qed



text \<open>A read inside the value does not overread; each reader passes this on.\<close>

lemma rd_safe: "p < length v \<Longrightarrow> (\<And>c. k c \<noteq> Pt_overread) \<Longrightarrow> rd v p k \<noteq> Pt_overread"
  by (simp add: rd_def)

lemma rd_char_safe: "p < length v \<Longrightarrow> k \<noteq> Pt_overread \<Longrightarrow> rd_char v p c k \<noteq> Pt_overread"
  by (simp add: rd_char_def rd_def)

lemma rd_digit_safe: "p < length v \<Longrightarrow> (\<And>n. k n \<noteq> Pt_overread) \<Longrightarrow> rd_digit v p k \<noteq> Pt_overread"
  by (simp add: rd_digit_def rd_def)

lemma rd_2digits_safe: "p + 1 < length v \<Longrightarrow> (\<And>n. k n \<noteq> Pt_overread) \<Longrightarrow> rd_2digits v p k \<noteq> Pt_overread"
  unfolding rd_2digits_def by (intro rd_digit_safe) auto

lemma rd_4digits_safe: "p + 3 < length v \<Longrightarrow> (\<And>n. k n \<noteq> Pt_overread) \<Longrightarrow> rd_4digits v p k \<noteq> Pt_overread"
  unfolding rd_4digits_def by (intro rd_digit_safe) auto

lemma pt_month_safe: "p + 2 < length v \<Longrightarrow> (\<And>n. k n \<noteq> Pt_overread) \<Longrightarrow> pt_month v p k \<noteq> Pt_overread"
  unfolding pt_month_def by (intro rd_safe) (simp_all add: rd_def)

lemma pt_clock_safe: "p + 8 < length v \<Longrightarrow> (\<And>a b c. k a b c \<noteq> Pt_overread) \<Longrightarrow> pt_clock v p k \<noteq> Pt_overread"
  unfolding pt_clock_def by (intro rd_char_safe rd_2digits_safe) auto

lemma pt_finish_safe: "pt_finish day month year hour minute sec \<noteq> Pt_overread"
  by (simp add: pt_finish_def)

lemma if_safe: "a \<noteq> Pt_overread \<Longrightarrow> b \<noteq> Pt_overread \<Longrightarrow> (if c then a else b) \<noteq> Pt_overread"
  by simp

lemmas pt_safe = rd_safe rd_char_safe rd_digit_safe rd_2digits_safe rd_4digits_safe pt_month_safe pt_clock_safe pt_finish_safe

lemma pt_rfc822_safe: "p + 16 < length v \<Longrightarrow> pt_rfc822 v p day \<noteq> Pt_overread"
  unfolding pt_rfc822_def by (intro pt_safe) simp_all

lemma pt_rfc850_safe: "p + 14 < length v \<Longrightarrow> pt_rfc850 v p day \<noteq> Pt_overread"
  unfolding pt_rfc850_def Let_def by (intro pt_safe) simp_all

lemma pt_isoc_rest_safe: "pt_isoc_rest v p month day \<noteq> Pt_overread"
proof (cases "length v - p < 14")
  case False
  thus ?thesis unfolding pt_isoc_rest_def if_not_P[OF False] by (intro pt_safe) simp_all
qed (simp add: pt_isoc_rest_def)

lemma pt_isoc_safe:
  assumes "p + 17 < length v"
  shows "pt_isoc v p \<noteq> Pt_overread"
proof -
  have q: "q + 1 < length v \<Longrightarrow> rd_digit v q (\<lambda>a. rd v (q + 1) (\<lambda>c1.
       if c1 \<noteq> SP then rd_digit v (q + 1) (\<lambda>b. pt_isoc_rest v (q + 2) month (a * 10 + b))
       else pt_isoc_rest v (q + 1) month a)) \<noteq> Pt_overread" for q month
    by (intro rd_digit_safe rd_safe if_safe pt_isoc_rest_safe) simp_all
  show ?thesis unfolding pt_isoc_def Let_def by (intro pt_month_safe rd_safe q) (use assms in \<open>simp_all split: if_split\<close>)
qed

text \<open>
  The parser of dates, which looks ahead without testing for the end at each character,
  reads no byte past the end of the value, whatever the value is.
\<close>

theorem parse_http_time_in_bounds: "ngx_parse_http_time v \<noteq> Pt_overread"
proof -
  obtain p0 fmt where w: "pt_skip_word v 0 = (p0, fmt)" by (rule prod.exhaust)
  let ?p = "pt_skip_spaces v (p0 + 1)"
  show ?thesis
  proof (cases "length v - ?p < 18")
    case False
    have "rd_2digits v ?p (\<lambda>day. rd v (?p + 2) (\<lambda>c.
        if c = SP then (if length v - (?p + 2) < 18 then Pt_error else pt_rfc822 v (?p + 3) day)
        else if c = c8 CHR ''-'' then pt_rfc850 v (?p + 3) day
        else Pt_error)) \<noteq> Pt_overread"
      by (intro rd_2digits_safe rd_safe) (use False in \<open>simp_all add: pt_rfc822_safe pt_rfc850_safe\<close>)
    thus ?thesis using False pt_isoc_safe[of ?p v] unfolding ngx_parse_http_time_def w Let_def prod.case by simp
  qed (simp add: ngx_parse_http_time_def w Let_def)
qed

end
