(* ===== verification/Ngx_Radix_Tree.thy ===== *)
theory Ngx_Radix_Tree
  imports Nginx_Prelude "HOL-Library.Monad_Syntax"
begin

text \<open>
  \<^verbatim>\<open>core/ngx_radix_tree.c\<close>, \<^verbatim>\<open>core/ngx_radix_tree.h\<close>: the radix tree of addresses behind \<open>geo\<close>, on an
  explicit store with parent pointers and a list of free nodes. The 32-bit and the 128-bit variants
  of the source are the same loops over the bits of a key and its mask; the loops are written once,
  with the tests of the bits as arguments, and the variants instantiate them.
\<close>

section \<open>The store\<close>

text \<open>
  The fields of all nodes and of \<open>ngx_radix_tree_t\<close>. The pool is the list of the pages it can still
  give: when it is empty \<open>ngx_pmemalign\<close> returns NULL.
\<close>

record radix =
  rx_right :: "addr \<Rightarrow> addr"
  rx_left :: "addr \<Rightarrow> addr"
  rx_parent :: "addr \<Rightarrow> addr"
  rx_value :: "addr \<Rightarrow> 64 word"
  rx_root :: addr
  rx_free :: addr
  rx_start :: addr
  rx_size :: nat
  rx_pool :: "addr list"

definition NGX_RADIX_NO_VALUE :: "64 word" where "NGX_RADIX_NO_VALUE = -1"

definition ngx_pagesize :: nat where "ngx_pagesize = 4096"
definition radix_node_size :: nat where "radix_node_size = 32"

definition rx_set_right :: "addr \<Rightarrow> addr \<Rightarrow> radix \<Rightarrow> radix" where
  "rx_set_right a x h = h\<lparr>rx_right := (rx_right h)(a := x)\<rparr>"

definition rx_set_left :: "addr \<Rightarrow> addr \<Rightarrow> radix \<Rightarrow> radix" where
  "rx_set_left a x h = h\<lparr>rx_left := (rx_left h)(a := x)\<rparr>"

definition rx_set_parent :: "addr \<Rightarrow> addr \<Rightarrow> radix \<Rightarrow> radix" where
  "rx_set_parent a x h = h\<lparr>rx_parent := (rx_parent h)(a := x)\<rparr>"

definition rx_set_value :: "addr \<Rightarrow> 64 word \<Rightarrow> radix \<Rightarrow> radix" where
  "rx_set_value a x h = h\<lparr>rx_value := (rx_value h)(a := x)\<rparr>"

lemmas rx_set_defs = rx_set_right_def rx_set_left_def rx_set_parent_def rx_set_value_def

datatype radix_rc = Radix_OK | Radix_BUSY | Radix_ERROR | Radix_NULL_deref

definition ngx_radix_alloc :: "radix \<Rightarrow> addr \<times> radix" where
  "ngx_radix_alloc h =
     (if rx_free h \<noteq> NULL
      then (rx_free h, h\<lparr>rx_free := rx_right h (rx_free h)\<rparr>)
      else if rx_size h < radix_node_size
      then (case rx_pool h of
              [] \<Rightarrow> (NULL, h\<lparr>rx_start := NULL\<rparr>)
            | page # pages \<Rightarrow> (page, h\<lparr>rx_pool := pages, rx_start := page + radix_node_size,
                                 rx_size := ngx_pagesize - radix_node_size\<rparr>))
      else (rx_start h, h\<lparr>rx_start := rx_start h + radix_node_size, rx_size := rx_size h - radix_node_size\<rparr>))"

section \<open>The loops\<close>

text \<open>
  \<open>tst\<close> is the test \<open>bit & mask\<close> of the loops, \<open>dir\<close> the test \<open>key & bit\<close>, \<open>adv\<close> the step to the next bit.
\<close>

definition rx_child :: "bool \<Rightarrow> radix \<Rightarrow> addr \<Rightarrow> addr" where
  "rx_child b h node = (if b then rx_right h node else rx_left h node)"

definition rx_set_child :: "bool \<Rightarrow> addr \<Rightarrow> addr \<Rightarrow> radix \<Rightarrow> radix" where
  "rx_set_child b node x h = (if b then rx_set_right node x h else rx_set_left node x h)"

partial_function (option) rx_descend ::
  "('p \<Rightarrow> bool) \<Rightarrow> ('p \<Rightarrow> bool) \<Rightarrow> ('p \<Rightarrow> 'p) \<Rightarrow> radix \<Rightarrow> 'p \<Rightarrow> addr \<Rightarrow> addr \<Rightarrow> ('p \<times> addr \<times> addr) option" where
  [code]: "rx_descend tst dir adv h pos node nxt =
     (if tst pos
      then let nxt' = rx_child (dir pos) h node in
           if nxt' = NULL then Some (pos, node, nxt')
           else rx_descend tst dir adv h (adv pos) nxt' nxt'
      else Some (pos, node, nxt))"

partial_function (option) rx_grow ::
  "('p \<Rightarrow> bool) \<Rightarrow> ('p \<Rightarrow> bool) \<Rightarrow> ('p \<Rightarrow> 'p) \<Rightarrow> 64 word \<Rightarrow> 'p \<Rightarrow> addr \<Rightarrow> radix \<Rightarrow> (radix_rc \<times> radix) option" where
  [code]: "rx_grow tst dir adv v pos node h =
     (if tst pos
      then let (nxt, h0) = ngx_radix_alloc h in
           if nxt = NULL then Some (Radix_ERROR, h0)
           else let h1 = rx_set_right nxt NULL h0;
                    h2 = rx_set_left nxt NULL h1;
                    h3 = rx_set_parent nxt node h2;
                    h4 = rx_set_value nxt NGX_RADIX_NO_VALUE h3;
                    h5 = rx_set_child (dir pos) node nxt h4
                in rx_grow tst dir adv v (adv pos) nxt h5
      else Some (Radix_OK, rx_set_value node v h))"

definition rx_insert_from ::
  "('p \<Rightarrow> bool) \<Rightarrow> ('p \<Rightarrow> bool) \<Rightarrow> ('p \<Rightarrow> 'p) \<Rightarrow> 64 word \<Rightarrow> 'p \<Rightarrow> addr \<Rightarrow> radix \<Rightarrow> (radix_rc \<times> radix) option" where
  "rx_insert_from tst dir adv v pos0 root h =
     do { (pos, node, nxt) \<leftarrow> rx_descend tst dir adv h pos0 root root;
          if nxt \<noteq> NULL
          then if rx_value h node \<noteq> NGX_RADIX_NO_VALUE then Some (Radix_BUSY, h)
               else Some (Radix_OK, rx_set_value node v h)
          else rx_grow tst dir adv v pos node h }"

partial_function (option) rx_walk ::
  "('p \<Rightarrow> bool) \<Rightarrow> ('p \<Rightarrow> bool) \<Rightarrow> ('p \<Rightarrow> 'p) \<Rightarrow> radix \<Rightarrow> 'p \<Rightarrow> addr \<Rightarrow> addr option" where
  [code]: "rx_walk tst dir adv h pos node =
     (if node \<noteq> NULL \<and> tst pos then rx_walk tst dir adv h (adv pos) (rx_child (dir pos) h node)
      else Some node)"

text \<open>The loop that frees a leaf and the ancestors that are left with neither children nor a value.\<close>

partial_function (option) rx_prune :: "addr \<Rightarrow> radix \<Rightarrow> (radix_rc \<times> radix) option" where
  [code]: "rx_prune node h =
     (let parent = rx_parent h node in
      if parent = NULL then Some (Radix_NULL_deref, h)
      else let h1 = (if rx_right h parent = node then rx_set_right parent NULL h else rx_set_left parent NULL h);
               h2 = rx_set_right node (rx_free h1) h1;
               h3 = h2\<lparr>rx_free := node\<rparr>
           in if rx_right h3 parent \<noteq> NULL \<or> rx_left h3 parent \<noteq> NULL then Some (Radix_OK, h3)
              else if rx_value h3 parent \<noteq> NGX_RADIX_NO_VALUE then Some (Radix_OK, h3)
              else if rx_parent h3 parent = NULL then Some (Radix_OK, h3)
              else rx_prune parent h3)"

definition rx_delete_from ::
  "('p \<Rightarrow> bool) \<Rightarrow> ('p \<Rightarrow> bool) \<Rightarrow> ('p \<Rightarrow> 'p) \<Rightarrow> 'p \<Rightarrow> radix \<Rightarrow> (radix_rc \<times> radix) option" where
  "rx_delete_from tst dir adv pos0 h =
     do { node \<leftarrow> rx_walk tst dir adv h pos0 (rx_root h);
          if node = NULL then Some (Radix_ERROR, h)
          else if rx_right h node \<noteq> NULL \<or> rx_left h node \<noteq> NULL
          then if rx_value h node \<noteq> NGX_RADIX_NO_VALUE
               then Some (Radix_OK, rx_set_value node NGX_RADIX_NO_VALUE h)
               else Some (Radix_ERROR, h)
          else rx_prune node h }"

text \<open>The search; \<open>dir\<close> is \<open>None\<close> where the source reads past the end of the key.\<close>

datatype radix_found = Radix_value "64 word" | Radix_overread

partial_function (option) rx_find ::
  "('p \<Rightarrow> bool option) \<Rightarrow> ('p \<Rightarrow> 'p) \<Rightarrow> radix \<Rightarrow> 'p \<Rightarrow> addr \<Rightarrow> 64 word \<Rightarrow> radix_found option" where
  [code]: "rx_find dir adv h pos node v =
     (if node = NULL then Some (Radix_value v)
      else let v' = (if rx_value h node \<noteq> NGX_RADIX_NO_VALUE then rx_value h node else v) in
           case dir pos of
             None \<Rightarrow> Some Radix_overread
           | Some b \<Rightarrow> rx_find dir adv h (adv pos) (rx_child b h node) v')"

section \<open>The 32-bit variant\<close>

definition bit32 :: "32 word" where "bit32 = 0x80000000"

definition ngx_radix32tree_insert :: "32 word \<Rightarrow> 32 word \<Rightarrow> 64 word \<Rightarrow> radix \<Rightarrow> (radix_rc \<times> radix) option" where
  "ngx_radix32tree_insert key msk v h =
     rx_insert_from (\<lambda>b. b AND msk \<noteq> 0) (\<lambda>b. key AND b \<noteq> 0) (drop_bit 1) v bit32 (rx_root h) h"

definition ngx_radix32tree_delete :: "32 word \<Rightarrow> 32 word \<Rightarrow> radix \<Rightarrow> (radix_rc \<times> radix) option" where
  "ngx_radix32tree_delete key msk h =
     rx_delete_from (\<lambda>b. b AND msk \<noteq> 0) (\<lambda>b. key AND b \<noteq> 0) (drop_bit 1) bit32 h"

definition ngx_radix32tree_find :: "32 word \<Rightarrow> radix \<Rightarrow> radix_found option" where
  "ngx_radix32tree_find key h =
     rx_find (\<lambda>b. Some (key AND b \<noteq> 0)) (drop_bit 1) h bit32 (rx_root h) NGX_RADIX_NO_VALUE"

section \<open>The 128-bit variant\<close>

text \<open>
  The position is the index of a byte and a bit in it. The loops of insertion and deletion stop when
  the index reaches 16, that of the search does not.
\<close>

definition adv128 :: "nat \<times> 8 word \<Rightarrow> nat \<times> 8 word" where
  "adv128 pos = (let b = drop_bit 1 (snd pos) in if b = 0 then (fst pos + 1, 0x80) else (fst pos, b))"

definition tst128 :: "8 word list \<Rightarrow> nat \<times> 8 word \<Rightarrow> bool" where
  "tst128 msk pos \<longleftrightarrow> fst pos \<noteq> 16 \<and> snd pos AND msk ! fst pos \<noteq> 0"

definition dir128 :: "8 word list \<Rightarrow> nat \<times> 8 word \<Rightarrow> bool" where
  "dir128 key pos \<longleftrightarrow> key ! fst pos AND snd pos \<noteq> 0"

definition ngx_radix128tree_insert :: "8 word list \<Rightarrow> 8 word list \<Rightarrow> 64 word \<Rightarrow> radix \<Rightarrow> (radix_rc \<times> radix) option" where
  "ngx_radix128tree_insert key msk v h =
     rx_insert_from (tst128 msk) (dir128 key) adv128 v (0, 0x80) (rx_root h) h"

definition ngx_radix128tree_delete :: "8 word list \<Rightarrow> 8 word list \<Rightarrow> radix \<Rightarrow> (radix_rc \<times> radix) option" where
  "ngx_radix128tree_delete key msk h = rx_delete_from (tst128 msk) (dir128 key) adv128 (0, 0x80) h"

definition ngx_radix128tree_find :: "8 word list \<Rightarrow> radix \<Rightarrow> radix_found option" where
  "ngx_radix128tree_find key h =
     rx_find (\<lambda>pos. if fst pos < length key then Some (dir128 key pos) else None) adv128 h (0, 0x80) (rx_root h) NGX_RADIX_NO_VALUE"

section \<open>Creation\<close>

partial_function (option) rx_prealloc_keys :: "32 word \<Rightarrow> 32 word \<Rightarrow> 32 word \<Rightarrow> radix \<Rightarrow> radix option option" where
  [code]: "rx_prealloc_keys inc msk key h =
     do { (rc, h1) \<leftarrow> ngx_radix32tree_insert key msk NGX_RADIX_NO_VALUE h;
          if rc \<noteq> Radix_OK then Some None
          else let key' = key + inc in
               if key' \<noteq> 0 then rx_prealloc_keys inc msk key' h1 else Some (Some h1) }"

partial_function (option) rx_prealloc :: "int \<Rightarrow> 32 word \<Rightarrow> 32 word \<Rightarrow> radix \<Rightarrow> radix option option" where
  [code]: "rx_prealloc preallocate msk inc h =
     (if preallocate = 0 then Some (Some h)
      else let msk' = drop_bit 1 msk OR 0x80000000 in
           do { r \<leftarrow> rx_prealloc_keys inc msk' 0 h;
                case r of
                  None \<Rightarrow> Some None
                | Some h1 \<Rightarrow> rx_prealloc (preallocate - 1) msk' (drop_bit 1 inc) h1 })"

definition ngx_radix_tree_create :: "addr list \<Rightarrow> int \<Rightarrow> radix option option" where
  "ngx_radix_tree_create pool preallocate =
     (let h = \<lparr>rx_right = (\<lambda>_. NULL), rx_left = (\<lambda>_. NULL), rx_parent = (\<lambda>_. NULL), rx_value = (\<lambda>_. 0),
               rx_root = NULL, rx_free = NULL, rx_start = NULL, rx_size = 0, rx_pool = pool\<rparr>;
          (root, h0) = ngx_radix_alloc h
      in if root = NULL then Some None
         else let h1 = h0\<lparr>rx_root := root\<rparr>;
                  h2 = rx_set_value root NGX_RADIX_NO_VALUE
                         (rx_set_parent root NULL (rx_set_left root NULL (rx_set_right root NULL h1)))
              in if preallocate = 0 then Some (Some h2)
                 else rx_prealloc (if preallocate = -1
                                   then (if ngx_pagesize div radix_node_size = 128 then 6
                                         else if ngx_pagesize div radix_node_size = 256 then 7 else 8)
                                   else preallocate) 0 0x80000000 h2)"

section \<open>The tree in the store\<close>

datatype rx_tree = RxE | RxN addr "64 word" rx_tree rx_tree

text \<open>\<open>rx_at h par t p\<close>: the tree \<open>t\<close> is at \<open>p\<close>, a child of \<open>par\<close>. A node is its address, value, left and right subtree.\<close>

primrec rx_at :: "radix \<Rightarrow> addr \<Rightarrow> rx_tree \<Rightarrow> addr \<Rightarrow> bool" where
  "rx_at h par RxE p \<longleftrightarrow> p = NULL"
| "rx_at h par (RxN a v l r) p \<longleftrightarrow> p = a \<and> a \<noteq> NULL \<and> rx_parent h a = par \<and> rx_value h a = v \<and>
     rx_at h a l (rx_left h a) \<and> rx_at h a r (rx_right h a)"

primrec rx_addrs :: "rx_tree \<Rightarrow> addr list" where
  "rx_addrs RxE = []"
| "rx_addrs (RxN a v l r) = a # rx_addrs l @ rx_addrs r"

primrec rx_depth :: "rx_tree \<Rightarrow> nat" where
  "rx_depth RxE = 0"
| "rx_depth (RxN a v l r) = Suc (max (rx_depth l) (rx_depth r))"

text \<open>What the tree stores: a value for each path, a list of bits.\<close>

definition radix_entry :: "64 word \<Rightarrow> 64 word option" where
  "radix_entry v = (if v = NGX_RADIX_NO_VALUE then None else Some v)"

fun look :: "rx_tree \<Rightarrow> bool list \<Rightarrow> 64 word option" where
  "look RxE bs = None"
| "look (RxN a v l r) [] = radix_entry v"
| "look (RxN a v l r) (b # bs) = look (if b then r else l) bs"

lemma rx_at_NULL: "rx_at h par t p \<Longrightarrow> p = NULL \<longleftrightarrow> t = RxE"
  by (cases t) auto

lemma rx_at_addr: "rx_at h par t p \<Longrightarrow> p \<noteq> NULL \<Longrightarrow> p \<in> set (rx_addrs t)"
  by (cases t) auto

lemma rx_addrs_not_NULL: "rx_at h par t p \<Longrightarrow> NULL \<notin> set (rx_addrs t)"
  by (induction t arbitrary: par p) auto

text \<open>The store outside a set of nodes, and what depends only on the nodes of a set.\<close>

definition rx_same :: "addr set \<Rightarrow> radix \<Rightarrow> radix \<Rightarrow> bool" where
  "rx_same S h h' \<longleftrightarrow> (\<forall>a\<in>S. rx_right h' a = rx_right h a \<and> rx_left h' a = rx_left h a \<and>
     rx_parent h' a = rx_parent h a \<and> rx_value h' a = rx_value h a)"

lemma rx_same_subset: "rx_same S h h' \<Longrightarrow> T \<subseteq> S \<Longrightarrow> rx_same T h h'"
  by (auto simp: rx_same_def)

lemma rx_same_trans: "rx_same S h h' \<Longrightarrow> rx_same T h' h'' \<Longrightarrow> rx_same (S \<inter> T) h h''"
  by (auto simp: rx_same_def)

lemma rx_same_refl: "rx_same S h h"
  by (simp add: rx_same_def)

lemma rx_at_same: "rx_same S h h' \<Longrightarrow> set (rx_addrs t) \<subseteq> S \<Longrightarrow> rx_at h' par t p = rx_at h par t p"
  by (induction t arbitrary: par p) (auto simp: rx_same_def)

text \<open>The nodes that can be allocated, in the order in which they will be.\<close>

primrec rx_chain :: "radix \<Rightarrow> addr \<Rightarrow> addr list \<Rightarrow> bool" where
  "rx_chain h p [] \<longleftrightarrow> p = NULL"
| "rx_chain h p (a # as) \<longleftrightarrow> p = a \<and> a \<noteq> NULL \<and> rx_chain h (rx_right h a) as"

definition rx_nodes :: "addr \<Rightarrow> nat \<Rightarrow> addr list" where
  "rx_nodes start n = map (\<lambda>i. start + radix_node_size * i) [0..<n div radix_node_size]"

definition rx_avail :: "radix \<Rightarrow> addr list" where
  "rx_avail h = rx_nodes (rx_start h) (rx_size h) @ concat (map (\<lambda>page. rx_nodes page ngx_pagesize) (rx_pool h))"

definition rx_supply :: "radix \<Rightarrow> addr list \<Rightarrow> bool" where
  "rx_supply h s \<longleftrightarrow> (\<exists>fs. rx_chain h (rx_free h) fs \<and> s = fs @ rx_avail h) \<and> distinct s \<and> NULL \<notin> set s"

text \<open>There are at least \<open>k\<close> of them.\<close>

definition radix_room :: "radix \<Rightarrow> nat \<Rightarrow> bool" where
  "radix_room h k \<longleftrightarrow> (\<exists>s. rx_supply h s \<and> k \<le> length s)"

lemma rx_chain_unique: "rx_chain h p fs \<Longrightarrow> rx_chain h p gs \<Longrightarrow> fs = gs"
proof (induction fs arbitrary: p gs)
  case Nil
  thus ?case by (cases gs) auto
next
  case (Cons a fs)
  thus ?case by (cases gs) auto
qed

lemma radix_room_iff: "rx_supply h s \<Longrightarrow> radix_room h k \<longleftrightarrow> k \<le> length s"
  unfolding radix_room_def rx_supply_def by (auto dest: rx_chain_unique)

lemma rx_chain_same: "rx_same S h h' \<Longrightarrow> set fs \<subseteq> S \<Longrightarrow> rx_chain h' p fs = rx_chain h p fs"
  by (induction fs arbitrary: p) (auto simp: rx_same_def)

lemma rx_supply_same:
  assumes "rx_supply h s" "rx_same S h h'" "set s \<subseteq> S"
    "rx_free h' = rx_free h" "rx_start h' = rx_start h" "rx_size h' = rx_size h" "rx_pool h' = rx_pool h"
  shows "rx_supply h' s"
proof -
  obtain fs where fs: "rx_chain h (rx_free h) fs" "s = fs @ rx_avail h" "distinct s" "NULL \<notin> set s"
    using assms(1) by (auto simp: rx_supply_def)
  hence "rx_chain h' (rx_free h') fs" using rx_chain_same[OF assms(2), of fs] assms(3,4) by auto
  moreover have "rx_avail h' = rx_avail h" using assms(5-7) by (simp add: rx_avail_def)
  ultimately show ?thesis using fs by (auto simp: rx_supply_def)
qed

lemma rx_nodes_less: "n < radix_node_size \<Longrightarrow> rx_nodes a n = []"
  by (simp add: rx_nodes_def)

lemma rx_nodes_Cons:
  assumes "radix_node_size \<le> n"
  shows "rx_nodes a n = a # rx_nodes (a + radix_node_size) (n - radix_node_size)"
proof -
  have "n div radix_node_size = Suc ((n - radix_node_size) div radix_node_size)"
    using assms by (simp add: radix_node_size_def le_div_geq)
  thus ?thesis unfolding rx_nodes_def by (simp add: map_upt_Suc algebra_simps del: upt_Suc)
qed

text \<open>Allocation takes the first node of the supply and touches no field of a node.\<close>

lemma radix_alloc:
  assumes "rx_supply h s"
  obtains (none) h' where "s = []" "ngx_radix_alloc h = (NULL, h')" "rx_same UNIV h h'" "rx_root h' = rx_root h" "rx_supply h' []"
  | (some) a s' h' where "s = a # s'" "ngx_radix_alloc h = (a, h')" "rx_same UNIV h h'" "rx_root h' = rx_root h" "rx_supply h' s'"
proof -
  obtain fs where fs: "rx_chain h (rx_free h) fs" "s = fs @ rx_avail h" and d: "distinct s" "NULL \<notin> set s"
    using assms by (auto simp: rx_supply_def)
  consider "rx_free h \<noteq> NULL" | (new) "rx_free h = NULL" "rx_size h < radix_node_size" | (cut) "rx_free h = NULL" "radix_node_size \<le> rx_size h"
    by linarith
  thus ?thesis
  proof cases
    case 1
    then obtain fs' where f: "fs = rx_free h # fs'" "rx_chain h (rx_right h (rx_free h)) fs'" using fs(1) by (cases fs) auto
    let ?h = "h\<lparr>rx_free := rx_right h (rx_free h)\<rparr>"
    have same: "rx_same UNIV h ?h" by (simp add: rx_same_def)
    have "rx_supply ?h (fs' @ rx_avail h)"
      using f d fs(2) rx_chain_same[OF same, of fs'] by (auto simp: rx_supply_def rx_avail_def)
    thus ?thesis using some[of "rx_free h" "fs' @ rx_avail h" ?h] 1 f fs(2) same by (simp add: ngx_radix_alloc_def)
  next
    case new
    hence s: "s = concat (map (\<lambda>page. rx_nodes page ngx_pagesize) (rx_pool h))" and f: "fs = []"
      using fs by (cases fs; auto simp: rx_avail_def rx_nodes_less)+
    show ?thesis
    proof (cases "rx_pool h")
      case Nil
      let ?h = "h\<lparr>rx_start := NULL\<rparr>"
      have "rx_supply ?h []" using Nil new by (simp add: rx_supply_def rx_avail_def rx_nodes_less)
      thus ?thesis using none[of ?h] Nil new s by (simp add: ngx_radix_alloc_def rx_same_def)
    next
      case (Cons page pages)
      let ?h = "h\<lparr>rx_pool := pages, rx_start := page + radix_node_size, rx_size := ngx_pagesize - radix_node_size\<rparr>"
      have e: "s = page # rx_avail ?h"
        using s Cons rx_nodes_Cons[of ngx_pagesize page] by (simp add: rx_avail_def radix_node_size_def ngx_pagesize_def)
      hence "rx_supply ?h (rx_avail ?h)" using d new(1) by (simp add: rx_supply_def)
      thus ?thesis using some[of page "rx_avail ?h" ?h] Cons new e by (simp add: ngx_radix_alloc_def rx_same_def)
    qed
  next
    case cut
    let ?h = "h\<lparr>rx_start := rx_start h + radix_node_size, rx_size := rx_size h - radix_node_size\<rparr>"
    have e: "s = rx_start h # rx_avail ?h"
      using fs cut rx_nodes_Cons[OF cut(2), of "rx_start h"] by (cases fs) (auto simp: rx_avail_def)
    hence "rx_supply ?h (rx_avail ?h)" using d cut(1) by (simp add: rx_supply_def)
    thus ?thesis using some[of "rx_start h" "rx_avail ?h" ?h] cut e by (simp add: ngx_radix_alloc_def rx_same_def)
  qed
qed

section \<open>Insertion\<close>

text \<open>The loops read the bits of \<open>path\<close> from position \<open>pos\<close> on and then stop.\<close>

primrec spells :: "('p \<Rightarrow> bool) \<Rightarrow> ('p \<Rightarrow> bool) \<Rightarrow> ('p \<Rightarrow> 'p) \<Rightarrow> 'p \<Rightarrow> bool list \<Rightarrow> bool" where
  "spells tst dir adv pos [] \<longleftrightarrow> \<not> tst pos"
| "spells tst dir adv pos (b # bs) \<longleftrightarrow> tst pos \<and> dir pos = b \<and> spells tst dir adv (adv pos) bs"

text \<open>
  What insertion into the subtree \<open>t\<close> at \<open>p\<close> does, with the nodes \<open>s\<close> to allocate from: the subtree has the new
  entry, or an old one was found, or the nodes did not suffice; nothing outside the subtree and the new nodes changes.
\<close>

definition ins_post ::
  "radix \<Rightarrow> addr \<Rightarrow> addr \<Rightarrow> rx_tree \<Rightarrow> bool list \<Rightarrow> 64 word \<Rightarrow> addr list \<Rightarrow> radix_rc \<Rightarrow> radix \<Rightarrow> bool" where
  "ins_post h par p t path v s rc h' \<longleftrightarrow> (\<exists>t' new s'. rx_at h' par t' p \<and> s = new @ s' \<and> rx_supply h' s' \<and>
     distinct (rx_addrs t') \<and> set (rx_addrs t') = set (rx_addrs t) \<union> set new \<and>
     rx_same (- (set (rx_addrs t) \<union> set new)) h h' \<and> rx_root h' = rx_root h \<and>
     rx_depth t' \<le> max (rx_depth t) (Suc (length path)) \<and>
     look t' = (if rc = Radix_OK then (look t)(path := radix_entry v) else look t) \<and>
     (rc = Radix_OK \<and> look t path = None \<or> rc = Radix_BUSY \<and> look t path \<noteq> None \<and> h' = h \<or>
      rc = Radix_ERROR \<and> look t path = None \<and> length s < length path))"

lemma ins_postI:
  assumes "rx_at h' par t' p" "s = new @ s'" "rx_supply h' s'" "distinct (rx_addrs t')"
    "set (rx_addrs t') = set (rx_addrs t) \<union> set new" "rx_same (- (set (rx_addrs t) \<union> set new)) h h'" "rx_root h' = rx_root h"
    "rx_depth t' \<le> max (rx_depth t) (Suc (length path))"
    "look t' = (if rc = Radix_OK then (look t)(path := radix_entry v) else look t)"
    "rc = Radix_OK \<and> look t path = None \<or> rc = Radix_BUSY \<and> look t path \<noteq> None \<and> h' = h \<or>
     rc = Radix_ERROR \<and> look t path = None \<and> length s < length path"
  shows "ins_post h par p t path v s rc h'"
  unfolding ins_post_def using assms by blast

text \<open>A subtree is replaced while nothing outside it and other nodes \<open>S\<close> changes.\<close>

lemma rx_at_replace:
  assumes t: "rx_at h par (RxN p v l r) p" and same: "rx_same (- S) h h'"
    and S: "p \<notin> S" "set (rx_addrs (if b then l else r)) \<inter> S = {}" and c: "rx_at h' p c (rx_child b h p)"
  shows "rx_at h' par (if b then RxN p v l c else RxN p v c r) p"
proof -
  let ?o = "if b then l else r"
  have "set (rx_addrs ?o) \<subseteq> - S" using S(2) by blast
  hence "rx_at h' p ?o (rx_child (\<not> b) h p)"
    using rx_at_same[OF same, of ?o p] t by (cases b) (simp_all add: rx_child_def)
  moreover have "rx_parent h' p = par" "rx_value h' p = v" "rx_right h' p = rx_right h p" "rx_left h' p = rx_left h p"
    using same S(1) t by (auto simp: rx_same_def)
  ultimately show ?thesis using c t by (cases b) (simp_all add: rx_child_def)
qed

lemma look_upd_child:
  "look (if b then RxN a v l c else RxN a v c r) = (\<lambda>path. case path of [] \<Rightarrow> radix_entry v
     | x # xs \<Rightarrow> if x = b then look c xs else look (if b then l else r) xs)"
  by (rule ext) (simp split: list.split)

lemma ins_post_lift:
  assumes t: "rx_at h par (RxN p v l r) p" and d: "distinct (rx_addrs (RxN p v l r) @ s)"
    and post: "ins_post h p (rx_child b h p) (if b then r else l) bs w s rc h'"
  shows "ins_post h par p (RxN p v l r) (b # bs) w s rc h'"
proof -
  let ?c = "if b then r else l" and ?o = "if b then l else r"
  obtain c' new s' where c: "rx_at h' p c' (rx_child b h p)" "s = new @ s'" "rx_supply h' s'" "distinct (rx_addrs c')"
      "set (rx_addrs c') = set (rx_addrs ?c) \<union> set new" "rx_same (- (set (rx_addrs ?c) \<union> set new)) h h'" "rx_root h' = rx_root h"
      "rx_depth c' \<le> max (rx_depth ?c) (Suc (length bs))"
      "look c' = (if rc = Radix_OK then (look ?c)(bs := radix_entry w) else look ?c)"
      "rc = Radix_OK \<and> look ?c bs = None \<or> rc = Radix_BUSY \<and> look ?c bs \<noteq> None \<and> h' = h \<or> rc = Radix_ERROR \<and> look ?c bs = None \<and> length s < length bs"
    using post unfolding ins_post_def by blast
  let ?t' = "if b then RxN p v l c' else RxN p v c' r"
  have dis: "p \<notin> set (rx_addrs ?c) \<union> set new" "set (rx_addrs ?o) \<inter> (set (rx_addrs ?c) \<union> set new) = {}" "distinct (rx_addrs ?o)"
    using d c(2) by auto
  have "rx_at h' par ?t' p" using rx_at_replace[OF t c(6) dis(1,2) c(1)] .
  moreover have "distinct (rx_addrs ?t')" using dis c(4,5) d by (cases b) auto
  moreover have "set (rx_addrs ?t') = set (rx_addrs (RxN p v l r)) \<union> set new" using c(5) by (cases b) auto
  moreover have "rx_same (- (set (rx_addrs (RxN p v l r)) \<union> set new)) h h'" using c(6) by (rule rx_same_subset) auto
  moreover have "rx_depth ?t' \<le> max (rx_depth (RxN p v l r)) (Suc (length (b # bs)))" using c(8) by (cases b) auto
  moreover have "look ?t' = (if rc = Radix_OK then (look (RxN p v l r))(b # bs := radix_entry w) else look (RxN p v l r))"
    unfolding look_upd_child c(9) by (rule ext) (auto split: list.split)
  moreover have "rc = Radix_OK \<and> look (RxN p v l r) (b # bs) = None \<or> rc = Radix_BUSY \<and> look (RxN p v l r) (b # bs) \<noteq> None \<and> h' = h \<or>
      rc = Radix_ERROR \<and> look (RxN p v l r) (b # bs) = None \<and> length s < length (b # bs)"
    using c(10) unfolding look.simps by (elim disjE) simp_all
  ultimately show ?thesis using c(2,3,7) by (intro ins_postI[of h' par ?t' p s new s'])
qed

text \<open>A node without a value under a node.\<close>

lemma look_bare: "look (RxN a NGX_RADIX_NO_VALUE RxE RxE) bs = None"
  by (cases bs) (simp_all add: radix_entry_def)

lemma ins_post_new_node:
  assumes "ins_post h5 par p t5 (b # bs) w s rc h'" and E: "(if b then r else l) = RxE"
    and t5: "t5 = (if b then RxN p v l (RxN a NGX_RADIX_NO_VALUE RxE RxE) else RxN p v (RxN a NGX_RADIX_NO_VALUE RxE RxE) r)"
    and same: "rx_same (- {p, a}) h h5" and root: "rx_root h5 = rx_root h" and err: "rc = Radix_ERROR \<Longrightarrow> length s < length bs"
  shows "ins_post h par p (RxN p v l r) (b # bs) w (a # s) rc h'"
proof -
  let ?t = "RxN p v l r"
  obtain t' new s' where t': "rx_at h' par t' p" "s = new @ s'" "rx_supply h' s'" "distinct (rx_addrs t')"
      "set (rx_addrs t') = set (rx_addrs t5) \<union> set new" "rx_same (- (set (rx_addrs t5) \<union> set new)) h5 h'" "rx_root h' = rx_root h5"
      "rx_depth t' \<le> max (rx_depth t5) (Suc (length (b # bs)))"
      "look t' = (if rc = Radix_OK then (look t5)(b # bs := radix_entry w) else look t5)"
      "rc = Radix_OK \<and> look t5 (b # bs) = None \<or> rc = Radix_BUSY \<and> look t5 (b # bs) \<noteq> None \<and> h' = h5 \<or>
       rc = Radix_ERROR \<and> look t5 (b # bs) = None"
    using assms(1) unfolding ins_post_def by blast
  have a: "set (rx_addrs t5) = insert a (set (rx_addrs ?t))" using E unfolding t5 by (cases b) auto
  have l: "look t5 = look ?t"
    unfolding t5 look_upd_child using E look_bare by (intro ext) (auto split: list.split)
  have "look t5 (b # bs) = None" unfolding l using E by simp
  hence rc: "rc = Radix_OK \<or> rc = Radix_ERROR" "look ?t (b # bs) = None" using t'(10) l by auto
  have "rx_same (- (set (rx_addrs ?t) \<union> set (a # new))) h h'"
    using rx_same_trans[OF same t'(6)] by (rule rx_same_subset) (auto simp: a)
  moreover have "rx_depth t' \<le> max (rx_depth ?t) (Suc (length (b # bs)))"
    using t'(8) E unfolding t5 by (cases b) auto
  moreover have "set (rx_addrs t') = set (rx_addrs ?t) \<union> set (a # new)" using t'(5) a by auto
  moreover have "rx_root h' = rx_root h" "a # s = (a # new) @ s'" using t'(2,7) root by simp_all
  ultimately show ?thesis using t'(1,3,4,9) l rc err by (intro ins_postI[of h' par t' p "a # s" "a # new" s']) auto
qed

lemma ins_post_set_value:
  assumes t: "rx_at h par (RxN p v l r) p" and d: "distinct (rx_addrs (RxN p v l r) @ s)" and s: "rx_supply h s"
    and none: "look (RxN p v l r) [] = None"
  shows "ins_post h par p (RxN p v l r) [] w s Radix_OK (rx_set_value p w h)"
proof -
  let ?h = "rx_set_value p w h" and ?t' = "RxN p w l r"
  have same: "rx_same (- {p}) h ?h" by (simp add: rx_same_def rx_set_defs)
  have "rx_at ?h par ?t' p"
    using t d rx_at_same[OF same, of l p] rx_at_same[OF same, of r p] by (auto simp: rx_set_defs)
  moreover have "rx_supply ?h s" using d by (intro rx_supply_same[OF s same]) (auto simp: rx_set_defs)
  moreover have "look ?t' = (look (RxN p v l r))([] := radix_entry w)"
    by (rule ext) (auto simp: neq_Nil_conv split: list.split)
  moreover have "rx_same (- (set (rx_addrs (RxN p v l r)) \<union> set [])) h ?h" using same by (rule rx_same_subset) auto
  ultimately show ?thesis
    using d none by (intro ins_postI[of ?h par ?t' p s "[]" s]) (auto simp: rx_set_defs)
qed

lemma grow_at:
  assumes "spells tst dir adv pos path" "rx_at h par (RxN p v l r) p" "rx_supply h s" "distinct (rx_addrs (RxN p v l r) @ s)"
    "look (RxN p v l r) path = None" "case path of [] \<Rightarrow> True | b # _ \<Rightarrow> (if b then r else l) = RxE"
  shows "\<exists>rc h'. rx_grow tst dir adv w pos p h = Some (rc, h') \<and> ins_post h par p (RxN p v l r) path w s rc h'"
  using assms
proof (induction path arbitrary: pos h par p v l r s)
  case Nil
  thus ?case using ins_post_set_value[OF Nil.prems(2,4,3)] by (subst rx_grow.simps) auto
next
  case (Cons b bs)
  have tst: "tst pos" "dir pos = b" "spells tst dir adv (adv pos) bs" and E: "(if b then r else l) = RxE" using Cons.prems(1,6) by auto
  let ?t = "RxN p v l r"
  from Cons.prems(3) show ?case
  proof (cases rule: radix_alloc)
    case (none h')
    have "rx_grow tst dir adv w pos p h = Some (Radix_ERROR, h')" using tst(1) none(2) by (subst rx_grow.simps) simp
    moreover have "ins_post h par p ?t (b # bs) w s Radix_ERROR h'"
      using none Cons.prems(2,4,5) rx_at_same[OF none(3), of ?t par p] rx_same_subset[OF none(3)]
      by (intro ins_postI[of h' par ?t p s "[]" "[]"]) auto
    ultimately show ?thesis by blast
  next
    case (some a s1 h0)
    let ?bare = "RxN a NGX_RADIX_NO_VALUE RxE RxE"
    define h5 where "h5 = rx_set_child b p a (rx_set_value a NGX_RADIX_NO_VALUE (rx_set_parent a p (rx_set_left a NULL (rx_set_right a NULL h0))))"
    have a: "a \<noteq> NULL" "a \<noteq> p" "a \<notin> set (rx_addrs l)" "a \<notin> set (rx_addrs r)" "a \<notin> set s1" "p \<notin> set s1"
      using Cons.prems(3,4) some(1) by (auto simp: rx_supply_def)
    have step: "rx_grow tst dir adv w pos p h = rx_grow tst dir adv w (adv pos) a h5"
      using tst some(2) a(1) by (subst rx_grow.simps) (simp add: h5_def Let_def)
    have h5: "rx_same (- {p, a}) h h5" "rx_root h5 = rx_root h" "rx_at h5 p ?bare a" "rx_child b h5 p = a"
        "rx_child (\<not> b) h5 p = rx_child (\<not> b) h p" "rx_parent h5 p = rx_parent h p" "rx_value h5 p = rx_value h p"
      using some(3,4) a(1,2) unfolding h5_def rx_same_def rx_set_child_def rx_child_def rx_set_defs by auto
    have s5: "rx_supply h5 s1"
      using a by (intro rx_supply_same[OF some(5), of "- {p, a}"]) (auto simp: h5_def rx_same_def rx_set_child_def rx_set_defs)
    let ?t5 = "if b then RxN p v l ?bare else RxN p v ?bare r"
    have lr: "rx_at h5 p l q = rx_at h p l q" "rx_at h5 p r q = rx_at h p r q" for q
      using rx_at_same[OF h5(1)] a Cons.prems(4) by auto
    have t5: "rx_at h5 par ?t5 p" using Cons.prems(2) h5(3-7) lr by (cases b) (auto simp: rx_child_def)
    have d5: "distinct (rx_addrs ?t5 @ s1)" using Cons.prems(4) a some(1) E by (cases b) auto
    have "distinct (rx_addrs ?bare @ s1)" "case bs of [] \<Rightarrow> True | b # _ \<Rightarrow> (if b then RxE else RxE) = RxE"
      using a(5) d5 by (auto split: list.split)
    from Cons.IH[OF tst(3) h5(3) s5 this(1) look_bare this(2)]
    obtain rc h' where g: "rx_grow tst dir adv w (adv pos) a h5 = Some (rc, h')" "ins_post h5 p a ?bare bs w s1 rc h'" by blast
    have "ins_post h5 par p ?t5 (b # bs) w s1 rc h'"
      using ins_post_lift[of h5 par p v "if b then l else ?bare" "if b then ?bare else r" s1 b bs w rc h'] t5 d5 g(2) h5(4)
      by (cases b) simp_all
    moreover have "rc = Radix_ERROR \<Longrightarrow> length s1 < length bs" using g(2) by (auto simp: ins_post_def)
    ultimately have "ins_post h par p ?t (b # bs) w (a # s1) rc h'"
      using ins_post_new_node[OF _ E refl h5(1,2)] by blast
    thus ?thesis using step g(1) some(1) by auto
  qed
qed

lemma insert_from_step:
  assumes "tst pos" "rx_child (dir pos) h p \<noteq> NULL"
  shows "rx_insert_from tst dir adv w pos p h = rx_insert_from tst dir adv w (adv pos) (rx_child (dir pos) h p) h"
  unfolding rx_insert_from_def using assms by (subst rx_descend.simps) (simp add: Let_def)

lemma insert_at:
  assumes "spells tst dir adv pos path" "rx_at h par t p" "t \<noteq> RxE" "rx_supply h s" "distinct (rx_addrs t @ s)"
  shows "\<exists>rc h'. rx_insert_from tst dir adv w pos p h = Some (rc, h') \<and> ins_post h par p t path w s rc h'"
  using assms
proof (induction path arbitrary: pos par t p)
  case Nil
  obtain v l r where t: "t = RxN p v l r" "p \<noteq> NULL" "rx_value h p = v" using Nil.prems(2,3) by (cases t) auto
  have ins: "rx_insert_from tst dir adv w pos p h =
      (if v \<noteq> NGX_RADIX_NO_VALUE then Some (Radix_BUSY, h) else Some (Radix_OK, rx_set_value p w h))"
    using Nil.prems(1) t(2,3) by (simp add: rx_insert_from_def rx_descend.simps[of _ _ _ _ pos])
  show ?case
  proof (cases "v = NGX_RADIX_NO_VALUE")
    case True
    thus ?thesis using ins ins_post_set_value[of h par p v l r s w] Nil.prems(2,4,5) t(1) by (simp add: radix_entry_def)
  next
    case False
    have "ins_post h par p t [] w s Radix_BUSY h"
      using Nil.prems t False rx_same_refl by (intro ins_postI[of h par t p s "[]" s]) (auto simp: radix_entry_def)
    thus ?thesis using ins False by simp
  qed
next
  case (Cons b bs)
  obtain v l r where t: "t = RxN p v l r" "p \<noteq> NULL" using Cons.prems(2,3) by (cases t) auto
  have tst: "tst pos" "dir pos = b" "spells tst dir adv (adv pos) bs" using Cons.prems(1) by auto
  let ?c = "if b then r else l"
  have c: "rx_at h p ?c (rx_child b h p)" using Cons.prems(2) t by (auto simp: rx_child_def)
  show ?case
  proof (cases "?c = RxE")
    case True
    hence "rx_child b h p = NULL" using c by simp
    hence "rx_insert_from tst dir adv w pos p h = rx_grow tst dir adv w pos p h"
      using tst(1,2) by (simp add: rx_insert_from_def rx_descend.simps[of _ _ _ _ pos])
    moreover have "look t (b # bs) = None" using True t by simp
    ultimately show ?thesis using grow_at[OF Cons.prems(1), of h par p v l r s w] Cons.prems(2,4,5) True t by simp
  next
    case False
    hence ne: "rx_child b h p \<noteq> NULL" using c rx_at_NULL by blast
    have "distinct (rx_addrs ?c @ s)" using Cons.prems(5) t by auto
    from Cons.IH[OF tst(3) c False Cons.prems(4) this]
    obtain rc h' where g: "rx_insert_from tst dir adv w (adv pos) (rx_child b h p) h = Some (rc, h')"
        "ins_post h p (rx_child b h p) ?c bs w s rc h'" by blast
    have "ins_post h par p t (b # bs) w s rc h'"
      unfolding t(1) by (rule ins_post_lift[OF _ _ g(2)]) (use Cons.prems(2,5) t in simp_all)
    thus ?thesis using insert_from_step[of tst pos dir h p adv w] tst ne g(1) by simp
  qed
qed

section \<open>Search\<close>

text \<open>The value of the longest prefix of \<open>bits\<close> that has one, no longer than \<open>n\<close>.\<close>

fun longest :: "(bool list \<Rightarrow> 64 word option) \<Rightarrow> bool list \<Rightarrow> nat \<Rightarrow> 64 word option" where
  "longest m bits 0 = m []"
| "longest m bits (Suc n) = (case m (take (Suc n) bits) of Some v \<Rightarrow> Some v | None \<Rightarrow> longest m bits n)"

definition radix_match :: "(bool list \<Rightarrow> 64 word option) \<Rightarrow> bool list \<Rightarrow> 64 word" where
  "radix_match m bits = (case longest m bits (length bits) of Some v \<Rightarrow> v | None \<Rightarrow> NGX_RADIX_NO_VALUE)"

text \<open>The search reads the bits of a key; where they end, it reads on (\<open>tail\<close>) or leaves the key.\<close>

primrec reads :: "('p \<Rightarrow> bool option) \<Rightarrow> ('p \<Rightarrow> 'p) \<Rightarrow> 'p \<Rightarrow> bool list \<Rightarrow> bool option \<Rightarrow> bool" where
  "reads dir adv pos [] tail \<longleftrightarrow> dir pos = tail"
| "reads dir adv pos (b # bs) tail \<longleftrightarrow> dir pos = Some b \<and> reads dir adv (adv pos) bs tail"

fun has_node :: "rx_tree \<Rightarrow> bool list \<Rightarrow> bool" where
  "has_node RxE bs = False"
| "has_node (RxN a v l r) [] = True"
| "has_node (RxN a v l r) (b # bs) = has_node (if b then r else l) bs"

lemma longest_Cons:
  "longest m (b # bs) (Suc n) = (case longest (\<lambda>p. m (b # p)) bs n of Some v \<Rightarrow> Some v | None \<Rightarrow> m [])"
  by (induction n) (simp_all split: option.split)

lemma longest_empty: "longest (look RxE) bits n = None"
  by (induction n) simp_all

lemma find_at:
  assumes "reads dir adv pos bits tail" "rx_at h par t p" "rx_depth t \<le> Suc (length bits)"
  shows "rx_find dir adv h pos p v0 =
     (if tail = None \<and> has_node t bits then Some Radix_overread
      else Some (Radix_value (case longest (look t) bits (length bits) of Some v \<Rightarrow> v | None \<Rightarrow> v0)))"
  using assms
proof (induction bits arbitrary: pos t p v0 par)
  case Nil
  show ?case
  proof (cases t)
    case RxE
    thus ?thesis using Nil.prems(2) longest_empty[of "[]" 0] by (subst rx_find.simps) simp
  next
    case (RxN a v l r)
    hence "l = RxE" "r = RxE" using Nil.prems(3) by (cases l; cases r; simp)+
    thus ?thesis
      using Nil.prems(1,2) RxN
      by (subst rx_find.simps) (auto simp: rx_find.simps[of _ _ _ "adv pos"] rx_child_def radix_entry_def split: option.split)
  qed
next
  case (Cons b bs)
  show ?case
  proof (cases t)
    case RxE
    thus ?thesis using Cons.prems(2) longest_empty[of "b # bs"] by (subst rx_find.simps) simp
  next
    case (RxN a v l r)
    let ?c = "if b then r else l" and ?v = "if v \<noteq> NGX_RADIX_NO_VALUE then v else v0"
    have c: "rx_at h p ?c (rx_child b h p)" "rx_depth ?c \<le> Suc (length bs)" using Cons.prems(2,3) RxN by (auto simp: rx_child_def)
    have step: "rx_find dir adv h pos p v0 = rx_find dir adv h (adv pos) (rx_child b h p) ?v"
      using Cons.prems(1,2) RxN by (subst rx_find.simps) (auto simp: Let_def)
    have "longest (look t) (b # bs) (length (b # bs)) =
        (case longest (look ?c) bs (length bs) of Some v \<Rightarrow> Some v | None \<Rightarrow> radix_entry v)"
      unfolding length_Cons longest_Cons RxN by (cases b) (simp_all split: option.split)
    thus ?thesis
      unfolding step using Cons.IH[OF _ c, of "adv pos" ?v] Cons.prems(1) RxN
      by (auto simp: radix_entry_def split: option.split)
  qed
qed

section \<open>Deletion\<close>

fun sub :: "rx_tree \<Rightarrow> bool list \<Rightarrow> rx_tree" where
  "sub RxE bs = RxE"
| "sub (RxN a v l r) [] = RxN a v l r"
| "sub (RxN a v l r) (b # bs) = sub (if b then r else l) bs"

lemma look_sub: "look t path = look (sub t path) []"
  by (induction t path rule: sub.induct) simp_all

lemma walk_at:
  assumes "spells tst dir adv pos path" "rx_at h par t p"
  obtains q par' where "rx_walk tst dir adv h pos p = Some q" "rx_at h par' (sub t path) q"
  using assms
proof (induction path arbitrary: pos t p par thesis)
  case Nil
  have "sub t [] = t" by (cases t) simp_all
  thus ?case using Nil.prems by (auto simp: rx_walk.simps[of _ _ _ _ pos])
next
  case (Cons b bs)
  show ?case
  proof (cases t)
    case RxE
    thus ?thesis using Cons.prems by (auto simp: rx_walk.simps[of _ _ _ _ pos])
  next
    case (RxN a v l r)
    let ?c = "if b then r else l"
    have c: "rx_at h p ?c (rx_child b h p)" using Cons.prems(3) RxN by (auto simp: rx_child_def)
    have "rx_walk tst dir adv h pos p = rx_walk tst dir adv h (adv pos) (rx_child b h p)"
      using Cons.prems(2,3) RxN by (subst rx_walk.simps) auto
    thus ?thesis
      using Cons.IH[OF _ _ c] Cons.prems(1,2) RxN by (metis sub.simps(3) spells.simps(2))
  qed
qed

lemma set_value_at:
  assumes "rx_at h par t p" "distinct (rx_addrs t)" "sub t path = RxN q v l r"
  shows "\<exists>t'. rx_at (rx_set_value q w h) par t' p \<and> rx_addrs t' = rx_addrs t \<and> rx_depth t' = rx_depth t \<and>
     look t' = (look t)(path := radix_entry w) \<and> q \<in> set (rx_addrs t)"
  using assms
proof (induction t path arbitrary: par p rule: sub.induct)
  case (2 a x l' r')
  have same: "rx_same (- {a}) h (rx_set_value a w h)" by (simp add: rx_same_def rx_set_defs)
  have "rx_at (rx_set_value a w h) par (RxN a w l' r') p"
    using 2 rx_at_same[OF same, of l' a] rx_at_same[OF same, of r' a] by (auto simp: rx_set_defs)
  moreover have "look (RxN a w l' r') = (look (RxN a x l' r'))([] := radix_entry w)"
    by (rule ext) (auto simp: neq_Nil_conv split: list.split)
  ultimately show ?case using 2(3) by (intro exI[of _ "RxN a w l' r'"]) simp
next
  case (3 a x l' r' b bs)
  let ?c = "if b then r' else l'" and ?h = "rx_set_value q w h"
  have p: "p = a" "rx_at h p ?c (rx_child b h p)" using 3(2) by (auto simp: rx_child_def)
  obtain c where c: "rx_at ?h p c (rx_child b h p)" "rx_addrs c = rx_addrs ?c" "rx_depth c = rx_depth ?c"
      "look c = (look ?c)(bs := radix_entry w)" "q \<in> set (rx_addrs ?c)"
  proof -
    have "distinct (rx_addrs ?c)" "sub ?c bs = RxN q v l r" using 3(3,4) by auto
    from 3(1)[OF p(2) this] show thesis using that by blast
  qed
  have same: "rx_same (- {q}) h ?h" by (simp add: rx_same_def rx_set_defs)
  have "rx_at ?h par (if b then RxN p x l' c else RxN p x c r') p"
    using rx_at_replace[OF _ same, of par p x l' r' b c] 3(2,3) c(1,5) p(1) by (cases b) auto
  moreover have "look (if b then RxN p x l' c else RxN p x c r') = (look (RxN a x l' r'))(b # bs := radix_entry w)"
    unfolding look_upd_child c(4) by (rule ext) (auto split: list.split)
  ultimately show ?case
    using c(2,3,5) p(1) by (intro exI[of _ "if b then RxN p x l' c else RxN p x c r'"]) (cases b; simp)
qed simp

text \<open>A node that has neither children nor a value is freed, unless it is the root.\<close>

definition bare :: "rx_tree \<Rightarrow> bool" where
  "bare t \<longleftrightarrow> (\<exists>p. t = RxN p NGX_RADIX_NO_VALUE RxE RxE)"

text \<open>
  What the loop of deletion from the node \<open>q\<close> on does with the subtree \<open>t\<close> at \<open>p\<close>: it removes the entry of \<open>path\<close>, the
  nodes removed go to the list of free nodes, and the loop ends or goes on with \<open>p\<close>.
\<close>

definition del_post ::
  "radix \<Rightarrow> addr \<Rightarrow> addr \<Rightarrow> rx_tree \<Rightarrow> bool list \<Rightarrow> addr list \<Rightarrow> rx_tree \<Rightarrow> radix \<Rightarrow> bool" where
  "del_post h par p t path s t' h' \<longleftrightarrow> (\<exists>fs. rx_at h' par t' p \<and> t' \<noteq> RxE \<and> rx_supply h' (fs @ s) \<and> distinct (rx_addrs t' @ fs) \<and>
     set (rx_addrs t') \<union> set fs = set (rx_addrs t) \<and> rx_same (- set (rx_addrs t)) h h' \<and> rx_root h' = rx_root h \<and>
     rx_depth t' \<le> rx_depth t \<and> look t' = (look t)(path := None))"

text \<open>One iteration: the leaf \<open>q\<close>, child \<open>b\<close> of \<open>p\<close>, is freed.\<close>

lemma prune_step:
  assumes t: "rx_at h par (RxN p v l r) p" and d: "distinct (rx_addrs (RxN p v l r) @ s)" and s: "rx_supply h s"
    and leaf: "(if b then r else l) = RxN q x RxE RxE"
    and t': "t' = (if b then RxN p v l RxE else RxN p v RxE r)"
  obtains h' where "rx_prune q h = (if bare t' \<and> par \<noteq> NULL then rx_prune p h' else Some (Radix_OK, h'))"
    "del_post h par p (RxN p v l r) [b] s t' h'"
proof -
  let ?o = "if b then l else r"
  define h1 where "h1 = (if rx_right h p = q then rx_set_right p NULL h else rx_set_left p NULL h)"
  define h3 where "h3 = (rx_set_right q (rx_free h1) h1)\<lparr>rx_free := q\<rparr>"
  have q: "rx_child b h p = q" "rx_parent h q = p" "q \<noteq> NULL" "p \<noteq> NULL" "rx_left h q = NULL" using t leaf by (auto simp: rx_child_def split: if_splits)
  have qn: "q \<noteq> p" "q \<notin> set s" "p \<notin> set s" "q \<notin> set (rx_addrs ?o)" "p \<notin> set (rx_addrs ?o)" using d leaf by (auto split: if_splits)
  have "\<not> b \<Longrightarrow> rx_right h p \<noteq> q" using t qn(4) q(3) rx_at_addr[of h p r "rx_right h p"] by auto
  hence h1: "h1 = rx_set_child b p NULL h" using q(1) by (auto simp: h1_def rx_set_child_def rx_child_def)
  have f: "rx_free h1 = rx_free h" by (simp add: h1 rx_set_child_def rx_set_defs)
  have same: "rx_same (- {p, q}) h h3" by (simp add: h3_def h1 rx_same_def rx_set_child_def rx_set_defs)
  have p3: "rx_parent h3 p = par" "rx_value h3 p = v" "rx_child b h3 p = NULL" "rx_child (\<not> b) h3 p = rx_child (\<not> b) h p"
    using t qn(1) by (auto simp: h3_def h1 rx_set_child_def rx_set_defs rx_child_def)
  have o: "rx_at h3 p ?o (rx_child (\<not> b) h p)"
  proof -
    have "set (rx_addrs ?o) \<subseteq> - {p, q}" using qn(4,5) by auto
    note rx_at_same[OF same this, of p]
    thus ?thesis using t by (cases b) (simp_all add: rx_child_def)
  qed
  have at: "rx_at h3 par t' p" using o p3 q(4) unfolding t' by (cases b) (simp_all add: rx_child_def)
  have "rx_prune q h = (if rx_right h3 p \<noteq> NULL \<or> rx_left h3 p \<noteq> NULL then Some (Radix_OK, h3)
      else if rx_value h3 p \<noteq> NGX_RADIX_NO_VALUE then Some (Radix_OK, h3)
      else if rx_parent h3 p = NULL then Some (Radix_OK, h3) else rx_prune p h3)"
    using q(2,4) by (subst rx_prune.simps) (simp add: h3_def h1_def Let_def)
  moreover have "bare t' \<longleftrightarrow> rx_right h3 p = NULL \<and> rx_left h3 p = NULL \<and> rx_value h3 p = NGX_RADIX_NO_VALUE"
    using at rx_at_NULL unfolding t' bare_def by (cases b) auto
  ultimately have step: "rx_prune q h = (if bare t' \<and> par \<noteq> NULL then rx_prune p h3 else Some (Radix_OK, h3))"
    using p3(1) by auto
  obtain fs where fs: "rx_chain h (rx_free h) fs" "s = fs @ rx_avail h" using s by (auto simp: rx_supply_def)
  have "rx_chain h3 (rx_right h3 q) fs"
    using fs qn rx_chain_same[OF same, of fs] f by (auto simp: h3_def rx_set_defs)
  hence sup: "rx_supply h3 (q # s)"
    using fs s q(3) qn(2) by (auto simp: rx_supply_def rx_avail_def h3_def h1 rx_set_child_def rx_set_defs intro!: exI[of _ "q # fs"])
  have "look t' = (look (RxN p v l r))([b] := None)"
  proof -
    have "look (if b then r else l) xs = (if xs = [] then radix_entry x else None)" for xs unfolding leaf by (cases xs) simp_all
    thus ?thesis unfolding t' look_upd_child by (intro ext) (auto split: list.split if_splits)
  qed
  moreover have "rx_root h3 = rx_root h" by (simp add: h3_def h1 rx_set_child_def rx_set_defs)
  moreover have "rx_same (- set (rx_addrs (RxN p v l r))) h h3" using same leaf by (intro rx_same_subset[OF same]) (auto split: if_splits)
  moreover have "rx_depth t' \<le> rx_depth (RxN p v l r)" unfolding t' by (cases b) simp_all
  moreover have "set (rx_addrs t') \<union> set [q] = set (rx_addrs (RxN p v l r))" "distinct (rx_addrs t' @ [q])" "t' \<noteq> RxE"
    using leaf d unfolding t' by (cases b; auto)+
  ultimately have "del_post h par p (RxN p v l r) [b] s t' h3" unfolding del_post_def using at sup by (intro exI[of _ "[q]"]) simp
  thus thesis using that step by blast
qed

lemma del_post_lift:
  assumes t: "rx_at h par (RxN p v l r) p" and d: "distinct (rx_addrs (RxN p v l r) @ s)"
    and post: "del_post h p (rx_child b h p) (if b then r else l) bs s c h'"
  shows "del_post h par p (RxN p v l r) (b # bs) s (if b then RxN p v l c else RxN p v c r) h'"
proof -
  let ?c = "if b then r else l" and ?t' = "if b then RxN p v l c else RxN p v c r"
  obtain fs where c: "rx_at h' p c (rx_child b h p)" "c \<noteq> RxE" "rx_supply h' (fs @ s)" "distinct (rx_addrs c @ fs)"
      "set (rx_addrs c) \<union> set fs = set (rx_addrs ?c)" "rx_same (- set (rx_addrs ?c)) h h'" "rx_root h' = rx_root h"
      "rx_depth c \<le> rx_depth ?c" "look c = (look ?c)(bs := None)"
    using post unfolding del_post_def by blast
  have "rx_at h' par ?t' p" by (rule rx_at_replace[OF t c(6) _ _ c(1)]) (use d in auto)
  moreover have "look ?t' = (look (RxN p v l r))(b # bs := None)"
    unfolding look_upd_child c(9) by (rule ext) (auto split: list.split)
  moreover have "distinct (rx_addrs ?t' @ fs)" "set (rx_addrs ?t') \<union> set fs = set (rx_addrs (RxN p v l r))"
    using d c(4,5) by (cases b; auto)+
  moreover have "rx_same (- set (rx_addrs (RxN p v l r))) h h'" by (rule rx_same_subset[OF c(6)]) auto
  moreover have "rx_depth ?t' \<le> rx_depth (RxN p v l r)" using c(8) by (cases b) auto
  moreover have "?t' \<noteq> RxE" by simp
  ultimately show ?thesis unfolding del_post_def using c(3,7) by blast
qed

lemma del_post_trans:
  assumes 1: "rx_supply h1 (fs @ s)" "distinct (rx_addrs t1 @ fs)" "set (rx_addrs t1) \<union> set fs = set (rx_addrs t)"
      "rx_same (- set (rx_addrs t)) h h1" "rx_root h1 = rx_root h" "rx_depth t1 \<le> rx_depth t" "look t1 = (look t)(path := None)"
    and 2: "del_post h1 par p t1 path1 (fs @ s) t' h'" and none: "look t1 path1 = None"
  shows "del_post h par p t path s t' h'"
proof -
  obtain fs2 where c: "rx_at h' par t' p" "t' \<noteq> RxE" "rx_supply h' (fs2 @ fs @ s)" "distinct (rx_addrs t' @ fs2)"
      "set (rx_addrs t') \<union> set fs2 = set (rx_addrs t1)" "rx_same (- set (rx_addrs t1)) h1 h'" "rx_root h' = rx_root h1"
      "rx_depth t' \<le> rx_depth t1" "look t' = (look t1)(path1 := None)"
    using 2 unfolding del_post_def by blast
  have "look t' = (look t)(path := None)" using c(9) none 1(7) by (metis fun_upd_triv)
  moreover have "rx_same (- set (rx_addrs t)) h h'"
    using rx_same_trans[OF 1(4) c(6)] by (rule rx_same_subset) (use 1(3) in auto)
  moreover have "distinct (rx_addrs t' @ fs2 @ fs)" "set (rx_addrs t') \<union> set (fs2 @ fs) = set (rx_addrs t)"
    using c(4,5) 1(2,3) by auto
  ultimately show ?thesis unfolding del_post_def using c(1-3,7,8) 1(5,6) by (intro exI[of _ "fs2 @ fs"]) simp
qed

lemma look_bare_tree: "bare t \<Longrightarrow> look t bs = None"
  using look_bare by (auto simp: bare_def)

lemma prune_at:
  assumes "rx_at h par (RxN p v l r) p" "distinct (rx_addrs (RxN p v l r) @ s)" "rx_supply h s"
    "path \<noteq> []" "sub (RxN p v l r) path = RxN q x RxE RxE"
  shows "\<exists>t' h'. rx_prune q h = (if bare t' \<and> par \<noteq> NULL then rx_prune p h' else Some (Radix_OK, h')) \<and>
     del_post h par p (RxN p v l r) path s t' h'"
  using assms
proof (induction path arbitrary: par p v l r)
  case (Cons b bs)
  let ?c = "if b then r else l" and ?t = "RxN p v l r"
  show ?case
  proof (cases bs)
    case Nil
    have "sub ?c [] = ?c" by (cases ?c) simp_all
    hence leaf: "?c = RxN q x RxE RxE" using Cons.prems(5) Nil by simp
    obtain h' where "rx_prune q h = (if bare (if b then RxN p v l RxE else RxN p v RxE r) \<and> par \<noteq> NULL then rx_prune p h' else Some (Radix_OK, h'))"
      "del_post h par p ?t [b] s (if b then RxN p v l RxE else RxN p v RxE r) h'"
      by (rule prune_step[OF Cons.prems(1,2,3) leaf refl])
    thus ?thesis unfolding Nil by blast
  next
    case (Cons y ys)
    let ?q = "rx_child b h p"
    have c: "rx_at h p ?c ?q" "p \<noteq> NULL" "sub ?c bs = RxN q x RxE RxE" using Cons.prems(1,5) by (auto simp: rx_child_def)
    obtain v1 l1 r1 where c1: "?c = RxN ?q v1 l1 r1" using c(1,3) by (cases ?c) auto
    have d1: "distinct (rx_addrs ?c @ s)" using Cons.prems(2) by auto
    obtain c' h1 where ih: "rx_prune q h = (if bare c' \<and> p \<noteq> NULL then rx_prune ?q h1 else Some (Radix_OK, h1))"
        "del_post h p ?q ?c bs s c' h1"
      using Cons.IH[of p ?q v1 l1 r1] c d1 Cons.prems(3) \<open>bs = y # ys\<close> unfolding c1 by blast
    let ?t1 = "if b then RxN p v l c' else RxN p v c' r"
    have lift: "del_post h par p ?t (b # bs) s ?t1 h1" by (rule del_post_lift[OF Cons.prems(1,2) ih(2)])
    show ?thesis
    proof (cases "bare c'")
      case False
      moreover have "c' \<noteq> RxE" using ih(2) by (simp add: del_post_def)
      hence "\<not> bare ?t1" by (simp add: bare_def)
      ultimately show ?thesis using ih(1) lift by auto
    next
      case True
      obtain fs where fs: "rx_at h1 par ?t1 p" "rx_supply h1 (fs @ s)" "distinct (rx_addrs ?t1 @ fs)"
          "set (rx_addrs ?t1) \<union> set fs = set (rx_addrs ?t)" "rx_same (- set (rx_addrs ?t)) h h1" "rx_root h1 = rx_root h"
          "rx_depth ?t1 \<le> rx_depth ?t" "look ?t1 = (look ?t)(b # bs := None)"
        using lift unfolding del_post_def by blast
      have "rx_at h1 p c' ?q" using ih(2) by (simp add: del_post_def)
      then obtain w where w: "c' = RxN ?q w RxE RxE" using True by (auto simp: bare_def)
      let ?l = "if b then l else c'" and ?r = "if b then c' else r"
      have t1: "?t1 = RxN p v ?l ?r" by simp
      have "set (rx_addrs ?t1) \<inter> set s = {}" using fs(4) Cons.prems(2) by auto
      hence d: "distinct (rx_addrs (RxN p v ?l ?r) @ fs @ s)" using fs(2,3) unfolding t1[symmetric] rx_supply_def by auto
      have leaf: "(if b then ?r else ?l) = RxN ?q w RxE RxE" using w by simp
      obtain h' where h': "rx_prune ?q h1 = (if bare (if b then RxN p v ?l RxE else RxN p v RxE ?r) \<and> par \<noteq> NULL then rx_prune p h' else Some (Radix_OK, h'))"
        "del_post h1 par p (RxN p v ?l ?r) [b] (fs @ s) (if b then RxN p v ?l RxE else RxN p v RxE ?r) h'"
        by (rule prune_step[OF _ d fs(2) leaf refl]) (use fs(1) t1 in simp)
      have "look ?t1 [b] = None" using look_bare_tree[OF True] by (cases b) simp_all
      from del_post_trans[OF fs(2-8) h'(2)[folded t1] this]
      have post: "del_post h par p ?t (b # bs) s (if b then RxN p v ?l RxE else RxN p v RxE ?r) h'" .
      have "rx_prune q h = rx_prune ?q h1" using ih(1) True c(2) by simp
      hence "rx_prune q h = (if bare (if b then RxN p v ?l RxE else RxN p v RxE ?r) \<and> par \<noteq> NULL then rx_prune p h' else Some (Radix_OK, h'))"
        using h'(1) by (rule trans)
      thus ?thesis using post by blast
    qed
  qed
qed simp

end
