(* ===== verification/Ngx_Radix_Map.thy ===== *)
theory Ngx_Radix_Map
  imports Ngx_Radix_Tree
begin

text \<open>
  The radix tree as a map from prefixes to values: the invariant of a tree and that every operation keeps it, the bits of
  keys and masks of both widths, the locale of the contract with its two interpretations, and creation.
\<close>

section \<open>The tree as a map of prefixes\<close>

text \<open>A tree for keys of \<open>n\<close> bits whose entries are \<open>m\<close>.\<close>

definition radix_inv :: "nat \<Rightarrow> radix \<Rightarrow> (bool list \<Rightarrow> 64 word option) \<Rightarrow> bool" where
  "radix_inv n h m \<longleftrightarrow> (\<exists>t s. rx_at h NULL t (rx_root h) \<and> t \<noteq> RxE \<and> rx_supply h s \<and> distinct (rx_addrs t @ s) \<and>
     rx_depth t \<le> Suc n \<and> look t = m)"

definition radix_leaf_root :: "radix \<Rightarrow> bool" where
  "radix_leaf_root h \<longleftrightarrow> rx_left h (rx_root h) = NULL \<and> rx_right h (rx_root h) = NULL"

lemma insert_from_inv:
  assumes "radix_inv n h m" "spells tst dir adv pos path" "length path \<le> n"
  shows "\<exists>rc h'. rx_insert_from tst dir adv v pos (rx_root h) h = Some (rc, h') \<and>
     (rc = Radix_OK \<and> m path = None \<and> radix_inv n h' (m(path := radix_entry v)) \<or>
      rc = Radix_BUSY \<and> m path \<noteq> None \<and> h' = h \<or>
      rc = Radix_ERROR \<and> m path = None \<and> radix_inv n h' m \<and> \<not> radix_room h (length path))"
proof -
  obtain t s where t: "rx_at h NULL t (rx_root h)" "t \<noteq> RxE" "rx_supply h s" "distinct (rx_addrs t @ s)" "rx_depth t \<le> Suc n" "look t = m"
    using assms(1) by (auto simp: radix_inv_def)
  obtain rc h' where g: "rx_insert_from tst dir adv v pos (rx_root h) h = Some (rc, h')"
      "ins_post h NULL (rx_root h) t path v s rc h'"
    using insert_at[OF assms(2) t(1-4)] by blast
  obtain t' new s' where p: "rx_at h' NULL t' (rx_root h)" "s = new @ s'" "rx_supply h' s'" "distinct (rx_addrs t')"
      "set (rx_addrs t') = set (rx_addrs t) \<union> set new" "rx_root h' = rx_root h"
      "rx_depth t' \<le> max (rx_depth t) (Suc (length path))"
      "look t' = (if rc = Radix_OK then (look t)(path := radix_entry v) else look t)"
      "rc = Radix_OK \<and> look t path = None \<or> rc = Radix_BUSY \<and> look t path \<noteq> None \<and> h' = h \<or>
       rc = Radix_ERROR \<and> look t path = None \<and> length s < length path"
    using g(2) unfolding ins_post_def by blast
  have "rx_root h \<noteq> NULL" using t(1,2) rx_at_NULL by blast
  hence "t' \<noteq> RxE" using rx_at_NULL[OF p(1)] by simp
  moreover have "distinct (rx_addrs t' @ s')" using t(4) p(2,4,5) by auto
  moreover have "rx_depth t' \<le> Suc n" using p(7) t(5) assms(3) by simp
  ultimately have "radix_inv n h' (look t')" unfolding radix_inv_def using p(1,3,6) by auto
  thus ?thesis using g(1) p(8,9) t(6) radix_room_iff[OF t(3)] by auto
qed

lemma delete_from_inv:
  assumes "radix_inv n h m" "spells tst dir adv pos path"
  shows "\<exists>rc h'. rx_delete_from tst dir adv pos h = Some (rc, h') \<and>
     (rc = Radix_OK \<and> radix_inv n h' (m(path := None)) \<and> \<not> (path = [] \<and> radix_leaf_root h) \<or>
      rc = Radix_ERROR \<and> m path = None \<and> h' = h \<and> \<not> (path = [] \<and> radix_leaf_root h) \<or>
      rc = Radix_NULL_deref \<and> path = [] \<and> radix_leaf_root h)"
proof -
  obtain t s where t: "rx_at h NULL t (rx_root h)" "t \<noteq> RxE" "rx_supply h s" "distinct (rx_addrs t @ s)" "rx_depth t \<le> Suc n" "look t = m"
    using assms(1) by (auto simp: radix_inv_def)
  obtain q par where w: "rx_walk tst dir adv h pos (rx_root h) = Some q" "rx_at h par (sub t path) q"
    by (rule walk_at[OF assms(2) t(1)])
  obtain v l r where tN: "t = RxN (rx_root h) v l r" using t(1,2) by (cases t) auto
  have m: "m path = look (sub t path) []" using look_sub t(6) by metis
  note del = rx_delete_from_def[of tst dir adv pos h, unfolded w(1) bind.simps]
  have sub0: "sub t [] = t" by (cases t) simp_all
  have root: "path = [] \<and> radix_leaf_root h \<longleftrightarrow> path = [] \<and> l = RxE \<and> r = RxE"
    using t(1) tN rx_at_NULL by (auto simp: radix_leaf_root_def)
  show ?thesis
  proof (cases "sub t path")
    case RxE
    moreover have "path \<noteq> []" using RxE sub0 t(2) by auto
    ultimately show ?thesis using del w(2) m by simp
  next
    case (RxN a x y z)
    have q: "q = a" "q \<noteq> NULL" "rx_value h q = x" "rx_left h q = NULL \<longleftrightarrow> y = RxE" "rx_right h q = NULL \<longleftrightarrow> z = RxE"
      using w(2) RxN rx_at_NULL by auto
    consider (inner) "y \<noteq> RxE \<or> z \<noteq> RxE" | (leaf) "y = RxE" "z = RxE" by blast
    thus ?thesis
    proof cases
      case inner
      hence d: "rx_delete_from tst dir adv pos h = (if x \<noteq> NGX_RADIX_NO_VALUE then Some (Radix_OK, rx_set_value q NGX_RADIX_NO_VALUE h) else Some (Radix_ERROR, h))"
        unfolding del using q by auto
      obtain t' where t': "rx_at (rx_set_value q NGX_RADIX_NO_VALUE h) NULL t' (rx_root h)" "rx_addrs t' = rx_addrs t" "rx_depth t' = rx_depth t"
          "look t' = (look t)(path := None)" "q \<in> set (rx_addrs t)"
        using set_value_at[OF t(1) _ RxN, of NGX_RADIX_NO_VALUE] t(4) q(1) by (auto simp: radix_entry_def)
      have "rx_supply (rx_set_value q NGX_RADIX_NO_VALUE h) s"
        using t(4) t'(5) by (intro rx_supply_same[OF t(3), of "- {q}"]) (auto simp: rx_same_def rx_set_defs)
      moreover have "t' \<noteq> RxE" using t'(2) tN by (cases t') auto
      ultimately have "radix_inv n (rx_set_value q NGX_RADIX_NO_VALUE h) (m(path := None))"
        unfolding radix_inv_def using t' t(4-6) by (intro exI[of _ t'] exI[of _ s]) (auto simp: rx_set_defs)
      moreover have "\<not> (path = [] \<and> radix_leaf_root h)" using root inner RxN tN sub0 by auto
      ultimately show ?thesis using d m RxN by (auto simp: radix_entry_def)
    next
      case leaf
      hence d: "rx_delete_from tst dir adv pos h = rx_prune q h" unfolding del using q by simp
      show ?thesis
      proof (cases "path = []")
        case True
        hence "rx_parent h q = NULL" "radix_leaf_root h"
          using t(1) tN RxN sub0 leaf q(1) root by auto
        thus ?thesis using d True by (simp add: rx_prune.simps[of q])
      next
        case False
        obtain t' h' where p: "rx_prune q h = Some (Radix_OK, h')" "del_post h NULL (rx_root h) t path s t' h'"
          using prune_at[of h NULL "rx_root h" v l r s path q x] t(1,3,4) tN RxN leaf q(1) False by auto
        then obtain fs where f: "rx_at h' NULL t' (rx_root h)" "t' \<noteq> RxE" "rx_supply h' (fs @ s)" "distinct (rx_addrs t' @ fs)"
            "set (rx_addrs t') \<union> set fs = set (rx_addrs t)" "rx_root h' = rx_root h" "rx_depth t' \<le> rx_depth t" "look t' = (look t)(path := None)"
          unfolding del_post_def by blast
        have "distinct (rx_addrs t' @ fs @ s)" using f(3-5) t(4) by (auto simp: rx_supply_def)
        hence "radix_inv n h' (m(path := None))"
          unfolding radix_inv_def using f t(5,6) by (intro exI[of _ t'] exI[of _ "fs @ s"]) simp
        thus ?thesis using d p(1) False by simp
      qed
    qed
  qed
qed

lemma find_inv:
  assumes "radix_inv n h m" "reads dir adv pos bits tail" "length bits = n"
  shows "rx_find dir adv h pos (rx_root h) NGX_RADIX_NO_VALUE = Some (Radix_value (radix_match m bits)) \<or>
     tail = None \<and> rx_find dir adv h pos (rx_root h) NGX_RADIX_NO_VALUE = Some Radix_overread"
    "tail = None \<Longrightarrow> m bits \<noteq> None \<Longrightarrow> rx_find dir adv h pos (rx_root h) NGX_RADIX_NO_VALUE = Some Radix_overread"
proof -
  obtain t where t: "rx_at h NULL t (rx_root h)" "rx_depth t \<le> Suc (length bits)" "look t = m"
    using assms(1,3) by (auto simp: radix_inv_def)
  have n: "look t bits \<noteq> None \<Longrightarrow> has_node t bits" by (induction t bits rule: has_node.induct) auto
  note f = find_at[OF assms(2) t(1,2), of NGX_RADIX_NO_VALUE]
  show "rx_find dir adv h pos (rx_root h) NGX_RADIX_NO_VALUE = Some (Radix_value (radix_match m bits)) \<or>
     tail = None \<and> rx_find dir adv h pos (rx_root h) NGX_RADIX_NO_VALUE = Some Radix_overread"
    using f t(3) by (auto simp: radix_match_def)
  show "tail = None \<Longrightarrow> m bits \<noteq> None \<Longrightarrow> rx_find dir adv h pos (rx_root h) NGX_RADIX_NO_VALUE = Some Radix_overread"
    using f t(3) n by simp
qed

section \<open>Keys and masks as bits\<close>

text \<open>The bits of a word below bit \<open>n\<close>, the highest first: all of them, and those of a key up to the first zero of the mask.\<close>

fun bits_from :: "'a::len word \<Rightarrow> nat \<Rightarrow> bool list" where
  "bits_from key 0 = []"
| "bits_from key (Suc i) = bit key i # bits_from key i"

fun path_from :: "'a::len word \<Rightarrow> 'a word \<Rightarrow> nat \<Rightarrow> bool list" where
  "path_from key msk 0 = []"
| "path_from key msk (Suc i) = (if bit msk i then bit key i # path_from key msk i else [])"

lemma length_path_from: "length (path_from key msk n) \<le> n"
  by (induction n) auto

lemma length_bits_from [simp]: "length (bits_from key n) = n"
  by (induction n) auto

lemma and_exp:
  fixes m :: "'a::len word"
  shows "(2 ^ i AND m \<noteq> 0) = bit m i" "(m AND 2 ^ i \<noteq> 0) = bit m i"
  using and_exp_eq_0_iff_not_bit[of m i] by (simp_all add: and.commute)

lemma half_exp: "drop_bit 1 (2 ^ Suc i :: 'a::len word) = 2 ^ i" if "Suc i < LENGTH('a)"
  by (rule bit_word_eqI) (use that in \<open>auto simp: bit_drop_bit_eq bit_exp_iff simp del: power_Suc\<close>)

lemma half_one: "drop_bit 1 (1 :: 'a::len word) = 0"
  by (rule bit_word_eqI) (simp add: bit_drop_bit_eq bit_1_iff)

lemma spells_32:
  "i < 32 \<Longrightarrow> spells (\<lambda>b. b AND msk \<noteq> 0) (\<lambda>b. key AND b \<noteq> 0) (drop_bit 1) (2 ^ i) (path_from key (msk :: 32 word) (Suc i))"
proof (induction i)
  case 0
  show ?case using and_exp[where m = msk and i = 0] and_exp[where m = key and i = 0] by (simp add: half_one)
next
  case (Suc i)
  thus ?case using and_exp[where m = msk and i = "Suc i"] and_exp[where m = key and i = "Suc i"] half_exp[where 'a = 32, of i] by (simp del: power_Suc path_from.simps add: path_from.simps(2)[of _ _ "Suc i"])
qed

lemma reads_32:
  "i < 32 \<Longrightarrow> reads (\<lambda>b. Some (key AND b \<noteq> 0)) (drop_bit 1) (2 ^ i) (bits_from (key :: 32 word) (Suc i)) (Some False)"
proof (induction i)
  case 0
  show ?case using and_exp[where m = key and i = 0] by (simp add: half_one)
next
  case (Suc i)
  thus ?case using and_exp[where m = key and i = "Suc i"] half_exp[where 'a = 32, of i] by (simp del: power_Suc bits_from.simps add: bits_from.simps(2)[of _ "Suc i"])
qed

definition path32 :: "32 word \<Rightarrow> 32 word \<Rightarrow> bool list" where
  "path32 key msk = path_from key msk 32"

definition bits32 :: "32 word \<Rightarrow> bool list" where
  "bits32 key = bits_from key 32"

fun path128 :: "8 word list \<Rightarrow> 8 word list \<Rightarrow> bool list" where
  "path128 (k # ks) (m # ms) = path_from k m 8 @ (if length (path_from k m 8) = 8 then path128 ks ms else [])"
| "path128 _ _ = []"

definition bits128 :: "8 word list \<Rightarrow> bool list" where
  "bits128 key = concat (map (\<lambda>k. bits_from k 8) key)"

lemma spells_byte:
  assumes "i < 16" "spells (tst128 msk) (dir128 key) adv128 (Suc i, 0x80) rest" "n < 8"
  shows "spells (tst128 msk) (dir128 key) adv128 (i, 2 ^ n)
     (path_from (key ! i) (msk ! i) (Suc n) @ (if length (path_from (key ! i) (msk ! i) (Suc n)) = Suc n then rest else []))"
  using assms(3)
proof (induction n)
  case 0
  have "tst128 msk (i, 1) = bit (msk ! i) 0" "dir128 key (i, 1) = bit (key ! i) 0" "adv128 (i, 1) = (Suc i, 0x80)"
    using assms(1) and_exp[where m = "msk ! i" and i = 0] and_exp[where m = "key ! i" and i = 0]
    by (simp_all add: tst128_def dir128_def adv128_def half_one[simplified])
  thus ?case using assms(2) by simp
next
  case (Suc n)
  have "adv128 (i, 2 ^ Suc n) = (i, 2 ^ n)"
    using half_exp[where 'a = 8, of n] Suc.prems by (simp add: adv128_def exp_eq_zero_iff del: power_Suc)
  moreover have "tst128 msk (i, 2 ^ Suc n) = bit (msk ! i) (Suc n)" "dir128 key (i, 2 ^ Suc n) = bit (key ! i) (Suc n)"
    using assms(1) and_exp[where m = "msk ! i" and i = "Suc n"] and_exp[where m = "key ! i" and i = "Suc n"]
    by (simp_all add: tst128_def dir128_def del: power_Suc)
  ultimately show ?case
    using Suc by (auto simp del: power_Suc path_from.simps simp: path_from.simps(2)[of _ _ "Suc n"] split: if_splits)
qed

lemma spells_128:
  assumes "length msk = 16" "16 \<le> length key" "i \<le> 16"
  shows "spells (tst128 msk) (dir128 key) adv128 (i, 0x80) (path128 (drop i (take 16 key)) (drop i msk))"
  using assms(3)
proof (induction i rule: inc_induct)
  case base
  show ?case using assms(1) by (simp add: tst128_def)
next
  case (step i)
  have "drop i (take 16 key) = key ! i # drop (Suc i) (take 16 key)" "drop i msk = msk ! i # drop (Suc i) msk"
    using step.hyps assms(1,2) by (simp_all add: Cons_nth_drop_Suc[symmetric] del: drop_take)
  moreover have "Suc 7 = 8" by simp
  ultimately show ?case using spells_byte[OF step.hyps(2) step.IH, of 7] by (simp only: path128.simps) simp
qed

definition rd128 :: "8 word list \<Rightarrow> nat \<times> 8 word \<Rightarrow> bool option" where
  "rd128 key pos = (if fst pos < length key then Some (dir128 key pos) else None)"

lemma reads_byte:
  assumes "i < length key" "reads (rd128 key) adv128 (Suc i, 0x80) rest tail" "n < 8"
  shows "reads (rd128 key) adv128 (i, 2 ^ n) (bits_from (key ! i) (Suc n) @ rest) tail"
  using assms(3)
proof (induction n)
  case 0
  have "rd128 key (i, 1) = Some (bit (key ! i) 0)" "adv128 (i, 1) = (Suc i, 0x80)"
    using assms(1) and_exp[where m = "key ! i" and i = 0] by (simp_all add: rd128_def dir128_def adv128_def half_one[simplified])
  thus ?case using assms(2) by simp
next
  case (Suc n)
  have "adv128 (i, 2 ^ Suc n) = (i, 2 ^ n)"
    using half_exp[where 'a = 8, of n] Suc.prems by (simp add: adv128_def exp_eq_zero_iff del: power_Suc)
  moreover have "rd128 key (i, 2 ^ Suc n) = Some (bit (key ! i) (Suc n))"
    using assms(1) and_exp[where m = "key ! i" and i = "Suc n"] by (simp add: rd128_def dir128_def del: power_Suc)
  ultimately show ?case using Suc by (simp del: power_Suc bits_from.simps add: bits_from.simps(2)[of _ "Suc n"])
qed

lemma reads_128:
  assumes "16 \<le> length key" "i \<le> 16"
  shows "reads (rd128 key) adv128 (i, 0x80) (bits128 (drop i (take 16 key))) (rd128 key (16, 0x80))"
  using assms(2)
proof (induction i rule: inc_induct)
  case base
  show ?case by (simp add: bits128_def)
next
  case (step i)
  have "drop i (take 16 key) = key ! i # drop (Suc i) (take 16 key)"
    using step.hyps assms(1) by (simp add: Cons_nth_drop_Suc[symmetric] del: drop_take)
  hence "bits128 (drop i (take 16 key)) = bits_from (key ! i) (Suc 7) @ bits128 (drop (Suc i) (take 16 key))"
    by (simp add: bits128_def del: bits_from.simps drop_take)
  thus ?case using reads_byte[OF _ step.IH, of 7] step.hyps assms(1) by simp
qed

lemma length_path128: "length (path128 key msk) \<le> 8 * length key"
proof (induction key msk rule: path128.induct)
  case (1 k ks m ms)
  thus ?case using length_path_from[of k m 8] by (auto simp del: path_from.simps)
qed simp_all

lemma length_bits128: "length (bits128 key) = 8 * length key"
  by (induction key) (simp_all add: bits128_def del: bits_from.simps)

lemma path32_length: "length (path32 key msk) \<le> 32"
  unfolding path32_def by (rule length_path_from)

section \<open>Prefix maps\<close>

lemma longest_here:
  assumes "m (take n bs) = Some v" "\<And>j. n < j \<Longrightarrow> j \<le> k \<Longrightarrow> m (take j bs) = None" "n \<le> k"
  shows "longest m bs k = Some v"
  using assms(2,3)
proof (induction k)
  case 0
  thus ?case using assms(1) by simp
next
  case (Suc k)
  thus ?case using assms(1) by (cases "n = Suc k") (simp_all del: take_Suc)
qed

text \<open>
  The contract of both variants: a map from prefixes to values, given by \<open>inv\<close>, with the prefix of a key and a
  mask and the bits of a key.
\<close>

locale prefix_map =
  fixes inv :: "'h \<Rightarrow> (bool list \<Rightarrow> 64 word option) \<Rightarrow> bool"
    and key_ok :: "'k \<Rightarrow> bool" and mask_ok :: "'k \<Rightarrow> bool"
    and ins :: "'k \<Rightarrow> 'k \<Rightarrow> 64 word \<Rightarrow> 'h \<Rightarrow> (radix_rc \<times> 'h) option"
    and del :: "'k \<Rightarrow> 'k \<Rightarrow> 'h \<Rightarrow> (radix_rc \<times> 'h) option"
    and find :: "'k \<Rightarrow> 'h \<Rightarrow> radix_found option"
    and path :: "'k \<Rightarrow> 'k \<Rightarrow> bool list" and bits :: "'k \<Rightarrow> bool list"
  assumes ins_law: "inv h m \<Longrightarrow> key_ok k \<Longrightarrow> mask_ok w \<Longrightarrow> \<exists>rc h'. ins k w v h = Some (rc, h') \<and>
      (rc = Radix_OK \<and> m (path k w) = None \<and> inv h' (m(path k w := radix_entry v)) \<or>
       rc = Radix_BUSY \<and> m (path k w) \<noteq> None \<and> h' = h \<or>
       rc = Radix_ERROR \<and> m (path k w) = None \<and> inv h' m)"
    and del_law: "inv h m \<Longrightarrow> key_ok k \<Longrightarrow> mask_ok w \<Longrightarrow> \<exists>rc h'. del k w h = Some (rc, h') \<and>
      (rc = Radix_OK \<and> inv h' (m(path k w := None)) \<or> rc = Radix_ERROR \<and> m (path k w) = None \<and> h' = h \<or>
       rc = Radix_NULL_deref \<and> path k w = [])"
    and find_law: "inv h m \<Longrightarrow> key_ok k \<Longrightarrow> find k h = Some (Radix_value (radix_match m (bits k)))"
begin

text \<open>What was inserted is found under every key it covers, unless a longer prefix has a value.\<close>

lemma insert_find:
  assumes "inv h m" "key_ok k" "mask_ok w" "key_ok x" "v \<noteq> NGX_RADIX_NO_VALUE"
    and "ins k w v h = Some (Radix_OK, h')" "take (length (path k w)) (bits x) = path k w" "length (path k w) \<le> length (bits x)"
    and longer: "\<And>j. length (path k w) < j \<Longrightarrow> j \<le> length (bits x) \<Longrightarrow> m (take j (bits x)) = None"
  shows "find x h' = Some (Radix_value v)"
proof -
  let ?m = "m(path k w := Some v)"
  have h': "inv h' ?m" using ins_law[OF assms(1-3), of v] assms(5,6) by (auto simp: radix_entry_def)
  have "longest ?m (bits x) (length (bits x)) = Some v"
  proof (rule longest_here)
    show "?m (take (length (path k w)) (bits x)) = Some v" using assms(7) by simp
    show "?m (take j (bits x)) = None" if "length (path k w) < j" "j \<le> length (bits x)" for j
    proof -
      have "take j (bits x) \<noteq> path k w" using that by (metis length_take min.absorb2 less_irrefl)
      thus ?thesis using longer[OF that] by simp
    qed
  qed (rule assms(8))
  thus ?thesis using find_law[OF h' assms(4)] by (simp add: radix_match_def)
qed

text \<open>Deleting what was inserted restores every search.\<close>

lemma insert_delete:
  assumes "inv h m" "key_ok k" "mask_ok w" "ins k w v h = Some (Radix_OK, h1)" "del k w h1 = Some (Radix_OK, h2)" "key_ok x"
  shows "find x h2 = find x h"
proof -
  have m: "m (path k w) = None" "inv h1 (m(path k w := radix_entry v))"
    using ins_law[OF assms(1-3), of v] assms(4) by auto
  have "inv h2 ((m(path k w := radix_entry v))(path k w := None))"
    using del_law[OF m(2) assms(2,3)] assms(5) by auto
  hence "inv h2 m" using m(1) by (simp add: fun_upd_idem)
  thus ?thesis using find_law assms(1,6) by simp
qed

end

lemma bit32_exp: "bit32 = 2 ^ 31" "Suc 31 = 32"
  by (simp_all add: bit32_def)

lemma spells_path32: "spells (\<lambda>b. b AND msk \<noteq> 0) (\<lambda>b. key AND b \<noteq> 0) (drop_bit 1) bit32 (path32 key msk)"
proof -
  have "(31::nat) < 32" by simp
  from spells_32[OF this] show ?thesis unfolding bit32_exp path32_def .
qed

lemma reads_bits32: "reads (\<lambda>b. Some (key AND b \<noteq> 0)) (drop_bit 1) bit32 (bits32 key) (Some False)"
proof -
  have "(31::nat) < 32" by simp
  from reads_32[OF this] show ?thesis unfolding bit32_exp bits32_def .
qed

lemma insert32_law:
  assumes "radix_inv 32 h m"
  shows "\<exists>rc h'. ngx_radix32tree_insert k w v h = Some (rc, h') \<and>
     (rc = Radix_OK \<and> m (path32 k w) = None \<and> radix_inv 32 h' (m(path32 k w := radix_entry v)) \<or>
      rc = Radix_BUSY \<and> m (path32 k w) \<noteq> None \<and> h' = h \<or>
      rc = Radix_ERROR \<and> m (path32 k w) = None \<and> radix_inv 32 h' m \<and> \<not> radix_room h (length (path32 k w)))"
  unfolding ngx_radix32tree_insert_def by (rule insert_from_inv[OF assms spells_path32 path32_length])

lemma delete32_law:
  assumes "radix_inv 32 h m"
  shows "\<exists>rc h'. ngx_radix32tree_delete k w h = Some (rc, h') \<and>
     (rc = Radix_OK \<and> radix_inv 32 h' (m(path32 k w := None)) \<and> \<not> (path32 k w = [] \<and> radix_leaf_root h) \<or>
      rc = Radix_ERROR \<and> m (path32 k w) = None \<and> h' = h \<and> \<not> (path32 k w = [] \<and> radix_leaf_root h) \<or>
      rc = Radix_NULL_deref \<and> path32 k w = [] \<and> radix_leaf_root h)"
  unfolding ngx_radix32tree_delete_def by (rule delete_from_inv[OF assms spells_path32])

lemma find32_law:
  assumes "radix_inv 32 h m"
  shows "ngx_radix32tree_find k h = Some (Radix_value (radix_match m (bits32 k)))"
proof -
  have "length (bits32 k) = 32" by (simp add: bits32_def del: bits_from.simps)
  thus ?thesis unfolding ngx_radix32tree_find_def using find_inv(1)[OF assms reads_bits32] by simp
qed

interpretation r32: prefix_map "radix_inv 32" "\<lambda>_. True" "\<lambda>_. True"
  ngx_radix32tree_insert ngx_radix32tree_delete ngx_radix32tree_find path32 bits32
proof
  fix h m and k w :: "32 word" and v
  assume a: "radix_inv 32 h m"
  show "ngx_radix32tree_find k h = Some (Radix_value (radix_match m (bits32 k)))" using find32_law[OF a] .
  show "\<exists>rc h'. ngx_radix32tree_insert k w v h = Some (rc, h') \<and>
      (rc = Radix_OK \<and> m (path32 k w) = None \<and> radix_inv 32 h' (m(path32 k w := radix_entry v)) \<or>
       rc = Radix_BUSY \<and> m (path32 k w) \<noteq> None \<and> h' = h \<or>
       rc = Radix_ERROR \<and> m (path32 k w) = None \<and> radix_inv 32 h' m)"
    using insert32_law[OF a, of k w v] by blast
  show "\<exists>rc h'. ngx_radix32tree_delete k w h = Some (rc, h') \<and>
      (rc = Radix_OK \<and> radix_inv 32 h' (m(path32 k w := None)) \<or> rc = Radix_ERROR \<and> m (path32 k w) = None \<and> h' = h \<or>
       rc = Radix_NULL_deref \<and> path32 k w = [])"
    using delete32_law[OF a, of k w] by blast
qed

lemma path16_length: "length (path128 (take 16 k) w) \<le> 128"
  using length_path128[of "take 16 k" w] by simp

lemma insert128_law:
  assumes "radix_inv 128 h m" "16 \<le> length k" "length w = 16"
  shows "\<exists>rc h'. ngx_radix128tree_insert k w v h = Some (rc, h') \<and>
     (rc = Radix_OK \<and> m (path128 (take 16 k) w) = None \<and> radix_inv 128 h' (m(path128 (take 16 k) w := radix_entry v)) \<or>
      rc = Radix_BUSY \<and> m (path128 (take 16 k) w) \<noteq> None \<and> h' = h \<or>
      rc = Radix_ERROR \<and> m (path128 (take 16 k) w) = None \<and> radix_inv 128 h' m \<and> \<not> radix_room h (length (path128 (take 16 k) w)))"
  unfolding ngx_radix128tree_insert_def
  using insert_from_inv[OF assms(1) spells_128[OF assms(3,2), of 0, simplified] path16_length] by simp

lemma delete128_law:
  assumes "radix_inv 128 h m" "16 \<le> length k" "length w = 16"
  shows "\<exists>rc h'. ngx_radix128tree_delete k w h = Some (rc, h') \<and>
     (rc = Radix_OK \<and> radix_inv 128 h' (m(path128 (take 16 k) w := None)) \<and> \<not> (path128 (take 16 k) w = [] \<and> radix_leaf_root h) \<or>
      rc = Radix_ERROR \<and> m (path128 (take 16 k) w) = None \<and> h' = h \<and> \<not> (path128 (take 16 k) w = [] \<and> radix_leaf_root h) \<or>
      rc = Radix_NULL_deref \<and> path128 (take 16 k) w = [] \<and> radix_leaf_root h)"
  unfolding ngx_radix128tree_delete_def
  using delete_from_inv[OF assms(1) spells_128[OF assms(3,2), of 0, simplified]] by simp

lemma find128_eq: "ngx_radix128tree_find k h = rx_find (rd128 k) adv128 h (0, 0x80) (rx_root h) NGX_RADIX_NO_VALUE"
  unfolding ngx_radix128tree_find_def rd128_def ..

lemma find128_law:
  assumes "radix_inv 128 h m" "16 \<le> length k"
  shows "17 \<le> length k \<Longrightarrow> ngx_radix128tree_find k h = Some (Radix_value (radix_match m (bits128 (take 16 k))))"
    "length k = 16 \<Longrightarrow> m (bits128 k) \<noteq> None \<Longrightarrow> ngx_radix128tree_find k h = Some Radix_overread"
proof -
  have l: "length (bits128 (take 16 k)) = 128" using assms(2) by (simp add: length_bits128)
  note r = reads_128[OF assms(2), of 0, simplified]
  show "17 \<le> length k \<Longrightarrow> ngx_radix128tree_find k h = Some (Radix_value (radix_match m (bits128 (take 16 k))))"
    unfolding find128_eq using find_inv(1)[OF assms(1) r l] by (auto simp: rd128_def)
  show "length k = 16 \<Longrightarrow> m (bits128 k) \<noteq> None \<Longrightarrow> ngx_radix128tree_find k h = Some Radix_overread"
    unfolding find128_eq using find_inv(2)[OF assms(1) r l] by (simp add: rd128_def)
qed

interpretation r128: prefix_map "radix_inv 128" "\<lambda>k. 17 \<le> length k" "\<lambda>w. length w = 16"
  ngx_radix128tree_insert ngx_radix128tree_delete ngx_radix128tree_find "\<lambda>k w. path128 (take 16 k) w" "\<lambda>k. bits128 (take 16 k)"
proof
  fix h m and k w :: "8 word list" and v
  assume a: "radix_inv 128 h m" "17 \<le> length k"
  hence k: "16 \<le> length k" by simp
  show "ngx_radix128tree_find k h = Some (Radix_value (radix_match m (bits128 (take 16 k))))" using find128_law(1)[OF a(1) k a(2)] .
  assume w: "length w = 16"
  show "\<exists>rc h'. ngx_radix128tree_insert k w v h = Some (rc, h') \<and>
      (rc = Radix_OK \<and> m (path128 (take 16 k) w) = None \<and> radix_inv 128 h' (m(path128 (take 16 k) w := radix_entry v)) \<or>
       rc = Radix_BUSY \<and> m (path128 (take 16 k) w) \<noteq> None \<and> h' = h \<or>
       rc = Radix_ERROR \<and> m (path128 (take 16 k) w) = None \<and> radix_inv 128 h' m)"
    using insert128_law[OF a(1) k w, of v] by blast
  show "\<exists>rc h'. ngx_radix128tree_delete k w h = Some (rc, h') \<and>
      (rc = Radix_OK \<and> radix_inv 128 h' (m(path128 (take 16 k) w := None)) \<or> rc = Radix_ERROR \<and> m (path128 (take 16 k) w) = None \<and> h' = h \<or>
       rc = Radix_NULL_deref \<and> path128 (take 16 k) w = [])"
    using delete128_law[OF a(1) k w] by blast
qed

section \<open>Creation\<close>

definition radix_pool_ok :: "addr list \<Rightarrow> bool" where
  "radix_pool_ok pool \<longleftrightarrow> distinct (concat (map (\<lambda>page. rx_nodes page ngx_pagesize) pool)) \<and>
     NULL \<notin> set (concat (map (\<lambda>page. rx_nodes page ngx_pagesize) pool))"

abbreviation no_entries :: "bool list \<Rightarrow> 64 word option" where "no_entries \<equiv> \<lambda>_. None"

lemma prealloc_insert:
  assumes "radix_inv 32 h no_entries"
  shows "\<exists>rc h'. ngx_radix32tree_insert k w NGX_RADIX_NO_VALUE h = Some (rc, h') \<and> (rc = Radix_OK \<longrightarrow> radix_inv 32 h' no_entries)"
proof -
  obtain rc h' where e: "ngx_radix32tree_insert k w NGX_RADIX_NO_VALUE h = Some (rc, h')"
    and r: "rc = Radix_OK \<and> radix_inv 32 h' (no_entries(path32 k w := radix_entry NGX_RADIX_NO_VALUE)) \<or> rc \<noteq> Radix_OK"
    using insert32_law[OF assms, of k w NGX_RADIX_NO_VALUE] by auto
  have "no_entries(path32 k w := radix_entry NGX_RADIX_NO_VALUE) = no_entries" by (rule ext) (simp add: radix_entry_def)
  thus ?thesis using e r by auto
qed

text \<open>The inner loop visits the multiples of \<open>inc\<close>, a power of two, until the key wraps to zero.\<close>

lemma prealloc_keys:
  assumes "j < 32" "c < 2 ^ (32 - j)" "radix_inv 32 h no_entries"
  shows "\<exists>r. rx_prealloc_keys (2 ^ j) w (word_of_nat (c * 2 ^ j)) h = Some r \<and> pred_option (\<lambda>h'. radix_inv 32 h' no_entries) r"
  using assms(2,3)
proof (induction "2 ^ (32 - j) - c" arbitrary: c h rule: less_induct)
  case less
  have e: "(2::nat) ^ (32 - j) * 2 ^ j = 2 ^ 32" using assms(1) by (simp add: power_add[symmetric])
  obtain rc h1 where i: "ngx_radix32tree_insert (word_of_nat (c * 2 ^ j)) w NGX_RADIX_NO_VALUE h = Some (rc, h1)"
      "rc = Radix_OK \<longrightarrow> radix_inv 32 h1 no_entries"
    using prealloc_insert[OF less.prems(2)] by blast
  let ?k = "word_of_nat (Suc c * 2 ^ j) :: 32 word"
  have k: "word_of_nat (c * 2 ^ j) + 2 ^ j = ?k" by (simp add: algebra_simps)
  note step = rx_prealloc_keys.simps[of "2 ^ j" w "word_of_nat (c * 2 ^ j)" h, unfolded i(1) bind.simps prod.case Let_def k]
  consider "rc \<noteq> Radix_OK" | "rc = Radix_OK" "Suc c = 2 ^ (32 - j)" | "rc = Radix_OK" "Suc c < 2 ^ (32 - j)"
    using less.prems(1) by linarith
  thus ?case
  proof cases
    case 1
    thus ?thesis using step by simp
  next
    case 2
    have "Suc c * 2 ^ j = 2 ^ 32" unfolding 2(2) by (rule e)
    hence "?k = 0" by (simp add: word_of_nat_eq_0_iff)
    thus ?thesis using step 2(1) i(2) by simp
  next
    case 3
    have "Suc c * 2 ^ j < (2::nat) ^ (32 - j) * 2 ^ j" using 3(2) by (intro mult_strict_right_mono) simp_all
    hence "Suc c * 2 ^ j < 2 ^ 32" unfolding e .
    hence "?k \<noteq> 0" unfolding word_of_nat_eq_0_iff by (auto dest: dvd_imp_le)
    moreover have "2 ^ (32 - j) - Suc c < 2 ^ (32 - j) - c" using less.prems(1) by simp
    from less.hyps[OF this 3(2)] obtain r where "rx_prealloc_keys (2 ^ j) w ?k h1 = Some r" "pred_option (\<lambda>h'. radix_inv 32 h' no_entries) r"
      using i(2) 3(1) by blast
    ultimately show ?thesis using step 3(1) by simp
  qed
qed

lemma prealloc:
  assumes "n \<le> k" "k \<le> 32" "radix_inv 32 h no_entries" "inc = (if k = 0 then 0 else 2 ^ (k - 1))"
  shows "\<exists>r. rx_prealloc (int n) w inc h = Some r \<and> pred_option (\<lambda>h'. radix_inv 32 h' no_entries) r"
  using assms
proof (induction n arbitrary: k w inc h)
  case 0
  thus ?case by (subst rx_prealloc.simps) simp
next
  case (Suc n)
  let ?w = "drop_bit 1 w OR 0x80000000"
  have k: "k - 1 < 32" "inc = 2 ^ (k - 1)" using Suc.prems(1,2,4) by auto
  obtain r where r: "rx_prealloc_keys inc ?w 0 h = Some r" "pred_option (\<lambda>h'. radix_inv 32 h' no_entries) r"
    using prealloc_keys[OF k(1) _ Suc.prems(3), of 0 ?w] k(2) by auto
  have step: "rx_prealloc (int (Suc n)) w inc h = (case r of None \<Rightarrow> Some None | Some h1 \<Rightarrow> rx_prealloc (int n) ?w (drop_bit 1 inc) h1)"
    by (subst rx_prealloc.simps) (simp add: r(1) Let_def del: One_nat_def)
  have inc: "drop_bit 1 inc = (if k - 1 = 0 then 0 else 2 ^ (k - 1 - 1))"
  proof (cases "k - 1")
    case 0
    thus ?thesis using k(2) half_one[where 'a = 32] by simp
  next
    case (Suc j)
    thus ?thesis using k half_exp[where 'a = 32, of j] by (simp del: power_Suc One_nat_def)
  qed
  show ?case
  proof (cases r)
    case None
    thus ?thesis using step by simp
  next
    case (Some h1)
    hence "radix_inv 32 h1 no_entries" using r(2) by simp
    moreover have "n \<le> k - 1" "k - 1 \<le> 32" using Suc.prems(1,2) by auto
    ultimately show ?thesis using step Some Suc.IH[of "k - 1" h1 "drop_bit 1 inc" ?w] inc by simp
  qed
qed

lemma create_root:
  assumes "radix_pool_ok pool" "h = \<lparr>rx_right = f, rx_left = g, rx_parent = p, rx_value = v,
      rx_root = r0, rx_free = NULL, rx_start = NULL, rx_size = 0, rx_pool = pool\<rparr>"
    "ngx_radix_alloc h = (root, h0)" "root \<noteq> NULL"
    "h2 = rx_set_value root NGX_RADIX_NO_VALUE (rx_set_parent root NULL (rx_set_left root NULL (rx_set_right root NULL (h0\<lparr>rx_root := root\<rparr>))))"
  shows "radix_inv n h2 no_entries" "radix_room h2 (length pool * 128 - 1)" "radix_leaf_root h2"
proof -
  let ?s = "concat (map (\<lambda>page. rx_nodes page ngx_pagesize) pool)"
  have s: "rx_supply h ?s" using assms(1,2) by (simp add: rx_supply_def rx_avail_def radix_pool_ok_def rx_nodes_def)
  from s obtain s' where s': "?s = root # s'" "rx_supply h0 s'" "rx_same UNIV h h0"
    by (cases rule: radix_alloc) (use assms(3,4) in auto)
  have same: "rx_same (- {root}) h0 h2" by (simp add: assms(5) rx_same_def rx_set_defs)
  have d: "distinct (root # s')" using assms(1) s'(1) by (simp add: radix_pool_ok_def)
  have sup: "rx_supply h2 s'" using d by (intro rx_supply_same[OF s'(2) same]) (auto simp: assms(5) rx_set_defs)
  have "rx_at h2 NULL (RxN root NGX_RADIX_NO_VALUE RxE RxE) (rx_root h2)" using assms(4) by (simp add: assms(5) rx_set_defs)
  moreover have "look (RxN root NGX_RADIX_NO_VALUE RxE RxE) = no_entries" using look_bare by (intro ext)
  ultimately show "radix_inv n h2 no_entries"
    unfolding radix_inv_def using d sup by (intro exI[of _ "RxN root NGX_RADIX_NO_VALUE RxE RxE"] exI[of _ s']) simp
  have "length ?s = length pool * 128"
    by (induction pool) (simp_all add: rx_nodes_def ngx_pagesize_def radix_node_size_def)
  hence "length s' = length pool * 128 - 1" using s'(1) by simp
  thus "radix_room h2 (length pool * 128 - 1)" unfolding radix_room_def using sup by auto
  show "radix_leaf_root h2" by (simp add: radix_leaf_root_def assms(5) rx_set_defs)
qed

lemma radix_inv_mono: "radix_inv n h m \<Longrightarrow> n \<le> k \<Longrightarrow> radix_inv k h m"
proof -
  assume "radix_inv n h m" "n \<le> k"
  then obtain t s where "rx_at h NULL t (rx_root h)" "t \<noteq> RxE" "rx_supply h s" "distinct (rx_addrs t @ s)" "rx_depth t \<le> Suc k" "look t = m"
    by (auto simp: radix_inv_def)
  thus "radix_inv k h m" unfolding radix_inv_def by blast
qed

lemma radix_room_mono: "radix_room h n \<Longrightarrow> k \<le> n \<Longrightarrow> radix_room h k"
  unfolding radix_room_def using le_trans by blast

lemma create_cases:
  assumes "radix_pool_ok pool"
  shows "(\<exists>h. pool \<noteq> [] \<and> radix_inv 32 h no_entries \<and> radix_room h (length pool * 128 - 1) \<and> radix_leaf_root h \<and>
      ngx_radix_tree_create pool preallocate =
        (if preallocate = 0 then Some (Some h) else rx_prealloc (if preallocate = -1 then 6 else preallocate) 0 0x80000000 h)) \<or>
    pool = [] \<and> ngx_radix_tree_create pool preallocate = Some None"
proof -
  define h where "h = \<lparr>rx_right = (\<lambda>_. NULL), rx_left = (\<lambda>_. NULL), rx_parent = (\<lambda>_. NULL), rx_value = (\<lambda>_. 0),
               rx_root = NULL, rx_free = NULL, rx_start = NULL, rx_size = 0, rx_pool = pool\<rparr>"
  obtain root h0 where al: "ngx_radix_alloc h = (root, h0)" by (rule prod.exhaust)
  have root: "root = NULL \<longleftrightarrow> pool = []"
  proof (cases pool)
    case (Cons page pages)
    have "rx_nodes page ngx_pagesize = page # rx_nodes (page + radix_node_size) (ngx_pagesize - radix_node_size)"
      by (rule rx_nodes_Cons) (simp add: radix_node_size_def ngx_pagesize_def)
    hence "page \<noteq> NULL" using assms Cons unfolding radix_pool_ok_def by simp
    thus ?thesis using al Cons by (auto simp: h_def ngx_radix_alloc_def radix_node_size_def)
  qed (use al in \<open>auto simp: h_def ngx_radix_alloc_def radix_node_size_def\<close>)
  have six: "ngx_pagesize div radix_node_size = 128" by (simp add: ngx_pagesize_def radix_node_size_def)
  show ?thesis
  proof (cases "pool = []")
    case True
    thus ?thesis using al root unfolding ngx_radix_tree_create_def h_def[symmetric] by simp
  next
    case False
    hence r: "root \<noteq> NULL" using root by simp
    note c = create_root[OF assms h_def al r refl]
    have "ngx_radix_tree_create pool preallocate =
        (if preallocate = 0 then Some (Some (rx_set_value root NGX_RADIX_NO_VALUE (rx_set_parent root NULL (rx_set_left root NULL (rx_set_right root NULL (h0\<lparr>rx_root := root\<rparr>))))))
         else rx_prealloc (if preallocate = -1 then 6 else preallocate) 0 0x80000000
           (rx_set_value root NGX_RADIX_NO_VALUE (rx_set_parent root NULL (rx_set_left root NULL (rx_set_right root NULL (h0\<lparr>rx_root := root\<rparr>))))))"
      unfolding ngx_radix_tree_create_def h_def[symmetric] al prod.case Let_def if_not_P[OF r] six by simp
    thus ?thesis using c False by blast
  qed
qed

lemma create_prealloc:
  assumes "radix_inv 32 h no_entries" "0 \<le> n" "n \<le> 32"
  shows "\<exists>r. rx_prealloc n 0 0x80000000 h = Some r \<and> pred_option (\<lambda>h'. radix_inv 32 h' no_entries) r"
proof -
  have "(0x80000000 :: 32 word) = 2 ^ 31" by simp
  thus ?thesis using prealloc[of "nat n" 32 h "2 ^ 31" 0] assms by simp
qed

section \<open>Properties\<close>

text \<open>
  Creating a tree always returns, whatever the number of levels to preallocate: with
  NULL when the pool is exhausted, else with a tree that has no entries. Without preallocation it fails only on
  an empty pool.
\<close>

theorem radix_tree_created:
  assumes "radix_pool_ok pool" "-1 \<le> preallocate" "preallocate \<le> 32"
  shows "\<exists>r. ngx_radix_tree_create pool preallocate = Some r \<and> pred_option (\<lambda>h. radix_inv 32 h (\<lambda>_. None)) r \<and>
     (preallocate = 0 \<and> pool \<noteq> [] \<longrightarrow> r \<noteq> None)"
proof -
  let ?n = "if preallocate = -1 then 6 else preallocate"
  have n: "0 \<le> ?n" "?n \<le> 32" using assms(2,3) by auto
  from create_cases[OF assms(1), of preallocate] show ?thesis
  proof
    assume "\<exists>h. pool \<noteq> [] \<and> radix_inv 32 h no_entries \<and> radix_room h (length pool * 128 - 1) \<and> radix_leaf_root h \<and>
      ngx_radix_tree_create pool preallocate = (if preallocate = 0 then Some (Some h) else rx_prealloc ?n 0 0x80000000 h)"
    then obtain h where h: "radix_inv 32 h no_entries"
      "ngx_radix_tree_create pool preallocate = (if preallocate = 0 then Some (Some h) else rx_prealloc ?n 0 0x80000000 h)" by blast
    show ?thesis using h create_prealloc[OF h(1) n] by (cases "preallocate = 0") auto
  next
    assume "pool = [] \<and> ngx_radix_tree_create pool preallocate = Some None"
    thus ?thesis by (intro exI[of _ None]) auto
  qed
qed

lemma pool_ok_1: "radix_pool_ok [4096]"
  by (auto simp: radix_pool_ok_def rx_nodes_def radix_node_size_def distinct_map inj_on_def)

theorem radix_tree_created_witness:
  "ngx_radix_tree_create [4096] 0 \<noteq> Some None \<and> ngx_radix_tree_create [4096] 0 \<noteq> None"
  using radix_tree_created[of "[4096]" 0] pool_ok_1 by auto

text \<open>
  C7 (refinement). The 32-bit tree is a map from prefixes to values. Insertion adds an entry, reports a prefix that
  has one, or fails for lack of nodes without a change to the map; deletion removes the entry, and fails only where
  there is none (a root without children apart); a search returns the value of the longest prefix of the key.
\<close>

theorem radix32tree_map:
  assumes "radix_inv 32 h m"
  shows "(\<exists>rc h'. ngx_radix32tree_insert key msk v h = Some (rc, h') \<and>
       (rc = Radix_OK \<and> m (path32 key msk) = None \<and> radix_inv 32 h' (m(path32 key msk := radix_entry v)) \<or>
        rc = Radix_BUSY \<and> m (path32 key msk) \<noteq> None \<and> h' = h \<or>
        rc = Radix_ERROR \<and> m (path32 key msk) = None \<and> radix_inv 32 h' m \<and> \<not> radix_room h (length (path32 key msk)))) \<and>
     (\<exists>rc h'. ngx_radix32tree_delete key msk h = Some (rc, h') \<and>
       (rc = Radix_OK \<and> radix_inv 32 h' (m(path32 key msk := None)) \<and> \<not> (path32 key msk = [] \<and> radix_leaf_root h) \<or>
        rc = Radix_ERROR \<and> m (path32 key msk) = None \<and> h' = h \<and> \<not> (path32 key msk = [] \<and> radix_leaf_root h) \<or>
        rc = Radix_NULL_deref \<and> path32 key msk = [] \<and> radix_leaf_root h)) \<and>
     ngx_radix32tree_find key h = Some (Radix_value (radix_match m (bits32 key)))"
  by (intro conjI insert32_law delete32_law find32_law assms)

lemma created_1:
  obtains h where "ngx_radix_tree_create [4096] 0 = Some (Some h)" "radix_inv 32 h no_entries" "radix_room h 127" "radix_leaf_root h"
  using create_cases[OF pool_ok_1, of 0] by auto

theorem radix32tree_map_witness:
  "\<exists>h rc h'. ngx_radix_tree_create [4096] 0 = Some (Some h) \<and> ngx_radix32tree_insert 0x0a000000 0xff000000 1 h = Some (rc, h') \<and>
     rc = Radix_OK \<and> ngx_radix32tree_find 0x0a000001 h = Some (Radix_value NGX_RADIX_NO_VALUE)"
proof -
  obtain h where h: "ngx_radix_tree_create [4096] 0 = Some (Some h)" "radix_inv 32 h no_entries" "radix_room h 127" by (rule created_1)
  have "radix_room h (length (path32 0x0a000000 0xff000000))"
    by (rule radix_room_mono[OF h(3) le_trans[OF path32_length]]) simp
  hence "\<exists>h'. ngx_radix32tree_insert 0x0a000000 0xff000000 1 h = Some (Radix_OK, h')"
    using radix32tree_map[OF h(2), of "0x0a000000" "0xff000000" 1] by auto
  moreover have "longest no_entries bs k = None" for bs k by (induction k) simp_all
  hence "ngx_radix32tree_find 0x0a000001 h = Some (Radix_value NGX_RADIX_NO_VALUE)"
    using radix32tree_map[OF h(2), of "0x0a000001"] by (simp add: radix_match_def)
  ultimately show ?thesis using h(1) by blast
qed

text \<open>
  C8 (refinement). The 128-bit tree is the same map on keys of 16 bytes, as long as a search may read one byte past the
  key.
\<close>

theorem radix128tree_map:
  assumes "radix_inv 128 h m" "17 \<le> length key" "length msk = 16"
  shows "(\<exists>rc h'. ngx_radix128tree_insert key msk v h = Some (rc, h') \<and>
       (rc = Radix_OK \<and> m (path128 (take 16 key) msk) = None \<and> radix_inv 128 h' (m(path128 (take 16 key) msk := radix_entry v)) \<or>
        rc = Radix_BUSY \<and> m (path128 (take 16 key) msk) \<noteq> None \<and> h' = h \<or>
        rc = Radix_ERROR \<and> m (path128 (take 16 key) msk) = None \<and> radix_inv 128 h' m \<and>
          \<not> radix_room h (length (path128 (take 16 key) msk)))) \<and>
     (\<exists>rc h'. ngx_radix128tree_delete key msk h = Some (rc, h') \<and>
       (rc = Radix_OK \<and> radix_inv 128 h' (m(path128 (take 16 key) msk := None)) \<and> \<not> (path128 (take 16 key) msk = [] \<and> radix_leaf_root h) \<or>
        rc = Radix_ERROR \<and> m (path128 (take 16 key) msk) = None \<and> h' = h \<and> \<not> (path128 (take 16 key) msk = [] \<and> radix_leaf_root h) \<or>
        rc = Radix_NULL_deref \<and> path128 (take 16 key) msk = [] \<and> radix_leaf_root h)) \<and>
     ngx_radix128tree_find key h = Some (Radix_value (radix_match m (bits128 (take 16 key))))"
  using assms by (intro conjI insert128_law delete128_law find128_law(1)) auto

lemma pool_ok_2: "radix_pool_ok [4096, 8192]"
  by (auto simp: radix_pool_ok_def rx_nodes_def radix_node_size_def ngx_pagesize_def distinct_map inj_on_def)

lemma created_2:
  obtains h where "ngx_radix_tree_create [4096, 8192] 0 = Some (Some h)" "radix_inv 128 h no_entries" "radix_room h 255" "radix_leaf_root h"
proof -
  obtain h where "ngx_radix_tree_create [4096, 8192] 0 = Some (Some h)" "radix_inv 32 h no_entries" "radix_room h 255" "radix_leaf_root h"
    using create_cases[OF pool_ok_2, of 0] by auto
  thus thesis using that radix_inv_mono[of 32 h no_entries 128] by simp
qed

theorem radix128tree_map_witness:
  "\<exists>h h'. ngx_radix_tree_create [4096, 8192] 0 = Some (Some h) \<and>
     ngx_radix128tree_insert (replicate 17 0) (replicate 16 255) 1 h = Some (Radix_OK, h')"
proof -
  obtain h where h: "ngx_radix_tree_create [4096, 8192] 0 = Some (Some h)" "radix_inv 128 h no_entries" "radix_room h 255" by (rule created_2)
  let ?k = "replicate 17 (0 :: 8 word)" and ?w = "replicate 16 (255 :: 8 word)"
  have "radix_room h (length (path128 (take 16 ?k) ?w))" by (rule radix_room_mono[OF h(3) le_trans[OF path16_length]]) simp
  hence "\<exists>h'. ngx_radix128tree_insert ?k ?w 1 h = Some (Radix_OK, h')"
    using radix128tree_map[OF h(2), of ?k ?w 1] by auto
  thus ?thesis using h(1) by blast
qed

text \<open>
  C38 (error). Where the code leaves its data: to delete the empty prefix from a tree whose root has no children follows the
  NULL pointer of the root's parent, in both variants (here with 128 bits); and a search for a key of 16 bytes that is itself an entry reads the
  byte after it.
\<close>

theorem radix_tree_unsafe:
  assumes "radix_inv 128 h m" "length key = 16"
  shows "(radix_leaf_root h \<longrightarrow> (\<exists>h'. ngx_radix128tree_delete key (replicate 16 0) h = Some (Radix_NULL_deref, h'))) \<and>
     (m (bits128 key) \<noteq> None \<longrightarrow> ngx_radix128tree_find key h = Some Radix_overread)"
proof (intro conjI impI)
  assume r: "radix_leaf_root h"
  have p: "path128 ks (replicate n 0) = []" for ks n by (cases ks; cases n) (simp_all add: numeral_eq_Suc)
  show "\<exists>h'. ngx_radix128tree_delete key (replicate 16 0) h = Some (Radix_NULL_deref, h')"
    using delete128_law[OF assms(1), of key "replicate 16 0"] assms(2) r unfolding p by auto
next
  assume "m (bits128 key) \<noteq> None"
  thus "ngx_radix128tree_find key h = Some Radix_overread" using find128_law(2)[OF assms(1)] assms(2) by simp
qed

theorem radix_tree_unsafe_witness:
  "\<exists>h h' h1. ngx_radix_tree_create [4096, 8192] 0 = Some (Some h) \<and>
     ngx_radix128tree_delete (replicate 16 0) (replicate 16 0) h = Some (Radix_NULL_deref, h') \<and>
     ngx_radix128tree_insert (replicate 16 0) (replicate 16 255) 1 h = Some (Radix_OK, h1) \<and>
     ngx_radix128tree_find (replicate 16 0) h1 = Some Radix_overread"
proof -
  obtain h where h: "ngx_radix_tree_create [4096, 8192] 0 = Some (Some h)" "radix_inv 128 h no_entries" "radix_room h 255" "radix_leaf_root h"
    by (rule created_2)
  let ?k = "replicate 16 (0 :: 8 word)" and ?w = "replicate 16 (255 :: 8 word)"
  have "radix_room h (length (path128 (take 16 ?k) ?w))" by (rule radix_room_mono[OF h(3) le_trans[OF path16_length]]) simp
  then obtain h1 where i: "ngx_radix128tree_insert ?k ?w 1 h = Some (Radix_OK, h1)"
      "radix_inv 128 h1 (no_entries(path128 (take 16 ?k) ?w := radix_entry 1))"
    using insert128_law[OF h(2), of ?k ?w 1] by auto
  have "path128 (take 16 ?k) ?w = bits128 ?k" by code_simp
  hence "radix_inv 128 h1 (no_entries(bits128 ?k := Some 1))" using i(2) by (simp add: radix_entry_def NGX_RADIX_NO_VALUE_def)
  hence "ngx_radix128tree_find ?k h1 = Some Radix_overread" using radix_tree_unsafe[of h1 _ ?k] by fastforce
  thus ?thesis using h(1) i(1) radix_tree_unsafe[OF h(2), of ?k] h(4) by auto
qed

end
