(* ===== verification/Ngx_Http_Range_Filter.thy ===== *)
theory Ngx_Http_Range_Filter
  imports Ngx_Times
begin

text \<open>
  \<^verbatim>\<open>http/modules/ngx_http_range_filter_module.c\<close>: byte ranges of a response. The header filter parses the
  Range header against the length of the response and sets up the headers of a partial response; the body filter cuts
  the range out of the buffers that pass through it, or builds a multipart body. The next filter in the chain is
  represented by what it is called with. The arithmetic of \<open>off_t\<close> wraps at 64 bits.
\<close>

section \<open>Data\<close>

definition off64 :: "int \<Rightarrow> int" where
  "off64 x = signed_take_bit 63 x"

record http_range =
  rg_start :: int
  rg_end :: int
  rg_content_range :: "u_char list"

record range_ctx =
  rc_offset :: int
  rc_boundary_header :: "u_char list"
  rc_ranges :: "http_range list"

record header_elt =
  he_hash :: nat
  he_key :: "u_char list"
  he_value :: "u_char list"

text \<open>
  What the filter reads and writes of the request: whether it is the main request, its flags, the headers in and the
  headers out; the pointers to headers out are indices of their list. \<open>max_ranges\<close> is of the location.
\<close>

record range_request =
  is_main :: bool
  http_version :: nat
  subrequest_ranges :: bool
  allow_ranges :: bool
  single_range :: bool
  max_ranges :: nat
  in_range :: "u_char list option"
  in_if_range :: "u_char list option"
  out_status :: nat
  out_status_line :: "u_char list"
  content_length_n :: int
  content_offset :: int
  last_modified_time :: "64 word"
  out_etag :: "u_char list option"
  out_content_type :: "u_char list"
  content_type_len :: nat
  out_charset :: "u_char list"
  out_headers :: "header_elt list"
  out_content_length :: "nat option"
  out_content_range :: "nat option"
  out_accept_ranges :: "nat option"

abbreviation "NGX_HTTP_VERSION_10 \<equiv> 1000 :: nat"
abbreviation "NGX_HTTP_OK \<equiv> 200 :: nat"
abbreviation "NGX_HTTP_PARTIAL_CONTENT \<equiv> 206 :: nat"
abbreviation "NGX_HTTP_RANGE_NOT_SATISFIABLE \<equiv> 416 :: nat"
abbreviation "NGX_ATOMIC_T_LEN \<equiv> 20 :: nat"

section \<open>The parser\<close>

text \<open>The value ends with a zero byte: it is what is read at the end of the list.\<close>

definition cur :: "u_char list \<Rightarrow> u_char" where
  "cur p = (case p of [] \<Rightarrow> 0 | c # _ \<Rightarrow> c)"

abbreviation skip_spaces :: "u_char list \<Rightarrow> u_char list" where
  "skip_spaces \<equiv> dropWhile (\<lambda>c. c = SP)"

text \<open>The loops that read \<open>start\<close> and \<open>end\<close>; \<open>None\<close>: not satisfiable.\<close>

fun range_digits :: "int \<Rightarrow> u_char list \<Rightarrow> (int \<times> u_char list) option" where
  "range_digits n [] = Some (n, [])"
| "range_digits n (c # p) =
     (if is_digit c then
        if n \<ge> NGX_MAX_OFF_T_VALUE div 10 \<and> (n > NGX_MAX_OFF_T_VALUE div 10 \<or> digit_val c > NGX_MAX_OFF_T_VALUE mod 10)
        then None
        else range_digits (off64 (n * 10 + digit_val c)) p
      else Some (n, c # p))"

text \<open>From the first character of \<open>end\<close> on.\<close>

definition range_last :: "int \<Rightarrow> int \<Rightarrow> bool \<Rightarrow> u_char list \<Rightarrow> (int \<times> int \<times> u_char list) option" where
  "range_last content_length start suffix p =
     (if \<not> is_digit (cur p) then None
      else case range_digits 0 p of
             None \<Rightarrow> None
           | Some (end0, p1) \<Rightarrow>
               let p2 = skip_spaces p1 in
               if cur p2 \<noteq> c8 CHR '','' \<and> cur p2 \<noteq> 0 then None
               else let start' = (if suffix then off64 (content_length - end0) else start);
                        end1 = (if suffix then off64 (content_length - 1) else end0)
                    in Some (start', if end1 \<ge> content_length then content_length else end1 + 1, p2))"

definition range_item :: "int \<Rightarrow> u_char list \<Rightarrow> (int \<times> int \<times> u_char list) option" where
  "range_item content_length p =
     (let p0 = skip_spaces p in
      if cur p0 \<noteq> c8 CHR ''-'' then
        if \<not> is_digit (cur p0) then None
        else case range_digits 0 p0 of
               None \<Rightarrow> None
             | Some (start, p1) \<Rightarrow>
                 let p2 = skip_spaces p1 in
                 if cur p2 \<noteq> c8 CHR ''-'' then None
                 else let p3 = skip_spaces (tl p2) in
                   if cur p3 = c8 CHR '','' \<or> cur p3 = 0 then Some (start, content_length, p3)
                   else range_last content_length start False p3
      else range_last content_length 0 True (tl p0))"

datatype range_rc = Range_OK | Range_declined | Range_not_satisfiable

lemma range_digits_shorter: "range_digits n p = Some (v, p') \<Longrightarrow> length p' \<le> length p"
  by (induction p arbitrary: n) (auto split: if_splits simp: le_SucI)

lemma skip_spaces_shorter: "length (skip_spaces p) \<le> length p"
  by (rule length_dropWhile_le)

lemma range_last_shorter: "range_last cl s suf p = Some (a, b, p') \<Longrightarrow> length p' \<le> length p"
  by (auto simp: range_last_def Let_def split: if_splits option.splits
      dest!: range_digits_shorter intro: le_trans[OF skip_spaces_shorter])

lemma range_item_shorter:
  assumes "range_item cl p = Some (a, b, p')"
  shows "length p' \<le> length p"
proof (cases "cur (skip_spaces p) = c8 CHR ''-''")
  case True
  thus ?thesis
    using assms range_last_shorter[of cl 0 True "tl (skip_spaces p)" a b p'] skip_spaces_shorter[of p]
    by (simp add: range_item_def Let_def)
next
  case False
  then obtain start p1 where d: "range_digits 0 (skip_spaces p) = Some (start, p1)"
    using assms by (auto simp: range_item_def Let_def split: if_splits option.splits)
  have "length (skip_spaces (tl (skip_spaces p1))) \<le> length p"
    using skip_spaces_shorter[of "tl (skip_spaces p1)"] skip_spaces_shorter[of p1] skip_spaces_shorter[of p]
      range_digits_shorter[OF d] by simp
  thus ?thesis
    using assms False d range_last_shorter[of cl start False "skip_spaces (tl (skip_spaces p1))" a b p']
    by (auto simp: range_item_def Let_def split: if_splits)
qed

lemma range_item_next:
  assumes "range_item cl p = Some (a, b, p')" "cur p' = c8 CHR '',''"
  shows "length p' - 1 < length p"
  using range_item_shorter[OF assms(1)] assms(2) by (cases p') (auto simp: cur_def)

function range_loop :: "int \<Rightarrow> u_char list \<Rightarrow> nat \<Rightarrow> int \<Rightarrow> http_range list \<Rightarrow> range_rc \<times> http_range list" where
  "range_loop content_length p ranges sz rs =
     (case range_item content_length p of
        None \<Rightarrow> (Range_not_satisfiable, rs)
      | Some (start, end0, p') \<Rightarrow>
          let found = start < end0;
              rs' = (if found then rs @ [\<lparr>rg_start = start, rg_end = end0, rg_content_range = []\<rparr>] else rs);
              sz' = (if found then off64 (sz + off64 (end0 - start)) else sz)
          in if found \<and> ranges = 0 then (Range_declined, rs')
             else if cur p' \<noteq> c8 CHR '','' then
               (if rs' = [] then Range_not_satisfiable else if sz' > content_length then Range_declined else Range_OK, rs')
             else range_loop content_length (tl p') (if found then ranges - 1 else ranges) sz' rs')"
  by pat_completeness auto
termination
  by (relation "measure (\<lambda>(cl, p, ranges, sz, rs). length p)") (auto dest: range_item_next)

declare range_loop.simps [simp del]

definition ngx_http_range_parse :: "range_request \<Rightarrow> range_ctx option \<Rightarrow> nat \<Rightarrow> range_rc \<times> http_range list" where
  "ngx_http_range_parse r mctx ranges =
     (if \<not> is_main r \<and> mctx \<noteq> None then (Range_OK, rc_ranges (the mctx))
      else range_loop (content_length_n r) (drop 6 (the (in_range r))) ranges 0 [])"

section \<open>The headers\<close>

text \<open>\<open>%O\<close> and \<open>%0muA\<close> of \<open>ngx_sprintf\<close>\<close>

definition sprintf_off :: "int \<Rightarrow> u_char list" where
  "sprintf_off i64 = (if i64 < 0 then c8 CHR ''-'' # ngx_sprintf_num sprintf_room (nat (- i64)) SP 0 0
     else ngx_sprintf_num sprintf_room (nat i64) SP 0 0)"

definition sprintf_boundary :: "64 word \<Rightarrow> u_char list" where
  "sprintf_boundary n = ngx_sprintf_num sprintf_room (unat n) (c8 CHR ''0'') 0 NGX_ATOMIC_T_LEN"

definition push_header :: "string \<Rightarrow> u_char list \<Rightarrow> range_request \<Rightarrow> range_request" where
  "push_header key val r = r\<lparr>out_headers := out_headers r @ [\<lparr>he_hash = 1, he_key = bytes key, he_value = val\<rparr>]\<rparr>"

text \<open>The header \<open>Content-Length\<close>, if there is one, is not sent.\<close>

definition drop_content_length :: "range_request \<Rightarrow> range_request" where
  "drop_content_length r =
     (case out_content_length r of
        None \<Rightarrow> r
      | Some i \<Rightarrow> r\<lparr>out_headers := (out_headers r)[i := (out_headers r ! i)\<lparr>he_hash := 0\<rparr>], out_content_length := None\<rparr>)"

definition ngx_http_clear_content_length :: "range_request \<Rightarrow> range_request" where
  "ngx_http_clear_content_length r = drop_content_length (r\<lparr>content_length_n := -1\<rparr>)"

definition ngx_http_range_singlepart_header :: "range_request \<Rightarrow> range_ctx \<Rightarrow> range_request" where
  "ngx_http_range_singlepart_header r ctx =
     (if \<not> is_main r then r
      else let rg = hd (rc_ranges ctx);
               r1 = push_header ''Content-Range''
                 (bytes ''bytes '' @ sprintf_off (rg_start rg) @ bytes ''-'' @ sprintf_off (off64 (rg_end rg - 1)) @ bytes ''/'' @
                  sprintf_off (content_length_n r)) r;
               r2 = r1\<lparr>out_content_range := Some (length (out_headers r)),
                      content_length_n := off64 (rg_end rg - rg_start rg), content_offset := rg_start rg\<rparr>
           in drop_content_length r2)"

definition CRLF :: "u_char list" where "CRLF = [CR, LF]"

definition range_boundary_header :: "64 word \<Rightarrow> range_request \<Rightarrow> u_char list" where
  "range_boundary_header boundary r =
     CRLF @ bytes ''--'' @ sprintf_boundary boundary @ CRLF @
     (if content_type_len r = length (out_content_type r) \<and> out_charset r \<noteq> [] then
        bytes ''Content-Type: '' @ out_content_type r @ bytes ''; charset='' @ out_charset r @ CRLF
      else if out_content_type r \<noteq> [] then bytes ''Content-Type: '' @ out_content_type r @ CRLF
      else []) @ bytes ''Content-Range: bytes ''"

definition range_set_content_range :: "int \<Rightarrow> http_range \<Rightarrow> http_range" where
  "range_set_content_range content_length rg =
     rg\<lparr>rg_content_range := sprintf_off (rg_start rg) @ bytes ''-'' @ sprintf_off (off64 (rg_end rg - 1)) @ bytes ''/'' @
       sprintf_off content_length @ CRLF @ CRLF\<rparr>"

text \<open>The size of the last boundary, and the loop that adds the sizes of the parts (\<open>len\<close> is unsigned).\<close>

definition range_last_boundary_len :: nat where
  "range_last_boundary_len = length CRLF + 2 + NGX_ATOMIC_T_LEN + 2 + length CRLF"

fun range_parts_len :: "nat \<Rightarrow> http_range list \<Rightarrow> 64 word \<Rightarrow> 64 word" where
  "range_parts_len bh [] len = len"
| "range_parts_len bh (rg # rs) len =
     range_parts_len bh rs (len + word_of_nat bh + word_of_nat (length (rg_content_range rg)) +
       word_of_int (off64 (rg_end rg - rg_start rg)))"

definition ngx_http_range_multipart_header :: "64 word \<Rightarrow> range_request \<Rightarrow> range_ctx \<Rightarrow> range_request \<times> range_ctx" where
  "ngx_http_range_multipart_header boundary r ctx =
     (let bh = range_boundary_header boundary r;
          ct = bytes ''multipart/byteranges; boundary='' @ sprintf_boundary boundary;
          r1 = r\<lparr>out_content_type := ct, content_type_len := length ct, out_charset := []\<rparr>;
          rs = map (range_set_content_range (content_length_n r)) (rc_ranges ctx);
          len = range_parts_len (length bh) rs (word_of_nat range_last_boundary_len);
          r2 = r1\<lparr>content_length_n := sint len\<rparr>
      in (drop_content_length r2, ctx\<lparr>rc_boundary_header := bh, rc_ranges := rs\<rparr>))"

definition ngx_http_range_not_satisfiable :: "range_request \<Rightarrow> range_request" where
  "ngx_http_range_not_satisfiable r =
     (let r1 = push_header ''Content-Range'' (bytes ''bytes */'' @ sprintf_off (content_length_n r)) (r\<lparr>out_status := NGX_HTTP_RANGE_NOT_SATISFIABLE\<rparr>)
      in ngx_http_clear_content_length (r1\<lparr>out_content_range := Some (length (out_headers r))\<rparr>))"

text \<open>
  The header filter calls the next one, with the context of the body filter it has set, or returns
  \<open>NGX_HTTP_RANGE_NOT_SATISFIABLE\<close>.
\<close>

datatype range_header_out = Next_header_filter range_request "range_ctx option" | Header_not_satisfiable range_request

definition range_next :: "range_request \<Rightarrow> range_header_out" where
  "range_next r = Next_header_filter ((push_header ''Accept-Ranges'' (bytes ''bytes'') r)\<lparr>out_accept_ranges := Some (length (out_headers r))\<rparr>) None"

text \<open>The time of a value that is not a date is -1.\<close>

definition if_range_time :: "u_char list \<Rightarrow> 64 word" where
  "if_range_time v = (case ngx_parse_http_time v of Pt_time t \<Rightarrow> t | _ \<Rightarrow> -1)"

definition range_if_range_ok :: "range_request \<Rightarrow> bool" where
  "range_if_range_ok r =
     (case in_if_range r of
        None \<Rightarrow> True
      | Some v \<Rightarrow>
          if 2 \<le> length v \<and> List.last v = c8 CHR ''\"'' then
            (case out_etag r of None \<Rightarrow> False | Some etag \<Rightarrow> same_str v etag)
          else last_modified_time r \<noteq> -1 \<and> if_range_time v = last_modified_time r)"

definition ngx_http_range_header_filter :: "64 word \<Rightarrow> range_ctx option \<Rightarrow> range_request \<Rightarrow> range_header_out" where
  "ngx_http_range_header_filter boundary mctx r =
     (if http_version r < NGX_HTTP_VERSION_10 \<or> out_status r \<noteq> NGX_HTTP_OK \<or> (\<not> is_main r \<and> \<not> subrequest_ranges r) \<or>
         content_length_n r = -1 \<or> \<not> allow_ranges r then Next_header_filter r None
      else if max_ranges r = 0 then Next_header_filter r None
      else case in_range r of
        None \<Rightarrow> range_next r
      | Some v \<Rightarrow>
          if length v < 7 \<or> ngx_strncasecmp v (bytes ''bytes='') 6 \<noteq> 0 then range_next r
          else if \<not> range_if_range_ok r then range_next r
          else case ngx_http_range_parse r mctx (if single_range r then 1 else max_ranges r) of
            (Range_OK, ranges) \<Rightarrow>
              let ctx = \<lparr>rc_offset = content_offset r, rc_boundary_header = [], rc_ranges = ranges\<rparr>;
                  r1 = r\<lparr>out_status := NGX_HTTP_PARTIAL_CONTENT, out_status_line := []\<rparr>
              in if length ranges = 1 then Next_header_filter (ngx_http_range_singlepart_header r1 ctx) (Some ctx)
                 else (case ngx_http_range_multipart_header boundary r1 ctx of (r2, ctx2) \<Rightarrow> Next_header_filter r2 (Some ctx2))
          | (Range_not_satisfiable, _) \<Rightarrow> Header_not_satisfiable (ngx_http_range_not_satisfiable r)
          | (Range_declined, _) \<Rightarrow> range_next r)"

section \<open>The body\<close>

text \<open>A pointer is an offset in the block of memory or in the file of the buffer.\<close>

record ngx_buf =
  b_block :: "u_char list"
  b_pos :: int
  b_last :: int
  b_file :: "u_char list"
  file_pos :: int
  file_last :: int
  b_temporary :: bool
  b_memory :: bool
  b_mmap :: bool
  b_in_file :: bool
  b_flush :: bool
  b_sync :: bool
  last_buf :: bool
  last_in_chain :: bool

definition ngx_calloc_buf :: ngx_buf where
  "ngx_calloc_buf = \<lparr>b_block = [], b_pos = 0, b_last = 0, b_file = [], file_pos = 0, file_last = 0, b_temporary = False, b_memory = False,
     b_mmap = False, b_in_file = False, b_flush = False, b_sync = False, last_buf = False, last_in_chain = False\<rparr>"

definition ngx_buf_in_memory :: "ngx_buf \<Rightarrow> bool" where
  "ngx_buf_in_memory b \<longleftrightarrow> b_temporary b \<or> b_memory b \<or> b_mmap b"

definition ngx_buf_special :: "ngx_buf \<Rightarrow> bool" where
  "ngx_buf_special b \<longleftrightarrow> (b_flush b \<or> last_buf b \<or> b_sync b) \<and> \<not> ngx_buf_in_memory b \<and> \<not> b_in_file b"

definition ngx_buf_size :: "ngx_buf \<Rightarrow> int" where
  "ngx_buf_size b = (if ngx_buf_in_memory b then b_last b - b_pos b else file_last b - file_pos b)"

definition range_skip_buf :: "ngx_buf \<Rightarrow> ngx_buf" where
  "range_skip_buf b =
     (let b1 = (if b_in_file b then b\<lparr>file_pos := file_last b\<rparr> else b) in b1\<lparr>b_pos := b_last b1, b_sync := True\<rparr>)"

definition range_cut_head :: "int \<Rightarrow> ngx_buf \<Rightarrow> ngx_buf" where
  "range_cut_head n b =
     (let b1 = (if b_in_file b then b\<lparr>file_pos := file_pos b + n\<rparr> else b)
      in if ngx_buf_in_memory b1 then b1\<lparr>b_pos := b_pos b1 + n\<rparr> else b1)"

definition range_cut_tail :: "int \<Rightarrow> ngx_buf \<Rightarrow> ngx_buf" where
  "range_cut_tail n b =
     (let b1 = (if b_in_file b then b\<lparr>file_last := file_last b - n\<rparr> else b)
      in if ngx_buf_in_memory b1 then b1\<lparr>b_last := b_last b1 - n\<rparr> else b1)"

text \<open>The loop over the chain: the new \<open>ctx->offset\<close>, the buffers as they are left, and the chain \<open>out\<close>.\<close>

fun range_single_loop :: "bool \<Rightarrow> http_range \<Rightarrow> int \<Rightarrow> ngx_buf list \<Rightarrow> int \<times> ngx_buf list \<times> ngx_buf list" where
  "range_single_loop main rg offset [] = (offset, [], [])"
| "range_single_loop main rg offset (buf # cl) =
     (let start = offset; last0 = offset + ngx_buf_size buf
      in if ngx_buf_special buf then
           (case range_single_loop main rg last0 cl of (o', bs, out) \<Rightarrow> (o', buf # bs, buf # out))
         else if rg_end rg \<le> start \<or> last0 \<le> rg_start rg then
           (case range_single_loop main rg last0 cl of (o', bs, out) \<Rightarrow> (o', range_skip_buf buf # bs, out))
         else let buf1 = (if start < rg_start rg then range_cut_head (rg_start rg - start) buf else buf)
              in if rg_end rg \<le> last0 then
                   let buf2 = (range_cut_tail (last0 - rg_end rg) buf1)\<lparr>last_buf := main, last_in_chain := True\<rparr>
                   in (last0, buf2 # cl, [buf2])
                 else (case range_single_loop main rg last0 cl of (o', bs, out) \<Rightarrow> (o', buf1 # bs, buf1 # out)))"

text \<open>What the body filter does: it calls the next one with a chain, or returns.\<close>

datatype range_body_out = Next_body_filter "ngx_buf list" | Body_return ngx_rc

definition ngx_http_range_singlepart_body ::
  "range_request \<Rightarrow> range_ctx \<Rightarrow> ngx_buf list \<Rightarrow> range_body_out \<times> range_ctx \<times> ngx_buf list" where
  "ngx_http_range_singlepart_body r ctx inb =
     (case range_single_loop (is_main r) (hd (rc_ranges ctx)) (rc_offset ctx) inb of (o', bs, out) \<Rightarrow>
       (if out = [] then Body_return NGX_OK else Next_body_filter out, ctx\<lparr>rc_offset := o'\<rparr>, bs))"

definition ngx_http_range_test_overlapped :: "range_ctx \<Rightarrow> ngx_buf \<Rightarrow> range_ctx option" where
  "ngx_http_range_test_overlapped ctx buf =
     (if rc_offset ctx \<noteq> 0 then None
      else if \<not> last_buf buf \<and> \<not> list_all (\<lambda>rg. rc_offset ctx \<le> rg_start rg \<and>
                 rg_end rg \<le> rc_offset ctx + ngx_buf_size buf) (rc_ranges ctx) then None
      else Some (ctx\<lparr>rc_offset := ngx_buf_size buf\<rparr>))"

definition range_memory_buf :: "u_char list \<Rightarrow> ngx_buf" where
  "range_memory_buf s = ngx_calloc_buf\<lparr>b_block := s, b_pos := 0, b_last := int (length s)\<rparr>"

definition range_data_buf :: "ngx_buf \<Rightarrow> http_range \<Rightarrow> ngx_buf" where
  "range_data_buf buf rg =
     (let b = ngx_calloc_buf\<lparr>b_in_file := b_in_file buf, b_temporary := b_temporary buf, b_memory := b_memory buf,
                b_mmap := b_mmap buf, b_file := b_file buf\<rparr>;
          b1 = (if b_in_file buf then b\<lparr>file_pos := file_pos buf + rg_start rg, file_last := file_pos buf + rg_end rg\<rparr> else b)
      in if ngx_buf_in_memory buf
         then b1\<lparr>b_block := b_block buf, b_pos := b_pos buf + rg_start rg, b_last := b_pos buf + rg_end rg\<rparr> else b1)"

definition range_part :: "range_ctx \<Rightarrow> ngx_buf \<Rightarrow> http_range \<Rightarrow> ngx_buf list" where
  "range_part ctx buf rg =
     [(range_memory_buf (rc_boundary_header ctx))\<lparr>b_memory := True\<rparr>,
      (range_memory_buf (rg_content_range rg))\<lparr>b_temporary := True\<rparr>, range_data_buf buf rg]"

definition ngx_http_range_multipart_body :: "range_ctx \<Rightarrow> ngx_buf \<Rightarrow> ngx_buf list" where
  "ngx_http_range_multipart_body ctx buf =
     concat (map (range_part ctx buf) (rc_ranges ctx)) @
     [(range_memory_buf (take (length CRLF + 2 + NGX_ATOMIC_T_LEN) (rc_boundary_header ctx) @ bytes ''--'' @ CRLF))
        \<lparr>b_temporary := True, last_buf := True\<rparr>]"

definition ngx_http_range_body_filter ::
  "range_request \<Rightarrow> range_ctx option \<Rightarrow> ngx_buf list \<Rightarrow> range_body_out \<times> range_ctx option \<times> ngx_buf list" where
  "ngx_http_range_body_filter r octx inb =
     (case inb of
        [] \<Rightarrow> (Next_body_filter [], octx, [])
      | buf # rest \<Rightarrow> (case octx of
          None \<Rightarrow> (Next_body_filter inb, None, inb)
        | Some ctx \<Rightarrow>
            if length (rc_ranges ctx) = 1 then
              (case ngx_http_range_singlepart_body r ctx inb of (res, ctx', bs) \<Rightarrow> (res, Some ctx', bs))
            else if ngx_buf_special buf then (Next_body_filter inb, Some ctx, inb)
            else (case ngx_http_range_test_overlapped ctx buf of
                    None \<Rightarrow> (Body_return NGX_ERROR, Some ctx, inb)
                  | Some ctx' \<Rightarrow> (Next_body_filter (ngx_http_range_multipart_body ctx' buf), Some ctx', inb))))"

section \<open>What the parser accepts\<close>

lemma off64_id: "- (2 ^ 63) \<le> x \<Longrightarrow> x < 2 ^ 63 \<Longrightarrow> off64 x = x"
  by (simp add: off64_def signed_take_bit_int_eq_self)

lemma off64_add: "off64 (off64 a + off64 b) = off64 (a + b)"
  by (simp add: off64_def signed_take_bit_add)

lemma off64_add_left: "off64 (off64 a + b) = off64 (a + b)"
  using off64_add[of a b] off64_add[of "off64 a" b] by (metis off64_add off64_def signed_take_bit_signed_take_bit min.idem)

lemma range_digits_read:
  assumes "list_all is_digit ds" "0 \<le> n" "base_value 10 digit_val n ds \<le> NGX_MAX_OFF_T_VALUE" "\<not> is_digit (cur rest)"
  shows "range_digits n (ds @ rest) = Some (base_value 10 digit_val n ds, rest)"
  using assms
proof (induction ds arbitrary: n)
  case Nil
  thus ?case by (cases rest) (simp_all add: cur_def)
next
  case (Cons c ds)
  have d: "0 \<le> digit_val c" "digit_val c \<le> 9" using Cons.prems(1) digit_val_range by auto
  have "\<forall>c\<in>set ds. 0 \<le> digit_val c" using Cons.prems(1) digit_val_range by (auto simp: list_all_iff)
  hence le: "n * 10 + digit_val c \<le> NGX_MAX_OFF_T_VALUE"
    using Cons.prems(2,3) d base_value_mono[of 10 "n * 10 + digit_val c" ds digit_val] by simp
  have "off64 (n * 10 + digit_val c) = n * 10 + digit_val c"
    by (rule off64_id) (use le d Cons.prems(2) in \<open>simp_all add: limit_simps\<close>)
  moreover have "\<not> (n \<ge> NGX_MAX_OFF_T_VALUE div 10 \<and> (n > NGX_MAX_OFF_T_VALUE div 10 \<or> digit_val c > NGX_MAX_OFF_T_VALUE mod 10))"
    using cutoff_dec[OF d, of NGX_MAX_OFF_T_VALUE n] le by simp
  ultimately show ?case using Cons d by simp
qed

definition dec :: "nat \<Rightarrow> u_char list" where
  "dec n = dec_digits n []"

lemma dec_digits_dec:
  "dec n \<noteq> []" "list_all is_digit (dec n)" "base_value 10 digit_val 0 (dec n) = int n"
  using dec_digits_value[of n] by (simp_all add: dec_def list_all_iff)

lemma dec_cur: "is_digit (cur (dec n @ rest))"
  using dec_digits_dec(1,2)[of n] by (cases "dec n") (simp_all add: cur_def)

lemma dec_read: "int n \<le> NGX_MAX_OFF_T_VALUE \<Longrightarrow> \<not> is_digit (cur rest) \<Longrightarrow> range_digits 0 (dec n @ rest) = Some (int n, rest)"
  using range_digits_read[of "dec n" 0 rest] dec_digits_dec[of n] by simp

text \<open>The syntax of the header: a list of ranges with any spaces where they are allowed.\<close>

datatype byte_range = Range_from nat | Range_between nat nat | Range_suffix nat

type_synonym spaced_range = "(nat \<times> nat \<times> nat \<times> nat) \<times> byte_range"

abbreviation sp :: "nat \<Rightarrow> u_char list" where
  "sp n \<equiv> replicate n SP"

fun range_text :: "spaced_range \<Rightarrow> u_char list" where
  "range_text ((i, j, k, l), Range_from a) = sp i @ dec a @ sp j @ bytes ''-'' @ sp k"
| "range_text ((i, j, k, l), Range_between a b) = sp i @ dec a @ sp j @ bytes ''-'' @ sp k @ dec b @ sp l"
| "range_text ((i, j, k, l), Range_suffix n) = sp i @ bytes ''-'' @ dec n @ sp l"

fun ranges_text :: "spaced_range list \<Rightarrow> u_char list" where
  "ranges_text [] = []"
| "ranges_text [x] = range_text x"
| "ranges_text (x # y # xs) = range_text x @ bytes '','' @ ranges_text (y # xs)"

fun range_numbers_ok :: "byte_range \<Rightarrow> bool" where
  "range_numbers_ok (Range_from a) = (int a \<le> NGX_MAX_OFF_T_VALUE)"
| "range_numbers_ok (Range_between a b) = (int a \<le> NGX_MAX_OFF_T_VALUE \<and> int b \<le> NGX_MAX_OFF_T_VALUE)"
| "range_numbers_ok (Range_suffix n) = (int n \<le> NGX_MAX_OFF_T_VALUE)"

text \<open>The first byte of a range in a content of length \<open>cl\<close>, and the one behind its end.\<close>

fun range_bounds :: "int \<Rightarrow> byte_range \<Rightarrow> int \<times> int" where
  "range_bounds cl (Range_from a) = (int a, cl)"
| "range_bounds cl (Range_between a b) = (int a, min (int b + 1) cl)"
| "range_bounds cl (Range_suffix n) = (cl - int n, cl)"

lemma cur_simps [simp]: "cur [] = 0" "cur (c # p) = c"
  by (simp_all add: cur_def)

lemma skip_sp [simp]: "skip_spaces (sp n @ p) = skip_spaces p"
  by (induction n) simp_all

lemma skip_none: "cur p \<noteq> SP \<Longrightarrow> skip_spaces p = p"
  by (cases p) simp_all

lemma not_digit [simp]: "\<not> is_digit 0" "\<not> is_digit SP" "\<not> is_digit 44" "\<not> is_digit 45"
  by (simp_all add: is_digit_def)

lemma cur_sp: "\<not> is_digit (cur p) \<Longrightarrow> \<not> is_digit (cur (sp n @ p))"
  by (cases n) simp_all

definition range_rest :: "u_char list \<Rightarrow> bool" where
  "range_rest p \<longleftrightarrow> cur p = 44 \<or> cur p = 0"

lemma range_rest_simps: "range_rest p \<Longrightarrow> skip_spaces p = p" "range_rest p \<Longrightarrow> \<not> is_digit (cur p)"
  by (auto simp: range_rest_def intro!: skip_none)

lemma digit_not: "is_digit c \<Longrightarrow> c \<noteq> SP \<and> c \<noteq> 44 \<and> c \<noteq> 45 \<and> c \<noteq> 0"
  by (auto simp: is_digit_def)

lemma range_last_text:
  assumes "int b \<le> NGX_MAX_OFF_T_VALUE" "range_rest rest" "0 \<le> cl" "cl \<le> NGX_MAX_OFF_T_VALUE"
  shows "range_last cl s suf (dec b @ sp l @ rest) =
     Some (if suf then (cl - int b, cl, rest) else (s, min (int b + 1) cl, rest))"
proof -
  have d: "range_digits 0 (dec b @ sp l @ rest) = Some (int b, sp l @ rest)"
    using dec_read[OF assms(1) cur_sp[OF range_rest_simps(2)[OF assms(2)]], of l] by simp
  have "off64 (cl - int b) = cl - int b" "off64 (cl - 1) = cl - 1" using assms(1,3,4) by (simp_all add: off64_id limit_simps)
  thus ?thesis
    using assms(2) d dec_cur[of b "sp l @ rest"] range_rest_simps(1)[OF assms(2)]
    by (auto simp: range_last_def range_rest_def Let_def)
qed

lemma range_item_text:
  assumes "range_numbers_ok x" "range_rest rest" "0 \<le> cl" "cl \<le> NGX_MAX_OFF_T_VALUE"
  shows "range_item cl (range_text (spaces, x) @ rest) = Some (fst (range_bounds cl x), snd (range_bounds cl x), rest)"
proof -
  obtain i j k l where s: "spaces = (i, j, k, l)" by (metis prod_cases4)
  have digits: "skip_spaces (dec a @ q) = dec a @ q" for a q
    using dec_cur[of a q] digit_not by (intro skip_none) auto
  have item: "range_item cl (sp i @ dec a @ sp j @ bytes ''-'' @ q) =
      (let p3 = skip_spaces q in if cur p3 = 44 \<or> cur p3 = 0 then Some (int a, cl, p3) else range_last cl (int a) False p3)"
    if "int a \<le> NGX_MAX_OFF_T_VALUE" for a q
    using that dec_cur[of a "sp j @ bytes ''-'' @ q"] digit_not dec_read[of a "sp j @ bytes ''-'' @ q"] cur_sp[of "bytes ''-'' @ q" j]
    by (auto simp: range_item_def Let_def digits)
  show ?thesis
  proof (cases x)
    case (Range_from a)
    thus ?thesis using item[of a "sp k @ rest"] assms(1,2) range_rest_simps(1)[OF assms(2)] s by (auto simp: range_rest_def Let_def)
  next
    case (Range_between a b)
    thus ?thesis
      using item[of a "sp k @ dec b @ sp l @ rest"] assms s dec_cur[of b "sp l @ rest"] digit_not range_last_text[of b rest cl "int a" False l]
      by (auto simp: Let_def digits)
  next
    case (Range_suffix n)
    thus ?thesis using range_last_text[of n rest cl 0 True l] assms s by (simp add: range_item_def Let_def)
  qed
qed

definition range_of :: "int \<Rightarrow> byte_range \<Rightarrow> http_range" where
  "range_of cl x = \<lparr>rg_start = fst (range_bounds cl x), rg_end = snd (range_bounds cl x), rg_content_range = []\<rparr>"

abbreviation range_nonempty :: "http_range \<Rightarrow> bool" where
  "range_nonempty rg \<equiv> rg_start rg < rg_end rg"

definition ranges_sat :: "int \<Rightarrow> spaced_range list \<Rightarrow> http_range list" where
  "ranges_sat cl xs = filter range_nonempty (map (\<lambda>x. range_of cl (snd x)) xs)"

definition ranges_size :: "http_range list \<Rightarrow> int" where
  "ranges_size rs = sum_list (map (\<lambda>rg. rg_end rg - rg_start rg) rs)"

lemma ranges_size_simps [simp]:
  "ranges_size [] = 0" "ranges_size (rg # rs) = rg_end rg - rg_start rg + ranges_size rs"
  by (simp_all add: ranges_size_def)

lemma ranges_sat_Cons:
  "ranges_sat cl (x # xs) = (if range_nonempty (range_of cl (snd x)) then [range_of cl (snd x)] else []) @ ranges_sat cl xs"
  by (simp add: ranges_sat_def)

text \<open>How the parser ends, for the ranges it has found; the size has wrapped.\<close>

definition range_verdict :: "int \<Rightarrow> nat \<Rightarrow> int \<Rightarrow> http_range list \<Rightarrow> http_range list \<Rightarrow> range_rc \<times> http_range list" where
  "range_verdict cl ranges s rs sat =
     (if ranges < length sat then (Range_declined, rs @ take (Suc ranges) sat)
      else (if rs @ sat = [] then Range_not_satisfiable
            else if off64 (s + ranges_size sat) > cl then Range_declined else Range_OK, rs @ sat))"

lemma range_verdict_Cons:
  "range_verdict cl (Suc n) s rs (rg # sat) = range_verdict cl n (s + (rg_end rg - rg_start rg)) (rs @ [rg]) sat"
  "range_verdict cl 0 s rs (rg # sat) = (Range_declined, rs @ [rg])"
  by (simp_all add: range_verdict_def add.assoc)

lemma range_loop_step:
  assumes "range_numbers_ok x" "range_rest rest" "0 \<le> cl" "cl \<le> NGX_MAX_OFF_T_VALUE"
  shows "range_loop cl (range_text (spaces, x) @ rest) ranges (off64 s) rs =
     (if range_nonempty (range_of cl x) \<and> ranges = 0 then (Range_declined, rs @ [range_of cl x])
      else let found = range_nonempty (range_of cl x);
               rs' = (if found then rs @ [range_of cl x] else rs);
               s' = (if found then s + (rg_end (range_of cl x) - rg_start (range_of cl x)) else s)
           in if cur rest \<noteq> 44 then range_verdict cl ranges s' rs' []
              else range_loop cl (tl rest) (if found then ranges - 1 else ranges) (off64 s') rs')"
proof -
  note item = range_item_text[OF assms, of spaces]
  show ?thesis
    by (subst range_loop.simps, unfold item) (simp add: range_of_def Let_def range_verdict_def off64_add)
qed

lemma range_verdict_Nil_ranges: "range_verdict cl m s rs [] = range_verdict cl n s rs []"
  by (simp add: range_verdict_def)

lemma range_loop_text:
  assumes "xs \<noteq> []" "list_all (\<lambda>x. range_numbers_ok (snd x)) xs" "0 \<le> cl" "cl \<le> NGX_MAX_OFF_T_VALUE"
  shows "range_loop cl (ranges_text xs) ranges (off64 s) rs = range_verdict cl ranges s rs (ranges_sat cl xs)"
  using assms(1,2)
proof (induction xs arbitrary: ranges s rs rule: ranges_text.induct)
  case (2 x)
  obtain spaces y where x: "x = (spaces, y)" by (cases x)
  have "range_loop cl (range_text x @ []) ranges (off64 s) rs = range_verdict cl ranges s rs (ranges_sat cl [x])"
    unfolding x using 2 assms(3,4)
    by (subst range_loop_step)
      (auto simp: x range_rest_def Let_def ranges_sat_def range_verdict_def)
  thus ?case by simp
next
  case (3 x y xs)
  obtain spaces z where x: "x = (spaces, z)" by (cases x)
  let ?rest = "bytes '','' @ ranges_text (y # xs)"
  have r: "range_rest ?rest" "cur ?rest = 44" "tl ?rest = ranges_text (y # xs)" by (simp_all add: range_rest_def)
  have ok: "range_numbers_ok z" "list_all (\<lambda>x. range_numbers_ok (snd x)) (y # xs)" using 3(3) x by simp_all
  note step = range_loop_step[OF ok(1) r(1) assms(3,4), of spaces ranges s rs, unfolded r(2,3)]
  show ?case
  proof (cases "range_nonempty (range_of cl z)")
    case True
    thus ?thesis
      using step 3(1)[OF _ ok(2)] x
      by (cases ranges) (simp_all add: ranges_sat_Cons[of cl "(spaces, z)" "y # xs"] range_verdict_Cons)
  next
    case False
    thus ?thesis using step 3(1)[OF _ ok(2)] x by (simp add: ranges_sat_Cons[of cl "(spaces, z)" "y # xs"])
  qed
qed simp

section \<open>Properties of the parser\<close>

text \<open>
  C32 (functional). The parser on every well-formed Range header, with any spaces: the ranges it returns are the satisfiable
  ones, in order, cut to the content; it declines more than the allowed number and a total larger than the content,
  where the total is a 64-bit signed number.
\<close>

theorem range_parse_exact:
  assumes "xs \<noteq> []" "list_all (\<lambda>x. range_numbers_ok (snd x)) xs"
    and "in_range r = Some (bytes ''bytes='' @ ranges_text xs)" "is_main r"
    and "0 \<le> content_length_n r" "content_length_n r \<le> NGX_MAX_OFF_T_VALUE"
    and "sat = ranges_sat (content_length_n r) xs"
  shows "(n < length sat \<and> fst (ngx_http_range_parse r mctx n) = Range_declined) \<or>
     (length sat \<le> n \<and> ngx_http_range_parse r mctx n =
       (if sat = [] then Range_not_satisfiable
        else if off64 (ranges_size sat) > content_length_n r then Range_declined else Range_OK, sat))"
  using range_loop_text[OF assms(1,2,5,6), of n 0 "[]"] assms(3,4,7)
  by (simp add: ngx_http_range_parse_def range_verdict_def off64_id not_less)

definition range_sample :: "u_char list \<Rightarrow> int \<Rightarrow> range_request" where
  "range_sample v cl = \<lparr>is_main = True, http_version = 1001, subrequest_ranges = False, allow_ranges = True, single_range = False,
     max_ranges = 10, in_range = Some v, in_if_range = None, out_status = 200, out_status_line = [], content_length_n = cl,
     content_offset = 0, last_modified_time = -1, out_etag = None, out_content_type = bytes ''text/plain'', content_type_len = 10,
     out_charset = [], out_headers = [], out_content_length = None, out_content_range = None, out_accept_ranges = None\<rparr>"

theorem range_parse_exact_witness:
  "ngx_http_range_parse (range_sample (bytes ''bytes='' @ ranges_text [((0, 0, 0, 0), Range_between 2 4), ((1, 0, 0, 0), Range_suffix 3)]) 100) None 10 =
     (Range_OK, [\<lparr>rg_start = 2, rg_end = 5, rg_content_range = []\<rparr>, \<lparr>rg_start = 97, rg_end = 100, rg_content_range = []\<rparr>])"
  using range_parse_exact[of "[((0, 0, 0, 0), Range_between 2 4), ((1, 0, 0, 0), Range_suffix 3)]"
      "range_sample (bytes ''bytes='' @ ranges_text [((0, 0, 0, 0), Range_between 2 4), ((1, 0, 0, 0), Range_suffix 3)]) 100" _ 10 None, OF _ _ _ _ _ _ refl]
  by (simp add: range_sample_def ranges_sat_def range_of_def limit_simps off64_id)

text \<open>Whatever the value is, the numbers the parser computes are in range.\<close>

lemma range_digits_range:
  assumes "range_digits n p = Some (v, p')" "0 \<le> n" "n \<le> NGX_MAX_OFF_T_VALUE"
  shows "0 \<le> v \<and> v \<le> NGX_MAX_OFF_T_VALUE"
  using assms
proof (induction p arbitrary: n)
  case (Cons c p)
  show ?case
  proof (cases "is_digit c")
    case True
    note d = digit_val_range[OF True]
    have "\<not> NGX_MAX_OFF_T_VALUE < n * 10 + digit_val c" "range_digits (off64 (n * 10 + digit_val c)) p = Some (v, p')"
      using Cons.prems(1) True cutoff_dec[of "digit_val c" NGX_MAX_OFF_T_VALUE n] d by (auto split: if_splits)
    moreover from this have "off64 (n * 10 + digit_val c) = n * 10 + digit_val c"
      using d Cons.prems(2) by (intro off64_id) (simp_all add: limit_simps)
    ultimately show ?thesis using Cons.IH[of "n * 10 + digit_val c"] d Cons.prems(2) by simp
  qed (use Cons.prems in simp)
qed simp

lemma range_last_range:
  assumes "range_last cl s suf p = Some (a, b, p')" "0 \<le> cl" "cl \<le> NGX_MAX_OFF_T_VALUE" "0 \<le> s" "s \<le> NGX_MAX_OFF_T_VALUE"
  shows "b \<le> cl \<and> cl - NGX_MAX_OFF_T_VALUE \<le> a \<and> a \<le> NGX_MAX_OFF_T_VALUE"
proof -
  obtain e p1 where e: "range_digits 0 p = Some (e, p1)"
    and ab: "a = (if suf then off64 (cl - e) else s)"
      "b = (if (if suf then off64 (cl - 1) else e) \<ge> cl then cl else (if suf then off64 (cl - 1) else e) + 1)"
    using assms(1) by (auto simp: range_last_def Let_def split: if_splits option.splits)
  have r: "0 \<le> e \<and> e \<le> NGX_MAX_OFF_T_VALUE" by (rule range_digits_range[OF e]) (simp_all add: limit_simps)
  hence "off64 (cl - e) = cl - e" "off64 (cl - 1) = cl - 1" using assms(2,3) by (simp_all add: off64_id limit_simps)
  thus ?thesis using ab r assms(2-5) by (auto split: if_splits)
qed

lemma range_item_range:
  assumes "range_item cl p = Some (a, b, p')" "0 \<le> cl" "cl \<le> NGX_MAX_OFF_T_VALUE"
  shows "b \<le> cl \<and> cl - NGX_MAX_OFF_T_VALUE \<le> a \<and> a \<le> NGX_MAX_OFF_T_VALUE"
proof (cases "cur (skip_spaces p) = c8 CHR ''-''")
  case True
  hence "range_last cl 0 True (tl (skip_spaces p)) = Some (a, b, p')" using assms(1) by (simp add: range_item_def Let_def)
  from range_last_range[OF this assms(2,3)] show ?thesis by (simp add: limit_simps)
next
  case False
  then obtain start p1 where d: "range_digits 0 (skip_spaces p) = Some (start, p1)"
    using assms(1) by (auto simp: range_item_def Let_def split: if_splits option.splits)
  have s: "0 \<le> start \<and> start \<le> NGX_MAX_OFF_T_VALUE" by (rule range_digits_range[OF d]) (simp_all add: limit_simps)
  consider "a = start" "b = cl" | "range_last cl start False (skip_spaces (tl (skip_spaces p1))) = Some (a, b, p')"
    using assms(1) False d by (auto simp: range_item_def Let_def split: if_splits)
  thus ?thesis
  proof cases
    case 1
    thus ?thesis using s assms(2,3) by simp
  next
    case 2
    from range_last_range[OF this assms(2,3)] s show ?thesis by simp
  qed
qed

definition range_in_content :: "int \<Rightarrow> http_range \<Rightarrow> bool" where
  "range_in_content cl rg \<longleftrightarrow> rg_start rg < rg_end rg \<and> rg_end rg \<le> cl \<and> cl - NGX_MAX_OFF_T_VALUE \<le> rg_start rg"

lemma range_loop_sound:
  assumes "range_loop cl p n (off64 (ranges_size rs)) rs = (Range_OK, rs')" "0 \<le> cl" "cl \<le> NGX_MAX_OFF_T_VALUE"
    and "list_all (range_in_content cl) rs"
  shows "rs' \<noteq> [] \<and> length rs' \<le> length rs + n \<and> list_all (range_in_content cl) rs' \<and> off64 (ranges_size rs') \<le> cl"
  using assms(1,4)
proof (induction "length p" arbitrary: p n rs rule: less_induct)
  case less
  obtain a b q where i: "range_item cl p = Some (a, b, q)"
    using less.prems(1) by (subst (asm) range_loop.simps) (auto split: option.splits)
  define rs1 where "rs1 = (if a < b then rs @ [\<lparr>rg_start = a, rg_end = b, rg_content_range = []\<rparr>] else rs)"
  have sz: "(if a < b then off64 (off64 (ranges_size rs) + off64 (b - a)) else off64 (ranges_size rs)) = off64 (ranges_size rs1)"
    by (simp add: off64_add rs1_def) (simp add: ranges_size_def)
  have all: "list_all (range_in_content cl) rs1"
    using less.prems(2) range_item_range[OF i assms(2,3)] by (simp add: range_in_content_def rs1_def)
  have len: "length rs1 = (if a < b then length rs + 1 else length rs)" by (simp add: rs1_def)
  note step = less.prems(1)[unfolded range_loop.simps[of cl p] i Let_def option.case prod.case sz, folded rs1_def]
  have n: "\<not> (a < b \<and> n = 0)" using step by (auto split: if_splits)
  note step1 = step[unfolded if_not_P[OF n]]
  show ?case
  proof (cases "cur q = c8 CHR '',''")
    case True
    hence "range_loop cl (tl q) (if a < b then n - 1 else n) (off64 (ranges_size rs1)) rs1 = (Range_OK, rs')"
      using step1 by simp
    moreover have "length (tl q) < length p" using range_item_next[OF i True] by simp
    ultimately have "rs' \<noteq> [] \<and> length rs' \<le> length rs1 + (if a < b then n - 1 else n) \<and> list_all (range_in_content cl) rs' \<and>
        off64 (ranges_size rs') \<le> cl" using less.hyps all by blast
    thus ?thesis using n len by (auto split: if_splits)
  next
    case False
    hence "rs' = rs1" "rs1 \<noteq> []" "off64 (ranges_size rs1) \<le> cl" using step1 by (auto split: if_splits)
    thus ?thesis using n all len by (auto split: if_splits)
  qed
qed

text \<open>
  C33 (safety). Whatever the Range header is, the accepted ranges are not empty, end within the content and are no more than
  allowed; if none starts before the content their sizes sum up to no more than the content, as long as the sum
  cannot exceed the largest file offset.
\<close>

theorem range_parse_sound:
  assumes "ngx_http_range_parse r mctx n = (Range_OK, rs)" "is_main r" "cl = content_length_n r"
    and "0 \<le> cl" "cl \<le> NGX_MAX_OFF_T_VALUE"
  shows "rs \<noteq> [] \<and> length rs \<le> n \<and> list_all (range_in_content cl) rs \<and>
     (list_all (\<lambda>rg. 0 \<le> rg_start rg) rs \<and> int (length rs) * cl \<le> NGX_MAX_OFF_T_VALUE \<longrightarrow> ranges_size rs \<le> cl)"
proof -
  have "range_loop cl (drop 6 (the (in_range r))) n (off64 (ranges_size [])) [] = (Range_OK, rs)"
    using assms(1-3) by (simp add: ngx_http_range_parse_def off64_id)
  from range_loop_sound[OF this assms(4,5)]
  have l: "rs \<noteq> []" "length rs \<le> n" "list_all (range_in_content cl) rs" "off64 (ranges_size rs) \<le> cl" by simp_all
  have "0 \<le> ranges_size rs \<and> ranges_size rs \<le> int (length rs) * cl" if "list_all (\<lambda>rg. 0 \<le> rg_start rg) rs"
    using that l(3) by (induction rs) (auto simp: range_in_content_def distrib_right)
  thus ?thesis using l by (auto simp: off64_id limit_simps)
qed

theorem range_parse_sound_witness:
  "\<exists>rs. ngx_http_range_parse (range_sample (bytes ''bytes=2-4'') 100) None 10 = (Range_OK, rs) \<and> list_all (range_in_content 100) rs"
proof -
  have "ngx_http_range_parse (range_sample (bytes ''bytes=2-4'') 100) None 10 = (Range_OK, [\<lparr>rg_start = 2, rg_end = 5, rg_content_range = []\<rparr>])"
    by (simp add: ngx_http_range_parse_def range_sample_def range_loop.simps range_item_def range_last_def Let_def is_digit_def
        digit_val_def limit_simps off64_id)
  from range_parse_sound[OF this, of 100] this show ?thesis by (simp add: range_sample_def limit_simps)
qed

section \<open>The filters together\<close>

text \<open>A request the header filter looks at the Range header of.\<close>

definition range_applies :: "range_request \<Rightarrow> bool" where
  "range_applies r \<longleftrightarrow> NGX_HTTP_VERSION_10 \<le> http_version r \<and> out_status r = NGX_HTTP_OK \<and> is_main r \<and> allow_ranges r \<and>
     \<not> single_range r \<and> max_ranges r \<noteq> 0 \<and> in_if_range r = None \<and> content_offset r = 0 \<and>
     0 \<le> content_length_n r \<and> content_length_n r \<le> NGX_MAX_OFF_T_VALUE"

lemma range_header_filter_applies:
  assumes "range_applies r" "in_range r = Some (bytes ''bytes='' @ v)" "v \<noteq> []"
  shows "ngx_http_range_header_filter boundary mctx r =
     (case ngx_http_range_parse r mctx (max_ranges r) of
        (Range_OK, ranges) \<Rightarrow>
          let ctx = \<lparr>rc_offset = 0, rc_boundary_header = [], rc_ranges = ranges\<rparr>;
              r1 = r\<lparr>out_status := NGX_HTTP_PARTIAL_CONTENT, out_status_line := []\<rparr>
          in if length ranges = 1 then Next_header_filter (ngx_http_range_singlepart_header r1 ctx) (Some ctx)
             else (case ngx_http_range_multipart_header boundary r1 ctx of (r2, ctx2) \<Rightarrow> Next_header_filter r2 (Some ctx2))
      | (Range_not_satisfiable, _) \<Rightarrow> Header_not_satisfiable (ngx_http_range_not_satisfiable r)
      | (Range_declined, _) \<Rightarrow> range_next r)"
proof -
  have "\<not> (length (bytes ''bytes='' @ v) < 7 \<or> ngx_strncasecmp (bytes ''bytes='' @ v) (bytes ''bytes='') 6 \<noteq> 0)"
    using assms(3) by (cases v) (simp_all add: eval_nat_numeral Let_def)
  moreover have "\<not> (http_version r < NGX_HTTP_VERSION_10 \<or> out_status r \<noteq> NGX_HTTP_OK \<or> (\<not> is_main r \<and> \<not> subrequest_ranges r) \<or>
         content_length_n r = -1 \<or> \<not> allow_ranges r)" "max_ranges r \<noteq> 0" "range_if_range_ok r" "\<not> single_range r" "content_offset r = 0"
    using assms(1) by (auto simp: range_applies_def range_if_range_ok_def)
  ultimately show ?thesis unfolding ngx_http_range_header_filter_def assms(2) option.case by (simp only: if_not_P not_not simp_thms if_False)
qed

text \<open>Two suffixes whose lengths sum up to \<open>2 ^ 63\<close>.\<close>

lemma range_overflow_parse:
  assumes "range_applies r" "in_range r = Some (bytes ''bytes='' @ bytes ''-'' @ dec n @ bytes '',-'' @ dec m)" "2 \<le> k"
    and "int n + int m = 2 ^ 63" "0 < m" "content_length_n r < int n" "0 < content_length_n r"
  shows "ngx_http_range_parse r mctx k =
     (Range_OK, [range_of (content_length_n r) (Range_suffix n), range_of (content_length_n r) (Range_suffix m)])"
proof -
  let ?xs = "[((0, 0, 0, 0), Range_suffix n), ((0, 0, 0, 0), Range_suffix m)]"
  have "range_loop (content_length_n r) (ranges_text ?xs) k (off64 0) [] = range_verdict (content_length_n r) k 0 [] (ranges_sat (content_length_n r) ?xs)"
    by (rule range_loop_text) (use assms in \<open>auto simp: limit_simps range_applies_def\<close>)
  moreover have "ranges_sat (content_length_n r) ?xs = [range_of (content_length_n r) (Range_suffix n), range_of (content_length_n r) (Range_suffix m)]"
    using assms(4-7) by (simp add: ranges_sat_def range_of_def)
  moreover have "off64 (int n + int m) = - (2 ^ 63)" unfolding assms(4) off64_def by simp
  ultimately show ?thesis
    using assms(1-3,7) by (simp add: ngx_http_range_parse_def range_verdict_def range_of_def off64_id range_applies_def)
qed

text \<open>
  C5 (error). The size of the ranges overflows: two suffixes, the first longer than the content, whose lengths sum up to
  \<open>2 ^ 63\<close>, are accepted, and for a response that is sent from a file the body filter sends bytes that lie before it in
  the file, for a cached response the header of the cache entry.
\<close>

theorem range_overflow_leak:
  assumes "range_applies r" "in_range r = Some (bytes ''bytes='' @ bytes ''-'' @ dec n @ bytes '',-'' @ dec m)" "2 \<le> max_ranges r"
    and "int n + int m = 2 ^ 63" "0 < m" "content_length_n r < int n" "0 < content_length_n r"
    and "b_in_file buf" "last_buf buf"
  shows "\<exists>r' ctx ctx' out. ngx_http_range_header_filter boundary mctx r = Next_header_filter r' (Some ctx) \<and>
     out_status r' = NGX_HTTP_PARTIAL_CONTENT \<and>
     ngx_http_range_body_filter r' (Some ctx) [buf] = (Next_body_filter out, ctx', [buf]) \<and>
     list_ex (\<lambda>b. b_in_file b \<and> b_file b = b_file buf \<and> file_pos b = file_pos buf - (int n - content_length_n r)) out"
proof -
  let ?rs = "[range_of (content_length_n r) (Range_suffix n), range_of (content_length_n r) (Range_suffix m)]"
  let ?ctx = "\<lparr>rc_offset = 0, rc_boundary_header = [], rc_ranges = ?rs\<rparr>"
  let ?r1 = "r\<lparr>out_status := NGX_HTTP_PARTIAL_CONTENT, out_status_line := []\<rparr>"
  obtain r2 ctx2 where m: "ngx_http_range_multipart_header boundary ?r1 ?ctx = (r2, ctx2)" by force
  have h: "ngx_http_range_header_filter boundary mctx r = Next_header_filter r2 (Some ctx2)"
    using range_header_filter_applies[OF assms(1,2)] range_overflow_parse[OF assms(1,2,3-7)] m by simp
  have ctx2: "rc_offset ctx2 = 0" "rc_ranges ctx2 = map (range_set_content_range (content_length_n r)) ?rs"
    and "out_status r2 = NGX_HTTP_PARTIAL_CONTENT"
    using m by (auto simp: ngx_http_range_multipart_header_def Let_def drop_content_length_def split: option.splits)
  let ?b = "range_data_buf buf (range_set_content_range (content_length_n r) (range_of (content_length_n r) (Range_suffix n)))"
  have b: "b_in_file ?b \<and> b_file ?b = b_file buf \<and> file_pos ?b = file_pos buf - (int n - content_length_n r)"
    using assms(8) by (simp add: range_data_buf_def range_set_content_range_def range_of_def Let_def)
  have "ngx_http_range_body_filter r2 (Some ctx2) [buf] =
      (Next_body_filter (ngx_http_range_multipart_body (ctx2\<lparr>rc_offset := ngx_buf_size buf\<rparr>) buf), Some (ctx2\<lparr>rc_offset := ngx_buf_size buf\<rparr>), [buf])"
    using ctx2 assms(8,9) by (simp add: ngx_http_range_body_filter_def ngx_buf_special_def ngx_http_range_test_overlapped_def)
  moreover have "?b \<in> set (ngx_http_range_multipart_body (ctx2\<lparr>rc_offset := ngx_buf_size buf\<rparr>) buf)"
    using ctx2(2) by (simp add: ngx_http_range_multipart_body_def range_part_def)
  ultimately show ?thesis using h b \<open>out_status r2 = _\<close> by (auto simp: list_ex_iff intro!: bexI[of _ ?b])
qed

theorem range_overflow_leak_witness:
  "\<exists>r' ctx ctx' out. ngx_http_range_header_filter 7 None (range_sample (bytes ''bytes='' @ bytes ''-'' @ dec 1600 @ bytes '',-'' @
       dec 9223372036854774208) 1000) = Next_header_filter r' (Some ctx) \<and>
     ngx_http_range_body_filter r' (Some ctx) [ngx_calloc_buf\<lparr>b_in_file := True, file_pos := 700, file_last := 1700, last_buf := True\<rparr>] =
       (Next_body_filter out, ctx', [ngx_calloc_buf\<lparr>b_in_file := True, file_pos := 700, file_last := 1700, last_buf := True\<rparr>]) \<and>
     list_ex (\<lambda>b. file_pos b = 100) out"
proof -
  let ?r = "range_sample (bytes ''bytes='' @ bytes ''-'' @ dec 1600 @ bytes '',-'' @ dec 9223372036854774208) 1000"
  let ?b = "ngx_calloc_buf\<lparr>b_in_file := True, file_pos := 700, file_last := 1700, last_buf := True\<rparr>"
  have "range_applies ?r" "in_range ?r = Some (bytes ''bytes='' @ bytes ''-'' @ dec 1600 @ bytes '',-'' @ dec 9223372036854774208)"
     "2 \<le> max_ranges ?r" "content_length_n ?r = 1000"
    by (simp_all add: range_applies_def range_sample_def limit_simps)
  with range_overflow_leak[of ?r 1600 9223372036854774208 ?b 7 None] obtain r' ctx ctx' out where
    "ngx_http_range_header_filter 7 None ?r = Next_header_filter r' (Some ctx)"
    "ngx_http_range_body_filter r' (Some ctx) [?b] = (Next_body_filter out, ctx', [?b])"
    and l: "list_ex (\<lambda>b. b_in_file b \<and> b_file b = b_file ?b \<and> file_pos b = file_pos ?b - (int 1600 - 1000)) out"
    by auto
  moreover have "list_ex (\<lambda>b. file_pos b = 100) out" using l by (auto simp: list_ex_iff)
  ultimately show ?thesis by blast
qed

section \<open>The bytes a chain stands for\<close>

definition segment :: "int \<Rightarrow> int \<Rightarrow> 'a list \<Rightarrow> 'a list" where
  "segment a b xs = take (nat (b - a)) (drop (nat a) xs)"

definition buf_bytes :: "ngx_buf \<Rightarrow> u_char list" where
  "buf_bytes b = (if ngx_buf_in_memory b then segment (b_pos b) (b_last b) (b_block b)
     else if b_in_file b then segment (file_pos b) (file_last b) (b_file b) else [])"

text \<open>The pointers of a buffer are in order and within its memory or file; a buffer without data is empty.\<close>

definition buf_ok :: "ngx_buf \<Rightarrow> bool" where
  "buf_ok b \<longleftrightarrow> (if ngx_buf_in_memory b then 0 \<le> b_pos b \<and> b_pos b \<le> b_last b \<and> b_last b \<le> int (length (b_block b))
     else 0 \<le> file_pos b \<and> file_pos b \<le> file_last b \<and> (if b_in_file b then file_last b \<le> int (length (b_file b)) else file_pos b = file_last b))"

abbreviation chain_bytes :: "ngx_buf list \<Rightarrow> u_char list" where
  "chain_bytes bs \<equiv> concat (map buf_bytes bs)"

lemma segment_length: "0 \<le> a \<Longrightarrow> a \<le> b \<Longrightarrow> b \<le> int (length xs) \<Longrightarrow> int (length (segment a b xs)) = b - a"
  by (simp add: segment_def)

lemma segment_segment:
  assumes "0 \<le> a" "0 \<le> c" "c \<le> d" "d \<le> b - a"
  shows "segment c d (segment a b xs) = segment (a + c) (a + d) xs"
  using assms by (simp add: segment_def drop_take take_take nat_add_distrib min_def add.commute nat_diff_distrib)

lemma buf_bytes_length: "buf_ok b \<Longrightarrow> int (length (buf_bytes b)) = ngx_buf_size b"
  by (auto simp: buf_ok_def buf_bytes_def ngx_buf_size_def segment_length split: if_splits)

lemma range_cut:
  assumes "buf_ok b" "0 \<le> m" "0 \<le> n" "m + n \<le> ngx_buf_size b"
  shows "buf_ok (range_cut_head m b)" "ngx_buf_size (range_cut_head m b) = ngx_buf_size b - m"
    "buf_bytes (range_cut_head m b) = drop (nat m) (buf_bytes b)"
    "buf_ok (range_cut_tail n b)" "buf_bytes (range_cut_tail n b) = take (nat (ngx_buf_size b - n)) (buf_bytes b)"
proof -
  have mem: "ngx_buf_in_memory (range_cut_head m b) = ngx_buf_in_memory b" "ngx_buf_in_memory (range_cut_tail n b) = ngx_buf_in_memory b"
    by (simp_all add: range_cut_head_def range_cut_tail_def ngx_buf_in_memory_def Let_def)
  show "buf_ok (range_cut_head m b)" "ngx_buf_size (range_cut_head m b) = ngx_buf_size b - m" "buf_ok (range_cut_tail n b)"
    using assms unfolding buf_ok_def ngx_buf_size_def mem
    by (auto simp: range_cut_head_def range_cut_tail_def Let_def ngx_buf_in_memory_def split: if_splits)
  have d: "segment (a + m) c xs = drop (nat m) (segment a c xs)" if "0 \<le> a" for a c and xs :: "u_char list"
  proof -
    have "nat (c - (a + m)) = nat (c - a) - nat m" using assms(2) by simp
    thus ?thesis using that assms(2) by (simp add: segment_def drop_take nat_add_distrib add.commute)
  qed
  have t: "segment a (c - n) xs = take (nat (c - a - n)) (segment a c xs)" for a c and xs :: "u_char list"
    using assms(3) by (simp add: segment_def min_def algebra_simps)
  show "buf_bytes (range_cut_head m b) = drop (nat m) (buf_bytes b)"
    using assms(1) d unfolding buf_ok_def buf_bytes_def mem
    by (auto simp: range_cut_head_def Let_def ngx_buf_in_memory_def split: if_splits)
  show "buf_bytes (range_cut_tail n b) = take (nat (ngx_buf_size b - n)) (buf_bytes b)"
    using assms(1) t unfolding buf_ok_def buf_bytes_def ngx_buf_size_def mem
    by (auto simp: range_cut_tail_def Let_def ngx_buf_in_memory_def split: if_splits)
qed

text \<open>The part of the bytes from offset \<open>o\<close> on that lies in a range.\<close>

definition portion :: "http_range \<Rightarrow> int \<Rightarrow> 'a list \<Rightarrow> 'a list" where
  "portion rg ofs xs = drop (nat (rg_start rg - ofs)) (take (nat (rg_end rg - ofs)) xs)"

lemma portion_append: "portion rg ofs (xs @ ys) = portion rg ofs xs @ portion rg (ofs + int (length xs)) ys"
proof (cases "nat (rg_end rg - ofs) < length xs")
  case False
  hence "nat (rg_end rg - (ofs + int (length xs))) = nat (rg_end rg - ofs) - length xs"
    "nat (rg_start rg - (ofs + int (length xs))) = nat (rg_start rg - ofs) - length xs" by simp_all
  thus ?thesis using False by (simp add: portion_def)
qed (simp add: portion_def)

lemma portion_after: "rg_end rg \<le> ofs \<Longrightarrow> portion rg ofs xs = []"
  by (simp add: portion_def)

lemma special_bytes: "ngx_buf_special b \<Longrightarrow> buf_bytes b = []"
  by (simp add: ngx_buf_special_def buf_bytes_def)

lemma range_cut_both:
  assumes "buf_ok b" "ofs < rg_end rg" "rg_start rg < ofs + ngx_buf_size b" "rg_start rg \<le> rg_end rg"
    and "b1 = (if ofs < rg_start rg then range_cut_head (rg_start rg - ofs) b else b)"
  shows "buf_ok b1" "buf_bytes b1 = drop (nat (rg_start rg - ofs)) (buf_bytes b)"
    "rg_end rg \<le> ofs + ngx_buf_size b \<Longrightarrow>
       buf_bytes (range_cut_tail (ofs + ngx_buf_size b - rg_end rg) b1) = portion rg ofs (buf_bytes b)"
proof -
  let ?m = "max 0 (rg_start rg - ofs)"
  note head = range_cut[OF assms(1), of ?m 0]
  have b1: "buf_ok b1 \<and> buf_bytes b1 = drop (nat (rg_start rg - ofs)) (buf_bytes b) \<and> ngx_buf_size b1 = ngx_buf_size b - ?m"
    using head assms by (auto simp: max_def)
  thus "buf_ok b1" "buf_bytes b1 = drop (nat (rg_start rg - ofs)) (buf_bytes b)" by simp_all
  assume e: "rg_end rg \<le> ofs + ngx_buf_size b"
  have "buf_bytes (range_cut_tail (ofs + ngx_buf_size b - rg_end rg) b1) =
      take (nat (ngx_buf_size b1 - (ofs + ngx_buf_size b - rg_end rg))) (buf_bytes b1)"
    using range_cut(5)[of b1 0 "ofs + ngx_buf_size b - rg_end rg"] b1 e assms(2,4) by (auto simp: max_def)
  also have "\<dots> = take (nat (rg_end rg - ofs) - nat (rg_start rg - ofs)) (drop (nat (rg_start rg - ofs)) (buf_bytes b))"
  proof -
    have "nat (ngx_buf_size b1 - (ofs + ngx_buf_size b - rg_end rg)) = nat (rg_end rg - ofs) - nat (rg_start rg - ofs)"
      using b1 assms(2,4) by (auto simp: max_def)
    thus ?thesis using b1 by simp
  qed
  finally show "buf_bytes (range_cut_tail (ofs + ngx_buf_size b - rg_end rg) b1) = portion rg ofs (buf_bytes b)"
    by (simp add: portion_def drop_take)
qed

lemma range_single_bytes:
  assumes "range_single_loop main rg ofs bufs = (ofs', bs, out)" "list_all buf_ok bufs" "rg_start rg \<le> rg_end rg"
  shows "chain_bytes out = portion rg ofs (chain_bytes bufs) \<and> (ofs' = ofs + int (length (chain_bytes bufs)) \<or> rg_end rg \<le> ofs')"
  using assms(1,2)
proof (induction bufs arbitrary: ofs ofs' bs out)
  case Nil
  thus ?case by (simp add: portion_def)
next
  case (Cons b bufs)
  have ok: "buf_ok b" "list_all buf_ok bufs" using Cons.prems(2) by simp_all
  note len = buf_bytes_length[OF ok(1)]
  obtain o1 bs1 out1 where l: "range_single_loop main rg (ofs + ngx_buf_size b) bufs = (o1, bs1, out1)" by (metis prod_cases3)
  note IH = Cons.IH[OF l ok(2)]
  note app = portion_append[of rg ofs "buf_bytes b" "chain_bytes bufs", unfolded len]
  let ?b1 = "if ofs < rg_start rg then range_cut_head (rg_start rg - ofs) b else b"
  consider (special) "ngx_buf_special b"
    | (skip) "\<not> ngx_buf_special b" "rg_end rg \<le> ofs \<or> ofs + ngx_buf_size b \<le> rg_start rg"
    | (tail) "\<not> ngx_buf_special b" "ofs < rg_end rg" "rg_start rg < ofs + ngx_buf_size b" "rg_end rg \<le> ofs + ngx_buf_size b"
    | (mid) "\<not> ngx_buf_special b" "ofs < rg_end rg" "rg_start rg < ofs + ngx_buf_size b" "ofs + ngx_buf_size b < rg_end rg"
    by linarith
  thus ?case
  proof cases
    case special
    hence "ofs' = o1" "out = b # out1" using Cons.prems(1) l by (auto simp: Let_def)
    moreover have "ngx_buf_size b = 0" using len special_bytes[OF special] by simp
    ultimately show ?thesis using IH special_bytes[OF special] by simp
  next
    case skip
    hence "ofs' = o1" "out = out1" using Cons.prems(1) l by (auto simp: Let_def)
    moreover have "portion rg ofs (buf_bytes b) = []" using skip(2) len by (auto simp: portion_def)
    ultimately show ?thesis using IH app len[symmetric] by (simp add: add.assoc)
  next
    case tail
    let ?b2 = "(range_cut_tail (ofs + ngx_buf_size b - rg_end rg) ?b1)\<lparr>last_buf := main, last_in_chain := True\<rparr>"
    have r: "ofs' = ofs + ngx_buf_size b" "out = [?b2]" using Cons.prems(1) tail by (auto simp: Let_def)
    have "buf_bytes ?b2 = buf_bytes (range_cut_tail (ofs + ngx_buf_size b - rg_end rg) ?b1)"
      by (simp add: buf_bytes_def ngx_buf_in_memory_def)
    thus ?thesis
      using range_cut_both(3)[OF ok(1) tail(2,3) assms(3) refl tail(4)] app portion_after[OF tail(4), of "chain_bytes bufs"] r tail(4) by simp
  next
    case mid
    hence r: "ofs' = o1" "out = ?b1 # out1" using Cons.prems(1) l by (auto simp: Let_def)
    have "nat (rg_end rg - ofs) \<ge> length (buf_bytes b)" using mid(4) len by simp
    hence "buf_bytes ?b1 = portion rg ofs (buf_bytes b)"
      using range_cut_both(2)[OF ok(1) mid(2,3) assms(3) refl] by (simp add: portion_def)
    thus ?thesis using r IH app len[symmetric] by (simp add: add.assoc)
  qed
qed

text \<open>The bytes the body filter passes on, over all its calls for a response.\<close>

fun range_body_stream :: "range_request \<Rightarrow> range_ctx option \<Rightarrow> ngx_buf list list \<Rightarrow> u_char list" where
  "range_body_stream r octx [] = []"
| "range_body_stream r octx (c # cs) =
     (case ngx_http_range_body_filter r octx c of (res, octx', bs) \<Rightarrow>
       (case res of Next_body_filter out \<Rightarrow> chain_bytes out | Body_return _ \<Rightarrow> []) @ range_body_stream r octx' cs)"

lemma range_single_offset:
  assumes "range_single_loop main rg ofs bufs = (ofs', bs, out)" "list_all buf_ok bufs"
  shows "ofs' \<le> ofs + int (length (chain_bytes bufs))"
  using assms
proof (induction bufs arbitrary: ofs ofs' bs out)
  case (Cons b bufs)
  have len: "ngx_buf_size b = int (length (buf_bytes b))" using buf_bytes_length[of b] Cons.prems(2) by simp
  obtain o1 bs1 out1 where l: "range_single_loop main rg (ofs + ngx_buf_size b) bufs = (o1, bs1, out1)" by (metis prod_cases3)
  have "ofs' = o1 \<or> ofs' = ofs + ngx_buf_size b" using Cons.prems(1) l by (auto simp: Let_def split: if_splits)
  thus ?case using Cons.IH[OF l] Cons.prems(2) len by auto
qed simp

lemma range_body_stream_single:
  assumes "rc_ranges ctx = [rg]" "list_all (list_all buf_ok) cs" "rg_start rg \<le> rg_end rg"
  shows "range_body_stream r (Some ctx) cs = portion rg (rc_offset ctx) (chain_bytes (concat cs))"
  using assms(1,2)
proof (induction cs arbitrary: ctx)
  case Nil
  thus ?case by (simp add: portion_def)
next
  case (Cons c cs)
  obtain o1 bs out where l: "range_single_loop (is_main r) rg (rc_offset ctx) c = (o1, bs, out)" by (metis prod_cases3)
  have ok: "list_all buf_ok c" "list_all (list_all buf_ok) cs" using Cons.prems(2) by simp_all
  note one = range_single_bytes[OF l ok(1) assms(3)]
  note IH = Cons.IH[of "ctx\<lparr>rc_offset := o1\<rparr>", OF _ ok(2)]
  have "range_body_stream r (Some ctx) (c # cs) = chain_bytes out @ range_body_stream r (Some (ctx\<lparr>rc_offset := o1\<rparr>)) cs"
    using l Cons.prems(1) by (cases c) (auto simp: ngx_http_range_body_filter_def ngx_http_range_singlepart_body_def)
  also have "\<dots> = portion rg (rc_offset ctx) (chain_bytes c) @ portion rg o1 (chain_bytes (concat cs))"
    using one IH Cons.prems(1) by simp
  also have "portion rg o1 (chain_bytes (concat cs)) = portion rg (rc_offset ctx + int (length (chain_bytes c))) (chain_bytes (concat cs))"
  proof (cases "o1 = rc_offset ctx + int (length (chain_bytes c))")
    case False
    hence "rg_end rg \<le> o1" using one by simp
    moreover have "o1 \<le> rc_offset ctx + int (length (chain_bytes c))" by (rule range_single_offset[OF l ok(1)])
    ultimately show ?thesis by (simp add: portion_after)
  qed simp
  finally show ?case by (simp add: portion_append)
qed

lemma sprintf_dec: "n < 2 ^ 64 \<Longrightarrow> ngx_sprintf_num sprintf_room n z 0 0 = dec n"
  using dec_digits_length[of 20 n] by (simp add: ngx_sprintf_num_def dec_def sprintf_room_def Let_def)

lemma sprintf_off_dec: "0 \<le> x \<Longrightarrow> x \<le> NGX_MAX_OFF_T_VALUE \<Longrightarrow> sprintf_off x = dec (nat x)"
  by (simp add: sprintf_off_def sprintf_dec limit_simps nat_less_iff)

lemma sprintf_boundary_length: "length (sprintf_boundary n) = NGX_ATOMIC_T_LEN"
proof -
  have "unat n < 2 ^ 64" using unsigned_less[of n] by simp
  hence "length (dec_digits (unat n) []) \<le> 20" using dec_digits_length[of 20 "unat n"] by simp
  thus ?thesis by (simp add: sprintf_boundary_def ngx_sprintf_num_def sprintf_room_def Let_def)
qed

lemma drop_content_length_keeps [simp]:
  "out_status (drop_content_length r) = out_status r" "content_length_n (drop_content_length r) = content_length_n r"
  "content_offset (drop_content_length r) = content_offset r" "out_content_range (drop_content_length r) = out_content_range r"
  "is_main (drop_content_length r) = is_main r"
  by (simp_all add: drop_content_length_def split: option.split)

lemma drop_content_length_header:
  "j < length (out_headers r) \<Longrightarrow> he_key (out_headers (drop_content_length r) ! j) = he_key (out_headers r ! j) \<and>
     he_value (out_headers (drop_content_length r) ! j) = he_value (out_headers r ! j)"
  by (cases "out_content_length r"; cases "out_content_length r = Some j") (simp_all add: drop_content_length_def)

lemma range_value_nonempty: "xs \<noteq> [] \<Longrightarrow> ranges_text xs \<noteq> []"
proof -
  have "range_text x \<noteq> []" for x by (cases x rule: range_text.cases) simp_all
  thus "xs \<noteq> [] \<Longrightarrow> ranges_text xs \<noteq> []" by (cases xs rule: ranges_text.cases) simp_all
qed

lemma portion_segment: "0 \<le> rg_start rg \<Longrightarrow> rg_start rg \<le> rg_end rg \<Longrightarrow> portion rg 0 xs = segment (rg_start rg) (rg_end rg) xs"
  by (simp add: portion_def segment_def drop_take nat_diff_distrib)

text \<open>
  C2 (functional). A single range from the header of the request to the bytes of the response: the response is partial,
  its Content-Range and length are those of the range, and, in whatever buffers and calls the body passes the filter,
  exactly the bytes of the range pass on.
\<close>

theorem range_single_response:
  assumes "range_applies r" "in_range r = Some (bytes ''bytes='' @ ranges_text [(spaces, x)])" "range_numbers_ok x"
    and "range_bounds (content_length_n r) x = (s, e)" "0 \<le> s" "s < e"
    and "list_all (list_all buf_ok) calls" "body = chain_bytes (concat calls)" "int (length body) = content_length_n r"
  shows "\<exists>r' ctx i. ngx_http_range_header_filter boundary mctx r = Next_header_filter r' (Some ctx) \<and>
     out_status r' = NGX_HTTP_PARTIAL_CONTENT \<and> out_content_range r' = Some i \<and>
     he_value (out_headers r' ! i) = bytes ''bytes '' @ dec (nat s) @ bytes ''-'' @ dec (nat (e - 1)) @ bytes ''/'' @ dec (length body) \<and>
     range_body_stream r' (Some ctx) calls = segment s e body \<and> content_length_n r' = int (length (segment s e body))"
proof -
  let ?cl = "content_length_n r" and ?rg = "\<lparr>rg_start = s, rg_end = e, rg_content_range = []\<rparr>"
  let ?ctx = "\<lparr>rc_offset = 0, rc_boundary_header = [], rc_ranges = [?rg]\<rparr>"
  let ?r1 = "r\<lparr>out_status := NGX_HTTP_PARTIAL_CONTENT, out_status_line := []\<rparr>"
  have cl: "0 \<le> ?cl" "?cl \<le> NGX_MAX_OFF_T_VALUE" "max_ranges r \<noteq> 0" "is_main r" using assms(1) by (simp_all add: range_applies_def)
  have e: "e \<le> ?cl" using assms(4) by (cases x) (simp_all add: min_def split: if_splits)
  have o: "off64 (e - s) = e - s" "off64 (e - 1) = e - 1" "off64 0 = 0"
    using assms(5,6) e cl by (simp_all add: off64_id limit_simps)
  have "range_loop ?cl (ranges_text [(spaces, x)]) (max_ranges r) (off64 0) [] = range_verdict ?cl (max_ranges r) 0 [] (ranges_sat ?cl [(spaces, x)])"
    by (rule range_loop_text) (use assms(3) cl in simp_all)
  moreover have "ranges_sat ?cl [(spaces, x)] = [?rg]" using assms(4,6) by (simp add: ranges_sat_def range_of_def)
  ultimately have "ngx_http_range_parse r mctx (max_ranges r) = (Range_OK, [?rg])"
    using assms(2,5) e cl o by (simp add: ngx_http_range_parse_def range_verdict_def)
  hence h: "ngx_http_range_header_filter boundary mctx r = Next_header_filter (ngx_http_range_singlepart_header ?r1 ?ctx) (Some ?ctx)"
    using range_header_filter_applies[OF assms(1,2) range_value_nonempty] by (simp add: Let_def)
  let ?r' = "ngx_http_range_singlepart_header ?r1 ?ctx"
  have out: "out_status ?r' = NGX_HTTP_PARTIAL_CONTENT" "out_content_range ?r' = Some (length (out_headers r))" "content_length_n ?r' = e - s"
    using cl(4) o by (simp_all add: ngx_http_range_singlepart_header_def Let_def push_header_def)
  have val: "he_value (out_headers ?r' ! length (out_headers r)) =
      bytes ''bytes '' @ sprintf_off s @ bytes ''-'' @ sprintf_off (e - 1) @ bytes ''/'' @ sprintf_off ?cl"
    using cl(4) o drop_content_length_header[of "length (out_headers r)"]
    by (simp add: ngx_http_range_singlepart_header_def Let_def push_header_def)
  have "range_body_stream ?r' (Some ?ctx) calls = segment s e body"
    using range_body_stream_single[of ?ctx ?rg calls] assms(5-8) portion_segment[of ?rg body] by simp
  moreover have "int (length (segment s e body)) = e - s" using segment_length[of s e body] assms(5,6,9) e by simp
  moreover have "sprintf_off s = dec (nat s)" "sprintf_off (e - 1) = dec (nat (e - 1))" "sprintf_off ?cl = dec (length body)"
    using assms(5,6,9) e cl sprintf_off_dec by (auto simp flip: assms(9))
  ultimately show ?thesis using h out val by auto
qed

definition range_sample_buf :: "string \<Rightarrow> ngx_buf" where
  "range_sample_buf s = (range_memory_buf (bytes s))\<lparr>b_memory := True\<rparr>"

theorem range_single_response_witness:
  "\<exists>r' ctx. ngx_http_range_header_filter 7 None (range_sample (bytes ''bytes='' @ ranges_text [((0, 0, 0, 0), Range_between 2 4)]) 8) =
       Next_header_filter r' (Some ctx) \<and>
     range_body_stream r' (Some ctx) [[range_sample_buf ''abc''], [range_sample_buf ''def'', range_sample_buf ''gh'']] = bytes ''cde''"
proof -
  let ?r = "range_sample (bytes ''bytes='' @ ranges_text [((0, 0, 0, 0), Range_between 2 4)]) 8"
  let ?calls = "[[range_sample_buf ''abc''], [range_sample_buf ''def'', range_sample_buf ''gh'']]"
  have b: "chain_bytes (concat ?calls) = bytes ''abcdefgh''" "list_all (list_all buf_ok) ?calls"
    by (simp_all add: range_sample_buf_def range_memory_buf_def ngx_calloc_buf_def buf_bytes_def buf_ok_def ngx_buf_in_memory_def segment_def)
  have ap: "range_applies ?r" "in_range ?r = Some (bytes ''bytes='' @ ranges_text [((0, 0, 0, 0), Range_between 2 4)])"
    "range_numbers_ok (Range_between 2 4)" "range_bounds (content_length_n ?r) (Range_between 2 4) = (2, 5)"
    "int (length (bytes ''abcdefgh'')) = content_length_n ?r" "(0 :: int) \<le> 2" "(2 :: int) < 5"
    by (simp_all add: range_applies_def range_sample_def limit_simps)
  have "segment 2 5 (bytes ''abcdefgh'') = bytes ''cde''" by (simp add: segment_def)
  with range_single_response[OF ap(1-4,6,7) b(2) b(1)[symmetric] ap(5), of 7 None] show ?thesis by (simp only:) blast
qed

section \<open>Several ranges\<close>

lemma range_data_bytes:
  assumes "buf_ok buf" "0 \<le> rg_start rg" "rg_start rg \<le> rg_end rg" "rg_end rg \<le> ngx_buf_size buf"
  shows "buf_bytes (range_data_buf buf rg) = segment (rg_start rg) (rg_end rg) (buf_bytes buf)"
proof -
  have mem: "ngx_buf_in_memory (range_data_buf buf rg) = ngx_buf_in_memory buf"
    by (simp add: range_data_buf_def ngx_buf_in_memory_def Let_def)
  show ?thesis
  proof (cases "ngx_buf_in_memory buf")
    case True
    hence "0 \<le> b_pos buf" "rg_end rg \<le> b_last buf - b_pos buf" using assms(1,4) by (simp_all add: buf_ok_def ngx_buf_size_def)
    moreover have "b_pos (range_data_buf buf rg) = b_pos buf + rg_start rg" "b_last (range_data_buf buf rg) = b_pos buf + rg_end rg"
      "b_block (range_data_buf buf rg) = b_block buf" using True by (simp_all add: range_data_buf_def Let_def)
    ultimately show ?thesis using True mem assms(2,3) by (simp add: buf_bytes_def segment_segment)
  next
    case False
    hence "0 \<le> file_pos buf" "rg_end rg \<le> file_last buf - file_pos buf" using assms(1,4) by (auto simp: buf_ok_def ngx_buf_size_def)
    moreover have "b_in_file (range_data_buf buf rg) = b_in_file buf" "b_file (range_data_buf buf rg) = b_file buf"
      "b_in_file buf \<Longrightarrow> file_pos (range_data_buf buf rg) = file_pos buf + rg_start rg \<and> file_last (range_data_buf buf rg) = file_pos buf + rg_end rg"
      using False by (simp_all add: range_data_buf_def Let_def)
    ultimately show ?thesis using False mem assms(2,3) by (simp add: buf_bytes_def segment_segment) (simp add: segment_def)
  qed
qed

lemma range_memory_bytes:
  "buf_bytes ((range_memory_buf s)\<lparr>b_memory := True\<rparr>) = s" "buf_bytes ((range_memory_buf s)\<lparr>b_temporary := True\<rparr>) = s"
  "buf_bytes ((range_memory_buf s)\<lparr>b_temporary := True, last_buf := True\<rparr>) = s"
  by (simp_all add: range_memory_buf_def buf_bytes_def ngx_buf_in_memory_def segment_def)

definition range_within :: "int \<Rightarrow> http_range \<Rightarrow> bool" where
  "range_within cl rg \<longleftrightarrow> 0 \<le> rg_start rg \<and> rg_start rg < rg_end rg \<and> rg_end rg \<le> cl"

text \<open>The body of a multipart response: the parts, each with its header, and the last boundary.\<close>

definition multipart_bytes :: "u_char list \<Rightarrow> u_char list \<Rightarrow> http_range list \<Rightarrow> u_char list \<Rightarrow> u_char list" where
  "multipart_bytes bh boundary rs body =
     concat (map (\<lambda>rg. bh @ rg_content_range rg @ segment (rg_start rg) (rg_end rg) body) rs) @
     CRLF @ bytes ''--'' @ boundary @ bytes ''--'' @ CRLF"

lemma range_multipart_bytes:
  assumes "list_all (range_within (ngx_buf_size buf)) (rc_ranges ctx)" "buf_ok buf"
    and "rc_boundary_header ctx = CRLF @ bytes ''--'' @ boundary @ rest" "length boundary = NGX_ATOMIC_T_LEN"
  shows "chain_bytes (ngx_http_range_multipart_body ctx buf) =
     multipart_bytes (rc_boundary_header ctx) boundary (rc_ranges ctx) (buf_bytes buf)"
proof -
  have "chain_bytes (concat (map (range_part ctx buf) rs)) =
      concat (map (\<lambda>rg. rc_boundary_header ctx @ rg_content_range rg @ segment (rg_start rg) (rg_end rg) (buf_bytes buf)) rs)"
    if "list_all (range_within (ngx_buf_size buf)) rs" for rs
    using that range_data_bytes[OF assms(2)]
    by (induction rs) (simp_all add: range_part_def range_memory_bytes range_within_def)
  moreover have "take (length CRLF + 2 + NGX_ATOMIC_T_LEN) (rc_boundary_header ctx) = CRLF @ bytes ''--'' @ boundary"
    using assms(3,4) by (simp add: CRLF_def)
  ultimately show ?thesis
    using assms(1) by (simp add: ngx_http_range_multipart_body_def multipart_bytes_def range_memory_bytes del: bytes_simps)
qed

lemma range_parts_len_sum:
  assumes "list_all (range_within cl) rs" "cl \<le> NGX_MAX_OFF_T_VALUE"
  shows "range_parts_len bh rs len = len + word_of_int (sum_list (map (\<lambda>rg. int bh + int (length (rg_content_range rg)) + (rg_end rg - rg_start rg)) rs))"
  using assms(1)
proof (induction rs arbitrary: len)
  case (Cons rg rs)
  have "off64 (rg_end rg - rg_start rg) = rg_end rg - rg_start rg"
    using Cons.prems assms(2) by (intro off64_id) (simp_all add: range_within_def limit_simps)
  hence "range_parts_len bh (rg # rs) len = range_parts_len bh rs
      (len + word_of_nat bh + word_of_nat (length (rg_content_range rg)) + word_of_int (rg_end rg - rg_start rg))" by simp
  also have "\<dots> = len + word_of_nat bh + word_of_nat (length (rg_content_range rg)) + word_of_int (rg_end rg - rg_start rg) +
      word_of_int (sum_list (map (\<lambda>rg. int bh + int (length (rg_content_range rg)) + (rg_end rg - rg_start rg)) rs))"
    by (rule Cons.IH) (use Cons.prems in simp)
  finally show ?case by (simp add: algebra_simps)
qed simp

lemma multipart_length:
  assumes "list_all (range_within (int (length body))) rs" "length boundary = NGX_ATOMIC_T_LEN"
  shows "int (length (multipart_bytes bh boundary rs body)) = int range_last_boundary_len +
     sum_list (map (\<lambda>rg. int (length bh) + int (length (rg_content_range rg)) + (rg_end rg - rg_start rg)) rs)"
proof -
  have "int (length (concat (map (\<lambda>rg. bh @ rg_content_range rg @ segment (rg_start rg) (rg_end rg) body) rs))) =
      sum_list (map (\<lambda>rg. int (length bh) + int (length (rg_content_range rg)) + (rg_end rg - rg_start rg)) rs)"
    using assms(1) by (induction rs) (simp_all add: range_within_def segment_length)
  thus ?thesis using assms(2) by (simp add: multipart_bytes_def range_last_boundary_len_def CRLF_def)
qed

lemma range_multipart_header_len:
  assumes "list_all (range_within (content_length_n r)) (rc_ranges ctx)" "content_length_n r = int (length body)"
    and "content_length_n r \<le> NGX_MAX_OFF_T_VALUE" "ngx_http_range_multipart_header boundary r ctx = (r', ctx')"
    and "tot = length (multipart_bytes (rc_boundary_header ctx') (sprintf_boundary boundary) (rc_ranges ctx') body)"
    and "int tot \<le> NGX_MAX_OFF_T_VALUE"
  shows "content_length_n r' = int tot"
proof -
  let ?bh = "range_boundary_header boundary r" and ?rs = "map (range_set_content_range (content_length_n r)) (rc_ranges ctx)"
  have ctx': "rc_boundary_header ctx' = ?bh" "rc_ranges ctx' = ?rs"
    and r': "content_length_n r' = sint (range_parts_len (length ?bh) ?rs (word_of_nat range_last_boundary_len))"
    using assms(4) by (auto simp: ngx_http_range_multipart_header_def Let_def)
  have w: "list_all (range_within (content_length_n r)) ?rs"
    using assms(1) by (simp add: list_all_iff range_within_def range_set_content_range_def)
  have "int tot = int range_last_boundary_len + sum_list (map (\<lambda>rg. int (length ?bh) + int (length (rg_content_range rg)) + (rg_end rg - rg_start rg)) ?rs)"
    unfolding assms(5) ctx' by (rule multipart_length) (use w assms(2) sprintf_boundary_length in simp_all)
  hence "range_parts_len (length ?bh) ?rs (word_of_nat range_last_boundary_len) = word_of_int (int tot)"
    unfolding range_parts_len_sum[OF w assms(3)] by (simp add: of_int_add)
  thus ?thesis using r' off64_id[of "int tot"] assms(6) by (simp add: off64_def limit_simps signed_of_int signed_of_nat)
qed

text \<open>
  C4 (functional). Several ranges, all within the content and no larger than it in total, of a body that comes in one
  buffer: the response is partial and its body has the parts in order between the boundaries, each the bytes of its
  range, and its Content-Length is the number of bytes sent.
\<close>

theorem range_multipart_response:
  assumes "range_applies r" "in_range r = Some (bytes ''bytes='' @ ranges_text xs)" "xs \<noteq> []" "list_all (\<lambda>x. range_numbers_ok (snd x)) xs"
    and "cl = content_length_n r" "sat = ranges_sat cl xs" "2 \<le> length sat" "length sat \<le> max_ranges r"
    and "list_all (range_within cl) sat" "ranges_size sat \<le> cl"
    and "buf_ok buf" "\<not> ngx_buf_special buf" "int (length (buf_bytes buf)) = cl"
    and "parts = multipart_bytes (range_boundary_header boundary r) (sprintf_boundary boundary) (map (range_set_content_range cl) sat) (buf_bytes buf)"
  shows "\<exists>r' ctx ctx' out. ngx_http_range_header_filter boundary mctx r = Next_header_filter r' (Some ctx) \<and>
     out_status r' = NGX_HTTP_PARTIAL_CONTENT \<and>
     ngx_http_range_body_filter r' (Some ctx) [buf] = (Next_body_filter out, ctx', [buf]) \<and> chain_bytes out = parts \<and>
     (int (length parts) \<le> NGX_MAX_OFF_T_VALUE \<longrightarrow> content_length_n r' = int (length parts))"
proof -
  let ?ctx = "\<lparr>rc_offset = 0, rc_boundary_header = [], rc_ranges = sat\<rparr>"
  let ?r1 = "r\<lparr>out_status := NGX_HTTP_PARTIAL_CONTENT, out_status_line := []\<rparr>"
  have cl: "0 \<le> cl" "cl \<le> NGX_MAX_OFF_T_VALUE" "is_main r" using assms(1,5) by (simp_all add: range_applies_def)
  have nn: "0 \<le> ranges_size sat" using assms(9) by (induction sat) (auto simp: range_within_def)
  have "ngx_http_range_parse r mctx (max_ranges r) = (Range_OK, sat)"
    using range_loop_text[OF assms(3,4) cl(1,2), of "max_ranges r" 0 "[]"] assms(2,5-8,10) cl nn
    by (auto simp: ngx_http_range_parse_def range_verdict_def off64_id limit_simps)
  moreover obtain r' ctx where m: "ngx_http_range_multipart_header boundary ?r1 ?ctx = (r', ctx)" by force
  ultimately have h: "ngx_http_range_header_filter boundary mctx r = Next_header_filter r' (Some ctx)"
    using range_header_filter_applies[OF assms(1,2) range_value_nonempty[OF assms(3)]] assms(7) by (simp add: Let_def)
  have bh: "range_boundary_header boundary ?r1 = range_boundary_header boundary r" by (simp add: range_boundary_header_def)
  have ctx: "rc_offset ctx = 0" "rc_boundary_header ctx = range_boundary_header boundary r" "rc_ranges ctx = map (range_set_content_range cl) sat"
    and st: "out_status r' = NGX_HTTP_PARTIAL_CONTENT"
    using m assms(5) bh by (auto simp: ngx_http_range_multipart_header_def Let_def)
  have sz: "ngx_buf_size buf = cl" using buf_bytes_length[OF assms(11)] assms(13) by simp
  have w: "list_all (range_within cl) (rc_ranges ctx)"
    using assms(9) ctx(3) by (simp add: list_all_iff range_within_def range_set_content_range_def)
  let ?ctx' = "ctx\<lparr>rc_offset := cl\<rparr>"
  have "ngx_http_range_test_overlapped ctx buf = Some ?ctx'"
    using w ctx(1) sz by (auto simp: ngx_http_range_test_overlapped_def list_all_iff range_within_def)
  hence b: "ngx_http_range_body_filter r' (Some ctx) [buf] = (Next_body_filter (ngx_http_range_multipart_body ?ctx' buf), Some ?ctx', [buf])"
    using assms(7,12) ctx(3) by (simp add: ngx_http_range_body_filter_def)
  have "\<exists>rest. range_boundary_header boundary r = CRLF @ bytes ''--'' @ sprintf_boundary boundary @ rest"
    by (simp only: range_boundary_header_def) blast
  then obtain rest where "rc_boundary_header ctx = CRLF @ bytes ''--'' @ sprintf_boundary boundary @ rest" using ctx(2) by auto
  hence p: "chain_bytes (ngx_http_range_multipart_body ?ctx' buf) = parts"
    using range_multipart_bytes[of buf ?ctx' "sprintf_boundary boundary" rest] w sz assms(11,14) ctx(2,3) sprintf_boundary_length by simp
  have "content_length_n r' = int (length parts)" if "int (length parts) \<le> NGX_MAX_OFF_T_VALUE"
    by (rule range_multipart_header_len[OF _ _ _ m _ that, of "buf_bytes buf"]) (use assms(5,9,13,14) cl ctx in simp_all)
  thus ?thesis using h st b p by blast
qed

theorem range_multipart_response_witness:
  "\<exists>r' ctx ctx' out. ngx_http_range_header_filter 7 None
       (range_sample (bytes ''bytes='' @ ranges_text [((0, 0, 0, 0), Range_between 2 4), ((1, 0, 0, 0), Range_suffix 1)]) 8) = Next_header_filter r' (Some ctx) \<and>
     ngx_http_range_body_filter r' (Some ctx) [range_sample_buf ''abcdefgh''] = (Next_body_filter out, ctx', [range_sample_buf ''abcdefgh''])"
proof -
  let ?xs = "[((0, 0, 0, 0), Range_between 2 4), ((1, 0, 0, 0), Range_suffix 1)]"
  let ?r = "range_sample (bytes ''bytes='' @ ranges_text ?xs) 8" and ?b = "range_sample_buf ''abcdefgh''"
  have ap: "range_applies ?r" "in_range ?r = Some (bytes ''bytes='' @ ranges_text ?xs)" "?xs \<noteq> []" "list_all (\<lambda>x. range_numbers_ok (snd x)) ?xs"
    "8 = content_length_n ?r"
    by (simp_all add: range_applies_def range_sample_def limit_simps)
  have s: "2 \<le> length (ranges_sat 8 ?xs)" "length (ranges_sat 8 ?xs) \<le> max_ranges ?r" "list_all (range_within 8) (ranges_sat 8 ?xs)"
    "ranges_size (ranges_sat 8 ?xs) \<le> 8"
    by (simp_all add: ranges_sat_def range_of_def range_within_def range_sample_def)
  have b: "buf_ok ?b" "\<not> ngx_buf_special ?b" "int (length (buf_bytes ?b)) = 8"
    by (simp_all add: range_sample_buf_def range_memory_buf_def ngx_calloc_buf_def buf_bytes_def buf_ok_def ngx_buf_in_memory_def segment_def ngx_buf_special_def)
  from range_multipart_response[OF ap refl s b refl, of 7 None] show ?thesis by blast
qed

end
