(* ===== verification/Ngx_Http_V2_Huff_Table.thy ===== *)
theory Ngx_Http_V2_Huff_Table
  imports Nginx_Prelude
begin

text \<open>
  The tables of \<^verbatim>\<open>http/v2/ngx_http_v2_huff_decode.c\<close> and \<^verbatim>\<open>http/v2/ngx_http_v2_huff_encode.c\<close>: the states of the decoder, with
  the next state, whether a symbol is emitted, the symbol and whether the input may end for each of the 16 values of
  four bits, and the code and its length for each byte. The numbers are those of the source.
\<close>

type_synonym huff_decode_code = "int \<times> int \<times> int \<times> int"

definition huff_decode_codes_0 :: "huff_decode_code list list" where
  "huff_decode_codes_0 =
    [
     [(0x04, 0, 0x00, 0), (0x05, 0, 0x00, 0), (0x07, 0, 0x00, 0), (0x08, 0, 0x00, 0),
      (0x0b, 0, 0x00, 0), (0x0c, 0, 0x00, 0), (0x10, 0, 0x00, 0), (0x13, 0, 0x00, 0),
      (0x19, 0, 0x00, 0), (0x1c, 0, 0x00, 0), (0x20, 0, 0x00, 0), (0x23, 0, 0x00, 0),
      (0x2a, 0, 0x00, 0), (0x31, 0, 0x00, 0), (0x39, 0, 0x00, 0), (0x40, 0, 0x00, 1)],
     [(0x00, 1, 0x30, 1), (0x00, 1, 0x31, 1), (0x00, 1, 0x32, 1), (0x00, 1, 0x61, 1),
      (0x00, 1, 0x63, 1), (0x00, 1, 0x65, 1), (0x00, 1, 0x69, 1), (0x00, 1, 0x6f, 1),
      (0x00, 1, 0x73, 1), (0x00, 1, 0x74, 1), (0x0d, 0, 0x00, 0), (0x0e, 0, 0x00, 0),
      (0x11, 0, 0x00, 0), (0x12, 0, 0x00, 0), (0x14, 0, 0x00, 0), (0x15, 0, 0x00, 0)],
     [(0x01, 1, 0x30, 0), (0x16, 1, 0x30, 1), (0x01, 1, 0x31, 0), (0x16, 1, 0x31, 1),
      (0x01, 1, 0x32, 0), (0x16, 1, 0x32, 1), (0x01, 1, 0x61, 0), (0x16, 1, 0x61, 1),
      (0x01, 1, 0x63, 0), (0x16, 1, 0x63, 1), (0x01, 1, 0x65, 0), (0x16, 1, 0x65, 1),
      (0x01, 1, 0x69, 0), (0x16, 1, 0x69, 1), (0x01, 1, 0x6f, 0), (0x16, 1, 0x6f, 1)],
     [(0x02, 1, 0x30, 0), (0x09, 1, 0x30, 0), (0x17, 1, 0x30, 0), (0x28, 1, 0x30, 1),
      (0x02, 1, 0x31, 0), (0x09, 1, 0x31, 0), (0x17, 1, 0x31, 0), (0x28, 1, 0x31, 1),
      (0x02, 1, 0x32, 0), (0x09, 1, 0x32, 0), (0x17, 1, 0x32, 0), (0x28, 1, 0x32, 1),
      (0x02, 1, 0x61, 0), (0x09, 1, 0x61, 0), (0x17, 1, 0x61, 0), (0x28, 1, 0x61, 1)],
     [(0x03, 1, 0x30, 0), (0x06, 1, 0x30, 0), (0x0a, 1, 0x30, 0), (0x0f, 1, 0x30, 0),
      (0x18, 1, 0x30, 0), (0x1f, 1, 0x30, 0), (0x29, 1, 0x30, 0), (0x38, 1, 0x30, 1),
      (0x03, 1, 0x31, 0), (0x06, 1, 0x31, 0), (0x0a, 1, 0x31, 0), (0x0f, 1, 0x31, 0),
      (0x18, 1, 0x31, 0), (0x1f, 1, 0x31, 0), (0x29, 1, 0x31, 0), (0x38, 1, 0x31, 1)],
     [(0x03, 1, 0x32, 0), (0x06, 1, 0x32, 0), (0x0a, 1, 0x32, 0), (0x0f, 1, 0x32, 0),
      (0x18, 1, 0x32, 0), (0x1f, 1, 0x32, 0), (0x29, 1, 0x32, 0), (0x38, 1, 0x32, 1),
      (0x03, 1, 0x61, 0), (0x06, 1, 0x61, 0), (0x0a, 1, 0x61, 0), (0x0f, 1, 0x61, 0),
      (0x18, 1, 0x61, 0), (0x1f, 1, 0x61, 0), (0x29, 1, 0x61, 0), (0x38, 1, 0x61, 1)],
     [(0x02, 1, 0x63, 0), (0x09, 1, 0x63, 0), (0x17, 1, 0x63, 0), (0x28, 1, 0x63, 1),
      (0x02, 1, 0x65, 0), (0x09, 1, 0x65, 0), (0x17, 1, 0x65, 0), (0x28, 1, 0x65, 1),
      (0x02, 1, 0x69, 0), (0x09, 1, 0x69, 0), (0x17, 1, 0x69, 0), (0x28, 1, 0x69, 1),
      (0x02, 1, 0x6f, 0), (0x09, 1, 0x6f, 0), (0x17, 1, 0x6f, 0), (0x28, 1, 0x6f, 1)],
     [(0x03, 1, 0x63, 0), (0x06, 1, 0x63, 0), (0x0a, 1, 0x63, 0), (0x0f, 1, 0x63, 0),
      (0x18, 1, 0x63, 0), (0x1f, 1, 0x63, 0), (0x29, 1, 0x63, 0), (0x38, 1, 0x63, 1),
      (0x03, 1, 0x65, 0), (0x06, 1, 0x65, 0), (0x0a, 1, 0x65, 0), (0x0f, 1, 0x65, 0),
      (0x18, 1, 0x65, 0), (0x1f, 1, 0x65, 0), (0x29, 1, 0x65, 0), (0x38, 1, 0x65, 1)],
     [(0x03, 1, 0x69, 0), (0x06, 1, 0x69, 0), (0x0a, 1, 0x69, 0), (0x0f, 1, 0x69, 0),
      (0x18, 1, 0x69, 0), (0x1f, 1, 0x69, 0), (0x29, 1, 0x69, 0), (0x38, 1, 0x69, 1),
      (0x03, 1, 0x6f, 0), (0x06, 1, 0x6f, 0), (0x0a, 1, 0x6f, 0), (0x0f, 1, 0x6f, 0),
      (0x18, 1, 0x6f, 0), (0x1f, 1, 0x6f, 0), (0x29, 1, 0x6f, 0), (0x38, 1, 0x6f, 1)],
     [(0x01, 1, 0x73, 0), (0x16, 1, 0x73, 1), (0x01, 1, 0x74, 0), (0x16, 1, 0x74, 1),
      (0x00, 1, 0x20, 1), (0x00, 1, 0x25, 1), (0x00, 1, 0x2d, 1), (0x00, 1, 0x2e, 1),
      (0x00, 1, 0x2f, 1), (0x00, 1, 0x33, 1), (0x00, 1, 0x34, 1), (0x00, 1, 0x35, 1),
      (0x00, 1, 0x36, 1), (0x00, 1, 0x37, 1), (0x00, 1, 0x38, 1), (0x00, 1, 0x39, 1)],
     [(0x02, 1, 0x73, 0), (0x09, 1, 0x73, 0), (0x17, 1, 0x73, 0), (0x28, 1, 0x73, 1),
      (0x02, 1, 0x74, 0), (0x09, 1, 0x74, 0), (0x17, 1, 0x74, 0), (0x28, 1, 0x74, 1),
      (0x01, 1, 0x20, 0), (0x16, 1, 0x20, 1), (0x01, 1, 0x25, 0), (0x16, 1, 0x25, 1),
      (0x01, 1, 0x2d, 0), (0x16, 1, 0x2d, 1), (0x01, 1, 0x2e, 0), (0x16, 1, 0x2e, 1)],
     [(0x03, 1, 0x73, 0), (0x06, 1, 0x73, 0), (0x0a, 1, 0x73, 0), (0x0f, 1, 0x73, 0),
      (0x18, 1, 0x73, 0), (0x1f, 1, 0x73, 0), (0x29, 1, 0x73, 0), (0x38, 1, 0x73, 1),
      (0x03, 1, 0x74, 0), (0x06, 1, 0x74, 0), (0x0a, 1, 0x74, 0), (0x0f, 1, 0x74, 0),
      (0x18, 1, 0x74, 0), (0x1f, 1, 0x74, 0), (0x29, 1, 0x74, 0), (0x38, 1, 0x74, 1)],
     [(0x02, 1, 0x20, 0), (0x09, 1, 0x20, 0), (0x17, 1, 0x20, 0), (0x28, 1, 0x20, 1),
      (0x02, 1, 0x25, 0), (0x09, 1, 0x25, 0), (0x17, 1, 0x25, 0), (0x28, 1, 0x25, 1),
      (0x02, 1, 0x2d, 0), (0x09, 1, 0x2d, 0), (0x17, 1, 0x2d, 0), (0x28, 1, 0x2d, 1),
      (0x02, 1, 0x2e, 0), (0x09, 1, 0x2e, 0), (0x17, 1, 0x2e, 0), (0x28, 1, 0x2e, 1)],
     [(0x03, 1, 0x20, 0), (0x06, 1, 0x20, 0), (0x0a, 1, 0x20, 0), (0x0f, 1, 0x20, 0),
      (0x18, 1, 0x20, 0), (0x1f, 1, 0x20, 0), (0x29, 1, 0x20, 0), (0x38, 1, 0x20, 1),
      (0x03, 1, 0x25, 0), (0x06, 1, 0x25, 0), (0x0a, 1, 0x25, 0), (0x0f, 1, 0x25, 0),
      (0x18, 1, 0x25, 0), (0x1f, 1, 0x25, 0), (0x29, 1, 0x25, 0), (0x38, 1, 0x25, 1)],
     [(0x03, 1, 0x2d, 0), (0x06, 1, 0x2d, 0), (0x0a, 1, 0x2d, 0), (0x0f, 1, 0x2d, 0),
      (0x18, 1, 0x2d, 0), (0x1f, 1, 0x2d, 0), (0x29, 1, 0x2d, 0), (0x38, 1, 0x2d, 1),
      (0x03, 1, 0x2e, 0), (0x06, 1, 0x2e, 0), (0x0a, 1, 0x2e, 0), (0x0f, 1, 0x2e, 0),
      (0x18, 1, 0x2e, 0), (0x1f, 1, 0x2e, 0), (0x29, 1, 0x2e, 0), (0x38, 1, 0x2e, 1)]]"

definition huff_decode_codes_15 :: "huff_decode_code list list" where
  "huff_decode_codes_15 =
    [
     [(0x01, 1, 0x2f, 0), (0x16, 1, 0x2f, 1), (0x01, 1, 0x33, 0), (0x16, 1, 0x33, 1),
      (0x01, 1, 0x34, 0), (0x16, 1, 0x34, 1), (0x01, 1, 0x35, 0), (0x16, 1, 0x35, 1),
      (0x01, 1, 0x36, 0), (0x16, 1, 0x36, 1), (0x01, 1, 0x37, 0), (0x16, 1, 0x37, 1),
      (0x01, 1, 0x38, 0), (0x16, 1, 0x38, 1), (0x01, 1, 0x39, 0), (0x16, 1, 0x39, 1)],
     [(0x02, 1, 0x2f, 0), (0x09, 1, 0x2f, 0), (0x17, 1, 0x2f, 0), (0x28, 1, 0x2f, 1),
      (0x02, 1, 0x33, 0), (0x09, 1, 0x33, 0), (0x17, 1, 0x33, 0), (0x28, 1, 0x33, 1),
      (0x02, 1, 0x34, 0), (0x09, 1, 0x34, 0), (0x17, 1, 0x34, 0), (0x28, 1, 0x34, 1),
      (0x02, 1, 0x35, 0), (0x09, 1, 0x35, 0), (0x17, 1, 0x35, 0), (0x28, 1, 0x35, 1)],
     [(0x03, 1, 0x2f, 0), (0x06, 1, 0x2f, 0), (0x0a, 1, 0x2f, 0), (0x0f, 1, 0x2f, 0),
      (0x18, 1, 0x2f, 0), (0x1f, 1, 0x2f, 0), (0x29, 1, 0x2f, 0), (0x38, 1, 0x2f, 1),
      (0x03, 1, 0x33, 0), (0x06, 1, 0x33, 0), (0x0a, 1, 0x33, 0), (0x0f, 1, 0x33, 0),
      (0x18, 1, 0x33, 0), (0x1f, 1, 0x33, 0), (0x29, 1, 0x33, 0), (0x38, 1, 0x33, 1)],
     [(0x03, 1, 0x34, 0), (0x06, 1, 0x34, 0), (0x0a, 1, 0x34, 0), (0x0f, 1, 0x34, 0),
      (0x18, 1, 0x34, 0), (0x1f, 1, 0x34, 0), (0x29, 1, 0x34, 0), (0x38, 1, 0x34, 1),
      (0x03, 1, 0x35, 0), (0x06, 1, 0x35, 0), (0x0a, 1, 0x35, 0), (0x0f, 1, 0x35, 0),
      (0x18, 1, 0x35, 0), (0x1f, 1, 0x35, 0), (0x29, 1, 0x35, 0), (0x38, 1, 0x35, 1)],
     [(0x02, 1, 0x36, 0), (0x09, 1, 0x36, 0), (0x17, 1, 0x36, 0), (0x28, 1, 0x36, 1),
      (0x02, 1, 0x37, 0), (0x09, 1, 0x37, 0), (0x17, 1, 0x37, 0), (0x28, 1, 0x37, 1),
      (0x02, 1, 0x38, 0), (0x09, 1, 0x38, 0), (0x17, 1, 0x38, 0), (0x28, 1, 0x38, 1),
      (0x02, 1, 0x39, 0), (0x09, 1, 0x39, 0), (0x17, 1, 0x39, 0), (0x28, 1, 0x39, 1)],
     [(0x03, 1, 0x36, 0), (0x06, 1, 0x36, 0), (0x0a, 1, 0x36, 0), (0x0f, 1, 0x36, 0),
      (0x18, 1, 0x36, 0), (0x1f, 1, 0x36, 0), (0x29, 1, 0x36, 0), (0x38, 1, 0x36, 1),
      (0x03, 1, 0x37, 0), (0x06, 1, 0x37, 0), (0x0a, 1, 0x37, 0), (0x0f, 1, 0x37, 0),
      (0x18, 1, 0x37, 0), (0x1f, 1, 0x37, 0), (0x29, 1, 0x37, 0), (0x38, 1, 0x37, 1)],
     [(0x03, 1, 0x38, 0), (0x06, 1, 0x38, 0), (0x0a, 1, 0x38, 0), (0x0f, 1, 0x38, 0),
      (0x18, 1, 0x38, 0), (0x1f, 1, 0x38, 0), (0x29, 1, 0x38, 0), (0x38, 1, 0x38, 1),
      (0x03, 1, 0x39, 0), (0x06, 1, 0x39, 0), (0x0a, 1, 0x39, 0), (0x0f, 1, 0x39, 0),
      (0x18, 1, 0x39, 0), (0x1f, 1, 0x39, 0), (0x29, 1, 0x39, 0), (0x38, 1, 0x39, 1)],
     [(0x1a, 0, 0x00, 0), (0x1b, 0, 0x00, 0), (0x1d, 0, 0x00, 0), (0x1e, 0, 0x00, 0),
      (0x21, 0, 0x00, 0), (0x22, 0, 0x00, 0), (0x24, 0, 0x00, 0), (0x25, 0, 0x00, 0),
      (0x2b, 0, 0x00, 0), (0x2e, 0, 0x00, 0), (0x32, 0, 0x00, 0), (0x35, 0, 0x00, 0),
      (0x3a, 0, 0x00, 0), (0x3d, 0, 0x00, 0), (0x41, 0, 0x00, 0), (0x44, 0, 0x00, 1)],
     [(0x00, 1, 0x3d, 1), (0x00, 1, 0x41, 1), (0x00, 1, 0x5f, 1), (0x00, 1, 0x62, 1),
      (0x00, 1, 0x64, 1), (0x00, 1, 0x66, 1), (0x00, 1, 0x67, 1), (0x00, 1, 0x68, 1),
      (0x00, 1, 0x6c, 1), (0x00, 1, 0x6d, 1), (0x00, 1, 0x6e, 1), (0x00, 1, 0x70, 1),
      (0x00, 1, 0x72, 1), (0x00, 1, 0x75, 1), (0x26, 0, 0x00, 0), (0x27, 0, 0x00, 0)],
     [(0x01, 1, 0x3d, 0), (0x16, 1, 0x3d, 1), (0x01, 1, 0x41, 0), (0x16, 1, 0x41, 1),
      (0x01, 1, 0x5f, 0), (0x16, 1, 0x5f, 1), (0x01, 1, 0x62, 0), (0x16, 1, 0x62, 1),
      (0x01, 1, 0x64, 0), (0x16, 1, 0x64, 1), (0x01, 1, 0x66, 0), (0x16, 1, 0x66, 1),
      (0x01, 1, 0x67, 0), (0x16, 1, 0x67, 1), (0x01, 1, 0x68, 0), (0x16, 1, 0x68, 1)],
     [(0x02, 1, 0x3d, 0), (0x09, 1, 0x3d, 0), (0x17, 1, 0x3d, 0), (0x28, 1, 0x3d, 1),
      (0x02, 1, 0x41, 0), (0x09, 1, 0x41, 0), (0x17, 1, 0x41, 0), (0x28, 1, 0x41, 1),
      (0x02, 1, 0x5f, 0), (0x09, 1, 0x5f, 0), (0x17, 1, 0x5f, 0), (0x28, 1, 0x5f, 1),
      (0x02, 1, 0x62, 0), (0x09, 1, 0x62, 0), (0x17, 1, 0x62, 0), (0x28, 1, 0x62, 1)],
     [(0x03, 1, 0x3d, 0), (0x06, 1, 0x3d, 0), (0x0a, 1, 0x3d, 0), (0x0f, 1, 0x3d, 0),
      (0x18, 1, 0x3d, 0), (0x1f, 1, 0x3d, 0), (0x29, 1, 0x3d, 0), (0x38, 1, 0x3d, 1),
      (0x03, 1, 0x41, 0), (0x06, 1, 0x41, 0), (0x0a, 1, 0x41, 0), (0x0f, 1, 0x41, 0),
      (0x18, 1, 0x41, 0), (0x1f, 1, 0x41, 0), (0x29, 1, 0x41, 0), (0x38, 1, 0x41, 1)],
     [(0x03, 1, 0x5f, 0), (0x06, 1, 0x5f, 0), (0x0a, 1, 0x5f, 0), (0x0f, 1, 0x5f, 0),
      (0x18, 1, 0x5f, 0), (0x1f, 1, 0x5f, 0), (0x29, 1, 0x5f, 0), (0x38, 1, 0x5f, 1),
      (0x03, 1, 0x62, 0), (0x06, 1, 0x62, 0), (0x0a, 1, 0x62, 0), (0x0f, 1, 0x62, 0),
      (0x18, 1, 0x62, 0), (0x1f, 1, 0x62, 0), (0x29, 1, 0x62, 0), (0x38, 1, 0x62, 1)],
     [(0x02, 1, 0x64, 0), (0x09, 1, 0x64, 0), (0x17, 1, 0x64, 0), (0x28, 1, 0x64, 1),
      (0x02, 1, 0x66, 0), (0x09, 1, 0x66, 0), (0x17, 1, 0x66, 0), (0x28, 1, 0x66, 1),
      (0x02, 1, 0x67, 0), (0x09, 1, 0x67, 0), (0x17, 1, 0x67, 0), (0x28, 1, 0x67, 1),
      (0x02, 1, 0x68, 0), (0x09, 1, 0x68, 0), (0x17, 1, 0x68, 0), (0x28, 1, 0x68, 1)],
     [(0x03, 1, 0x64, 0), (0x06, 1, 0x64, 0), (0x0a, 1, 0x64, 0), (0x0f, 1, 0x64, 0),
      (0x18, 1, 0x64, 0), (0x1f, 1, 0x64, 0), (0x29, 1, 0x64, 0), (0x38, 1, 0x64, 1),
      (0x03, 1, 0x66, 0), (0x06, 1, 0x66, 0), (0x0a, 1, 0x66, 0), (0x0f, 1, 0x66, 0),
      (0x18, 1, 0x66, 0), (0x1f, 1, 0x66, 0), (0x29, 1, 0x66, 0), (0x38, 1, 0x66, 1)]]"

definition huff_decode_codes_30 :: "huff_decode_code list list" where
  "huff_decode_codes_30 =
    [
     [(0x03, 1, 0x67, 0), (0x06, 1, 0x67, 0), (0x0a, 1, 0x67, 0), (0x0f, 1, 0x67, 0),
      (0x18, 1, 0x67, 0), (0x1f, 1, 0x67, 0), (0x29, 1, 0x67, 0), (0x38, 1, 0x67, 1),
      (0x03, 1, 0x68, 0), (0x06, 1, 0x68, 0), (0x0a, 1, 0x68, 0), (0x0f, 1, 0x68, 0),
      (0x18, 1, 0x68, 0), (0x1f, 1, 0x68, 0), (0x29, 1, 0x68, 0), (0x38, 1, 0x68, 1)],
     [(0x01, 1, 0x6c, 0), (0x16, 1, 0x6c, 1), (0x01, 1, 0x6d, 0), (0x16, 1, 0x6d, 1),
      (0x01, 1, 0x6e, 0), (0x16, 1, 0x6e, 1), (0x01, 1, 0x70, 0), (0x16, 1, 0x70, 1),
      (0x01, 1, 0x72, 0), (0x16, 1, 0x72, 1), (0x01, 1, 0x75, 0), (0x16, 1, 0x75, 1),
      (0x00, 1, 0x3a, 1), (0x00, 1, 0x42, 1), (0x00, 1, 0x43, 1), (0x00, 1, 0x44, 1)],
     [(0x02, 1, 0x6c, 0), (0x09, 1, 0x6c, 0), (0x17, 1, 0x6c, 0), (0x28, 1, 0x6c, 1),
      (0x02, 1, 0x6d, 0), (0x09, 1, 0x6d, 0), (0x17, 1, 0x6d, 0), (0x28, 1, 0x6d, 1),
      (0x02, 1, 0x6e, 0), (0x09, 1, 0x6e, 0), (0x17, 1, 0x6e, 0), (0x28, 1, 0x6e, 1),
      (0x02, 1, 0x70, 0), (0x09, 1, 0x70, 0), (0x17, 1, 0x70, 0), (0x28, 1, 0x70, 1)],
     [(0x03, 1, 0x6c, 0), (0x06, 1, 0x6c, 0), (0x0a, 1, 0x6c, 0), (0x0f, 1, 0x6c, 0),
      (0x18, 1, 0x6c, 0), (0x1f, 1, 0x6c, 0), (0x29, 1, 0x6c, 0), (0x38, 1, 0x6c, 1),
      (0x03, 1, 0x6d, 0), (0x06, 1, 0x6d, 0), (0x0a, 1, 0x6d, 0), (0x0f, 1, 0x6d, 0),
      (0x18, 1, 0x6d, 0), (0x1f, 1, 0x6d, 0), (0x29, 1, 0x6d, 0), (0x38, 1, 0x6d, 1)],
     [(0x03, 1, 0x6e, 0), (0x06, 1, 0x6e, 0), (0x0a, 1, 0x6e, 0), (0x0f, 1, 0x6e, 0),
      (0x18, 1, 0x6e, 0), (0x1f, 1, 0x6e, 0), (0x29, 1, 0x6e, 0), (0x38, 1, 0x6e, 1),
      (0x03, 1, 0x70, 0), (0x06, 1, 0x70, 0), (0x0a, 1, 0x70, 0), (0x0f, 1, 0x70, 0),
      (0x18, 1, 0x70, 0), (0x1f, 1, 0x70, 0), (0x29, 1, 0x70, 0), (0x38, 1, 0x70, 1)],
     [(0x02, 1, 0x72, 0), (0x09, 1, 0x72, 0), (0x17, 1, 0x72, 0), (0x28, 1, 0x72, 1),
      (0x02, 1, 0x75, 0), (0x09, 1, 0x75, 0), (0x17, 1, 0x75, 0), (0x28, 1, 0x75, 1),
      (0x01, 1, 0x3a, 0), (0x16, 1, 0x3a, 1), (0x01, 1, 0x42, 0), (0x16, 1, 0x42, 1),
      (0x01, 1, 0x43, 0), (0x16, 1, 0x43, 1), (0x01, 1, 0x44, 0), (0x16, 1, 0x44, 1)],
     [(0x03, 1, 0x72, 0), (0x06, 1, 0x72, 0), (0x0a, 1, 0x72, 0), (0x0f, 1, 0x72, 0),
      (0x18, 1, 0x72, 0), (0x1f, 1, 0x72, 0), (0x29, 1, 0x72, 0), (0x38, 1, 0x72, 1),
      (0x03, 1, 0x75, 0), (0x06, 1, 0x75, 0), (0x0a, 1, 0x75, 0), (0x0f, 1, 0x75, 0),
      (0x18, 1, 0x75, 0), (0x1f, 1, 0x75, 0), (0x29, 1, 0x75, 0), (0x38, 1, 0x75, 1)],
     [(0x02, 1, 0x3a, 0), (0x09, 1, 0x3a, 0), (0x17, 1, 0x3a, 0), (0x28, 1, 0x3a, 1),
      (0x02, 1, 0x42, 0), (0x09, 1, 0x42, 0), (0x17, 1, 0x42, 0), (0x28, 1, 0x42, 1),
      (0x02, 1, 0x43, 0), (0x09, 1, 0x43, 0), (0x17, 1, 0x43, 0), (0x28, 1, 0x43, 1),
      (0x02, 1, 0x44, 0), (0x09, 1, 0x44, 0), (0x17, 1, 0x44, 0), (0x28, 1, 0x44, 1)],
     [(0x03, 1, 0x3a, 0), (0x06, 1, 0x3a, 0), (0x0a, 1, 0x3a, 0), (0x0f, 1, 0x3a, 0),
      (0x18, 1, 0x3a, 0), (0x1f, 1, 0x3a, 0), (0x29, 1, 0x3a, 0), (0x38, 1, 0x3a, 1),
      (0x03, 1, 0x42, 0), (0x06, 1, 0x42, 0), (0x0a, 1, 0x42, 0), (0x0f, 1, 0x42, 0),
      (0x18, 1, 0x42, 0), (0x1f, 1, 0x42, 0), (0x29, 1, 0x42, 0), (0x38, 1, 0x42, 1)],
     [(0x03, 1, 0x43, 0), (0x06, 1, 0x43, 0), (0x0a, 1, 0x43, 0), (0x0f, 1, 0x43, 0),
      (0x18, 1, 0x43, 0), (0x1f, 1, 0x43, 0), (0x29, 1, 0x43, 0), (0x38, 1, 0x43, 1),
      (0x03, 1, 0x44, 0), (0x06, 1, 0x44, 0), (0x0a, 1, 0x44, 0), (0x0f, 1, 0x44, 0),
      (0x18, 1, 0x44, 0), (0x1f, 1, 0x44, 0), (0x29, 1, 0x44, 0), (0x38, 1, 0x44, 1)],
     [(0x2c, 0, 0x00, 0), (0x2d, 0, 0x00, 0), (0x2f, 0, 0x00, 0), (0x30, 0, 0x00, 0),
      (0x33, 0, 0x00, 0), (0x34, 0, 0x00, 0), (0x36, 0, 0x00, 0), (0x37, 0, 0x00, 0),
      (0x3b, 0, 0x00, 0), (0x3c, 0, 0x00, 0), (0x3e, 0, 0x00, 0), (0x3f, 0, 0x00, 0),
      (0x42, 0, 0x00, 0), (0x43, 0, 0x00, 0), (0x45, 0, 0x00, 0), (0x48, 0, 0x00, 1)],
     [(0x00, 1, 0x45, 1), (0x00, 1, 0x46, 1), (0x00, 1, 0x47, 1), (0x00, 1, 0x48, 1),
      (0x00, 1, 0x49, 1), (0x00, 1, 0x4a, 1), (0x00, 1, 0x4b, 1), (0x00, 1, 0x4c, 1),
      (0x00, 1, 0x4d, 1), (0x00, 1, 0x4e, 1), (0x00, 1, 0x4f, 1), (0x00, 1, 0x50, 1),
      (0x00, 1, 0x51, 1), (0x00, 1, 0x52, 1), (0x00, 1, 0x53, 1), (0x00, 1, 0x54, 1)],
     [(0x01, 1, 0x45, 0), (0x16, 1, 0x45, 1), (0x01, 1, 0x46, 0), (0x16, 1, 0x46, 1),
      (0x01, 1, 0x47, 0), (0x16, 1, 0x47, 1), (0x01, 1, 0x48, 0), (0x16, 1, 0x48, 1),
      (0x01, 1, 0x49, 0), (0x16, 1, 0x49, 1), (0x01, 1, 0x4a, 0), (0x16, 1, 0x4a, 1),
      (0x01, 1, 0x4b, 0), (0x16, 1, 0x4b, 1), (0x01, 1, 0x4c, 0), (0x16, 1, 0x4c, 1)],
     [(0x02, 1, 0x45, 0), (0x09, 1, 0x45, 0), (0x17, 1, 0x45, 0), (0x28, 1, 0x45, 1),
      (0x02, 1, 0x46, 0), (0x09, 1, 0x46, 0), (0x17, 1, 0x46, 0), (0x28, 1, 0x46, 1),
      (0x02, 1, 0x47, 0), (0x09, 1, 0x47, 0), (0x17, 1, 0x47, 0), (0x28, 1, 0x47, 1),
      (0x02, 1, 0x48, 0), (0x09, 1, 0x48, 0), (0x17, 1, 0x48, 0), (0x28, 1, 0x48, 1)],
     [(0x03, 1, 0x45, 0), (0x06, 1, 0x45, 0), (0x0a, 1, 0x45, 0), (0x0f, 1, 0x45, 0),
      (0x18, 1, 0x45, 0), (0x1f, 1, 0x45, 0), (0x29, 1, 0x45, 0), (0x38, 1, 0x45, 1),
      (0x03, 1, 0x46, 0), (0x06, 1, 0x46, 0), (0x0a, 1, 0x46, 0), (0x0f, 1, 0x46, 0),
      (0x18, 1, 0x46, 0), (0x1f, 1, 0x46, 0), (0x29, 1, 0x46, 0), (0x38, 1, 0x46, 1)]]"

definition huff_decode_codes_45 :: "huff_decode_code list list" where
  "huff_decode_codes_45 =
    [
     [(0x03, 1, 0x47, 0), (0x06, 1, 0x47, 0), (0x0a, 1, 0x47, 0), (0x0f, 1, 0x47, 0),
      (0x18, 1, 0x47, 0), (0x1f, 1, 0x47, 0), (0x29, 1, 0x47, 0), (0x38, 1, 0x47, 1),
      (0x03, 1, 0x48, 0), (0x06, 1, 0x48, 0), (0x0a, 1, 0x48, 0), (0x0f, 1, 0x48, 0),
      (0x18, 1, 0x48, 0), (0x1f, 1, 0x48, 0), (0x29, 1, 0x48, 0), (0x38, 1, 0x48, 1)],
     [(0x02, 1, 0x49, 0), (0x09, 1, 0x49, 0), (0x17, 1, 0x49, 0), (0x28, 1, 0x49, 1),
      (0x02, 1, 0x4a, 0), (0x09, 1, 0x4a, 0), (0x17, 1, 0x4a, 0), (0x28, 1, 0x4a, 1),
      (0x02, 1, 0x4b, 0), (0x09, 1, 0x4b, 0), (0x17, 1, 0x4b, 0), (0x28, 1, 0x4b, 1),
      (0x02, 1, 0x4c, 0), (0x09, 1, 0x4c, 0), (0x17, 1, 0x4c, 0), (0x28, 1, 0x4c, 1)],
     [(0x03, 1, 0x49, 0), (0x06, 1, 0x49, 0), (0x0a, 1, 0x49, 0), (0x0f, 1, 0x49, 0),
      (0x18, 1, 0x49, 0), (0x1f, 1, 0x49, 0), (0x29, 1, 0x49, 0), (0x38, 1, 0x49, 1),
      (0x03, 1, 0x4a, 0), (0x06, 1, 0x4a, 0), (0x0a, 1, 0x4a, 0), (0x0f, 1, 0x4a, 0),
      (0x18, 1, 0x4a, 0), (0x1f, 1, 0x4a, 0), (0x29, 1, 0x4a, 0), (0x38, 1, 0x4a, 1)],
     [(0x03, 1, 0x4b, 0), (0x06, 1, 0x4b, 0), (0x0a, 1, 0x4b, 0), (0x0f, 1, 0x4b, 0),
      (0x18, 1, 0x4b, 0), (0x1f, 1, 0x4b, 0), (0x29, 1, 0x4b, 0), (0x38, 1, 0x4b, 1),
      (0x03, 1, 0x4c, 0), (0x06, 1, 0x4c, 0), (0x0a, 1, 0x4c, 0), (0x0f, 1, 0x4c, 0),
      (0x18, 1, 0x4c, 0), (0x1f, 1, 0x4c, 0), (0x29, 1, 0x4c, 0), (0x38, 1, 0x4c, 1)],
     [(0x01, 1, 0x4d, 0), (0x16, 1, 0x4d, 1), (0x01, 1, 0x4e, 0), (0x16, 1, 0x4e, 1),
      (0x01, 1, 0x4f, 0), (0x16, 1, 0x4f, 1), (0x01, 1, 0x50, 0), (0x16, 1, 0x50, 1),
      (0x01, 1, 0x51, 0), (0x16, 1, 0x51, 1), (0x01, 1, 0x52, 0), (0x16, 1, 0x52, 1),
      (0x01, 1, 0x53, 0), (0x16, 1, 0x53, 1), (0x01, 1, 0x54, 0), (0x16, 1, 0x54, 1)],
     [(0x02, 1, 0x4d, 0), (0x09, 1, 0x4d, 0), (0x17, 1, 0x4d, 0), (0x28, 1, 0x4d, 1),
      (0x02, 1, 0x4e, 0), (0x09, 1, 0x4e, 0), (0x17, 1, 0x4e, 0), (0x28, 1, 0x4e, 1),
      (0x02, 1, 0x4f, 0), (0x09, 1, 0x4f, 0), (0x17, 1, 0x4f, 0), (0x28, 1, 0x4f, 1),
      (0x02, 1, 0x50, 0), (0x09, 1, 0x50, 0), (0x17, 1, 0x50, 0), (0x28, 1, 0x50, 1)],
     [(0x03, 1, 0x4d, 0), (0x06, 1, 0x4d, 0), (0x0a, 1, 0x4d, 0), (0x0f, 1, 0x4d, 0),
      (0x18, 1, 0x4d, 0), (0x1f, 1, 0x4d, 0), (0x29, 1, 0x4d, 0), (0x38, 1, 0x4d, 1),
      (0x03, 1, 0x4e, 0), (0x06, 1, 0x4e, 0), (0x0a, 1, 0x4e, 0), (0x0f, 1, 0x4e, 0),
      (0x18, 1, 0x4e, 0), (0x1f, 1, 0x4e, 0), (0x29, 1, 0x4e, 0), (0x38, 1, 0x4e, 1)],
     [(0x03, 1, 0x4f, 0), (0x06, 1, 0x4f, 0), (0x0a, 1, 0x4f, 0), (0x0f, 1, 0x4f, 0),
      (0x18, 1, 0x4f, 0), (0x1f, 1, 0x4f, 0), (0x29, 1, 0x4f, 0), (0x38, 1, 0x4f, 1),
      (0x03, 1, 0x50, 0), (0x06, 1, 0x50, 0), (0x0a, 1, 0x50, 0), (0x0f, 1, 0x50, 0),
      (0x18, 1, 0x50, 0), (0x1f, 1, 0x50, 0), (0x29, 1, 0x50, 0), (0x38, 1, 0x50, 1)],
     [(0x02, 1, 0x51, 0), (0x09, 1, 0x51, 0), (0x17, 1, 0x51, 0), (0x28, 1, 0x51, 1),
      (0x02, 1, 0x52, 0), (0x09, 1, 0x52, 0), (0x17, 1, 0x52, 0), (0x28, 1, 0x52, 1),
      (0x02, 1, 0x53, 0), (0x09, 1, 0x53, 0), (0x17, 1, 0x53, 0), (0x28, 1, 0x53, 1),
      (0x02, 1, 0x54, 0), (0x09, 1, 0x54, 0), (0x17, 1, 0x54, 0), (0x28, 1, 0x54, 1)],
     [(0x03, 1, 0x51, 0), (0x06, 1, 0x51, 0), (0x0a, 1, 0x51, 0), (0x0f, 1, 0x51, 0),
      (0x18, 1, 0x51, 0), (0x1f, 1, 0x51, 0), (0x29, 1, 0x51, 0), (0x38, 1, 0x51, 1),
      (0x03, 1, 0x52, 0), (0x06, 1, 0x52, 0), (0x0a, 1, 0x52, 0), (0x0f, 1, 0x52, 0),
      (0x18, 1, 0x52, 0), (0x1f, 1, 0x52, 0), (0x29, 1, 0x52, 0), (0x38, 1, 0x52, 1)],
     [(0x03, 1, 0x53, 0), (0x06, 1, 0x53, 0), (0x0a, 1, 0x53, 0), (0x0f, 1, 0x53, 0),
      (0x18, 1, 0x53, 0), (0x1f, 1, 0x53, 0), (0x29, 1, 0x53, 0), (0x38, 1, 0x53, 1),
      (0x03, 1, 0x54, 0), (0x06, 1, 0x54, 0), (0x0a, 1, 0x54, 0), (0x0f, 1, 0x54, 0),
      (0x18, 1, 0x54, 0), (0x1f, 1, 0x54, 0), (0x29, 1, 0x54, 0), (0x38, 1, 0x54, 1)],
     [(0x00, 1, 0x55, 1), (0x00, 1, 0x56, 1), (0x00, 1, 0x57, 1), (0x00, 1, 0x59, 1),
      (0x00, 1, 0x6a, 1), (0x00, 1, 0x6b, 1), (0x00, 1, 0x71, 1), (0x00, 1, 0x76, 1),
      (0x00, 1, 0x77, 1), (0x00, 1, 0x78, 1), (0x00, 1, 0x79, 1), (0x00, 1, 0x7a, 1),
      (0x46, 0, 0x00, 0), (0x47, 0, 0x00, 0), (0x49, 0, 0x00, 0), (0x4a, 0, 0x00, 1)],
     [(0x01, 1, 0x55, 0), (0x16, 1, 0x55, 1), (0x01, 1, 0x56, 0), (0x16, 1, 0x56, 1),
      (0x01, 1, 0x57, 0), (0x16, 1, 0x57, 1), (0x01, 1, 0x59, 0), (0x16, 1, 0x59, 1),
      (0x01, 1, 0x6a, 0), (0x16, 1, 0x6a, 1), (0x01, 1, 0x6b, 0), (0x16, 1, 0x6b, 1),
      (0x01, 1, 0x71, 0), (0x16, 1, 0x71, 1), (0x01, 1, 0x76, 0), (0x16, 1, 0x76, 1)],
     [(0x02, 1, 0x55, 0), (0x09, 1, 0x55, 0), (0x17, 1, 0x55, 0), (0x28, 1, 0x55, 1),
      (0x02, 1, 0x56, 0), (0x09, 1, 0x56, 0), (0x17, 1, 0x56, 0), (0x28, 1, 0x56, 1),
      (0x02, 1, 0x57, 0), (0x09, 1, 0x57, 0), (0x17, 1, 0x57, 0), (0x28, 1, 0x57, 1),
      (0x02, 1, 0x59, 0), (0x09, 1, 0x59, 0), (0x17, 1, 0x59, 0), (0x28, 1, 0x59, 1)],
     [(0x03, 1, 0x55, 0), (0x06, 1, 0x55, 0), (0x0a, 1, 0x55, 0), (0x0f, 1, 0x55, 0),
      (0x18, 1, 0x55, 0), (0x1f, 1, 0x55, 0), (0x29, 1, 0x55, 0), (0x38, 1, 0x55, 1),
      (0x03, 1, 0x56, 0), (0x06, 1, 0x56, 0), (0x0a, 1, 0x56, 0), (0x0f, 1, 0x56, 0),
      (0x18, 1, 0x56, 0), (0x1f, 1, 0x56, 0), (0x29, 1, 0x56, 0), (0x38, 1, 0x56, 1)]]"

definition huff_decode_codes_60 :: "huff_decode_code list list" where
  "huff_decode_codes_60 =
    [
     [(0x03, 1, 0x57, 0), (0x06, 1, 0x57, 0), (0x0a, 1, 0x57, 0), (0x0f, 1, 0x57, 0),
      (0x18, 1, 0x57, 0), (0x1f, 1, 0x57, 0), (0x29, 1, 0x57, 0), (0x38, 1, 0x57, 1),
      (0x03, 1, 0x59, 0), (0x06, 1, 0x59, 0), (0x0a, 1, 0x59, 0), (0x0f, 1, 0x59, 0),
      (0x18, 1, 0x59, 0), (0x1f, 1, 0x59, 0), (0x29, 1, 0x59, 0), (0x38, 1, 0x59, 1)],
     [(0x02, 1, 0x6a, 0), (0x09, 1, 0x6a, 0), (0x17, 1, 0x6a, 0), (0x28, 1, 0x6a, 1),
      (0x02, 1, 0x6b, 0), (0x09, 1, 0x6b, 0), (0x17, 1, 0x6b, 0), (0x28, 1, 0x6b, 1),
      (0x02, 1, 0x71, 0), (0x09, 1, 0x71, 0), (0x17, 1, 0x71, 0), (0x28, 1, 0x71, 1),
      (0x02, 1, 0x76, 0), (0x09, 1, 0x76, 0), (0x17, 1, 0x76, 0), (0x28, 1, 0x76, 1)],
     [(0x03, 1, 0x6a, 0), (0x06, 1, 0x6a, 0), (0x0a, 1, 0x6a, 0), (0x0f, 1, 0x6a, 0),
      (0x18, 1, 0x6a, 0), (0x1f, 1, 0x6a, 0), (0x29, 1, 0x6a, 0), (0x38, 1, 0x6a, 1),
      (0x03, 1, 0x6b, 0), (0x06, 1, 0x6b, 0), (0x0a, 1, 0x6b, 0), (0x0f, 1, 0x6b, 0),
      (0x18, 1, 0x6b, 0), (0x1f, 1, 0x6b, 0), (0x29, 1, 0x6b, 0), (0x38, 1, 0x6b, 1)],
     [(0x03, 1, 0x71, 0), (0x06, 1, 0x71, 0), (0x0a, 1, 0x71, 0), (0x0f, 1, 0x71, 0),
      (0x18, 1, 0x71, 0), (0x1f, 1, 0x71, 0), (0x29, 1, 0x71, 0), (0x38, 1, 0x71, 1),
      (0x03, 1, 0x76, 0), (0x06, 1, 0x76, 0), (0x0a, 1, 0x76, 0), (0x0f, 1, 0x76, 0),
      (0x18, 1, 0x76, 0), (0x1f, 1, 0x76, 0), (0x29, 1, 0x76, 0), (0x38, 1, 0x76, 1)],
     [(0x01, 1, 0x77, 0), (0x16, 1, 0x77, 1), (0x01, 1, 0x78, 0), (0x16, 1, 0x78, 1),
      (0x01, 1, 0x79, 0), (0x16, 1, 0x79, 1), (0x01, 1, 0x7a, 0), (0x16, 1, 0x7a, 1),
      (0x00, 1, 0x26, 1), (0x00, 1, 0x2a, 1), (0x00, 1, 0x2c, 1), (0x00, 1, 0x3b, 1),
      (0x00, 1, 0x58, 1), (0x00, 1, 0x5a, 1), (0x4b, 0, 0x00, 0), (0x4e, 0, 0x00, 1)],
     [(0x02, 1, 0x77, 0), (0x09, 1, 0x77, 0), (0x17, 1, 0x77, 0), (0x28, 1, 0x77, 1),
      (0x02, 1, 0x78, 0), (0x09, 1, 0x78, 0), (0x17, 1, 0x78, 0), (0x28, 1, 0x78, 1),
      (0x02, 1, 0x79, 0), (0x09, 1, 0x79, 0), (0x17, 1, 0x79, 0), (0x28, 1, 0x79, 1),
      (0x02, 1, 0x7a, 0), (0x09, 1, 0x7a, 0), (0x17, 1, 0x7a, 0), (0x28, 1, 0x7a, 1)],
     [(0x03, 1, 0x77, 0), (0x06, 1, 0x77, 0), (0x0a, 1, 0x77, 0), (0x0f, 1, 0x77, 0),
      (0x18, 1, 0x77, 0), (0x1f, 1, 0x77, 0), (0x29, 1, 0x77, 0), (0x38, 1, 0x77, 1),
      (0x03, 1, 0x78, 0), (0x06, 1, 0x78, 0), (0x0a, 1, 0x78, 0), (0x0f, 1, 0x78, 0),
      (0x18, 1, 0x78, 0), (0x1f, 1, 0x78, 0), (0x29, 1, 0x78, 0), (0x38, 1, 0x78, 1)],
     [(0x03, 1, 0x79, 0), (0x06, 1, 0x79, 0), (0x0a, 1, 0x79, 0), (0x0f, 1, 0x79, 0),
      (0x18, 1, 0x79, 0), (0x1f, 1, 0x79, 0), (0x29, 1, 0x79, 0), (0x38, 1, 0x79, 1),
      (0x03, 1, 0x7a, 0), (0x06, 1, 0x7a, 0), (0x0a, 1, 0x7a, 0), (0x0f, 1, 0x7a, 0),
      (0x18, 1, 0x7a, 0), (0x1f, 1, 0x7a, 0), (0x29, 1, 0x7a, 0), (0x38, 1, 0x7a, 1)],
     [(0x01, 1, 0x26, 0), (0x16, 1, 0x26, 1), (0x01, 1, 0x2a, 0), (0x16, 1, 0x2a, 1),
      (0x01, 1, 0x2c, 0), (0x16, 1, 0x2c, 1), (0x01, 1, 0x3b, 0), (0x16, 1, 0x3b, 1),
      (0x01, 1, 0x58, 0), (0x16, 1, 0x58, 1), (0x01, 1, 0x5a, 0), (0x16, 1, 0x5a, 1),
      (0x4c, 0, 0x00, 0), (0x4d, 0, 0x00, 0), (0x4f, 0, 0x00, 0), (0x51, 0, 0x00, 1)],
     [(0x02, 1, 0x26, 0), (0x09, 1, 0x26, 0), (0x17, 1, 0x26, 0), (0x28, 1, 0x26, 1),
      (0x02, 1, 0x2a, 0), (0x09, 1, 0x2a, 0), (0x17, 1, 0x2a, 0), (0x28, 1, 0x2a, 1),
      (0x02, 1, 0x2c, 0), (0x09, 1, 0x2c, 0), (0x17, 1, 0x2c, 0), (0x28, 1, 0x2c, 1),
      (0x02, 1, 0x3b, 0), (0x09, 1, 0x3b, 0), (0x17, 1, 0x3b, 0), (0x28, 1, 0x3b, 1)],
     [(0x03, 1, 0x26, 0), (0x06, 1, 0x26, 0), (0x0a, 1, 0x26, 0), (0x0f, 1, 0x26, 0),
      (0x18, 1, 0x26, 0), (0x1f, 1, 0x26, 0), (0x29, 1, 0x26, 0), (0x38, 1, 0x26, 1),
      (0x03, 1, 0x2a, 0), (0x06, 1, 0x2a, 0), (0x0a, 1, 0x2a, 0), (0x0f, 1, 0x2a, 0),
      (0x18, 1, 0x2a, 0), (0x1f, 1, 0x2a, 0), (0x29, 1, 0x2a, 0), (0x38, 1, 0x2a, 1)],
     [(0x03, 1, 0x2c, 0), (0x06, 1, 0x2c, 0), (0x0a, 1, 0x2c, 0), (0x0f, 1, 0x2c, 0),
      (0x18, 1, 0x2c, 0), (0x1f, 1, 0x2c, 0), (0x29, 1, 0x2c, 0), (0x38, 1, 0x2c, 1),
      (0x03, 1, 0x3b, 0), (0x06, 1, 0x3b, 0), (0x0a, 1, 0x3b, 0), (0x0f, 1, 0x3b, 0),
      (0x18, 1, 0x3b, 0), (0x1f, 1, 0x3b, 0), (0x29, 1, 0x3b, 0), (0x38, 1, 0x3b, 1)],
     [(0x02, 1, 0x58, 0), (0x09, 1, 0x58, 0), (0x17, 1, 0x58, 0), (0x28, 1, 0x58, 1),
      (0x02, 1, 0x5a, 0), (0x09, 1, 0x5a, 0), (0x17, 1, 0x5a, 0), (0x28, 1, 0x5a, 1),
      (0x00, 1, 0x21, 1), (0x00, 1, 0x22, 1), (0x00, 1, 0x28, 1), (0x00, 1, 0x29, 1),
      (0x00, 1, 0x3f, 1), (0x50, 0, 0x00, 0), (0x52, 0, 0x00, 0), (0x54, 0, 0x00, 1)],
     [(0x03, 1, 0x58, 0), (0x06, 1, 0x58, 0), (0x0a, 1, 0x58, 0), (0x0f, 1, 0x58, 0),
      (0x18, 1, 0x58, 0), (0x1f, 1, 0x58, 0), (0x29, 1, 0x58, 0), (0x38, 1, 0x58, 1),
      (0x03, 1, 0x5a, 0), (0x06, 1, 0x5a, 0), (0x0a, 1, 0x5a, 0), (0x0f, 1, 0x5a, 0),
      (0x18, 1, 0x5a, 0), (0x1f, 1, 0x5a, 0), (0x29, 1, 0x5a, 0), (0x38, 1, 0x5a, 1)],
     [(0x01, 1, 0x21, 0), (0x16, 1, 0x21, 1), (0x01, 1, 0x22, 0), (0x16, 1, 0x22, 1),
      (0x01, 1, 0x28, 0), (0x16, 1, 0x28, 1), (0x01, 1, 0x29, 0), (0x16, 1, 0x29, 1),
      (0x01, 1, 0x3f, 0), (0x16, 1, 0x3f, 1), (0x00, 1, 0x27, 1), (0x00, 1, 0x2b, 1),
      (0x00, 1, 0x7c, 1), (0x53, 0, 0x00, 0), (0x55, 0, 0x00, 0), (0x58, 0, 0x00, 1)]]"

definition huff_decode_codes_75 :: "huff_decode_code list list" where
  "huff_decode_codes_75 =
    [
     [(0x02, 1, 0x21, 0), (0x09, 1, 0x21, 0), (0x17, 1, 0x21, 0), (0x28, 1, 0x21, 1),
      (0x02, 1, 0x22, 0), (0x09, 1, 0x22, 0), (0x17, 1, 0x22, 0), (0x28, 1, 0x22, 1),
      (0x02, 1, 0x28, 0), (0x09, 1, 0x28, 0), (0x17, 1, 0x28, 0), (0x28, 1, 0x28, 1),
      (0x02, 1, 0x29, 0), (0x09, 1, 0x29, 0), (0x17, 1, 0x29, 0), (0x28, 1, 0x29, 1)],
     [(0x03, 1, 0x21, 0), (0x06, 1, 0x21, 0), (0x0a, 1, 0x21, 0), (0x0f, 1, 0x21, 0),
      (0x18, 1, 0x21, 0), (0x1f, 1, 0x21, 0), (0x29, 1, 0x21, 0), (0x38, 1, 0x21, 1),
      (0x03, 1, 0x22, 0), (0x06, 1, 0x22, 0), (0x0a, 1, 0x22, 0), (0x0f, 1, 0x22, 0),
      (0x18, 1, 0x22, 0), (0x1f, 1, 0x22, 0), (0x29, 1, 0x22, 0), (0x38, 1, 0x22, 1)],
     [(0x03, 1, 0x28, 0), (0x06, 1, 0x28, 0), (0x0a, 1, 0x28, 0), (0x0f, 1, 0x28, 0),
      (0x18, 1, 0x28, 0), (0x1f, 1, 0x28, 0), (0x29, 1, 0x28, 0), (0x38, 1, 0x28, 1),
      (0x03, 1, 0x29, 0), (0x06, 1, 0x29, 0), (0x0a, 1, 0x29, 0), (0x0f, 1, 0x29, 0),
      (0x18, 1, 0x29, 0), (0x1f, 1, 0x29, 0), (0x29, 1, 0x29, 0), (0x38, 1, 0x29, 1)],
     [(0x02, 1, 0x3f, 0), (0x09, 1, 0x3f, 0), (0x17, 1, 0x3f, 0), (0x28, 1, 0x3f, 1),
      (0x01, 1, 0x27, 0), (0x16, 1, 0x27, 1), (0x01, 1, 0x2b, 0), (0x16, 1, 0x2b, 1),
      (0x01, 1, 0x7c, 0), (0x16, 1, 0x7c, 1), (0x00, 1, 0x23, 1), (0x00, 1, 0x3e, 1),
      (0x56, 0, 0x00, 0), (0x57, 0, 0x00, 0), (0x59, 0, 0x00, 0), (0x5a, 0, 0x00, 1)],
     [(0x03, 1, 0x3f, 0), (0x06, 1, 0x3f, 0), (0x0a, 1, 0x3f, 0), (0x0f, 1, 0x3f, 0),
      (0x18, 1, 0x3f, 0), (0x1f, 1, 0x3f, 0), (0x29, 1, 0x3f, 0), (0x38, 1, 0x3f, 1),
      (0x02, 1, 0x27, 0), (0x09, 1, 0x27, 0), (0x17, 1, 0x27, 0), (0x28, 1, 0x27, 1),
      (0x02, 1, 0x2b, 0), (0x09, 1, 0x2b, 0), (0x17, 1, 0x2b, 0), (0x28, 1, 0x2b, 1)],
     [(0x03, 1, 0x27, 0), (0x06, 1, 0x27, 0), (0x0a, 1, 0x27, 0), (0x0f, 1, 0x27, 0),
      (0x18, 1, 0x27, 0), (0x1f, 1, 0x27, 0), (0x29, 1, 0x27, 0), (0x38, 1, 0x27, 1),
      (0x03, 1, 0x2b, 0), (0x06, 1, 0x2b, 0), (0x0a, 1, 0x2b, 0), (0x0f, 1, 0x2b, 0),
      (0x18, 1, 0x2b, 0), (0x1f, 1, 0x2b, 0), (0x29, 1, 0x2b, 0), (0x38, 1, 0x2b, 1)],
     [(0x02, 1, 0x7c, 0), (0x09, 1, 0x7c, 0), (0x17, 1, 0x7c, 0), (0x28, 1, 0x7c, 1),
      (0x01, 1, 0x23, 0), (0x16, 1, 0x23, 1), (0x01, 1, 0x3e, 0), (0x16, 1, 0x3e, 1),
      (0x00, 1, 0x00, 1), (0x00, 1, 0x24, 1), (0x00, 1, 0x40, 1), (0x00, 1, 0x5b, 1),
      (0x00, 1, 0x5d, 1), (0x00, 1, 0x7e, 1), (0x5b, 0, 0x00, 0), (0x5c, 0, 0x00, 1)],
     [(0x03, 1, 0x7c, 0), (0x06, 1, 0x7c, 0), (0x0a, 1, 0x7c, 0), (0x0f, 1, 0x7c, 0),
      (0x18, 1, 0x7c, 0), (0x1f, 1, 0x7c, 0), (0x29, 1, 0x7c, 0), (0x38, 1, 0x7c, 1),
      (0x02, 1, 0x23, 0), (0x09, 1, 0x23, 0), (0x17, 1, 0x23, 0), (0x28, 1, 0x23, 1),
      (0x02, 1, 0x3e, 0), (0x09, 1, 0x3e, 0), (0x17, 1, 0x3e, 0), (0x28, 1, 0x3e, 1)],
     [(0x03, 1, 0x23, 0), (0x06, 1, 0x23, 0), (0x0a, 1, 0x23, 0), (0x0f, 1, 0x23, 0),
      (0x18, 1, 0x23, 0), (0x1f, 1, 0x23, 0), (0x29, 1, 0x23, 0), (0x38, 1, 0x23, 1),
      (0x03, 1, 0x3e, 0), (0x06, 1, 0x3e, 0), (0x0a, 1, 0x3e, 0), (0x0f, 1, 0x3e, 0),
      (0x18, 1, 0x3e, 0), (0x1f, 1, 0x3e, 0), (0x29, 1, 0x3e, 0), (0x38, 1, 0x3e, 1)],
     [(0x01, 1, 0x00, 0), (0x16, 1, 0x00, 1), (0x01, 1, 0x24, 0), (0x16, 1, 0x24, 1),
      (0x01, 1, 0x40, 0), (0x16, 1, 0x40, 1), (0x01, 1, 0x5b, 0), (0x16, 1, 0x5b, 1),
      (0x01, 1, 0x5d, 0), (0x16, 1, 0x5d, 1), (0x01, 1, 0x7e, 0), (0x16, 1, 0x7e, 1),
      (0x00, 1, 0x5e, 1), (0x00, 1, 0x7d, 1), (0x5d, 0, 0x00, 0), (0x5e, 0, 0x00, 1)],
     [(0x02, 1, 0x00, 0), (0x09, 1, 0x00, 0), (0x17, 1, 0x00, 0), (0x28, 1, 0x00, 1),
      (0x02, 1, 0x24, 0), (0x09, 1, 0x24, 0), (0x17, 1, 0x24, 0), (0x28, 1, 0x24, 1),
      (0x02, 1, 0x40, 0), (0x09, 1, 0x40, 0), (0x17, 1, 0x40, 0), (0x28, 1, 0x40, 1),
      (0x02, 1, 0x5b, 0), (0x09, 1, 0x5b, 0), (0x17, 1, 0x5b, 0), (0x28, 1, 0x5b, 1)],
     [(0x03, 1, 0x00, 0), (0x06, 1, 0x00, 0), (0x0a, 1, 0x00, 0), (0x0f, 1, 0x00, 0),
      (0x18, 1, 0x00, 0), (0x1f, 1, 0x00, 0), (0x29, 1, 0x00, 0), (0x38, 1, 0x00, 1),
      (0x03, 1, 0x24, 0), (0x06, 1, 0x24, 0), (0x0a, 1, 0x24, 0), (0x0f, 1, 0x24, 0),
      (0x18, 1, 0x24, 0), (0x1f, 1, 0x24, 0), (0x29, 1, 0x24, 0), (0x38, 1, 0x24, 1)],
     [(0x03, 1, 0x40, 0), (0x06, 1, 0x40, 0), (0x0a, 1, 0x40, 0), (0x0f, 1, 0x40, 0),
      (0x18, 1, 0x40, 0), (0x1f, 1, 0x40, 0), (0x29, 1, 0x40, 0), (0x38, 1, 0x40, 1),
      (0x03, 1, 0x5b, 0), (0x06, 1, 0x5b, 0), (0x0a, 1, 0x5b, 0), (0x0f, 1, 0x5b, 0),
      (0x18, 1, 0x5b, 0), (0x1f, 1, 0x5b, 0), (0x29, 1, 0x5b, 0), (0x38, 1, 0x5b, 1)],
     [(0x02, 1, 0x5d, 0), (0x09, 1, 0x5d, 0), (0x17, 1, 0x5d, 0), (0x28, 1, 0x5d, 1),
      (0x02, 1, 0x7e, 0), (0x09, 1, 0x7e, 0), (0x17, 1, 0x7e, 0), (0x28, 1, 0x7e, 1),
      (0x01, 1, 0x5e, 0), (0x16, 1, 0x5e, 1), (0x01, 1, 0x7d, 0), (0x16, 1, 0x7d, 1),
      (0x00, 1, 0x3c, 1), (0x00, 1, 0x60, 1), (0x00, 1, 0x7b, 1), (0x5f, 0, 0x00, 1)],
     [(0x03, 1, 0x5d, 0), (0x06, 1, 0x5d, 0), (0x0a, 1, 0x5d, 0), (0x0f, 1, 0x5d, 0),
      (0x18, 1, 0x5d, 0), (0x1f, 1, 0x5d, 0), (0x29, 1, 0x5d, 0), (0x38, 1, 0x5d, 1),
      (0x03, 1, 0x7e, 0), (0x06, 1, 0x7e, 0), (0x0a, 1, 0x7e, 0), (0x0f, 1, 0x7e, 0),
      (0x18, 1, 0x7e, 0), (0x1f, 1, 0x7e, 0), (0x29, 1, 0x7e, 0), (0x38, 1, 0x7e, 1)]]"

definition huff_decode_codes_90 :: "huff_decode_code list list" where
  "huff_decode_codes_90 =
    [
     [(0x02, 1, 0x5e, 0), (0x09, 1, 0x5e, 0), (0x17, 1, 0x5e, 0), (0x28, 1, 0x5e, 1),
      (0x02, 1, 0x7d, 0), (0x09, 1, 0x7d, 0), (0x17, 1, 0x7d, 0), (0x28, 1, 0x7d, 1),
      (0x01, 1, 0x3c, 0), (0x16, 1, 0x3c, 1), (0x01, 1, 0x60, 0), (0x16, 1, 0x60, 1),
      (0x01, 1, 0x7b, 0), (0x16, 1, 0x7b, 1), (0x60, 0, 0x00, 0), (0x6e, 0, 0x00, 1)],
     [(0x03, 1, 0x5e, 0), (0x06, 1, 0x5e, 0), (0x0a, 1, 0x5e, 0), (0x0f, 1, 0x5e, 0),
      (0x18, 1, 0x5e, 0), (0x1f, 1, 0x5e, 0), (0x29, 1, 0x5e, 0), (0x38, 1, 0x5e, 1),
      (0x03, 1, 0x7d, 0), (0x06, 1, 0x7d, 0), (0x0a, 1, 0x7d, 0), (0x0f, 1, 0x7d, 0),
      (0x18, 1, 0x7d, 0), (0x1f, 1, 0x7d, 0), (0x29, 1, 0x7d, 0), (0x38, 1, 0x7d, 1)],
     [(0x02, 1, 0x3c, 0), (0x09, 1, 0x3c, 0), (0x17, 1, 0x3c, 0), (0x28, 1, 0x3c, 1),
      (0x02, 1, 0x60, 0), (0x09, 1, 0x60, 0), (0x17, 1, 0x60, 0), (0x28, 1, 0x60, 1),
      (0x02, 1, 0x7b, 0), (0x09, 1, 0x7b, 0), (0x17, 1, 0x7b, 0), (0x28, 1, 0x7b, 1),
      (0x61, 0, 0x00, 0), (0x65, 0, 0x00, 0), (0x6f, 0, 0x00, 0), (0x85, 0, 0x00, 1)],
     [(0x03, 1, 0x3c, 0), (0x06, 1, 0x3c, 0), (0x0a, 1, 0x3c, 0), (0x0f, 1, 0x3c, 0),
      (0x18, 1, 0x3c, 0), (0x1f, 1, 0x3c, 0), (0x29, 1, 0x3c, 0), (0x38, 1, 0x3c, 1),
      (0x03, 1, 0x60, 0), (0x06, 1, 0x60, 0), (0x0a, 1, 0x60, 0), (0x0f, 1, 0x60, 0),
      (0x18, 1, 0x60, 0), (0x1f, 1, 0x60, 0), (0x29, 1, 0x60, 0), (0x38, 1, 0x60, 1)],
     [(0x03, 1, 0x7b, 0), (0x06, 1, 0x7b, 0), (0x0a, 1, 0x7b, 0), (0x0f, 1, 0x7b, 0),
      (0x18, 1, 0x7b, 0), (0x1f, 1, 0x7b, 0), (0x29, 1, 0x7b, 0), (0x38, 1, 0x7b, 1),
      (0x62, 0, 0x00, 0), (0x63, 0, 0x00, 0), (0x66, 0, 0x00, 0), (0x69, 0, 0x00, 0),
      (0x70, 0, 0x00, 0), (0x77, 0, 0x00, 0), (0x86, 0, 0x00, 0), (0x99, 0, 0x00, 1)],
     [(0x00, 1, 0x5c, 1), (0x00, 1, 0xc3, 1), (0x00, 1, 0xd0, 1), (0x64, 0, 0x00, 0),
      (0x67, 0, 0x00, 0), (0x68, 0, 0x00, 0), (0x6a, 0, 0x00, 0), (0x6b, 0, 0x00, 0),
      (0x71, 0, 0x00, 0), (0x74, 0, 0x00, 0), (0x78, 0, 0x00, 0), (0x7e, 0, 0x00, 0),
      (0x87, 0, 0x00, 0), (0x8e, 0, 0x00, 0), (0x9a, 0, 0x00, 0), (0xa9, 0, 0x00, 1)],
     [(0x01, 1, 0x5c, 0), (0x16, 1, 0x5c, 1), (0x01, 1, 0xc3, 0), (0x16, 1, 0xc3, 1),
      (0x01, 1, 0xd0, 0), (0x16, 1, 0xd0, 1), (0x00, 1, 0x80, 1), (0x00, 1, 0x82, 1),
      (0x00, 1, 0x83, 1), (0x00, 1, 0xa2, 1), (0x00, 1, 0xb8, 1), (0x00, 1, 0xc2, 1),
      (0x00, 1, 0xe0, 1), (0x00, 1, 0xe2, 1), (0x6c, 0, 0x00, 0), (0x6d, 0, 0x00, 0)],
     [(0x02, 1, 0x5c, 0), (0x09, 1, 0x5c, 0), (0x17, 1, 0x5c, 0), (0x28, 1, 0x5c, 1),
      (0x02, 1, 0xc3, 0), (0x09, 1, 0xc3, 0), (0x17, 1, 0xc3, 0), (0x28, 1, 0xc3, 1),
      (0x02, 1, 0xd0, 0), (0x09, 1, 0xd0, 0), (0x17, 1, 0xd0, 0), (0x28, 1, 0xd0, 1),
      (0x01, 1, 0x80, 0), (0x16, 1, 0x80, 1), (0x01, 1, 0x82, 0), (0x16, 1, 0x82, 1)],
     [(0x03, 1, 0x5c, 0), (0x06, 1, 0x5c, 0), (0x0a, 1, 0x5c, 0), (0x0f, 1, 0x5c, 0),
      (0x18, 1, 0x5c, 0), (0x1f, 1, 0x5c, 0), (0x29, 1, 0x5c, 0), (0x38, 1, 0x5c, 1),
      (0x03, 1, 0xc3, 0), (0x06, 1, 0xc3, 0), (0x0a, 1, 0xc3, 0), (0x0f, 1, 0xc3, 0),
      (0x18, 1, 0xc3, 0), (0x1f, 1, 0xc3, 0), (0x29, 1, 0xc3, 0), (0x38, 1, 0xc3, 1)],
     [(0x03, 1, 0xd0, 0), (0x06, 1, 0xd0, 0), (0x0a, 1, 0xd0, 0), (0x0f, 1, 0xd0, 0),
      (0x18, 1, 0xd0, 0), (0x1f, 1, 0xd0, 0), (0x29, 1, 0xd0, 0), (0x38, 1, 0xd0, 1),
      (0x02, 1, 0x80, 0), (0x09, 1, 0x80, 0), (0x17, 1, 0x80, 0), (0x28, 1, 0x80, 1),
      (0x02, 1, 0x82, 0), (0x09, 1, 0x82, 0), (0x17, 1, 0x82, 0), (0x28, 1, 0x82, 1)],
     [(0x03, 1, 0x80, 0), (0x06, 1, 0x80, 0), (0x0a, 1, 0x80, 0), (0x0f, 1, 0x80, 0),
      (0x18, 1, 0x80, 0), (0x1f, 1, 0x80, 0), (0x29, 1, 0x80, 0), (0x38, 1, 0x80, 1),
      (0x03, 1, 0x82, 0), (0x06, 1, 0x82, 0), (0x0a, 1, 0x82, 0), (0x0f, 1, 0x82, 0),
      (0x18, 1, 0x82, 0), (0x1f, 1, 0x82, 0), (0x29, 1, 0x82, 0), (0x38, 1, 0x82, 1)],
     [(0x01, 1, 0x83, 0), (0x16, 1, 0x83, 1), (0x01, 1, 0xa2, 0), (0x16, 1, 0xa2, 1),
      (0x01, 1, 0xb8, 0), (0x16, 1, 0xb8, 1), (0x01, 1, 0xc2, 0), (0x16, 1, 0xc2, 1),
      (0x01, 1, 0xe0, 0), (0x16, 1, 0xe0, 1), (0x01, 1, 0xe2, 0), (0x16, 1, 0xe2, 1),
      (0x00, 1, 0x99, 1), (0x00, 1, 0xa1, 1), (0x00, 1, 0xa7, 1), (0x00, 1, 0xac, 1)],
     [(0x02, 1, 0x83, 0), (0x09, 1, 0x83, 0), (0x17, 1, 0x83, 0), (0x28, 1, 0x83, 1),
      (0x02, 1, 0xa2, 0), (0x09, 1, 0xa2, 0), (0x17, 1, 0xa2, 0), (0x28, 1, 0xa2, 1),
      (0x02, 1, 0xb8, 0), (0x09, 1, 0xb8, 0), (0x17, 1, 0xb8, 0), (0x28, 1, 0xb8, 1),
      (0x02, 1, 0xc2, 0), (0x09, 1, 0xc2, 0), (0x17, 1, 0xc2, 0), (0x28, 1, 0xc2, 1)],
     [(0x03, 1, 0x83, 0), (0x06, 1, 0x83, 0), (0x0a, 1, 0x83, 0), (0x0f, 1, 0x83, 0),
      (0x18, 1, 0x83, 0), (0x1f, 1, 0x83, 0), (0x29, 1, 0x83, 0), (0x38, 1, 0x83, 1),
      (0x03, 1, 0xa2, 0), (0x06, 1, 0xa2, 0), (0x0a, 1, 0xa2, 0), (0x0f, 1, 0xa2, 0),
      (0x18, 1, 0xa2, 0), (0x1f, 1, 0xa2, 0), (0x29, 1, 0xa2, 0), (0x38, 1, 0xa2, 1)],
     [(0x03, 1, 0xb8, 0), (0x06, 1, 0xb8, 0), (0x0a, 1, 0xb8, 0), (0x0f, 1, 0xb8, 0),
      (0x18, 1, 0xb8, 0), (0x1f, 1, 0xb8, 0), (0x29, 1, 0xb8, 0), (0x38, 1, 0xb8, 1),
      (0x03, 1, 0xc2, 0), (0x06, 1, 0xc2, 0), (0x0a, 1, 0xc2, 0), (0x0f, 1, 0xc2, 0),
      (0x18, 1, 0xc2, 0), (0x1f, 1, 0xc2, 0), (0x29, 1, 0xc2, 0), (0x38, 1, 0xc2, 1)]]"

definition huff_decode_codes_105 :: "huff_decode_code list list" where
  "huff_decode_codes_105 =
    [
     [(0x02, 1, 0xe0, 0), (0x09, 1, 0xe0, 0), (0x17, 1, 0xe0, 0), (0x28, 1, 0xe0, 1),
      (0x02, 1, 0xe2, 0), (0x09, 1, 0xe2, 0), (0x17, 1, 0xe2, 0), (0x28, 1, 0xe2, 1),
      (0x01, 1, 0x99, 0), (0x16, 1, 0x99, 1), (0x01, 1, 0xa1, 0), (0x16, 1, 0xa1, 1),
      (0x01, 1, 0xa7, 0), (0x16, 1, 0xa7, 1), (0x01, 1, 0xac, 0), (0x16, 1, 0xac, 1)],
     [(0x03, 1, 0xe0, 0), (0x06, 1, 0xe0, 0), (0x0a, 1, 0xe0, 0), (0x0f, 1, 0xe0, 0),
      (0x18, 1, 0xe0, 0), (0x1f, 1, 0xe0, 0), (0x29, 1, 0xe0, 0), (0x38, 1, 0xe0, 1),
      (0x03, 1, 0xe2, 0), (0x06, 1, 0xe2, 0), (0x0a, 1, 0xe2, 0), (0x0f, 1, 0xe2, 0),
      (0x18, 1, 0xe2, 0), (0x1f, 1, 0xe2, 0), (0x29, 1, 0xe2, 0), (0x38, 1, 0xe2, 1)],
     [(0x02, 1, 0x99, 0), (0x09, 1, 0x99, 0), (0x17, 1, 0x99, 0), (0x28, 1, 0x99, 1),
      (0x02, 1, 0xa1, 0), (0x09, 1, 0xa1, 0), (0x17, 1, 0xa1, 0), (0x28, 1, 0xa1, 1),
      (0x02, 1, 0xa7, 0), (0x09, 1, 0xa7, 0), (0x17, 1, 0xa7, 0), (0x28, 1, 0xa7, 1),
      (0x02, 1, 0xac, 0), (0x09, 1, 0xac, 0), (0x17, 1, 0xac, 0), (0x28, 1, 0xac, 1)],
     [(0x03, 1, 0x99, 0), (0x06, 1, 0x99, 0), (0x0a, 1, 0x99, 0), (0x0f, 1, 0x99, 0),
      (0x18, 1, 0x99, 0), (0x1f, 1, 0x99, 0), (0x29, 1, 0x99, 0), (0x38, 1, 0x99, 1),
      (0x03, 1, 0xa1, 0), (0x06, 1, 0xa1, 0), (0x0a, 1, 0xa1, 0), (0x0f, 1, 0xa1, 0),
      (0x18, 1, 0xa1, 0), (0x1f, 1, 0xa1, 0), (0x29, 1, 0xa1, 0), (0x38, 1, 0xa1, 1)],
     [(0x03, 1, 0xa7, 0), (0x06, 1, 0xa7, 0), (0x0a, 1, 0xa7, 0), (0x0f, 1, 0xa7, 0),
      (0x18, 1, 0xa7, 0), (0x1f, 1, 0xa7, 0), (0x29, 1, 0xa7, 0), (0x38, 1, 0xa7, 1),
      (0x03, 1, 0xac, 0), (0x06, 1, 0xac, 0), (0x0a, 1, 0xac, 0), (0x0f, 1, 0xac, 0),
      (0x18, 1, 0xac, 0), (0x1f, 1, 0xac, 0), (0x29, 1, 0xac, 0), (0x38, 1, 0xac, 1)],
     [(0x72, 0, 0x00, 0), (0x73, 0, 0x00, 0), (0x75, 0, 0x00, 0), (0x76, 0, 0x00, 0),
      (0x79, 0, 0x00, 0), (0x7b, 0, 0x00, 0), (0x7f, 0, 0x00, 0), (0x82, 0, 0x00, 0),
      (0x88, 0, 0x00, 0), (0x8b, 0, 0x00, 0), (0x8f, 0, 0x00, 0), (0x92, 0, 0x00, 0),
      (0x9b, 0, 0x00, 0), (0xa2, 0, 0x00, 0), (0xaa, 0, 0x00, 0), (0xb4, 0, 0x00, 1)],
     [(0x00, 1, 0xb0, 1), (0x00, 1, 0xb1, 1), (0x00, 1, 0xb3, 1), (0x00, 1, 0xd1, 1),
      (0x00, 1, 0xd8, 1), (0x00, 1, 0xd9, 1), (0x00, 1, 0xe3, 1), (0x00, 1, 0xe5, 1),
      (0x00, 1, 0xe6, 1), (0x7a, 0, 0x00, 0), (0x7c, 0, 0x00, 0), (0x7d, 0, 0x00, 0),
      (0x80, 0, 0x00, 0), (0x81, 0, 0x00, 0), (0x83, 0, 0x00, 0), (0x84, 0, 0x00, 0)],
     [(0x01, 1, 0xb0, 0), (0x16, 1, 0xb0, 1), (0x01, 1, 0xb1, 0), (0x16, 1, 0xb1, 1),
      (0x01, 1, 0xb3, 0), (0x16, 1, 0xb3, 1), (0x01, 1, 0xd1, 0), (0x16, 1, 0xd1, 1),
      (0x01, 1, 0xd8, 0), (0x16, 1, 0xd8, 1), (0x01, 1, 0xd9, 0), (0x16, 1, 0xd9, 1),
      (0x01, 1, 0xe3, 0), (0x16, 1, 0xe3, 1), (0x01, 1, 0xe5, 0), (0x16, 1, 0xe5, 1)],
     [(0x02, 1, 0xb0, 0), (0x09, 1, 0xb0, 0), (0x17, 1, 0xb0, 0), (0x28, 1, 0xb0, 1),
      (0x02, 1, 0xb1, 0), (0x09, 1, 0xb1, 0), (0x17, 1, 0xb1, 0), (0x28, 1, 0xb1, 1),
      (0x02, 1, 0xb3, 0), (0x09, 1, 0xb3, 0), (0x17, 1, 0xb3, 0), (0x28, 1, 0xb3, 1),
      (0x02, 1, 0xd1, 0), (0x09, 1, 0xd1, 0), (0x17, 1, 0xd1, 0), (0x28, 1, 0xd1, 1)],
     [(0x03, 1, 0xb0, 0), (0x06, 1, 0xb0, 0), (0x0a, 1, 0xb0, 0), (0x0f, 1, 0xb0, 0),
      (0x18, 1, 0xb0, 0), (0x1f, 1, 0xb0, 0), (0x29, 1, 0xb0, 0), (0x38, 1, 0xb0, 1),
      (0x03, 1, 0xb1, 0), (0x06, 1, 0xb1, 0), (0x0a, 1, 0xb1, 0), (0x0f, 1, 0xb1, 0),
      (0x18, 1, 0xb1, 0), (0x1f, 1, 0xb1, 0), (0x29, 1, 0xb1, 0), (0x38, 1, 0xb1, 1)],
     [(0x03, 1, 0xb3, 0), (0x06, 1, 0xb3, 0), (0x0a, 1, 0xb3, 0), (0x0f, 1, 0xb3, 0),
      (0x18, 1, 0xb3, 0), (0x1f, 1, 0xb3, 0), (0x29, 1, 0xb3, 0), (0x38, 1, 0xb3, 1),
      (0x03, 1, 0xd1, 0), (0x06, 1, 0xd1, 0), (0x0a, 1, 0xd1, 0), (0x0f, 1, 0xd1, 0),
      (0x18, 1, 0xd1, 0), (0x1f, 1, 0xd1, 0), (0x29, 1, 0xd1, 0), (0x38, 1, 0xd1, 1)],
     [(0x02, 1, 0xd8, 0), (0x09, 1, 0xd8, 0), (0x17, 1, 0xd8, 0), (0x28, 1, 0xd8, 1),
      (0x02, 1, 0xd9, 0), (0x09, 1, 0xd9, 0), (0x17, 1, 0xd9, 0), (0x28, 1, 0xd9, 1),
      (0x02, 1, 0xe3, 0), (0x09, 1, 0xe3, 0), (0x17, 1, 0xe3, 0), (0x28, 1, 0xe3, 1),
      (0x02, 1, 0xe5, 0), (0x09, 1, 0xe5, 0), (0x17, 1, 0xe5, 0), (0x28, 1, 0xe5, 1)],
     [(0x03, 1, 0xd8, 0), (0x06, 1, 0xd8, 0), (0x0a, 1, 0xd8, 0), (0x0f, 1, 0xd8, 0),
      (0x18, 1, 0xd8, 0), (0x1f, 1, 0xd8, 0), (0x29, 1, 0xd8, 0), (0x38, 1, 0xd8, 1),
      (0x03, 1, 0xd9, 0), (0x06, 1, 0xd9, 0), (0x0a, 1, 0xd9, 0), (0x0f, 1, 0xd9, 0),
      (0x18, 1, 0xd9, 0), (0x1f, 1, 0xd9, 0), (0x29, 1, 0xd9, 0), (0x38, 1, 0xd9, 1)],
     [(0x03, 1, 0xe3, 0), (0x06, 1, 0xe3, 0), (0x0a, 1, 0xe3, 0), (0x0f, 1, 0xe3, 0),
      (0x18, 1, 0xe3, 0), (0x1f, 1, 0xe3, 0), (0x29, 1, 0xe3, 0), (0x38, 1, 0xe3, 1),
      (0x03, 1, 0xe5, 0), (0x06, 1, 0xe5, 0), (0x0a, 1, 0xe5, 0), (0x0f, 1, 0xe5, 0),
      (0x18, 1, 0xe5, 0), (0x1f, 1, 0xe5, 0), (0x29, 1, 0xe5, 0), (0x38, 1, 0xe5, 1)],
     [(0x01, 1, 0xe6, 0), (0x16, 1, 0xe6, 1), (0x00, 1, 0x81, 1), (0x00, 1, 0x84, 1),
      (0x00, 1, 0x85, 1), (0x00, 1, 0x86, 1), (0x00, 1, 0x88, 1), (0x00, 1, 0x92, 1),
      (0x00, 1, 0x9a, 1), (0x00, 1, 0x9c, 1), (0x00, 1, 0xa0, 1), (0x00, 1, 0xa3, 1),
      (0x00, 1, 0xa4, 1), (0x00, 1, 0xa9, 1), (0x00, 1, 0xaa, 1), (0x00, 1, 0xad, 1)]]"

definition huff_decode_codes_120 :: "huff_decode_code list list" where
  "huff_decode_codes_120 =
    [
     [(0x02, 1, 0xe6, 0), (0x09, 1, 0xe6, 0), (0x17, 1, 0xe6, 0), (0x28, 1, 0xe6, 1),
      (0x01, 1, 0x81, 0), (0x16, 1, 0x81, 1), (0x01, 1, 0x84, 0), (0x16, 1, 0x84, 1),
      (0x01, 1, 0x85, 0), (0x16, 1, 0x85, 1), (0x01, 1, 0x86, 0), (0x16, 1, 0x86, 1),
      (0x01, 1, 0x88, 0), (0x16, 1, 0x88, 1), (0x01, 1, 0x92, 0), (0x16, 1, 0x92, 1)],
     [(0x03, 1, 0xe6, 0), (0x06, 1, 0xe6, 0), (0x0a, 1, 0xe6, 0), (0x0f, 1, 0xe6, 0),
      (0x18, 1, 0xe6, 0), (0x1f, 1, 0xe6, 0), (0x29, 1, 0xe6, 0), (0x38, 1, 0xe6, 1),
      (0x02, 1, 0x81, 0), (0x09, 1, 0x81, 0), (0x17, 1, 0x81, 0), (0x28, 1, 0x81, 1),
      (0x02, 1, 0x84, 0), (0x09, 1, 0x84, 0), (0x17, 1, 0x84, 0), (0x28, 1, 0x84, 1)],
     [(0x03, 1, 0x81, 0), (0x06, 1, 0x81, 0), (0x0a, 1, 0x81, 0), (0x0f, 1, 0x81, 0),
      (0x18, 1, 0x81, 0), (0x1f, 1, 0x81, 0), (0x29, 1, 0x81, 0), (0x38, 1, 0x81, 1),
      (0x03, 1, 0x84, 0), (0x06, 1, 0x84, 0), (0x0a, 1, 0x84, 0), (0x0f, 1, 0x84, 0),
      (0x18, 1, 0x84, 0), (0x1f, 1, 0x84, 0), (0x29, 1, 0x84, 0), (0x38, 1, 0x84, 1)],
     [(0x02, 1, 0x85, 0), (0x09, 1, 0x85, 0), (0x17, 1, 0x85, 0), (0x28, 1, 0x85, 1),
      (0x02, 1, 0x86, 0), (0x09, 1, 0x86, 0), (0x17, 1, 0x86, 0), (0x28, 1, 0x86, 1),
      (0x02, 1, 0x88, 0), (0x09, 1, 0x88, 0), (0x17, 1, 0x88, 0), (0x28, 1, 0x88, 1),
      (0x02, 1, 0x92, 0), (0x09, 1, 0x92, 0), (0x17, 1, 0x92, 0), (0x28, 1, 0x92, 1)],
     [(0x03, 1, 0x85, 0), (0x06, 1, 0x85, 0), (0x0a, 1, 0x85, 0), (0x0f, 1, 0x85, 0),
      (0x18, 1, 0x85, 0), (0x1f, 1, 0x85, 0), (0x29, 1, 0x85, 0), (0x38, 1, 0x85, 1),
      (0x03, 1, 0x86, 0), (0x06, 1, 0x86, 0), (0x0a, 1, 0x86, 0), (0x0f, 1, 0x86, 0),
      (0x18, 1, 0x86, 0), (0x1f, 1, 0x86, 0), (0x29, 1, 0x86, 0), (0x38, 1, 0x86, 1)],
     [(0x03, 1, 0x88, 0), (0x06, 1, 0x88, 0), (0x0a, 1, 0x88, 0), (0x0f, 1, 0x88, 0),
      (0x18, 1, 0x88, 0), (0x1f, 1, 0x88, 0), (0x29, 1, 0x88, 0), (0x38, 1, 0x88, 1),
      (0x03, 1, 0x92, 0), (0x06, 1, 0x92, 0), (0x0a, 1, 0x92, 0), (0x0f, 1, 0x92, 0),
      (0x18, 1, 0x92, 0), (0x1f, 1, 0x92, 0), (0x29, 1, 0x92, 0), (0x38, 1, 0x92, 1)],
     [(0x01, 1, 0x9a, 0), (0x16, 1, 0x9a, 1), (0x01, 1, 0x9c, 0), (0x16, 1, 0x9c, 1),
      (0x01, 1, 0xa0, 0), (0x16, 1, 0xa0, 1), (0x01, 1, 0xa3, 0), (0x16, 1, 0xa3, 1),
      (0x01, 1, 0xa4, 0), (0x16, 1, 0xa4, 1), (0x01, 1, 0xa9, 0), (0x16, 1, 0xa9, 1),
      (0x01, 1, 0xaa, 0), (0x16, 1, 0xaa, 1), (0x01, 1, 0xad, 0), (0x16, 1, 0xad, 1)],
     [(0x02, 1, 0x9a, 0), (0x09, 1, 0x9a, 0), (0x17, 1, 0x9a, 0), (0x28, 1, 0x9a, 1),
      (0x02, 1, 0x9c, 0), (0x09, 1, 0x9c, 0), (0x17, 1, 0x9c, 0), (0x28, 1, 0x9c, 1),
      (0x02, 1, 0xa0, 0), (0x09, 1, 0xa0, 0), (0x17, 1, 0xa0, 0), (0x28, 1, 0xa0, 1),
      (0x02, 1, 0xa3, 0), (0x09, 1, 0xa3, 0), (0x17, 1, 0xa3, 0), (0x28, 1, 0xa3, 1)],
     [(0x03, 1, 0x9a, 0), (0x06, 1, 0x9a, 0), (0x0a, 1, 0x9a, 0), (0x0f, 1, 0x9a, 0),
      (0x18, 1, 0x9a, 0), (0x1f, 1, 0x9a, 0), (0x29, 1, 0x9a, 0), (0x38, 1, 0x9a, 1),
      (0x03, 1, 0x9c, 0), (0x06, 1, 0x9c, 0), (0x0a, 1, 0x9c, 0), (0x0f, 1, 0x9c, 0),
      (0x18, 1, 0x9c, 0), (0x1f, 1, 0x9c, 0), (0x29, 1, 0x9c, 0), (0x38, 1, 0x9c, 1)],
     [(0x03, 1, 0xa0, 0), (0x06, 1, 0xa0, 0), (0x0a, 1, 0xa0, 0), (0x0f, 1, 0xa0, 0),
      (0x18, 1, 0xa0, 0), (0x1f, 1, 0xa0, 0), (0x29, 1, 0xa0, 0), (0x38, 1, 0xa0, 1),
      (0x03, 1, 0xa3, 0), (0x06, 1, 0xa3, 0), (0x0a, 1, 0xa3, 0), (0x0f, 1, 0xa3, 0),
      (0x18, 1, 0xa3, 0), (0x1f, 1, 0xa3, 0), (0x29, 1, 0xa3, 0), (0x38, 1, 0xa3, 1)],
     [(0x02, 1, 0xa4, 0), (0x09, 1, 0xa4, 0), (0x17, 1, 0xa4, 0), (0x28, 1, 0xa4, 1),
      (0x02, 1, 0xa9, 0), (0x09, 1, 0xa9, 0), (0x17, 1, 0xa9, 0), (0x28, 1, 0xa9, 1),
      (0x02, 1, 0xaa, 0), (0x09, 1, 0xaa, 0), (0x17, 1, 0xaa, 0), (0x28, 1, 0xaa, 1),
      (0x02, 1, 0xad, 0), (0x09, 1, 0xad, 0), (0x17, 1, 0xad, 0), (0x28, 1, 0xad, 1)],
     [(0x03, 1, 0xa4, 0), (0x06, 1, 0xa4, 0), (0x0a, 1, 0xa4, 0), (0x0f, 1, 0xa4, 0),
      (0x18, 1, 0xa4, 0), (0x1f, 1, 0xa4, 0), (0x29, 1, 0xa4, 0), (0x38, 1, 0xa4, 1),
      (0x03, 1, 0xa9, 0), (0x06, 1, 0xa9, 0), (0x0a, 1, 0xa9, 0), (0x0f, 1, 0xa9, 0),
      (0x18, 1, 0xa9, 0), (0x1f, 1, 0xa9, 0), (0x29, 1, 0xa9, 0), (0x38, 1, 0xa9, 1)],
     [(0x03, 1, 0xaa, 0), (0x06, 1, 0xaa, 0), (0x0a, 1, 0xaa, 0), (0x0f, 1, 0xaa, 0),
      (0x18, 1, 0xaa, 0), (0x1f, 1, 0xaa, 0), (0x29, 1, 0xaa, 0), (0x38, 1, 0xaa, 1),
      (0x03, 1, 0xad, 0), (0x06, 1, 0xad, 0), (0x0a, 1, 0xad, 0), (0x0f, 1, 0xad, 0),
      (0x18, 1, 0xad, 0), (0x1f, 1, 0xad, 0), (0x29, 1, 0xad, 0), (0x38, 1, 0xad, 1)],
     [(0x89, 0, 0x00, 0), (0x8a, 0, 0x00, 0), (0x8c, 0, 0x00, 0), (0x8d, 0, 0x00, 0),
      (0x90, 0, 0x00, 0), (0x91, 0, 0x00, 0), (0x93, 0, 0x00, 0), (0x96, 0, 0x00, 0),
      (0x9c, 0, 0x00, 0), (0x9f, 0, 0x00, 0), (0xa3, 0, 0x00, 0), (0xa6, 0, 0x00, 0),
      (0xab, 0, 0x00, 0), (0xae, 0, 0x00, 0), (0xb5, 0, 0x00, 0), (0xbe, 0, 0x00, 1)],
     [(0x00, 1, 0xb2, 1), (0x00, 1, 0xb5, 1), (0x00, 1, 0xb9, 1), (0x00, 1, 0xba, 1),
      (0x00, 1, 0xbb, 1), (0x00, 1, 0xbd, 1), (0x00, 1, 0xbe, 1), (0x00, 1, 0xc4, 1),
      (0x00, 1, 0xc6, 1), (0x00, 1, 0xe4, 1), (0x00, 1, 0xe8, 1), (0x00, 1, 0xe9, 1),
      (0x94, 0, 0x00, 0), (0x95, 0, 0x00, 0), (0x97, 0, 0x00, 0), (0x98, 0, 0x00, 0)]]"

definition huff_decode_codes_135 :: "huff_decode_code list list" where
  "huff_decode_codes_135 =
    [
     [(0x01, 1, 0xb2, 0), (0x16, 1, 0xb2, 1), (0x01, 1, 0xb5, 0), (0x16, 1, 0xb5, 1),
      (0x01, 1, 0xb9, 0), (0x16, 1, 0xb9, 1), (0x01, 1, 0xba, 0), (0x16, 1, 0xba, 1),
      (0x01, 1, 0xbb, 0), (0x16, 1, 0xbb, 1), (0x01, 1, 0xbd, 0), (0x16, 1, 0xbd, 1),
      (0x01, 1, 0xbe, 0), (0x16, 1, 0xbe, 1), (0x01, 1, 0xc4, 0), (0x16, 1, 0xc4, 1)],
     [(0x02, 1, 0xb2, 0), (0x09, 1, 0xb2, 0), (0x17, 1, 0xb2, 0), (0x28, 1, 0xb2, 1),
      (0x02, 1, 0xb5, 0), (0x09, 1, 0xb5, 0), (0x17, 1, 0xb5, 0), (0x28, 1, 0xb5, 1),
      (0x02, 1, 0xb9, 0), (0x09, 1, 0xb9, 0), (0x17, 1, 0xb9, 0), (0x28, 1, 0xb9, 1),
      (0x02, 1, 0xba, 0), (0x09, 1, 0xba, 0), (0x17, 1, 0xba, 0), (0x28, 1, 0xba, 1)],
     [(0x03, 1, 0xb2, 0), (0x06, 1, 0xb2, 0), (0x0a, 1, 0xb2, 0), (0x0f, 1, 0xb2, 0),
      (0x18, 1, 0xb2, 0), (0x1f, 1, 0xb2, 0), (0x29, 1, 0xb2, 0), (0x38, 1, 0xb2, 1),
      (0x03, 1, 0xb5, 0), (0x06, 1, 0xb5, 0), (0x0a, 1, 0xb5, 0), (0x0f, 1, 0xb5, 0),
      (0x18, 1, 0xb5, 0), (0x1f, 1, 0xb5, 0), (0x29, 1, 0xb5, 0), (0x38, 1, 0xb5, 1)],
     [(0x03, 1, 0xb9, 0), (0x06, 1, 0xb9, 0), (0x0a, 1, 0xb9, 0), (0x0f, 1, 0xb9, 0),
      (0x18, 1, 0xb9, 0), (0x1f, 1, 0xb9, 0), (0x29, 1, 0xb9, 0), (0x38, 1, 0xb9, 1),
      (0x03, 1, 0xba, 0), (0x06, 1, 0xba, 0), (0x0a, 1, 0xba, 0), (0x0f, 1, 0xba, 0),
      (0x18, 1, 0xba, 0), (0x1f, 1, 0xba, 0), (0x29, 1, 0xba, 0), (0x38, 1, 0xba, 1)],
     [(0x02, 1, 0xbb, 0), (0x09, 1, 0xbb, 0), (0x17, 1, 0xbb, 0), (0x28, 1, 0xbb, 1),
      (0x02, 1, 0xbd, 0), (0x09, 1, 0xbd, 0), (0x17, 1, 0xbd, 0), (0x28, 1, 0xbd, 1),
      (0x02, 1, 0xbe, 0), (0x09, 1, 0xbe, 0), (0x17, 1, 0xbe, 0), (0x28, 1, 0xbe, 1),
      (0x02, 1, 0xc4, 0), (0x09, 1, 0xc4, 0), (0x17, 1, 0xc4, 0), (0x28, 1, 0xc4, 1)],
     [(0x03, 1, 0xbb, 0), (0x06, 1, 0xbb, 0), (0x0a, 1, 0xbb, 0), (0x0f, 1, 0xbb, 0),
      (0x18, 1, 0xbb, 0), (0x1f, 1, 0xbb, 0), (0x29, 1, 0xbb, 0), (0x38, 1, 0xbb, 1),
      (0x03, 1, 0xbd, 0), (0x06, 1, 0xbd, 0), (0x0a, 1, 0xbd, 0), (0x0f, 1, 0xbd, 0),
      (0x18, 1, 0xbd, 0), (0x1f, 1, 0xbd, 0), (0x29, 1, 0xbd, 0), (0x38, 1, 0xbd, 1)],
     [(0x03, 1, 0xbe, 0), (0x06, 1, 0xbe, 0), (0x0a, 1, 0xbe, 0), (0x0f, 1, 0xbe, 0),
      (0x18, 1, 0xbe, 0), (0x1f, 1, 0xbe, 0), (0x29, 1, 0xbe, 0), (0x38, 1, 0xbe, 1),
      (0x03, 1, 0xc4, 0), (0x06, 1, 0xc4, 0), (0x0a, 1, 0xc4, 0), (0x0f, 1, 0xc4, 0),
      (0x18, 1, 0xc4, 0), (0x1f, 1, 0xc4, 0), (0x29, 1, 0xc4, 0), (0x38, 1, 0xc4, 1)],
     [(0x01, 1, 0xc6, 0), (0x16, 1, 0xc6, 1), (0x01, 1, 0xe4, 0), (0x16, 1, 0xe4, 1),
      (0x01, 1, 0xe8, 0), (0x16, 1, 0xe8, 1), (0x01, 1, 0xe9, 0), (0x16, 1, 0xe9, 1),
      (0x00, 1, 0x01, 1), (0x00, 1, 0x87, 1), (0x00, 1, 0x89, 1), (0x00, 1, 0x8a, 1),
      (0x00, 1, 0x8b, 1), (0x00, 1, 0x8c, 1), (0x00, 1, 0x8d, 1), (0x00, 1, 0x8f, 1)],
     [(0x02, 1, 0xc6, 0), (0x09, 1, 0xc6, 0), (0x17, 1, 0xc6, 0), (0x28, 1, 0xc6, 1),
      (0x02, 1, 0xe4, 0), (0x09, 1, 0xe4, 0), (0x17, 1, 0xe4, 0), (0x28, 1, 0xe4, 1),
      (0x02, 1, 0xe8, 0), (0x09, 1, 0xe8, 0), (0x17, 1, 0xe8, 0), (0x28, 1, 0xe8, 1),
      (0x02, 1, 0xe9, 0), (0x09, 1, 0xe9, 0), (0x17, 1, 0xe9, 0), (0x28, 1, 0xe9, 1)],
     [(0x03, 1, 0xc6, 0), (0x06, 1, 0xc6, 0), (0x0a, 1, 0xc6, 0), (0x0f, 1, 0xc6, 0),
      (0x18, 1, 0xc6, 0), (0x1f, 1, 0xc6, 0), (0x29, 1, 0xc6, 0), (0x38, 1, 0xc6, 1),
      (0x03, 1, 0xe4, 0), (0x06, 1, 0xe4, 0), (0x0a, 1, 0xe4, 0), (0x0f, 1, 0xe4, 0),
      (0x18, 1, 0xe4, 0), (0x1f, 1, 0xe4, 0), (0x29, 1, 0xe4, 0), (0x38, 1, 0xe4, 1)],
     [(0x03, 1, 0xe8, 0), (0x06, 1, 0xe8, 0), (0x0a, 1, 0xe8, 0), (0x0f, 1, 0xe8, 0),
      (0x18, 1, 0xe8, 0), (0x1f, 1, 0xe8, 0), (0x29, 1, 0xe8, 0), (0x38, 1, 0xe8, 1),
      (0x03, 1, 0xe9, 0), (0x06, 1, 0xe9, 0), (0x0a, 1, 0xe9, 0), (0x0f, 1, 0xe9, 0),
      (0x18, 1, 0xe9, 0), (0x1f, 1, 0xe9, 0), (0x29, 1, 0xe9, 0), (0x38, 1, 0xe9, 1)],
     [(0x01, 1, 0x01, 0), (0x16, 1, 0x01, 1), (0x01, 1, 0x87, 0), (0x16, 1, 0x87, 1),
      (0x01, 1, 0x89, 0), (0x16, 1, 0x89, 1), (0x01, 1, 0x8a, 0), (0x16, 1, 0x8a, 1),
      (0x01, 1, 0x8b, 0), (0x16, 1, 0x8b, 1), (0x01, 1, 0x8c, 0), (0x16, 1, 0x8c, 1),
      (0x01, 1, 0x8d, 0), (0x16, 1, 0x8d, 1), (0x01, 1, 0x8f, 0), (0x16, 1, 0x8f, 1)],
     [(0x02, 1, 0x01, 0), (0x09, 1, 0x01, 0), (0x17, 1, 0x01, 0), (0x28, 1, 0x01, 1),
      (0x02, 1, 0x87, 0), (0x09, 1, 0x87, 0), (0x17, 1, 0x87, 0), (0x28, 1, 0x87, 1),
      (0x02, 1, 0x89, 0), (0x09, 1, 0x89, 0), (0x17, 1, 0x89, 0), (0x28, 1, 0x89, 1),
      (0x02, 1, 0x8a, 0), (0x09, 1, 0x8a, 0), (0x17, 1, 0x8a, 0), (0x28, 1, 0x8a, 1)],
     [(0x03, 1, 0x01, 0), (0x06, 1, 0x01, 0), (0x0a, 1, 0x01, 0), (0x0f, 1, 0x01, 0),
      (0x18, 1, 0x01, 0), (0x1f, 1, 0x01, 0), (0x29, 1, 0x01, 0), (0x38, 1, 0x01, 1),
      (0x03, 1, 0x87, 0), (0x06, 1, 0x87, 0), (0x0a, 1, 0x87, 0), (0x0f, 1, 0x87, 0),
      (0x18, 1, 0x87, 0), (0x1f, 1, 0x87, 0), (0x29, 1, 0x87, 0), (0x38, 1, 0x87, 1)],
     [(0x03, 1, 0x89, 0), (0x06, 1, 0x89, 0), (0x0a, 1, 0x89, 0), (0x0f, 1, 0x89, 0),
      (0x18, 1, 0x89, 0), (0x1f, 1, 0x89, 0), (0x29, 1, 0x89, 0), (0x38, 1, 0x89, 1),
      (0x03, 1, 0x8a, 0), (0x06, 1, 0x8a, 0), (0x0a, 1, 0x8a, 0), (0x0f, 1, 0x8a, 0),
      (0x18, 1, 0x8a, 0), (0x1f, 1, 0x8a, 0), (0x29, 1, 0x8a, 0), (0x38, 1, 0x8a, 1)]]"

definition huff_decode_codes_150 :: "huff_decode_code list list" where
  "huff_decode_codes_150 =
    [
     [(0x02, 1, 0x8b, 0), (0x09, 1, 0x8b, 0), (0x17, 1, 0x8b, 0), (0x28, 1, 0x8b, 1),
      (0x02, 1, 0x8c, 0), (0x09, 1, 0x8c, 0), (0x17, 1, 0x8c, 0), (0x28, 1, 0x8c, 1),
      (0x02, 1, 0x8d, 0), (0x09, 1, 0x8d, 0), (0x17, 1, 0x8d, 0), (0x28, 1, 0x8d, 1),
      (0x02, 1, 0x8f, 0), (0x09, 1, 0x8f, 0), (0x17, 1, 0x8f, 0), (0x28, 1, 0x8f, 1)],
     [(0x03, 1, 0x8b, 0), (0x06, 1, 0x8b, 0), (0x0a, 1, 0x8b, 0), (0x0f, 1, 0x8b, 0),
      (0x18, 1, 0x8b, 0), (0x1f, 1, 0x8b, 0), (0x29, 1, 0x8b, 0), (0x38, 1, 0x8b, 1),
      (0x03, 1, 0x8c, 0), (0x06, 1, 0x8c, 0), (0x0a, 1, 0x8c, 0), (0x0f, 1, 0x8c, 0),
      (0x18, 1, 0x8c, 0), (0x1f, 1, 0x8c, 0), (0x29, 1, 0x8c, 0), (0x38, 1, 0x8c, 1)],
     [(0x03, 1, 0x8d, 0), (0x06, 1, 0x8d, 0), (0x0a, 1, 0x8d, 0), (0x0f, 1, 0x8d, 0),
      (0x18, 1, 0x8d, 0), (0x1f, 1, 0x8d, 0), (0x29, 1, 0x8d, 0), (0x38, 1, 0x8d, 1),
      (0x03, 1, 0x8f, 0), (0x06, 1, 0x8f, 0), (0x0a, 1, 0x8f, 0), (0x0f, 1, 0x8f, 0),
      (0x18, 1, 0x8f, 0), (0x1f, 1, 0x8f, 0), (0x29, 1, 0x8f, 0), (0x38, 1, 0x8f, 1)],
     [(0x9d, 0, 0x00, 0), (0x9e, 0, 0x00, 0), (0xa0, 0, 0x00, 0), (0xa1, 0, 0x00, 0),
      (0xa4, 0, 0x00, 0), (0xa5, 0, 0x00, 0), (0xa7, 0, 0x00, 0), (0xa8, 0, 0x00, 0),
      (0xac, 0, 0x00, 0), (0xad, 0, 0x00, 0), (0xaf, 0, 0x00, 0), (0xb1, 0, 0x00, 0),
      (0xb6, 0, 0x00, 0), (0xb9, 0, 0x00, 0), (0xbf, 0, 0x00, 0), (0xcf, 0, 0x00, 1)],
     [(0x00, 1, 0x93, 1), (0x00, 1, 0x95, 1), (0x00, 1, 0x96, 1), (0x00, 1, 0x97, 1),
      (0x00, 1, 0x98, 1), (0x00, 1, 0x9b, 1), (0x00, 1, 0x9d, 1), (0x00, 1, 0x9e, 1),
      (0x00, 1, 0xa5, 1), (0x00, 1, 0xa6, 1), (0x00, 1, 0xa8, 1), (0x00, 1, 0xae, 1),
      (0x00, 1, 0xaf, 1), (0x00, 1, 0xb4, 1), (0x00, 1, 0xb6, 1), (0x00, 1, 0xb7, 1)],
     [(0x01, 1, 0x93, 0), (0x16, 1, 0x93, 1), (0x01, 1, 0x95, 0), (0x16, 1, 0x95, 1),
      (0x01, 1, 0x96, 0), (0x16, 1, 0x96, 1), (0x01, 1, 0x97, 0), (0x16, 1, 0x97, 1),
      (0x01, 1, 0x98, 0), (0x16, 1, 0x98, 1), (0x01, 1, 0x9b, 0), (0x16, 1, 0x9b, 1),
      (0x01, 1, 0x9d, 0), (0x16, 1, 0x9d, 1), (0x01, 1, 0x9e, 0), (0x16, 1, 0x9e, 1)],
     [(0x02, 1, 0x93, 0), (0x09, 1, 0x93, 0), (0x17, 1, 0x93, 0), (0x28, 1, 0x93, 1),
      (0x02, 1, 0x95, 0), (0x09, 1, 0x95, 0), (0x17, 1, 0x95, 0), (0x28, 1, 0x95, 1),
      (0x02, 1, 0x96, 0), (0x09, 1, 0x96, 0), (0x17, 1, 0x96, 0), (0x28, 1, 0x96, 1),
      (0x02, 1, 0x97, 0), (0x09, 1, 0x97, 0), (0x17, 1, 0x97, 0), (0x28, 1, 0x97, 1)],
     [(0x03, 1, 0x93, 0), (0x06, 1, 0x93, 0), (0x0a, 1, 0x93, 0), (0x0f, 1, 0x93, 0),
      (0x18, 1, 0x93, 0), (0x1f, 1, 0x93, 0), (0x29, 1, 0x93, 0), (0x38, 1, 0x93, 1),
      (0x03, 1, 0x95, 0), (0x06, 1, 0x95, 0), (0x0a, 1, 0x95, 0), (0x0f, 1, 0x95, 0),
      (0x18, 1, 0x95, 0), (0x1f, 1, 0x95, 0), (0x29, 1, 0x95, 0), (0x38, 1, 0x95, 1)],
     [(0x03, 1, 0x96, 0), (0x06, 1, 0x96, 0), (0x0a, 1, 0x96, 0), (0x0f, 1, 0x96, 0),
      (0x18, 1, 0x96, 0), (0x1f, 1, 0x96, 0), (0x29, 1, 0x96, 0), (0x38, 1, 0x96, 1),
      (0x03, 1, 0x97, 0), (0x06, 1, 0x97, 0), (0x0a, 1, 0x97, 0), (0x0f, 1, 0x97, 0),
      (0x18, 1, 0x97, 0), (0x1f, 1, 0x97, 0), (0x29, 1, 0x97, 0), (0x38, 1, 0x97, 1)],
     [(0x02, 1, 0x98, 0), (0x09, 1, 0x98, 0), (0x17, 1, 0x98, 0), (0x28, 1, 0x98, 1),
      (0x02, 1, 0x9b, 0), (0x09, 1, 0x9b, 0), (0x17, 1, 0x9b, 0), (0x28, 1, 0x9b, 1),
      (0x02, 1, 0x9d, 0), (0x09, 1, 0x9d, 0), (0x17, 1, 0x9d, 0), (0x28, 1, 0x9d, 1),
      (0x02, 1, 0x9e, 0), (0x09, 1, 0x9e, 0), (0x17, 1, 0x9e, 0), (0x28, 1, 0x9e, 1)],
     [(0x03, 1, 0x98, 0), (0x06, 1, 0x98, 0), (0x0a, 1, 0x98, 0), (0x0f, 1, 0x98, 0),
      (0x18, 1, 0x98, 0), (0x1f, 1, 0x98, 0), (0x29, 1, 0x98, 0), (0x38, 1, 0x98, 1),
      (0x03, 1, 0x9b, 0), (0x06, 1, 0x9b, 0), (0x0a, 1, 0x9b, 0), (0x0f, 1, 0x9b, 0),
      (0x18, 1, 0x9b, 0), (0x1f, 1, 0x9b, 0), (0x29, 1, 0x9b, 0), (0x38, 1, 0x9b, 1)],
     [(0x03, 1, 0x9d, 0), (0x06, 1, 0x9d, 0), (0x0a, 1, 0x9d, 0), (0x0f, 1, 0x9d, 0),
      (0x18, 1, 0x9d, 0), (0x1f, 1, 0x9d, 0), (0x29, 1, 0x9d, 0), (0x38, 1, 0x9d, 1),
      (0x03, 1, 0x9e, 0), (0x06, 1, 0x9e, 0), (0x0a, 1, 0x9e, 0), (0x0f, 1, 0x9e, 0),
      (0x18, 1, 0x9e, 0), (0x1f, 1, 0x9e, 0), (0x29, 1, 0x9e, 0), (0x38, 1, 0x9e, 1)],
     [(0x01, 1, 0xa5, 0), (0x16, 1, 0xa5, 1), (0x01, 1, 0xa6, 0), (0x16, 1, 0xa6, 1),
      (0x01, 1, 0xa8, 0), (0x16, 1, 0xa8, 1), (0x01, 1, 0xae, 0), (0x16, 1, 0xae, 1),
      (0x01, 1, 0xaf, 0), (0x16, 1, 0xaf, 1), (0x01, 1, 0xb4, 0), (0x16, 1, 0xb4, 1),
      (0x01, 1, 0xb6, 0), (0x16, 1, 0xb6, 1), (0x01, 1, 0xb7, 0), (0x16, 1, 0xb7, 1)],
     [(0x02, 1, 0xa5, 0), (0x09, 1, 0xa5, 0), (0x17, 1, 0xa5, 0), (0x28, 1, 0xa5, 1),
      (0x02, 1, 0xa6, 0), (0x09, 1, 0xa6, 0), (0x17, 1, 0xa6, 0), (0x28, 1, 0xa6, 1),
      (0x02, 1, 0xa8, 0), (0x09, 1, 0xa8, 0), (0x17, 1, 0xa8, 0), (0x28, 1, 0xa8, 1),
      (0x02, 1, 0xae, 0), (0x09, 1, 0xae, 0), (0x17, 1, 0xae, 0), (0x28, 1, 0xae, 1)],
     [(0x03, 1, 0xa5, 0), (0x06, 1, 0xa5, 0), (0x0a, 1, 0xa5, 0), (0x0f, 1, 0xa5, 0),
      (0x18, 1, 0xa5, 0), (0x1f, 1, 0xa5, 0), (0x29, 1, 0xa5, 0), (0x38, 1, 0xa5, 1),
      (0x03, 1, 0xa6, 0), (0x06, 1, 0xa6, 0), (0x0a, 1, 0xa6, 0), (0x0f, 1, 0xa6, 0),
      (0x18, 1, 0xa6, 0), (0x1f, 1, 0xa6, 0), (0x29, 1, 0xa6, 0), (0x38, 1, 0xa6, 1)]]"

definition huff_decode_codes_165 :: "huff_decode_code list list" where
  "huff_decode_codes_165 =
    [
     [(0x03, 1, 0xa8, 0), (0x06, 1, 0xa8, 0), (0x0a, 1, 0xa8, 0), (0x0f, 1, 0xa8, 0),
      (0x18, 1, 0xa8, 0), (0x1f, 1, 0xa8, 0), (0x29, 1, 0xa8, 0), (0x38, 1, 0xa8, 1),
      (0x03, 1, 0xae, 0), (0x06, 1, 0xae, 0), (0x0a, 1, 0xae, 0), (0x0f, 1, 0xae, 0),
      (0x18, 1, 0xae, 0), (0x1f, 1, 0xae, 0), (0x29, 1, 0xae, 0), (0x38, 1, 0xae, 1)],
     [(0x02, 1, 0xaf, 0), (0x09, 1, 0xaf, 0), (0x17, 1, 0xaf, 0), (0x28, 1, 0xaf, 1),
      (0x02, 1, 0xb4, 0), (0x09, 1, 0xb4, 0), (0x17, 1, 0xb4, 0), (0x28, 1, 0xb4, 1),
      (0x02, 1, 0xb6, 0), (0x09, 1, 0xb6, 0), (0x17, 1, 0xb6, 0), (0x28, 1, 0xb6, 1),
      (0x02, 1, 0xb7, 0), (0x09, 1, 0xb7, 0), (0x17, 1, 0xb7, 0), (0x28, 1, 0xb7, 1)],
     [(0x03, 1, 0xaf, 0), (0x06, 1, 0xaf, 0), (0x0a, 1, 0xaf, 0), (0x0f, 1, 0xaf, 0),
      (0x18, 1, 0xaf, 0), (0x1f, 1, 0xaf, 0), (0x29, 1, 0xaf, 0), (0x38, 1, 0xaf, 1),
      (0x03, 1, 0xb4, 0), (0x06, 1, 0xb4, 0), (0x0a, 1, 0xb4, 0), (0x0f, 1, 0xb4, 0),
      (0x18, 1, 0xb4, 0), (0x1f, 1, 0xb4, 0), (0x29, 1, 0xb4, 0), (0x38, 1, 0xb4, 1)],
     [(0x03, 1, 0xb6, 0), (0x06, 1, 0xb6, 0), (0x0a, 1, 0xb6, 0), (0x0f, 1, 0xb6, 0),
      (0x18, 1, 0xb6, 0), (0x1f, 1, 0xb6, 0), (0x29, 1, 0xb6, 0), (0x38, 1, 0xb6, 1),
      (0x03, 1, 0xb7, 0), (0x06, 1, 0xb7, 0), (0x0a, 1, 0xb7, 0), (0x0f, 1, 0xb7, 0),
      (0x18, 1, 0xb7, 0), (0x1f, 1, 0xb7, 0), (0x29, 1, 0xb7, 0), (0x38, 1, 0xb7, 1)],
     [(0x00, 1, 0xbc, 1), (0x00, 1, 0xbf, 1), (0x00, 1, 0xc5, 1), (0x00, 1, 0xe7, 1),
      (0x00, 1, 0xef, 1), (0xb0, 0, 0x00, 0), (0xb2, 0, 0x00, 0), (0xb3, 0, 0x00, 0),
      (0xb7, 0, 0x00, 0), (0xb8, 0, 0x00, 0), (0xba, 0, 0x00, 0), (0xbb, 0, 0x00, 0),
      (0xc0, 0, 0x00, 0), (0xc7, 0, 0x00, 0), (0xd0, 0, 0x00, 0), (0xdf, 0, 0x00, 1)],
     [(0x01, 1, 0xbc, 0), (0x16, 1, 0xbc, 1), (0x01, 1, 0xbf, 0), (0x16, 1, 0xbf, 1),
      (0x01, 1, 0xc5, 0), (0x16, 1, 0xc5, 1), (0x01, 1, 0xe7, 0), (0x16, 1, 0xe7, 1),
      (0x01, 1, 0xef, 0), (0x16, 1, 0xef, 1), (0x00, 1, 0x09, 1), (0x00, 1, 0x8e, 1),
      (0x00, 1, 0x90, 1), (0x00, 1, 0x91, 1), (0x00, 1, 0x94, 1), (0x00, 1, 0x9f, 1)],
     [(0x02, 1, 0xbc, 0), (0x09, 1, 0xbc, 0), (0x17, 1, 0xbc, 0), (0x28, 1, 0xbc, 1),
      (0x02, 1, 0xbf, 0), (0x09, 1, 0xbf, 0), (0x17, 1, 0xbf, 0), (0x28, 1, 0xbf, 1),
      (0x02, 1, 0xc5, 0), (0x09, 1, 0xc5, 0), (0x17, 1, 0xc5, 0), (0x28, 1, 0xc5, 1),
      (0x02, 1, 0xe7, 0), (0x09, 1, 0xe7, 0), (0x17, 1, 0xe7, 0), (0x28, 1, 0xe7, 1)],
     [(0x03, 1, 0xbc, 0), (0x06, 1, 0xbc, 0), (0x0a, 1, 0xbc, 0), (0x0f, 1, 0xbc, 0),
      (0x18, 1, 0xbc, 0), (0x1f, 1, 0xbc, 0), (0x29, 1, 0xbc, 0), (0x38, 1, 0xbc, 1),
      (0x03, 1, 0xbf, 0), (0x06, 1, 0xbf, 0), (0x0a, 1, 0xbf, 0), (0x0f, 1, 0xbf, 0),
      (0x18, 1, 0xbf, 0), (0x1f, 1, 0xbf, 0), (0x29, 1, 0xbf, 0), (0x38, 1, 0xbf, 1)],
     [(0x03, 1, 0xc5, 0), (0x06, 1, 0xc5, 0), (0x0a, 1, 0xc5, 0), (0x0f, 1, 0xc5, 0),
      (0x18, 1, 0xc5, 0), (0x1f, 1, 0xc5, 0), (0x29, 1, 0xc5, 0), (0x38, 1, 0xc5, 1),
      (0x03, 1, 0xe7, 0), (0x06, 1, 0xe7, 0), (0x0a, 1, 0xe7, 0), (0x0f, 1, 0xe7, 0),
      (0x18, 1, 0xe7, 0), (0x1f, 1, 0xe7, 0), (0x29, 1, 0xe7, 0), (0x38, 1, 0xe7, 1)],
     [(0x02, 1, 0xef, 0), (0x09, 1, 0xef, 0), (0x17, 1, 0xef, 0), (0x28, 1, 0xef, 1),
      (0x01, 1, 0x09, 0), (0x16, 1, 0x09, 1), (0x01, 1, 0x8e, 0), (0x16, 1, 0x8e, 1),
      (0x01, 1, 0x90, 0), (0x16, 1, 0x90, 1), (0x01, 1, 0x91, 0), (0x16, 1, 0x91, 1),
      (0x01, 1, 0x94, 0), (0x16, 1, 0x94, 1), (0x01, 1, 0x9f, 0), (0x16, 1, 0x9f, 1)],
     [(0x03, 1, 0xef, 0), (0x06, 1, 0xef, 0), (0x0a, 1, 0xef, 0), (0x0f, 1, 0xef, 0),
      (0x18, 1, 0xef, 0), (0x1f, 1, 0xef, 0), (0x29, 1, 0xef, 0), (0x38, 1, 0xef, 1),
      (0x02, 1, 0x09, 0), (0x09, 1, 0x09, 0), (0x17, 1, 0x09, 0), (0x28, 1, 0x09, 1),
      (0x02, 1, 0x8e, 0), (0x09, 1, 0x8e, 0), (0x17, 1, 0x8e, 0), (0x28, 1, 0x8e, 1)],
     [(0x03, 1, 0x09, 0), (0x06, 1, 0x09, 0), (0x0a, 1, 0x09, 0), (0x0f, 1, 0x09, 0),
      (0x18, 1, 0x09, 0), (0x1f, 1, 0x09, 0), (0x29, 1, 0x09, 0), (0x38, 1, 0x09, 1),
      (0x03, 1, 0x8e, 0), (0x06, 1, 0x8e, 0), (0x0a, 1, 0x8e, 0), (0x0f, 1, 0x8e, 0),
      (0x18, 1, 0x8e, 0), (0x1f, 1, 0x8e, 0), (0x29, 1, 0x8e, 0), (0x38, 1, 0x8e, 1)],
     [(0x02, 1, 0x90, 0), (0x09, 1, 0x90, 0), (0x17, 1, 0x90, 0), (0x28, 1, 0x90, 1),
      (0x02, 1, 0x91, 0), (0x09, 1, 0x91, 0), (0x17, 1, 0x91, 0), (0x28, 1, 0x91, 1),
      (0x02, 1, 0x94, 0), (0x09, 1, 0x94, 0), (0x17, 1, 0x94, 0), (0x28, 1, 0x94, 1),
      (0x02, 1, 0x9f, 0), (0x09, 1, 0x9f, 0), (0x17, 1, 0x9f, 0), (0x28, 1, 0x9f, 1)],
     [(0x03, 1, 0x90, 0), (0x06, 1, 0x90, 0), (0x0a, 1, 0x90, 0), (0x0f, 1, 0x90, 0),
      (0x18, 1, 0x90, 0), (0x1f, 1, 0x90, 0), (0x29, 1, 0x90, 0), (0x38, 1, 0x90, 1),
      (0x03, 1, 0x91, 0), (0x06, 1, 0x91, 0), (0x0a, 1, 0x91, 0), (0x0f, 1, 0x91, 0),
      (0x18, 1, 0x91, 0), (0x1f, 1, 0x91, 0), (0x29, 1, 0x91, 0), (0x38, 1, 0x91, 1)],
     [(0x03, 1, 0x94, 0), (0x06, 1, 0x94, 0), (0x0a, 1, 0x94, 0), (0x0f, 1, 0x94, 0),
      (0x18, 1, 0x94, 0), (0x1f, 1, 0x94, 0), (0x29, 1, 0x94, 0), (0x38, 1, 0x94, 1),
      (0x03, 1, 0x9f, 0), (0x06, 1, 0x9f, 0), (0x0a, 1, 0x9f, 0), (0x0f, 1, 0x9f, 0),
      (0x18, 1, 0x9f, 0), (0x1f, 1, 0x9f, 0), (0x29, 1, 0x9f, 0), (0x38, 1, 0x9f, 1)]]"

definition huff_decode_codes_180 :: "huff_decode_code list list" where
  "huff_decode_codes_180 =
    [
     [(0x00, 1, 0xab, 1), (0x00, 1, 0xce, 1), (0x00, 1, 0xd7, 1), (0x00, 1, 0xe1, 1),
      (0x00, 1, 0xec, 1), (0x00, 1, 0xed, 1), (0xbc, 0, 0x00, 0), (0xbd, 0, 0x00, 0),
      (0xc1, 0, 0x00, 0), (0xc4, 0, 0x00, 0), (0xc8, 0, 0x00, 0), (0xcb, 0, 0x00, 0),
      (0xd1, 0, 0x00, 0), (0xd8, 0, 0x00, 0), (0xe0, 0, 0x00, 0), (0xee, 0, 0x00, 1)],
     [(0x01, 1, 0xab, 0), (0x16, 1, 0xab, 1), (0x01, 1, 0xce, 0), (0x16, 1, 0xce, 1),
      (0x01, 1, 0xd7, 0), (0x16, 1, 0xd7, 1), (0x01, 1, 0xe1, 0), (0x16, 1, 0xe1, 1),
      (0x01, 1, 0xec, 0), (0x16, 1, 0xec, 1), (0x01, 1, 0xed, 0), (0x16, 1, 0xed, 1),
      (0x00, 1, 0xc7, 1), (0x00, 1, 0xcf, 1), (0x00, 1, 0xea, 1), (0x00, 1, 0xeb, 1)],
     [(0x02, 1, 0xab, 0), (0x09, 1, 0xab, 0), (0x17, 1, 0xab, 0), (0x28, 1, 0xab, 1),
      (0x02, 1, 0xce, 0), (0x09, 1, 0xce, 0), (0x17, 1, 0xce, 0), (0x28, 1, 0xce, 1),
      (0x02, 1, 0xd7, 0), (0x09, 1, 0xd7, 0), (0x17, 1, 0xd7, 0), (0x28, 1, 0xd7, 1),
      (0x02, 1, 0xe1, 0), (0x09, 1, 0xe1, 0), (0x17, 1, 0xe1, 0), (0x28, 1, 0xe1, 1)],
     [(0x03, 1, 0xab, 0), (0x06, 1, 0xab, 0), (0x0a, 1, 0xab, 0), (0x0f, 1, 0xab, 0),
      (0x18, 1, 0xab, 0), (0x1f, 1, 0xab, 0), (0x29, 1, 0xab, 0), (0x38, 1, 0xab, 1),
      (0x03, 1, 0xce, 0), (0x06, 1, 0xce, 0), (0x0a, 1, 0xce, 0), (0x0f, 1, 0xce, 0),
      (0x18, 1, 0xce, 0), (0x1f, 1, 0xce, 0), (0x29, 1, 0xce, 0), (0x38, 1, 0xce, 1)],
     [(0x03, 1, 0xd7, 0), (0x06, 1, 0xd7, 0), (0x0a, 1, 0xd7, 0), (0x0f, 1, 0xd7, 0),
      (0x18, 1, 0xd7, 0), (0x1f, 1, 0xd7, 0), (0x29, 1, 0xd7, 0), (0x38, 1, 0xd7, 1),
      (0x03, 1, 0xe1, 0), (0x06, 1, 0xe1, 0), (0x0a, 1, 0xe1, 0), (0x0f, 1, 0xe1, 0),
      (0x18, 1, 0xe1, 0), (0x1f, 1, 0xe1, 0), (0x29, 1, 0xe1, 0), (0x38, 1, 0xe1, 1)],
     [(0x02, 1, 0xec, 0), (0x09, 1, 0xec, 0), (0x17, 1, 0xec, 0), (0x28, 1, 0xec, 1),
      (0x02, 1, 0xed, 0), (0x09, 1, 0xed, 0), (0x17, 1, 0xed, 0), (0x28, 1, 0xed, 1),
      (0x01, 1, 0xc7, 0), (0x16, 1, 0xc7, 1), (0x01, 1, 0xcf, 0), (0x16, 1, 0xcf, 1),
      (0x01, 1, 0xea, 0), (0x16, 1, 0xea, 1), (0x01, 1, 0xeb, 0), (0x16, 1, 0xeb, 1)],
     [(0x03, 1, 0xec, 0), (0x06, 1, 0xec, 0), (0x0a, 1, 0xec, 0), (0x0f, 1, 0xec, 0),
      (0x18, 1, 0xec, 0), (0x1f, 1, 0xec, 0), (0x29, 1, 0xec, 0), (0x38, 1, 0xec, 1),
      (0x03, 1, 0xed, 0), (0x06, 1, 0xed, 0), (0x0a, 1, 0xed, 0), (0x0f, 1, 0xed, 0),
      (0x18, 1, 0xed, 0), (0x1f, 1, 0xed, 0), (0x29, 1, 0xed, 0), (0x38, 1, 0xed, 1)],
     [(0x02, 1, 0xc7, 0), (0x09, 1, 0xc7, 0), (0x17, 1, 0xc7, 0), (0x28, 1, 0xc7, 1),
      (0x02, 1, 0xcf, 0), (0x09, 1, 0xcf, 0), (0x17, 1, 0xcf, 0), (0x28, 1, 0xcf, 1),
      (0x02, 1, 0xea, 0), (0x09, 1, 0xea, 0), (0x17, 1, 0xea, 0), (0x28, 1, 0xea, 1),
      (0x02, 1, 0xeb, 0), (0x09, 1, 0xeb, 0), (0x17, 1, 0xeb, 0), (0x28, 1, 0xeb, 1)],
     [(0x03, 1, 0xc7, 0), (0x06, 1, 0xc7, 0), (0x0a, 1, 0xc7, 0), (0x0f, 1, 0xc7, 0),
      (0x18, 1, 0xc7, 0), (0x1f, 1, 0xc7, 0), (0x29, 1, 0xc7, 0), (0x38, 1, 0xc7, 1),
      (0x03, 1, 0xcf, 0), (0x06, 1, 0xcf, 0), (0x0a, 1, 0xcf, 0), (0x0f, 1, 0xcf, 0),
      (0x18, 1, 0xcf, 0), (0x1f, 1, 0xcf, 0), (0x29, 1, 0xcf, 0), (0x38, 1, 0xcf, 1)],
     [(0x03, 1, 0xea, 0), (0x06, 1, 0xea, 0), (0x0a, 1, 0xea, 0), (0x0f, 1, 0xea, 0),
      (0x18, 1, 0xea, 0), (0x1f, 1, 0xea, 0), (0x29, 1, 0xea, 0), (0x38, 1, 0xea, 1),
      (0x03, 1, 0xeb, 0), (0x06, 1, 0xeb, 0), (0x0a, 1, 0xeb, 0), (0x0f, 1, 0xeb, 0),
      (0x18, 1, 0xeb, 0), (0x1f, 1, 0xeb, 0), (0x29, 1, 0xeb, 0), (0x38, 1, 0xeb, 1)],
     [(0xc2, 0, 0x00, 0), (0xc3, 0, 0x00, 0), (0xc5, 0, 0x00, 0), (0xc6, 0, 0x00, 0),
      (0xc9, 0, 0x00, 0), (0xca, 0, 0x00, 0), (0xcc, 0, 0x00, 0), (0xcd, 0, 0x00, 0),
      (0xd2, 0, 0x00, 0), (0xd5, 0, 0x00, 0), (0xd9, 0, 0x00, 0), (0xdc, 0, 0x00, 0),
      (0xe1, 0, 0x00, 0), (0xe7, 0, 0x00, 0), (0xef, 0, 0x00, 0), (0xf6, 0, 0x00, 1)],
     [(0x00, 1, 0xc0, 1), (0x00, 1, 0xc1, 1), (0x00, 1, 0xc8, 1), (0x00, 1, 0xc9, 1),
      (0x00, 1, 0xca, 1), (0x00, 1, 0xcd, 1), (0x00, 1, 0xd2, 1), (0x00, 1, 0xd5, 1),
      (0x00, 1, 0xda, 1), (0x00, 1, 0xdb, 1), (0x00, 1, 0xee, 1), (0x00, 1, 0xf0, 1),
      (0x00, 1, 0xf2, 1), (0x00, 1, 0xf3, 1), (0x00, 1, 0xff, 1), (0xce, 0, 0x00, 0)],
     [(0x01, 1, 0xc0, 0), (0x16, 1, 0xc0, 1), (0x01, 1, 0xc1, 0), (0x16, 1, 0xc1, 1),
      (0x01, 1, 0xc8, 0), (0x16, 1, 0xc8, 1), (0x01, 1, 0xc9, 0), (0x16, 1, 0xc9, 1),
      (0x01, 1, 0xca, 0), (0x16, 1, 0xca, 1), (0x01, 1, 0xcd, 0), (0x16, 1, 0xcd, 1),
      (0x01, 1, 0xd2, 0), (0x16, 1, 0xd2, 1), (0x01, 1, 0xd5, 0), (0x16, 1, 0xd5, 1)],
     [(0x02, 1, 0xc0, 0), (0x09, 1, 0xc0, 0), (0x17, 1, 0xc0, 0), (0x28, 1, 0xc0, 1),
      (0x02, 1, 0xc1, 0), (0x09, 1, 0xc1, 0), (0x17, 1, 0xc1, 0), (0x28, 1, 0xc1, 1),
      (0x02, 1, 0xc8, 0), (0x09, 1, 0xc8, 0), (0x17, 1, 0xc8, 0), (0x28, 1, 0xc8, 1),
      (0x02, 1, 0xc9, 0), (0x09, 1, 0xc9, 0), (0x17, 1, 0xc9, 0), (0x28, 1, 0xc9, 1)],
     [(0x03, 1, 0xc0, 0), (0x06, 1, 0xc0, 0), (0x0a, 1, 0xc0, 0), (0x0f, 1, 0xc0, 0),
      (0x18, 1, 0xc0, 0), (0x1f, 1, 0xc0, 0), (0x29, 1, 0xc0, 0), (0x38, 1, 0xc0, 1),
      (0x03, 1, 0xc1, 0), (0x06, 1, 0xc1, 0), (0x0a, 1, 0xc1, 0), (0x0f, 1, 0xc1, 0),
      (0x18, 1, 0xc1, 0), (0x1f, 1, 0xc1, 0), (0x29, 1, 0xc1, 0), (0x38, 1, 0xc1, 1)]]"

definition huff_decode_codes_195 :: "huff_decode_code list list" where
  "huff_decode_codes_195 =
    [
     [(0x03, 1, 0xc8, 0), (0x06, 1, 0xc8, 0), (0x0a, 1, 0xc8, 0), (0x0f, 1, 0xc8, 0),
      (0x18, 1, 0xc8, 0), (0x1f, 1, 0xc8, 0), (0x29, 1, 0xc8, 0), (0x38, 1, 0xc8, 1),
      (0x03, 1, 0xc9, 0), (0x06, 1, 0xc9, 0), (0x0a, 1, 0xc9, 0), (0x0f, 1, 0xc9, 0),
      (0x18, 1, 0xc9, 0), (0x1f, 1, 0xc9, 0), (0x29, 1, 0xc9, 0), (0x38, 1, 0xc9, 1)],
     [(0x02, 1, 0xca, 0), (0x09, 1, 0xca, 0), (0x17, 1, 0xca, 0), (0x28, 1, 0xca, 1),
      (0x02, 1, 0xcd, 0), (0x09, 1, 0xcd, 0), (0x17, 1, 0xcd, 0), (0x28, 1, 0xcd, 1),
      (0x02, 1, 0xd2, 0), (0x09, 1, 0xd2, 0), (0x17, 1, 0xd2, 0), (0x28, 1, 0xd2, 1),
      (0x02, 1, 0xd5, 0), (0x09, 1, 0xd5, 0), (0x17, 1, 0xd5, 0), (0x28, 1, 0xd5, 1)],
     [(0x03, 1, 0xca, 0), (0x06, 1, 0xca, 0), (0x0a, 1, 0xca, 0), (0x0f, 1, 0xca, 0),
      (0x18, 1, 0xca, 0), (0x1f, 1, 0xca, 0), (0x29, 1, 0xca, 0), (0x38, 1, 0xca, 1),
      (0x03, 1, 0xcd, 0), (0x06, 1, 0xcd, 0), (0x0a, 1, 0xcd, 0), (0x0f, 1, 0xcd, 0),
      (0x18, 1, 0xcd, 0), (0x1f, 1, 0xcd, 0), (0x29, 1, 0xcd, 0), (0x38, 1, 0xcd, 1)],
     [(0x03, 1, 0xd2, 0), (0x06, 1, 0xd2, 0), (0x0a, 1, 0xd2, 0), (0x0f, 1, 0xd2, 0),
      (0x18, 1, 0xd2, 0), (0x1f, 1, 0xd2, 0), (0x29, 1, 0xd2, 0), (0x38, 1, 0xd2, 1),
      (0x03, 1, 0xd5, 0), (0x06, 1, 0xd5, 0), (0x0a, 1, 0xd5, 0), (0x0f, 1, 0xd5, 0),
      (0x18, 1, 0xd5, 0), (0x1f, 1, 0xd5, 0), (0x29, 1, 0xd5, 0), (0x38, 1, 0xd5, 1)],
     [(0x01, 1, 0xda, 0), (0x16, 1, 0xda, 1), (0x01, 1, 0xdb, 0), (0x16, 1, 0xdb, 1),
      (0x01, 1, 0xee, 0), (0x16, 1, 0xee, 1), (0x01, 1, 0xf0, 0), (0x16, 1, 0xf0, 1),
      (0x01, 1, 0xf2, 0), (0x16, 1, 0xf2, 1), (0x01, 1, 0xf3, 0), (0x16, 1, 0xf3, 1),
      (0x01, 1, 0xff, 0), (0x16, 1, 0xff, 1), (0x00, 1, 0xcb, 1), (0x00, 1, 0xcc, 1)],
     [(0x02, 1, 0xda, 0), (0x09, 1, 0xda, 0), (0x17, 1, 0xda, 0), (0x28, 1, 0xda, 1),
      (0x02, 1, 0xdb, 0), (0x09, 1, 0xdb, 0), (0x17, 1, 0xdb, 0), (0x28, 1, 0xdb, 1),
      (0x02, 1, 0xee, 0), (0x09, 1, 0xee, 0), (0x17, 1, 0xee, 0), (0x28, 1, 0xee, 1),
      (0x02, 1, 0xf0, 0), (0x09, 1, 0xf0, 0), (0x17, 1, 0xf0, 0), (0x28, 1, 0xf0, 1)],
     [(0x03, 1, 0xda, 0), (0x06, 1, 0xda, 0), (0x0a, 1, 0xda, 0), (0x0f, 1, 0xda, 0),
      (0x18, 1, 0xda, 0), (0x1f, 1, 0xda, 0), (0x29, 1, 0xda, 0), (0x38, 1, 0xda, 1),
      (0x03, 1, 0xdb, 0), (0x06, 1, 0xdb, 0), (0x0a, 1, 0xdb, 0), (0x0f, 1, 0xdb, 0),
      (0x18, 1, 0xdb, 0), (0x1f, 1, 0xdb, 0), (0x29, 1, 0xdb, 0), (0x38, 1, 0xdb, 1)],
     [(0x03, 1, 0xee, 0), (0x06, 1, 0xee, 0), (0x0a, 1, 0xee, 0), (0x0f, 1, 0xee, 0),
      (0x18, 1, 0xee, 0), (0x1f, 1, 0xee, 0), (0x29, 1, 0xee, 0), (0x38, 1, 0xee, 1),
      (0x03, 1, 0xf0, 0), (0x06, 1, 0xf0, 0), (0x0a, 1, 0xf0, 0), (0x0f, 1, 0xf0, 0),
      (0x18, 1, 0xf0, 0), (0x1f, 1, 0xf0, 0), (0x29, 1, 0xf0, 0), (0x38, 1, 0xf0, 1)],
     [(0x02, 1, 0xf2, 0), (0x09, 1, 0xf2, 0), (0x17, 1, 0xf2, 0), (0x28, 1, 0xf2, 1),
      (0x02, 1, 0xf3, 0), (0x09, 1, 0xf3, 0), (0x17, 1, 0xf3, 0), (0x28, 1, 0xf3, 1),
      (0x02, 1, 0xff, 0), (0x09, 1, 0xff, 0), (0x17, 1, 0xff, 0), (0x28, 1, 0xff, 1),
      (0x01, 1, 0xcb, 0), (0x16, 1, 0xcb, 1), (0x01, 1, 0xcc, 0), (0x16, 1, 0xcc, 1)],
     [(0x03, 1, 0xf2, 0), (0x06, 1, 0xf2, 0), (0x0a, 1, 0xf2, 0), (0x0f, 1, 0xf2, 0),
      (0x18, 1, 0xf2, 0), (0x1f, 1, 0xf2, 0), (0x29, 1, 0xf2, 0), (0x38, 1, 0xf2, 1),
      (0x03, 1, 0xf3, 0), (0x06, 1, 0xf3, 0), (0x0a, 1, 0xf3, 0), (0x0f, 1, 0xf3, 0),
      (0x18, 1, 0xf3, 0), (0x1f, 1, 0xf3, 0), (0x29, 1, 0xf3, 0), (0x38, 1, 0xf3, 1)],
     [(0x03, 1, 0xff, 0), (0x06, 1, 0xff, 0), (0x0a, 1, 0xff, 0), (0x0f, 1, 0xff, 0),
      (0x18, 1, 0xff, 0), (0x1f, 1, 0xff, 0), (0x29, 1, 0xff, 0), (0x38, 1, 0xff, 1),
      (0x02, 1, 0xcb, 0), (0x09, 1, 0xcb, 0), (0x17, 1, 0xcb, 0), (0x28, 1, 0xcb, 1),
      (0x02, 1, 0xcc, 0), (0x09, 1, 0xcc, 0), (0x17, 1, 0xcc, 0), (0x28, 1, 0xcc, 1)],
     [(0x03, 1, 0xcb, 0), (0x06, 1, 0xcb, 0), (0x0a, 1, 0xcb, 0), (0x0f, 1, 0xcb, 0),
      (0x18, 1, 0xcb, 0), (0x1f, 1, 0xcb, 0), (0x29, 1, 0xcb, 0), (0x38, 1, 0xcb, 1),
      (0x03, 1, 0xcc, 0), (0x06, 1, 0xcc, 0), (0x0a, 1, 0xcc, 0), (0x0f, 1, 0xcc, 0),
      (0x18, 1, 0xcc, 0), (0x1f, 1, 0xcc, 0), (0x29, 1, 0xcc, 0), (0x38, 1, 0xcc, 1)],
     [(0xd3, 0, 0x00, 0), (0xd4, 0, 0x00, 0), (0xd6, 0, 0x00, 0), (0xd7, 0, 0x00, 0),
      (0xda, 0, 0x00, 0), (0xdb, 0, 0x00, 0), (0xdd, 0, 0x00, 0), (0xde, 0, 0x00, 0),
      (0xe2, 0, 0x00, 0), (0xe4, 0, 0x00, 0), (0xe8, 0, 0x00, 0), (0xeb, 0, 0x00, 0),
      (0xf0, 0, 0x00, 0), (0xf3, 0, 0x00, 0), (0xf7, 0, 0x00, 0), (0xfa, 0, 0x00, 1)],
     [(0x00, 1, 0xd3, 1), (0x00, 1, 0xd4, 1), (0x00, 1, 0xd6, 1), (0x00, 1, 0xdd, 1),
      (0x00, 1, 0xde, 1), (0x00, 1, 0xdf, 1), (0x00, 1, 0xf1, 1), (0x00, 1, 0xf4, 1),
      (0x00, 1, 0xf5, 1), (0x00, 1, 0xf6, 1), (0x00, 1, 0xf7, 1), (0x00, 1, 0xf8, 1),
      (0x00, 1, 0xfa, 1), (0x00, 1, 0xfb, 1), (0x00, 1, 0xfc, 1), (0x00, 1, 0xfd, 1)],
     [(0x01, 1, 0xd3, 0), (0x16, 1, 0xd3, 1), (0x01, 1, 0xd4, 0), (0x16, 1, 0xd4, 1),
      (0x01, 1, 0xd6, 0), (0x16, 1, 0xd6, 1), (0x01, 1, 0xdd, 0), (0x16, 1, 0xdd, 1),
      (0x01, 1, 0xde, 0), (0x16, 1, 0xde, 1), (0x01, 1, 0xdf, 0), (0x16, 1, 0xdf, 1),
      (0x01, 1, 0xf1, 0), (0x16, 1, 0xf1, 1), (0x01, 1, 0xf4, 0), (0x16, 1, 0xf4, 1)]]"

definition huff_decode_codes_210 :: "huff_decode_code list list" where
  "huff_decode_codes_210 =
    [
     [(0x02, 1, 0xd3, 0), (0x09, 1, 0xd3, 0), (0x17, 1, 0xd3, 0), (0x28, 1, 0xd3, 1),
      (0x02, 1, 0xd4, 0), (0x09, 1, 0xd4, 0), (0x17, 1, 0xd4, 0), (0x28, 1, 0xd4, 1),
      (0x02, 1, 0xd6, 0), (0x09, 1, 0xd6, 0), (0x17, 1, 0xd6, 0), (0x28, 1, 0xd6, 1),
      (0x02, 1, 0xdd, 0), (0x09, 1, 0xdd, 0), (0x17, 1, 0xdd, 0), (0x28, 1, 0xdd, 1)],
     [(0x03, 1, 0xd3, 0), (0x06, 1, 0xd3, 0), (0x0a, 1, 0xd3, 0), (0x0f, 1, 0xd3, 0),
      (0x18, 1, 0xd3, 0), (0x1f, 1, 0xd3, 0), (0x29, 1, 0xd3, 0), (0x38, 1, 0xd3, 1),
      (0x03, 1, 0xd4, 0), (0x06, 1, 0xd4, 0), (0x0a, 1, 0xd4, 0), (0x0f, 1, 0xd4, 0),
      (0x18, 1, 0xd4, 0), (0x1f, 1, 0xd4, 0), (0x29, 1, 0xd4, 0), (0x38, 1, 0xd4, 1)],
     [(0x03, 1, 0xd6, 0), (0x06, 1, 0xd6, 0), (0x0a, 1, 0xd6, 0), (0x0f, 1, 0xd6, 0),
      (0x18, 1, 0xd6, 0), (0x1f, 1, 0xd6, 0), (0x29, 1, 0xd6, 0), (0x38, 1, 0xd6, 1),
      (0x03, 1, 0xdd, 0), (0x06, 1, 0xdd, 0), (0x0a, 1, 0xdd, 0), (0x0f, 1, 0xdd, 0),
      (0x18, 1, 0xdd, 0), (0x1f, 1, 0xdd, 0), (0x29, 1, 0xdd, 0), (0x38, 1, 0xdd, 1)],
     [(0x02, 1, 0xde, 0), (0x09, 1, 0xde, 0), (0x17, 1, 0xde, 0), (0x28, 1, 0xde, 1),
      (0x02, 1, 0xdf, 0), (0x09, 1, 0xdf, 0), (0x17, 1, 0xdf, 0), (0x28, 1, 0xdf, 1),
      (0x02, 1, 0xf1, 0), (0x09, 1, 0xf1, 0), (0x17, 1, 0xf1, 0), (0x28, 1, 0xf1, 1),
      (0x02, 1, 0xf4, 0), (0x09, 1, 0xf4, 0), (0x17, 1, 0xf4, 0), (0x28, 1, 0xf4, 1)],
     [(0x03, 1, 0xde, 0), (0x06, 1, 0xde, 0), (0x0a, 1, 0xde, 0), (0x0f, 1, 0xde, 0),
      (0x18, 1, 0xde, 0), (0x1f, 1, 0xde, 0), (0x29, 1, 0xde, 0), (0x38, 1, 0xde, 1),
      (0x03, 1, 0xdf, 0), (0x06, 1, 0xdf, 0), (0x0a, 1, 0xdf, 0), (0x0f, 1, 0xdf, 0),
      (0x18, 1, 0xdf, 0), (0x1f, 1, 0xdf, 0), (0x29, 1, 0xdf, 0), (0x38, 1, 0xdf, 1)],
     [(0x03, 1, 0xf1, 0), (0x06, 1, 0xf1, 0), (0x0a, 1, 0xf1, 0), (0x0f, 1, 0xf1, 0),
      (0x18, 1, 0xf1, 0), (0x1f, 1, 0xf1, 0), (0x29, 1, 0xf1, 0), (0x38, 1, 0xf1, 1),
      (0x03, 1, 0xf4, 0), (0x06, 1, 0xf4, 0), (0x0a, 1, 0xf4, 0), (0x0f, 1, 0xf4, 0),
      (0x18, 1, 0xf4, 0), (0x1f, 1, 0xf4, 0), (0x29, 1, 0xf4, 0), (0x38, 1, 0xf4, 1)],
     [(0x01, 1, 0xf5, 0), (0x16, 1, 0xf5, 1), (0x01, 1, 0xf6, 0), (0x16, 1, 0xf6, 1),
      (0x01, 1, 0xf7, 0), (0x16, 1, 0xf7, 1), (0x01, 1, 0xf8, 0), (0x16, 1, 0xf8, 1),
      (0x01, 1, 0xfa, 0), (0x16, 1, 0xfa, 1), (0x01, 1, 0xfb, 0), (0x16, 1, 0xfb, 1),
      (0x01, 1, 0xfc, 0), (0x16, 1, 0xfc, 1), (0x01, 1, 0xfd, 0), (0x16, 1, 0xfd, 1)],
     [(0x02, 1, 0xf5, 0), (0x09, 1, 0xf5, 0), (0x17, 1, 0xf5, 0), (0x28, 1, 0xf5, 1),
      (0x02, 1, 0xf6, 0), (0x09, 1, 0xf6, 0), (0x17, 1, 0xf6, 0), (0x28, 1, 0xf6, 1),
      (0x02, 1, 0xf7, 0), (0x09, 1, 0xf7, 0), (0x17, 1, 0xf7, 0), (0x28, 1, 0xf7, 1),
      (0x02, 1, 0xf8, 0), (0x09, 1, 0xf8, 0), (0x17, 1, 0xf8, 0), (0x28, 1, 0xf8, 1)],
     [(0x03, 1, 0xf5, 0), (0x06, 1, 0xf5, 0), (0x0a, 1, 0xf5, 0), (0x0f, 1, 0xf5, 0),
      (0x18, 1, 0xf5, 0), (0x1f, 1, 0xf5, 0), (0x29, 1, 0xf5, 0), (0x38, 1, 0xf5, 1),
      (0x03, 1, 0xf6, 0), (0x06, 1, 0xf6, 0), (0x0a, 1, 0xf6, 0), (0x0f, 1, 0xf6, 0),
      (0x18, 1, 0xf6, 0), (0x1f, 1, 0xf6, 0), (0x29, 1, 0xf6, 0), (0x38, 1, 0xf6, 1)],
     [(0x03, 1, 0xf7, 0), (0x06, 1, 0xf7, 0), (0x0a, 1, 0xf7, 0), (0x0f, 1, 0xf7, 0),
      (0x18, 1, 0xf7, 0), (0x1f, 1, 0xf7, 0), (0x29, 1, 0xf7, 0), (0x38, 1, 0xf7, 1),
      (0x03, 1, 0xf8, 0), (0x06, 1, 0xf8, 0), (0x0a, 1, 0xf8, 0), (0x0f, 1, 0xf8, 0),
      (0x18, 1, 0xf8, 0), (0x1f, 1, 0xf8, 0), (0x29, 1, 0xf8, 0), (0x38, 1, 0xf8, 1)],
     [(0x02, 1, 0xfa, 0), (0x09, 1, 0xfa, 0), (0x17, 1, 0xfa, 0), (0x28, 1, 0xfa, 1),
      (0x02, 1, 0xfb, 0), (0x09, 1, 0xfb, 0), (0x17, 1, 0xfb, 0), (0x28, 1, 0xfb, 1),
      (0x02, 1, 0xfc, 0), (0x09, 1, 0xfc, 0), (0x17, 1, 0xfc, 0), (0x28, 1, 0xfc, 1),
      (0x02, 1, 0xfd, 0), (0x09, 1, 0xfd, 0), (0x17, 1, 0xfd, 0), (0x28, 1, 0xfd, 1)],
     [(0x03, 1, 0xfa, 0), (0x06, 1, 0xfa, 0), (0x0a, 1, 0xfa, 0), (0x0f, 1, 0xfa, 0),
      (0x18, 1, 0xfa, 0), (0x1f, 1, 0xfa, 0), (0x29, 1, 0xfa, 0), (0x38, 1, 0xfa, 1),
      (0x03, 1, 0xfb, 0), (0x06, 1, 0xfb, 0), (0x0a, 1, 0xfb, 0), (0x0f, 1, 0xfb, 0),
      (0x18, 1, 0xfb, 0), (0x1f, 1, 0xfb, 0), (0x29, 1, 0xfb, 0), (0x38, 1, 0xfb, 1)],
     [(0x03, 1, 0xfc, 0), (0x06, 1, 0xfc, 0), (0x0a, 1, 0xfc, 0), (0x0f, 1, 0xfc, 0),
      (0x18, 1, 0xfc, 0), (0x1f, 1, 0xfc, 0), (0x29, 1, 0xfc, 0), (0x38, 1, 0xfc, 1),
      (0x03, 1, 0xfd, 0), (0x06, 1, 0xfd, 0), (0x0a, 1, 0xfd, 0), (0x0f, 1, 0xfd, 0),
      (0x18, 1, 0xfd, 0), (0x1f, 1, 0xfd, 0), (0x29, 1, 0xfd, 0), (0x38, 1, 0xfd, 1)],
     [(0x00, 1, 0xfe, 1), (0xe3, 0, 0x00, 0), (0xe5, 0, 0x00, 0), (0xe6, 0, 0x00, 0),
      (0xe9, 0, 0x00, 0), (0xea, 0, 0x00, 0), (0xec, 0, 0x00, 0), (0xed, 0, 0x00, 0),
      (0xf1, 0, 0x00, 0), (0xf2, 0, 0x00, 0), (0xf4, 0, 0x00, 0), (0xf5, 0, 0x00, 0),
      (0xf8, 0, 0x00, 0), (0xf9, 0, 0x00, 0), (0xfb, 0, 0x00, 0), (0xfc, 0, 0x00, 1)],
     [(0x01, 1, 0xfe, 0), (0x16, 1, 0xfe, 1), (0x00, 1, 0x02, 1), (0x00, 1, 0x03, 1),
      (0x00, 1, 0x04, 1), (0x00, 1, 0x05, 1), (0x00, 1, 0x06, 1), (0x00, 1, 0x07, 1),
      (0x00, 1, 0x08, 1), (0x00, 1, 0x0b, 1), (0x00, 1, 0x0c, 1), (0x00, 1, 0x0e, 1),
      (0x00, 1, 0x0f, 1), (0x00, 1, 0x10, 1), (0x00, 1, 0x11, 1), (0x00, 1, 0x12, 1)]]"

definition huff_decode_codes_225 :: "huff_decode_code list list" where
  "huff_decode_codes_225 =
    [
     [(0x02, 1, 0xfe, 0), (0x09, 1, 0xfe, 0), (0x17, 1, 0xfe, 0), (0x28, 1, 0xfe, 1),
      (0x01, 1, 0x02, 0), (0x16, 1, 0x02, 1), (0x01, 1, 0x03, 0), (0x16, 1, 0x03, 1),
      (0x01, 1, 0x04, 0), (0x16, 1, 0x04, 1), (0x01, 1, 0x05, 0), (0x16, 1, 0x05, 1),
      (0x01, 1, 0x06, 0), (0x16, 1, 0x06, 1), (0x01, 1, 0x07, 0), (0x16, 1, 0x07, 1)],
     [(0x03, 1, 0xfe, 0), (0x06, 1, 0xfe, 0), (0x0a, 1, 0xfe, 0), (0x0f, 1, 0xfe, 0),
      (0x18, 1, 0xfe, 0), (0x1f, 1, 0xfe, 0), (0x29, 1, 0xfe, 0), (0x38, 1, 0xfe, 1),
      (0x02, 1, 0x02, 0), (0x09, 1, 0x02, 0), (0x17, 1, 0x02, 0), (0x28, 1, 0x02, 1),
      (0x02, 1, 0x03, 0), (0x09, 1, 0x03, 0), (0x17, 1, 0x03, 0), (0x28, 1, 0x03, 1)],
     [(0x03, 1, 0x02, 0), (0x06, 1, 0x02, 0), (0x0a, 1, 0x02, 0), (0x0f, 1, 0x02, 0),
      (0x18, 1, 0x02, 0), (0x1f, 1, 0x02, 0), (0x29, 1, 0x02, 0), (0x38, 1, 0x02, 1),
      (0x03, 1, 0x03, 0), (0x06, 1, 0x03, 0), (0x0a, 1, 0x03, 0), (0x0f, 1, 0x03, 0),
      (0x18, 1, 0x03, 0), (0x1f, 1, 0x03, 0), (0x29, 1, 0x03, 0), (0x38, 1, 0x03, 1)],
     [(0x02, 1, 0x04, 0), (0x09, 1, 0x04, 0), (0x17, 1, 0x04, 0), (0x28, 1, 0x04, 1),
      (0x02, 1, 0x05, 0), (0x09, 1, 0x05, 0), (0x17, 1, 0x05, 0), (0x28, 1, 0x05, 1),
      (0x02, 1, 0x06, 0), (0x09, 1, 0x06, 0), (0x17, 1, 0x06, 0), (0x28, 1, 0x06, 1),
      (0x02, 1, 0x07, 0), (0x09, 1, 0x07, 0), (0x17, 1, 0x07, 0), (0x28, 1, 0x07, 1)],
     [(0x03, 1, 0x04, 0), (0x06, 1, 0x04, 0), (0x0a, 1, 0x04, 0), (0x0f, 1, 0x04, 0),
      (0x18, 1, 0x04, 0), (0x1f, 1, 0x04, 0), (0x29, 1, 0x04, 0), (0x38, 1, 0x04, 1),
      (0x03, 1, 0x05, 0), (0x06, 1, 0x05, 0), (0x0a, 1, 0x05, 0), (0x0f, 1, 0x05, 0),
      (0x18, 1, 0x05, 0), (0x1f, 1, 0x05, 0), (0x29, 1, 0x05, 0), (0x38, 1, 0x05, 1)],
     [(0x03, 1, 0x06, 0), (0x06, 1, 0x06, 0), (0x0a, 1, 0x06, 0), (0x0f, 1, 0x06, 0),
      (0x18, 1, 0x06, 0), (0x1f, 1, 0x06, 0), (0x29, 1, 0x06, 0), (0x38, 1, 0x06, 1),
      (0x03, 1, 0x07, 0), (0x06, 1, 0x07, 0), (0x0a, 1, 0x07, 0), (0x0f, 1, 0x07, 0),
      (0x18, 1, 0x07, 0), (0x1f, 1, 0x07, 0), (0x29, 1, 0x07, 0), (0x38, 1, 0x07, 1)],
     [(0x01, 1, 0x08, 0), (0x16, 1, 0x08, 1), (0x01, 1, 0x0b, 0), (0x16, 1, 0x0b, 1),
      (0x01, 1, 0x0c, 0), (0x16, 1, 0x0c, 1), (0x01, 1, 0x0e, 0), (0x16, 1, 0x0e, 1),
      (0x01, 1, 0x0f, 0), (0x16, 1, 0x0f, 1), (0x01, 1, 0x10, 0), (0x16, 1, 0x10, 1),
      (0x01, 1, 0x11, 0), (0x16, 1, 0x11, 1), (0x01, 1, 0x12, 0), (0x16, 1, 0x12, 1)],
     [(0x02, 1, 0x08, 0), (0x09, 1, 0x08, 0), (0x17, 1, 0x08, 0), (0x28, 1, 0x08, 1),
      (0x02, 1, 0x0b, 0), (0x09, 1, 0x0b, 0), (0x17, 1, 0x0b, 0), (0x28, 1, 0x0b, 1),
      (0x02, 1, 0x0c, 0), (0x09, 1, 0x0c, 0), (0x17, 1, 0x0c, 0), (0x28, 1, 0x0c, 1),
      (0x02, 1, 0x0e, 0), (0x09, 1, 0x0e, 0), (0x17, 1, 0x0e, 0), (0x28, 1, 0x0e, 1)],
     [(0x03, 1, 0x08, 0), (0x06, 1, 0x08, 0), (0x0a, 1, 0x08, 0), (0x0f, 1, 0x08, 0),
      (0x18, 1, 0x08, 0), (0x1f, 1, 0x08, 0), (0x29, 1, 0x08, 0), (0x38, 1, 0x08, 1),
      (0x03, 1, 0x0b, 0), (0x06, 1, 0x0b, 0), (0x0a, 1, 0x0b, 0), (0x0f, 1, 0x0b, 0),
      (0x18, 1, 0x0b, 0), (0x1f, 1, 0x0b, 0), (0x29, 1, 0x0b, 0), (0x38, 1, 0x0b, 1)],
     [(0x03, 1, 0x0c, 0), (0x06, 1, 0x0c, 0), (0x0a, 1, 0x0c, 0), (0x0f, 1, 0x0c, 0),
      (0x18, 1, 0x0c, 0), (0x1f, 1, 0x0c, 0), (0x29, 1, 0x0c, 0), (0x38, 1, 0x0c, 1),
      (0x03, 1, 0x0e, 0), (0x06, 1, 0x0e, 0), (0x0a, 1, 0x0e, 0), (0x0f, 1, 0x0e, 0),
      (0x18, 1, 0x0e, 0), (0x1f, 1, 0x0e, 0), (0x29, 1, 0x0e, 0), (0x38, 1, 0x0e, 1)],
     [(0x02, 1, 0x0f, 0), (0x09, 1, 0x0f, 0), (0x17, 1, 0x0f, 0), (0x28, 1, 0x0f, 1),
      (0x02, 1, 0x10, 0), (0x09, 1, 0x10, 0), (0x17, 1, 0x10, 0), (0x28, 1, 0x10, 1),
      (0x02, 1, 0x11, 0), (0x09, 1, 0x11, 0), (0x17, 1, 0x11, 0), (0x28, 1, 0x11, 1),
      (0x02, 1, 0x12, 0), (0x09, 1, 0x12, 0), (0x17, 1, 0x12, 0), (0x28, 1, 0x12, 1)],
     [(0x03, 1, 0x0f, 0), (0x06, 1, 0x0f, 0), (0x0a, 1, 0x0f, 0), (0x0f, 1, 0x0f, 0),
      (0x18, 1, 0x0f, 0), (0x1f, 1, 0x0f, 0), (0x29, 1, 0x0f, 0), (0x38, 1, 0x0f, 1),
      (0x03, 1, 0x10, 0), (0x06, 1, 0x10, 0), (0x0a, 1, 0x10, 0), (0x0f, 1, 0x10, 0),
      (0x18, 1, 0x10, 0), (0x1f, 1, 0x10, 0), (0x29, 1, 0x10, 0), (0x38, 1, 0x10, 1)],
     [(0x03, 1, 0x11, 0), (0x06, 1, 0x11, 0), (0x0a, 1, 0x11, 0), (0x0f, 1, 0x11, 0),
      (0x18, 1, 0x11, 0), (0x1f, 1, 0x11, 0), (0x29, 1, 0x11, 0), (0x38, 1, 0x11, 1),
      (0x03, 1, 0x12, 0), (0x06, 1, 0x12, 0), (0x0a, 1, 0x12, 0), (0x0f, 1, 0x12, 0),
      (0x18, 1, 0x12, 0), (0x1f, 1, 0x12, 0), (0x29, 1, 0x12, 0), (0x38, 1, 0x12, 1)],
     [(0x00, 1, 0x13, 1), (0x00, 1, 0x14, 1), (0x00, 1, 0x15, 1), (0x00, 1, 0x17, 1),
      (0x00, 1, 0x18, 1), (0x00, 1, 0x19, 1), (0x00, 1, 0x1a, 1), (0x00, 1, 0x1b, 1),
      (0x00, 1, 0x1c, 1), (0x00, 1, 0x1d, 1), (0x00, 1, 0x1e, 1), (0x00, 1, 0x1f, 1),
      (0x00, 1, 0x7f, 1), (0x00, 1, 0xdc, 1), (0x00, 1, 0xf9, 1), (0xfd, 0, 0x00, 1)],
     [(0x01, 1, 0x13, 0), (0x16, 1, 0x13, 1), (0x01, 1, 0x14, 0), (0x16, 1, 0x14, 1),
      (0x01, 1, 0x15, 0), (0x16, 1, 0x15, 1), (0x01, 1, 0x17, 0), (0x16, 1, 0x17, 1),
      (0x01, 1, 0x18, 0), (0x16, 1, 0x18, 1), (0x01, 1, 0x19, 0), (0x16, 1, 0x19, 1),
      (0x01, 1, 0x1a, 0), (0x16, 1, 0x1a, 1), (0x01, 1, 0x1b, 0), (0x16, 1, 0x1b, 1)]]"

definition huff_decode_codes_240 :: "huff_decode_code list list" where
  "huff_decode_codes_240 =
    [
     [(0x02, 1, 0x13, 0), (0x09, 1, 0x13, 0), (0x17, 1, 0x13, 0), (0x28, 1, 0x13, 1),
      (0x02, 1, 0x14, 0), (0x09, 1, 0x14, 0), (0x17, 1, 0x14, 0), (0x28, 1, 0x14, 1),
      (0x02, 1, 0x15, 0), (0x09, 1, 0x15, 0), (0x17, 1, 0x15, 0), (0x28, 1, 0x15, 1),
      (0x02, 1, 0x17, 0), (0x09, 1, 0x17, 0), (0x17, 1, 0x17, 0), (0x28, 1, 0x17, 1)],
     [(0x03, 1, 0x13, 0), (0x06, 1, 0x13, 0), (0x0a, 1, 0x13, 0), (0x0f, 1, 0x13, 0),
      (0x18, 1, 0x13, 0), (0x1f, 1, 0x13, 0), (0x29, 1, 0x13, 0), (0x38, 1, 0x13, 1),
      (0x03, 1, 0x14, 0), (0x06, 1, 0x14, 0), (0x0a, 1, 0x14, 0), (0x0f, 1, 0x14, 0),
      (0x18, 1, 0x14, 0), (0x1f, 1, 0x14, 0), (0x29, 1, 0x14, 0), (0x38, 1, 0x14, 1)],
     [(0x03, 1, 0x15, 0), (0x06, 1, 0x15, 0), (0x0a, 1, 0x15, 0), (0x0f, 1, 0x15, 0),
      (0x18, 1, 0x15, 0), (0x1f, 1, 0x15, 0), (0x29, 1, 0x15, 0), (0x38, 1, 0x15, 1),
      (0x03, 1, 0x17, 0), (0x06, 1, 0x17, 0), (0x0a, 1, 0x17, 0), (0x0f, 1, 0x17, 0),
      (0x18, 1, 0x17, 0), (0x1f, 1, 0x17, 0), (0x29, 1, 0x17, 0), (0x38, 1, 0x17, 1)],
     [(0x02, 1, 0x18, 0), (0x09, 1, 0x18, 0), (0x17, 1, 0x18, 0), (0x28, 1, 0x18, 1),
      (0x02, 1, 0x19, 0), (0x09, 1, 0x19, 0), (0x17, 1, 0x19, 0), (0x28, 1, 0x19, 1),
      (0x02, 1, 0x1a, 0), (0x09, 1, 0x1a, 0), (0x17, 1, 0x1a, 0), (0x28, 1, 0x1a, 1),
      (0x02, 1, 0x1b, 0), (0x09, 1, 0x1b, 0), (0x17, 1, 0x1b, 0), (0x28, 1, 0x1b, 1)],
     [(0x03, 1, 0x18, 0), (0x06, 1, 0x18, 0), (0x0a, 1, 0x18, 0), (0x0f, 1, 0x18, 0),
      (0x18, 1, 0x18, 0), (0x1f, 1, 0x18, 0), (0x29, 1, 0x18, 0), (0x38, 1, 0x18, 1),
      (0x03, 1, 0x19, 0), (0x06, 1, 0x19, 0), (0x0a, 1, 0x19, 0), (0x0f, 1, 0x19, 0),
      (0x18, 1, 0x19, 0), (0x1f, 1, 0x19, 0), (0x29, 1, 0x19, 0), (0x38, 1, 0x19, 1)],
     [(0x03, 1, 0x1a, 0), (0x06, 1, 0x1a, 0), (0x0a, 1, 0x1a, 0), (0x0f, 1, 0x1a, 0),
      (0x18, 1, 0x1a, 0), (0x1f, 1, 0x1a, 0), (0x29, 1, 0x1a, 0), (0x38, 1, 0x1a, 1),
      (0x03, 1, 0x1b, 0), (0x06, 1, 0x1b, 0), (0x0a, 1, 0x1b, 0), (0x0f, 1, 0x1b, 0),
      (0x18, 1, 0x1b, 0), (0x1f, 1, 0x1b, 0), (0x29, 1, 0x1b, 0), (0x38, 1, 0x1b, 1)],
     [(0x01, 1, 0x1c, 0), (0x16, 1, 0x1c, 1), (0x01, 1, 0x1d, 0), (0x16, 1, 0x1d, 1),
      (0x01, 1, 0x1e, 0), (0x16, 1, 0x1e, 1), (0x01, 1, 0x1f, 0), (0x16, 1, 0x1f, 1),
      (0x01, 1, 0x7f, 0), (0x16, 1, 0x7f, 1), (0x01, 1, 0xdc, 0), (0x16, 1, 0xdc, 1),
      (0x01, 1, 0xf9, 0), (0x16, 1, 0xf9, 1), (0xfe, 0, 0x00, 0), (0xff, 0, 0x00, 1)],
     [(0x02, 1, 0x1c, 0), (0x09, 1, 0x1c, 0), (0x17, 1, 0x1c, 0), (0x28, 1, 0x1c, 1),
      (0x02, 1, 0x1d, 0), (0x09, 1, 0x1d, 0), (0x17, 1, 0x1d, 0), (0x28, 1, 0x1d, 1),
      (0x02, 1, 0x1e, 0), (0x09, 1, 0x1e, 0), (0x17, 1, 0x1e, 0), (0x28, 1, 0x1e, 1),
      (0x02, 1, 0x1f, 0), (0x09, 1, 0x1f, 0), (0x17, 1, 0x1f, 0), (0x28, 1, 0x1f, 1)],
     [(0x03, 1, 0x1c, 0), (0x06, 1, 0x1c, 0), (0x0a, 1, 0x1c, 0), (0x0f, 1, 0x1c, 0),
      (0x18, 1, 0x1c, 0), (0x1f, 1, 0x1c, 0), (0x29, 1, 0x1c, 0), (0x38, 1, 0x1c, 1),
      (0x03, 1, 0x1d, 0), (0x06, 1, 0x1d, 0), (0x0a, 1, 0x1d, 0), (0x0f, 1, 0x1d, 0),
      (0x18, 1, 0x1d, 0), (0x1f, 1, 0x1d, 0), (0x29, 1, 0x1d, 0), (0x38, 1, 0x1d, 1)],
     [(0x03, 1, 0x1e, 0), (0x06, 1, 0x1e, 0), (0x0a, 1, 0x1e, 0), (0x0f, 1, 0x1e, 0),
      (0x18, 1, 0x1e, 0), (0x1f, 1, 0x1e, 0), (0x29, 1, 0x1e, 0), (0x38, 1, 0x1e, 1),
      (0x03, 1, 0x1f, 0), (0x06, 1, 0x1f, 0), (0x0a, 1, 0x1f, 0), (0x0f, 1, 0x1f, 0),
      (0x18, 1, 0x1f, 0), (0x1f, 1, 0x1f, 0), (0x29, 1, 0x1f, 0), (0x38, 1, 0x1f, 1)],
     [(0x02, 1, 0x7f, 0), (0x09, 1, 0x7f, 0), (0x17, 1, 0x7f, 0), (0x28, 1, 0x7f, 1),
      (0x02, 1, 0xdc, 0), (0x09, 1, 0xdc, 0), (0x17, 1, 0xdc, 0), (0x28, 1, 0xdc, 1),
      (0x02, 1, 0xf9, 0), (0x09, 1, 0xf9, 0), (0x17, 1, 0xf9, 0), (0x28, 1, 0xf9, 1),
      (0x00, 1, 0x0a, 1), (0x00, 1, 0x0d, 1), (0x00, 1, 0x16, 1), (0xfa, 0, 0x00, 0)],
     [(0x03, 1, 0x7f, 0), (0x06, 1, 0x7f, 0), (0x0a, 1, 0x7f, 0), (0x0f, 1, 0x7f, 0),
      (0x18, 1, 0x7f, 0), (0x1f, 1, 0x7f, 0), (0x29, 1, 0x7f, 0), (0x38, 1, 0x7f, 1),
      (0x03, 1, 0xdc, 0), (0x06, 1, 0xdc, 0), (0x0a, 1, 0xdc, 0), (0x0f, 1, 0xdc, 0),
      (0x18, 1, 0xdc, 0), (0x1f, 1, 0xdc, 0), (0x29, 1, 0xdc, 0), (0x38, 1, 0xdc, 1)],
     [(0x03, 1, 0xf9, 0), (0x06, 1, 0xf9, 0), (0x0a, 1, 0xf9, 0), (0x0f, 1, 0xf9, 0),
      (0x18, 1, 0xf9, 0), (0x1f, 1, 0xf9, 0), (0x29, 1, 0xf9, 0), (0x38, 1, 0xf9, 1),
      (0x01, 1, 0x0a, 0), (0x16, 1, 0x0a, 1), (0x01, 1, 0x0d, 0), (0x16, 1, 0x0d, 1),
      (0x01, 1, 0x16, 0), (0x16, 1, 0x16, 1), (0xfc, 0, 0x00, 0), (0xfc, 0, 0x00, 0)],
     [(0x02, 1, 0x0a, 0), (0x09, 1, 0x0a, 0), (0x17, 1, 0x0a, 0), (0x28, 1, 0x0a, 1),
      (0x02, 1, 0x0d, 0), (0x09, 1, 0x0d, 0), (0x17, 1, 0x0d, 0), (0x28, 1, 0x0d, 1),
      (0x02, 1, 0x16, 0), (0x09, 1, 0x16, 0), (0x17, 1, 0x16, 0), (0x28, 1, 0x16, 1),
      (0xfd, 0, 0x00, 0), (0xfd, 0, 0x00, 0), (0xfd, 0, 0x00, 0), (0xfd, 0, 0x00, 0)],
     [(0x03, 1, 0x0a, 0), (0x06, 1, 0x0a, 0), (0x0a, 1, 0x0a, 0), (0x0f, 1, 0x0a, 0),
      (0x18, 1, 0x0a, 0), (0x1f, 1, 0x0a, 0), (0x29, 1, 0x0a, 0), (0x38, 1, 0x0a, 1),
      (0x03, 1, 0x0d, 0), (0x06, 1, 0x0d, 0), (0x0a, 1, 0x0d, 0), (0x0f, 1, 0x0d, 0),
      (0x18, 1, 0x0d, 0), (0x1f, 1, 0x0d, 0), (0x29, 1, 0x0d, 0), (0x38, 1, 0x0d, 1)]]"

definition huff_decode_codes_255 :: "huff_decode_code list list" where
  "huff_decode_codes_255 =
    [
     [(0x03, 1, 0x16, 0), (0x06, 1, 0x16, 0), (0x0a, 1, 0x16, 0), (0x0f, 1, 0x16, 0),
      (0x18, 1, 0x16, 0), (0x1f, 1, 0x16, 0), (0x29, 1, 0x16, 0), (0x38, 1, 0x16, 1),
      (0xff, 0, 0x00, 0), (0xff, 0, 0x00, 0), (0xff, 0, 0x00, 0), (0xff, 0, 0x00, 0),
      (0xff, 0, 0x00, 0), (0xff, 0, 0x00, 0), (0xff, 0, 0x00, 0), (0xff, 0, 0x00, 0)]]"

definition ngx_http_v2_huff_decode_codes :: "huff_decode_code list list" where
  "ngx_http_v2_huff_decode_codes =
     huff_decode_codes_0 @ huff_decode_codes_15 @ huff_decode_codes_30 @ huff_decode_codes_45 @ huff_decode_codes_60
     @ huff_decode_codes_75 @ huff_decode_codes_90 @ huff_decode_codes_105 @ huff_decode_codes_120 @
     huff_decode_codes_135 @ huff_decode_codes_150 @ huff_decode_codes_165 @ huff_decode_codes_180 @
     huff_decode_codes_195 @ huff_decode_codes_210 @ huff_decode_codes_225 @ huff_decode_codes_240 @
     huff_decode_codes_255"

definition ngx_http_v2_huff_encode_table :: "(int \<times> nat) list" where
  "ngx_http_v2_huff_encode_table = [
      (0x00001ff8, 13), (0x007fffd8, 23), (0x0fffffe2, 28), (0x0fffffe3, 28),
      (0x0fffffe4, 28), (0x0fffffe5, 28), (0x0fffffe6, 28), (0x0fffffe7, 28),
      (0x0fffffe8, 28), (0x00ffffea, 24), (0x3ffffffc, 30), (0x0fffffe9, 28),
      (0x0fffffea, 28), (0x3ffffffd, 30), (0x0fffffeb, 28), (0x0fffffec, 28),
      (0x0fffffed, 28), (0x0fffffee, 28), (0x0fffffef, 28), (0x0ffffff0, 28),
      (0x0ffffff1, 28), (0x0ffffff2, 28), (0x3ffffffe, 30), (0x0ffffff3, 28),
      (0x0ffffff4, 28), (0x0ffffff5, 28), (0x0ffffff6, 28), (0x0ffffff7, 28),
      (0x0ffffff8, 28), (0x0ffffff9, 28), (0x0ffffffa, 28), (0x0ffffffb, 28),
      (0x00000014, 6), (0x000003f8, 10), (0x000003f9, 10), (0x00000ffa, 12),
      (0x00001ff9, 13), (0x00000015, 6), (0x000000f8, 8), (0x000007fa, 11),
      (0x000003fa, 10), (0x000003fb, 10), (0x000000f9, 8), (0x000007fb, 11),
      (0x000000fa, 8), (0x00000016, 6), (0x00000017, 6), (0x00000018, 6),
      (0x00000000, 5), (0x00000001, 5), (0x00000002, 5), (0x00000019, 6),
      (0x0000001a, 6), (0x0000001b, 6), (0x0000001c, 6), (0x0000001d, 6),
      (0x0000001e, 6), (0x0000001f, 6), (0x0000005c, 7), (0x000000fb, 8),
      (0x00007ffc, 15), (0x00000020, 6), (0x00000ffb, 12), (0x000003fc, 10),
      (0x00001ffa, 13), (0x00000021, 6), (0x0000005d, 7), (0x0000005e, 7),
      (0x0000005f, 7), (0x00000060, 7), (0x00000061, 7), (0x00000062, 7),
      (0x00000063, 7), (0x00000064, 7), (0x00000065, 7), (0x00000066, 7),
      (0x00000067, 7), (0x00000068, 7), (0x00000069, 7), (0x0000006a, 7),
      (0x0000006b, 7), (0x0000006c, 7), (0x0000006d, 7), (0x0000006e, 7),
      (0x0000006f, 7), (0x00000070, 7), (0x00000071, 7), (0x00000072, 7),
      (0x000000fc, 8), (0x00000073, 7), (0x000000fd, 8), (0x00001ffb, 13),
      (0x0007fff0, 19), (0x00001ffc, 13), (0x00003ffc, 14), (0x00000022, 6),
      (0x00007ffd, 15), (0x00000003, 5), (0x00000023, 6), (0x00000004, 5),
      (0x00000024, 6), (0x00000005, 5), (0x00000025, 6), (0x00000026, 6),
      (0x00000027, 6), (0x00000006, 5), (0x00000074, 7), (0x00000075, 7),
      (0x00000028, 6), (0x00000029, 6), (0x0000002a, 6), (0x00000007, 5),
      (0x0000002b, 6), (0x00000076, 7), (0x0000002c, 6), (0x00000008, 5),
      (0x00000009, 5), (0x0000002d, 6), (0x00000077, 7), (0x00000078, 7),
      (0x00000079, 7), (0x0000007a, 7), (0x0000007b, 7), (0x00007ffe, 15),
      (0x000007fc, 11), (0x00003ffd, 14), (0x00001ffd, 13), (0x0ffffffc, 28),
      (0x000fffe6, 20), (0x003fffd2, 22), (0x000fffe7, 20), (0x000fffe8, 20),
      (0x003fffd3, 22), (0x003fffd4, 22), (0x003fffd5, 22), (0x007fffd9, 23),
      (0x003fffd6, 22), (0x007fffda, 23), (0x007fffdb, 23), (0x007fffdc, 23),
      (0x007fffdd, 23), (0x007fffde, 23), (0x00ffffeb, 24), (0x007fffdf, 23),
      (0x00ffffec, 24), (0x00ffffed, 24), (0x003fffd7, 22), (0x007fffe0, 23),
      (0x00ffffee, 24), (0x007fffe1, 23), (0x007fffe2, 23), (0x007fffe3, 23),
      (0x007fffe4, 23), (0x001fffdc, 21), (0x003fffd8, 22), (0x007fffe5, 23),
      (0x003fffd9, 22), (0x007fffe6, 23), (0x007fffe7, 23), (0x00ffffef, 24),
      (0x003fffda, 22), (0x001fffdd, 21), (0x000fffe9, 20), (0x003fffdb, 22),
      (0x003fffdc, 22), (0x007fffe8, 23), (0x007fffe9, 23), (0x001fffde, 21),
      (0x007fffea, 23), (0x003fffdd, 22), (0x003fffde, 22), (0x00fffff0, 24),
      (0x001fffdf, 21), (0x003fffdf, 22), (0x007fffeb, 23), (0x007fffec, 23),
      (0x001fffe0, 21), (0x001fffe1, 21), (0x003fffe0, 22), (0x001fffe2, 21),
      (0x007fffed, 23), (0x003fffe1, 22), (0x007fffee, 23), (0x007fffef, 23),
      (0x000fffea, 20), (0x003fffe2, 22), (0x003fffe3, 22), (0x003fffe4, 22),
      (0x007ffff0, 23), (0x003fffe5, 22), (0x003fffe6, 22), (0x007ffff1, 23),
      (0x03ffffe0, 26), (0x03ffffe1, 26), (0x000fffeb, 20), (0x0007fff1, 19),
      (0x003fffe7, 22), (0x007ffff2, 23), (0x003fffe8, 22), (0x01ffffec, 25),
      (0x03ffffe2, 26), (0x03ffffe3, 26), (0x03ffffe4, 26), (0x07ffffde, 27),
      (0x07ffffdf, 27), (0x03ffffe5, 26), (0x00fffff1, 24), (0x01ffffed, 25),
      (0x0007fff2, 19), (0x001fffe3, 21), (0x03ffffe6, 26), (0x07ffffe0, 27),
      (0x07ffffe1, 27), (0x03ffffe7, 26), (0x07ffffe2, 27), (0x00fffff2, 24),
      (0x001fffe4, 21), (0x001fffe5, 21), (0x03ffffe8, 26), (0x03ffffe9, 26),
      (0x0ffffffd, 28), (0x07ffffe3, 27), (0x07ffffe4, 27), (0x07ffffe5, 27),
      (0x000fffec, 20), (0x00fffff3, 24), (0x000fffed, 20), (0x001fffe6, 21),
      (0x003fffe9, 22), (0x001fffe7, 21), (0x001fffe8, 21), (0x007ffff3, 23),
      (0x003fffea, 22), (0x003fffeb, 22), (0x01ffffee, 25), (0x01ffffef, 25),
      (0x00fffff4, 24), (0x00fffff5, 24), (0x03ffffea, 26), (0x007ffff4, 23),
      (0x03ffffeb, 26), (0x07ffffe6, 27), (0x03ffffec, 26), (0x03ffffed, 26),
      (0x07ffffe7, 27), (0x07ffffe8, 27), (0x07ffffe9, 27), (0x07ffffea, 27),
      (0x07ffffeb, 27), (0x0ffffffe, 28), (0x07ffffec, 27), (0x07ffffed, 27),
      (0x07ffffee, 27), (0x07ffffef, 27), (0x07fffff0, 27), (0x03ffffee, 26)]"

definition ngx_http_v2_huff_encode_table_lc :: "(int \<times> nat) list" where
  "ngx_http_v2_huff_encode_table_lc = [
      (0x00001ff8, 13), (0x007fffd8, 23), (0x0fffffe2, 28), (0x0fffffe3, 28),
      (0x0fffffe4, 28), (0x0fffffe5, 28), (0x0fffffe6, 28), (0x0fffffe7, 28),
      (0x0fffffe8, 28), (0x00ffffea, 24), (0x3ffffffc, 30), (0x0fffffe9, 28),
      (0x0fffffea, 28), (0x3ffffffd, 30), (0x0fffffeb, 28), (0x0fffffec, 28),
      (0x0fffffed, 28), (0x0fffffee, 28), (0x0fffffef, 28), (0x0ffffff0, 28),
      (0x0ffffff1, 28), (0x0ffffff2, 28), (0x3ffffffe, 30), (0x0ffffff3, 28),
      (0x0ffffff4, 28), (0x0ffffff5, 28), (0x0ffffff6, 28), (0x0ffffff7, 28),
      (0x0ffffff8, 28), (0x0ffffff9, 28), (0x0ffffffa, 28), (0x0ffffffb, 28),
      (0x00000014, 6), (0x000003f8, 10), (0x000003f9, 10), (0x00000ffa, 12),
      (0x00001ff9, 13), (0x00000015, 6), (0x000000f8, 8), (0x000007fa, 11),
      (0x000003fa, 10), (0x000003fb, 10), (0x000000f9, 8), (0x000007fb, 11),
      (0x000000fa, 8), (0x00000016, 6), (0x00000017, 6), (0x00000018, 6),
      (0x00000000, 5), (0x00000001, 5), (0x00000002, 5), (0x00000019, 6),
      (0x0000001a, 6), (0x0000001b, 6), (0x0000001c, 6), (0x0000001d, 6),
      (0x0000001e, 6), (0x0000001f, 6), (0x0000005c, 7), (0x000000fb, 8),
      (0x00007ffc, 15), (0x00000020, 6), (0x00000ffb, 12), (0x000003fc, 10),
      (0x00001ffa, 13), (0x00000003, 5), (0x00000023, 6), (0x00000004, 5),
      (0x00000024, 6), (0x00000005, 5), (0x00000025, 6), (0x00000026, 6),
      (0x00000027, 6), (0x00000006, 5), (0x00000074, 7), (0x00000075, 7),
      (0x00000028, 6), (0x00000029, 6), (0x0000002a, 6), (0x00000007, 5),
      (0x0000002b, 6), (0x00000076, 7), (0x0000002c, 6), (0x00000008, 5),
      (0x00000009, 5), (0x0000002d, 6), (0x00000077, 7), (0x00000078, 7),
      (0x00000079, 7), (0x0000007a, 7), (0x0000007b, 7), (0x00001ffb, 13),
      (0x0007fff0, 19), (0x00001ffc, 13), (0x00003ffc, 14), (0x00000022, 6),
      (0x00007ffd, 15), (0x00000003, 5), (0x00000023, 6), (0x00000004, 5),
      (0x00000024, 6), (0x00000005, 5), (0x00000025, 6), (0x00000026, 6),
      (0x00000027, 6), (0x00000006, 5), (0x00000074, 7), (0x00000075, 7),
      (0x00000028, 6), (0x00000029, 6), (0x0000002a, 6), (0x00000007, 5),
      (0x0000002b, 6), (0x00000076, 7), (0x0000002c, 6), (0x00000008, 5),
      (0x00000009, 5), (0x0000002d, 6), (0x00000077, 7), (0x00000078, 7),
      (0x00000079, 7), (0x0000007a, 7), (0x0000007b, 7), (0x00007ffe, 15),
      (0x000007fc, 11), (0x00003ffd, 14), (0x00001ffd, 13), (0x0ffffffc, 28),
      (0x000fffe6, 20), (0x003fffd2, 22), (0x000fffe7, 20), (0x000fffe8, 20),
      (0x003fffd3, 22), (0x003fffd4, 22), (0x003fffd5, 22), (0x007fffd9, 23),
      (0x003fffd6, 22), (0x007fffda, 23), (0x007fffdb, 23), (0x007fffdc, 23),
      (0x007fffdd, 23), (0x007fffde, 23), (0x00ffffeb, 24), (0x007fffdf, 23),
      (0x00ffffec, 24), (0x00ffffed, 24), (0x003fffd7, 22), (0x007fffe0, 23),
      (0x00ffffee, 24), (0x007fffe1, 23), (0x007fffe2, 23), (0x007fffe3, 23),
      (0x007fffe4, 23), (0x001fffdc, 21), (0x003fffd8, 22), (0x007fffe5, 23),
      (0x003fffd9, 22), (0x007fffe6, 23), (0x007fffe7, 23), (0x00ffffef, 24),
      (0x003fffda, 22), (0x001fffdd, 21), (0x000fffe9, 20), (0x003fffdb, 22),
      (0x003fffdc, 22), (0x007fffe8, 23), (0x007fffe9, 23), (0x001fffde, 21),
      (0x007fffea, 23), (0x003fffdd, 22), (0x003fffde, 22), (0x00fffff0, 24),
      (0x001fffdf, 21), (0x003fffdf, 22), (0x007fffeb, 23), (0x007fffec, 23),
      (0x001fffe0, 21), (0x001fffe1, 21), (0x003fffe0, 22), (0x001fffe2, 21),
      (0x007fffed, 23), (0x003fffe1, 22), (0x007fffee, 23), (0x007fffef, 23),
      (0x000fffea, 20), (0x003fffe2, 22), (0x003fffe3, 22), (0x003fffe4, 22),
      (0x007ffff0, 23), (0x003fffe5, 22), (0x003fffe6, 22), (0x007ffff1, 23),
      (0x03ffffe0, 26), (0x03ffffe1, 26), (0x000fffeb, 20), (0x0007fff1, 19),
      (0x003fffe7, 22), (0x007ffff2, 23), (0x003fffe8, 22), (0x01ffffec, 25),
      (0x03ffffe2, 26), (0x03ffffe3, 26), (0x03ffffe4, 26), (0x07ffffde, 27),
      (0x07ffffdf, 27), (0x03ffffe5, 26), (0x00fffff1, 24), (0x01ffffed, 25),
      (0x0007fff2, 19), (0x001fffe3, 21), (0x03ffffe6, 26), (0x07ffffe0, 27),
      (0x07ffffe1, 27), (0x03ffffe7, 26), (0x07ffffe2, 27), (0x00fffff2, 24),
      (0x001fffe4, 21), (0x001fffe5, 21), (0x03ffffe8, 26), (0x03ffffe9, 26),
      (0x0ffffffd, 28), (0x07ffffe3, 27), (0x07ffffe4, 27), (0x07ffffe5, 27),
      (0x000fffec, 20), (0x00fffff3, 24), (0x000fffed, 20), (0x001fffe6, 21),
      (0x003fffe9, 22), (0x001fffe7, 21), (0x001fffe8, 21), (0x007ffff3, 23),
      (0x003fffea, 22), (0x003fffeb, 22), (0x01ffffee, 25), (0x01ffffef, 25),
      (0x00fffff4, 24), (0x00fffff5, 24), (0x03ffffea, 26), (0x007ffff4, 23),
      (0x03ffffeb, 26), (0x07ffffe6, 27), (0x03ffffec, 26), (0x03ffffed, 26),
      (0x07ffffe7, 27), (0x07ffffe8, 27), (0x07ffffe9, 27), (0x07ffffea, 27),
      (0x07ffffeb, 27), (0x0ffffffe, 28), (0x07ffffec, 27), (0x07ffffed, 27),
      (0x07ffffee, 27), (0x07ffffef, 27), (0x07fffff0, 27), (0x03ffffee, 26)]"

text \<open>The code as a binary tree: the inner nodes carry the state of the decoder and whether only ones lead to them.\<close>

datatype huff_tree = Sym int | Eos | Inner int bool huff_tree huff_tree

definition huff_root :: huff_tree where
  "huff_root =
     Inner 0 True (Inner 1 False (Inner 2 False (Inner 3 False (Inner 4 False (Sym 48) (Sym 49)) (Inner 5 False (Sym
     50) (Sym 97))) (Inner 6 False (Inner 7 False (Sym 99) (Sym 101)) (Inner 8 False (Sym 105) (Sym 111)))) (Inner 9
     False (Inner 10 False (Inner 11 False (Sym 115) (Sym 116)) (Inner 12 False (Inner 13 False (Sym 32) (Sym 37))
     (Inner 14 False (Sym 45) (Sym 46)))) (Inner 15 False (Inner 16 False (Inner 17 False (Sym 47) (Sym 51)) (Inner
     18 False (Sym 52) (Sym 53))) (Inner 19 False (Inner 20 False (Sym 54) (Sym 55)) (Inner 21 False (Sym 56) (Sym
     57)))))) (Inner 22 True (Inner 23 False (Inner 24 False (Inner 25 False (Inner 26 False (Sym 61) (Sym 65))
     (Inner 27 False (Sym 95) (Sym 98))) (Inner 28 False (Inner 29 False (Sym 100) (Sym 102)) (Inner 30 False (Sym
     103) (Sym 104)))) (Inner 31 False (Inner 32 False (Inner 33 False (Sym 108) (Sym 109)) (Inner 34 False (Sym 110)
     (Sym 112))) (Inner 35 False (Inner 36 False (Sym 114) (Sym 117)) (Inner 37 False (Inner 38 False (Sym 58) (Sym
     66)) (Inner 39 False (Sym 67) (Sym 68)))))) (Inner 40 True (Inner 41 False (Inner 42 False (Inner 43 False
     (Inner 44 False (Sym 69) (Sym 70)) (Inner 45 False (Sym 71) (Sym 72))) (Inner 46 False (Inner 47 False (Sym 73)
     (Sym 74)) (Inner 48 False (Sym 75) (Sym 76)))) (Inner 49 False (Inner 50 False (Inner 51 False (Sym 77) (Sym
     78)) (Inner 52 False (Sym 79) (Sym 80))) (Inner 53 False (Inner 54 False (Sym 81) (Sym 82)) (Inner 55 False (Sym
     83) (Sym 84))))) (Inner 56 True (Inner 57 False (Inner 58 False (Inner 59 False (Sym 85) (Sym 86)) (Inner 60
     False (Sym 87) (Sym 89))) (Inner 61 False (Inner 62 False (Sym 106) (Sym 107)) (Inner 63 False (Sym 113) (Sym
     118)))) (Inner 64 True (Inner 65 False (Inner 66 False (Sym 119) (Sym 120)) (Inner 67 False (Sym 121) (Sym
     122))) (Inner 68 True (Inner 69 False (Inner 70 False (Sym 38) (Sym 42)) (Inner 71 False (Sym 44) (Sym 59)))
     (Inner 72 True (Inner 73 False (Sym 88) (Sym 90)) (Inner 74 True (Inner 75 False (Inner 76 False (Sym 33) (Sym
     34)) (Inner 77 False (Sym 40) (Sym 41))) (Inner 78 True (Inner 79 False (Sym 63) (Inner 80 False (Sym 39) (Sym
     43))) (Inner 81 True (Inner 82 False (Sym 124) (Inner 83 False (Sym 35) (Sym 62))) (Inner 84 True (Inner 85
     False (Inner 86 False (Sym 0) (Sym 36)) (Inner 87 False (Sym 64) (Sym 91))) (Inner 88 True (Inner 89 False (Sym
     93) (Sym 126)) (Inner 90 True (Inner 91 False (Sym 94) (Sym 125)) (Inner 92 True (Inner 93 False (Sym 60) (Sym
     96)) (Inner 94 True (Sym 123) (Inner 95 True (Inner 96 False (Inner 97 False (Inner 98 False (Sym 92) (Sym 195))
     (Inner 99 False (Sym 208) (Inner 100 False (Sym 128) (Sym 130)))) (Inner 101 False (Inner 102 False (Inner 103
     False (Sym 131) (Sym 162)) (Inner 104 False (Sym 184) (Sym 194))) (Inner 105 False (Inner 106 False (Sym 224)
     (Sym 226)) (Inner 107 False (Inner 108 False (Sym 153) (Sym 161)) (Inner 109 False (Sym 167) (Sym 172))))))
     (Inner 110 True (Inner 111 False (Inner 112 False (Inner 113 False (Inner 114 False (Sym 176) (Sym 177)) (Inner
     115 False (Sym 179) (Sym 209))) (Inner 116 False (Inner 117 False (Sym 216) (Sym 217)) (Inner 118 False (Sym
     227) (Sym 229)))) (Inner 119 False (Inner 120 False (Inner 121 False (Sym 230) (Inner 122 False (Sym 129) (Sym
     132))) (Inner 123 False (Inner 124 False (Sym 133) (Sym 134)) (Inner 125 False (Sym 136) (Sym 146)))) (Inner 126
     False (Inner 127 False (Inner 128 False (Sym 154) (Sym 156)) (Inner 129 False (Sym 160) (Sym 163))) (Inner 130
     False (Inner 131 False (Sym 164) (Sym 169)) (Inner 132 False (Sym 170) (Sym 173)))))) (Inner 133 True (Inner 134
     False (Inner 135 False (Inner 136 False (Inner 137 False (Sym 178) (Sym 181)) (Inner 138 False (Sym 185) (Sym
     186))) (Inner 139 False (Inner 140 False (Sym 187) (Sym 189)) (Inner 141 False (Sym 190) (Sym 196)))) (Inner 142
     False (Inner 143 False (Inner 144 False (Sym 198) (Sym 228)) (Inner 145 False (Sym 232) (Sym 233))) (Inner 146
     False (Inner 147 False (Inner 148 False (Sym 1) (Sym 135)) (Inner 149 False (Sym 137) (Sym 138))) (Inner 150
     False (Inner 151 False (Sym 139) (Sym 140)) (Inner 152 False (Sym 141) (Sym 143)))))) (Inner 153 True (Inner 154
     False (Inner 155 False (Inner 156 False (Inner 157 False (Sym 147) (Sym 149)) (Inner 158 False (Sym 150) (Sym
     151))) (Inner 159 False (Inner 160 False (Sym 152) (Sym 155)) (Inner 161 False (Sym 157) (Sym 158)))) (Inner 162
     False (Inner 163 False (Inner 164 False (Sym 165) (Sym 166)) (Inner 165 False (Sym 168) (Sym 174))) (Inner 166
     False (Inner 167 False (Sym 175) (Sym 180)) (Inner 168 False (Sym 182) (Sym 183))))) (Inner 169 True (Inner 170
     False (Inner 171 False (Inner 172 False (Sym 188) (Sym 191)) (Inner 173 False (Sym 197) (Sym 231))) (Inner 174
     False (Inner 175 False (Sym 239) (Inner 176 False (Sym 9) (Sym 142))) (Inner 177 False (Inner 178 False (Sym
     144) (Sym 145)) (Inner 179 False (Sym 148) (Sym 159))))) (Inner 180 True (Inner 181 False (Inner 182 False
     (Inner 183 False (Sym 171) (Sym 206)) (Inner 184 False (Sym 215) (Sym 225))) (Inner 185 False (Inner 186 False
     (Sym 236) (Sym 237)) (Inner 187 False (Inner 188 False (Sym 199) (Sym 207)) (Inner 189 False (Sym 234) (Sym
     235))))) (Inner 190 True (Inner 191 False (Inner 192 False (Inner 193 False (Inner 194 False (Sym 192) (Sym
     193)) (Inner 195 False (Sym 200) (Sym 201))) (Inner 196 False (Inner 197 False (Sym 202) (Sym 205)) (Inner 198
     False (Sym 210) (Sym 213)))) (Inner 199 False (Inner 200 False (Inner 201 False (Sym 218) (Sym 219)) (Inner 202
     False (Sym 238) (Sym 240))) (Inner 203 False (Inner 204 False (Sym 242) (Sym 243)) (Inner 205 False (Sym 255)
     (Inner 206 False (Sym 203) (Sym 204)))))) (Inner 207 True (Inner 208 False (Inner 209 False (Inner 210 False
     (Inner 211 False (Sym 211) (Sym 212)) (Inner 212 False (Sym 214) (Sym 221))) (Inner 213 False (Inner 214 False
     (Sym 222) (Sym 223)) (Inner 215 False (Sym 241) (Sym 244)))) (Inner 216 False (Inner 217 False (Inner 218 False
     (Sym 245) (Sym 246)) (Inner 219 False (Sym 247) (Sym 248))) (Inner 220 False (Inner 221 False (Sym 250) (Sym
     251)) (Inner 222 False (Sym 252) (Sym 253))))) (Inner 223 True (Inner 224 False (Inner 225 False (Inner 226
     False (Sym 254) (Inner 227 False (Sym 2) (Sym 3))) (Inner 228 False (Inner 229 False (Sym 4) (Sym 5)) (Inner 230
     False (Sym 6) (Sym 7)))) (Inner 231 False (Inner 232 False (Inner 233 False (Sym 8) (Sym 11)) (Inner 234 False
     (Sym 12) (Sym 14))) (Inner 235 False (Inner 236 False (Sym 15) (Sym 16)) (Inner 237 False (Sym 17) (Sym 18)))))
     (Inner 238 True (Inner 239 False (Inner 240 False (Inner 241 False (Sym 19) (Sym 20)) (Inner 242 False (Sym 21)
     (Sym 23))) (Inner 243 False (Inner 244 False (Sym 24) (Sym 25)) (Inner 245 False (Sym 26) (Sym 27)))) (Inner 246
     True (Inner 247 False (Inner 248 False (Sym 28) (Sym 29)) (Inner 249 False (Sym 30) (Sym 31))) (Inner 250 True
     (Inner 251 False (Sym 127) (Sym 220)) (Inner 252 True (Sym 249) (Inner 253 True (Inner 254 False (Sym 10) (Sym
     13)) (Inner 255 True (Sym 22) Eos)))))))))))))))))))))))))))))"

end
