(* ===== verification/Ngx_Http_V2_Huff_Tree.thy ===== *)
theory Ngx_Http_V2_Huff_Tree
  imports Ngx_Http_V2_Huff_Table
begin

text \<open>
  The tables of the Huffman code of HTTP/2 against the binary tree of the code: every row of the decoder's table is
  what four bits do from a node of the tree, every entry of the encoder's table is the path to a leaf.
\<close>

section \<open>The tables and the tree\<close>

text \<open>
  What four bits do, from a node: the state and the symbol for each of their values, in order; the mark tells that the code
  that stands for the end of the string was reached. A symbol is followed by at most three bits.
\<close>

type_synonym huff_outcome = "bool \<times> huff_decode_code"

fun root_top :: "nat \<Rightarrow> int \<Rightarrow> huff_outcome list" where
  "root_top 0 s = [(False, 0, 1, s, 1)]"
| "root_top (Suc 0) s = [(False, 1, 1, s, 0), (False, 22, 1, s, 1)]"
| "root_top (Suc (Suc 0)) s = [(False, 2, 1, s, 0), (False, 9, 1, s, 0), (False, 23, 1, s, 0), (False, 40, 1, s, 1)]"
| "root_top (Suc (Suc (Suc 0))) s = [(False, 3, 1, s, 0), (False, 6, 1, s, 0), (False, 10, 1, s, 0), (False, 15, 1, s, 0), (False, 24, 1, s, 0), (False, 31, 1, s, 0), (False, 41, 1, s, 0), (False, 56, 1, s, 1)]"
| "root_top _ s = []"

fun eos_outcomes :: "int \<Rightarrow> nat \<Rightarrow> huff_outcome list" where
  "eos_outcomes q 0 = [(True, q, 0, 0, 0)]"
| "eos_outcomes q (Suc k) = eos_outcomes q k @ eos_outcomes q k"

fun outcomes :: "int \<Rightarrow> nat \<Rightarrow> huff_tree \<Rightarrow> huff_outcome list" where
  "outcomes q 0 (Inner q' f l r) = [(False, q', 0, 0, if f then 1 else 0)]"
| "outcomes q (Suc k) (Inner q' f l r) = outcomes q k l @ outcomes q k r"
| "outcomes q k (Sym s) = root_top k s"
| "outcomes q k Eos = eos_outcomes q k"

fun tree_rows :: "huff_tree \<Rightarrow> (int \<times> huff_outcome list) list" where
  "tree_rows (Inner q f l r) = (q, outcomes q (Suc (Suc (Suc (Suc 0)))) (Inner q f l r)) # tree_rows l @ tree_rows r"
| "tree_rows _ = []"

text \<open>The codes of the leaves, as the number their bits make and their length.\<close>

fun tree_codes :: "int \<Rightarrow> nat \<Rightarrow> huff_tree \<Rightarrow> (int \<times> int \<times> nat) list" where
  "tree_codes v n (Sym s) = [(s, v, n)]"
| "tree_codes v n Eos = []"
| "tree_codes v n (Inner q f l r) = tree_codes (v + v) (Suc n) l @ tree_codes (v + v + 1) (Suc n) r"

fun ones_ok :: "bool \<Rightarrow> huff_tree \<Rightarrow> bool" where
  "ones_ok p (Inner q f l r) = (f = p \<and> ones_ok False l \<and> ones_ok p r)"
| "ones_ok p _ = True"

fun rows_match :: "huff_decode_code list list \<Rightarrow> (int \<times> huff_outcome list) list \<Rightarrow> bool" where
  "rows_match codes [] = True"
| "rows_match codes ((q, row) # rows) = (0 \<le> q \<and> codes ! nat q = map snd row \<and> rows_match codes rows)"

fun codes_match :: "(int \<times> nat) list \<Rightarrow> (int \<times> int \<times> nat) list \<Rightarrow> bool" where
  "codes_match table [] = True"
| "codes_match table ((s, c, n) # codes) = (0 \<le> s \<and> s < 256 \<and> table ! nat s = (c, n) \<and> codes_match table codes)"

lemmas huff_decode_codes_defs = ngx_http_v2_huff_decode_codes_def
  huff_decode_codes_0_def huff_decode_codes_15_def huff_decode_codes_30_def huff_decode_codes_45_def
  huff_decode_codes_60_def huff_decode_codes_75_def huff_decode_codes_90_def huff_decode_codes_105_def
  huff_decode_codes_120_def huff_decode_codes_135_def huff_decode_codes_150_def huff_decode_codes_165_def
  huff_decode_codes_180_def huff_decode_codes_195_def huff_decode_codes_210_def huff_decode_codes_225_def
  huff_decode_codes_240_def huff_decode_codes_255_def

text \<open>The tables of the source against the tree, entry by entry.\<close>

lemma huff_rows_checked: "rows_match ngx_http_v2_huff_decode_codes (tree_rows huff_root)"
  unfolding huff_root_def huff_decode_codes_defs append.simps by simp

lemma huff_self_checked: "list_all (\<lambda>(q, row). list_all (\<lambda>(e, n, _). e = (n = q)) row) (tree_rows huff_root)"
  unfolding huff_root_def by simp

lemma huff_codes_checked: "codes_match ngx_http_v2_huff_encode_table (tree_codes 0 0 huff_root)"
  unfolding huff_root_def ngx_http_v2_huff_encode_table_def by simp

lemma huff_leaves_checked: "length (tree_codes 0 0 huff_root) = 256"
  unfolding huff_root_def by simp

lemma huff_root_inner: "\<exists>l r. huff_root = Inner 0 True l r"
  unfolding huff_root_def by blast

lemma huff_top_checked:
  "outcomes q 0 huff_root = map (\<lambda>(e, n, _, _, f). (e, n, 0, 0, f)) (root_top 0 0)"
  "outcomes q (Suc 0) huff_root = map (\<lambda>(e, n, _, _, f). (e, n, 0, 0, f)) (root_top (Suc 0) 0)"
  "outcomes q (Suc (Suc 0)) huff_root = map (\<lambda>(e, n, _, _, f). (e, n, 0, 0, f)) (root_top (Suc (Suc 0)) 0)"
  "outcomes q (Suc (Suc (Suc 0))) huff_root = map (\<lambda>(e, n, _, _, f). (e, n, 0, 0, f)) (root_top (Suc (Suc (Suc 0))) 0)"
  unfolding huff_root_def by simp_all

lemma huff_ones_checked: "ones_ok True huff_root"
  unfolding huff_root_def by simp

end
