(* ===== verification/Ngx_Http_V2_Huff.thy ===== *)
theory Ngx_Http_V2_Huff
  imports Ngx_Http_V2_Huff_Tree Ngx_Hash
begin

text \<open>
  \<^verbatim>\<open>http/v2/ngx_http_v2_huff_decode.c\<close>, \<^verbatim>\<open>http/v2/ngx_http_v2_huff_encode.c\<close>: the Huffman code of header strings in HTTP/2. The
  decoder is a table of states driven by four bits at a time; the encoder collects codes in a 64-bit word. The tables
  are compared with a binary tree of the code, and both routines are proved against the code as a list of bits.
\<close>

section \<open>The decoder\<close>

text \<open>What is left of \<open>*state\<close>, \<open>*ending\<close> and the destination; \<open>None\<close>: \<open>NGX_ERROR\<close>.\<close>

definition ngx_http_v2_huff_decode_bits :: "int \<Rightarrow> nat \<Rightarrow> u_char list \<Rightarrow> (int \<times> bool \<times> u_char list) option" where
  "ngx_http_v2_huff_decode_bits state bits dst =
     (case ngx_http_v2_huff_decode_codes ! nat state ! bits of (next_state, emit, symbol, ending) \<Rightarrow>
        if next_state = state then None
        else Some (next_state, ending \<noteq> 0, if emit \<noteq> 0 then dst @ [word_of_int symbol] else dst))"

fun huff_decode_loop :: "int \<Rightarrow> bool \<Rightarrow> u_char list \<Rightarrow> u_char list \<Rightarrow> (int \<times> bool \<times> u_char list) option" where
  "huff_decode_loop state ending [] dst = Some (state, ending, dst)"
| "huff_decode_loop state ending (ch # src) dst =
     (case ngx_http_v2_huff_decode_bits state (unat (drop_bit 4 ch)) dst of
        None \<Rightarrow> None
      | Some (s1, e1, d1) \<Rightarrow>
          (case ngx_http_v2_huff_decode_bits s1 (unat (ch AND 0xf)) d1 of
             None \<Rightarrow> None
           | Some (s2, e2, d2) \<Rightarrow> huff_decode_loop s2 e2 src d2))"

definition ngx_http_v2_huff_decode :: "int \<Rightarrow> u_char list \<Rightarrow> u_char list \<Rightarrow> bool \<Rightarrow> (int \<times> u_char list) option" where
  "ngx_http_v2_huff_decode state src dst last_part =
     (case huff_decode_loop state True src dst of
        None \<Rightarrow> None
      | Some (s, ending, d) \<Rightarrow>
          if last_part then if \<not> ending then None else Some (0, d)
          else Some (s, d))"

section \<open>The encoder\<close>

definition ngx_http_v2_huff_encode_buf :: "64 word \<Rightarrow> u_char list" where
  "ngx_http_v2_huff_encode_buf buf =
     [ucast (drop_bit 56 buf), ucast (drop_bit 48 buf), ucast (drop_bit 40 buf), ucast (drop_bit 32 buf),
      ucast (drop_bit 24 buf), ucast (drop_bit 16 buf), ucast (drop_bit 8 buf), ucast buf]"

text \<open>The loop over the source; \<open>None\<close>: the result would not be shorter.\<close>

fun huff_encode_loop :: "(int \<times> nat) list \<Rightarrow> nat \<Rightarrow> u_char list \<Rightarrow> 64 word \<Rightarrow> nat \<Rightarrow> u_char list \<Rightarrow>
    (64 word \<times> nat \<times> u_char list) option" where
  "huff_encode_loop table len [] buf pending dst = Some (buf, pending, dst)"
| "huff_encode_loop table len (c # src) buf pending dst =
     (case table ! unat c of (code0, n) \<Rightarrow>
       let code = word_of_int code0 :: 64 word; pending1 = pending + n in
       if pending1 < 64 then huff_encode_loop table len src (buf OR push_bit (64 - pending1) code) pending1 dst
       else if length dst + 8 \<ge> len then None
       else let pending2 = pending1 - 64;
                buf1 = buf OR drop_bit pending2 code
            in huff_encode_loop table len src (if pending2 \<noteq> 0 then push_bit (64 - pending2) code else 0) pending2
                 (dst @ ngx_http_v2_huff_encode_buf buf1))"

fun huff_encode_tail :: "64 word \<Rightarrow> nat \<Rightarrow> u_char list" where
  "huff_encode_tail buf pending =
     (if pending \<le> 8 then [ucast (drop_bit (pending - 8) buf)]
      else ucast (drop_bit (pending - 8) buf) # huff_encode_tail buf (pending - 8))"

declare huff_encode_tail.simps [simp del]

text \<open>The encoded string; no bytes: it is not shorter than the source.\<close>

definition ngx_http_v2_huff_encode :: "u_char list \<Rightarrow> bool \<Rightarrow> u_char list" where
  "ngx_http_v2_huff_encode src lower =
     (case huff_encode_loop (if lower then ngx_http_v2_huff_encode_table_lc else ngx_http_v2_huff_encode_table) (length src) src 0 0 [] of
        None \<Rightarrow> []
      | Some (buf, pending, dst) \<Rightarrow>
          if pending = 0 then dst
          else let buf1 = buf OR drop_bit pending (-1);
                   pending1 = ngx_align pending 8
               in if length dst + pending1 div 8 \<ge> length src then []
                  else dst @ huff_encode_tail (drop_bit (64 - pending1) buf1) pending1)"


section \<open>Walking the tree\<close>

fun is_inner :: "huff_tree \<Rightarrow> bool" where
  "is_inner (Inner q f l r) = True"
| "is_inner _ = False"

fun node_id :: "huff_tree \<Rightarrow> int" where
  "node_id (Inner q f l r) = q"
| "node_id _ = 0"

fun node_ones :: "huff_tree \<Rightarrow> bool" where
  "node_ones (Inner q f l r) = f"
| "node_ones _ = False"

text \<open>The subtree at the end of a path.\<close>

fun at_path :: "huff_tree \<Rightarrow> bool list \<Rightarrow> huff_tree" where
  "at_path t [] = t"
| "at_path (Inner q f l r) (b # p) = at_path (if b then r else l) p"
| "at_path t (b # p) = Eos"

lemma huff_eos_checked: "is_inner (at_path huff_root (replicate 29 True))" "at_path huff_root (replicate 30 True) = Eos"
  unfolding huff_root_def by (simp_all add: numeral_eq_Suc)

text \<open>From a node, bit by bit: the node reached and the symbols met, or \<open>None\<close> when the end-of-string code is met.\<close>

fun steps :: "huff_tree \<Rightarrow> bool list \<Rightarrow> (huff_tree \<times> int list) option" where
  "steps t [] = Some (t, [])"
| "steps t (b # bs) =
     (case at_path t [b] of
        Eos \<Rightarrow> None
      | Sym s \<Rightarrow> map_option (\<lambda>x. (fst x, s # snd x)) (steps huff_root bs)
      | Inner q f l r \<Rightarrow> steps (Inner q f l r) bs)"

lemma root_inner [simp]: "is_inner huff_root" "node_id huff_root = 0" "node_ones huff_root"
  using huff_root_inner by (metis is_inner.simps(1), metis node_id.simps(1), metis node_ones.simps(1))

lemma steps_append:
  "steps t (xs @ ys) = (case steps t xs of None \<Rightarrow> None | Some (t', e) \<Rightarrow> map_option (\<lambda>x. (fst x, e @ snd x)) (steps t' ys))"
  by (induction t xs rule: steps.induct)
    (auto split: huff_tree.split option.split simp: option.map_comp comp_def option.map_ident)

lemma steps_inner: "steps t bs = Some (t', e) \<Longrightarrow> is_inner t \<Longrightarrow> is_inner t'"
  by (induction t bs arbitrary: t' e rule: steps.induct) (auto split: huff_tree.splits)

lemma at_path_inner: "at_path t p = t' \<Longrightarrow> is_inner t' \<Longrightarrow> is_inner t"
  by (induction t p rule: at_path.induct) auto

lemma steps_leaf:
  assumes "at_path t p = Sym s" "is_inner t"
  shows "steps t (p @ bs) = map_option (\<lambda>x. (fst x, s # snd x)) (steps huff_root bs)"
  using assms
proof (induction t p rule: at_path.induct)
  case (2 q f l r b p)
  show ?case
  proof (cases p)
    case Nil
    thus ?thesis using 2 by simp
  next
    case (Cons c p')
    hence "is_inner (if b then r else l)" using 2(2) by (cases "if b then r else l") auto
    then obtain q' f' l' r' where i: "(if b then r else l) = Inner q' f' l' r'" by (cases "if b then r else l") auto
    have "steps (Inner q' f' l' r') (p @ bs) = map_option (\<lambda>x. (fst x, s # snd x)) (steps huff_root bs)"
      using 2(1)[unfolded i] 2(2) i by simp
    thus ?thesis using i by simp
  qed
qed auto

lemma steps_path:
  assumes "at_path t p = t'" "is_inner t'"
  shows "steps t p = Some (t', [])"
  using assms
proof (induction t p rule: at_path.induct)
  case (2 q f l r b p)
  have "is_inner (if b then r else l)" using at_path_inner[of "if b then r else l" p t'] 2(2,3) by simp
  then obtain q' f' l' r' where i: "(if b then r else l) = Inner q' f' l' r'" by (cases "if b then r else l") auto
  thus ?case using 2(1)[unfolded i] 2(2,3) i by simp
qed auto

text \<open>The symbols met are the leaves at the ends of paths that the bits run along.\<close>

lemma steps_split:
  assumes "steps t bs = Some (t', e)" "is_inner t"
  shows "(e = [] \<and> at_path t bs = t') \<or>
    (\<exists>s e' p bs'. e = s # e' \<and> bs = p @ bs' \<and> at_path t p = Sym s \<and> steps huff_root bs' = Some (t', e'))"
  using assms
proof (induction t bs rule: steps.induct)
  case (2 t b bs)
  obtain q f l r where t: "t = Inner q f l r" using 2(4) by (cases t) auto
  let ?c = "if b then r else l"
  show ?case
  proof (cases ?c)
    case (Sym s)
    then obtain e' where "e = s # e'" "steps huff_root bs = Some (t', e')" using 2(3) t by auto
    moreover have "at_path t [b] = Sym s" using Sym t by simp
    ultimately show ?thesis by (intro disjI2 exI[of _ s] exI[of _ e'] exI[of _ "[b]"] exI[of _ bs]) simp
  next
    case Eos
    thus ?thesis using 2(3) t by simp
  next
    case (Inner q' f' l' r')
    hence "steps (Inner q' f' l' r') bs = Some (t', e)" using 2(3) t by simp
    hence "(e = [] \<and> at_path ?c bs = t') \<or>
        (\<exists>s e' p bs'. e = s # e' \<and> bs = p @ bs' \<and> at_path ?c p = Sym s \<and> steps huff_root bs' = Some (t', e'))"
      using 2(2)[of q' f' l' r'] Inner t by simp
    thus ?thesis
    proof
      assume "e = [] \<and> at_path ?c bs = t'"
      thus ?thesis using t by simp
    next
      assume "\<exists>s e' p bs'. e = s # e' \<and> bs = p @ bs' \<and> at_path ?c p = Sym s \<and> steps huff_root bs' = Some (t', e')"
      then obtain s e' p bs' where "e = s # e'" "bs = p @ bs'" "at_path ?c p = Sym s" "steps huff_root bs' = Some (t', e')" by blast
      thus ?thesis using t by (intro disjI2 exI[of _ s] exI[of _ e'] exI[of _ "b # p"] exI[of _ bs']) simp
    qed
  qed
qed simp

section \<open>Codes\<close>

fun path_value :: "int \<Rightarrow> bool list \<Rightarrow> int" where
  "path_value v [] = v"
| "path_value v (b # p) = path_value (v + v + (if b then 1 else 0)) p"

fun tree_leaves :: "huff_tree \<Rightarrow> (int \<times> bool list) list" where
  "tree_leaves (Sym s) = [(s, [])]"
| "tree_leaves Eos = []"
| "tree_leaves (Inner q f l r) = map (\<lambda>(s, p). (s, False # p)) (tree_leaves l) @ map (\<lambda>(s, p). (s, True # p)) (tree_leaves r)"

lemma tree_leaves_at: "(s, p) \<in> set (tree_leaves t) \<longleftrightarrow> at_path t p = Sym s"
proof (induction t arbitrary: p)
  case (Inner q f l r)
  thus ?case by (cases p) auto
qed (auto elim: at_path.elims)

lemma tree_leaves_distinct: "distinct (map snd (tree_leaves t))"
proof (induction t)
  case (Inner q f l r)
  have m: "map snd (map (\<lambda>(s, p). (s, b # p)) xs) = map (Cons b) (map snd xs)" for b and xs :: "(int \<times> bool list) list"
    by (induction xs) auto
  have d: "distinct (map (Cons b) ys) = distinct ys" for b :: bool and ys by (simp add: distinct_map)
  show ?case unfolding tree_leaves.simps map_append m distinct_append d using Inner by auto
qed simp_all

lemma tree_codes_leaves: "tree_codes v n t = map (\<lambda>(s, p). (s, path_value v p, n + length p)) (tree_leaves t)"
  by (induction t arbitrary: v n) (auto simp: case_prod_beta)

lemma codes_match_all: "codes_match table codes \<Longrightarrow> (s, c, n) \<in> set codes \<Longrightarrow> 0 \<le> s \<and> s < 256 \<and> table ! nat s = (c, n)"
  by (induction table codes rule: codes_match.induct) auto

lemma leaf_code: "at_path huff_root p = Sym s \<Longrightarrow> 0 \<le> s \<and> s < 256 \<and> ngx_http_v2_huff_encode_table ! nat s = (path_value 0 p, length p)"
  using codes_match_all[OF huff_codes_checked, of s "path_value 0 p" "length p"] tree_leaves_at[of s p huff_root]
  by (force simp: tree_codes_leaves)

lemma path_value_snoc: "path_value v (p @ [b]) = 2 * path_value v p + (if b then 1 else 0)"
  by (induction p arbitrary: v) simp_all

definition code_path :: "int \<times> nat \<Rightarrow> bool list" where
  "code_path c = (case c of (v, n) \<Rightarrow> map (\<lambda>i. bit v (n - 1 - i)) [0..<n])"

lemma code_path_value: "code_path (path_value 0 p, length p) = p"
proof (induction p rule: rev_induct)
  case (snoc b p)
  let ?v = "path_value 0 p"
  have b: "bit (2 * ?v + (if b then 1 else 0)) (Suc j) = bit ?v j" for j by (simp add: bit_Suc)
  have "code_path (path_value 0 (p @ [b]), length (p @ [b])) =
      map (\<lambda>i. bit (2 * ?v + (if b then 1 else 0)) (length p - i)) [0..<length p] @ [bit (2 * ?v + (if b then 1 else 0)) 0]"
    unfolding path_value_snoc by (simp add: code_path_def)
  also have "map (\<lambda>i. bit (2 * ?v + (if b then 1 else 0)) (length p - i)) [0..<length p] = map (\<lambda>i. bit ?v (length p - 1 - i)) [0..<length p]"
    by (rule map_cong[OF refl]) (metis Suc_diff_Suc Suc_pred' atLeastLessThan_iff b diff_Suc_eq_diff_pred gr_zeroI not_less_zero set_upt zero_less_diff)
  also have "\<dots> = p" using snoc by (simp add: code_path_def)
  finally show ?case by (simp add: bit_0)
qed (simp add: code_path_def)

text \<open>Every byte has a leaf, at the end of the path that is its code.\<close>

definition code_bits :: "u_char \<Rightarrow> bool list" where
  "code_bits c = code_path (ngx_http_v2_huff_encode_table ! unat c)"

lemma leaf_path: "at_path huff_root p = Sym s \<Longrightarrow> p = code_path (ngx_http_v2_huff_encode_table ! nat s)"
  using leaf_code[of p s] code_path_value[of p] by simp

lemma leaf_exists:
  assumes "0 \<le> s" "s < 256"
  shows "at_path huff_root (code_path (ngx_http_v2_huff_encode_table ! nat s)) = Sym s"
proof -
  let ?L = "tree_leaves huff_root"
  have len: "length ?L = 256" using huff_leaves_checked by (simp add: tree_codes_leaves)
  have d: "distinct ?L" using tree_leaves_distinct[of huff_root] by (simp add: distinct_map)
  have "inj_on fst (set ?L)"
    by (rule inj_onI) (metis leaf_path prod.collapse tree_leaves_at)
  hence "card (fst ` set ?L) = 256" using d len by (simp add: card_image distinct_card)
  moreover have "fst ` set ?L \<subseteq> {0..<256}" using leaf_code tree_leaves_at by fastforce
  ultimately have "fst ` set ?L = {0..<256}" by (intro card_subset_eq) simp_all
  hence "s \<in> fst ` set ?L" using assms by simp
  then obtain p where "(s, p) \<in> set ?L" by force
  hence "at_path huff_root p = Sym s" by (simp add: tree_leaves_at)
  thus ?thesis using leaf_path by metis
qed

lemma code_bits_leaf: "at_path huff_root (code_bits c) = Sym (uint c)"
proof -
  have "uint c < 256" "nat (uint c) = unat c" using uint_lt2p[of c] by simp_all
  thus ?thesis using leaf_exists[of "uint c"] by (simp add: code_bits_def)
qed

lemma leaf_code_bits: "at_path huff_root p = Sym s \<Longrightarrow> p = code_bits (word_of_int s) \<and> uint (word_of_int s :: u_char) = s"
proof -
  assume a: "at_path huff_root p = Sym s"
  hence s: "0 \<le> s" "s < 256" using leaf_code by auto
  hence "uint (word_of_int s :: u_char) = s" by (simp add: uint_word_of_int_eq take_bit_int_eq_self)
  moreover from this have "unat (word_of_int s :: u_char) = nat s" by (metis unat_eq_nat_uint)
  ultimately show ?thesis using leaf_path[OF a] by (simp add: code_bits_def)
qed

text \<open>What the bits of a string and some more bits do.\<close>

definition codes :: "u_char list \<Rightarrow> bool list" where
  "codes s = concat (map code_bits s)"

lemma steps_codes:
  assumes "steps huff_root bs = Some (t, e)"
  shows "steps huff_root (codes s @ bs) = Some (t, map uint s @ e)"
  using assms by (induction s) (simp_all add: codes_def steps_leaf[OF code_bits_leaf])

lemma steps_sound:
  assumes "steps huff_root bs = Some (t, e)"
  shows "\<exists>p. bs = codes (map word_of_int e) @ p \<and> at_path huff_root p = t \<and> map uint (map word_of_int e :: u_char list) = e"
  using assms
proof (induction e arbitrary: bs)
  case Nil
  thus ?case using steps_split[OF Nil] by (auto simp: codes_def)
next
  case (Cons s e)
  obtain p bs' where b: "bs = p @ bs'" "at_path huff_root p = Sym s" "steps huff_root bs' = Some (t, e)"
    using steps_split[OF Cons.prems] by auto
  obtain p' where "bs' = codes (map word_of_int e) @ p'" "at_path huff_root p' = t" "map uint (map word_of_int e :: u_char list) = e"
    using Cons.IH[OF b(3)] by blast
  thus ?case using b(1) leaf_code_bits[OF b(2)] by (simp add: codes_def)
qed

text \<open>The input may end where only ones lead to.\<close>

lemma ones_ok_path: "ones_ok f t \<Longrightarrow> at_path t p = Inner q f' l r \<Longrightarrow> f' = (f \<and> list_all id p)"
proof (induction t p arbitrary: f rule: at_path.induct)
  case (2 q f l r b p)
  thus ?case by (cases b) force+
qed auto

lemma node_ones_path: "at_path huff_root p = t \<Longrightarrow> is_inner t \<Longrightarrow> node_ones t = list_all id p"
  using ones_ok_path[OF huff_ones_checked, of p] by (cases t) auto

lemma at_path_eos [simp]: "at_path Eos p = Eos"
  by (cases p) simp_all

lemma at_path_append: "at_path t (p @ q) = at_path (at_path t p) q"
  by (induction t p rule: at_path.induct) simp_all

lemma list_all_id_replicate: "list_all id p \<longleftrightarrow> p = replicate (length p) True"
  by (induction p) auto

lemma ones_inner: "is_inner (at_path huff_root (replicate k True)) \<longleftrightarrow> k < 30"
proof (cases "k < 30")
  case True
  have "is_inner (at_path huff_root (replicate k True @ replicate (29 - k) True))"
    using True huff_eos_checked by (simp add: replicate_add[symmetric])
  thus ?thesis using True at_path_inner[of "at_path huff_root (replicate k True)" "replicate (29 - k) True"] by (simp add: at_path_append)
next
  case False
  hence "at_path huff_root (replicate k True) = at_path (at_path huff_root (replicate 30 True)) (replicate (k - 30) True)"
    by (simp add: at_path_append[symmetric] replicate_add[symmetric])
  also have "\<dots> = Eos" using huff_eos_checked by (cases "k - 30") simp_all
  finally show ?thesis using False by simp
qed

section \<open>The rows of the decoder's table\<close>

fun bits_value :: "bool list \<Rightarrow> nat" where
  "bits_value [] = 0"
| "bits_value (b # bs) = (if b then 2 ^ length bs else 0) + bits_value bs"

lemma bits_value_less: "bits_value bs < 2 ^ length bs"
  by (induction bs) auto

fun step_entry :: "int \<Rightarrow> (huff_tree \<times> int list) option \<Rightarrow> huff_outcome" where
  "step_entry q None = (True, q, 0, 0, 0)"
| "step_entry q (Some (t, [])) = (False, node_id t, 0, 0, if node_ones t then 1 else 0)"
| "step_entry q (Some (t, s # e)) = (False, node_id t, 1, s, if node_ones t then 1 else 0)"

lemma root_top_length: "k \<le> 3 \<Longrightarrow> length (root_top k s) = 2 ^ k"
  by (cases "(k, s)" rule: root_top.cases) auto

lemma eos_outcomes: "length (eos_outcomes q k) = 2 ^ k" "i < 2 ^ k \<Longrightarrow> eos_outcomes q k ! i = (True, q, 0, 0, 0)"
proof -
  show l: "length (eos_outcomes q k) = 2 ^ k" for k by (induction k) simp_all
  show "i < 2 ^ k \<Longrightarrow> eos_outcomes q k ! i = (True, q, 0, 0, 0)"
  proof (induction k arbitrary: i)
    case (Suc k)
    thus ?case using l[of k] by (cases "i < 2 ^ k") (simp_all add: nth_append)
  qed simp
qed

lemma outcomes_length: "k \<le> 3 \<or> k = 4 \<and> is_inner t \<Longrightarrow> length (outcomes q k t) = 2 ^ k"
proof (induction q k t rule: outcomes.induct)
  case (2 q k q' f l r)
  hence "k \<le> 3" by auto
  thus ?case using 2(1,2) by simp
qed (auto simp: root_top_length eos_outcomes)

lemma outcomes_nth:
  assumes "length bs = k" "k \<le> 3"
  shows "outcomes q (Suc k) (Inner q' f l r) ! bits_value (b # bs) = outcomes q k (if b then r else l) ! bits_value bs"
  using assms outcomes_length[of k l q] outcomes_length[of k r q] bits_value_less[of bs] by (simp add: nth_append)

text \<open>Up to three bits from the root meet no symbol.\<close>

lemma outcomes_plain:
  assumes "list_all (\<lambda>(e, n, em, _). \<not> e \<and> em = 0) (outcomes q k t)" "is_inner t" "length bs = k" "k \<le> 3"
  shows "\<exists>t'. steps t bs = Some (t', []) \<and> outcomes q k t ! bits_value bs = step_entry q (Some (t', []))"
  using assms
proof (induction bs arbitrary: k t)
  case Nil
  thus ?case by (cases t) simp_all
next
  case (Cons b bs)
  obtain j where k: "k = Suc j" "length bs = j" "j \<le> 2" using Cons.prems by (cases k) auto
  obtain q' f l r where t: "t = Inner q' f l r" using Cons.prems(2) by (cases t) auto
  let ?c = "if b then r else l"
  have all: "list_all (\<lambda>(e, n, em, _). \<not> e \<and> em = 0) (outcomes q j ?c)" using Cons.prems(1) k t by (cases b) simp_all
  have ne: "outcomes q j ?c \<noteq> []" using outcomes_length[of j ?c q] k by auto
  have "is_inner ?c"
  proof (cases ?c)
    case (Sym s)
    hence "list_all (\<lambda>(e, n, em, _). \<not> e \<and> em = 0) (root_top j s)" using all by simp
    thus ?thesis using k(3) by (cases "(j, s)" rule: root_top.cases) auto
  next
    case Eos
    hence "list_all (\<lambda>(e, n, em, _). \<not> e \<and> em = 0) (eos_outcomes q j)" using all by simp
    moreover have "eos_outcomes q j ! 0 = (True, q, 0, 0, 0)" "0 < length (eos_outcomes q j)" using eos_outcomes(1)[of q j] eos_outcomes(2)[of 0 j q] by auto
    ultimately show ?thesis by (fastforce simp: list_all_length)
  qed simp
  then obtain q2 f2 l2 r2 where c: "?c = Inner q2 f2 l2 r2" by (cases ?c) auto
  obtain t' where t': "steps ?c bs = Some (t', [])" "outcomes q j ?c ! bits_value bs = step_entry q (Some (t', []))"
    using Cons.IH[OF all] c k by auto
  have "steps t (b # bs) = Some (t', [])" using t t'(1) c by simp
  moreover have "outcomes q k t ! bits_value (b # bs) = step_entry q (Some (t', []))"
    unfolding k(1) t by (subst outcomes_nth) (use k t'(2) in simp_all)
  ultimately show ?case by blast
qed

lemma root_top_eq: "k \<le> 3 \<Longrightarrow> root_top k s = map (\<lambda>(e, n, _, _, f). (e, n, 1, s, f)) (outcomes 0 k huff_root)"
proof -
  assume "k \<le> 3"
  then consider "k = 0" | "k = Suc 0" | "k = Suc (Suc 0)" | "k = Suc (Suc (Suc 0))" by linarith
  thus ?thesis by cases (simp_all add: huff_top_checked)
qed

lemma root_plain: "k \<le> 3 \<Longrightarrow> list_all (\<lambda>(e, n, em, _). \<not> e \<and> em = 0) (outcomes 0 k huff_root)"
proof -
  assume "k \<le> 3"
  then consider "k = 0" | "k = Suc 0" | "k = Suc (Suc 0)" | "k = Suc (Suc (Suc 0))" by linarith
  thus ?thesis by cases (simp_all add: huff_top_checked)
qed

lemma root_steps:
  assumes "length bs \<le> 3"
  shows "\<exists>t'. steps huff_root bs = Some (t', []) \<and> root_top (length bs) s ! bits_value bs = step_entry q (Some (t', [s]))"
proof -
  obtain t' where t: "steps huff_root bs = Some (t', [])" "outcomes 0 (length bs) huff_root ! bits_value bs = step_entry 0 (Some (t', []))"
    using outcomes_plain[OF root_plain[OF assms] root_inner(1) refl assms] by blast
  have "bits_value bs < length (outcomes 0 (length bs) huff_root)"
    using outcomes_length[of "length bs" huff_root 0] assms bits_value_less[of bs] by simp
  thus ?thesis using t by (simp add: root_top_eq[OF assms])
qed

lemma outcomes_steps:
  assumes "is_inner t" "length bs = k" "k \<le> 4"
  shows "outcomes q k t ! bits_value bs = step_entry q (steps t bs) \<and> (\<forall>t' e. steps t bs = Some (t', e) \<longrightarrow> length e \<le> 1)"
  using assms
proof (induction bs arbitrary: k t)
  case Nil
  thus ?case by (cases t) simp_all
next
  case (Cons b bs)
  obtain j where k: "k = Suc j" "length bs = j" "j \<le> 3" using Cons.prems by (cases k) auto
  obtain q' f l r where t: "t = Inner q' f l r" using Cons.prems(1) by (cases t) auto
  let ?c = "if b then r else l"
  have n: "outcomes q k t ! bits_value (b # bs) = outcomes q j ?c ! bits_value bs" unfolding k(1) t by (rule outcomes_nth[OF k(2,3)])
  show ?case
  proof (cases ?c)
    case (Sym s)
    obtain t' where "steps huff_root bs = Some (t', [])" "root_top j s ! bits_value bs = step_entry q (Some (t', [s]))"
      using root_steps[of bs s q] k by auto
    thus ?thesis using n t Sym by simp
  next
    case Eos
    thus ?thesis using n t eos_outcomes(2)[of "bits_value bs" j q] bits_value_less[of bs] k by simp
  next
    case (Inner q2 f2 l2 r2)
    thus ?thesis using n t Cons.IH[of "Inner q2 f2 l2 r2" j] k by simp
  qed
qed

section \<open>The decoder against the code\<close>

fun tree_nodes :: "huff_tree \<Rightarrow> huff_tree list" where
  "tree_nodes (Inner q f l r) = Inner q f l r # tree_nodes l @ tree_nodes r"
| "tree_nodes _ = []"

lemma tree_rows_nodes: "tree_rows t = map (\<lambda>n. (node_id n, outcomes (node_id n) (Suc (Suc (Suc (Suc 0)))) n)) (tree_nodes t)"
  by (induction t) simp_all

lemma rows_match_all: "rows_match cs rows \<Longrightarrow> (q, row) \<in> set rows \<Longrightarrow> 0 \<le> q \<and> cs ! nat q = map snd row"
  by (induction cs rows rule: rows_match.induct) auto

lemma tree_nodes_child: "Inner q f l r \<in> set (tree_nodes t) \<Longrightarrow> is_inner c \<Longrightarrow> c = l \<or> c = r \<Longrightarrow> c \<in> set (tree_nodes t)"
proof (induction t)
  case (Inner q' f' l' r')
  moreover have "is_inner c \<Longrightarrow> c \<in> set (tree_nodes c)" for c by (cases c) auto
  ultimately show ?case by auto
qed simp_all

lemma root_node: "huff_root \<in> set (tree_nodes huff_root)"
  using huff_root_inner by (metis list.set_intros(1) tree_nodes.simps(1))

lemma steps_node: "steps t bs = Some (t', e) \<Longrightarrow> t \<in> set (tree_nodes huff_root) \<Longrightarrow> t' \<in> set (tree_nodes huff_root)"
proof (induction t bs arbitrary: t' e rule: steps.induct)
  case (2 t b bs)
  show ?case
  proof (cases "at_path t [b]")
    case (Sym s)
    thus ?thesis using 2(1) 2(3) root_node by (auto split: option.splits)
  next
    case Eos
    thus ?thesis using 2(3) by simp
  next
    case (Inner q f l r)
    then obtain q2 f2 l2 r2 where "t = Inner q2 f2 l2 r2" by (cases t) auto
    hence "Inner q f l r \<in> set (tree_nodes huff_root)" using tree_nodes_child[of q2 f2 l2 r2 huff_root "Inner q f l r"] 2(4) Inner by (auto split: if_splits)
    thus ?thesis using 2(2)[OF Inner] 2(3) Inner by simp
  qed
qed simp

lemma tree_nodes_inner: "t \<in> set (tree_nodes t0) \<Longrightarrow> is_inner t"
  by (induction t0) auto

lemma decode_bits_steps:
  assumes "t \<in> set (tree_nodes huff_root)" "length bs = 4"
  shows "ngx_http_v2_huff_decode_bits (node_id t) (bits_value bs) dst =
    map_option (\<lambda>(t', e). (node_id t', node_ones t', dst @ map word_of_int e)) (steps t bs)"
proof -
  let ?row = "outcomes (node_id t) (Suc (Suc (Suc (Suc 0)))) t"
  note inner = tree_nodes_inner[OF assms(1)]
  have r: "(node_id t, ?row) \<in> set (tree_rows huff_root)" using assms(1) by (auto simp: tree_rows_nodes)
  have i: "bits_value bs < length ?row" using outcomes_length[of 4 t "node_id t"] inner bits_value_less[of bs] assms(2) by (simp add: numeral_eq_Suc)
  have o: "?row ! bits_value bs = step_entry (node_id t) (steps t bs)" "\<And>t' e. steps t bs = Some (t', e) \<Longrightarrow> length e \<le> 1"
    using outcomes_steps[OF inner assms(2), of "node_id t"] by (simp_all add: numeral_eq_Suc)
  have self: "case step_entry (node_id t) (steps t bs) of (e, n, _) \<Rightarrow> e = (n = node_id t)"
    using huff_self_checked r i o(1) by (fastforce simp: list_all_iff list_all_length dest: nth_mem)
  have c: "ngx_http_v2_huff_decode_codes ! nat (node_id t) ! bits_value bs = snd (step_entry (node_id t) (steps t bs))"
    using rows_match_all[OF huff_rows_checked r] i o(1) by simp
  show ?thesis
  proof (cases "steps t bs")
    case None
    thus ?thesis using c by (simp add: ngx_http_v2_huff_decode_bits_def)
  next
    case (Some x)
    obtain t' e where x: "x = (t', e)" by (cases x)
    then consider "e = []" | s where "e = [s]" using o(2)[of t' e] Some by (cases e) auto
    thus ?thesis
      by cases (use c self Some x in \<open>simp_all add: ngx_http_v2_huff_decode_bits_def\<close>)
  qed
qed

definition byte_bits :: "u_char \<Rightarrow> bool list" where
  "byte_bits ch = [bit ch 7, bit ch 6, bit ch 5, bit ch 4, bit ch 3, bit ch 2, bit ch 1, bit ch 0]"

definition bytes_bits :: "u_char list \<Rightarrow> bool list" where
  "bytes_bits s = concat (map byte_bits s)"

lemma nibble_values:
  "bits_value [bit ch 7, bit ch 6, bit ch 5, bit ch 4] = unat (drop_bit 4 (ch :: u_char))"
  "bits_value [bit ch 3, bit ch 2, bit ch 1, bit ch 0] = unat (ch AND 0xf)"
proof -
  have h: "unat c = horner_sum of_bool 2 (map (bit c) [0..<8])" for c :: u_char
    using horner_sum_bit_eq_take_bit[of "unat c" 8] byte_bound[of c] by (simp add: bit_unsigned_iff take_bit_nat_eq_self cong: map_cong)
  have m: "(0xf :: u_char) = mask 4" by (simp add: mask_eq_exp_minus_1)
  show "bits_value [bit ch 7, bit ch 6, bit ch 5, bit ch 4] = unat (drop_bit 4 ch)"
    unfolding h[of "drop_bit 4 ch"] by (simp add: upt_rec bit_drop_bit_eq bit_imp_le_length)
  show "bits_value [bit ch 3, bit ch 2, bit ch 1, bit ch 0] = unat (ch AND 0xf)"
    unfolding m h[of "ch AND mask 4"] by (simp add: upt_rec bit_and_iff bit_mask_iff numeral_2_eq_2 numeral_3_eq_3)
qed

lemma decode_loop_steps:
  assumes "t \<in> set (tree_nodes huff_root)"
  shows "huff_decode_loop (node_id t) en src dst =
    map_option (\<lambda>(t', e). (node_id t', if src = [] then en else node_ones t', dst @ map word_of_int e)) (steps t (bytes_bits src))"
  using assms
proof (induction src arbitrary: t en dst)
  case Nil
  thus ?case by (simp add: bytes_bits_def)
next
  case (Cons ch src)
  let ?hi = "[bit ch 7, bit ch 6, bit ch 5, bit ch 4]" and ?lo = "[bit ch 3, bit ch 2, bit ch 1, bit ch 0]"
  have b: "bytes_bits (ch # src) = ?hi @ ?lo @ bytes_bits src" by (simp add: bytes_bits_def byte_bits_def)
  note hi = decode_bits_steps[OF Cons.prems, of ?hi, unfolded nibble_values]
  show ?case
  proof (cases "steps t ?hi")
    case None
    thus ?thesis using hi unfolding b steps_append by simp
  next
    case (Some x)
    obtain t1 e1 where x: "steps t ?hi = Some (t1, e1)" using Some by (cases x) auto
    have n1: "t1 \<in> set (tree_nodes huff_root)" by (rule steps_node[OF x Cons.prems])
    note lo = decode_bits_steps[OF n1, of ?lo, unfolded nibble_values]
    show ?thesis
    proof (cases "steps t1 ?lo")
      case None
      thus ?thesis using hi lo x unfolding b steps_append by simp
    next
      case (Some y)
      obtain t2 e2 where y: "steps t1 ?lo = Some (t2, e2)" using Some by (cases y) auto
      note IH = Cons.IH[OF steps_node[OF y n1]]
      have s: "steps t (bytes_bits (ch # src)) = map_option (\<lambda>x. (fst x, e1 @ e2 @ snd x)) (steps t2 (bytes_bits src))"
        unfolding b by (subst steps_append, simp only: x option.case prod.case, subst steps_append, simp only: y option.case prod.case)
          (simp add: option.map_comp comp_def)
      have "huff_decode_loop (node_id t) en (ch # src) dst = huff_decode_loop (node_id t2) (node_ones t2) src (dst @ map word_of_int e1 @ map word_of_int e2)"
        using hi lo x y by simp
      also have "\<dots> = map_option (\<lambda>(t', e). (node_id t', if src = [] then node_ones t2 else node_ones t', (dst @ map word_of_int e1 @ map word_of_int e2) @ map word_of_int e)) (steps t2 (bytes_bits src))"
        by (rule IH)
      also have "\<dots> = map_option (\<lambda>(t', e). (node_id t', if ch # src = [] then en else node_ones t', dst @ map word_of_int e)) (steps t (bytes_bits (ch # src)))"
        unfolding s by (cases "steps t2 (bytes_bits src)"; cases src) (auto simp: bytes_bits_def)
      finally show ?thesis .
    qed
  qed
qed

lemma decode_loop_root: "huff_decode_loop 0 True src [] =
    map_option (\<lambda>(t', e). (node_id t', node_ones t', map word_of_int e)) (steps huff_root (bytes_bits src))"
  using decode_loop_steps[OF root_node, of True src "[]"] by (cases src) (simp_all add: bytes_bits_def)

lemma decode_codes:
  assumes k: "k < 30" "bytes_bits src = codes out @ replicate k True"
  shows "ngx_http_v2_huff_decode 0 src [] True = Some (0, out)"
proof -
  let ?t = "at_path huff_root (replicate k True)"
  have i: "is_inner ?t" using ones_inner k(1) by blast
  have "steps huff_root (bytes_bits src) = Some (?t, map uint out)"
    unfolding k(2) using steps_codes[OF steps_path[OF refl i], of out] by simp
  moreover have "node_ones ?t" using node_ones_path[OF refl i] by (simp add: list_all_id_replicate)
  ultimately show ?thesis using decode_loop_root[of src] by (simp add: ngx_http_v2_huff_decode_def comp_def)
qed

text \<open>
  C13 (equivalence). The decoder, driven by its table of 256 states, accepts exactly the strings of bytes whose bits are the
  codes of the result followed by ones, fewer than the 30 of the end-of-string code, and returns that result.
\<close>

theorem huff_decode_exact:
  "ngx_http_v2_huff_decode 0 src [] True = Some (0, out) \<longleftrightarrow>
     (\<exists>k. k < 30 \<and> bytes_bits src = codes out @ replicate k True)"
proof
  assume "ngx_http_v2_huff_decode 0 src [] True = Some (0, out)"
  then obtain t e where s: "steps huff_root (bytes_bits src) = Some (t, e)" "node_ones t" "out = map word_of_int e"
    using decode_loop_root[of src] by (auto simp: ngx_http_v2_huff_decode_def split: option.splits if_splits)
  obtain p where p: "bytes_bits src = codes out @ p" "at_path huff_root p = t" using steps_sound[OF s(1)] s(3) by blast
  have "is_inner t" by (rule steps_inner[OF s(1) root_inner(1)])
  hence "p = replicate (length p) True" using node_ones_path[OF p(2)] s(2) list_all_id_replicate by blast
  moreover from this have "length p < 30" using ones_inner[of "length p"] p(2) \<open>is_inner t\<close> by metis
  ultimately show "\<exists>k. k < 30 \<and> bytes_bits src = codes out @ replicate k True" using p(1) by metis
qed (use decode_codes in blast)

section \<open>The encoder against the code\<close>

definition table_ok :: "(int \<times> nat) list \<Rightarrow> bool" where
  "table_ok table \<longleftrightarrow> length table = 256 \<and> list_all (\<lambda>(v, n). 0 < n \<and> n \<le> 30 \<and> 0 \<le> v \<and> v < 2 ^ n) table"

lemma encode_table_ok: "table_ok ngx_http_v2_huff_encode_table"
  unfolding table_ok_def ngx_http_v2_huff_encode_table_def by simp

lemma encode_table_lc:
  "ngx_http_v2_huff_encode_table_lc = take 65 ngx_http_v2_huff_encode_table @ take 26 (drop 97 ngx_http_v2_huff_encode_table) @
     drop 91 ngx_http_v2_huff_encode_table"
  unfolding ngx_http_v2_huff_encode_table_def ngx_http_v2_huff_encode_table_lc_def by simp

lemma tolower_unat: "unat (ngx_tolower c) = (if 65 \<le> unat c \<and> unat c \<le> 90 then unat c + 32 else unat c)"
  by (rule all_bytesI[of _ c]) code_simp

lemma encode_table_lc_nth: "ngx_http_v2_huff_encode_table_lc ! unat c = ngx_http_v2_huff_encode_table ! unat (ngx_tolower c)"
proof -
  have "length ngx_http_v2_huff_encode_table = 256" using encode_table_ok by (simp add: table_ok_def)
  thus ?thesis using byte_bound[of c] unfolding encode_table_lc tolower_unat by (auto simp: nth_append add.commute)
qed

definition word_bits :: "64 word \<Rightarrow> bool list" where
  "word_bits w = map (\<lambda>i. bit w (63 - i)) [0..<64]"

lemma encode_buf_bits: "bytes_bits (ngx_http_v2_huff_encode_buf w) = word_bits w"
proof -
  have "[0..<64] = [0,1,2,3,4,5,6,7,8,9,10,11,12,13,14,15,16,17,18,19,20,21,22,23,24,25,26,27,28,29,30,31,32,33,34,35,36,37,38,39,
      40,41,42,43,44,45,46,47,48,49,50,51,52,53,54,55,56,57,58,59,60,61,62,63]" by (simp add: upt_rec)
  thus ?thesis
    by (simp add: bytes_bits_def byte_bits_def ngx_http_v2_huff_encode_buf_def word_bits_def bit_ucast_iff bit_drop_bit_eq)
qed

text \<open>The upper bits of the buffer are the pending ones, the others are zero.\<close>

definition pending_bits :: "64 word \<Rightarrow> bool list \<Rightarrow> bool" where
  "pending_bits buf pb \<longleftrightarrow> (\<forall>i < 64. bit buf (63 - i) = (i < length pb \<and> pb ! i))"

lemma code_path_nth: "i < n \<Longrightarrow> code_path (v, n) ! i = bit v (n - 1 - i)" "length (code_path (v, n)) = n"
  by (simp_all add: code_path_def)

lemma code_high: "0 \<le> v \<Longrightarrow> v < 2 ^ n \<Longrightarrow> n \<le> j \<Longrightarrow> \<not> bit (v :: int) j"
proof -
  assume a: "0 \<le> v" "v < 2 ^ n" "n \<le> j"
  have "(2 :: int) ^ n \<le> 2 ^ j" using a(3) by (rule power_increasing) simp
  hence "v < 2 ^ j" using a(2) by linarith
  hence "take_bit j v = v" using a(1) by (simp add: take_bit_int_eq_self)
  thus ?thesis by (metis bit_take_bit_iff less_irrefl)
qed

lemma bit_code: "j < 64 \<Longrightarrow> bit (word_of_int v :: 64 word) j = bit v j"
  by (simp add: bit_simps)

lemma pending_or:
  assumes "pending_bits buf pb" "length pb + n < 64" "0 \<le> v" "v < 2 ^ n"
  shows "pending_bits (buf OR push_bit (64 - (length pb + n)) (word_of_int v)) (pb @ code_path (v, n))"
  unfolding pending_bits_def
proof (intro allI impI)
  fix i :: nat assume i: "i < 64"
  let ?k = "64 - (length pb + n)"
  have "bit (buf OR push_bit ?k (word_of_int v)) (63 - i) = (bit buf (63 - i) \<or> ?k \<le> 63 - i \<and> bit v (63 - i - ?k))"
    using bit_code[of "63 - i - ?k" v] by (auto simp: bit_or_iff bit_push_bit_iff)
  also have "\<dots> = (i < length (pb @ code_path (v, n)) \<and> (pb @ code_path (v, n)) ! i)"
  proof (cases "i < length pb + n")
    case True
    hence e: "63 - i - ?k = length pb + n - 1 - i" "?k \<le> 63 - i" using assms(2) by auto
    show ?thesis
    proof (cases "i < length pb")
      case l: True
      hence "\<not> bit v (length pb + n - 1 - i)" by (intro code_high[OF assms(3,4)]) simp
      thus ?thesis using assms(1) i l True e by (simp add: pending_bits_def nth_append code_path_nth)
    next
      case False
      hence "code_path (v, n) ! (i - length pb) = bit v (length pb + n - 1 - i)" using True code_path_nth(1)[of "i - length pb" n v] by (simp add: add.commute)
      thus ?thesis using assms(1) i False True e by (simp add: pending_bits_def nth_append code_path_nth)
    qed
  next
    case False
    thus ?thesis using assms(1,2) i by (auto simp: pending_bits_def code_path_nth)
  qed
  finally show "bit (buf OR push_bit ?k (word_of_int v)) (63 - i) = (i < length (pb @ code_path (v, n)) \<and> (pb @ code_path (v, n)) ! i)" .
qed

lemma pending_flush:
  assumes "pending_bits buf pb" "length pb < 64" "64 \<le> length pb + n" "n \<le> 30" "0 \<le> v" "v < 2 ^ n" "k = length pb + n - 64"
  shows "word_bits (buf OR drop_bit k (word_of_int v)) = pb @ take (64 - length pb) (code_path (v, n))"
    "pending_bits (if k \<noteq> 0 then push_bit (64 - k) (word_of_int v) else 0) (drop (64 - length pb) (code_path (v, n)))"
proof -
  show "word_bits (buf OR drop_bit k (word_of_int v)) = pb @ take (64 - length pb) (code_path (v, n))"
  proof (rule nth_equalityI)
    show "length (word_bits (buf OR drop_bit k (word_of_int v))) = length (pb @ take (64 - length pb) (code_path (v, n)))"
      using assms(2,3) by (simp add: word_bits_def code_path_nth)
    fix i assume "i < length (word_bits (buf OR drop_bit k (word_of_int v)))"
    hence i: "i < 64" by (simp add: word_bits_def)
    have e: "63 - i + k = length pb + n - 1 - i" using assms(3,7) i by simp
    have "word_bits (buf OR drop_bit k (word_of_int v)) ! i = (bit buf (63 - i) \<or> bit (word_of_int v :: 64 word) (length pb + n - 1 - i))"
      unfolding e[symmetric] using i by (simp add: word_bits_def bit_or_iff bit_drop_bit_eq add.commute)
    also have "bit (word_of_int v :: 64 word) (length pb + n - 1 - i) = bit v (length pb + n - 1 - i)"
    proof (cases "length pb + n - 1 - i < 64")
      case False
      hence "\<not> bit v (length pb + n - 1 - i)" using assms(4) by (intro code_high[OF assms(5,6)]) simp
      thus ?thesis using False by (auto dest: bit_imp_le_length)
    qed (rule bit_code)
    also have "(bit buf (63 - i) \<or> bit v (length pb + n - 1 - i)) = (pb @ take (64 - length pb) (code_path (v, n))) ! i"
    proof (cases "i < length pb")
      case True
      hence "\<not> bit v (length pb + n - 1 - i)" by (intro code_high[OF assms(5,6)]) simp
      thus ?thesis using assms(1) i True by (simp add: pending_bits_def nth_append)
    next
      case False
      hence "code_path (v, n) ! (i - length pb) = bit v (length pb + n - 1 - i)" using i assms(3) code_path_nth(1)[of "i - length pb" n v] by (simp add: add.commute)
      thus ?thesis using assms(1) i False by (simp add: pending_bits_def nth_append)
    qed
    finally show "word_bits (buf OR drop_bit k (word_of_int v)) ! i = (pb @ take (64 - length pb) (code_path (v, n))) ! i" .
  qed
  show "pending_bits (if k \<noteq> 0 then push_bit (64 - k) (word_of_int v) else 0) (drop (64 - length pb) (code_path (v, n)))"
    unfolding pending_bits_def
  proof (intro allI impI)
    fix i :: nat assume i: "i < 64"
    have k: "k \<le> n" "k < 64" "length (drop (64 - length pb) (code_path (v, n))) = k" using assms(2-4,7) by (simp_all add: code_path_nth)
    have d: "drop (64 - length pb) (code_path (v, n)) ! i = bit v (k - 1 - i)" if "i < k"
    proof -
      have "64 - length pb + i < n" "n - 1 - (64 - length pb + i) = k - 1 - i" using that assms(2,3,7) by auto
      thus ?thesis using code_path_nth(1)[of "64 - length pb + i" n v] assms(2,3) by (simp add: code_path_nth)
    qed
    have "bit (push_bit (64 - k) (word_of_int v :: 64 word)) (63 - i) = (i < k \<and> bit v (k - 1 - i))" if "k \<noteq> 0"
    proof (cases "i < k")
      case True
      hence "63 - i - (64 - k) = k - 1 - i" "64 - k \<le> 63 - i" using k(2) by auto
      thus ?thesis using bit_code[of "k - 1 - i" v] k(2) True i by (auto simp: bit_push_bit_iff)
    next
      case False
      hence "\<not> 64 - k \<le> 63 - i" using i k(2) by simp
      thus ?thesis using False by (simp add: bit_push_bit_iff)
    qed
    thus "bit (if k \<noteq> 0 then push_bit (64 - k) (word_of_int v) else 0 :: 64 word) (63 - i) =
        (i < length (drop (64 - length pb) (code_path (v, n))) \<and> drop (64 - length pb) (code_path (v, n)) ! i)"
      unfolding k(3) using d by (cases "k = 0") auto
  qed
qed

definition table_codes :: "(int \<times> nat) list \<Rightarrow> u_char list \<Rightarrow> bool list" where
  "table_codes table s = concat (map (\<lambda>c. code_path (table ! unat c)) s)"

lemma bytes_bits_append [simp]: "bytes_bits (s @ s') = bytes_bits s @ bytes_bits s'"
  by (simp add: bytes_bits_def)

lemma bytes_bits_length: "length (bytes_bits s) = 8 * length s"
  by (induction s) (simp_all add: bytes_bits_def byte_bits_def)

lemma table_ok_entry:
  assumes "table_ok table" "table ! unat (c :: u_char) = (v, n)"
  shows "0 < n" "n \<le> 30" "0 \<le> v" "v < 2 ^ n"
proof -
  have "(v, n) \<in> set table" using assms byte_bound[of c] nth_mem[of "unat c" table] by (simp add: table_ok_def)
  thus "0 < n" "n \<le> 30" "0 \<le> v" "v < 2 ^ n" using assms(1) by (auto simp: table_ok_def list_all_iff)
qed

definition encode_state_ok :: "nat \<Rightarrow> u_char list \<Rightarrow> bool list \<Rightarrow> (64 word \<times> nat \<times> u_char list) option \<Rightarrow> bool" where
  "encode_state_ok len dst bs res \<longleftrightarrow>
     (case res of
        None \<Rightarrow> 8 * len \<le> length bs
      | Some (buf, pending, dst') \<Rightarrow> (\<exists>pb. length pb = pending \<and> pending < 64 \<and> pending_bits buf pb \<and> bytes_bits dst' @ pb = bs \<and>
          (dst' = dst \<or> length dst' < len)))"

lemma encode_state_dst: "encode_state_ok len dst' bs res \<Longrightarrow> length dst' < len \<Longrightarrow> encode_state_ok len dst bs res"
  by (auto simp: encode_state_ok_def split: option.splits)

lemma encode_loop:
  assumes "table_ok table" "pending_bits buf pb" "length pb < 64"
  shows "encode_state_ok len dst (bytes_bits dst @ pb @ table_codes table src) (huff_encode_loop table len src buf (length pb) dst)"
  using assms(2,3)
proof (induction src arbitrary: buf pb dst)
  case Nil
  thus ?case by (auto simp: encode_state_ok_def table_codes_def)
next
  case (Cons c src)
  obtain v n where vn: "table ! unat c = (v, n)" by (cases "table ! unat c")
  note ok = table_ok_entry[OF assms(1) vn]
  have cs: "table_codes table (c # src) = code_path (v, n) @ table_codes table src" using vn by (simp add: table_codes_def)
  show ?case
  proof (cases "length pb + n < 64")
    case True
    note IH = Cons.IH[OF pending_or[OF Cons.prems(1) True ok(3,4)], of dst]
    show ?thesis using IH True vn cs by (simp add: Let_def code_path_nth)
  next
    case False
    show ?thesis
    proof (cases "length dst + 8 \<ge> len")
      case l: True
      have "huff_encode_loop table len (c # src) buf (length pb) dst = None" using False l vn by (simp add: Let_def)
      thus ?thesis using False l cs by (simp add: encode_state_ok_def bytes_bits_length code_path_nth)
    next
      case l: False
      let ?k = "length pb + n - 64" and ?rest = "drop (64 - length pb) (code_path (v, n))"
      let ?buf1 = "buf OR drop_bit ?k (word_of_int v)" and ?buf2 = "if ?k \<noteq> 0 then push_bit (64 - ?k) (word_of_int v) else 0 :: 64 word"
      let ?dst = "dst @ ngx_http_v2_huff_encode_buf ?buf1"
      have n: "64 \<le> length pb + n" using False by simp
      note f = pending_flush[OF Cons.prems(1,2) n ok(2-4) refl]
      have k: "length ?rest = ?k" "length ?rest < 64" using ok(2) Cons.prems(2) n by (simp_all add: code_path_nth)
      have "encode_state_ok len ?dst (bytes_bits ?dst @ ?rest @ table_codes table src) (huff_encode_loop table len src ?buf2 ?k ?dst)"
        using Cons.IH[OF f(2) k(2), of ?dst] unfolding k(1) .
      moreover have "bytes_bits ?dst @ ?rest @ table_codes table src = bytes_bits dst @ pb @ table_codes table (c # src)"
        using cs by (simp add: encode_buf_bits f(1) append_assoc[symmetric] del: append_assoc) simp
      moreover have "huff_encode_loop table len (c # src) buf (length pb) dst = huff_encode_loop table len src ?buf2 ?k ?dst"
        using False l vn by (simp add: Let_def)
      moreover have "length ?dst < len" using l by (simp add: ngx_http_v2_huff_encode_buf_def)
      ultimately show ?thesis using encode_state_dst by metis
    qed
  qed
qed

text \<open>The bytes of the last, partly filled buffer.\<close>

lemma encode_tail:
  assumes "0 < m" "m \<le> 8"
  shows "huff_encode_tail (drop_bit (64 - 8 * m) buf) (8 * m) = take m (ngx_http_v2_huff_encode_buf buf)"
proof -
  have tail: "huff_encode_tail w (8 * k) = map (\<lambda>i. ucast (drop_bit (8 * (k - 1 - i)) w)) [0..<k]" if "0 < k" for k and w :: "64 word"
    using that
  proof (induction k)
    case (Suc k)
    show ?case
    proof (cases "k = 0")
      case True
      thus ?thesis by (subst huff_encode_tail.simps) simp
    next
      case False
      have "huff_encode_tail w (8 * Suc k) = ucast (drop_bit (8 * k) w) # huff_encode_tail w (8 * k)"
        using False by (subst huff_encode_tail.simps) simp
      also have "\<dots> = map (\<lambda>i. ucast (drop_bit (8 * (Suc k - 1 - i)) w)) (0 # map Suc [0..<k])" using Suc.IH False by simp
      finally show ?thesis by (simp only: map_Suc_upt upt_conv_Cons[of 0 "Suc k", OF zero_less_Suc])
    qed
  qed simp
  have buf: "ngx_http_v2_huff_encode_buf buf = map (\<lambda>i. ucast (drop_bit (56 - 8 * i) buf)) [0..<8]"
    by (simp add: ngx_http_v2_huff_encode_buf_def upt_rec)
  show ?thesis unfolding tail[OF assms(1)] buf
    by (rule nth_equalityI) (use assms in \<open>auto simp: drop_bit_drop_bit intro!: arg_cong[where f = "\<lambda>k. ucast (drop_bit k buf)"]\<close>)
qed

lemma pending_pad:
  assumes "pending_bits buf pb" "length pb < 64" "0 < length pb"
  shows "word_bits (buf OR drop_bit (length pb) (-1)) = pb @ replicate (64 - length pb) True"
proof (rule nth_equalityI)
  show "length (word_bits (buf OR drop_bit (length pb) (-1))) = length (pb @ replicate (64 - length pb) True)"
    using assms(2) by (simp add: word_bits_def)
  fix i assume "i < length (word_bits (buf OR drop_bit (length pb) (-1)))"
  hence i: "i < 64" by (simp add: word_bits_def)
  have "bit (drop_bit (length pb) (-1) :: 64 word) (63 - i) = (length pb \<le> i)"
    using i assms(2) by (auto simp: bit_drop_bit_eq bit_minus_1_iff bit_mask_iff)
  thus "word_bits (buf OR drop_bit (length pb) (-1)) ! i = (pb @ replicate (64 - length pb) True) ! i"
    using assms(1,2) i by (auto simp: word_bits_def bit_or_iff pending_bits_def nth_append)
qed

lemma table_codes_case:
  "table_codes (if lower then ngx_http_v2_huff_encode_table_lc else ngx_http_v2_huff_encode_table) src =
     codes (if lower then ngx_strlow src else src)"
  by (cases lower) (simp_all add: table_codes_def codes_def code_bits_def[abs_def] ngx_strlow_def encode_table_lc_nth comp_def)

lemma encode_table_lc_ok: "table_ok ngx_http_v2_huff_encode_table_lc"
proof -
  have "set (take 65 T) \<subseteq> set T" "set (take 26 (drop 97 T)) \<subseteq> set T" "set (drop 91 T) \<subseteq> set T" for T :: "(int \<times> nat) list"
    by (auto dest: in_set_takeD in_set_dropD)
  thus ?thesis using encode_table_ok unfolding table_ok_def encode_table_lc by (fastforce simp: list_all_iff)
qed

lemma bits_take: "bytes_bits (take m s) = take (8 * m) (bytes_bits s)"
proof (induction s arbitrary: m)
  case (Cons c s)
  have "length (byte_bits c) = 8" by (simp add: byte_bits_def)
  thus ?case using Cons by (cases m) (simp_all add: bytes_bits_def)
qed (simp add: bytes_bits_def)

lemma align_bytes: "ngx_align p 8 = 8 * ((p + 7) div 8)"
  by (simp add: ngx_align_def)

text \<open>The end of the encoder: the pending bits, filled with ones up to a byte.\<close>

lemma encode_end:
  assumes "pending_bits buf pb" "length pb < 64" "0 < length pb" "q = (length pb + 7) div 8"
  shows "bytes_bits (huff_encode_tail (drop_bit (64 - 8 * q) (buf OR drop_bit (length pb) (-1))) (8 * q)) =
    pb @ replicate (8 * q - length pb) True"
proof -
  have q: "0 < q" "q \<le> 8" "length pb \<le> 8 * q" using assms(2-4) by linarith+
  show ?thesis unfolding encode_tail[OF q(1,2)] bits_take encode_buf_bits pending_pad[OF assms(1-3)]
    using q by simp
qed

lemma encode_bits:
  assumes "cs = codes (if lower then ngx_strlow src else src)" "m = (length cs + 7) div 8"
  shows "if m < length src then bytes_bits (ngx_http_v2_huff_encode src lower) = cs @ replicate (8 * m - length cs) True
    else ngx_http_v2_huff_encode src lower = []"
proof -
  let ?table = "if lower then ngx_http_v2_huff_encode_table_lc else ngx_http_v2_huff_encode_table"
  let ?res = "huff_encode_loop ?table (length src) src 0 0 []"
  have ok: "table_ok ?table" using encode_table_ok encode_table_lc_ok by simp
  have st: "encode_state_ok (length src) [] cs ?res"
    using encode_loop[OF ok, of 0 "[]" "length src" "[]" src] assms(1)
    by (simp add: pending_bits_def table_codes_case bytes_bits_def)
  show ?thesis
  proof (cases ?res)
    case None
    hence "8 * length src \<le> length cs" using st by (simp add: encode_state_ok_def)
    hence "\<not> m < length src" using assms(2) by linarith
    thus ?thesis using None by (simp add: ngx_http_v2_huff_encode_def)
  next
    case (Some r)
    then obtain buf pb dst where r: "?res = Some (buf, length pb, dst)" "length pb < 64" "pending_bits buf pb" "bytes_bits dst @ pb = cs"
        "dst = [] \<or> length dst < length src"
      using st by (cases r) (auto simp: encode_state_ok_def)
    have lc: "length cs = 8 * length dst + length pb" using r(4) bytes_bits_length[of dst] by auto
    show ?thesis
    proof (cases "pb = []")
      case True
      thus ?thesis using r lc assms(2) by (auto simp: ngx_http_v2_huff_encode_def bytes_bits_def)
    next
      case False
      define q where "q = (length pb + 7) div 8"
      have m: "m = length dst + q" using assms(2) lc by (simp add: q_def)
      have "ngx_http_v2_huff_encode src lower = (if length src \<le> m then []
          else dst @ huff_encode_tail (drop_bit (64 - 8 * q) (buf OR drop_bit (length pb) (-1))) (8 * q))"
        using r(1) False m by (simp add: ngx_http_v2_huff_encode_def Let_def align_bytes q_def)
      thus ?thesis using encode_end[OF r(3,2) _ q_def] False r(4) lc m by auto
    qed
  qed
qed

text \<open>
  C17 (functional). The encoder returns the codes of the string (of its lower case, when asked) one after the other, filled with
  ones up to a whole number of bytes, when that is shorter than the string, and nothing otherwise.
\<close>

theorem huff_encode_exact:
  "let cs = codes (if lower then ngx_strlow src else src); m = (length cs + 7) div 8; enc = ngx_http_v2_huff_encode src lower
   in if m < length src then length enc = m \<and> bytes_bits enc = cs @ replicate (8 * m - length cs) True else enc = []"
proof -
  define cs m where "cs = codes (if lower then ngx_strlow src else src)" and "m = (length cs + 7) div 8"
  note e = encode_bits[OF cs_def m_def]
  have "length (ngx_http_v2_huff_encode src lower) = m" if "m < length src"
  proof -
    have "8 * length (ngx_http_v2_huff_encode src lower) = length (cs @ replicate (8 * m - length cs) True)"
      using e that bytes_bits_length[of "ngx_http_v2_huff_encode src lower"] by simp
    also have "\<dots> = 8 * m" by (simp add: m_def)
    finally show ?thesis by simp
  qed
  thus ?thesis using e unfolding Let_def cs_def[symmetric] m_def[symmetric] by simp
qed

text \<open>
  C16 (roundtrip). What the encoder produces, the decoder turns back into the string (in lower case, when the encoder was asked
  for it).
\<close>

theorem huff_roundtrip:
  assumes "ngx_http_v2_huff_encode src lower \<noteq> []"
  shows "ngx_http_v2_huff_decode 0 (ngx_http_v2_huff_encode src lower) [] True = Some (0, if lower then ngx_strlow src else src)"
proof -
  define cs m where "cs = codes (if lower then ngx_strlow src else src)" and "m = (length cs + 7) div 8"
  have "bytes_bits (ngx_http_v2_huff_encode src lower) = cs @ replicate (8 * m - length cs) True"
    using encode_bits[OF cs_def m_def] assms by (simp split: if_splits)
  moreover have "8 * m - length cs < 30" by (simp add: m_def)
  ultimately show ?thesis unfolding cs_def by (intro decode_codes)
qed

text \<open>The header name \<open>Accept\<close>, in lower case.\<close>

theorem huff_roundtrip_witness:
  "ngx_http_v2_huff_encode [0x41, 0x63, 0x63, 0x65, 0x70, 0x74] True = [0x19, 0x08, 0x5a, 0xd3] \<and>
   ngx_http_v2_huff_decode 0 [0x19, 0x08, 0x5a, 0xd3] [] True = Some (0, [0x61, 0x63, 0x63, 0x65, 0x70, 0x74])"
proof -
  have e: "ngx_http_v2_huff_encode [0x41, 0x63, 0x63, 0x65, 0x70, 0x74] True = [0x19, 0x08, 0x5a, 0xd3]" by code_simp
  have l: "ngx_strlow [0x41, 0x63, 0x63, 0x65, 0x70, 0x74] = [0x61, 0x63, 0x63, 0x65, 0x70, 0x74]" by code_simp
  show ?thesis using huff_roundtrip[of "[0x41, 0x63, 0x63, 0x65, 0x70, 0x74]" True] e l by simp
qed

end
