(* ===== verification/Spec2Isabelle.thy ===== *)
theory Spec2Isabelle
  imports Ngx_Base64 Ngx_Escape Ngx_Http_Chunked Ngx_Http_Request_Uri Ngx_Http_Header_Line Ngx_Stream_Hash Ngx_Event_Timer Ngx_Times Ngx_Radix_Map Ngx_Http_Range_Filter Ngx_Hash Ngx_Http_V2_Huff
begin

text \<open>
  A verification library for the nginx 1.12.0 sources of this repository
  (\<^verbatim>\<open>src/nginx-1.12.0/src\<close>).

  The program. nginx is an event-driven server: the core (\<^verbatim>\<open>src/core\<close>) provides strings, numbers,
  times and containers; \<^verbatim>\<open>src/http\<close> reads requests from a connection's buffer with resumable
  byte-by-byte parsers, normalises the request target and frames bodies; \<^verbatim>\<open>src/stream\<close> proxies TCP
  and UDP sessions and picks an upstream server for each with a load balancer.

  Conventions. A buffer is a list of bytes (8-bit words) and a pointer into it an index; a pointer
  that can be NULL is an option. Machine integers are words where their width matters. A loop
  \<open>for (p = b->pos; p < b->last; p++) switch (state)\<close> is the function \<open>scan\<close> of the prelude applied
  to the body of the loop; a parser is \<open>scan_parse\<close>, and the locale \<open>resumable_parser\<close> is the
  contract its callers rely on when bytes arrive in pieces. Linked structures live in an explicit
  store, a record of maps from addresses to fields; the loops that follow pointers there are
  \<open>partial_function (option)\<close>, and the theorems prove that they return. All other loops have a
  termination measure; no definition uses fuel. Allocation never fails.

  The theories.

  \<^item> \<open>Nginx_Prelude\<close>: types, character classes, scanning loops, the locale \<open>resumable_parser\<close>,
    list and word facts.
  \<^item> \<open>Ngx_Number\<close> (\<^verbatim>\<open>core/ngx_string.c\<close>): \<open>ngx_atoi\<close> and its relatives, \<open>ngx_hextoi\<close>,
    \<open>ngx_sprintf_num\<close>; exactness with overflow detection and the print/parse round trip.
  \<^item> \<open>Ngx_Base64\<close>, \<open>Ngx_Escape\<close> (\<^verbatim>\<open>core/ngx_string.c\<close>): the two base64 alphabets (locale
    \<open>base64_alphabet\<close>), URI, HTML and JSON escaping; round trips and exact output sizes.
  \<^item> \<open>Ngx_Http_Chunked\<close>: the chunked parser (\<^verbatim>\<open>http/ngx_http_parse.c\<close>), the request body filter
    that drives it and the response filter; round trip, exact \<open>ctx->length\<close>, bounds.
  \<^item> \<open>Ngx_Http_Request_Line\<close>, \<open>Ngx_Http_Complex_Uri\<close> (\<^verbatim>\<open>http/ngx_http_parse.c\<close>): the request line
    parser and the URI normaliser; soundness and completeness of the former, and that the latter
    refines \<open>decode, split, resolve\<close>.
  \<^item> \<open>Ngx_Http_Request_Uri\<close>, \<open>Ngx_Http_Header_Line\<close> (\<^verbatim>\<open>http/ngx_http_request.c\<close>,
    \<^verbatim>\<open>http/ngx_http_parse.c\<close>): the step from the request line to \<open>r->uri\<close>, with the size of the
    buffer of the normaliser, and the header line parser with the loop that calls it; a request's
    headers are read back as they were written, and resuming in mid-line changes nothing.
  \<^item> \<open>Ngx_Http_Range_Filter\<close> (\<^verbatim>\<open>http/modules/ngx_http_range_filter_module.c\<close>): byte ranges, from the Range header to the
    bytes of a single or multipart response; the overflow of the sum of sizes is modelled and shown to leak.
  \<^item> \<open>Ngx_Hash\<close> (\<^verbatim>\<open>core/ngx_hash.c\<close>): hash tables that are built once, with the layout of their block of memory; a built
    table is a map, and the 16-bit sizes of its buckets can overflow.
  \<^item> \<open>Ngx_Http_V2_Huff_Table\<close>, \<open>Ngx_Http_V2_Huff_Tree\<close>, \<open>Ngx_Http_V2_Huff\<close> (\<^verbatim>\<open>http/v2/ngx_http_v2_huff_decode.c\<close>,
    \<^verbatim>\<open>http/v2/ngx_http_v2_huff_encode.c\<close>): the Huffman code of HTTP/2. The tables are those of the source, number by number,
    and are checked against a binary tree of the code; the decoder accepts exactly codes followed by ones, the encoder writes
    exactly the codes when they are shorter than the string, and what is encoded is decoded.
  \<^item> \<open>Ngx_Crc32\<close> (\<^verbatim>\<open>core/ngx_crc32.c\<close>, \<^verbatim>\<open>.h\<close>): the table driven checksums, equal to the bitwise definition.
  \<^item> \<open>Ngx_Stream_Round_Robin\<close>, \<open>Ngx_Stream_Sessions\<close>, \<open>Ngx_Stream_Least_Conn\<close>, \<open>Ngx_Stream_Hash\<close>
    (\<^verbatim>\<open>stream/ngx_stream_upstream_*.c\<close>): the balancers. Locale \<open>selection\<close> is the contract of a
    choice in one group, locale \<open>balancer\<close> that of a \<open>get\<close> callback; the session invariant is
    proved from the latter and interpreted for the four balancers. Round robin is exactly fair; the
    consistent hash moves only the keys of a server that leaves.
  \<^item> \<open>Ngx_Rbtree\<close> (\<^verbatim>\<open>core/ngx_rbtree.c\<close>): the red-black tree with parent pointers and sentinel.
    \<open>Ngx_Rbtree_Shape\<close> relates the store to a functional tree with a context (a zipper);
    \<open>Ngx_Rbtree_Insert\<close> and \<open>Ngx_Rbtree_Delete\<close> prove the repair loops against it, in one half by
    mirror symmetry; \<open>Ngx_Rbtree_Order\<close> adds the order (locale \<open>node_order\<close>, interpreted for both
    insertion functions of the source) and has the refinement theorems.
  \<^item> \<open>Ngx_Event_Timer\<close> (\<^verbatim>\<open>event/ngx_event_timer.c\<close>, \<^verbatim>\<open>.h\<close>): the timers of the event loop on that
    tree; exactly the due timers run, in order, and the loop over them ends.
  \<^item> \<open>Ngx_Times\<close> (\<^verbatim>\<open>core/ngx_times.c\<close>, \<^verbatim>\<open>core/ngx_parse_time.c\<close>): dates. \<open>ngx_gmtime\<close> is a calendar that
    advances day by day, printed dates are parsed back, and the parser stays in its buffer.
  \<^item> \<open>Ngx_Radix_Tree\<close>, \<open>Ngx_Radix_Map\<close> (\<^verbatim>\<open>core/ngx_radix_tree.c\<close>): the radix trees of IPv4 and IPv6
    addresses with parent pointers, free list and page allocation. Locale \<open>prefix_map\<close> is the contract of a map
    with longest-prefix search, interpreted for both variants.

  Not modelled: the event loop but for its timers, system calls, TLS, configuration files, allocation, logging, the
  upstream and cache machinery of \<^verbatim>\<open>src/http\<close>, the frames and header tables of HTTP/2, the mail proxy and the content modules; the
  Windows branches of the parsers.
\<close>

end
